(* ===== verification/Prelude.thy ===== *)
theory Prelude
  imports Main "HOL-Library.Word"
begin

text \<open>
  The prelude of the development: what the components share.
  \<^item> the types of the model: Go strings as byte strings, instants as nanoseconds counted from Go's
    zero \<open>time.Time\<close>, results of fallible calls as sums (\<open>Inl\<close> carries the error), and the
    outcome of code that may panic;
  \<^item> the functions of Go's \<^verbatim>\<open>strings\<close>, \<^verbatim>\<open>path/filepath\<close> and slice expressions that
    several components use, with their algebra;
  \<^item> the fact collections \<open>go_simps\<close> (equations that evaluate the model) and \<open>wf_intros\<close>
    (preservation of well-formedness), which the component theories extend.
\<close>

named_theorems go_simps \<open>equations that evaluate the operations of the model\<close>
named_theorems wf_intros \<open>introduction rules for preservation of well-formedness\<close>

section \<open>Types of the model\<close>

type_synonym go_time = int
type_synonym duration = int
type_synonym rune = int
type_synonym byte = "8 word"
type_synonym 'a ptr = "'a option"

text \<open>\<open>time.Time.IsZero\<close>: the zero instant is the origin of the time line.\<close>

definition is_zero_time :: "go_time \<Rightarrow> bool" where
  "is_zero_time t = (t = 0)"

text \<open>Durations of package \<^verbatim>\<open>time\<close>, in nanoseconds.\<close>

definition go_second :: duration where
  "go_second = 1000000000"

text \<open>\<open>time.Time.Sub\<close> saturates at the ends of the 64-bit range.\<close>

definition time_sub :: "go_time \<Rightarrow> go_time \<Rightarrow> duration" where
  "time_sub a b = max (- (2 ^ 63)) (min (2 ^ 63 - 1) (a - b))"

text \<open>A call that may panic: \<open>Panic\<close> is the run-time error, \<open>Done\<close> the returned value.\<close>

datatype 'a outcome = Panic | Done (the_done: 'a)

fun and_then :: "'a outcome \<Rightarrow> ('a \<Rightarrow> 'b outcome) \<Rightarrow> 'b outcome" where
  "and_then Panic f = Panic"
| "and_then (Done x) f = f x"

fun is_ok :: "'e + 'a \<Rightarrow> bool" where
  "is_ok (Inl e) = False"
| "is_ok (Inr x) = True"

section \<open>Functions of package strings\<close>

text \<open>\<open>strings.HasPrefix\<close>, \<open>strings.HasSuffix\<close> and \<open>strings.TrimPrefix\<close>.\<close>

definition has_prefix :: "'a list \<Rightarrow> 'a list \<Rightarrow> bool" where
  "has_prefix s p = (take (length p) s = p)"

definition has_suffix :: "'a list \<Rightarrow> 'a list \<Rightarrow> bool" where
  "has_suffix s p = (length p \<le> length s \<and> drop (length s - length p) s = p)"

definition trim_prefix :: "'a list \<Rightarrow> 'a list \<Rightarrow> 'a list" where
  "trim_prefix s p = (if has_prefix s p then drop (length p) s else s)"

text \<open>\<open>strings.Contains\<close>: some suffix of the text starts with the pattern.\<close>

fun contains_str :: "'a list \<Rightarrow> 'a list \<Rightarrow> bool" where
  "contains_str [] p = (p = [])"
| "contains_str (x # xs) p = (has_prefix (x # xs) p \<or> contains_str xs p)"

text \<open>\<open>strings.Split\<close> at a one-byte separator; the result is never empty.\<close>

fun split_on :: "'a \<Rightarrow> 'a list \<Rightarrow> 'a list list" where
  "split_on c [] = [[]]"
| "split_on c (x # xs) =
     (if x = c then [] # split_on c xs
      else (case split_on c xs of [] \<Rightarrow> [[x]] | y # ys \<Rightarrow> (x # y) # ys))"

text \<open>\<open>strings.Join\<close> with a one-byte separator.\<close>

fun join_with :: "'a \<Rightarrow> 'a list list \<Rightarrow> 'a list" where
  "join_with c [] = []"
| "join_with c [x] = x"
| "join_with c (x # y # zs) = x @ c # join_with c (y # zs)"

section \<open>Slices\<close>

text \<open>
  Removal of one element by \<open>copy(q[i:], q[i+1:])\<close> and truncation, and insertion by appending a
  zero element, shifting with \<open>copy(q[i+1:], q[i:])\<close> and writing at \<open>i\<close>.
\<close>

definition remove_at :: "nat \<Rightarrow> 'a list \<Rightarrow> 'a list" where
  "remove_at i xs = take i xs @ drop (Suc i) xs"

definition insert_at :: "nat \<Rightarrow> 'a \<Rightarrow> 'a list \<Rightarrow> 'a list" where
  "insert_at i x xs = take i xs @ x # drop i xs"

text \<open>The index of the first element that satisfies a predicate, as a loop with \<open>break\<close> finds it.\<close>

fun find_index :: "('a \<Rightarrow> bool) \<Rightarrow> 'a list \<Rightarrow> nat option" where
  "find_index P [] = None"
| "find_index P (x # xs) = (if P x then Some 0 else map_option Suc (find_index P xs))"

section \<open>Lexical paths: filepath.Clean and filepath.IsAbs on Unix\<close>

definition is_abs :: "string \<Rightarrow> bool" where
  "is_abs p = has_prefix p ''/''"

text \<open>
  \<open>filepath.Clean\<close> reads the path component by component and keeps a stack of the output: empty
  components and \<^verbatim>\<open>.\<close> are dropped, \<^verbatim>\<open>..\<close> removes the last component, is dropped at
  the root and kept at the start of a relative path. The stack is kept last component first.
\<close>

fun clean_step :: "bool \<Rightarrow> string list \<Rightarrow> string \<Rightarrow> string list" where
  "clean_step rooted out seg =
     (if seg = '''' \<or> seg = ''.'' then out
      else if seg = ''..'' then
        (case out of
           [] \<Rightarrow> (if rooted then [] else [''..''])
         | tp # rest \<Rightarrow> (if tp = ''..'' then ''..'' # out else rest))
      else seg # out)"

definition clean_stack :: "bool \<Rightarrow> string list \<Rightarrow> string list" where
  "clean_stack rooted comps = foldl (clean_step rooted) [] comps"

definition clean_path :: "string \<Rightarrow> string" where
  "clean_path p =
     (let rooted = is_abs p;
          out = join_with (CHR ''/'') (rev (clean_stack rooted (split_on (CHR ''/'') p)))
      in if rooted then CHR ''/'' # out else if out = '''' then ''.'' else out)"

section \<open>Lemmas on strings\<close>

lemma has_prefix_Nil [simp]: "has_prefix s []"
  by (simp add: has_prefix_def)

lemma has_prefix_iff: "has_prefix s p \<longleftrightarrow> (\<exists>t. s = p @ t)"
  by (metis append_eq_conv_conj has_prefix_def append_take_drop_id)

lemma has_prefix_append [simp]: "has_prefix (p @ t) p"
  by (simp add: has_prefix_def)

lemma trim_prefix_append [simp]: "trim_prefix (p @ t) p = t"
  by (simp add: trim_prefix_def)

lemma has_prefix_trim: "has_prefix s p \<Longrightarrow> p @ trim_prefix s p = s"
  by (auto simp: has_prefix_iff)

lemma split_on_not_Nil [simp]: "split_on c s \<noteq> []"
  by (induction s) (auto split: list.splits)

lemma join_with_Cons: "xs \<noteq> [] \<Longrightarrow> join_with c (x # xs) = x @ c # join_with c xs"
  by (cases xs) auto

lemma join_with_Cons_Cons: "join_with c ((x # y) # ys) = x # join_with c (y # ys)"
  by (cases ys) auto

lemma join_split_on [simp]: "join_with c (split_on c s) = s"
  by (induction s) (auto split: list.splits simp: join_with_Cons join_with_Cons_Cons)

lemma split_on_no_sep: "seg \<in> set (split_on c s) \<Longrightarrow> c \<notin> set seg"
proof (induction s arbitrary: seg)
  case Nil
  then show ?case by simp
next
  case (Cons x xs)
  then show ?case by (cases "split_on c xs") (auto split: if_splits)
qed

lemma split_on_id: "c \<notin> set s \<Longrightarrow> split_on c s = [s]"
  by (induction s) auto

lemma split_on_append_sep: "c \<notin> set s \<Longrightarrow> split_on c (s @ c # t) = s # split_on c t"
  by (induction s) auto

lemma split_join_with:
  assumes "xs \<noteq> []" and "\<forall>x \<in> set xs. c \<notin> set x"
  shows "split_on c (join_with c xs) = xs"
  using assms
proof (induction c xs rule: join_with.induct)
  case (3 c x y zs)
  then show ?case by (simp add: split_on_append_sep)
qed (simp_all add: split_on_id)

lemma length_split_on: "length (split_on c s) = Suc (count_list s c)"
  by (induction s) (auto split: list.splits)

lemma set_split_on_subset: "seg \<in> set (split_on c s) \<Longrightarrow> set seg \<subseteq> set s"
proof (induction s arbitrary: seg)
  case Nil
  then show ?case by simp
next
  case (Cons x xs)
  show ?case
  proof (cases "x = c")
    case True
    with Cons show ?thesis by auto
  next
    case False
    then obtain y ys where yy: "split_on c xs = y # ys"
      by (meson neq_Nil_conv split_on_not_Nil)
    with False Cons.prems have "seg = x # y \<or> seg \<in> set ys" by auto
    with yy Cons.IH [of y] Cons.IH [of seg] show ?thesis by auto
  qed
qed

section \<open>Lemmas on slices\<close>

lemma length_remove_at [simp]: "i < length xs \<Longrightarrow> length (remove_at i xs) = length xs - 1"
  by (simp add: remove_at_def)

lemma length_insert_at [simp]: "i \<le> length xs \<Longrightarrow> length (insert_at i x xs) = Suc (length xs)"
  by (simp add: insert_at_def)

lemma insert_remove_at: "i < length xs \<Longrightarrow> insert_at i (xs ! i) (remove_at i xs) = xs"
  by (simp add: insert_at_def remove_at_def id_take_nth_drop [symmetric])

lemma remove_insert_at: "i \<le> length xs \<Longrightarrow> remove_at i (insert_at i x xs) = xs"
  by (simp add: insert_at_def remove_at_def)

lemma set_remove_at: "set (remove_at i xs) \<subseteq> set xs"
  by (auto simp: remove_at_def dest: in_set_takeD in_set_dropD)

lemma set_insert_at: "set (insert_at i x xs) = insert x (set xs)"
  by (simp add: insert_at_def) (metis append_take_drop_id set_append)

lemma find_index_Some: "find_index P xs = Some i \<Longrightarrow> i < length xs \<and> P (xs ! i)"
  by (induction xs arbitrary: i) (auto split: if_splits)

lemma find_index_first: "find_index P xs = Some i \<Longrightarrow> j < i \<Longrightarrow> \<not> P (xs ! j)"
proof (induction xs arbitrary: i j)
  case Nil
  then show ?case by simp
next
  case (Cons x xs)
  then show ?case by (cases j) (auto split: if_splits)
qed

lemma find_index_None: "find_index P xs = None \<longleftrightarrow> (\<forall>x \<in> set xs. \<not> P x)"
  by (induction xs) auto

section \<open>Lemmas on outcomes\<close>

lemma and_then_Done: "and_then m f = Done y \<longleftrightarrow> (\<exists>x. m = Done x \<and> f x = Done y)"
  by (cases m) auto

lemma and_then_assoc: "and_then (and_then m f) g = and_then m (\<lambda>x. and_then (f x) g)"
  by (cases m) auto

section \<open>Lemmas on lexical paths\<close>

text \<open>A component that \<open>Clean\<close> leaves alone: not empty, not \<^verbatim>\<open>.\<close>, not \<^verbatim>\<open>..\<close> and without a slash.\<close>

definition plain_comp :: "string \<Rightarrow> bool" where
  "plain_comp x \<longleftrightarrow> x \<noteq> '''' \<and> x \<noteq> ''.'' \<and> x \<noteq> ''..'' \<and> CHR ''/'' \<notin> set x"

lemma clean_step_plain: "plain_comp x \<Longrightarrow> clean_step r out x = x # out"
  by (simp add: plain_comp_def)

lemma foldl_clean_plain:
  "list_all plain_comp xs \<Longrightarrow> foldl (clean_step r) out xs = rev xs @ out"
  by (induction xs arbitrary: out) (auto simp: clean_step_plain simp del: clean_step.simps)

lemma clean_step_rooted_plain:
  "list_all plain_comp out \<Longrightarrow> CHR ''/'' \<notin> set x \<Longrightarrow> list_all plain_comp (clean_step True out x)"
  by (auto simp: plain_comp_def split: list.splits)

lemma clean_stack_rooted_plain:
  assumes "\<forall>x \<in> set xs. CHR ''/'' \<notin> set x"
  shows "list_all plain_comp (clean_stack True xs)"
proof -
  have "list_all plain_comp out \<Longrightarrow> list_all plain_comp (foldl (clean_step True) out xs)" for out
    using assms
  proof (induction xs arbitrary: out)
    case (Cons x xs)
    then have "list_all plain_comp (clean_step True out x)"
      by (intro clean_step_rooted_plain) auto
    with Cons show ?case by simp
  qed simp
  then show ?thesis by (simp add: clean_stack_def)
qed

lemma clean_path_abs:
  "clean_path (CHR ''/'' # p) =
     CHR ''/'' # join_with (CHR ''/'') (rev (clean_stack True (split_on (CHR ''/'') p)))"
  by (simp add: clean_path_def is_abs_def has_prefix_def clean_stack_def)

section \<open>Reasoning about code that may panic\<close>

text \<open>The call returns, and its result satisfies \<open>P\<close>.\<close>

fun ok_with :: "('a \<Rightarrow> bool) \<Rightarrow> 'a outcome \<Rightarrow> bool" where
  "ok_with P Panic = False"
| "ok_with P (Done x) = P x"

lemma ok_with_iff: "ok_with P m \<longleftrightarrow> (\<exists>x. m = Done x \<and> P x)"
  by (cases m) auto

lemma ok_with_and_then: "ok_with Q (and_then m f) \<longleftrightarrow> ok_with (\<lambda>x. ok_with Q (f x)) m"
  by (cases m) auto

lemma and_then_Panic: "and_then m f = Panic \<longleftrightarrow> m = Panic \<or> (\<exists>x. m = Done x \<and> f x = Panic)"
  by (cases m) auto

lemma ok_with_mono: "\<lbrakk>ok_with P m; \<And>x. P x \<Longrightarrow> Q x\<rbrakk> \<Longrightarrow> ok_with Q m"
  by (cases m) auto

lemma ok_with_bind: "\<lbrakk>ok_with P m; \<And>x. P x \<Longrightarrow> ok_with Q (f x)\<rbrakk> \<Longrightarrow> ok_with Q (and_then m f)"
  by (cases m) auto

lemma and_then_return [simp]: "and_then m Done = m"
  by (cases m) auto

end
