(* ===== verification/Domain_Values.thy ===== *)
theory Domain_Values
  imports Prelude
begin

text \<open>
  The value objects of package \<^verbatim>\<open>internal/domain\<close>: enumerations, errors, exit codes, timeouts,
  process start times, slugs, task identifiers, session references and normalized paths, each with
  its validating constructor, and the generator of task identifiers of
  \<^verbatim>\<open>internal/transport/usecase/taskid.go\<close>.

  A Go string enumeration is a datatype with one constructor per declared constant and a last
  constructor for every other string, which a decoded file may hold. A pointer field is an option.
\<close>

section \<open>Enumerations and errors\<close>

datatype task_state =
    StateQueued | StateStarting | StateRunning | StateStalled | StateCompleted | StateFailed
  | StateTimeout | StateRecovering | StateRecovered | StateTimeoutLost | StateCancelling
  | StateKilled | StateAdopted | StateOrphaned | StateLost | StateOther string

datatype protocol_verb =
    ProtocolVerbSubmit | ProtocolVerbStatus | ProtocolVerbCancel | ProtocolVerbTail
  | ProtocolVerbPing

datatype subcommand =
    SubcommandImpl | SubcommandReview | SubcommandPlan | SubcommandResearch | SubcommandRead
  | SubcommandThink | SubcommandStatus | SubcommandLogs | SubcommandCancel | SubcommandDoctor
  | SubcommandCleanup | SubcommandStats | SubcommandOther string

datatype execution_route = ExecutionRouteDaemon | ExecutionRouteLegacy | ExecutionRouteOther string

datatype exit_code_class =
    ExitCodeClassSuccess | ExitCodeClassFailure | ExitCodeClassTimeout | ExitCodeClassCancelled

text \<open>The zero value of \<open>RecoveryOrigin\<close> is the empty string: no recovery was attempted.\<close>

datatype recovery_origin =
    RecoveryOriginNone | RecoveryOriginTimeout | RecoveryOriginOrphan | RecoveryOriginOther string

datatype worktree_mode = WorktreeModeAuto | WorktreeModeCurrent | WorktreeModeOther string

datatype domain_error =
    ErrInvalidStateTransition | ErrTaskAlreadyTerminal | ErrSessionNotResumable | ErrTaskNotFound
  | ErrPathLockConflict | ErrPathLockInfraFailure | ErrQueueFull | ErrContractWriteFailed
  | ErrOutputContractViolation | ErrPTYAllocationFailed | ErrChildProcessLaunchFailed
  | ErrText string

fun terminal :: "task_state \<Rightarrow> bool" where
  "terminal s = (s = StateCompleted \<or> s = StateFailed \<or> s = StateRecovered \<or> s = StateTimeoutLost
     \<or> s = StateKilled \<or> s = StateLost)"

fun IsSubmittable :: "subcommand \<Rightarrow> bool" where
  "IsSubmittable s = (s = SubcommandImpl \<or> s = SubcommandReview \<or> s = SubcommandPlan
     \<or> s = SubcommandResearch \<or> s = SubcommandRead \<or> s = SubcommandThink)"

fun SupportsOutputSchema :: "subcommand \<Rightarrow> bool" where
  "SupportsOutputSchema s = (s = SubcommandReview \<or> s = SubcommandResearch)"

definition IsValidSandboxMode :: "string \<Rightarrow> bool" where
  "IsValidSandboxMode mode = (mode = ''read-only'' \<or> mode = ''workspace-write'')"

fun subcommand_name :: "subcommand \<Rightarrow> string" where
  "subcommand_name SubcommandImpl = ''impl''"
| "subcommand_name SubcommandReview = ''review''"
| "subcommand_name SubcommandPlan = ''plan''"
| "subcommand_name SubcommandResearch = ''research''"
| "subcommand_name SubcommandRead = ''read''"
| "subcommand_name SubcommandThink = ''think''"
| "subcommand_name SubcommandStatus = ''status''"
| "subcommand_name SubcommandLogs = ''logs''"
| "subcommand_name SubcommandCancel = ''cancel''"
| "subcommand_name SubcommandDoctor = ''doctor''"
| "subcommand_name SubcommandCleanup = ''cleanup''"
| "subcommand_name SubcommandStats = ''stats''"
| "subcommand_name (SubcommandOther s) = s"

definition ParseWorktreeMode :: "string \<Rightarrow> domain_error + worktree_mode" where
  "ParseWorktreeMode v =
     (if v = ''auto'' then Inr WorktreeModeAuto
      else if v = ''current'' then Inr WorktreeModeCurrent
      else Inl (ErrText ''invalid worktree mode''))"

section \<open>Exit codes, timeouts, process start times\<close>

record exit_code =
  ec_raw :: int
  ec_class :: exit_code_class

definition NewExitCode :: "int \<Rightarrow> exit_code" where
  "NewExitCode raw =
     \<lparr>ec_raw = raw,
      ec_class =
        (if raw = 0 then ExitCodeClassSuccess
         else if raw = 6 \<or> raw = 124 \<or> raw = 137 then ExitCodeClassTimeout
         else if raw = 130 then ExitCodeClassCancelled
         else ExitCodeClassFailure)\<rparr>"

definition timeoutMinSeconds :: int where
  "timeoutMinSeconds = 1800"

record timeout =
  requestedSeconds :: "int option"
  resolvedSeconds :: int

definition NewTimeout :: "int option \<Rightarrow> int \<Rightarrow> domain_error + timeout" where
  "NewTimeout requested resolved =
     (if resolved < timeoutMinSeconds
         \<or> (case requested of None \<Rightarrow> False | Some r \<Rightarrow> r < timeoutMinSeconds)
      then Inl (ErrText ''invalid timeout'')
      else Inr \<lparr>requestedSeconds = requested, resolvedSeconds = resolved\<rparr>)"

definition ResolveTimeout :: "int option \<Rightarrow> domain_error + timeout" where
  "ResolveTimeout requested =
     (case requested of
        None \<Rightarrow> NewTimeout None timeoutMinSeconds
      | Some r \<Rightarrow> NewTimeout requested r)"

text \<open>The zero value of \<open>Timeout\<close>, which a task holds until it starts.\<close>

definition zero_timeout :: timeout where
  "zero_timeout = \<lparr>requestedSeconds = None, resolvedSeconds = 0\<rparr>"

record process_start_time =
  pst_pid :: int
  pst_startedAt :: go_time

definition NewProcessStartTime :: "int \<Rightarrow> go_time \<Rightarrow> domain_error + process_start_time" where
  "NewProcessStartTime pid at =
     (if pid \<le> 0 \<or> is_zero_time at then Inl (ErrText ''invalid process start time'')
      else Inr \<lparr>pst_pid = pid, pst_startedAt = at\<rparr>)"

section \<open>Character classes of the regular expressions\<close>

definition char_between :: "char \<Rightarrow> char \<Rightarrow> char \<Rightarrow> bool" where
  "char_between lo hi c = ((of_char lo :: nat) \<le> of_char c \<and> (of_char c :: nat) \<le> of_char hi)"

definition is_digit_char :: "char \<Rightarrow> bool" where
  "is_digit_char = char_between (CHR ''0'') (CHR ''9'')"

definition lower_alnum :: "char \<Rightarrow> bool" where
  "lower_alnum c = (char_between (CHR ''a'') (CHR ''z'') c \<or> is_digit_char c)"

definition lower_hex :: "char \<Rightarrow> bool" where
  "lower_hex c = (is_digit_char c \<or> char_between (CHR ''a'') (CHR ''f'') c)"

definition any_hex :: "char \<Rightarrow> bool" where
  "any_hex c = (lower_hex c \<or> char_between (CHR ''A'') (CHR ''F'') c)"

text \<open>A class repeated exactly \<open>n\<close> times.\<close>

definition rep_class :: "(char \<Rightarrow> bool) \<Rightarrow> nat \<Rightarrow> string \<Rightarrow> bool" where
  "rep_class P n s = (length s = n \<and> list_all P s)"

text \<open>A class repeated at least once.\<close>

definition plus_class :: "(char \<Rightarrow> bool) \<Rightarrow> string \<Rightarrow> bool" where
  "plus_class P s = (s \<noteq> [] \<and> list_all P s)"

section \<open>Slugs\<close>

datatype slug = Slug (slug_string: string)

definition slugMaxLength :: nat where
  "slugMaxLength = 40"

text \<open>
  \<^verbatim>\<open>^[a-z0-9]+(-[a-z0-9]+)*$\<close>: the segments between the dashes are non-empty runs of lower-case
  letters and digits.
\<close>

definition slugPattern :: "string \<Rightarrow> bool" where
  "slugPattern s = list_all (plus_class lower_alnum) (split_on (CHR ''-'') s)"

definition NewSlug :: "string \<Rightarrow> domain_error + slug" where
  "NewSlug v =
     (if length v = 0 \<or> length v > slugMaxLength \<or> \<not> slugPattern v
      then Inl (ErrText ''invalid slug'') else Inr (Slug v))"

section \<open>Task identifiers\<close>

datatype task_id = TaskID (tid_string: string)

fun digits_value :: "nat \<Rightarrow> string \<Rightarrow> nat" where
  "digits_value acc [] = acc"
| "digits_value acc (c # cs) = digits_value (acc * 10 + (of_char c - 48)) cs"

definition leap_year :: "nat \<Rightarrow> bool" where
  "leap_year y = (y mod 4 = 0 \<and> (y mod 100 \<noteq> 0 \<or> y mod 400 = 0))"

definition days_in :: "nat \<Rightarrow> nat \<Rightarrow> nat" where
  "days_in m y =
     (if m = 2 then (if leap_year y then 29 else 28)
      else if m \<in> {4, 6, 9, 11} then 30 else 31)"

text \<open>
  \<open>time.Parse("20060102 150405", date + " " + clock)\<close> on eight and six digits: what is left to
  check is the range of each field and the length of the month.
\<close>

definition parse_datetime_ok :: "string \<Rightarrow> string \<Rightarrow> bool" where
  "parse_datetime_ok date clock =
     (let y = digits_value 0 (take 4 date);
          m = digits_value 0 (take 2 (drop 4 date));
          d = digits_value 0 (drop 6 date);
          hh = digits_value 0 (take 2 clock);
          mi = digits_value 0 (take 2 (drop 2 clock));
          ss = digits_value 0 (drop 4 clock)
      in 1 \<le> m \<and> m \<le> 12 \<and> 1 \<le> d \<and> d \<le> days_in m y \<and> hh < 24 \<and> mi < 60 \<and> ss < 60)"

text \<open>
  The submatches of \<open>taskIDPattern\<close>. The first four groups hold no dash, so they are the first four
  segments; the fifth is the rest of the text.
\<close>

definition task_id_submatch ::
    "string \<Rightarrow> (string \<times> string \<times> string \<times> string \<times> string) option" where
  "task_id_submatch v =
     (case split_on (CHR ''-'') v of
        g1 # g2 # g3 # g4 # rest \<Rightarrow>
          (if g1 \<in> {''impl'', ''review'', ''plan'', ''research'', ''read'', ''think''}
              \<and> rep_class is_digit_char 8 g2 \<and> rep_class is_digit_char 6 g3
              \<and> rep_class lower_hex 4 g4
              \<and> rest \<noteq> [] \<and> list_all (plus_class lower_alnum) rest
           then Some (g1, g2, g3, g4, join_with (CHR ''-'') rest) else None)
      | _ \<Rightarrow> None)"

definition NewTaskID :: "string \<Rightarrow> domain_error + task_id" where
  "NewTaskID v =
     (case task_id_submatch v of
        None \<Rightarrow> Inl (ErrText ''invalid task id'')
      | Some (g1, g2, g3, g4, g5) \<Rightarrow>
          if \<not> parse_datetime_ok g2 g3 then Inl (ErrText ''invalid task id: time'')
          else (case NewSlug g5 of Inl e \<Rightarrow> Inl e | Inr _ \<Rightarrow> Inr (TaskID v)))"

definition slugFromTaskID :: "task_id \<Rightarrow> domain_error + slug" where
  "slugFromTaskID tid =
     (case task_id_submatch (tid_string tid) of
        None \<Rightarrow> Inl (ErrText ''task id does not embed a slug'')
      | Some (g1, g2, g3, g4, g5) \<Rightarrow> NewSlug g5)"

section \<open>Generation of task identifiers\<close>

text \<open>The calendar fields of an instant in its location, as \<open>Time.Format\<close> prints them.\<close>

record civil_time =
  civ_year :: nat
  civ_month :: nat
  civ_day :: nat
  civ_hour :: nat
  civ_min :: nat
  civ_sec :: nat

definition civil_ok :: "civil_time \<Rightarrow> bool" where
  "civil_ok c \<longleftrightarrow> civ_year c < 10000 \<and> 1 \<le> civ_month c \<and> civ_month c \<le> 12
     \<and> 1 \<le> civ_day c \<and> civ_day c \<le> days_in (civ_month c) (civ_year c)
     \<and> civ_hour c < 24 \<and> civ_min c < 60 \<and> civ_sec c < 60"

text \<open>Zero-padded decimal digits, as the layouts \<^verbatim>\<open>2006\<close>, \<^verbatim>\<open>01\<close>, \<^verbatim>\<open>02\<close>,
  \<^verbatim>\<open>15\<close>, \<^verbatim>\<open>04\<close> and \<^verbatim>\<open>05\<close> print them.\<close>

definition digit_char :: "nat \<Rightarrow> char" where
  "digit_char d = char_of (48 + d)"

definition pad2 :: "nat \<Rightarrow> string" where
  "pad2 n = [digit_char (n div 10 mod 10), digit_char (n mod 10)]"

definition pad4 :: "nat \<Rightarrow> string" where
  "pad4 n = pad2 (n div 100) @ pad2 (n mod 100)"

definition format_date :: "civil_time \<Rightarrow> string" where
  "format_date c = pad4 (civ_year c) @ pad2 (civ_month c) @ pad2 (civ_day c)"

definition format_clock :: "civil_time \<Rightarrow> string" where
  "format_clock c = pad2 (civ_hour c) @ pad2 (civ_min c) @ pad2 (civ_sec c)"

definition hex_char :: "nat \<Rightarrow> char" where
  "hex_char d = (if d < 10 then char_of (48 + d) else char_of (87 + d))"

definition hex_encode :: "byte list \<Rightarrow> string" where
  "hex_encode bs = concat (map (\<lambda>b. [hex_char (unat b div 16), hex_char (unat b mod 16)]) bs)"

text \<open>\<open>newTaskID\<close>: the random reader delivers two bytes or fails.\<close>

definition newTaskID :: "subcommand \<Rightarrow> slug \<Rightarrow> civil_time \<Rightarrow> (byte \<times> byte) option
    \<Rightarrow> domain_error + task_id" where
  "newTaskID sub sl at random =
     (case random of
        None \<Rightarrow> Inl (ErrText ''task ID random read failed'')
      | Some (b1, b2) \<Rightarrow>
          NewTaskID (subcommand_name sub @ ''-'' @ format_date at @ ''-'' @ format_clock at
            @ ''-'' @ hex_encode [b1, b2] @ ''-'' @ slug_string sl))"

section \<open>Session references\<close>

record session_ref =
  sr_sessionID :: string
  sr_capturedAt :: go_time
  sr_ephemeral :: bool

definition uuidPattern :: "string \<Rightarrow> bool" where
  "uuidPattern s =
     (case split_on (CHR ''-'') s of
        [a, b, c, d, e] \<Rightarrow> rep_class any_hex 8 a \<and> rep_class any_hex 4 b \<and> rep_class any_hex 4 c
          \<and> rep_class any_hex 4 d \<and> rep_class any_hex 12 e
      | _ \<Rightarrow> False)"

definition NewSessionRef :: "string \<Rightarrow> go_time \<Rightarrow> bool \<Rightarrow> domain_error + session_ref" where
  "NewSessionRef sid at ephemeral =
     (if \<not> uuidPattern sid \<or> is_zero_time at \<or> ephemeral
      then Inl (ErrText ''invalid session reference'')
      else Inr \<lparr>sr_sessionID = sid, sr_capturedAt = at, sr_ephemeral = False\<rparr>)"

section \<open>Normalized paths\<close>

datatype normalized_path = NormalizedPath (np_string: string)

definition NewNormalizedPath :: "string \<Rightarrow> domain_error + normalized_path" where
  "NewNormalizedPath v =
     (if v = '''' \<or> \<not> is_abs v \<or> clean_path v \<noteq> v \<or> (v \<noteq> ''/'' \<and> last v = CHR ''/'')
      then Inl (ErrText ''invalid normalized path'') else Inr (NormalizedPath v))"

section \<open>Lemmas\<close>

lemma NewTimeout_Inr [go_simps]:
  "NewTimeout r n = Inr t \<longleftrightarrow>
     timeoutMinSeconds \<le> n \<and> (\<forall>k. r = Some k \<longrightarrow> timeoutMinSeconds \<le> k)
     \<and> t = \<lparr>requestedSeconds = r, resolvedSeconds = n\<rparr>"
  by (auto simp: NewTimeout_def split: option.splits)

lemma NewProcessStartTime_Inr [go_simps]:
  "NewProcessStartTime pid at = Inr p \<longleftrightarrow>
     0 < pid \<and> at \<noteq> 0 \<and> p = \<lparr>pst_pid = pid, pst_startedAt = at\<rparr>"
  by (auto simp: NewProcessStartTime_def is_zero_time_def)

lemma NewSlug_Inr: "NewSlug v = Inr s \<longleftrightarrow> length v \<le> 40 \<and> slugPattern v \<and> v \<noteq> [] \<and> s = Slug v"
  by (auto simp: NewSlug_def slugMaxLength_def)

lemma lower_alnum_not_dash: "lower_alnum c \<Longrightarrow> c \<noteq> CHR ''-''"
  by (auto simp: lower_alnum_def char_between_def is_digit_char_def)

lemma digit_not_dash: "is_digit_char c \<Longrightarrow> c \<noteq> CHR ''-''"
  by (auto simp: char_between_def is_digit_char_def)

lemma lower_hex_not_dash: "lower_hex c \<Longrightarrow> c \<noteq> CHR ''-''"
  by (auto simp: lower_hex_def char_between_def is_digit_char_def)

lemma rep_class_no_dash:
  "rep_class P n s \<Longrightarrow> (\<And>c. P c \<Longrightarrow> c \<noteq> CHR ''-'') \<Longrightarrow> CHR ''-'' \<notin> set s"
  by (auto simp: rep_class_def list_all_iff)

lemma ResolveTimeout_ok:
  "ResolveTimeout r = Inr t \<Longrightarrow> 1800 \<le> resolvedSeconds t \<and> (\<forall>k. r = Some k \<longrightarrow> resolvedSeconds t = k)"
  by (auto simp: ResolveTimeout_def NewTimeout_def timeoutMinSeconds_def split: option.splits if_splits)


lemma of_digit_char [simp]: "d < 10 \<Longrightarrow> (of_char (digit_char d) :: nat) = 48 + d"
  by (simp add: digit_char_def)

lemma is_digit_digit_char [simp]: "d < 10 \<Longrightarrow> is_digit_char (digit_char d)"
  by (simp add: is_digit_char_def char_between_def)

lemma rep_class_append:
  "rep_class P m s \<Longrightarrow> rep_class P n t \<Longrightarrow> rep_class P (m + n) (s @ t)"
  by (simp add: rep_class_def)

lemma rep_class_pad2 [simp]: "rep_class is_digit_char 2 (pad2 n)"
  by (simp add: rep_class_def pad2_def)

lemma length_pad2 [simp]: "length (pad2 n) = 2"
  by (simp add: pad2_def)

lemma digits_value_pad2: "n < 100 \<Longrightarrow> digits_value acc (pad2 n) = acc * 100 + n"
  by (simp add: pad2_def)

lemma digits_value_append: "digits_value acc (s @ t) = digits_value (digits_value acc s) t"
  by (induction s arbitrary: acc) auto

lemma rep_class_pad4 [simp]: "rep_class is_digit_char 4 (pad4 n)"
  using rep_class_append [of is_digit_char 2 _ 2] by (simp add: pad4_def)

lemma digits_value_pad4: "n < 10000 \<Longrightarrow> digits_value 0 (pad4 n) = n"
  by (simp add: pad4_def digits_value_append digits_value_pad2)

lemma length_pad4 [simp]: "length (pad4 n) = 4"
  by (simp add: pad4_def)

lemma rep_class_format:
  "rep_class is_digit_char 8 (format_date c)" "rep_class is_digit_char 6 (format_clock c)"
  using rep_class_append [of is_digit_char 4 "pad4 (civ_year c)" 4 "pad2 (civ_month c) @ pad2 (civ_day c)"]
    rep_class_append [of is_digit_char 2 "pad2 (civ_month c)" 2 "pad2 (civ_day c)"]
    rep_class_append [of is_digit_char 2 "pad2 (civ_hour c)" 4 "pad2 (civ_min c) @ pad2 (civ_sec c)"]
    rep_class_append [of is_digit_char 2 "pad2 (civ_min c)" 2 "pad2 (civ_sec c)"]
  by (simp_all add: format_date_def format_clock_def)

lemma days_in_le: "days_in m y \<le> 31"
  by (simp add: days_in_def)

lemma parse_format_datetime:
  assumes "civil_ok c"
  shows "parse_datetime_ok (format_date c) (format_clock c)"
proof -
  have "civ_day c < 100"
    using assms days_in_le [of "civ_month c" "civ_year c"] by (auto simp: civil_ok_def)
  with assms show ?thesis
    by (simp add: parse_datetime_ok_def format_date_def format_clock_def civil_ok_def
        digits_value_pad2 digits_value_pad4)
qed

lemma lower_hex_hex_char: "d < 16 \<Longrightarrow> lower_hex (hex_char d)"
  by (auto simp: lower_hex_def hex_char_def is_digit_char_def char_between_def)

lemma hex_encode2: "rep_class lower_hex 4 (hex_encode [b1, b2])"
proof -
  have "unat b div 16 < 16" for b :: byte
    using unsigned_less [of b, where ?'a = nat] by (simp add: less_mult_imp_div_less)
  then show ?thesis
    by (simp add: hex_encode_def rep_class_def lower_hex_hex_char)
qed

lemma subcommand_name_submittable:
  "IsSubmittable sub \<Longrightarrow>
     subcommand_name sub \<in> {''impl'', ''review'', ''plan'', ''research'', ''read'', ''think''}"
  by (cases sub) auto

lemma task_id_submatch_join:
  assumes "g1 \<in> {''impl'', ''review'', ''plan'', ''research'', ''read'', ''think''}"
    and "rep_class is_digit_char 8 g2" and "rep_class is_digit_char 6 g3"
    and "rep_class lower_hex 4 g4" and "slugPattern g5"
  shows "task_id_submatch (g1 @ ''-'' @ g2 @ ''-'' @ g3 @ ''-'' @ g4 @ ''-'' @ g5)
    = Some (g1, g2, g3, g4, g5)"
proof -
  have g1: "CHR ''-'' \<notin> set g1" using assms(1) by auto
  have g2: "CHR ''-'' \<notin> set g2" using rep_class_no_dash [OF assms(2)] digit_not_dash by blast
  have g3: "CHR ''-'' \<notin> set g3" using rep_class_no_dash [OF assms(3)] digit_not_dash by blast
  have g4: "CHR ''-'' \<notin> set g4" using rep_class_no_dash [OF assms(4)] lower_hex_not_dash by blast
  have "split_on (CHR ''-'') (g1 @ ''-'' @ g2 @ ''-'' @ g3 @ ''-'' @ g4 @ ''-'' @ g5)
      = g1 # g2 # g3 # g4 # split_on (CHR ''-'') g5"
    using g1 g2 g3 g4 by (simp add: split_on_append_sep)
  with assms show ?thesis
    by (simp add: task_id_submatch_def slugPattern_def)
qed

lemma newTaskID_ok:
  assumes "IsSubmittable sub" and "NewSlug v = Inr sl" and "civil_ok at"
  shows "\<exists>tid. newTaskID sub sl at (Some (b1, b2)) = Inr tid \<and> slugFromTaskID tid = Inr sl
    \<and> NewTaskID (tid_string tid) = Inr tid"
proof -
  let ?v = "subcommand_name sub @ ''-'' @ format_date at @ ''-'' @ format_clock at
            @ ''-'' @ hex_encode [b1, b2] @ ''-'' @ slug_string sl"
  from assms(2) have sl: "slugPattern (slug_string sl)" "NewSlug (slug_string sl) = Inr sl"
    by (auto simp: NewSlug_Inr)
  have sub: "task_id_submatch ?v = Some (subcommand_name sub, format_date at, format_clock at,
      hex_encode [b1, b2], slug_string sl)"
    using subcommand_name_submittable [OF assms(1)] rep_class_format [of at] hex_encode2 sl(1)
    by (intro task_id_submatch_join)
  with sl parse_format_datetime [OF assms(3)] have "NewTaskID ?v = Inr (TaskID ?v)"
    by (simp add: NewTaskID_def)
  with sub sl show ?thesis
    by (simp add: newTaskID_def slugFromTaskID_def)
qed

text \<open>
  Every identifier that \<open>newTaskID\<close> generates for a submittable subcommand, a valid slug and a
  valid calendar time is accepted by \<open>NewTaskID\<close>, whatever the two random bytes are, and the slug
  can be read back from it.
\<close>

theorem newTaskID_roundtrip:
  assumes "IsSubmittable sub" and "NewSlug v = Inr sl" and "civil_ok at"
  shows "\<exists>tid. newTaskID sub sl at (Some (b1, b2)) = Inr tid \<and> slugFromTaskID tid = Inr sl
    \<and> NewTaskID (tid_string tid) = Inr tid"
  by (rule newTaskID_ok [OF assms])

theorem newTaskID_roundtrip_witness:
  "\<exists>tid. newTaskID SubcommandImpl (Slug ''fix-a1'')
      \<lparr>civ_year = 2024, civ_month = 2, civ_day = 29, civ_hour = 23, civ_min = 59, civ_sec = 0\<rparr>
      (Some (171, 7)) = Inr tid \<and> slugFromTaskID tid = Inr (Slug ''fix-a1'')
    \<and> NewTaskID (tid_string tid) = Inr tid"
proof (rule newTaskID_roundtrip)
  show "IsSubmittable SubcommandImpl" by simp
  show "NewSlug ''fix-a1'' = Inr (Slug ''fix-a1'')"
    by (simp add: NewSlug_def slugMaxLength_def slugPattern_def plus_class_def lower_alnum_def
        char_between_def is_digit_char_def)
  show "civil_ok \<lparr>civ_year = 2024, civ_month = 2, civ_day = 29, civ_hour = 23, civ_min = 59,
      civ_sec = 0\<rparr>"
    by (simp add: civil_ok_def days_in_def leap_year_def)
qed

lemma last_join_with:
  "xs \<noteq> [] \<Longrightarrow> list_all plain_comp xs \<Longrightarrow>
     join_with (CHR ''/'') xs \<noteq> [] \<and> last (join_with (CHR ''/'') xs) \<noteq> CHR ''/''"
proof (induction "CHR ''/''" xs rule: join_with.induct)
  case (2 x)
  then show ?case by (auto simp: plain_comp_def dest: last_in_set)
next
  case (3 x y zs)
  then show ?case by auto
qed simp

lemma clean_path_plain:
  assumes "list_all plain_comp xs"
  shows "clean_path (CHR ''/'' # join_with (CHR ''/'') xs) = CHR ''/'' # join_with (CHR ''/'') xs"
proof (cases "xs = []")
  case True
  then show ?thesis
    by (simp add: clean_path_abs clean_stack_def)
next
  case False
  with assms have "split_on (CHR ''/'') (join_with (CHR ''/'') xs) = xs"
    by (intro split_join_with) (auto simp: list_all_iff plain_comp_def)
  with assms show ?thesis
    by (simp add: clean_path_abs clean_stack_def foldl_clean_plain)
qed

text \<open>
  \<open>NewNormalizedPath\<close> accepts exactly the absolute paths that are the root or a slash
  followed by plain components (non-empty, neither dot nor dot-dot) separated by single slashes.
\<close>

theorem NewNormalizedPath_iff:
  "is_ok (NewNormalizedPath v) \<longleftrightarrow>
     (\<exists>comps. list_all plain_comp comps \<and> v = CHR ''/'' # join_with (CHR ''/'') comps)"
proof
  assume "is_ok (NewNormalizedPath v)"
  then have abs: "is_abs v" and cl: "clean_path v = v"
    by (auto simp: NewNormalizedPath_def split: if_splits)
  from abs obtain p where v: "v = CHR ''/'' # p"
    by (auto simp: is_abs_def has_prefix_iff)
  have "list_all plain_comp (clean_stack True (split_on (CHR ''/'') p))"
    by (intro clean_stack_rooted_plain) (auto dest: split_on_no_sep)
  then have "list_all plain_comp (rev (clean_stack True (split_on (CHR ''/'') p)))"
    by simp
  moreover have "v = CHR ''/'' # join_with (CHR ''/'')
      (rev (clean_stack True (split_on (CHR ''/'') p)))"
    using cl by (simp add: v clean_path_abs)
  ultimately show "\<exists>comps. list_all plain_comp comps \<and> v = CHR ''/'' # join_with (CHR ''/'') comps"
    by blast
next
  assume "\<exists>comps. list_all plain_comp comps \<and> v = CHR ''/'' # join_with (CHR ''/'') comps"
  then obtain comps where c: "list_all plain_comp comps"
    and v: "v = CHR ''/'' # join_with (CHR ''/'') comps" by blast
  show "is_ok (NewNormalizedPath v)"
    using last_join_with [OF _ c] clean_path_plain [OF c]
    by (cases "comps = []") (auto simp: v NewNormalizedPath_def is_abs_def has_prefix_def)
qed

end
