(* ===== verification/Task.thy ===== *)
theory Task
  imports Domain_Values
begin

text \<open>
  The task aggregate of \<^verbatim>\<open>internal/domain/task.go\<close> with the domain events of
  \<^verbatim>\<open>internal/domain/event.go\<close>. A method with a pointer receiver is a function from the task
  to the pair of the task it leaves behind and its result, so that what a failing call did to the
  task is part of the model. The methods are also collected as operations (\<open>task_op\<close>), so that
  one theorem speaks about all of them and about every run.
\<close>

section \<open>Domain events\<close>

datatype event =
    TaskQueued task_id subcommand slug "int option" int go_time
  | TaskStarted task_id process_start_time int string execution_route go_time
  | TaskEventObserved task_id string go_time
  | TaskStalled task_id "go_time option" int go_time
  | TaskExited task_id exit_code bool bool bool go_time
  | TaskCompleted task_id exit_code go_time
  | TaskFailed task_id exit_code string go_time
  | TaskTimedOut task_id int "session_ref option" go_time
  | RecoveryAttempted task_id recovery_origin "session_ref option" go_time
  | RecoverySucceeded task_id exit_code go_time
  | RecoveryFailed task_id recovery_origin bool go_time
  | TaskAdopted task_id bool go_time
  | TaskOrphanDetected task_id string go_time
  | TaskCancelRequested task_id protocol_verb bool go_time
  | TaskKilled task_id exit_code bool go_time

text \<open>The event names of the transition table.\<close>

datatype transition_event =
    eventTaskQueued | eventTaskStarted | eventTaskEventObserved | eventTaskStalled
  | eventTaskExited | eventTaskTimedOut | eventRecoveryAttempted | eventRecoverySucceeded
  | eventRecoveryFailed | eventTaskAdopted | eventTaskOrphanDetected | eventTaskCancelRequested
  | eventTaskKilled

section \<open>The aggregate\<close>

record task =
  id :: task_id
  subcommand :: subcommand
  slug :: slug
  requestedTimeout :: "int option"
  requestedAt :: go_time
  state :: task_state
  queuePosition :: int
  timeout :: timeout
  model :: string
  processStartTime :: "process_start_time option"
  lastEventAt :: go_time
  sessionRef :: "session_ref option"
  recoveryOrigin :: recovery_origin
  adoptedAfterRestart :: bool
  exitCode :: "exit_code option"

definition NewTask :: "task_id \<Rightarrow> subcommand \<Rightarrow> slug \<Rightarrow> int option \<Rightarrow> go_time \<Rightarrow> int
    \<Rightarrow> domain_error + (task \<times> event list)" where
  "NewTask tid sub sl req at pos =
     (if \<not> IsSubmittable sub then Inl (ErrText ''subcommand is not submittable'')
      else Inr (\<lparr>id = tid, subcommand = sub, slug = sl, requestedTimeout = req, requestedAt = at,
                 state = StateQueued, queuePosition = pos, timeout = zero_timeout, model = '''',
                 processStartTime = None, lastEventAt = 0, sessionRef = None,
                 recoveryOrigin = RecoveryOriginNone, adoptedAfterRestart = False,
                 exitCode = None\<rparr>,
                [TaskQueued tid sub sl req pos at]))"

fun allowed :: "task_state \<Rightarrow> transition_event \<Rightarrow> bool" where
  "allowed StateQueued e =
     (e \<in> {eventTaskQueued, eventTaskStarted, eventTaskCancelRequested})"
| "allowed StateStarting e =
     (e \<in> {eventTaskExited, eventTaskAdopted, eventTaskOrphanDetected, eventTaskCancelRequested})"
| "allowed StateRunning e =
     (e \<in> {eventTaskEventObserved, eventTaskStalled, eventTaskExited, eventTaskTimedOut,
           eventTaskAdopted, eventTaskOrphanDetected, eventTaskCancelRequested})"
| "allowed StateStalled e =
     (e \<in> {eventTaskEventObserved, eventTaskStalled, eventTaskExited, eventTaskTimedOut,
           eventTaskAdopted, eventTaskOrphanDetected, eventTaskCancelRequested})"
| "allowed StateTimeout e = (e \<in> {eventRecoveryAttempted})"
| "allowed StateRecovering e = (e \<in> {eventRecoverySucceeded, eventRecoveryFailed})"
| "allowed StateCancelling e = (e \<in> {eventTaskCancelRequested, eventTaskKilled})"
| "allowed StateAdopted e =
     (e \<in> {eventTaskExited, eventTaskOrphanDetected, eventTaskCancelRequested})"
| "allowed StateOrphaned e =
     (e \<in> {eventTaskExited, eventRecoveryAttempted, eventTaskCancelRequested})"
| "allowed _ e = False"

definition transition :: "transition_event \<Rightarrow> task_state \<Rightarrow> task \<Rightarrow> task \<times> domain_error option" where
  "transition ev destination t =
     (if terminal (state t) \<and> ev = eventTaskCancelRequested then (t, Some ErrTaskAlreadyTerminal)
      else if \<not> allowed (state t) ev then (t, Some ErrInvalidStateTransition)
      else (t\<lparr>state := destination\<rparr>, None))"

type_synonym task_result = "task \<times> (domain_error + event list)"

definition Requeue :: "int \<Rightarrow> go_time \<Rightarrow> task \<Rightarrow> task_result" where
  "Requeue pos at t =
     (case transition eventTaskQueued StateQueued t of
        (t, Some e) \<Rightarrow> (t, Inl e)
      | (t, None) \<Rightarrow>
          (t\<lparr>queuePosition := pos\<rparr>,
           Inr [TaskQueued (id t) (subcommand t) (slug t) (requestedTimeout t) pos at]))"

definition Start :: "timeout \<Rightarrow> string \<Rightarrow> go_time \<Rightarrow> task \<Rightarrow> task_result" where
  "Start to mdl at t =
     (case transition eventTaskStarted StateStarting t of
        (t, Some e) \<Rightarrow> (t, Inl e)
      | (t, None) \<Rightarrow> (t\<lparr>timeout := to, model := mdl\<rparr>, Inr []))"

definition RecordProcessInfo :: "int \<Rightarrow> go_time \<Rightarrow> go_time \<Rightarrow> task \<Rightarrow> task_result" where
  "RecordProcessInfo pid startedAt at t =
     (if state t \<noteq> StateStarting \<or> processStartTime t \<noteq> None
      then (t, Inl ErrInvalidStateTransition)
      else (case NewProcessStartTime pid startedAt of
              Inl e \<Rightarrow> (t, Inl e)
            | Inr process \<Rightarrow>
                (t\<lparr>processStartTime := Some process\<rparr>,
                 Inr [TaskStarted (id t) process (resolvedSeconds (timeout t)) (model t)
                        ExecutionRouteDaemon at])))"

definition ConfirmRunning :: "go_time \<Rightarrow> task \<Rightarrow> task_result" where
  "ConfirmRunning at t =
     (if state t = StateStarting \<or> state t = StateAdopted
      then (t\<lparr>state := StateRunning\<rparr>, Inr [])
      else (t, Inl ErrInvalidStateTransition))"

definition ObserveEvent :: "string \<Rightarrow> go_time \<Rightarrow> task \<Rightarrow> task_result" where
  "ObserveEvent eventType at t =
     (case transition eventTaskEventObserved StateRunning t of
        (t, Some e) \<Rightarrow> (t, Inl e)
      | (t, None) \<Rightarrow> (t\<lparr>lastEventAt := at\<rparr>, Inr [TaskEventObserved (id t) eventType at]))"

definition MarkStalled :: "int \<Rightarrow> go_time \<Rightarrow> task \<Rightarrow> task_result" where
  "MarkStalled gap at t =
     (case transition eventTaskStalled StateStalled t of
        (t, Some e) \<Rightarrow> (t, Inl e)
      | (t, None) \<Rightarrow>
          (t, Inr [TaskStalled (id t)
                     (if is_zero_time (lastEventAt t) then None else Some (lastEventAt t)) gap at]))"

definition ReasonNoOutput :: string where
  "ReasonNoOutput = ''no-output''"

definition ReasonAbnormalExit :: string where
  "ReasonAbnormalExit = ''abnormal-exit-code''"

definition RecordExit :: "exit_code \<Rightarrow> bool \<Rightarrow> bool \<Rightarrow> bool \<Rightarrow> go_time \<Rightarrow> task \<Rightarrow> task_result" where
  "RecordExit ec lastMessagePresent estimated adopted at t =
     (if state t = StateOrphaned \<and> \<not> estimated
      then (t, Inl (ErrText ''orphan exit must be estimated''))
      else
        let estimated = (estimated \<or> adoptedAfterRestart t);
            adopted = (adopted \<or> adoptedAfterRestart t);
            success = (ec_class ec = ExitCodeClassSuccess);
            destination = (if success \<and> lastMessagePresent then StateCompleted else StateFailed)
        in (case transition eventTaskExited destination t of
              (t, Some e) \<Rightarrow> (t, Inl e)
            | (t, None) \<Rightarrow>
                (t\<lparr>exitCode := Some ec\<rparr>,
                 Inr (TaskExited (id t) ec lastMessagePresent estimated adopted at #
                   (if destination = StateCompleted then [TaskCompleted (id t) ec at]
                    else [TaskFailed (id t) ec
                            (if success then ReasonNoOutput else ReasonAbnormalExit) at])))))"

definition MarkTimedOut :: "session_ref option \<Rightarrow> go_time \<Rightarrow> task \<Rightarrow> task_result" where
  "MarkTimedOut ref at t =
     (case transition eventTaskTimedOut StateTimeout t of
        (t, Some e) \<Rightarrow> (t, Inl e)
      | (t, None) \<Rightarrow>
          (t\<lparr>sessionRef := ref\<rparr>,
           Inr [TaskTimedOut (id t) (resolvedSeconds (timeout t)) ref at]))"

definition BeginRecovery :: "session_ref option \<Rightarrow> go_time \<Rightarrow> task \<Rightarrow> task_result" where
  "BeginRecovery ref at t =
     (let origin = (if state t = StateOrphaned then RecoveryOriginOrphan else RecoveryOriginTimeout)
      in (case transition eventRecoveryAttempted StateRecovering t of
            (t, Some e) \<Rightarrow> (t, Inl e)
          | (t, None) \<Rightarrow>
              (t\<lparr>recoveryOrigin := origin, sessionRef := ref\<rparr>,
               Inr [RecoveryAttempted (id t) origin ref at])))"

definition CompleteRecovery :: "exit_code \<Rightarrow> go_time \<Rightarrow> task \<Rightarrow> task_result" where
  "CompleteRecovery ec at t =
     (case transition eventRecoverySucceeded StateRecovered t of
        (t, Some e) \<Rightarrow> (t, Inl e)
      | (t, None) \<Rightarrow> (t\<lparr>exitCode := Some ec\<rparr>, Inr [RecoverySucceeded (id t) ec at]))"

definition FailRecovery :: "bool \<Rightarrow> go_time \<Rightarrow> task \<Rightarrow> task_result" where
  "FailRecovery partialOutputSaved at t =
     (let destination =
            (if recoveryOrigin t = RecoveryOriginTimeout then StateTimeoutLost else StateLost)
      in (case transition eventRecoveryFailed destination t of
            (t, Some e) \<Rightarrow> (t, Inl e)
          | (t, None) \<Rightarrow>
              (t, Inr [RecoveryFailed (id t) (recoveryOrigin t) partialOutputSaved at])))"

definition Adopt :: "bool \<Rightarrow> go_time \<Rightarrow> task \<Rightarrow> task_result" where
  "Adopt lockAcquired at t =
     (case transition eventTaskAdopted StateAdopted t of
        (t, Some e) \<Rightarrow> (t, Inl e)
      | (t, None) \<Rightarrow>
          (let t = t\<lparr>adoptedAfterRestart := True\<rparr>;
               events = [TaskAdopted (id t) lockAcquired at]
           in if lockAcquired then
                (case transition eventTaskOrphanDetected StateOrphaned t of
                   (t, Some e) \<Rightarrow> (t, Inl e)
                 | (t, None) \<Rightarrow> (t, Inr (events @ [TaskOrphanDetected (id t) ''adopted'' at])))
              else (t\<lparr>state := StateRunning\<rparr>, Inr events)))"

definition DetectOrphan :: "string \<Rightarrow> go_time \<Rightarrow> task \<Rightarrow> task_result" where
  "DetectOrphan detectedDuring at t =
     (if detectedDuring \<noteq> ''running'' \<and> detectedDuring \<noteq> ''starting'' \<and> detectedDuring \<noteq> ''adopted''
      then (t, Inl (ErrText ''invalid detected during''))
      else (case transition eventTaskOrphanDetected StateOrphaned t of
              (t, Some e) \<Rightarrow> (t, Inl e)
            | (t, None) \<Rightarrow> (t, Inr [TaskOrphanDetected (id t) detectedDuring at])))"

definition RequestCancel :: "bool \<Rightarrow> go_time \<Rightarrow> task \<Rightarrow> task_result" where
  "RequestCancel force at t =
     (case transition eventTaskCancelRequested StateCancelling t of
        (t, Some e) \<Rightarrow> (t, Inl e)
      | (t, None) \<Rightarrow> (t, Inr [TaskCancelRequested (id t) ProtocolVerbCancel force at]))"

definition ConfirmKilled :: "exit_code \<Rightarrow> bool \<Rightarrow> go_time \<Rightarrow> task \<Rightarrow> task_result" where
  "ConfirmKilled ec estimated at t =
     (case transition eventTaskKilled StateKilled t of
        (t, Some e) \<Rightarrow> (t, Inl e)
      | (t, None) \<Rightarrow> (t\<lparr>exitCode := Some ec\<rparr>, Inr [TaskKilled (id t) ec estimated at]))"

lemmas task_op_defs = Requeue_def Start_def RecordProcessInfo_def ConfirmRunning_def
  ObserveEvent_def MarkStalled_def RecordExit_def MarkTimedOut_def BeginRecovery_def
  CompleteRecovery_def FailRecovery_def Adopt_def DetectOrphan_def RequestCancel_def
  ConfirmKilled_def

section \<open>Operations and runs\<close>

datatype task_op =
    OpRequeue int go_time
  | OpStart timeout string go_time
  | OpRecordProcessInfo int go_time go_time
  | OpConfirmRunning go_time
  | OpObserveEvent string go_time
  | OpMarkStalled int go_time
  | OpRecordExit exit_code bool bool bool go_time
  | OpMarkTimedOut "session_ref option" go_time
  | OpBeginRecovery "session_ref option" go_time
  | OpCompleteRecovery exit_code go_time
  | OpFailRecovery bool go_time
  | OpAdopt bool go_time
  | OpDetectOrphan string go_time
  | OpRequestCancel bool go_time
  | OpConfirmKilled exit_code bool go_time

fun run_op :: "task_op \<Rightarrow> task \<Rightarrow> task_result" where
  "run_op (OpRequeue n at) t = Requeue n at t"
| "run_op (OpStart to m at) t = Start to m at t"
| "run_op (OpRecordProcessInfo pid st at) t = RecordProcessInfo pid st at t"
| "run_op (OpConfirmRunning at) t = ConfirmRunning at t"
| "run_op (OpObserveEvent ty at) t = ObserveEvent ty at t"
| "run_op (OpMarkStalled gap at) t = MarkStalled gap at t"
| "run_op (OpRecordExit ec l e a at) t = RecordExit ec l e a at t"
| "run_op (OpMarkTimedOut r at) t = MarkTimedOut r at t"
| "run_op (OpBeginRecovery r at) t = BeginRecovery r at t"
| "run_op (OpCompleteRecovery ec at) t = CompleteRecovery ec at t"
| "run_op (OpFailRecovery p at) t = FailRecovery p at t"
| "run_op (OpAdopt l at) t = Adopt l at t"
| "run_op (OpDetectOrphan d at) t = DetectOrphan d at t"
| "run_op (OpRequestCancel f at) t = RequestCancel f at t"
| "run_op (OpConfirmKilled ec e at) t = ConfirmKilled ec e at t"

text \<open>One successful call, and the histories of a task: its state with the log of its events.\<close>

inductive task_step :: "task \<Rightarrow> event list \<Rightarrow> task \<Rightarrow> bool" where
  step: "run_op c t = (t', Inr evs) \<Longrightarrow> task_step t evs t'"

inductive task_history :: "task \<Rightarrow> event list \<Rightarrow> bool" where
  created: "NewTask tid sub sl req at pos = Inr (t, evs) \<Longrightarrow> task_history t evs"
| continued: "task_history t log \<Longrightarrow> task_step t evs t' \<Longrightarrow> task_history t' (log @ evs)"

text \<open>The events that close a task.\<close>

fun closing_event :: "event \<Rightarrow> bool" where
  "closing_event (TaskCompleted _ _ _) = True"
| "closing_event (TaskFailed _ _ _ _) = True"
| "closing_event (TaskKilled _ _ _ _) = True"
| "closing_event (RecoverySucceeded _ _ _) = True"
| "closing_event (RecoveryFailed _ _ _ _) = True"
| "closing_event _ = False"

section \<open>The invariant\<close>

definition lineage :: "task_state \<Rightarrow> bool" where
  "lineage s \<longleftrightarrow> s \<in> {StateRecovering, StateRecovered, StateTimeoutLost, StateLost}"

definition task_inv :: "task \<Rightarrow> bool" where
  "task_inv t \<longleftrightarrow>
     (exitCode t \<noteq> None \<longleftrightarrow> state t \<in> {StateCompleted, StateFailed, StateRecovered, StateKilled})
     \<and> (recoveryOrigin t \<noteq> RecoveryOriginNone \<longleftrightarrow> lineage (state t))
     \<and> (state t = StateTimeoutLost \<longrightarrow> recoveryOrigin t = RecoveryOriginTimeout)
     \<and> (state t = StateLost \<longrightarrow> recoveryOrigin t = RecoveryOriginOrphan)
     \<and> (lineage (state t) \<longrightarrow> recoveryOrigin t \<in> {RecoveryOriginTimeout, RecoveryOriginOrphan})
     \<and> (state t = StateCompleted \<longrightarrow> map_option ec_class (exitCode t) = Some ExitCodeClassSuccess)
     \<and> (case processStartTime t of None \<Rightarrow> True | Some p \<Rightarrow> 0 < pst_pid p \<and> pst_startedAt p \<noteq> 0)
     \<and> (state t = StateQueued \<longrightarrow> processStartTime t = None \<and> \<not> adoptedAfterRestart t)
     \<and> state t \<noteq> StateAdopted \<and> (\<forall>s. state t \<noteq> StateOther s)
     \<and> IsSubmittable (subcommand t)"

section \<open>Lemmas\<close>

lemma transition_cases:
  "transition ev d t = (t', r) \<Longrightarrow>
     (r = None \<and> t' = t\<lparr>state := d\<rparr> \<and> allowed (state t) ev) \<or> (t' = t \<and> r \<noteq> None)"
  by (auto simp: transition_def split: if_splits)

lemma terminal_not_allowed: "terminal s \<Longrightarrow> \<not> allowed s ev"
  by (cases s) auto

lemma transition_terminal:
  "terminal (state t) \<Longrightarrow>
     transition ev d t = (t, Some (if ev = eventTaskCancelRequested then ErrTaskAlreadyTerminal
                                   else ErrInvalidStateTransition))"
  by (auto simp: transition_def terminal_not_allowed simp del: terminal.simps)



lemma transition_None:
  "transition ev d t = (t', None) \<longleftrightarrow> allowed (state t) ev \<and> t' = t\<lparr>state := d\<rparr>"
  using terminal_not_allowed [of "state t" ev] by (auto simp: transition_def)

lemma transition_alt:
  "transition ev d t =
     (if allowed (state t) ev then (t\<lparr>state := d\<rparr>, None)
      else (t, Some (if terminal (state t) \<and> ev = eventTaskCancelRequested
                     then ErrTaskAlreadyTerminal else ErrInvalidStateTransition)))"
  using terminal_not_allowed [of "state t" ev] by (auto simp: transition_def)

lemma transition_Some: "transition ev d t = (t', Some e) \<Longrightarrow> t' = t"
  by (auto simp: transition_def split: if_splits)

text \<open>The columns of the transition table: the states from which each event is accepted.\<close>

lemma allowed_column [go_simps]:
  "allowed s eventTaskQueued \<longleftrightarrow> s = StateQueued"
  "allowed s eventTaskStarted \<longleftrightarrow> s = StateQueued"
  "allowed s eventTaskEventObserved \<longleftrightarrow> s = StateRunning \<or> s = StateStalled"
  "allowed s eventTaskStalled \<longleftrightarrow> s = StateRunning \<or> s = StateStalled"
  "allowed s eventTaskExited \<longleftrightarrow> s = StateStarting \<or> s = StateRunning \<or> s = StateStalled
     \<or> s = StateAdopted \<or> s = StateOrphaned"
  "allowed s eventTaskTimedOut \<longleftrightarrow> s = StateRunning \<or> s = StateStalled"
  "allowed s eventRecoveryAttempted \<longleftrightarrow> s = StateTimeout \<or> s = StateOrphaned"
  "allowed s eventRecoverySucceeded \<longleftrightarrow> s = StateRecovering"
  "allowed s eventRecoveryFailed \<longleftrightarrow> s = StateRecovering"
  "allowed s eventTaskAdopted \<longleftrightarrow> s = StateStarting \<or> s = StateRunning \<or> s = StateStalled"
  "allowed s eventTaskOrphanDetected \<longleftrightarrow> s = StateStarting \<or> s = StateRunning \<or> s = StateStalled
     \<or> s = StateAdopted"
  "allowed s eventTaskCancelRequested \<longleftrightarrow> s = StateQueued \<or> s = StateStarting \<or> s = StateRunning
     \<or> s = StateStalled \<or> s = StateCancelling \<or> s = StateAdopted \<or> s = StateOrphaned"
  "allowed s eventTaskKilled \<longleftrightarrow> s = StateCancelling"
  by (cases s; simp)+

text \<open>What each operation does when it succeeds.\<close>

lemma Requeue_Inr [go_simps]:
  "Requeue n at t = (t', Inr evs) \<longleftrightarrow> state t = StateQueued \<and> t' = t\<lparr>queuePosition := n\<rparr>
     \<and> evs = [TaskQueued (id t) (subcommand t) (slug t) (requestedTimeout t) n at]"
  by (cases t) (auto simp: Requeue_def transition_alt allowed_column)

lemma Start_Inr [go_simps]:
  "Start to m at t = (t', Inr evs) \<longleftrightarrow> state t = StateQueued
     \<and> t' = t\<lparr>state := StateStarting, timeout := to, model := m\<rparr> \<and> evs = []"
  by (auto simp: Start_def transition_alt allowed_column)

lemma RecordProcessInfo_Inr [go_simps]:
  "RecordProcessInfo pid st at t = (t', Inr evs) \<longleftrightarrow> state t = StateStarting
     \<and> processStartTime t = None \<and> 0 < pid \<and> st \<noteq> 0
     \<and> t' = t\<lparr>processStartTime := Some \<lparr>pst_pid = pid, pst_startedAt = st\<rparr>\<rparr>
     \<and> evs = [TaskStarted (id t) \<lparr>pst_pid = pid, pst_startedAt = st\<rparr>
               (resolvedSeconds (timeout t)) (model t) ExecutionRouteDaemon at]"
  by (auto simp: RecordProcessInfo_def NewProcessStartTime_def is_zero_time_def)

lemma ConfirmRunning_Inr [go_simps]:
  "ConfirmRunning at t = (t', Inr evs) \<longleftrightarrow> (state t = StateStarting \<or> state t = StateAdopted)
     \<and> t' = t\<lparr>state := StateRunning\<rparr> \<and> evs = []"
  by (auto simp: ConfirmRunning_def)

lemma ObserveEvent_Inr [go_simps]:
  "ObserveEvent ty at t = (t', Inr evs) \<longleftrightarrow> (state t = StateRunning \<or> state t = StateStalled)
     \<and> t' = t\<lparr>state := StateRunning, lastEventAt := at\<rparr> \<and> evs = [TaskEventObserved (id t) ty at]"
  by (auto simp: ObserveEvent_def transition_alt allowed_column)

lemma MarkStalled_Inr [go_simps]:
  "MarkStalled gap at t = (t', Inr evs) \<longleftrightarrow> (state t = StateRunning \<or> state t = StateStalled)
     \<and> t' = t\<lparr>state := StateStalled\<rparr>
     \<and> evs = [TaskStalled (id t)
               (if lastEventAt t = 0 then None else Some (lastEventAt t)) gap at]"
  by (auto simp: MarkStalled_def transition_alt allowed_column is_zero_time_def)

lemma RecordExit_Inr [go_simps]:
  "RecordExit ec l est ad at t = (t', Inr evs) \<longleftrightarrow>
     (state t = StateStarting \<or> state t = StateRunning \<or> state t = StateStalled
       \<or> state t = StateAdopted \<or> state t = StateOrphaned \<and> est)
     \<and> t' = t\<lparr>state := (if ec_class ec = ExitCodeClassSuccess \<and> l then StateCompleted
                        else StateFailed), exitCode := Some ec\<rparr>
     \<and> evs = TaskExited (id t) ec l (est \<or> adoptedAfterRestart t) (ad \<or> adoptedAfterRestart t) at #
         (if ec_class ec = ExitCodeClassSuccess \<and> l then [TaskCompleted (id t) ec at]
          else [TaskFailed (id t) ec
            (if ec_class ec = ExitCodeClassSuccess then ReasonNoOutput else ReasonAbnormalExit) at])"
  by (cases "state t = StateOrphaned")
    (auto simp: RecordExit_def Let_def transition_alt allowed_column)

lemma MarkTimedOut_Inr [go_simps]:
  "MarkTimedOut ref at t = (t', Inr evs) \<longleftrightarrow> (state t = StateRunning \<or> state t = StateStalled)
     \<and> t' = t\<lparr>state := StateTimeout, sessionRef := ref\<rparr>
     \<and> evs = [TaskTimedOut (id t) (resolvedSeconds (timeout t)) ref at]"
  by (auto simp: MarkTimedOut_def transition_alt allowed_column)

lemma BeginRecovery_Inr [go_simps]:
  "BeginRecovery ref at t = (t', Inr evs) \<longleftrightarrow> (state t = StateTimeout \<or> state t = StateOrphaned)
     \<and> t' = t\<lparr>state := StateRecovering,
              recoveryOrigin := (if state t = StateOrphaned then RecoveryOriginOrphan
                                 else RecoveryOriginTimeout), sessionRef := ref\<rparr>
     \<and> evs = [RecoveryAttempted (id t) (if state t = StateOrphaned then RecoveryOriginOrphan
                                 else RecoveryOriginTimeout) ref at]"
  by (auto simp: BeginRecovery_def Let_def transition_alt allowed_column)

lemma CompleteRecovery_Inr [go_simps]:
  "CompleteRecovery ec at t = (t', Inr evs) \<longleftrightarrow> state t = StateRecovering
     \<and> t' = t\<lparr>state := StateRecovered, exitCode := Some ec\<rparr>
     \<and> evs = [RecoverySucceeded (id t) ec at]"
  by (auto simp: CompleteRecovery_def transition_alt allowed_column)

lemma FailRecovery_Inr [go_simps]:
  "FailRecovery p at t = (t', Inr evs) \<longleftrightarrow> state t = StateRecovering
     \<and> t' = t\<lparr>state := (if recoveryOrigin t = RecoveryOriginTimeout then StateTimeoutLost
                        else StateLost)\<rparr>
     \<and> evs = [RecoveryFailed (id t) (recoveryOrigin t) p at]"
  by (auto simp: FailRecovery_def Let_def transition_alt allowed_column)

lemma Adopt_Inr [go_simps]:
  "Adopt l at t = (t', Inr evs) \<longleftrightarrow>
     (state t = StateStarting \<or> state t = StateRunning \<or> state t = StateStalled)
     \<and> t' = t\<lparr>state := (if l then StateOrphaned else StateRunning), adoptedAfterRestart := True\<rparr>
     \<and> evs = TaskAdopted (id t) l at #
         (if l then [TaskOrphanDetected (id t) ''adopted'' at] else [])"
  by (auto simp: Adopt_def transition_alt Let_def allowed_column)

lemma DetectOrphan_Inr [go_simps]:
  "DetectOrphan d at t = (t', Inr evs) \<longleftrightarrow>
     (state t = StateStarting \<or> state t = StateRunning \<or> state t = StateStalled \<or> state t = StateAdopted)
     \<and> d \<in> {''running'', ''starting'', ''adopted''}
     \<and> t' = t\<lparr>state := StateOrphaned\<rparr> \<and> evs = [TaskOrphanDetected (id t) d at]"
  by (auto simp: DetectOrphan_def transition_alt allowed_column)

lemma RequestCancel_Inr [go_simps]:
  "RequestCancel f at t = (t', Inr evs) \<longleftrightarrow>
     (state t = StateQueued \<or> state t = StateStarting \<or> state t = StateRunning
       \<or> state t = StateStalled \<or> state t = StateCancelling \<or> state t = StateAdopted
       \<or> state t = StateOrphaned)
     \<and> t' = t\<lparr>state := StateCancelling\<rparr>
     \<and> evs = [TaskCancelRequested (id t) ProtocolVerbCancel f at]"
  by (auto simp: RequestCancel_def transition_alt allowed_column)

lemma ConfirmKilled_Inr [go_simps]:
  "ConfirmKilled ec est at t = (t', Inr evs) \<longleftrightarrow> state t = StateCancelling
     \<and> t' = t\<lparr>state := StateKilled, exitCode := Some ec\<rparr> \<and> evs = [TaskKilled (id t) ec est at]"
  by (auto simp: ConfirmKilled_def transition_alt allowed_column)

lemma run_op_terminal:
  assumes "terminal (state t)"
  shows "\<exists>e. run_op c t = (t, Inl e)"
proof -
  note tr = transition_terminal [OF assms]
  have st: "state t \<noteq> StateStarting" "state t \<noteq> StateAdopted" "state t \<noteq> StateOrphaned"
    using assms by auto
  show ?thesis
    by (cases c) (simp_all add: task_op_defs tr st Let_def)
qed

lemma run_op_error_unchanged:
  assumes "run_op c t = (t', Inl e)"
  shows "t' = t"
proof (cases c)
  case (OpAdopt l at)
  then show ?thesis
    using assms by (auto simp: Adopt_def transition_def Let_def split: if_splits)
qed (use assms in \<open>auto simp: task_op_defs Let_def split: prod.splits option.splits sum.splits if_splits
       dest: transition_Some\<close>)

lemma NewTask_inv: "NewTask tid sub sl req at pos = Inr (t, evs) \<Longrightarrow> task_inv t"
  by (auto simp: NewTask_def task_inv_def lineage_def split: if_splits)

lemma run_op_inv:
  assumes "run_op c t = (t', Inr evs)" and "task_inv t"
  shows "task_inv t'"
proof (cases c)
  case (OpRecordExit ec l est ad at)
  from assms(2) have "recoveryOrigin t = RecoveryOriginNone"
    if "\<not> lineage (state t)"
    using that by (simp add: task_inv_def)
  with OpRecordExit assms show ?thesis
    by (simp add: RecordExit_Inr) (elim conjE disjE; simp add: task_inv_def lineage_def)
next
  case (OpFailRecovery p at)
  with assms show ?thesis
    by (cases "recoveryOrigin t = RecoveryOriginTimeout")
      (simp_all add: FailRecovery_Inr task_inv_def lineage_def)
qed (use assms in \<open>simp add: go_simps; elim conjE disjE; simp add: task_inv_def lineage_def\<close>)+

lemma task_step_inv: "task_step t evs t' \<Longrightarrow> task_inv t \<Longrightarrow> task_inv t'"
  by (auto elim!: task_step.cases intro: run_op_inv)


lemma run_op_closing:
  assumes "run_op c t = (t', Inr evs)"
  shows "\<not> terminal (state t)
    \<and> length (filter closing_event evs) = (if terminal (state t') then 1 else 0)"
proof
  show "\<not> terminal (state t)"
    using assms run_op_terminal [of t c] by (metis Inl_Inr_False prod.inject)
  show "length (filter closing_event evs) = (if terminal (state t') then 1 else 0)"
  proof (cases c)
    case (OpRecordExit ec l est ad at)
    with assms show ?thesis by (simp add: RecordExit_Inr)
  qed (use assms in \<open>auto simp: go_simps\<close>)
qed

section \<open>Properties\<close>

text \<open>
  C2: a task in a terminal state is frozen. Every operation on it fails, leaves it exactly as it was,
  and a cancel request fails with the dedicated error.
\<close>

theorem task_terminal_frozen:
  assumes "terminal (state t)"
  shows "(\<exists>e. run_op c t = (t, Inl e)) \<and> RequestCancel f at t = (t, Inl ErrTaskAlreadyTerminal)"
  using run_op_terminal [OF assms] by (simp add: RequestCancel_def transition_terminal [OF assms])

definition sample_task :: "task_state \<Rightarrow> task" where
  "sample_task s =
     \<lparr>id = TaskID ''impl-20240229-235900-ab07-fix'', subcommand = SubcommandImpl, slug = Slug ''fix'',
      requestedTimeout = None, requestedAt = 5, state = s, queuePosition = 1,
      timeout = \<lparr>requestedSeconds = None, resolvedSeconds = 1800\<rparr>, model = ''m'',
      processStartTime = None, lastEventAt = 0, sessionRef = None,
      recoveryOrigin = RecoveryOriginNone, adoptedAfterRestart = False, exitCode = None\<rparr>"

theorem task_terminal_frozen_witness:
  "(\<exists>e. run_op (OpConfirmKilled (NewExitCode 137) False 9) (sample_task StateFailed)
      = (sample_task StateFailed, Inl e))
   \<and> RequestCancel True 9 (sample_task StateFailed) = (sample_task StateFailed, Inl ErrTaskAlreadyTerminal)"
proof -
  have "terminal (state (sample_task StateFailed))" by (simp add: sample_task_def)
  then show ?thesis by (rule task_terminal_frozen)
qed

text \<open>
  C3: an operation that returns an error has changed nothing, even \<open>Adopt\<close>, which writes the task
  between its two transitions.
\<close>

theorem task_error_unchanged:
  assumes "run_op c t = (t', Inl e)"
  shows "t' = t"
  using assms by (rule run_op_error_unchanged)

theorem task_error_unchanged_witness:
  "snd (run_op (OpAdopt True 9) (sample_task StateQueued)) = Inl ErrInvalidStateTransition
   \<and> fst (run_op (OpAdopt True 9) (sample_task StateQueued)) = sample_task StateQueued"
proof -
  have e: "snd (run_op (OpAdopt True 9) (sample_task StateQueued)) = Inl ErrInvalidStateTransition"
    by (simp add: sample_task_def Adopt_def transition_def)
  then have h: "run_op (OpAdopt True 9) (sample_task StateQueued)
     = (fst (run_op (OpAdopt True 9) (sample_task StateQueued)), Inl ErrInvalidStateTransition)"
    by (metis prod.collapse)
  show ?thesis using e task_error_unchanged [OF h] by blast
qed

text \<open>
  C1: every task that \<open>NewTask\<close> creates and any sequence of successful operations leads to satisfies
  the invariant \<open>task_inv\<close>: an exit code is recorded exactly in the states that have one, a recovery
  origin exactly in the recovery lineage and of the right kind for each lost state, a completed task
  exited successfully, a queued task has no process, recorded process information is valid, and the
  intermediate state adopted is never observable between operations. Its event log holds exactly one
  closing event when the task is terminal and none before.
\<close>

theorem task_history_invariant:
  assumes "task_history t log"
  shows "task_inv t \<and> length (filter closing_event log) = (if terminal (state t) then 1 else 0)"
  using assms
proof (induction rule: task_history.induct)
  case (created tid sub sl req at pos t evs)
  then show ?case
    using NewTask_inv [OF created] by (auto simp: NewTask_def split: if_splits)
next
  case (continued t log evs t')
  from continued.hyps(2) obtain c where c: "run_op c t = (t', Inr evs)"
    by (auto elim: task_step.cases)
  with run_op_inv [OF c] run_op_closing [OF c] continued.IH show ?case
    by simp
qed

theorem task_history_invariant_witness:
  "\<exists>t log. task_history t log \<and> state t = StateKilled \<and> task_inv t
     \<and> length (filter closing_event log) = 1"
proof -
  define t0 where "t0 = fst (the_done (case NewTask (TaskID ''x'') SubcommandImpl (Slug ''fix'') None 5 1 of
      Inr r \<Rightarrow> Done r | Inl e \<Rightarrow> Panic))"
  have n: "NewTask (TaskID ''x'') SubcommandImpl (Slug ''fix'') None 5 1
      = Inr (t0, [TaskQueued (TaskID ''x'') SubcommandImpl (Slug ''fix'') None 1 5])"
    by (simp add: t0_def NewTask_def)
  have q: "state t0 = StateQueued"
    using n by (auto simp: NewTask_def)
  have a: "task_step t0 [TaskCancelRequested (id t0) ProtocolVerbCancel False 6]
      (t0\<lparr>state := StateCancelling\<rparr>)"
    by (rule task_step.step [where c = "OpRequestCancel False 6"]) (simp add: RequestCancel_Inr q)
  have b: "task_step (t0\<lparr>state := StateCancelling\<rparr>)
      [TaskKilled (id t0) (NewExitCode 130) False 7]
      (t0\<lparr>state := StateKilled, exitCode := Some (NewExitCode 130)\<rparr>)"
    by (rule task_step.step [where c = "OpConfirmKilled (NewExitCode 130) False 7"])
      (simp add: ConfirmKilled_Inr)
  note h = task_history.continued [OF task_history.continued [OF task_history.created [OF n] a] b]
  show ?thesis
  proof (intro exI conjI)
    show "task_history (t0\<lparr>state := StateKilled, exitCode := Some (NewExitCode 130)\<rparr>)
      (([TaskQueued (TaskID ''x'') SubcommandImpl (Slug ''fix'') None 1 5]
        @ [TaskCancelRequested (id t0) ProtocolVerbCancel False 6])
        @ [TaskKilled (id t0) (NewExitCode 130) False 7])"
      by (rule h)
  qed (use task_history_invariant [OF h] in simp_all)
qed

end
