(* ===== verification/Task_Snapshot.thy ===== *)
theory Task_Snapshot
  imports Task
begin

text \<open>
  The persisted form of a task, \<^verbatim>\<open>internal/domain/tasksnapshot.go\<close>: validation, the snapshot made
  at admission, the snapshot of a task (\<open>WithTask\<close>) and the task restored from a snapshot
  (\<open>Restore\<close>, where the dereference of a nil pointer is a panic).
\<close>

section \<open>Snapshots\<close>

definition taskSnapshotSchemaVersion :: int where
  "taskSnapshotSchemaVersion = 4"

definition workingDirTaskSnapshotSchemaVersion :: int where
  "workingDirTaskSnapshotSchemaVersion = 3"

definition previousTaskSnapshotSchemaVersion :: int where
  "previousTaskSnapshotSchemaVersion = 2"

record task_snapshot =
  sn_TaskID :: task_id
  sn_Subcommand :: subcommand
  sn_PID :: "int option"
  sn_ProcessStartedAt :: "go_time option"
  sn_ResolvedTimeoutSeconds :: int
  sn_RequestedTimeoutSeconds :: "int option"
  sn_Model :: string
  sn_ReasoningEffort :: "string option"
  sn_SandboxMode :: string
  sn_WorkingDir :: "string option"
  sn_RequestedAt :: go_time
  sn_Route :: execution_route
  sn_State :: task_state
  sn_StateUpdatedAt :: go_time
  sn_SessionRef :: "session_ref option"
  sn_LastEventAt :: "go_time option"
  sn_ExitCode :: "exit_code option"
  sn_Recovered :: bool
  sn_AdoptedAfterRestart :: bool
  sn_RecoveryOrigin :: "recovery_origin option"
  sn_FailureCode :: "string option"
  sn_SchemaVersion :: int

text \<open>The zero value of the structure, from which the composite literals start.\<close>

definition zero_snapshot :: task_snapshot where
  "zero_snapshot =
     \<lparr>sn_TaskID = TaskID '''', sn_Subcommand = SubcommandOther '''', sn_PID = None,
      sn_ProcessStartedAt = None, sn_ResolvedTimeoutSeconds = 0, sn_RequestedTimeoutSeconds = None,
      sn_Model = '''', sn_ReasoningEffort = None, sn_SandboxMode = '''', sn_WorkingDir = None,
      sn_RequestedAt = 0, sn_Route = ExecutionRouteOther '''', sn_State = StateOther '''',
      sn_StateUpdatedAt = 0, sn_SessionRef = None, sn_LastEventAt = None, sn_ExitCode = None,
      sn_Recovered = False, sn_AdoptedAfterRestart = False, sn_RecoveryOrigin = None,
      sn_FailureCode = None, sn_SchemaVersion = 0\<rparr>"

definition NewInitialTaskSnapshot ::
    "execution_route \<Rightarrow> string option \<Rightarrow> string \<Rightarrow> string option \<Rightarrow> task_snapshot" where
  "NewInitialTaskSnapshot route effort sandbox wd =
     zero_snapshot\<lparr>sn_Route := route, sn_ReasoningEffort := effort, sn_SandboxMode := sandbox,
       sn_WorkingDir := wd, sn_SchemaVersion := taskSnapshotSchemaVersion\<rparr>"

definition SupportsWorkingDir :: "task_snapshot \<Rightarrow> bool" where
  "SupportsWorkingDir s = (sn_SchemaVersion s \<ge> workingDirTaskSnapshotSchemaVersion)"

definition SupportsFailureCode :: "task_snapshot \<Rightarrow> bool" where
  "SupportsFailureCode s = (sn_SchemaVersion s = taskSnapshotSchemaVersion)"

fun isKnownTaskState :: "task_state \<Rightarrow> bool" where
  "isKnownTaskState (StateOther _) = False"
| "isKnownTaskState _ = True"

definition allowsUnresolvedWorkingDir :: "task_snapshot \<Rightarrow> bool" where
  "allowsUnresolvedWorkingDir s =
     (if sn_PID s \<noteq> None \<or> sn_ProcessStartedAt s \<noteq> None then False
      else sn_State s \<in> {StateQueued, StateCancelling, StateKilled, StateFailed})"

text \<open>The states whose snapshot has to name a process.\<close>

definition requires_process :: "task_state \<Rightarrow> bool" where
  "requires_process s = (s \<in> {StateRunning, StateStalled, StateTimeout, StateRecovering,
     StateRecovered, StateTimeoutLost, StateLost, StateCompleted})"

definition known_failure_codes :: "string list" where
  "known_failure_codes = [''LIVENESS_LOCK_IO_ERROR'', ''CONTRACT_WRITE_FAILED'',
     ''WORKTREE_CREATE_FAILED'', ''PTY_ALLOCATION_FAILED'', ''CHILD_PROCESS_LAUNCH_FAILED'']"

text \<open>\<open>Validate\<close> up to the checks of the failure code; \<open>None\<close> is the nil error.\<close>

definition validate_core :: "task_snapshot \<Rightarrow> domain_error option" where
  "validate_core s =
     (if tid_string (sn_TaskID s) = '''' then Some (ErrText ''task id is empty'')
      else if \<not> IsSubmittable (sn_Subcommand s) then Some (ErrText ''unknown subcommand'')
      else if sn_Model s = '''' then Some (ErrText ''model is empty'')
      else if \<not> IsValidSandboxMode (sn_SandboxMode s) then Some (ErrText ''unknown sandbox mode'')
      else if \<not> isKnownTaskState (sn_State s) then Some (ErrText ''unknown state'')
      else if sn_Route s \<noteq> ExecutionRouteDaemon then Some (ErrText ''route must be daemon'')
      else if (sn_PID s = None) \<noteq> (sn_ProcessStartedAt s = None)
        then Some (ErrText ''pid and process_started_at must be set together'')
      else if (case sn_PID s of None \<Rightarrow> False | Some p \<Rightarrow> p \<le> 0)
        then Some (ErrText ''pid must be positive'')
      else if (case sn_ProcessStartedAt s of None \<Rightarrow> False | Some a \<Rightarrow> is_zero_time a)
        then Some (ErrText ''process_started_at is zero'')
      else if (case sn_RequestedTimeoutSeconds s of None \<Rightarrow> False | Some r \<Rightarrow> r < timeoutMinSeconds)
        then Some (ErrText ''requested timeout below minimum'')
      else if sn_ResolvedTimeoutSeconds s < timeoutMinSeconds
        then Some (ErrText ''resolved timeout below minimum'')
      else if (case sn_RecoveryOrigin s of None \<Rightarrow> False
               | Some r \<Rightarrow> r \<noteq> RecoveryOriginTimeout \<and> r \<noteq> RecoveryOriginOrphan)
        then Some (ErrText ''unknown recovery origin'')
      else if requires_process (sn_State s) \<and> sn_PID s = None \<and> \<not> sn_AdoptedAfterRestart s
              \<and> \<not> (terminal (sn_State s) \<and> sn_ExitCode s \<noteq> None)
        then Some (ErrText ''state requires process info'')
      else if sn_ExitCode s \<noteq> None \<and> \<not> terminal (sn_State s)
        then Some (ErrText ''exit code for non-terminal state'')
      else if sn_Recovered s \<noteq> (sn_State s = StateRecovered)
        then Some (ErrText ''recovered inconsistent'')
      else if (sn_RecoveryOrigin s \<noteq> None) \<noteq>
              (sn_State s = StateRecovering \<or> sn_State s = StateRecovered
               \<or> sn_State s = StateTimeoutLost \<or> sn_State s = StateLost)
        then Some (ErrText ''recovery origin inconsistent'')
      else if is_zero_time (sn_RequestedAt s) \<or> is_zero_time (sn_StateUpdatedAt s)
        then Some (ErrText ''timestamp is zero'')
      else if sn_SchemaVersion s \<noteq> previousTaskSnapshotSchemaVersion
              \<and> sn_SchemaVersion s \<noteq> workingDirTaskSnapshotSchemaVersion
              \<and> sn_SchemaVersion s \<noteq> taskSnapshotSchemaVersion
        then Some (ErrText ''unsupported schema version'')
      else None)"

definition validate_failure_code :: "task_snapshot \<Rightarrow> domain_error option" where
  "validate_failure_code s =
     (case sn_FailureCode s of
        None \<Rightarrow> None
      | Some code \<Rightarrow>
          if sn_SchemaVersion s \<noteq> taskSnapshotSchemaVersion \<or> sn_State s \<noteq> StateFailed
             \<or> sn_PID s \<noteq> None
          then Some (ErrText ''failure_code requires schema version 4, failed state, and no process'')
          else if code \<notin> set known_failure_codes then Some (ErrText ''unknown failure_code'')
          else None)"

definition validate_working_dir :: "task_snapshot \<Rightarrow> domain_error option" where
  "validate_working_dir s =
     (if sn_SchemaVersion s = previousTaskSnapshotSchemaVersion then
        (if sn_WorkingDir s \<noteq> None
         then Some (ErrText ''schema version 2 must not contain working_dir'') else None)
      else (case sn_WorkingDir s of
              None \<Rightarrow> (if \<not> allowsUnresolvedWorkingDir s
                       then Some (ErrText ''working_dir is required'') else None)
            | Some wd \<Rightarrow> (case NewNormalizedPath wd of
                             Inl e \<Rightarrow> Some (ErrText ''working_dir: invalid normalized path'')
                           | Inr _ \<Rightarrow> None)))"

definition Validate :: "task_snapshot \<Rightarrow> domain_error option" where
  "Validate s =
     (case validate_core s of
        Some e \<Rightarrow> Some e
      | None \<Rightarrow> (case validate_failure_code s of
                   Some e \<Rightarrow> Some e
                 | None \<Rightarrow> validate_working_dir s))"

definition NewTaskSnapshotFromAdmission ::
    "task option \<Rightarrow> timeout \<Rightarrow> string \<Rightarrow> string option \<Rightarrow> string \<Rightarrow> string option
      \<Rightarrow> execution_route \<Rightarrow> go_time \<Rightarrow> domain_error + task_snapshot" where
  "NewTaskSnapshotFromAdmission task resolvedTimeout mdl effort sandbox wd route at =
     (case task of
        None \<Rightarrow> Inl (ErrText ''task is nil'')
      | Some t \<Rightarrow>
          let s = zero_snapshot\<lparr>sn_TaskID := id t, sn_Subcommand := subcommand t,
                    sn_ResolvedTimeoutSeconds := resolvedSeconds resolvedTimeout,
                    sn_RequestedTimeoutSeconds := requestedTimeout t, sn_Model := mdl,
                    sn_ReasoningEffort := effort, sn_SandboxMode := sandbox, sn_WorkingDir := wd,
                    sn_RequestedAt := requestedAt t, sn_Route := route, sn_State := state t,
                    sn_StateUpdatedAt := at, sn_Recovered := False,
                    sn_AdoptedAfterRestart := False,
                    sn_SchemaVersion := taskSnapshotSchemaVersion\<rparr>
          in (case Validate s of Some e \<Rightarrow> Inl e | None \<Rightarrow> Inr s))"

definition Restore :: "task_snapshot \<Rightarrow> (domain_error + task) outcome" where
  "Restore s =
     (case Validate s of
        Some e \<Rightarrow> Done (Inl e)
      | None \<Rightarrow>
     (case slugFromTaskID (sn_TaskID s) of
        Inl e \<Rightarrow> Done (Inl e)
      | Inr sl \<Rightarrow>
     (case NewTimeout (sn_RequestedTimeoutSeconds s) (sn_ResolvedTimeoutSeconds s) of
        Inl e \<Rightarrow> Done (Inl e)
      | Inr to \<Rightarrow>
          let t = \<lparr>id = sn_TaskID s, subcommand = sn_Subcommand s, slug = sl,
                   requestedTimeout = sn_RequestedTimeoutSeconds s, requestedAt = sn_RequestedAt s,
                   state = sn_State s, queuePosition = 0, timeout = to, model = sn_Model s,
                   processStartTime = None, lastEventAt = 0, sessionRef = sn_SessionRef s,
                   recoveryOrigin = RecoveryOriginNone,
                   adoptedAfterRestart = sn_AdoptedAfterRestart s, exitCode = sn_ExitCode s\<rparr>;
              finish = (\<lambda>t. Done (Inr (t\<lparr>
                lastEventAt := (case sn_LastEventAt s of None \<Rightarrow> 0 | Some a \<Rightarrow> a),
                recoveryOrigin := (case sn_RecoveryOrigin s of None \<Rightarrow> RecoveryOriginNone
                                   | Some r \<Rightarrow> r)\<rparr>)))
          in (case sn_PID s of
                None \<Rightarrow> finish t
              | Some pid \<Rightarrow>
                  (case sn_ProcessStartedAt s of
                     None \<Rightarrow> Panic
                   | Some at \<Rightarrow>
                       (case NewProcessStartTime pid at of
                          Inl e \<Rightarrow> Done (Inl e)
                        | Inr p \<Rightarrow> finish (t\<lparr>processStartTime := Some p\<rparr>)))))))"

text \<open>\<open>WithTask\<close>: the snapshot overwritten with the task, then validated.\<close>

definition overlay_task :: "task_snapshot \<Rightarrow> task \<Rightarrow> go_time \<Rightarrow> task_snapshot" where
  "overlay_task s t at =
     s\<lparr>sn_TaskID := id t, sn_Subcommand := subcommand t, sn_State := state t,
       sn_StateUpdatedAt := at, sn_Model := model t,
       sn_RequestedTimeoutSeconds := requestedSeconds (timeout t),
       sn_ResolvedTimeoutSeconds := resolvedSeconds (timeout t),
       sn_RequestedAt := requestedAt t,
       sn_PID := map_option pst_pid (processStartTime t),
       sn_ProcessStartedAt := map_option pst_startedAt (processStartTime t),
       sn_SessionRef := sessionRef t,
       sn_LastEventAt := (if is_zero_time (lastEventAt t) then None else Some (lastEventAt t)),
       sn_ExitCode := exitCode t,
       sn_AdoptedAfterRestart := adoptedAfterRestart t,
       sn_RecoveryOrigin := (if recoveryOrigin t = RecoveryOriginNone then None
                             else Some (recoveryOrigin t)),
       sn_Recovered := (sn_Recovered s \<or> state t = StateRecovered)\<rparr>"

definition WithTask :: "task_snapshot \<Rightarrow> task \<Rightarrow> go_time \<Rightarrow> domain_error + task_snapshot" where
  "WithTask s t at =
     (let n = overlay_task s t at
      in (case Validate n of Some e \<Rightarrow> Inl e | None \<Rightarrow> Inr n))"

section \<open>Lemmas\<close>

lemma overlay_task_sel [simp]:
  "sn_TaskID (overlay_task s t at) = id t"
  "sn_Subcommand (overlay_task s t at) = subcommand t"
  "sn_State (overlay_task s t at) = state t"
  "sn_Model (overlay_task s t at) = model t"
  "sn_RequestedTimeoutSeconds (overlay_task s t at) = requestedSeconds (timeout t)"
  "sn_ResolvedTimeoutSeconds (overlay_task s t at) = resolvedSeconds (timeout t)"
  "sn_RequestedAt (overlay_task s t at) = requestedAt t"
  "sn_PID (overlay_task s t at) = map_option pst_pid (processStartTime t)"
  "sn_ProcessStartedAt (overlay_task s t at) = map_option pst_startedAt (processStartTime t)"
  "sn_SessionRef (overlay_task s t at) = sessionRef t"
  "sn_LastEventAt (overlay_task s t at) = (if lastEventAt t = 0 then None else Some (lastEventAt t))"
  "sn_ExitCode (overlay_task s t at) = exitCode t"
  "sn_AdoptedAfterRestart (overlay_task s t at) = adoptedAfterRestart t"
  "sn_RecoveryOrigin (overlay_task s t at) =
     (if recoveryOrigin t = RecoveryOriginNone then None else Some (recoveryOrigin t))"
  by (simp_all add: overlay_task_def is_zero_time_def)

lemma WithTask_Inr: "WithTask s t at = Inr n \<longleftrightarrow> n = overlay_task s t at \<and> Validate n = None"
  by (auto simp: WithTask_def Let_def split: option.splits)

lemma Validate_None:
  "Validate s = None \<longleftrightarrow> validate_core s = None \<and> validate_failure_code s = None
     \<and> validate_working_dir s = None"
  by (auto simp: Validate_def split: option.splits)

lemma validate_core_process:
  assumes "validate_core s = None"
  shows "(sn_PID s = None) = (sn_ProcessStartedAt s = None)"
    and "sn_PID s = Some p \<Longrightarrow> 0 < p"
    and "sn_ProcessStartedAt s = Some a \<Longrightarrow> a \<noteq> 0"
    and "is_ok (NewTimeout (sn_RequestedTimeoutSeconds s) (sn_ResolvedTimeoutSeconds s))"
  using assms
  by (auto simp: validate_core_def is_zero_time_def NewTimeout_def split: if_splits option.splits)

lemma validate_core_NoneI:
  assumes "tid_string (sn_TaskID s) \<noteq> ''''" and "IsSubmittable (sn_Subcommand s)"
    and "sn_Model s \<noteq> ''''" and "IsValidSandboxMode (sn_SandboxMode s)"
    and "isKnownTaskState (sn_State s)" and "sn_Route s = ExecutionRouteDaemon"
    and "(sn_PID s = None) = (sn_ProcessStartedAt s = None)"
    and "\<And>p. sn_PID s = Some p \<Longrightarrow> 0 < p" and "\<And>a. sn_ProcessStartedAt s = Some a \<Longrightarrow> a \<noteq> 0"
    and "is_ok (NewTimeout (sn_RequestedTimeoutSeconds s) (sn_ResolvedTimeoutSeconds s))"
    and "\<And>r. sn_RecoveryOrigin s = Some r \<Longrightarrow> r = RecoveryOriginTimeout \<or> r = RecoveryOriginOrphan"
    and "requires_process (sn_State s) \<Longrightarrow> sn_PID s = None \<Longrightarrow> \<not> sn_AdoptedAfterRestart s \<Longrightarrow>
           terminal (sn_State s) \<and> sn_ExitCode s \<noteq> None"
    and "sn_ExitCode s \<noteq> None \<Longrightarrow> terminal (sn_State s)"
    and "sn_Recovered s = (sn_State s = StateRecovered)"
    and "(sn_RecoveryOrigin s \<noteq> None) = lineage (sn_State s)"
    and "sn_RequestedAt s \<noteq> 0" and "sn_StateUpdatedAt s \<noteq> 0"
    and "sn_SchemaVersion s \<in> {2, 3, 4}"
  shows "validate_core s = None"
proof -
  have "\<not> (case sn_PID s of None \<Rightarrow> False | Some p \<Rightarrow> p \<le> 0)"
    using assms(8) by (auto split: option.splits)
  moreover have "\<not> (case sn_ProcessStartedAt s of None \<Rightarrow> False | Some a \<Rightarrow> is_zero_time a)"
    using assms(9) by (auto simp: is_zero_time_def split: option.splits)
  moreover have "\<not> (case sn_RequestedTimeoutSeconds s of None \<Rightarrow> False | Some r \<Rightarrow> r < timeoutMinSeconds)"
    "\<not> sn_ResolvedTimeoutSeconds s < timeoutMinSeconds"
    using assms(10) by (auto simp: NewTimeout_def split: if_splits)
  moreover have "\<not> (case sn_RecoveryOrigin s of None \<Rightarrow> False
               | Some r \<Rightarrow> r \<noteq> RecoveryOriginTimeout \<and> r \<noteq> RecoveryOriginOrphan)"
    using assms(11) by (auto split: option.splits)
  moreover have "\<not> (requires_process (sn_State s) \<and> sn_PID s = None \<and> \<not> sn_AdoptedAfterRestart s
              \<and> \<not> (terminal (sn_State s) \<and> sn_ExitCode s \<noteq> None))"
    using assms(12) by blast
  moreover have "\<not> (sn_ExitCode s \<noteq> None \<and> \<not> terminal (sn_State s))"
    using assms(13) by blast
  moreover have "(sn_RecoveryOrigin s \<noteq> None) =
              (sn_State s = StateRecovering \<or> sn_State s = StateRecovered
               \<or> sn_State s = StateTimeoutLost \<or> sn_State s = StateLost)"
    using assms(15) by (simp add: lineage_def)
  ultimately show ?thesis
    using assms(1-7,14,16-18)
    unfolding validate_core_def is_zero_time_def previousTaskSnapshotSchemaVersion_def
      workingDirTaskSnapshotSchemaVersion_def taskSnapshotSchemaVersion_def
    by (simp del: terminal.simps IsSubmittable.simps)
qed

section \<open>Properties\<close>

text \<open>
  Whenever a task can be written to a snapshot, restoring the snapshot gives the task back, with
  only the queue position reset and the requested timeout read from the resolved timeout. The
  restored task is the same for every base snapshot the task is written over, and restoring
  neither fails nor panics.
\<close>

theorem snapshot_roundtrip:
  assumes "WithTask s t at = Inr n" and "slugFromTaskID (id t) = Inr (slug t)"
  shows "Restore n
    = Done (Inr (t\<lparr>queuePosition := 0, requestedTimeout := requestedSeconds (timeout t)\<rparr>))"
proof -
  have n: "n = overlay_task s t at" and v: "Validate n = None"
    using assms(1) by (auto simp: WithTask_Inr)
  then have core: "validate_core n = None" by (simp add: Validate_None)
  note p = validate_core_process [OF core]
  from p(4) have to: "NewTimeout (sn_RequestedTimeoutSeconds n) (sn_ResolvedTimeoutSeconds n)
      = Inr (timeout t)"
    by (cases "NewTimeout (sn_RequestedTimeoutSeconds n) (sn_ResolvedTimeoutSeconds n)")
      (auto simp: NewTimeout_Inr n)
  show ?thesis
  proof (cases "processStartTime t")
    case None
    with v to assms(2) show ?thesis
      by (simp add: Restore_def n)
  next
    case (Some ps)
    with p(2) [of "pst_pid ps"] p(3) [of "pst_startedAt ps"]
    have "NewProcessStartTime (pst_pid ps) (pst_startedAt ps) = Inr ps"
      by (simp add: NewProcessStartTime_Inr n)
    with Some v to assms(2) show ?thesis
      by (simp add: Restore_def n)
  qed
qed

definition sample_base :: task_snapshot where
  "sample_base = NewInitialTaskSnapshot ExecutionRouteDaemon None ''read-only'' (Some ''/w'')"

theorem snapshot_roundtrip_witness:
  "WithTask sample_base (sample_task StateStarting) 9
     = Inr (overlay_task sample_base (sample_task StateStarting) 9)
   \<and> Restore (overlay_task sample_base (sample_task StateStarting) 9)
     = Done (Inr ((sample_task StateStarting)\<lparr>queuePosition := 0, requestedTimeout := None\<rparr>))"
proof -
  have wd: "NewNormalizedPath ''/w'' = Inr (NormalizedPath ''/w'')"
    by (simp add: NewNormalizedPath_def is_abs_def has_prefix_def clean_path_def clean_stack_def)
  have w: "WithTask sample_base (sample_task StateStarting) 9
     = Inr (overlay_task sample_base (sample_task StateStarting) 9)"
    by (simp add: WithTask_Inr Validate_None sample_base_def sample_task_def overlay_task_def
        NewInitialTaskSnapshot_def zero_snapshot_def validate_core_def validate_failure_code_def
        validate_working_dir_def taskSnapshotSchemaVersion_def previousTaskSnapshotSchemaVersion_def
        workingDirTaskSnapshotSchemaVersion_def IsValidSandboxMode_def timeoutMinSeconds_def
        is_zero_time_def requires_process_def wd)
  have "slugFromTaskID (id (sample_task StateStarting)) = Inr (slug (sample_task StateStarting))"
    by (simp add: sample_task_def slugFromTaskID_def task_id_submatch_def rep_class_def
        plus_class_def lower_alnum_def lower_hex_def is_digit_char_def char_between_def
        NewSlug_def slugMaxLength_def slugPattern_def)
  from snapshot_roundtrip [OF w this] w show ?thesis
    by (simp add: sample_task_def)
qed

text \<open>
  Persisting never fails for a task that the domain operations can produce. If the base snapshot
  is a current one (schema 4, daemon route, valid sandbox mode and working directory, no failure code,
  not recovered before), the task carries a model, a valid timeout and non-zero times, and a running,
  stalled, timed-out or lost task has a recorded process or was adopted, then \<open>WithTask\<close> succeeds.
\<close>

theorem WithTask_succeeds:
  assumes "task_inv t" and "tid_string (id t) \<noteq> ''''" and "model t \<noteq> ''''"
    and "is_ok (NewTimeout (requestedSeconds (timeout t)) (resolvedSeconds (timeout t)))"
    and "requestedAt t \<noteq> 0" and "at \<noteq> 0"
    and "state t \<in> {StateRunning, StateStalled, StateTimeout, StateRecovering, StateTimeoutLost,
           StateLost} \<Longrightarrow> processStartTime t \<noteq> None \<or> adoptedAfterRestart t"
    and "IsValidSandboxMode (sn_SandboxMode s)" and "sn_Route s = ExecutionRouteDaemon"
    and "\<not> sn_Recovered s" and "sn_FailureCode s = None" and "sn_SchemaVersion s = 4"
    and "sn_WorkingDir s = Some wd" and "is_ok (NewNormalizedPath wd)"
  shows "WithTask s t at = Inr (overlay_task s t at)"
proof -
  have process: "0 < pst_pid p \<and> pst_startedAt p \<noteq> 0" if "processStartTime t = Some p" for p
    using assms(1) that by (simp add: task_inv_def)
  have exit: "exitCode t \<noteq> None \<longleftrightarrow> state t \<in> {StateCompleted, StateFailed, StateRecovered, StateKilled}"
    and origin: "recoveryOrigin t \<noteq> RecoveryOriginNone \<longleftrightarrow> lineage (state t)"
    and kind: "lineage (state t) \<Longrightarrow> recoveryOrigin t \<in> {RecoveryOriginTimeout, RecoveryOriginOrphan}"
    and other: "\<forall>x. state t \<noteq> StateOther x" and sub: "IsSubmittable (subcommand t)"
    using assms(1) unfolding task_inv_def by blast+
  let ?n = "overlay_task s t at"
  have "validate_core ?n = None"
  proof (rule validate_core_NoneI)
    show "isKnownTaskState (sn_State ?n)"
      using other by (cases "state t") (auto simp: overlay_task_def)
    show "requires_process (sn_State ?n) \<Longrightarrow> sn_PID ?n = None \<Longrightarrow> \<not> sn_AdoptedAfterRestart ?n
        \<Longrightarrow> terminal (sn_State ?n) \<and> sn_ExitCode ?n \<noteq> None"
      using assms(7) exit by (auto simp: overlay_task_def requires_process_def)
    show "sn_ExitCode ?n \<noteq> None \<Longrightarrow> terminal (sn_State ?n)"
      using exit by (auto simp: overlay_task_def)
    show "(sn_RecoveryOrigin ?n \<noteq> None) = lineage (sn_State ?n)"
      using origin by (auto simp: overlay_task_def)
    show "\<And>r. sn_RecoveryOrigin ?n = Some r \<Longrightarrow> r = RecoveryOriginTimeout \<or> r = RecoveryOriginOrphan"
      using origin kind by (auto simp: overlay_task_def split: if_splits)
  qed (use assms(2-6,8-10,12) sub process in
      \<open>auto simp: overlay_task_def simp del: IsSubmittable.simps\<close>)
  moreover have "validate_failure_code ?n = None"
    using assms(11) by (simp add: validate_failure_code_def overlay_task_def)
  moreover have "validate_working_dir ?n = None"
    using assms(12-14)
    by (auto simp: validate_working_dir_def overlay_task_def previousTaskSnapshotSchemaVersion_def
        split: sum.splits)
  ultimately show ?thesis by (simp add: WithTask_Inr Validate_None)
qed

theorem WithTask_succeeds_witness:
  "WithTask sample_base (sample_task StateStarting) 9
     = Inr (overlay_task sample_base (sample_task StateStarting) 9)"
proof (rule WithTask_succeeds)
  show "task_inv (sample_task StateStarting)"
    by (simp add: task_inv_def sample_task_def lineage_def)
  show "is_ok (NewNormalizedPath ''/w'')"
    by (simp add: NewNormalizedPath_def is_abs_def has_prefix_def clean_path_def clean_stack_def)
qed (simp_all add: sample_task_def sample_base_def NewInitialTaskSnapshot_def zero_snapshot_def
    NewTimeout_def timeoutMinSeconds_def IsValidSandboxMode_def taskSnapshotSchemaVersion_def)

end
