(* ===== verification/Task_Queue.thy ===== *)
theory Task_Queue
  imports Task_Snapshot "HOL-Library.AList"
begin

text \<open>
  The in-memory collections of package \<^verbatim>\<open>internal/execution\<close>: the FIFO of waiting launch
  payloads (\<^verbatim>\<open>queue.go\<close>), the execution-slot reservations (\<^verbatim>\<open>registry.go\<close>), the
  unresolved promotions (\<^verbatim>\<open>promotion.go\<close>) and the snapshots of launching tasks
  (\<^verbatim>\<open>launching.go\<close>). A Go map is an association list with distinct keys, so that its size
  computes. The queue panics on a payload without a queued task; the panic is part of the model.

  The locale \<open>fifo_spec\<close> is the contract of the Go interface \<open>TaskQueue\<close> over the list of waiting
  task identifiers; it is interpreted on the slice implementation at the end.
\<close>

section \<open>Launch payloads and the FIFO\<close>

record launch_payload =
  pl_Task :: "task option"
  pl_Model :: string
  pl_ReasoningEffort :: "string option"
  pl_PromptText :: string
  pl_NormalizedPaths :: "normalized_path list"
  pl_ResolvedTimeout :: timeout
  pl_SandboxMode :: string
  pl_SourceWorkingDir :: string
  pl_WorkingDir :: "string option"
  pl_WorktreeMode :: worktree_mode
  pl_OutputSchemaPath :: "string option"

type_synonym task_queue = "launch_payload list"

text \<open>\<open>validateQueuedPayload\<close> panics unless this holds.\<close>

definition queued_payload :: "launch_payload \<Rightarrow> bool" where
  "queued_payload p = (case pl_Task p of None \<Rightarrow> False | Some t \<Rightarrow> state t = StateQueued)"

definition validateQueuedPayload :: "launch_payload \<Rightarrow> unit outcome" where
  "validateQueuedPayload p = (if queued_payload p then Done () else Panic)"

fun validateAll :: "task_queue \<Rightarrow> unit outcome" where
  "validateAll [] = Done ()"
| "validateAll (p # ps) = and_then (validateQueuedPayload p) (\<lambda>_. validateAll ps)"

definition Enqueue :: "launch_payload \<Rightarrow> task_queue \<Rightarrow> (task_queue \<times> int) outcome" where
  "Enqueue p q = and_then (validateQueuedPayload p) (\<lambda>_. Done (q @ [p], int (length q) + 1))"

definition Dequeue :: "task_queue \<Rightarrow> task_queue \<times> launch_payload option" where
  "Dequeue q = (case q of [] \<Rightarrow> (q, None) | p # ps \<Rightarrow> (ps, Some p))"

definition Prepend :: "launch_payload \<Rightarrow> task_queue \<Rightarrow> task_queue outcome" where
  "Prepend p q = and_then (validateQueuedPayload p) (\<lambda>_. Done (p # q))"

text \<open>The unexported \<open>reindex\<close>: every waiting task is requeued at its one-based index.\<close>

fun reindex_from :: "int \<Rightarrow> go_time \<Rightarrow> task_queue \<Rightarrow> (task_queue \<times> event list) outcome" where
  "reindex_from i at [] = Done ([], [])"
| "reindex_from i at (p # ps) =
     (case pl_Task p of
        None \<Rightarrow> Panic
      | Some t \<Rightarrow>
          (case Requeue (i + 1) at t of
             (_, Inl _) \<Rightarrow> Panic
           | (t', Inr evs) \<Rightarrow>
               and_then (reindex_from (i + 1) at ps)
                 (\<lambda>(qs, rest). Done (p\<lparr>pl_Task := Some t'\<rparr> # qs, evs @ rest))))"

definition Reindex :: "go_time \<Rightarrow> task_queue \<Rightarrow> (task_queue \<times> event list) outcome" where
  "Reindex at q = and_then (validateAll q) (\<lambda>_. reindex_from 0 at q)"

definition payload_has :: "task_id \<Rightarrow> launch_payload \<Rightarrow> bool" where
  "payload_has tid p = (case pl_Task p of None \<Rightarrow> False | Some t \<Rightarrow> id t = tid)"

definition Lookup :: "task_id \<Rightarrow> task_queue \<Rightarrow> (launch_payload \<times> nat) option" where
  "Lookup tid q =
     (case find_index (payload_has tid) q of None \<Rightarrow> None | Some i \<Rightarrow> Some (q ! i, i))"

definition QueuePosition :: "task_id \<Rightarrow> task_queue \<Rightarrow> int option" where
  "QueuePosition tid q =
     (case Lookup tid q of None \<Rightarrow> None | Some (p, i) \<Rightarrow> Some (int i + 1))"

definition Remove :: "task_id \<Rightarrow> go_time \<Rightarrow> task_queue
    \<Rightarrow> (task_queue \<times> (launch_payload \<times> nat) option \<times> event list) outcome" where
  "Remove tid at q =
     and_then (validateAll q) (\<lambda>_.
       (case find_index (payload_has tid) q of
          None \<Rightarrow> Done (q, None, [])
        | Some i \<Rightarrow>
            and_then (reindex_from 0 at (remove_at i q))
              (\<lambda>(q', evs). Done (q', Some (q ! i, i), evs))))"

definition Restore_queue :: "launch_payload \<Rightarrow> int \<Rightarrow> go_time \<Rightarrow> task_queue
    \<Rightarrow> (task_queue \<times> event list) outcome" where
  "Restore_queue p index at q =
     and_then (validateAll q) (\<lambda>_.
       and_then (validateQueuedPayload p) (\<lambda>_.
         if index < 0 \<or> int (length q) < index then Panic
         else reindex_from 0 at (insert_at (nat index) p q)))"

section \<open>Reservations, promotions, launching snapshots\<close>

type_synonym active_registry = "(task_id \<times> subcommand) list"

definition reg_Size :: "active_registry \<Rightarrow> int" where
  "reg_Size r = int (length r)"

definition reg_ImplSize :: "active_registry \<Rightarrow> int" where
  "reg_ImplSize r = int (length (filter (\<lambda>(_, sub). sub = SubcommandImpl) r))"

definition reg_Add :: "task_id \<Rightarrow> subcommand \<Rightarrow> active_registry \<Rightarrow> active_registry" where
  "reg_Add tid sub r = AList.update tid sub r"

definition reg_Remove :: "task_id \<Rightarrow> active_registry \<Rightarrow> active_registry" where
  "reg_Remove tid r = AList.delete tid r"

definition reg_Reset :: "(task_id \<times> subcommand) list \<Rightarrow> active_registry" where
  "reg_Reset reservations = foldl (\<lambda>r (tid, sub). reg_Add tid sub r) [] reservations"

type_synonym promotion_registry = "task_id list"

definition Reserve :: "task_id \<Rightarrow> promotion_registry \<Rightarrow> promotion_registry" where
  "Reserve tid r = (if tid \<in> set r then r else r @ [tid])"

definition Resolve :: "task_id \<Rightarrow> promotion_registry \<Rightarrow> promotion_registry \<times> bool" where
  "Resolve tid r = (if tid \<notin> set r then (r, False) else (removeAll tid r, True))"

type_synonym launching_registry = "(task_id \<times> task_snapshot) list"

definition launching_Register :: "task_id \<Rightarrow> task_snapshot \<Rightarrow> launching_registry \<Rightarrow> launching_registry" where
  "launching_Register tid s r = AList.update tid s r"

definition launching_Unregister :: "task_id \<Rightarrow> launching_registry \<Rightarrow> launching_registry" where
  "launching_Unregister tid r = AList.delete tid r"

definition launching_Lookup :: "task_id \<Rightarrow> launching_registry \<Rightarrow> task_snapshot option" where
  "launching_Lookup tid r = map_of r tid"

section \<open>The contract of a FIFO\<close>

definition payload_id :: "launch_payload \<Rightarrow> task_id" where
  "payload_id p = (case pl_Task p of None \<Rightarrow> TaskID '''' | Some t \<Rightarrow> id t)"

locale fifo_spec =
  fixes ids :: "'q \<Rightarrow> task_id list"
    and ok :: "'q \<Rightarrow> bool"
    and enq :: "launch_payload \<Rightarrow> 'q \<Rightarrow> ('q \<times> int) outcome"
    and deq :: "'q \<Rightarrow> 'q \<times> launch_payload option"
    and push_front :: "launch_payload \<Rightarrow> 'q \<Rightarrow> 'q outcome"
    and renumber :: "go_time \<Rightarrow> 'q \<Rightarrow> ('q \<times> event list) outcome"
  assumes enq_law: "ok q \<Longrightarrow> queued_payload p \<Longrightarrow>
      \<exists>q'. enq p q = Done (q', int (length (ids q'))) \<and> ids q' = ids q @ [payload_id p] \<and> ok q'"
    and deq_empty: "ok q \<Longrightarrow> ids q = [] \<Longrightarrow> deq q = (q, None)"
    and deq_law: "ok q \<Longrightarrow> ids q = x # xs \<Longrightarrow>
      \<exists>q' p. deq q = (q', Some p) \<and> payload_id p = x \<and> queued_payload p \<and> ids q' = xs \<and> ok q'"
    and push_front_law: "ok q \<Longrightarrow> queued_payload p \<Longrightarrow>
      \<exists>q'. push_front p q = Done q' \<and> ids q' = payload_id p # ids q \<and> ok q'"
    and renumber_law: "ok q \<Longrightarrow> \<exists>q' evs. renumber at q = Done (q', evs) \<and> ids q' = ids q \<and> ok q'"
begin

text \<open>Taking the head and putting it back leaves the order of the queue as it was.\<close>

lemma deq_push_front:
  assumes "ok q" and "deq q = (q', Some p)"
  shows "\<exists>q''. push_front p q' = Done q'' \<and> ids q'' = ids q \<and> ok q''"
proof (cases "ids q")
  case Nil
  with assms deq_empty show ?thesis by simp
next
  case (Cons x xs)
  from deq_law [OF assms(1) Cons] assms(2)
  have "payload_id p = x" "queued_payload p" "ids q' = xs" "ok q'" by auto
  with push_front_law [of q' p] Cons show ?thesis by auto
qed

text \<open>An element that joins a non-empty queue does not become its head.\<close>

lemma enq_keeps_head:
  assumes "ok q" and "queued_payload p" and "ids q = x # xs" and "enq p q = Done (q', n)"
  shows "n = int (length (ids q)) + 1 \<and> (\<exists>q'' h. deq q' = (q'', Some h) \<and> payload_id h = x)"
proof -
  from enq_law [OF assms(1,2)] assms(3,4)
  have "ids q' = x # xs @ [payload_id p]" "ok q'" "n = int (length (ids q'))" by auto
  with deq_law [of q' x "xs @ [payload_id p]"] assms(3) show ?thesis by auto
qed

end

section \<open>Lemmas on the slice implementation\<close>

lemma validateAll_Done [simp]: "validateAll q = Done u \<longleftrightarrow> list_all queued_payload q"
  by (induction q) (auto simp: validateQueuedPayload_def)

lemma validateQueuedPayload_Done [simp]: "validateQueuedPayload p = Done u \<longleftrightarrow> queued_payload p"
  by (simp add: validateQueuedPayload_def)

lemma validateAll_eq: "list_all queued_payload q \<Longrightarrow> validateAll q = Done ()"
  by simp

lemma Requeue_queued:
  "state t = StateQueued \<Longrightarrow> Requeue n at t = (t\<lparr>queuePosition := n\<rparr>,
     Inr [TaskQueued (id t) (subcommand t) (slug t) (requestedTimeout t) n at])"
  by (simp add: Requeue_Inr)

text \<open>What renumbering does to a payload and to a queue of queued payloads.\<close>

definition at_position :: "int \<Rightarrow> launch_payload \<Rightarrow> launch_payload" where
  "at_position n p = p\<lparr>pl_Task := map_option (\<lambda>t. t\<lparr>queuePosition := n\<rparr>) (pl_Task p)\<rparr>"

fun renumbered :: "int \<Rightarrow> task_queue \<Rightarrow> task_queue" where
  "renumbered i [] = []"
| "renumbered i (p # ps) = at_position (i + 1) p # renumbered (i + 1) ps"

lemma at_position_simps [simp]:
  "queued_payload (at_position n p) = queued_payload p"
  "payload_id (at_position n p) = payload_id p"
  "payload_has tid (at_position n p) = payload_has tid p"
  by (auto simp: at_position_def queued_payload_def payload_id_def payload_has_def split: option.splits)

lemma at_position_twice [simp]: "at_position m (at_position n p) = at_position m p"
  by (cases "pl_Task p") (simp_all add: at_position_def)

lemma length_renumbered [simp]: "length (renumbered i q) = length q"
  by (induction q arbitrary: i) auto

lemma nth_renumbered: "k < length q \<Longrightarrow> renumbered i q ! k = at_position (i + int k + 1) (q ! k)"
proof (induction q arbitrary: i k)
  case (Cons p ps)
  then show ?case by (cases k) (auto simp: algebra_simps)
qed simp

lemma renumbered_simps [simp]:
  "list_all queued_payload (renumbered i q) = list_all queued_payload q"
  "map payload_id (renumbered i q) = map payload_id q"
  "renumbered j (renumbered i q) = renumbered j q"
  by (induction q arbitrary: i j) auto

lemma reindex_from_queued:
  "list_all queued_payload q \<Longrightarrow> \<exists>evs. reindex_from i at q = Done (renumbered i q, evs)"
proof (induction q arbitrary: i)
  case (Cons p ps)
  then obtain t where t: "pl_Task p = Some t" "state t = StateQueued"
    by (auto simp: queued_payload_def split: option.splits)
  from Cons obtain evs where "reindex_from (i + 1) at ps = Done (renumbered (i + 1) ps, evs)"
    by auto
  with t show ?case by (simp add: Requeue_queued at_position_def)
qed simp

lemma Reindex_queued:
  "list_all queued_payload q \<Longrightarrow> \<exists>evs. Reindex at q = Done (renumbered 0 q, evs)"
  using reindex_from_queued [of q 0 at] by (simp add: Reindex_def validateAll_eq)

lemma Enqueue_queued: "queued_payload p \<Longrightarrow> Enqueue p q = Done (q @ [p], int (length q) + 1)"
  by (simp add: Enqueue_def validateQueuedPayload_def)

lemma Prepend_queued: "queued_payload p \<Longrightarrow> Prepend p q = Done (p # q)"
  by (simp add: Prepend_def validateQueuedPayload_def)

interpretation slice_fifo: fifo_spec "map payload_id" "list_all queued_payload" Enqueue Dequeue
  Prepend Reindex
proof
  fix q :: task_queue and p
  assume "list_all queued_payload q" "queued_payload p"
  then show "\<exists>q'. Enqueue p q = Done (q', int (length (map payload_id q')))
      \<and> map payload_id q' = map payload_id q @ [payload_id p] \<and> list_all queued_payload q'"
    by (simp add: Enqueue_queued)
next
  fix q :: task_queue
  assume "map payload_id q = []"
  then show "Dequeue q = (q, None)" by (simp add: Dequeue_def)
next
  fix q :: task_queue and x xs
  assume "list_all queued_payload q" "map payload_id q = x # xs"
  then show "\<exists>q' p. Dequeue q = (q', Some p) \<and> payload_id p = x \<and> queued_payload p
      \<and> map payload_id q' = xs \<and> list_all queued_payload q'"
    by (auto simp: Dequeue_def)
next
  fix q :: task_queue and p
  assume "list_all queued_payload q" "queued_payload p"
  then show "\<exists>q'. Prepend p q = Done q' \<and> map payload_id q' = payload_id p # map payload_id q
      \<and> list_all queued_payload q'"
    by (simp add: Prepend_queued)
next
  fix q :: task_queue and at
  assume "list_all queued_payload q"
  then show "\<exists>q' evs. Reindex at q = Done (q', evs) \<and> map payload_id q' = map payload_id q
      \<and> list_all queued_payload q'"
    using Reindex_queued [of q at] by auto
qed

lemma payload_has_id: "queued_payload p \<Longrightarrow> payload_has tid p \<longleftrightarrow> payload_id p = tid"
  by (auto simp: payload_has_def payload_id_def queued_payload_def split: option.splits)

lemma find_index_id:
  assumes "list_all queued_payload q" and "distinct (map payload_id q)" and "k < length q"
  shows "find_index (payload_has (payload_id (q ! k))) q = Some k"
proof -
  have k: "payload_has (payload_id (q ! k)) (q ! k)"
    using assms by (simp add: payload_has_id list_all_length)
  then obtain i where i: "find_index (payload_has (payload_id (q ! k))) q = Some i"
    using assms(3) by (metis find_index_None nth_mem option.exhaust)
  from find_index_Some [OF i] have "i < length q" "payload_id (q ! i) = payload_id (q ! k)"
    using assms(1) by (auto simp: payload_has_id list_all_length)
  with assms(2,3) have "i = k"
    by (metis distinct_conv_nth length_map nth_map)
  with i show ?thesis by simp
qed

lemma renumbered_append:
  "renumbered i (xs @ ys) = renumbered i xs @ renumbered (i + int (length xs)) ys"
  by (induction xs arbitrary: i) (auto simp: algebra_simps)

lemma renumbered_insert_remove:
  assumes "i < length q"
  shows "renumbered 0 (insert_at i (q ! i) (renumbered 0 (remove_at i q))) = renumbered 0 q"
proof -
  define xs p ys where "xs = take i q" and "p = q ! i" and "ys = drop (Suc i) q"
  have q: "q = xs @ p # ys" and i: "i = length xs"
    using id_take_nth_drop [OF assms] assms by (simp_all add: xs_def p_def ys_def)
  have "insert_at (length xs) p (renumbered 0 (remove_at (length xs) (xs @ p # ys)))
      = renumbered 0 xs @ p # renumbered (int (length xs)) ys"
    by (simp add: insert_at_def remove_at_def renumbered_append)
  then have "renumbered 0 (insert_at (length xs) p (renumbered 0 (remove_at (length xs) (xs @ p # ys))))
      = renumbered 0 (xs @ p # ys)"
    by (simp add: renumbered_append)
  with q i show ?thesis by (simp add: p_def)
qed

section \<open>Properties\<close>

text \<open>
  After renumbering a queue of queued tasks with distinct identifiers, the order is unchanged, every
  waiting task records its one-based index as its queue position, and the position that a status
  query reports is the same number.
\<close>

theorem Reindex_positions:
  assumes "list_all queued_payload q" and "distinct (map payload_id q)"
  shows "\<exists>q' evs. Reindex at q = Done (q', evs) \<and> map payload_id q' = map payload_id q
    \<and> (\<forall>k < length q. map_option queuePosition (pl_Task (q' ! k)) = Some (int k + 1)
         \<and> QueuePosition (payload_id (q ! k)) q' = Some (int k + 1))"
proof -
  obtain evs where r: "Reindex at q = Done (renumbered 0 q, evs)"
    using Reindex_queued [OF assms(1)] by blast
  have "map_option queuePosition (pl_Task (renumbered 0 q ! k)) = Some (int k + 1)
      \<and> QueuePosition (payload_id (q ! k)) (renumbered 0 q) = Some (int k + 1)" if k: "k < length q" for k
  proof
    have "queued_payload (q ! k)" using assms(1) k by (simp add: list_all_length)
    then show "map_option queuePosition (pl_Task (renumbered 0 q ! k)) = Some (int k + 1)"
      using k by (auto simp: nth_renumbered at_position_def queued_payload_def split: option.splits)
    have "payload_id (renumbered 0 q ! k) = payload_id (q ! k)"
      using k by (simp add: nth_renumbered)
    with find_index_id [of "renumbered 0 q" k] assms k
    show "QueuePosition (payload_id (q ! k)) (renumbered 0 q) = Some (int k + 1)"
      by (simp add: QueuePosition_def Lookup_def)
  qed
  with r show ?thesis by auto
qed

definition sample_payload :: "string \<Rightarrow> launch_payload" where
  "sample_payload name =
     \<lparr>pl_Task = Some ((sample_task StateQueued)\<lparr>id := TaskID name\<rparr>), pl_Model = ''m'',
      pl_ReasoningEffort = None, pl_PromptText = ''do'', pl_NormalizedPaths = [],
      pl_ResolvedTimeout = \<lparr>requestedSeconds = None, resolvedSeconds = 1800\<rparr>,
      pl_SandboxMode = ''read-only'', pl_SourceWorkingDir = ''/w'', pl_WorkingDir = Some ''/w'',
      pl_WorktreeMode = WorktreeModeCurrent, pl_OutputSchemaPath = None\<rparr>"

theorem Reindex_positions_witness:
  "\<exists>q' evs. Reindex 7 [sample_payload ''a'', sample_payload ''b''] = Done (q', evs)
    \<and> map payload_id q' = [TaskID ''a'', TaskID ''b'']
    \<and> (\<forall>k < 2. map_option queuePosition (pl_Task (q' ! k)) = Some (int k + 1)
         \<and> QueuePosition (payload_id ([sample_payload ''a'', sample_payload ''b''] ! k)) q'
             = Some (int k + 1))"
proof -
  have "list_all queued_payload [sample_payload ''a'', sample_payload ''b'']"
    "distinct (map payload_id [sample_payload ''a'', sample_payload ''b''])"
    by (simp_all add: sample_payload_def sample_task_def queued_payload_def payload_id_def)
  from Reindex_positions [OF this, of 7] show ?thesis
    by (simp add: sample_payload_def payload_id_def numeral_2_eq_2)
qed

text \<open>
  Removing a waiting task and restoring it at the index that \<open>Remove\<close> returned gives the queue
  back with its order and its numbering, and neither call panics.
\<close>

theorem Remove_Restore_roundtrip:
  assumes "list_all queued_payload q" and "Lookup tid q = Some (p, i)"
  shows "\<exists>evs evs'. Remove tid at q = Done (renumbered 0 (remove_at i q), Some (p, i), evs)
    \<and> Restore_queue p (int i) at' (renumbered 0 (remove_at i q)) = Done (renumbered 0 q, evs')"
proof -
  from assms(2) have f: "find_index (payload_has tid) q = Some i" and p: "p = q ! i"
    by (auto simp: Lookup_def split: option.splits)
  then have i: "i < length q" by (auto dest: find_index_Some)
  have rem: "list_all queued_payload (remove_at i q)"
    using assms(1) set_remove_at [of i q] by (auto simp: list_all_iff)
  then obtain evs where r: "reindex_from 0 at (remove_at i q)
      = Done (renumbered 0 (remove_at i q), evs)"
    using reindex_from_queued by blast
  have qp: "queued_payload p" using assms(1) i p by (simp add: list_all_length)
  then have "list_all queued_payload (insert_at i p (renumbered 0 (remove_at i q)))"
    using rem renumbered_simps(1) [of 0 "remove_at i q"] by (simp add: list_all_iff set_insert_at)
  then obtain evs' where "reindex_from 0 at' (insert_at i p (renumbered 0 (remove_at i q)))
      = Done (renumbered 0 q, evs')"
    using reindex_from_queued [of "insert_at i p (renumbered 0 (remove_at i q))" 0 at']
      renumbered_insert_remove [OF i] p by auto
  then have "Restore_queue p (int i) at' (renumbered 0 (remove_at i q)) = Done (renumbered 0 q, evs')"
    using rem qp i by (simp add: Restore_queue_def validateAll_eq validateQueuedPayload_def)
  moreover have "Remove tid at q = Done (renumbered 0 (remove_at i q), Some (p, i), evs)"
    using assms(1) f r p by (simp add: Remove_def validateAll_eq)
  ultimately show ?thesis by auto
qed

theorem Remove_Restore_roundtrip_witness:
  "\<exists>q' evs evs'. Remove (TaskID ''b'') 7 [sample_payload ''a'', sample_payload ''b'']
      = Done (q', Some (sample_payload ''b'', 1), evs)
    \<and> Restore_queue (sample_payload ''b'') 1 8 q' = Done (renumbered 0 [sample_payload ''a'', sample_payload ''b''], evs')"
proof -
  have "list_all queued_payload [sample_payload ''a'', sample_payload ''b'']"
    "Lookup (TaskID ''b'') [sample_payload ''a'', sample_payload ''b''] = Some (sample_payload ''b'', 1)"
    by (simp_all add: sample_payload_def sample_task_def queued_payload_def Lookup_def payload_has_def)
  from Remove_Restore_roundtrip [OF this, of 7 8] show ?thesis by auto
qed

end
