(* ===== verification/Admission.thy ===== *)
theory Admission
  imports Task_Queue
begin

text \<open>
  Admission and promotion of tasks, \<^verbatim>\<open>internal/execution/usecase/admit.go\<close>,
  \<^verbatim>\<open>advance.go\<close> and \<^verbatim>\<open>slotreleaser.go\<close>. The collections guarded by \<open>queueMu\<close> are one
  record; every method that takes the mutex is one atomic step on it.

  The context of \<open>AdvanceQueueUseCase.Execute\<close> is read at six places between which it may be
  cancelled; it is a function from the number of the check to the error \<open>ctx.Err()\<close> returns there.
  The lifecycle starter is a parameter: it accepts or rejects a payload.
\<close>

section \<open>State\<close>

record sched_config =
  maxConcurrentTasks :: int
  maxConcurrentImplTasks :: int
  queueMaxDepth :: int

record sched =
  sc_queue :: task_queue
  sc_registry :: active_registry
  sc_launching :: launching_registry
  sc_promotions :: promotion_registry

record admission_input =
  ai_TaskID :: task_id
  ai_Subcommand :: subcommand
  ai_Slug :: slug
  ai_RequestedTimeout :: "int option"
  ai_RequestedAt :: go_time
  ai_PromptText :: string
  ai_NormalizedPaths :: "normalized_path list"
  ai_ResolvedTimeout :: timeout
  ai_Model :: string
  ai_ReasoningEffort :: "string option"
  ai_SandboxMode :: string
  ai_SourceWorkingDir :: string
  ai_WorktreeMode :: worktree_mode
  ai_OutputSchemaPath :: "string option"

record admission_result =
  ar_State :: task_state
  ar_QueuePosition :: "int option"
  ar_Events :: "event list"
  ar_LaunchPayload :: "launch_payload option"

section \<open>Admission\<close>

definition validateAdmissionInput :: "admission_input \<Rightarrow> domain_error option" where
  "validateAdmissionInput i =
     (if tid_string (ai_TaskID i) = '''' then Some (ErrText ''task ID is required'')
      else if ai_Subcommand i = SubcommandOther '''' then Some (ErrText ''subcommand is required'')
      else if slug_string (ai_Slug i) = '''' then Some (ErrText ''slug is required'')
      else if is_zero_time (ai_RequestedAt i) then Some (ErrText ''requested at is required'')
      else if ai_Model i = '''' then Some (ErrText ''model is required'')
      else if ai_PromptText i = '''' then Some (ErrText ''prompt text is required'')
      else if resolvedSeconds (ai_ResolvedTimeout i) = 0
        then Some (ErrText ''resolved timeout is required'')
      else if ai_SandboxMode i = '''' then Some (ErrText ''sandbox mode is required'')
      else if ai_SourceWorkingDir i = ''''
        then Some (ErrText ''source working directory is required'')
      else if ai_WorktreeMode i = WorktreeModeOther ''''
        then Some (ErrText ''worktree mode is required'')
      else None)"

text \<open>A free slot for a task of the given subcommand.\<close>

definition slot_free :: "sched_config \<Rightarrow> subcommand \<Rightarrow> active_registry \<Rightarrow> bool" where
  "slot_free cfg sub r =
     (reg_Size r < maxConcurrentTasks cfg
      \<and> (sub \<noteq> SubcommandImpl \<or> reg_ImplSize r < maxConcurrentImplTasks cfg))"

definition admission_payload :: "admission_input \<Rightarrow> task \<Rightarrow> launch_payload" where
  "admission_payload i t =
     \<lparr>pl_Task = Some t, pl_Model = ai_Model i, pl_ReasoningEffort = ai_ReasoningEffort i,
      pl_PromptText = ai_PromptText i, pl_NormalizedPaths = ai_NormalizedPaths i,
      pl_ResolvedTimeout = ai_ResolvedTimeout i, pl_SandboxMode = ai_SandboxMode i,
      pl_SourceWorkingDir = ai_SourceWorkingDir i,
      pl_WorkingDir =
        (if ai_Subcommand i \<noteq> SubcommandImpl \<or> ai_WorktreeMode i = WorktreeModeCurrent
         then Some (ai_SourceWorkingDir i) else None),
      pl_WorktreeMode = ai_WorktreeMode i, pl_OutputSchemaPath = ai_OutputSchemaPath i\<rparr>"

definition admission_snapshot :: "launch_payload \<Rightarrow> task \<Rightarrow> domain_error + task_snapshot" where
  "admission_snapshot p t =
     NewTaskSnapshotFromAdmission (Some t) (pl_ResolvedTimeout p) (pl_Model p)
       (pl_ReasoningEffort p) (pl_SandboxMode p) (pl_WorkingDir p) ExecutionRouteDaemon
       (requestedAt t)"

definition Admit :: "sched_config \<Rightarrow> admission_input \<Rightarrow> sched
    \<Rightarrow> (sched \<times> (domain_error + admission_result)) outcome" where
  "Admit cfg i s =
     (case validateAdmissionInput i of
        Some e \<Rightarrow> Done (s, Inl e)
      | None \<Rightarrow>
          let immediate = (slot_free cfg (ai_Subcommand i) (sc_registry s) \<and> sc_queue s = [])
          in if \<not> immediate
                \<and> int (length (sc_queue s)) + int (length (sc_promotions s)) \<ge> queueMaxDepth cfg
             then Done (s, Inl ErrQueueFull)
             else
     (case NewTask (ai_TaskID i) (ai_Subcommand i) (ai_Slug i) (ai_RequestedTimeout i)
             (ai_RequestedAt i) (int (length (sc_queue s)) + 1) of
        Inl e \<Rightarrow> Done (s, Inl e)
      | Inr (t, events) \<Rightarrow>
          let p = admission_payload i t
          in if immediate then
               (case admission_snapshot p t of
                  Inl e \<Rightarrow> Done (s, Inl e)
                | Inr snap \<Rightarrow>
                    Done (s\<lparr>sc_registry := reg_Add (id t) (ai_Subcommand i) (sc_registry s),
                            sc_launching := launching_Register (id t) snap (sc_launching s)\<rparr>,
                          Inr \<lparr>ar_State = StateQueued, ar_QueuePosition = None,
                               ar_Events = events, ar_LaunchPayload = Some p\<rparr>))
             else
               and_then (Enqueue p (sc_queue s)) (\<lambda>(q, position).
                 Done (s\<lparr>sc_queue := q\<rparr>,
                       Inr \<lparr>ar_State = StateQueued, ar_QueuePosition = Some position,
                            ar_Events = events, ar_LaunchPayload = None\<rparr>))))"

definition Admit_CompensateRejectedStart :: "task_id \<Rightarrow> sched \<Rightarrow> sched" where
  "Admit_CompensateRejectedStart tid s =
     s\<lparr>sc_launching := launching_Unregister tid (sc_launching s),
       sc_registry := reg_Remove tid (sc_registry s)\<rparr>"

section \<open>Promotion of the head of the queue\<close>

definition put_back :: "launch_payload \<Rightarrow> sched \<Rightarrow> sched outcome" where
  "put_back p s = and_then (Prepend p (sc_queue s)) (\<lambda>q. Done (s\<lparr>sc_queue := q\<rparr>))"

definition renumber_queue :: "go_time \<Rightarrow> sched \<Rightarrow> sched outcome" where
  "renumber_queue now s =
     and_then (Reindex now (sc_queue s)) (\<lambda>(q, _). Done (s\<lparr>sc_queue := q\<rparr>))"

text \<open>
  The second half of \<open>AdvanceQueueUseCase.Execute\<close>, once the head has been taken off the queue and a
  slot is free for it: checks 3 to 5 of the context, each with its own rollback.
\<close>

definition promote_head :: "(nat \<Rightarrow> domain_error option) \<Rightarrow> go_time \<Rightarrow> launch_payload \<Rightarrow> task \<Rightarrow> sched
    \<Rightarrow> (sched \<times> (domain_error + launch_payload option)) outcome" where
  "promote_head ctx now p t s =
     (case ctx 3 of
        Some e \<Rightarrow> and_then (put_back p s) (\<lambda>s. Done (s, Inl e))
      | None \<Rightarrow>
     (case admission_snapshot p t of
        Inl e \<Rightarrow> and_then (put_back p s) (\<lambda>s. Done (s, Inl e))
      | Inr snap \<Rightarrow>
          let s = s\<lparr>sc_registry := reg_Add (id t) (subcommand t) (sc_registry s)\<rparr> in
     (case ctx 4 of
        Some e \<Rightarrow>
          and_then (put_back p (s\<lparr>sc_registry := reg_Remove (id t) (sc_registry s)\<rparr>)) (\<lambda>s.
          and_then (renumber_queue now s) (\<lambda>s. Done (s, Inl e)))
      | None \<Rightarrow>
          let s = s\<lparr>sc_launching := launching_Register (id t) snap (sc_launching s)\<rparr> in
     (case ctx 5 of
        Some e \<Rightarrow>
          and_then (put_back p (s\<lparr>sc_launching := launching_Unregister (id t) (sc_launching s),
                                  sc_registry := reg_Remove (id t) (sc_registry s)\<rparr>)) (\<lambda>s.
          and_then (renumber_queue now s) (\<lambda>s. Done (s, Inl e)))
      | None \<Rightarrow>
          and_then (renumber_queue now (s\<lparr>sc_promotions := Reserve (id t) (sc_promotions s)\<rparr>))
            (\<lambda>s. Done (s, Inr (Some p)))))))"

definition Advance :: "sched_config \<Rightarrow> (nat \<Rightarrow> domain_error option) \<Rightarrow> task_id \<Rightarrow> go_time \<Rightarrow> sched
    \<Rightarrow> (sched \<times> (domain_error + launch_payload option)) outcome" where
  "Advance cfg ctx tid now s =
     (case ctx 0 of Some e \<Rightarrow> Done (s, Inl e) | None \<Rightarrow>
     (case ctx 1 of Some e \<Rightarrow> Done (s, Inl e) | None \<Rightarrow>
      let s = s\<lparr>sc_registry := reg_Remove tid (sc_registry s)\<rparr> in
     (case ctx 2 of Some e \<Rightarrow> Done (s, Inl e) | None \<Rightarrow>
     (case Dequeue (sc_queue s) of
        (q, None) \<Rightarrow> Done (s\<lparr>sc_queue := q\<rparr>, Inr None)
      | (q, Some p) \<Rightarrow>
          (case pl_Task p of
             None \<Rightarrow> Panic
           | Some t \<Rightarrow>
               let s = s\<lparr>sc_queue := q\<rparr> in
               if state t \<noteq> StateQueued then Done (s, Inl ErrInvalidStateTransition)
               else if \<not> slot_free cfg (subcommand t) (sc_registry s) then
                 and_then (put_back p s) (\<lambda>s. Done (s, Inr None))
               else promote_head ctx now p t s)))))"

definition Advance_CompensateRejectedStart :: "launch_payload \<Rightarrow> go_time \<Rightarrow> sched \<Rightarrow> sched outcome" where
  "Advance_CompensateRejectedStart p now s =
     (case pl_Task p of
        None \<Rightarrow> Done s
      | Some t \<Rightarrow>
          (case Resolve (id t) (sc_promotions s) of
             (proms, False) \<Rightarrow> Done (s\<lparr>sc_promotions := proms\<rparr>)
           | (proms, True) \<Rightarrow>
               and_then (put_back p (s\<lparr>sc_promotions := proms,
                   sc_launching := launching_Unregister (id t) (sc_launching s),
                   sc_registry := reg_Remove (id t) (sc_registry s)\<rparr>))
                 (renumber_queue now)))"

definition CommitStart :: "launch_payload \<Rightarrow> sched \<Rightarrow> sched" where
  "CommitStart p s =
     (case pl_Task p of
        None \<Rightarrow> s
      | Some t \<Rightarrow> s\<lparr>sc_promotions := fst (Resolve (id t) (sc_promotions s))\<rparr>)"

section \<open>Lemmas on the registries\<close>

lemma length_alist_update:
  "length (AList.update k v al) = (if k \<in> fst ` set al then length al else Suc (length al))"
  by (induction al) auto

lemma length_alist_delete: "length (AList.delete k al) \<le> length al"
  by (simp add: AList.delete_eq)

lemma reg_Size_Add: "reg_Size (reg_Add tid sub r) \<le> reg_Size r + 1"
  by (simp add: reg_Size_def reg_Add_def length_alist_update)

lemma reg_Size_Remove: "reg_Size (reg_Remove tid r) \<le> reg_Size r"
  using length_alist_delete [of tid r] by (simp add: reg_Size_def reg_Remove_def)

lemma reg_ImplSize_Add:
  "reg_ImplSize (reg_Add tid sub r) \<le> reg_ImplSize r + (if sub = SubcommandImpl then 1 else 0)"
  unfolding reg_Add_def by (induction r) (auto simp: reg_ImplSize_def)

lemma reg_ImplSize_Remove: "reg_ImplSize (reg_Remove tid r) \<le> reg_ImplSize r"
  unfolding reg_Remove_def by (induction r) (auto simp: reg_ImplSize_def AList.delete_eq)

lemma reg_Remove_Add: "reg_Remove tid (reg_Add tid sub r) = reg_Remove tid r"
  unfolding reg_Add_def reg_Remove_def by (induction r) auto

lemma launching_Unregister_Register:
  "launching_Unregister tid (launching_Register tid snap r) = launching_Unregister tid r"
  unfolding launching_Register_def launching_Unregister_def by (induction r) auto

lemma length_Reserve: "length (Reserve tid r) \<le> Suc (length r)"
  by (simp add: Reserve_def)

lemma length_Resolve:
  assumes "distinct r" and "Resolve tid r = (r', True)"
  shows "length r = Suc (length r')"
proof -
  from assms(2) have "tid \<in> set r" "r' = removeAll tid r"
    by (auto simp: Resolve_def split: if_splits)
  moreover from this(1) have "0 < length r" by (rule length_pos_if_in_set)
  ultimately show ?thesis
    using length_remove1 [of tid r] by (simp add: distinct_remove1_removeAll [OF assms(1)])
qed

section \<open>The invariant of the scheduler\<close>

definition sched_inv :: "sched_config \<Rightarrow> sched \<Rightarrow> bool" where
  "sched_inv cfg s \<longleftrightarrow>
     list_all queued_payload (sc_queue s)
     \<and> distinct (map fst (sc_registry s)) \<and> distinct (sc_promotions s)
     \<and> reg_Size (sc_registry s) \<le> maxConcurrentTasks cfg
     \<and> reg_ImplSize (sc_registry s) \<le> maxConcurrentImplTasks cfg
     \<and> int (length (sc_queue s)) + int (length (sc_promotions s)) \<le> queueMaxDepth cfg"

definition empty_sched :: sched where
  "empty_sched = \<lparr>sc_queue = [], sc_registry = [], sc_launching = [], sc_promotions = []\<rparr>"

lemma put_back_queued:
  "queued_payload p \<Longrightarrow> put_back p s = Done (s\<lparr>sc_queue := p # sc_queue s\<rparr>)"
  by (simp add: put_back_def Prepend_queued)

lemma renumber_queue_queued:
  assumes "list_all queued_payload (sc_queue s)"
  shows "renumber_queue now s = Done (s\<lparr>sc_queue := renumbered 0 (sc_queue s)\<rparr>)"
  using Reindex_queued [OF assms, of now] by (auto simp: renumber_queue_def)

lemma distinct_reg_Add: "distinct (map fst r) \<Longrightarrow> distinct (map fst (reg_Add tid sub r))"
  by (simp add: reg_Add_def distinct_update)

lemma distinct_reg_Remove: "distinct (map fst r) \<Longrightarrow> distinct (map fst (reg_Remove tid r))"
  by (simp add: reg_Remove_def distinct_delete)

lemma distinct_Resolve: "distinct r \<Longrightarrow> distinct (fst (Resolve tid r))"
  by (simp add: Resolve_def distinct_removeAll)

text \<open>
  What \<open>Advance\<close> can do to a well-formed state: either it promotes the head (and then every field is
  known), or it keeps the waiting tasks in order, only releases reservations and promotes nothing.
\<close>

definition promoted :: "sched_config \<Rightarrow> task_id \<Rightarrow> sched \<Rightarrow> sched \<Rightarrow> launch_payload \<Rightarrow> bool" where
  "promoted cfg tid s s' p \<longleftrightarrow>
     (\<exists>t ps snap. sc_queue s = p # ps \<and> pl_Task p = Some t \<and> state t = StateQueued
        \<and> slot_free cfg (subcommand t) (reg_Remove tid (sc_registry s))
        \<and> admission_snapshot p t = Inr snap
        \<and> s' = \<lparr>sc_queue = renumbered 0 ps,
                sc_registry = reg_Add (id t) (subcommand t) (reg_Remove tid (sc_registry s)),
                sc_launching = launching_Register (id t) snap (sc_launching s),
                sc_promotions = Reserve (id t) (sc_promotions s)\<rparr>)"

definition kept :: "task_id \<Rightarrow> sched \<Rightarrow> sched \<Rightarrow> bool" where
  "kept tid s s' \<longleftrightarrow>
     (sc_queue s' = sc_queue s \<or> sc_queue s' = renumbered 0 (sc_queue s))
     \<and> sc_promotions s' = sc_promotions s
     \<and> (sc_registry s' = sc_registry s \<or> sc_registry s' = reg_Remove tid (sc_registry s)
        \<or> (\<exists>hid. sc_registry s' = reg_Remove hid (reg_Remove tid (sc_registry s))))"

lemma promote_head_spec:
  assumes "list_all queued_payload (p # ps)" and "pl_Task p = Some t"
    and "s0 = s\<lparr>sc_registry := reg_Remove tid (sc_registry s), sc_queue := ps\<rparr>"
    and "sc_queue s = p # ps" and "slot_free cfg (subcommand t) (reg_Remove tid (sc_registry s))"
  shows "\<exists>s' r. promote_head ctx now p t s0 = Done (s', r)
    \<and> (case r of Inr (Some p') \<Rightarrow> p' = p \<and> promoted cfg tid s s' p
       | Inr None \<Rightarrow> False | Inl e \<Rightarrow> kept tid s s' \<and> (\<exists>k. ctx k = Some e) \<or>
           kept tid s s' \<and> admission_snapshot p t = Inl e)"
proof -
  have qp: "queued_payload p" and qps: "list_all queued_payload ps" using assms(1) by auto
  have st: "state t = StateQueued" using qp assms(2) by (simp add: queued_payload_def)
  have all: "list_all queued_payload (p # ps)" using qp qps by simp
  show ?thesis
  proof (cases "ctx 3")
    case (Some e)
    then show ?thesis
      using assms(3,4) qp by (auto simp: promote_head_def put_back_queued kept_def)
  next
    case c3: None
    show ?thesis
    proof (cases "admission_snapshot p t")
      case (Inl e)
      with c3 show ?thesis
        using assms(3,4) qp by (auto simp: promote_head_def put_back_queued kept_def)
    next
      case (Inr snap)
      show ?thesis
      proof (cases "ctx 4")
        case (Some e)
        with c3 Inr show ?thesis
          using assms(3,4) qp all
          by (auto simp: promote_head_def put_back_queued renumber_queue_queued kept_def
              reg_Remove_Add)
      next
        case c4: None
        show ?thesis
        proof (cases "ctx 5")
          case (Some e)
          with c3 c4 Inr show ?thesis
            using assms(3,4) qp all
            by (auto simp: promote_head_def put_back_queued renumber_queue_queued kept_def
                reg_Remove_Add)
        next
          case None
          with c3 c4 Inr show ?thesis
            using assms(2-5) qps st
            by (auto simp: promote_head_def renumber_queue_queued promoted_def)
        qed
      qed
    qed
  qed
qed

lemma Advance_spec:
  assumes "list_all queued_payload (sc_queue s)"
  shows "\<exists>s' r. Advance cfg ctx tid now s = Done (s', r)
    \<and> (case r of Inr (Some p) \<Rightarrow> promoted cfg tid s s' p | _ \<Rightarrow> kept tid s s')"
proof (cases "ctx 0 \<noteq> None \<or> ctx 1 \<noteq> None \<or> ctx 2 \<noteq> None")
  case True
  then show ?thesis
    by (cases "ctx 0"; cases "ctx 1"; cases "ctx 2") (auto simp: Advance_def kept_def)
next
  case c: False
  show ?thesis
  proof (cases "sc_queue s")
    case Nil
    with c show ?thesis by (auto simp: Advance_def Dequeue_def kept_def)
  next
    case (Cons p ps)
    let ?s0 = "s\<lparr>sc_registry := reg_Remove tid (sc_registry s), sc_queue := ps\<rparr>"
    from Cons assms obtain t where t: "pl_Task p = Some t" "state t = StateQueued"
      by (auto simp: queued_payload_def split: option.splits)
    have adv: "Advance cfg ctx tid now s =
        (if \<not> slot_free cfg (subcommand t) (reg_Remove tid (sc_registry s))
         then and_then (put_back p ?s0) (\<lambda>s. Done (s, Inr None)) else promote_head ctx now p t ?s0)"
      using c Cons t by (auto simp: Advance_def Dequeue_def)
    show ?thesis
    proof (cases "slot_free cfg (subcommand t) (reg_Remove tid (sc_registry s))")
      case True
      from promote_head_spec [OF _ t(1) refl Cons True, of ctx now] assms Cons adv True
      show ?thesis by (fastforce split: sum.splits option.splits)
    next
      case False
      with adv assms Cons show ?thesis by (auto simp: put_back_queued kept_def)
    qed
  qed
qed

lemma kept_inv: "kept tid s s' \<Longrightarrow> sched_inv cfg s \<Longrightarrow> sched_inv cfg s'"
proof -
  assume k: "kept tid s s'" and i: "sched_inv cfg s"
  have "reg_Size (sc_registry s') \<le> reg_Size (sc_registry s)"
    "reg_ImplSize (sc_registry s') \<le> reg_ImplSize (sc_registry s)"
    using k order_trans [OF reg_Size_Remove reg_Size_Remove]
      order_trans [OF reg_ImplSize_Remove reg_ImplSize_Remove]
    by (auto simp: kept_def reg_Size_Remove reg_ImplSize_Remove)
  moreover have "distinct (map fst (sc_registry s'))"
    using k i by (auto simp: kept_def sched_inv_def distinct_reg_Remove)
  ultimately show ?thesis
    using k i by (auto simp: kept_def sched_inv_def)
qed

lemma promoted_inv: "promoted cfg tid s s' p \<Longrightarrow> sched_inv cfg s \<Longrightarrow> sched_inv cfg s'"
proof -
  assume k: "promoted cfg tid s s' p" and i: "sched_inv cfg s"
  from k obtain t ps snap where pt: "sc_queue s = p # ps" and "pl_Task p = Some t"
    and free: "slot_free cfg (subcommand t) (reg_Remove tid (sc_registry s))"
    and eq: "s' = \<lparr>sc_queue = renumbered 0 ps,
                sc_registry = reg_Add (id t) (subcommand t) (reg_Remove tid (sc_registry s)),
                sc_launching = launching_Register (id t) snap (sc_launching s),
                sc_promotions = Reserve (id t) (sc_promotions s)\<rparr>"
    unfolding promoted_def by blast
  have s': "sc_queue s' = renumbered 0 ps"
      "sc_registry s' = reg_Add (id t) (subcommand t) (reg_Remove tid (sc_registry s))"
      "sc_promotions s' = Reserve (id t) (sc_promotions s)"
    by (simp_all add: eq)
  have "reg_Size (sc_registry s') \<le> maxConcurrentTasks cfg"
    "reg_ImplSize (sc_registry s') \<le> maxConcurrentImplTasks cfg"
    using free i reg_Size_Add [of "id t" "subcommand t" "reg_Remove tid (sc_registry s)"]
      reg_ImplSize_Add [of "id t" "subcommand t" "reg_Remove tid (sc_registry s)"]
      reg_ImplSize_Remove [of tid "sc_registry s"]
    by (auto simp: s' slot_free_def sched_inv_def split: if_splits)
  moreover have "distinct (map fst (sc_registry s'))" "distinct (sc_promotions s')"
    using i by (auto simp: s' sched_inv_def distinct_reg_Add distinct_reg_Remove Reserve_def)
  ultimately show ?thesis
    using i pt length_Reserve [of "id t" "sc_promotions s"] by (auto simp: sched_inv_def s')
qed

lemma Advance_inv:
  "sched_inv cfg s \<Longrightarrow> Advance cfg ctx tid now s = Done (s', r) \<Longrightarrow> sched_inv cfg s'"
  using Advance_spec [of s cfg ctx tid now] kept_inv promoted_inv
  by (auto simp: sched_inv_def split: sum.splits option.splits)

section \<open>Admission, compensation and commit preserve the invariant\<close>

lemma NewTask_queued:
  "NewTask tid sub sl req at pos = Inr (t, evs) \<Longrightarrow>
     id t = tid \<and> subcommand t = sub \<and> state t = StateQueued \<and> queuePosition t = pos"
  by (auto simp: NewTask_def split: if_splits)

lemma admission_payload_queued:
  "state t = StateQueued \<Longrightarrow> queued_payload (admission_payload i t) \<and> payload_id (admission_payload i t) = id t"
  by (simp add: admission_payload_def queued_payload_def payload_id_def)

definition admitted_now :: "sched_config \<Rightarrow> admission_input \<Rightarrow> sched \<Rightarrow> sched \<Rightarrow> admission_result \<Rightarrow> bool" where
  "admitted_now cfg i s s' res \<longleftrightarrow>
     sc_queue s = [] \<and> slot_free cfg (ai_Subcommand i) (sc_registry s)
     \<and> (\<exists>snap. s' = s\<lparr>sc_registry := reg_Add (ai_TaskID i) (ai_Subcommand i) (sc_registry s),
                      sc_launching := launching_Register (ai_TaskID i) snap (sc_launching s)\<rparr>)
     \<and> ar_QueuePosition res = None
     \<and> (\<exists>p. ar_LaunchPayload res = Some p \<and> queued_payload p \<and> payload_id p = ai_TaskID i)"

definition admitted_later :: "sched_config \<Rightarrow> admission_input \<Rightarrow> sched \<Rightarrow> sched \<Rightarrow> admission_result \<Rightarrow> bool" where
  "admitted_later cfg i s s' res \<longleftrightarrow>
     (sc_queue s \<noteq> [] \<or> \<not> slot_free cfg (ai_Subcommand i) (sc_registry s))
     \<and> int (length (sc_queue s)) + int (length (sc_promotions s)) < queueMaxDepth cfg
     \<and> (\<exists>p. s' = s\<lparr>sc_queue := sc_queue s @ [p]\<rparr> \<and> queued_payload p \<and> payload_id p = ai_TaskID i)
     \<and> ar_QueuePosition res = Some (int (length (sc_queue s)) + 1)
     \<and> ar_LaunchPayload res = None"

lemma Admit_spec:
  "\<exists>s' r. Admit cfg i s = Done (s', r)
     \<and> (case r of Inl e \<Rightarrow> s' = s
        | Inr res \<Rightarrow> ar_State res = StateQueued
            \<and> (admitted_now cfg i s s' res \<or> admitted_later cfg i s s' res))"
proof (cases "validateAdmissionInput i")
  case (Some e)
  then show ?thesis by (simp add: Admit_def)
next
  case v: None
  let ?free = "slot_free cfg (ai_Subcommand i) (sc_registry s) \<and> sc_queue s = []"
  show ?thesis
  proof (cases "NewTask (ai_TaskID i) (ai_Subcommand i) (ai_Slug i) (ai_RequestedTimeout i)
             (ai_RequestedAt i) (int (length (sc_queue s)) + 1)")
    case (Inl e)
    with v show ?thesis by (auto simp: Admit_def Let_def)
  next
    case (Inr te)
    obtain t evs where te: "te = (t, evs)" by (cases te)
    from NewTask_queued Inr te have t: "id t = ai_TaskID i" "state t = StateQueued" by blast+
    note q = admission_payload_queued [OF t(2), of i]
    show ?thesis
    proof (cases ?free)
      case True
      with v Inr te t q show ?thesis
        by (cases "admission_snapshot (admission_payload i t) t")
          (auto simp: Admit_def Let_def admitted_now_def)
    next
      case False
      with v Inr te t q show ?thesis
        by (auto simp: Admit_def Let_def admitted_later_def Enqueue_queued)
    qed
  qed
qed

lemma Admit_inv:
  assumes "sched_inv cfg s" and "Admit cfg i s = Done (s', r)"
  shows "sched_inv cfg s'"
proof -
  have spec: "case r of Inl e \<Rightarrow> s' = s
        | Inr res \<Rightarrow> ar_State res = StateQueued
            \<and> (admitted_now cfg i s s' res \<or> admitted_later cfg i s s' res)"
    using Admit_spec [of cfg i s] assms(2) by auto
  show ?thesis
  proof (cases r)
    case (Inl e)
    with spec assms(1) show ?thesis by simp
  next
    case (Inr res)
    with spec consider "admitted_now cfg i s s' res" | "admitted_later cfg i s s' res" by auto
    then show ?thesis
    proof cases
      case 1
      then have "reg_Size (sc_registry s') \<le> maxConcurrentTasks cfg"
        "reg_ImplSize (sc_registry s') \<le> maxConcurrentImplTasks cfg"
        using assms(1) reg_Size_Add [of "ai_TaskID i" "ai_Subcommand i" "sc_registry s"]
          reg_ImplSize_Add [of "ai_TaskID i" "ai_Subcommand i" "sc_registry s"]
        by (auto simp: admitted_now_def slot_free_def sched_inv_def split: if_splits)
      with 1 assms(1) show ?thesis
        by (auto simp: admitted_now_def sched_inv_def distinct_reg_Add)
    next
      case 2
      with assms(1) show ?thesis by (auto simp: admitted_later_def sched_inv_def)
    qed
  qed
qed

lemma Admit_Compensate_inv: "sched_inv cfg s \<Longrightarrow> sched_inv cfg (Admit_CompensateRejectedStart tid s)"
  using reg_Size_Remove [of tid "sc_registry s"] reg_ImplSize_Remove [of tid "sc_registry s"]
  by (auto simp: Admit_CompensateRejectedStart_def sched_inv_def distinct_reg_Remove)

lemma CommitStart_inv: "sched_inv cfg s \<Longrightarrow> sched_inv cfg (CommitStart p s)"
proof -
  assume i: "sched_inv cfg s"
  have "length (fst (Resolve tid (sc_promotions s))) \<le> length (sc_promotions s)" for tid
    by (simp add: Resolve_def removeAll_filter_not_eq)
  with i show ?thesis
    by (auto simp: CommitStart_def sched_inv_def distinct_Resolve split: option.splits)
      (meson add_left_mono of_nat_mono order_trans)
qed

lemma Advance_Compensate_spec:
  assumes "list_all queued_payload (sc_queue s)" and "queued_payload p" and "pl_Task p = Some t"
  shows "Advance_CompensateRejectedStart p now s =
    (if id t \<in> set (sc_promotions s)
     then Done \<lparr>sc_queue = renumbered 0 (p # sc_queue s),
                sc_registry = reg_Remove (id t) (sc_registry s),
                sc_launching = launching_Unregister (id t) (sc_launching s),
                sc_promotions = removeAll (id t) (sc_promotions s)\<rparr>
     else Done s)"
  using assms
  by (simp add: Advance_CompensateRejectedStart_def Resolve_def put_back_queued renumber_queue_queued)

lemma Advance_Compensate_inv:
  assumes "sched_inv cfg s" and "queued_payload p"
  shows "\<exists>s'. Advance_CompensateRejectedStart p now s = Done s' \<and> sched_inv cfg s'"
proof -
  from assms(2) obtain t where t: "pl_Task p = Some t"
    by (auto simp: queued_payload_def split: option.splits)
  show ?thesis
  proof (cases "id t \<in> set (sc_promotions s)")
    case True
    have "length (sc_promotions s) = Suc (length (removeAll (id t) (sc_promotions s)))"
      using assms(1) True length_Resolve [of "sc_promotions s" "id t"]
      by (simp add: sched_inv_def Resolve_def)
    with True t assms show ?thesis
      using reg_Size_Remove [of "id t" "sc_registry s"] reg_ImplSize_Remove [of "id t" "sc_registry s"]
      by (auto simp: Advance_Compensate_spec sched_inv_def distinct_reg_Remove distinct_removeAll)
  next
    case False
    with t assms show ?thesis by (simp add: Advance_Compensate_spec sched_inv_def)
  qed
qed

section \<open>Interleavings\<close>

text \<open>
  The atomic steps that the daemon's goroutines take on the shared collections, in any order: an
  admission, the compensation of a rejected immediate start, an advance, the compensation of a
  rejected promotion and the commit of an accepted one.
\<close>

inductive sched_step :: "sched_config \<Rightarrow> sched \<Rightarrow> sched \<Rightarrow> bool" for cfg where
  admit: "Admit cfg i s = Done (s', r) \<Longrightarrow> sched_step cfg s s'"
| admit_rejected: "sched_step cfg s (Admit_CompensateRejectedStart tid s)"
| advance: "Advance cfg ctx tid now s = Done (s', r) \<Longrightarrow> sched_step cfg s s'"
| advance_rejected: "queued_payload p \<Longrightarrow> Advance_CompensateRejectedStart p now s = Done s'
    \<Longrightarrow> sched_step cfg s s'"
| commit: "sched_step cfg s (CommitStart p s)"

inductive sched_reachable :: "sched_config \<Rightarrow> sched \<Rightarrow> bool" for cfg where
  init: "sched_reachable cfg empty_sched"
| next_step: "sched_reachable cfg s \<Longrightarrow> sched_step cfg s s' \<Longrightarrow> sched_reachable cfg s'"

lemma sched_step_inv: "sched_step cfg s s' \<Longrightarrow> sched_inv cfg s \<Longrightarrow> sched_inv cfg s'"
proof (induction rule: sched_step.induct)
  case (advance_rejected p now s s')
  then show ?case using Advance_Compensate_inv [of cfg s p now] by auto
qed (blast intro: Admit_inv Admit_Compensate_inv Advance_inv CommitStart_inv)+

lemma sched_reachable_inv:
  assumes "0 \<le> maxConcurrentTasks cfg" "0 \<le> maxConcurrentImplTasks cfg" "0 \<le> queueMaxDepth cfg"
    and "sched_reachable cfg s"
  shows "sched_inv cfg s"
  using assms(4)
proof (induction rule: sched_reachable.induct)
  case init
  with assms(1-3) show ?case
    by (simp add: empty_sched_def sched_inv_def reg_Size_def reg_ImplSize_def)
next
  case (next_step s s')
  then show ?case by (blast intro: sched_step_inv)
qed

section \<open>The slot releaser\<close>

lemma reindex_from_length: "reindex_from i at q = Done (q', evs) \<Longrightarrow> length q' = length q"
  by (induction q arbitrary: i q' evs)
    (auto simp: and_then_Done split: option.splits prod.splits sum.splits)

lemma renumber_queue_length:
  "renumber_queue now s = Done s' \<Longrightarrow> length (sc_queue s') = length (sc_queue s)"
  by (auto simp: renumber_queue_def Reindex_def and_then_Done dest: reindex_from_length)

lemma promote_head_length:
  "promote_head ctx now p t s = Done (s', Inr (Some p')) \<Longrightarrow> length (sc_queue s') = length (sc_queue s)"
  by (auto simp: promote_head_def Let_def and_then_Done split: option.splits sum.splits
      dest: renumber_queue_length)

lemma Advance_length:
  "Advance cfg ctx tid now s = Done (s', Inr (Some p)) \<Longrightarrow> length (sc_queue s') < length (sc_queue s)"
  by (cases "sc_queue s")
    (auto simp: Advance_def Dequeue_def Let_def and_then_Done split: option.splits if_splits
      dest: promote_head_length)

lemma CommitStart_queue [simp]: "sc_queue (CommitStart p s) = sc_queue s"
  by (simp add: CommitStart_def split: option.splits)

text \<open>
  \<open>ReleaseAndAdvance\<close> of \<^verbatim>\<open>slotreleaser.go\<close>. In round \<open>k\<close> the context answers \<open>ctxs k\<close> and the
  lifecycle starter accepts or rejects as \<open>start k\<close> says. The payloads that were accepted are
  returned beside the state, in the order of their starts.
\<close>

function ReleaseAndAdvance :: "sched_config \<Rightarrow> (nat \<Rightarrow> nat \<Rightarrow> domain_error option)
    \<Rightarrow> (nat \<Rightarrow> launch_payload \<Rightarrow> bool) \<Rightarrow> task_id \<Rightarrow> go_time \<Rightarrow> nat \<Rightarrow> sched
    \<Rightarrow> (sched \<times> launch_payload list) outcome" where
  "ReleaseAndAdvance cfg ctxs start tid now k s =
     (case Advance cfg (ctxs k) tid now s of
        Panic \<Rightarrow> Panic
      | Done (s', Inl e) \<Rightarrow> Done (s', [])
      | Done (s', Inr None) \<Rightarrow> Done (s', [])
      | Done (s', Inr (Some p)) \<Rightarrow>
          if \<not> start k p then
            and_then (Advance_CompensateRejectedStart p now s') (\<lambda>s''. Done (s'', []))
          else
            and_then (ReleaseAndAdvance cfg ctxs start tid now (Suc k) (CommitStart p s'))
              (\<lambda>(s'', started). Done (s'', p # started)))"
  by pat_completeness auto
termination
  by (relation "measure (\<lambda>(cfg, ctxs, start, tid, now, k, s). length (sc_queue s))")
    (auto dest: Advance_length)

declare ReleaseAndAdvance.simps [simp del]

text \<open>A waiting payload whose admission snapshot validates, so that it can be promoted.\<close>

definition payload_ready :: "launch_payload \<Rightarrow> bool" where
  "payload_ready p = (case pl_Task p of None \<Rightarrow> False | Some t \<Rightarrow> is_ok (admission_snapshot p t))"

lemma admission_snapshot_position:
  "admission_snapshot (p\<lparr>pl_Task := x\<rparr>) (t\<lparr>queuePosition := n\<rparr>) = admission_snapshot p t"
  by (simp add: admission_snapshot_def NewTaskSnapshotFromAdmission_def)

lemma payload_ready_position [simp]: "payload_ready (at_position n p) = payload_ready p"
  by (cases "pl_Task p")
    (simp_all add: payload_ready_def at_position_def admission_snapshot_position)

lemma renumbered_ready [simp]:
  "list_all payload_ready (renumbered i q) = list_all payload_ready q"
  by (induction q arbitrary: i) auto

text \<open>
  Why \<open>Advance\<close> promotes nothing: the queue is empty, its head has no slot, the context has ended, or
  the head cannot be recorded.
\<close>

lemma Advance_stops:
  assumes q: "list_all queued_payload (sc_queue s)"
  shows "\<exists>s' r. Advance cfg ctx tid now s = Done (s', r)
    \<and> (case r of
         Inr (Some p) \<Rightarrow> promoted cfg tid s s' p
       | Inr None \<Rightarrow> s' = s\<lparr>sc_registry := reg_Remove tid (sc_registry s)\<rparr>
           \<and> (sc_queue s = [] \<or> (\<exists>p ps t. sc_queue s = p # ps \<and> pl_Task p = Some t
                \<and> \<not> slot_free cfg (subcommand t) (sc_registry s')))
       | Inl e \<Rightarrow> kept tid s s' \<and> ((\<exists>i. ctx i = Some e)
           \<or> (\<exists>p ps. sc_queue s = p # ps \<and> \<not> payload_ready p)))"
proof (cases "ctx 0 \<noteq> None \<or> ctx 1 \<noteq> None \<or> ctx 2 \<noteq> None")
  case True
  then show ?thesis
    by (cases "ctx 0"; cases "ctx 1"; cases "ctx 2") (auto simp: Advance_def kept_def)
next
  case c: False
  show ?thesis
  proof (cases "sc_queue s")
    case Nil
    with c show ?thesis by (auto simp: Advance_def Dequeue_def)
  next
    case (Cons p ps)
    let ?s0 = "s\<lparr>sc_registry := reg_Remove tid (sc_registry s), sc_queue := ps\<rparr>"
    from Cons q obtain t where t: "pl_Task p = Some t" "state t = StateQueued" "queued_payload p"
      by (auto simp: queued_payload_def split: option.splits)
    show ?thesis
    proof (cases "slot_free cfg (subcommand t) (reg_Remove tid (sc_registry s))")
      case False
      with c Cons t show ?thesis by (simp add: Advance_def Dequeue_def put_back_queued)
    next
      case True
      from c Cons t True have adv: "Advance cfg ctx tid now s = promote_head ctx now p t ?s0"
        by (simp add: Advance_def Dequeue_def)
      obtain s' r where pr: "promote_head ctx now p t ?s0 = Done (s', r)"
        and r: "case r of Inr (Some p') \<Rightarrow> p' = p \<and> promoted cfg tid s s' p
         | Inr None \<Rightarrow> False | Inl e \<Rightarrow> kept tid s s' \<and> (\<exists>k. ctx k = Some e) \<or>
             kept tid s s' \<and> admission_snapshot p t = Inl e"
        using promote_head_spec [OF _ t(1) refl Cons True, of ctx now] q Cons by auto
      have "\<not> payload_ready p" if "admission_snapshot p t = Inl e" for e
        using that t(1) by (simp add: payload_ready_def)
      with pr r adv Cons show ?thesis by (fastforce split: sum.splits option.splits)
    qed
  qed
qed

lemma kept_queue:
  "kept tid s s' \<Longrightarrow> map payload_id (sc_queue s') = map payload_id (sc_queue s)
     \<and> (\<forall>p ps. sc_queue s = p # ps \<longrightarrow> (\<exists>p' ps'. sc_queue s' = p' # ps'
          \<and> payload_ready p' = payload_ready p))"
  by (auto simp: kept_def)

text \<open>A promotion that the starter rejects goes back to the head of the queue it was taken from.\<close>

lemma promoted_compensated:
  assumes pr: "promoted cfg tid s s' p" and q: "list_all queued_payload (sc_queue s)"
  shows "\<exists>s'' ps. Advance_CompensateRejectedStart p now s' = Done s''
    \<and> sc_queue s'' = at_position 1 p # ps \<and> map payload_id (sc_queue s'') = map payload_id (sc_queue s)"
proof -
  from pr obtain t ps snap where s: "sc_queue s = p # ps" and t: "pl_Task p = Some t"
    and s': "s' = \<lparr>sc_queue = renumbered 0 ps,
                sc_registry = reg_Add (id t) (subcommand t) (reg_Remove tid (sc_registry s)),
                sc_launching = launching_Register (id t) snap (sc_launching s),
                sc_promotions = Reserve (id t) (sc_promotions s)\<rparr>"
    unfolding promoted_def by blast
  have "id t \<in> set (sc_promotions s')" by (simp add: s' Reserve_def)
  moreover have "list_all queued_payload (sc_queue s')" "queued_payload p" using q s s' by auto
  ultimately show ?thesis
    using Advance_Compensate_spec [OF _ _ t, of s' now] s s' by simp
qed

lemma promoted_queue:
  "promoted cfg tid s s' p \<Longrightarrow> map payload_id (sc_queue s) = payload_id p # map payload_id (sc_queue s')
     \<and> length (sc_queue s') < length (sc_queue s)
     \<and> (list_all queued_payload (sc_queue s) \<longrightarrow> list_all queued_payload (sc_queue s'))
     \<and> (list_all payload_ready (sc_queue s) \<longrightarrow> list_all payload_ready (sc_queue s'))"
  by (auto simp: promoted_def)

text \<open>
  The five reasons for which the releaser stops in round \<open>k\<close> with the state \<open>s'\<close>: nobody waits, the head has no slot, the context
  ended, the head cannot be recorded, or the starter rejected the head.
\<close>

definition stop_reason :: "sched_config \<Rightarrow> (nat \<Rightarrow> nat \<Rightarrow> domain_error option) \<Rightarrow> (nat \<Rightarrow> launch_payload \<Rightarrow> bool) \<Rightarrow> nat \<Rightarrow> sched \<Rightarrow> bool" where
  "stop_reason cfg ctxs start k s' \<longleftrightarrow>
     sc_queue s' = []
     \<or> (\<exists>p ps t. sc_queue s' = p # ps \<and> pl_Task p = Some t \<and> \<not> slot_free cfg (subcommand t) (sc_registry s'))
     \<or> (\<exists>i. ctxs k i \<noteq> None)
     \<or> (\<exists>p ps. sc_queue s' = p # ps \<and> \<not> payload_ready p)
     \<or> (\<exists>p ps q. sc_queue s' = p # ps \<and> payload_id q = payload_id p \<and> \<not> start k q)"

definition released_prefix :: "sched_config \<Rightarrow> (nat \<Rightarrow> nat \<Rightarrow> domain_error option) \<Rightarrow> (nat \<Rightarrow> launch_payload \<Rightarrow> bool) \<Rightarrow> nat \<Rightarrow> sched
    \<Rightarrow> sched \<Rightarrow> launch_payload list \<Rightarrow> bool" where
  "released_prefix cfg ctxs start k s s' started \<longleftrightarrow>
     map payload_id started @ map payload_id (sc_queue s') = map payload_id (sc_queue s)
     \<and> (\<forall>i < length started. start (k + i) (started ! i))
     \<and> stop_reason cfg ctxs start (k + length started) s'"

lemma released_prefix_Nil:
  "released_prefix cfg ctxs start k s s' [] \<longleftrightarrow>
     map payload_id (sc_queue s') = map payload_id (sc_queue s) \<and> stop_reason cfg ctxs start k s'"
  by (simp add: released_prefix_def)

lemma released_prefix_Cons:
  assumes "released_prefix cfg ctxs start (Suc k) s1 s' started" and "start k p"
    and "map payload_id (sc_queue s) = payload_id p # map payload_id (sc_queue s1)"
  shows "released_prefix cfg ctxs start k s s' (p # started)"
  using assms by (auto simp: released_prefix_def nth_Cons split: nat.splits)

lemma Advance_nothing:
  assumes "list_all queued_payload (sc_queue s)" and "Advance cfg (ctxs k) tid now s = Done (s1, r)" and "\<not> (\<exists>p. r = Inr (Some p))"
  shows "released_prefix cfg ctxs start k s s1 []"
proof (cases r)
  case (Inl e)
  with Advance_stops [OF assms(1), of cfg "ctxs k" tid now] assms(2)
  have "kept tid s s1" "(\<exists>i. ctxs k i \<noteq> None) \<or> (\<exists>p ps. sc_queue s = p # ps \<and> \<not> payload_ready p)" by auto
  with kept_queue show ?thesis unfolding released_prefix_Nil stop_reason_def by metis
next
  case (Inr found)
  with Advance_stops [OF assms(1), of cfg "ctxs k" tid now] assms(2,3) show ?thesis
    by (cases found) (auto simp: released_prefix_Nil stop_reason_def)
qed

lemma rejected_prefix:
  assumes "promoted cfg tid s s1 p" and "list_all queued_payload (sc_queue s)" and "\<not> start k p"
  shows "\<exists>s2. Advance_CompensateRejectedStart p now s1 = Done s2 \<and> released_prefix cfg ctxs start k s s2 []"
proof -
  obtain s2 ps where "Advance_CompensateRejectedStart p now s1 = Done s2" "sc_queue s2 = at_position 1 p # ps"
    "map payload_id (sc_queue s2) = map payload_id (sc_queue s)" using promoted_compensated [OF assms(1,2)] by blast
  then show ?thesis using assms(3) unfolding released_prefix_Nil stop_reason_def by (intro exI [of _ s2]) auto
qed

lemma ReleaseAndAdvance_prefix:
  assumes "list_all queued_payload (sc_queue s)"
  shows "\<exists>s' started. ReleaseAndAdvance cfg ctxs start tid now k s = Done (s', started) \<and> released_prefix cfg ctxs start k s s' started"
  using assms
proof (induction "length (sc_queue s)" arbitrary: s k rule: less_induct)
  case less
  obtain s1 r where adv: "Advance cfg (ctxs k) tid now s = Done (s1, r)"
    and r: "case r of Inr (Some p) \<Rightarrow> promoted cfg tid s s1 p | _ \<Rightarrow> kept tid s s1" using Advance_spec [OF less.prems] by blast
  show ?case
  proof (cases "\<exists>p. r = Inr (Some p)")
    case False
    then have "ReleaseAndAdvance cfg ctxs start tid now k s = Done (s1, [])"
      using adv by (subst ReleaseAndAdvance.simps) (auto split: sum.split option.split)
    with Advance_nothing [where ctxs = ctxs and k = k, OF less.prems adv False] show ?thesis by blast
  next
    case True
    then obtain p where p: "r = Inr (Some p)" by blast
    with r have pr: "promoted cfg tid s s1 p" by simp
    note q = promoted_queue [OF pr]
    show ?thesis
    proof (cases "start k p")
      case False
      from rejected_prefix [where start = start and k = k, OF pr less.prems False] obtain s2 where
        c: "Advance_CompensateRejectedStart p now s1 = Done s2" "released_prefix cfg ctxs start k s s2 []" by blast
      then have "ReleaseAndAdvance cfg ctxs start tid now k s = Done (s2, [])"
        using adv p False by (subst ReleaseAndAdvance.simps) simp
      with c(2) show ?thesis by blast
    next
      case started: True
      have "length (sc_queue (CommitStart p s1)) < length (sc_queue s)" "list_all queued_payload (sc_queue (CommitStart p s1))"
        using q less.prems by simp_all
      from less.hyps [OF this, of "Suc k"] obtain s2 ps where
        "ReleaseAndAdvance cfg ctxs start tid now (Suc k) (CommitStart p s1) = Done (s2, ps)"
        "released_prefix cfg ctxs start (Suc k) (CommitStart p s1) s2 ps" by blast
      moreover from this adv p started have "ReleaseAndAdvance cfg ctxs start tid now k s = Done (s2, p # ps)"
        by (subst ReleaseAndAdvance.simps) simp
      ultimately show ?thesis using released_prefix_Cons [of cfg ctxs start k "CommitStart p s1" s2 ps p s] started q by auto
    qed
  qed
qed

section \<open>Properties\<close>

text \<open>
  C4: in every interleaving of admissions, advances, commits and compensations, the daemon never
  holds more execution slots than configured, never more slots for impl tasks than configured, and
  never lets waiting tasks and unresolved promotions together exceed the maximum depth of the queue;
  every waiting payload holds a queued task and no task holds two slots.
\<close>

theorem scheduler_capacity:
  assumes "0 \<le> maxConcurrentTasks cfg" and "0 \<le> maxConcurrentImplTasks cfg"
    and "0 \<le> queueMaxDepth cfg" and "sched_reachable cfg s"
  shows "reg_Size (sc_registry s) \<le> maxConcurrentTasks cfg
    \<and> reg_ImplSize (sc_registry s) \<le> maxConcurrentImplTasks cfg
    \<and> int (length (sc_queue s)) + int (length (sc_promotions s)) \<le> queueMaxDepth cfg
    \<and> list_all queued_payload (sc_queue s) \<and> distinct (map fst (sc_registry s))"
  using sched_reachable_inv [OF assms] by (simp add: sched_inv_def)

definition sample_config :: sched_config where
  "sample_config = \<lparr>maxConcurrentTasks = 1, maxConcurrentImplTasks = 1, queueMaxDepth = 2\<rparr>"

definition sample_input :: "string \<Rightarrow> admission_input" where
  "sample_input name =
     \<lparr>ai_TaskID = TaskID name, ai_Subcommand = SubcommandImpl, ai_Slug = Slug ''fix'',
      ai_RequestedTimeout = None, ai_RequestedAt = 5, ai_PromptText = ''do'', ai_NormalizedPaths = [],
      ai_ResolvedTimeout = \<lparr>requestedSeconds = None, resolvedSeconds = 1800\<rparr>, ai_Model = ''m'',
      ai_ReasoningEffort = None, ai_SandboxMode = ''read-only'', ai_SourceWorkingDir = ''/w'',
      ai_WorktreeMode = WorktreeModeAuto, ai_OutputSchemaPath = None\<rparr>"

theorem scheduler_capacity_witness:
  "\<exists>s. sched_reachable sample_config s \<and> reg_Size (sc_registry s) = 1
     \<and> reg_Size (sc_registry s) \<le> maxConcurrentTasks sample_config"
proof -
  obtain s r where a: "Admit sample_config (sample_input ''a'') empty_sched = Done (s, r)"
    using Admit_spec by blast
  then have "reg_Size (sc_registry s) = 1"
    by (simp add: Admit_def sample_config_def sample_input_def empty_sched_def
        validateAdmissionInput_def is_zero_time_def slot_free_def reg_Size_def reg_ImplSize_def
        NewTask_def admission_payload_def admission_snapshot_def NewTaskSnapshotFromAdmission_def
        zero_snapshot_def Validate_def validate_core_def validate_failure_code_def
        validate_working_dir_def IsValidSandboxMode_def timeoutMinSeconds_def requires_process_def
        taskSnapshotSchemaVersion_def previousTaskSnapshotSchemaVersion_def
        workingDirTaskSnapshotSchemaVersion_def allowsUnresolvedWorkingDir_def reg_Add_def
        split: prod.splits sum.splits)
      (auto simp: reg_Add_def)
  moreover have r: "sched_reachable sample_config s"
    using a by (blast intro: sched_reachable.intros sched_step.admit)
  moreover have "reg_Size (sc_registry s) \<le> maxConcurrentTasks sample_config"
    using scheduler_capacity [OF _ _ _ r] by (simp add: sample_config_def)
  ultimately show ?thesis by blast
qed

text \<open>
  Admission is first come, first served and never loses the caller's state. An error leaves the
  scheduler as it was. Otherwise the task either takes a free slot, which happens only when nobody
  waits, or joins the end of the queue, where its reported position is the new length of the queue;
  the tasks already waiting are not touched, and admission never panics.
\<close>

theorem Admit_fifo:
  "\<exists>s' r. Admit cfg i s = Done (s', r)
     \<and> (case r of Inl e \<Rightarrow> s' = s
        | Inr res \<Rightarrow>
            (case ar_QueuePosition res of
               None \<Rightarrow> sc_queue s = [] \<and> sc_queue s' = []
                 \<and> slot_free cfg (ai_Subcommand i) (sc_registry s)
                 \<and> sc_registry s' = reg_Add (ai_TaskID i) (ai_Subcommand i) (sc_registry s)
             | Some n \<Rightarrow> n = int (length (sc_queue s')) \<and> sc_registry s' = sc_registry s
                 \<and> (\<exists>p. sc_queue s' = sc_queue s @ [p] \<and> payload_id p = ai_TaskID i)))"
proof -
  obtain s' r where a: "Admit cfg i s = Done (s', r)"
    and spec: "case r of Inl e \<Rightarrow> s' = s
        | Inr res \<Rightarrow> ar_State res = StateQueued
            \<and> (admitted_now cfg i s s' res \<or> admitted_later cfg i s s' res)"
    using Admit_spec by blast
  show ?thesis
  proof (intro exI conjI)
    show "Admit cfg i s = Done (s', r)" by (rule a)
    show "case r of Inl e \<Rightarrow> s' = s
        | Inr res \<Rightarrow>
            (case ar_QueuePosition res of
               None \<Rightarrow> sc_queue s = [] \<and> sc_queue s' = []
                 \<and> slot_free cfg (ai_Subcommand i) (sc_registry s)
                 \<and> sc_registry s' = reg_Add (ai_TaskID i) (ai_Subcommand i) (sc_registry s)
             | Some n \<Rightarrow> n = int (length (sc_queue s')) \<and> sc_registry s' = sc_registry s
                 \<and> (\<exists>p. sc_queue s' = sc_queue s @ [p] \<and> payload_id p = ai_TaskID i))"
      using spec by (auto simp: admitted_now_def admitted_later_def split: sum.splits)
  qed
qed

text \<open>
  An advance that does not promote, whether it finds no slot, fails or is cancelled at any of its
  six checks, keeps every waiting task in its place; one that promotes takes exactly the head, gives
  it a slot within the limits and registers it as launching. No advance on well-formed waiting
  payloads panics.
\<close>

theorem Advance_keeps_waiting_tasks:
  assumes "list_all queued_payload (sc_queue s)"
  shows "\<exists>s' r. Advance cfg ctx tid now s = Done (s', r)
    \<and> (case r of
         Inr (Some p) \<Rightarrow> map payload_id (sc_queue s) = payload_id p # map payload_id (sc_queue s')
           \<and> (\<exists>t. pl_Task p = Some t
                \<and> slot_free cfg (subcommand t) (reg_Remove tid (sc_registry s))
                \<and> (id t, subcommand t) \<in> set (sc_registry s')
                \<and> launching_Lookup (id t) (sc_launching s') \<noteq> None \<and> id t \<in> set (sc_promotions s'))
       | _ \<Rightarrow> map payload_id (sc_queue s') = map payload_id (sc_queue s)
           \<and> sc_promotions s' = sc_promotions s)"
proof -
  obtain s' r where a: "Advance cfg ctx tid now s = Done (s', r)"
    and spec: "case r of Inr (Some p) \<Rightarrow> promoted cfg tid s s' p | _ \<Rightarrow> kept tid s s'"
    using Advance_spec [OF assms] by blast
  have reg: "(k, v) \<in> set (reg_Add k v r)" for k v r
    unfolding reg_Add_def by (induction r) auto
  show ?thesis
  proof (intro exI conjI)
    show "Advance cfg ctx tid now s = Done (s', r)" by (rule a)
    show "case r of
         Inr (Some p) \<Rightarrow> map payload_id (sc_queue s) = payload_id p # map payload_id (sc_queue s')
           \<and> (\<exists>t. pl_Task p = Some t
                \<and> slot_free cfg (subcommand t) (reg_Remove tid (sc_registry s))
                \<and> (id t, subcommand t) \<in> set (sc_registry s')
                \<and> launching_Lookup (id t) (sc_launching s') \<noteq> None \<and> id t \<in> set (sc_promotions s'))
       | _ \<Rightarrow> map payload_id (sc_queue s') = map payload_id (sc_queue s)
           \<and> sc_promotions s' = sc_promotions s"
      using spec
      by (auto simp: promoted_def kept_def reg launching_Lookup_def launching_Register_def
          update_conv Reserve_def split: sum.splits option.splits)
  qed
qed

definition sample_sched :: sched where
  "sample_sched = empty_sched\<lparr>sc_queue := [sample_payload ''a'', sample_payload ''b'']\<rparr>"

theorem Advance_keeps_waiting_tasks_witness:
  "\<exists>s' r. Advance sample_config (\<lambda>_. None) (TaskID ''z'') 9 sample_sched = Done (s', r)
    \<and> (case r of
         Inr (Some p) \<Rightarrow> map payload_id (sc_queue sample_sched)
             = payload_id p # map payload_id (sc_queue s')
           \<and> (\<exists>t. pl_Task p = Some t
                \<and> slot_free sample_config (subcommand t)
                    (reg_Remove (TaskID ''z'') (sc_registry sample_sched))
                \<and> (id t, subcommand t) \<in> set (sc_registry s')
                \<and> launching_Lookup (id t) (sc_launching s') \<noteq> None \<and> id t \<in> set (sc_promotions s'))
       | _ \<Rightarrow> map payload_id (sc_queue s') = map payload_id (sc_queue sample_sched)
           \<and> sc_promotions s' = sc_promotions sample_sched)"
  by (rule Advance_keeps_waiting_tasks)
    (simp add: sample_sched_def sample_payload_def sample_task_def queued_payload_def)

text \<open>
  C5: the slot releaser terminates and is work conserving. Whatever the context answers and whichever
  payloads the starter accepts, if no other thread touches the queue between its rounds, it starts a
  prefix of the queue in order, keeps the rest in order, and stops for one of five reasons: nobody
  waits, the new head has no slot, the context ended in the last round, the snapshot of the new head
  does not validate, or the starter rejected the new head.
\<close>

theorem ReleaseAndAdvance_work_conserving:
  assumes "list_all queued_payload (sc_queue s)"
  shows "\<exists>s' started. ReleaseAndAdvance cfg ctxs start tid now k s = Done (s', started)
    \<and> map payload_id started @ map payload_id (sc_queue s') = map payload_id (sc_queue s)
    \<and> (\<forall>i < length started. start (k + i) (started ! i))
    \<and> (sc_queue s' = []
        \<or> (\<exists>p ps t. sc_queue s' = p # ps \<and> pl_Task p = Some t
             \<and> \<not> slot_free cfg (subcommand t) (sc_registry s'))
        \<or> (\<exists>i. ctxs (k + length started) i \<noteq> None)
        \<or> (\<exists>p ps. sc_queue s' = p # ps \<and> \<not> payload_ready p)
        \<or> (\<exists>p ps q. sc_queue s' = p # ps \<and> payload_id q = payload_id p
             \<and> \<not> start (k + length started) q))"
  using ReleaseAndAdvance_prefix [OF assms, of cfg ctxs start tid now k] unfolding released_prefix_def stop_reason_def .

theorem ReleaseAndAdvance_work_conserving_witness:
  "\<exists>s' started. ReleaseAndAdvance sample_config (\<lambda>_ _. None) (\<lambda>k _. k = 0) (TaskID ''z'') 9 0
       sample_sched = Done (s', started)
    \<and> map payload_id started @ map payload_id (sc_queue s') = [TaskID ''a'', TaskID ''b'']"
proof -
  have "list_all queued_payload (sc_queue sample_sched)"
    by (simp add: sample_sched_def sample_payload_def sample_task_def queued_payload_def)
  from ReleaseAndAdvance_work_conserving [OF this, of sample_config "\<lambda>_ _. None" "\<lambda>k _. k = 0"
      "TaskID ''z''" 9 0]
  show ?thesis by (auto simp: sample_sched_def sample_payload_def payload_id_def)
qed

end
