(* ===== verification/Path_Lock.thy ===== *)
theory Path_Lock
  imports Task_Snapshot "HOL-Library.AList"
begin

text \<open>
  Path locks: the value object of \<^verbatim>\<open>internal/domain/pathlock.go\<close>, the acquisition use case of
  \<^verbatim>\<open>internal/execution/pathlock.go\<close> and the file store of
  \<^verbatim>\<open>internal/store/pathlockstore.go\<close>.

  The use case is written over the operations of the Go interface \<open>PathLockStore\<close>, collected in a
  record; the locale \<open>lock_store_spec\<close> states what they promise, mutual exclusion is proved there
  once, and the file store is an interpretation of it. The flock-based liveness check, the task
  store, the mutex and the path normalization that the use case receives through interfaces are
  the fields of \<open>lock_env\<close>: they answer what the operating system answers.
\<close>

section \<open>The domain object\<close>

record path_lock =
  plk_TaskID :: task_id
  plk_OwnedPaths :: "normalized_path list"
  plk_AcquiredAt :: go_time

definition Overlaps :: "path_lock option \<Rightarrow> path_lock option \<Rightarrow> bool" where
  "Overlaps p other =
     (case p of
        None \<Rightarrow> False
      | Some l \<Rightarrow>
          (case other of
             None \<Rightarrow> False
           | Some o' \<Rightarrow>
               list_ex (\<lambda>path. np_string path \<in> np_string ` set (plk_OwnedPaths l)) (plk_OwnedPaths o')))"

definition Acquire :: "task_id \<Rightarrow> normalized_path list \<Rightarrow> path_lock list \<Rightarrow> go_time
    \<Rightarrow> domain_error + path_lock" where
  "Acquire tid requested active now =
     (let candidate = \<lparr>plk_TaskID = tid, plk_OwnedPaths = requested, plk_AcquiredAt = now\<rparr>
      in if list_ex (\<lambda>a. Overlaps (Some candidate) (Some a)) active
         then Inl ErrPathLockConflict else Inr candidate)"

definition Release :: "task_id \<Rightarrow> path_lock option \<Rightarrow> domain_error option" where
  "Release tid p =
     (case p of
        None \<Rightarrow> Some (ErrText ''path lock task id mismatch'')
      | Some l \<Rightarrow> if plk_TaskID l \<noteq> tid then Some (ErrText ''path lock task id mismatch'') else None)"

section \<open>The environment of the use case\<close>

type_synonym lock_snapshot = "task_id \<times> string list"

datatype liveness_result = LockFileMissing | LivenessFailed string | LivenessKnown bool

datatype task_load = TaskMissing | TaskUnreadable string | TaskLoaded task_snapshot

datatype lock_error =
    PathLockInfraFailure string
  | LivenessCheckError task_id string
  | JoinedError lock_error string

record lock_env =
  le_Lock :: "string option"
  le_Unlock :: "string option"
  le_liveness :: "task_id \<Rightarrow> liveness_result"
  le_loadTask :: "task_id \<Rightarrow> task_load"
  le_normalize :: "string \<Rightarrow> string + normalized_path"
  le_now :: go_time

record 's lock_store =
  ps_List :: "'s \<Rightarrow> string + lock_snapshot list"
  ps_Save :: "task_id \<Rightarrow> normalized_path list \<Rightarrow> 's \<Rightarrow> 's \<times> string option"
  ps_Delete :: "task_id \<Rightarrow> 's \<Rightarrow> 's \<times> string option"

record acquire_output =
  ao_Acquired :: bool
  ao_ConflictingTaskID :: "task_id option"
  ao_ConflictingPath :: "normalized_path option"
  ao_NormalizedPaths :: "normalized_path list"

section \<open>Acquisition\<close>

text \<open>Whether the owner of a persisted lock is dead; a task that awaits its launch has no lock file yet.\<close>

definition lock_owner_dead :: "lock_env \<Rightarrow> task_id \<Rightarrow> lock_error + bool" where
  "lock_owner_dead env tid =
     (case le_liveness env tid of
        LockFileMissing \<Rightarrow>
          (case le_loadTask env tid of
             TaskMissing \<Rightarrow> Inr True
           | TaskUnreadable e \<Rightarrow> Inl (PathLockInfraFailure e)
           | TaskLoaded s \<Rightarrow>
               if sn_State s = StateQueued \<or> sn_State s = StateStarting then Inr False else Inr True)
      | LivenessFailed e \<Rightarrow> Inl (LivenessCheckError tid e)
      | LivenessKnown dead \<Rightarrow> Inr dead)"

fun sift_locks :: "lock_env \<Rightarrow> lock_snapshot list \<Rightarrow> lock_error + (lock_snapshot list \<times> task_id list)" where
  "sift_locks env [] = Inr ([], [])"
| "sift_locks env (snap # rest) =
     (case lock_owner_dead env (fst snap) of
        Inl e \<Rightarrow> Inl e
      | Inr dead \<Rightarrow>
          (case sift_locks env rest of
             Inl e \<Rightarrow> Inl e
           | Inr (survivors, stale) \<Rightarrow>
               Inr (if dead then (survivors, fst snap # stale) else (snap # survivors, stale))))"

fun delete_stale :: "'s lock_store \<Rightarrow> task_id list \<Rightarrow> 's \<Rightarrow> 's \<times> lock_error option" where
  "delete_stale st [] s = (s, None)"
| "delete_stale st (tid # rest) s =
     (case ps_Delete st tid s of
        (s', Some e) \<Rightarrow> (s', Some (PathLockInfraFailure e))
      | (s', None) \<Rightarrow> delete_stale st rest s')"

text \<open>\<open>normalizeAll\<close> and \<open>validateStoredPaths\<close> stop at the first path that fails.\<close>

fun normalizeAll :: "(string \<Rightarrow> string + normalized_path) \<Rightarrow> string list
    \<Rightarrow> string + normalized_path list" where
  "normalizeAll f [] = Inr []"
| "normalizeAll f (raw # rest) =
     (case f raw of
        Inl e \<Rightarrow> Inl e
      | Inr p \<Rightarrow> (case normalizeAll f rest of Inl e \<Rightarrow> Inl e | Inr ps \<Rightarrow> Inr (p # ps)))"

definition validateStoredPaths :: "string list \<Rightarrow> string + normalized_path list" where
  "validateStoredPaths raws =
     normalizeAll (\<lambda>raw. case NewNormalizedPath raw of
        Inl _ \<Rightarrow> Inl ''invalid normalized path'' | Inr p \<Rightarrow> Inr p) raws"

fun active_locks :: "lock_snapshot list \<Rightarrow> string + path_lock list" where
  "active_locks [] = Inr []"
| "active_locks ((tid, raws) # rest) =
     (case validateStoredPaths raws of
        Inl e \<Rightarrow> Inl e
      | Inr owned \<Rightarrow>
          (case active_locks rest of
             Inl e \<Rightarrow> Inl e
           | Inr ls \<Rightarrow> Inr (\<lparr>plk_TaskID = tid, plk_OwnedPaths = owned, plk_AcquiredAt = 0\<rparr> # ls)))"

text \<open>\<open>findConflict\<close>: the first requested path equal to the first shared owned path of the first lock.\<close>

fun find_in_owned :: "normalized_path list \<Rightarrow> normalized_path list \<Rightarrow> normalized_path option" where
  "find_in_owned requested [] = None"
| "find_in_owned requested (owned # rest) =
     (case find (\<lambda>path. np_string path = np_string owned) requested of
        Some path \<Rightarrow> Some path
      | None \<Rightarrow> find_in_owned requested rest)"

fun findConflict :: "normalized_path list \<Rightarrow> path_lock list \<Rightarrow> task_id \<times> normalized_path" where
  "findConflict requested [] = (TaskID '''', NormalizedPath '''')"
| "findConflict requested (l # rest) =
     (case find_in_owned requested (plk_OwnedPaths l) of
        Some path \<Rightarrow> (plk_TaskID l, path)
      | None \<Rightarrow> findConflict requested rest)"

text \<open>The body of \<open>Execute\<close>, between the lock and the unlock of the mutex.\<close>

definition acquire_locked :: "'s lock_store \<Rightarrow> lock_env \<Rightarrow> task_id \<Rightarrow> string list \<Rightarrow> 's
    \<Rightarrow> 's \<times> (lock_error + acquire_output)" where
  "acquire_locked st env tid raws s =
     (case ps_List st s of
        Inl e \<Rightarrow> (s, Inl (PathLockInfraFailure e))
      | Inr snaps \<Rightarrow>
     (case sift_locks env snaps of
        Inl e \<Rightarrow> (s, Inl e)
      | Inr (survivors, stale) \<Rightarrow>
     (case delete_stale st stale s of
        (s', Some e) \<Rightarrow> (s', Inl e)
      | (s', None) \<Rightarrow>
          if raws = [] then
            (s', Inr \<lparr>ao_Acquired = True, ao_ConflictingTaskID = None, ao_ConflictingPath = None,
                      ao_NormalizedPaths = []\<rparr>)
          else
     (case normalizeAll (le_normalize env) raws of
        Inl e \<Rightarrow> (s', Inl (PathLockInfraFailure e))
      | Inr requested \<Rightarrow>
     (case active_locks survivors of
        Inl e \<Rightarrow> (s', Inl (PathLockInfraFailure e))
      | Inr active \<Rightarrow>
     (case Acquire tid requested active (le_now env) of
        Inl _ \<Rightarrow>
          let (ctid, cpath) = findConflict requested active
          in (s', Inr \<lparr>ao_Acquired = False, ao_ConflictingTaskID = Some ctid,
                       ao_ConflictingPath = Some cpath, ao_NormalizedPaths = []\<rparr>)
      | Inr lock \<Rightarrow>
          (case ps_Save st (plk_TaskID lock) (plk_OwnedPaths lock) s' of
             (s'', Some e) \<Rightarrow> (s'', Inl (PathLockInfraFailure e))
           | (s'', None) \<Rightarrow>
               (s'', Inr \<lparr>ao_Acquired = True, ao_ConflictingTaskID = None, ao_ConflictingPath = None,
                         ao_NormalizedPaths = plk_OwnedPaths lock\<rparr>))))))))"

definition AcquirePathLock_Execute :: "'s lock_store \<Rightarrow> lock_env \<Rightarrow> task_id \<Rightarrow> string list \<Rightarrow> 's
    \<Rightarrow> 's \<times> (lock_error + acquire_output)" where
  "AcquirePathLock_Execute st env tid raws s =
     (case le_Lock env of
        Some e \<Rightarrow> (s, Inl (PathLockInfraFailure e))
      | None \<Rightarrow>
          (case acquire_locked st env tid raws s of
             (s', Inr out) \<Rightarrow> (s', Inr out)
           | (s', Inl err) \<Rightarrow>
               (s', Inl (case le_Unlock env of None \<Rightarrow> err | Some u \<Rightarrow> JoinedError err u))))"

text \<open>The adapter \<open>Acquire\<close> of the use case turns a conflict into an error.\<close>

definition AcquirePathLock_Acquire :: "'s lock_store \<Rightarrow> lock_env \<Rightarrow> task_id \<Rightarrow> string list \<Rightarrow> 's
    \<Rightarrow> 's \<times> ((lock_error + (task_id option \<times> normalized_path option)) + normalized_path list)" where
  "AcquirePathLock_Acquire st env tid raws s =
     (case AcquirePathLock_Execute st env tid raws s of
        (s', Inl e) \<Rightarrow> (s', Inl (Inl e))
      | (s', Inr out) \<Rightarrow>
          if \<not> ao_Acquired out
          then (s', Inl (Inr (ao_ConflictingTaskID out, ao_ConflictingPath out)))
          else (s', Inr (ao_NormalizedPaths out)))"

definition ReleasePathLock_Execute :: "'s lock_store \<Rightarrow> task_id \<Rightarrow> 's \<Rightarrow> 's \<times> string option" where
  "ReleasePathLock_Execute st tid s = ps_Delete st tid s"

section \<open>The file store\<close>

text \<open>
  The directory of the store as its entries in listing order. An entry is a subdirectory, a symbolic
  link, a file that cannot be read, a file that does not decode to a list of strings, the JSON null,
  or a decoded list. Operations that the file system refuses are a parameter: \<open>fs_fail\<close> is the
  error the operation on that name meets, if any; a refused operation leaves the entries alone. The
  rename that ends an atomic write never replaces a directory. Paths are UTF-8, on which encoding and
  decoding JSON is the identity.
\<close>

datatype lock_file = FileDir | FileSymlink | FileUnreadable | FileUndecodable | FileNull | FilePaths "string list"

type_synonym lock_dir = "(string \<times> lock_file) list"

definition json_suffix :: string where
  "json_suffix = ''.json''"

definition lock_file_name :: "task_id \<Rightarrow> string" where
  "lock_file_name tid = tid_string tid @ json_suffix"

definition trim_json :: "string \<Rightarrow> string" where
  "trim_json name = take (length name - length json_suffix) name"

fun PathLockFileStore_List :: "lock_dir \<Rightarrow> string + lock_snapshot list" where
  "PathLockFileStore_List [] = Inr []"
| "PathLockFileStore_List ((name, f) # rest) =
     (if f = FileDir \<or> \<not> has_suffix name json_suffix then PathLockFileStore_List rest
      else (case NewTaskID (trim_json name) of
              Inl _ \<Rightarrow> Inl ''invalid path lock filename''
            | Inr tid \<Rightarrow>
                (case f of
                   FilePaths ps \<Rightarrow>
                     (case PathLockFileStore_List rest of
                        Inl e \<Rightarrow> Inl e
                      | Inr ls \<Rightarrow> Inr ((tid, ps) # ls))
                 | FileSymlink \<Rightarrow> Inl ''path lock is a symbolic link''
                 | FileUnreadable \<Rightarrow> Inl ''read path lock''
                 | FileUndecodable \<Rightarrow> Inl ''decode path lock''
                 | FileNull \<Rightarrow> Inl ''path lock is null''
                 | FileDir \<Rightarrow> PathLockFileStore_List rest)))"

definition PathLockFileStore_Save :: "(string \<Rightarrow> string option) \<Rightarrow> task_id \<Rightarrow> normalized_path list
    \<Rightarrow> lock_dir \<Rightarrow> lock_dir \<times> string option" where
  "PathLockFileStore_Save fs_fail tid paths dir =
     (if map_of dir (lock_file_name tid) = Some FileDir then (dir, Some ''write path lock'')
      else case fs_fail (lock_file_name tid) of
        Some e \<Rightarrow> (dir, Some e)
      | None \<Rightarrow> (AList.update (lock_file_name tid) (FilePaths (map np_string paths)) dir, None))"

definition PathLockFileStore_Delete :: "(string \<Rightarrow> string option) \<Rightarrow> task_id
    \<Rightarrow> lock_dir \<Rightarrow> lock_dir \<times> string option" where
  "PathLockFileStore_Delete fs_fail tid dir =
     (if map_of dir (lock_file_name tid) = None then (dir, None)
      else (case fs_fail (lock_file_name tid) of
              Some e \<Rightarrow> (dir, Some e)
            | None \<Rightarrow> (AList.delete (lock_file_name tid) dir, None)))"

definition path_lock_file_store :: "(string \<Rightarrow> string option) \<Rightarrow> lock_dir lock_store" where
  "path_lock_file_store fs_fail =
     \<lparr>ps_List = PathLockFileStore_List, ps_Save = PathLockFileStore_Save fs_fail,
      ps_Delete = PathLockFileStore_Delete fs_fail\<rparr>"

section \<open>What the steps of an acquisition compute\<close>

lemma np_string_eq [simp]: "np_string p = np_string q \<longleftrightarrow> p = q"
  by (cases p; cases q) simp

lemma np_string_image [simp]: "np_string p \<in> np_string ` A \<longleftrightarrow> p \<in> A"
  by auto

lemma NewNormalizedPath_string: "NewNormalizedPath raw = Inr p \<Longrightarrow> np_string p = raw"
  by (auto simp: NewNormalizedPath_def split: if_splits)

lemma sift_locks_Inr:
  assumes "sift_locks env snaps = Inr (survivors, stale)"
  shows "survivors = filter (\<lambda>sn. lock_owner_dead env (fst sn) = Inr False) snaps"
    and "stale = map fst (filter (\<lambda>sn. lock_owner_dead env (fst sn) = Inr True) snaps)"
    and "\<forall>sn \<in> set snaps. \<exists>b. lock_owner_dead env (fst sn) = Inr b"
  using assms
  by (induction snaps arbitrary: survivors stale) (auto split: sum.splits prod.splits if_splits)

lemma normalizeAll_Inr:
  "normalizeAll f raws = Inr ps \<longleftrightarrow> list_all2 (\<lambda>raw p. f raw = Inr p) raws ps"
proof (induction raws arbitrary: ps)
  case (Cons raw rest)
  then show ?case
    by (cases ps; cases "f raw"; cases "normalizeAll f rest") (auto split: sum.splits)
qed auto

lemma validateStoredPaths_string: "validateStoredPaths raws = Inr ps \<Longrightarrow> map np_string ps = raws"
  unfolding validateStoredPaths_def
  by (induction raws arbitrary: ps) (auto simp: NewNormalizedPath_string split: sum.splits)

lemma active_locks_snapshots:
  "active_locks snaps = Inr active
     \<Longrightarrow> map (\<lambda>l. (plk_TaskID l, map np_string (plk_OwnedPaths l))) active = snaps"
  by (induction snaps arbitrary: active)
     (auto split: sum.splits simp: validateStoredPaths_string)

lemma Acquire_Inr:
  "Acquire tid requested active now = Inr l \<longleftrightarrow>
     (\<forall>a \<in> set active. set requested \<inter> set (plk_OwnedPaths a) = {})
     \<and> l = \<lparr>plk_TaskID = tid, plk_OwnedPaths = requested, plk_AcquiredAt = now\<rparr>"
  unfolding Acquire_def Overlaps_def list_ex_iff Let_def by (auto simp: disjoint_iff)

lemma find_in_owned_Some:
  "find_in_owned requested owned = Some p \<Longrightarrow> p \<in> set requested \<and> p \<in> set owned"
  by (induction owned) (auto split: option.splits simp: find_Some_iff)

lemma find_in_owned_None:
  "find_in_owned requested owned = None
     \<longleftrightarrow> set requested \<inter> set owned = {}"
proof (induction owned)
  case (Cons o' rest)
  have "find (\<lambda>p. np_string p = np_string o') requested = None \<longleftrightarrow> o' \<notin> set requested"
    by (auto simp: find_None_iff)
  with Cons.IH show ?case by (auto split: option.splits)
qed simp

text \<open>When acquisition fails, the reported task really owns the reported path.\<close>

lemma findConflict_accurate:
  assumes "Acquire tid requested active now = Inl e" and "findConflict requested active = (ct, cp)"
  shows "cp \<in> set requested \<and> (\<exists>a \<in> set active. plk_TaskID a = ct \<and> cp \<in> set (plk_OwnedPaths a))"
proof -
  from assms(1) have "\<exists>a \<in> set active. set requested \<inter> set (plk_OwnedPaths a) \<noteq> {}"
    by (auto simp: Acquire_def Overlaps_def list_ex_iff Let_def split: if_splits)
  then show ?thesis using assms(2)
    by (induction active)
       (auto simp: find_in_owned_None dest: find_in_owned_Some split: option.splits)
qed

section \<open>The contract of a lock store\<close>

text \<open>No path is owned by two tasks.\<close>

definition exclusive :: "(task_id \<rightharpoonup> string list) \<Rightarrow> bool" where
  "exclusive m \<longleftrightarrow>
     (\<forall>t u ps qs. m t = Some ps \<longrightarrow> m u = Some qs \<longrightarrow> t \<noteq> u \<longrightarrow> set ps \<inter> set qs = {})"

lemma exclusive_restrict: "exclusive m \<Longrightarrow> exclusive (m |` A)"
  by (auto simp: exclusive_def restrict_map_def split: if_splits)

lemma exclusive_upd:
  assumes "exclusive m" and "\<And>u qs. m u = Some qs \<Longrightarrow> set ps \<inter> set qs = {}"
  shows "exclusive (m(t \<mapsto> ps))"
  using assms unfolding exclusive_def by (simp add: Int_commute)

locale lock_store_spec =
  fixes st :: "'s lock_store"
    and ok :: "'s \<Rightarrow> bool"
    and holdings :: "'s \<Rightarrow> task_id \<rightharpoonup> string list"
  assumes List_holdings:
      "\<lbrakk>ok s; ps_List st s = Inr snaps\<rbrakk> \<Longrightarrow> distinct (map fst snaps) \<and> map_of snaps = holdings s"
    and Save_ok: "ok s \<Longrightarrow> ok (fst (ps_Save st tid paths s))"
    and Save_holdings:
      "\<lbrakk>ok s; ps_Save st tid paths s = (s', None)\<rbrakk>
         \<Longrightarrow> holdings s' = (holdings s)(tid \<mapsto> map np_string paths)"
    and Save_refused: "\<lbrakk>ok s; ps_Save st tid paths s = (s', Some e)\<rbrakk> \<Longrightarrow> holdings s' = holdings s"
    and Delete_ok: "ok s \<Longrightarrow> ok (fst (ps_Delete st tid s))"
    and Delete_holdings:
      "\<lbrakk>ok s; ps_Delete st tid s = (s', None)\<rbrakk> \<Longrightarrow> holdings s' = (holdings s)(tid := None)"
    and Delete_refused: "\<lbrakk>ok s; ps_Delete st tid s = (s', Some e)\<rbrakk> \<Longrightarrow> holdings s' = holdings s"
begin

lemma delete_stale_holdings:
  assumes "ok s" and "delete_stale st tids s = (s', r)"
  shows "ok s' \<and> (\<exists>del. del \<subseteq> set tids \<and> holdings s' = holdings s |` (- del)
                        \<and> (r = None \<longrightarrow> del = set tids))"
  using assms
proof (induction tids arbitrary: s)
  case Nil
  then show ?case by (auto simp: restrict_map_def)
next
  case (Cons tid rest)
  obtain s1 r1 where d: "ps_Delete st tid s = (s1, r1)" by fastforce
  with Cons.prems(1) Delete_ok [of s tid] have ok1: "ok s1" by simp
  show ?case
  proof (cases r1)
    case None
    with Cons.prems(2) d have "delete_stale st rest s1 = (s', r)" by simp
    from Cons.IH [OF ok1 this] obtain del where
      del: "ok s'" "del \<subseteq> set rest" "holdings s' = holdings s1 |` (- del)" "r = None \<longrightarrow> del = set rest"
      by blast
    from Delete_holdings [OF Cons.prems(1)] d None
    have "holdings s1 = (holdings s)(tid := None)" by simp
    with del have "holdings s' = holdings s |` (- insert tid del)"
      by (auto simp: restrict_map_def)
    with del show ?thesis by (intro conjI exI [of _ "insert tid del"]) auto
  next
    case (Some e)
    with Cons.prems(2) d have "s' = s1" "r \<noteq> None" by auto
    with Delete_refused [OF Cons.prems(1)] d Some ok1 show ?thesis
      by (auto simp: restrict_map_def intro!: exI [of _ "{}"])
  qed
qed

lemma Save_cases:
  assumes "ok s" and "ps_Save st tid paths s = (s', r)"
  shows "ok s' \<and> holdings s' =
           (case r of None \<Rightarrow> (holdings s)(tid \<mapsto> map np_string paths) | Some _ \<Rightarrow> holdings s)"
  using assms Save_ok [of s tid paths] Save_holdings [of s tid paths s'] Save_refused [of s tid paths s']
  by (auto split: option.splits)

text \<open>The locks that survive the sweep are the holdings of the store after it.\<close>

lemma survivors_holdings:
  assumes "ok s" and "ps_List st s = Inr snaps" and "sift_locks env snaps = Inr (survivors, stale)"
    and "delete_stale st stale s = (s1, None)"
  shows "ok s1" and "distinct (map fst survivors)" and "map_of survivors = holdings s1"
    and "holdings s1 = (\<lambda>t. if lock_owner_dead env t = Inr True then None else holdings s t)"
proof -
  note sift = sift_locks_Inr [OF assms(3)]
  from List_holdings [OF assms(1,2)] have dm: "distinct (map fst snaps)" "map_of snaps = holdings s"
    by auto
  from delete_stale_holdings [OF assms(1,4)]
  have s1: "ok s1" "holdings s1 = holdings s |` (- set stale)" by auto
  show "ok s1" by fact
  show "distinct (map fst survivors)" using dm(1) by (simp add: sift(1) distinct_map_filter)
  have dead: "holdings s t = None" if "lock_owner_dead env t = Inr True" "t \<notin> set stale" for t
  proof (rule ccontr)
    assume "holdings s t \<noteq> None"
    then obtain ps where "(t, ps) \<in> set snaps" using dm(2) by (metis map_of_SomeD not_None_eq)
    with that(1) have "t \<in> set stale" by (force simp: sift(2))
    with that(2) show False by simp
  qed
  show eq: "holdings s1 = (\<lambda>t. if lock_owner_dead env t = Inr True then None else holdings s t)"
    using s1(2) dead sift(2) by (auto simp: restrict_map_def fun_eq_iff)
  have alive: "holdings s t = None \<or> (\<exists>b. lock_owner_dead env t = Inr b)" for t
    using sift(3) dm(2) by (metis map_of_SomeD not_None_eq fst_conv)
  have surv: "map_of survivors t = (if lock_owner_dead env t = Inr False then holdings s t else None)" for t
    unfolding sift(1) dm(2) [symmetric] by (induction snaps) auto
  show "map_of survivors = holdings s1"
    using alive by (auto simp: fun_eq_iff surv eq) (metis (full_types))
qed

lemma acquire_exclusive:
  assumes "ok s" and "exclusive (holdings s)" and "acquire_locked st env tid raws s = (s', r)"
  shows "ok s' \<and> exclusive (holdings s')"
proof -
  have swept: "ok s1 \<and> exclusive (holdings s1)" if "delete_stale st stale s = (s1, e)" for stale s1 e
    using delete_stale_holdings [OF assms(1) that] assms(2) by (auto simp: exclusive_restrict)
  have saved: "ok s2 \<and> exclusive (holdings s2)"
    if "ps_List st s = Inr snaps" "sift_locks env snaps = Inr (survivors, stale)"
      "delete_stale st stale s = (s1, None)" "active_locks survivors = Inr active"
      "Acquire tid requested active now = Inr l" "ps_Save st tid requested s1 = (s2, e)"
    for snaps survivors stale s1 active requested now l s2 e
  proof -
    note sv = survivors_holdings [OF assms(1) that(1-3)]
    have "set (map np_string requested) \<inter> set qs = {}" if "holdings s1 u = Some qs" for u qs
    proof -
      from that sv(3) have "(u, qs) \<in> set survivors" by (metis map_of_SomeD)
      with active_locks_snapshots [OF \<open>active_locks survivors = Inr active\<close>]
      obtain a where "a \<in> set active" "map np_string (plk_OwnedPaths a) = qs" by auto
      with \<open>Acquire tid requested active now = Inr l\<close> show ?thesis
        by (auto simp: Acquire_Inr disjoint_iff)
    qed
    with swept [OF that(3)] have "exclusive ((holdings s1)(tid \<mapsto> map np_string requested))"
      by (intro exclusive_upd) auto
    with Save_cases [OF sv(1) that(6)] swept [OF that(3)] show ?thesis by (auto split: option.splits)
  qed
  show ?thesis
    using assms swept saved unfolding acquire_locked_def
    by (fastforce simp: Acquire_Inr Let_def split: sum.splits prod.splits option.splits if_splits)
qed

text \<open>An acquisition never takes a lock away from another task whose owner is not known to be dead.\<close>

lemma acquire_keeps_live:
  assumes "ok s" and "acquire_locked st env tid raws s = (s', r)"
    and "lock_owner_dead env t \<noteq> Inr True" and "t \<noteq> tid"
  shows "holdings s' t = holdings s t"
proof -
  have swept: "ok s1 \<and> holdings s1 t = holdings s t"
    if "sift_locks env snaps = Inr (survivors, stale)" "delete_stale st stale s = (s1, e)"
    for snaps survivors stale s1 e
  proof -
    from sift_locks_Inr(2) [OF that(1)] assms(3) have "t \<notin> set stale" by auto
    with delete_stale_holdings [OF assms(1) that(2)] show ?thesis
      by (auto simp: restrict_map_def)
  qed
  have saved: "holdings s2 t = holdings s1 t" if "ok s1" "ps_Save st tid requested s1 = (s2, e)"
    for s1 requested s2 e
    using Save_cases [OF that] assms(4) by (auto split: option.splits)
  show ?thesis
    using assms(2) swept saved unfolding acquire_locked_def
    by (fastforce simp: Acquire_Inr Let_def split: sum.splits prod.splits option.splits if_splits)
qed

text \<open>A granted request is recorded; a refused one names a path that another lock really holds.\<close>

lemma acquire_granted:
  assumes "ok s" and "acquire_locked st env tid raws s = (s', Inr out)" and "ao_Acquired out" and "raws \<noteq> []"
  shows "normalizeAll (le_normalize env) raws = Inr (ao_NormalizedPaths out)
         \<and> holdings s' tid = Some (map np_string (ao_NormalizedPaths out))"
proof -
  from assms(2-4) obtain snaps survivors stale s1 requested where
    "sift_locks env snaps = Inr (survivors, stale)" "delete_stale st stale s = (s1, None)"
    "normalizeAll (le_normalize env) raws = Inr requested" "ao_NormalizedPaths out = requested"
    "ps_Save st tid requested s1 = (s', None)"
    unfolding acquire_locked_def
    by (auto simp: Acquire_Inr Let_def split: sum.splits prod.splits option.splits if_splits)
  with delete_stale_holdings [OF assms(1)] Save_holdings [of s1 tid requested s'] show ?thesis by auto
qed

lemma acquire_refused:
  assumes "ok s" and "acquire_locked st env tid raws s = (s', Inr out)" and "\<not> ao_Acquired out"
  shows "\<exists>c p ps requested. ao_ConflictingTaskID out = Some c \<and> ao_ConflictingPath out = Some p
           \<and> normalizeAll (le_normalize env) raws = Inr requested \<and> p \<in> set requested
           \<and> holdings s' c = Some ps \<and> np_string p \<in> set ps"
proof -
  from assms(2,3) obtain snaps survivors stale requested active e c p where
    h: "ps_List st s = Inr snaps" "sift_locks env snaps = Inr (survivors, stale)"
    "delete_stale st stale s = (s', None)" "normalizeAll (le_normalize env) raws = Inr requested"
    "active_locks survivors = Inr active" "Acquire tid requested active (le_now env) = Inl e"
    "findConflict requested active = (c, p)"
    "ao_ConflictingTaskID out = Some c" "ao_ConflictingPath out = Some p"
    unfolding acquire_locked_def
    by (auto simp: Let_def split: sum.splits prod.splits option.splits if_splits)
  note sv = survivors_holdings [OF assms(1) h(1-3)]
  from findConflict_accurate [OF h(6,7)] obtain a where
    a: "p \<in> set requested" "a \<in> set active" "plk_TaskID a = c" "p \<in> set (plk_OwnedPaths a)" by blast
  with active_locks_snapshots [OF h(5)] have "(c, map np_string (plk_OwnedPaths a)) \<in> set survivors"
    by force
  with sv(2,3) have "holdings s' c = Some (map np_string (plk_OwnedPaths a))" by (metis map_of_is_SomeI)
  with h a show ?thesis by auto
qed

end

section \<open>The file store meets the contract\<close>

definition dir_ok :: "lock_dir \<Rightarrow> bool" where
  "dir_ok dir = distinct (map fst dir)"

definition dir_holdings :: "lock_dir \<Rightarrow> task_id \<Rightarrow> string list option" where
  "dir_holdings dir tid =
     (case map_of dir (lock_file_name tid) of Some (FilePaths ps) \<Rightarrow> Some ps | _ \<Rightarrow> None)"

lemma lock_file_name_eq: "lock_file_name t = lock_file_name u \<longleftrightarrow> t = u"
  by (cases t; cases u) (simp add: lock_file_name_def)

lemma lock_file_name_suffix [simp]: "has_suffix (lock_file_name t) json_suffix"
  by (simp add: has_suffix_def lock_file_name_def)

lemma lock_file_name_trim: "has_suffix name json_suffix \<Longrightarrow> trim_json name @ json_suffix = name"
  unfolding has_suffix_def trim_json_def by (metis append_take_drop_id)

lemma NewTaskID_string: "NewTaskID v = Inr t \<Longrightarrow> tid_string t = v"
  by (auto simp: NewTaskID_def split: if_splits option.splits prod.splits sum.splits)

lemma List_entry:
  assumes "has_suffix name json_suffix" and "NewTaskID (trim_json name) = Inr t"
  shows "name = lock_file_name t"
  using lock_file_name_trim [OF assms(1)] NewTaskID_string [OF assms(2)] by (simp add: lock_file_name_def)

lemma List_dir_holdings:
  assumes "dir_ok dir" and "PathLockFileStore_List dir = Inr snaps"
  shows "distinct (map fst snaps) \<and> map_of snaps = dir_holdings dir
         \<and> lock_file_name ` fst ` set snaps \<subseteq> fst ` set dir"
  using assms
proof (induction dir arbitrary: snaps)
  case Nil
  then show ?case by (auto simp: dir_holdings_def)
next
  case (Cons entry rest)
  obtain name f where e: "entry = (name, f)" by fastforce
  from Cons.prems(1) e have ok: "dir_ok rest" "name \<notin> fst ` set rest" by (auto simp: dir_ok_def)
  show ?case
  proof (cases "f = FileDir \<or> \<not> has_suffix name json_suffix")
    case True
    with Cons.prems(2) e have "PathLockFileStore_List rest = Inr snaps" by simp
    note IH = Cons.IH [OF ok(1) this]
    have "dir_holdings (entry # rest) t = dir_holdings rest t" for t
    proof (cases "lock_file_name t = name")
      case True
      with \<open>f = FileDir \<or> \<not> has_suffix name json_suffix\<close> have "f = FileDir" by auto
      moreover from True ok(2) have "map_of rest (lock_file_name t) = None"
        by (simp add: map_of_eq_None_iff)
      ultimately show ?thesis using e True by (simp add: dir_holdings_def)
    qed (simp add: dir_holdings_def e)
    then have "dir_holdings (entry # rest) = dir_holdings rest" by (simp add: fun_eq_iff)
    moreover from IH have "lock_file_name ` fst ` set snaps \<subseteq> insert name (fst ` set rest)" by blast
    ultimately show ?thesis using IH e by simp
  next
    case False
    with Cons.prems(2) e obtain t ps ls where t: "NewTaskID (trim_json name) = Inr t" "f = FilePaths ps"
      "PathLockFileStore_List rest = Inr ls" "snaps = (t, ps) # ls"
      by (auto split: sum.splits lock_file.splits)
    from False t(1) have name: "name = lock_file_name t" by (auto intro: List_entry)
    note IH = Cons.IH [OF ok(1) t(3)]
    from IH ok(2) name have new: "t \<notin> fst ` set ls" by blast
    have "dir_holdings (entry # rest) u = (if u = t then Some ps else dir_holdings rest u)" for u
      by (simp add: dir_holdings_def e name t(2) lock_file_name_eq)
    then have "map_of snaps = dir_holdings (entry # rest)" using IH t(4) by (auto simp: fun_eq_iff)
    moreover from IH have "lock_file_name ` fst ` set ls \<subseteq> insert name (fst ` set rest)" by blast
    ultimately show ?thesis using IH new t(4) name e by simp
  qed
qed

lemma dir_holdings_update:
  "dir_holdings (AList.update (lock_file_name tid) (FilePaths ps) dir) = (dir_holdings dir)(tid \<mapsto> ps)"
  by (auto simp: dir_holdings_def fun_eq_iff update_conv lock_file_name_eq)

lemma dir_holdings_delete:
  "dir_holdings (AList.delete (lock_file_name tid) dir) = (dir_holdings dir)(tid := None)"
  by (auto simp: dir_holdings_def fun_eq_iff delete_conv lock_file_name_eq)

lemma dir_holdings_absent:
  "map_of dir (lock_file_name tid) = None \<Longrightarrow> (dir_holdings dir)(tid := None) = dir_holdings dir"
  by (auto simp: dir_holdings_def fun_eq_iff)

interpretation file_locks: lock_store_spec "path_lock_file_store fs_fail" dir_ok dir_holdings
  for fs_fail
proof unfold_locales
  show "distinct (map fst snaps) \<and> map_of snaps = dir_holdings s"
    if "dir_ok s" "ps_List (path_lock_file_store fs_fail) s = Inr snaps" for s snaps
    using List_dir_holdings that by (simp add: path_lock_file_store_def)
qed (auto simp: path_lock_file_store_def PathLockFileStore_Save_def PathLockFileStore_Delete_def dir_ok_def
      distinct_update distinct_delete dir_holdings_update dir_holdings_delete dir_holdings_absent
      split: option.splits if_splits)

section \<open>Mutual exclusion of the path locks\<close>

text \<open>
  The lock directory over time: acquisitions, each under its own environment (the mutex makes them
  follow one another), and releases, in any order and with any file system failures.
\<close>

inductive lock_history :: "lock_dir \<Rightarrow> bool" where
  empty: "lock_history []"
| acquire: "\<lbrakk>lock_history dir; AcquirePathLock_Execute (path_lock_file_store fs_fail) env tid raws dir = (dir', r)\<rbrakk>
    \<Longrightarrow> lock_history dir'"
| release: "\<lbrakk>lock_history dir; ReleasePathLock_Execute (path_lock_file_store fs_fail) tid dir = (dir', r)\<rbrakk>
    \<Longrightarrow> lock_history dir'"

lemma Execute_cases:
  assumes "AcquirePathLock_Execute st env tid raws s = (s', r)"
  obtains "s' = s" "\<exists>e. r = Inl e"
  | r' where "acquire_locked st env tid raws s = (s', r')" "\<And>out. r = Inr out \<longleftrightarrow> r' = Inr out"
  using assms unfolding AcquirePathLock_Execute_def
  by (auto split: option.splits prod.splits sum.splits)

lemma release_exclusive:
  assumes "dir_ok dir" and "exclusive (dir_holdings dir)"
    and "ReleasePathLock_Execute (path_lock_file_store fs_fail) tid dir = (dir', r)"
  shows "dir_ok dir' \<and> exclusive (dir_holdings dir')"
  using assms file_locks.Delete_ok [OF assms(1), of fs_fail tid]
    file_locks.Delete_holdings [OF assms(1), of fs_fail tid dir']
    file_locks.Delete_refused [OF assms(1), of fs_fail tid dir']
    exclusive_restrict [OF assms(2), of "- {tid}"]
  by (cases r) (auto simp: ReleasePathLock_Execute_def restrict_map_def fun_upd_def exclusive_def)

lemma lock_history_inv: "lock_history dir \<Longrightarrow> dir_ok dir \<and> exclusive (dir_holdings dir)"
proof (induction rule: lock_history.induct)
  case empty
  show ?case by (simp add: dir_ok_def exclusive_def dir_holdings_def)
next
  case (acquire dir fs_fail env tid raws dir' r)
  then show ?case by (elim Execute_cases) (auto dest: file_locks.acquire_exclusive)
next
  case (release dir fs_fail tid dir' r)
  then show ?case using release_exclusive by blast
qed

text \<open>
  C6: after any history of acquisitions and releases, no normalized path is stored for two different
  tasks, whatever the liveness checks, the task store and the file system answered.
\<close>

theorem path_locks_exclusive:
  assumes "lock_history dir" and "dir_holdings dir t = Some ps" and "dir_holdings dir u = Some qs"
    and "t \<noteq> u"
  shows "set ps \<inter> set qs = {}"
  using lock_history_inv [OF assms(1)] assms(2-4) unfolding exclusive_def by blast

definition sample_env :: lock_env where
  "sample_env = \<lparr>le_Lock = None, le_Unlock = None, le_liveness = (\<lambda>_. LivenessKnown False),
     le_loadTask = (\<lambda>_. TaskMissing),
     le_normalize = (\<lambda>raw. case NewNormalizedPath raw of Inl _ \<Rightarrow> Inl ''bad'' | Inr p \<Rightarrow> Inr p),
     le_now = 5\<rparr>"

definition sample_tid :: "string \<Rightarrow> task_id" where
  "sample_tid sl = TaskID (''impl-20240229-101500-0a1b-'' @ sl)"

definition sample_dir :: lock_dir where
  "sample_dir = [(lock_file_name (sample_tid ''x''), FilePaths [''/a'', ''/b'']),
                 (lock_file_name (sample_tid ''y''), FilePaths [''/c''])]"

lemma sample_acquire_x:
  "AcquirePathLock_Execute (path_lock_file_store (\<lambda>_. None)) sample_env (sample_tid ''x'') [''/a'', ''/b''] []
     = ([(lock_file_name (sample_tid ''x''), FilePaths [''/a'', ''/b''])],
        Inr \<lparr>ao_Acquired = True, ao_ConflictingTaskID = None, ao_ConflictingPath = None,
             ao_NormalizedPaths = [NormalizedPath ''/a'', NormalizedPath ''/b'']\<rparr>)"
  by code_simp

lemma sample_acquire_y:
  "AcquirePathLock_Execute (path_lock_file_store (\<lambda>_. None)) sample_env (sample_tid ''y'') [''/c'']
       [(lock_file_name (sample_tid ''x''), FilePaths [''/a'', ''/b''])]
     = (sample_dir,
        Inr \<lparr>ao_Acquired = True, ao_ConflictingTaskID = None, ao_ConflictingPath = None,
             ao_NormalizedPaths = [NormalizedPath ''/c'']\<rparr>)"
  by code_simp

lemma sample_dir_history: "lock_history sample_dir"
  by (rule lock_history.acquire [OF lock_history.acquire [OF lock_history.empty sample_acquire_x]
        sample_acquire_y])

theorem path_locks_exclusive_witness:
  "lock_history sample_dir \<and> set [''/a'', ''/b''] \<inter> set [''/c''] = {}"
proof
  show "lock_history sample_dir" by (rule sample_dir_history)
  show "set [''/a'', ''/b''] \<inter> set [''/c''] = {}"
    by (rule path_locks_exclusive [of sample_dir "sample_tid ''x''" _ "sample_tid ''y''"])
       (simp_all add: sample_dir_history, code_simp+)
qed

text \<open>
  An acquisition, whatever its outcome, leaves the stored paths of every other task as they were,
  unless the liveness check or the task store established that the owner is dead. In particular a lock
  whose owner cannot be examined is kept.
\<close>

theorem live_locks_kept:
  assumes "lock_history dir"
    and "AcquirePathLock_Execute (path_lock_file_store fs_fail) env tid raws dir = (dir', r)"
    and "t \<noteq> tid" and "lock_owner_dead env t \<noteq> Inr True"
  shows "dir_holdings dir' t = dir_holdings dir t"
  using assms(2)
proof (cases rule: Execute_cases)
  case (2 r')
  then show ?thesis
    using file_locks.acquire_keeps_live lock_history_inv [OF assms(1)] assms(3,4) by blast
qed simp

theorem live_locks_kept_witness:
  "let (dir', r) = AcquirePathLock_Execute (path_lock_file_store (\<lambda>_. None)) sample_env (sample_tid ''z'')
         [''/d''] sample_dir
   in dir_holdings dir' (sample_tid ''y'') = dir_holdings sample_dir (sample_tid ''y'')"
proof -
  have "lock_owner_dead sample_env (sample_tid ''y'') \<noteq> Inr True" by code_simp
  then show ?thesis
    by (auto simp: Let_def sample_tid_def split: prod.splits
        intro: live_locks_kept [OF sample_dir_history, of "\<lambda>_. None" sample_env])
qed

text \<open>
  The answer of an acquisition is true of the store it leaves: on success exactly the normalized
  requested paths are stored for the requester, and on a conflict the reported task owns the reported
  path, which is one of those requested.
\<close>

theorem acquire_answer_true:
  assumes "lock_history dir" and "raws \<noteq> []"
    and "AcquirePathLock_Execute (path_lock_file_store fs_fail) env tid raws dir = (dir', Inr out)"
  shows "\<exists>requested. normalizeAll (le_normalize env) raws = Inr requested \<and>
    (if ao_Acquired out
     then ao_NormalizedPaths out = requested \<and> dir_holdings dir' tid = Some (map np_string requested)
     else \<exists>c p ps. ao_ConflictingTaskID out = Some c \<and> ao_ConflictingPath out = Some p
            \<and> p \<in> set requested \<and> dir_holdings dir' c = Some ps \<and> np_string p \<in> set ps)"
proof -
  from assms(3) have "acquire_locked (path_lock_file_store fs_fail) env tid raws dir = (dir', Inr out)"
    by (elim Execute_cases) auto
  with lock_history_inv [OF assms(1)] assms(2) show ?thesis
    using file_locks.acquire_granted [of dir fs_fail env tid raws dir' out]
      file_locks.acquire_refused [of dir fs_fail env tid raws dir' out] by auto
qed

lemma sample_conflict:
  "AcquirePathLock_Execute (path_lock_file_store (\<lambda>_. None)) sample_env (sample_tid ''z'') [''/d'', ''/b'']
       sample_dir
     = (sample_dir,
        Inr \<lparr>ao_Acquired = False, ao_ConflictingTaskID = Some (sample_tid ''x''),
             ao_ConflictingPath = Some (NormalizedPath ''/b''), ao_NormalizedPaths = []\<rparr>)"
  by code_simp

theorem acquire_answer_true_witness:
  "\<exists>requested. normalizeAll (le_normalize sample_env) [''/d'', ''/b''] = Inr requested \<and>
     (\<exists>c p ps. c = sample_tid ''x'' \<and> p = NormalizedPath ''/b''
        \<and> p \<in> set requested \<and> dir_holdings sample_dir c = Some ps \<and> np_string p \<in> set ps)"
  using acquire_answer_true [OF sample_dir_history _ sample_conflict] by auto

end
