(* ===== verification/Session.thy ===== *)
theory Session
  imports Domain_Values
begin

text \<open>
  The supervised session: the state machine of \<^verbatim>\<open>internal/supervisor/session.go\<close> with the restart
  limits of \<^verbatim>\<open>restart.go\<close>, the send gate of \<^verbatim>\<open>sendgate.go\<close> and the handoff record of
  \<^verbatim>\<open>rotation.go\<close>.

  Go's string enumerations become datatypes with one constructor per constant and an \<open>Other\<close>
  constructor for every other string, so that the zero value and a corrupt value stay representable.
  \<open>Transition\<close> is the table of the state machine, \<open>Apply\<close> the update of the session it drives; the
  invariants are proved for every sequence of events under every sequence of contexts.
\<close>

section \<open>Enumerations\<close>

datatype session_state =
    SessionStarting | SessionIdle | SessionWorking | SessionAwaitingPermission
  | SessionAwaitingRecommendation | SessionRotating | SessionRecovering | SessionStopped
  | SessionExited | SessionFailed | SessionOther string

datatype supervisor_cli = CLIClaude | CLICodex | CLIOther string

datatype stop_reason =
    StopGlobal | StopSession | StopSupervisorRestarted | StopSendNotConfirmed | StopSendAborted
  | StopProcessExitWithPending | StopRecommendationForbidden | StopRecommendationUndetermined
  | StopRecommendationRepeated | StopAutoContinueLimit | StopRotateStepFailed | StopRespawnFailed
  | StopRecoveryStartTimeout | StopClaudeSessionIDMissing | StopRestartLimitConsecutive
  | StopRestartLimitDaily | StopOrphanChildAlive | StopStateFileCorrupt | StopOther string

abbreviation no_stop :: stop_reason where
  "no_stop \<equiv> StopOther ''''"

datatype exit_reason = ExitStopSessionRequested | ExitOther string

datatype send_kind =
    SendKindRecommendationContinue | SendKindRemoteControl | SendKindHandoffEnd
  | SendKindSessionStart | SendKindParallelInstruction | SendKindHandoffExit
  | SendKindOperatorInput | SendKindOther string

datatype rotate_step =
    RotateWaitIdle | RotateSendEnd | RotateConfirmHandoff | RotateSendExit | RotateRestart
  | RotateSendStart | RotateSendParallelInstruction | RotateStepOther string

datatype rotate_fail_reason =
    RotateFailIdleWaitTimeout | RotateFailSendNotConfirmed | RotateFailMtimeNotUpdated
  | RotateFailHeadGenerationUnchanged | RotateFailNotIdleAfterHandoff | RotateFailExitTimeout
  | RotateFailSpawnFailed | RotateFailStartupTimeout | RotateFailStartNotSettled
  | RotateFailChildAbsent | RotateFailRestartLimit | RotateFailOther string

datatype stop_scope = StopScopeNone | StopScopeSession | StopScopeGlobal | StopScopeOther string

datatype sup_event =
    EventDetectorIdle | EventDetectorWorking | EventDetectorPermission
  | EventDetectorRecommendation | EventDetectorUndetermined | EventUnexpectedExit
  | EventHandoffExit | EventStartupTimeout | EventContextRotate | EventRotationDone
  | EventRotationFailed | EventStop | EventResume | EventRecoveryWaitDone | EventStopSession
  | EventReconcile | EventOther string

datatype session_id = SessionID (sid_string: string)

section \<open>Records\<close>

record pending_send =
  pnd_SendID :: string
  pnd_Kind :: send_kind
  pnd_IssuedAt :: go_time

record send_gate_record =
  sg_NextSeq :: "64 word"
  sg_EverSent :: bool
  sg_LastSendConfirmed :: bool
  sg_LastConfirmedAt :: "go_time option"
  sg_UnconfirmedDiscarded :: bool
  sg_Pending :: "pending_send option"

record last_send_record =
  lsr_SendID :: string
  lsr_Kind :: send_kind
  lsr_IssuedAt :: go_time
  lsr_Confirmed :: bool

record checkpoint_snapshot =
  cps_Exists :: bool
  cps_Mtime :: "go_time option"
  cps_HeadHash :: string
  cps_Undeterminable :: bool

record rotation_record =
  rr_Step :: rotate_step
  rr_StartedAt :: go_time
  rr_StepStartedAt :: "go_time option"
  rr_EndIssuedAt :: "go_time option"
  rr_CheckpointSnapshot :: "checkpoint_snapshot option"
  rr_ResumeEnd :: bool
  rr_ResumeSpawn :: bool
  rr_RespawnWaitUntil :: "go_time option"
  rr_Stage5Started :: bool
  rr_Stage7ConfirmedWhileStopped :: bool
  rr_FailReason :: rotate_fail_reason

record managed_session =
  ms_GitPhase :: string
  ms_SchemaVersion :: int
  ms_SessionID :: session_id
  ms_ProjectID :: string
  ms_CLI :: supervisor_cli
  ms_Generation :: int
  ms_State :: session_state
  ms_StateSince :: go_time
  ms_StopScope :: stop_scope
  ms_StopReason :: stop_reason
  ms_ExitReason :: exit_reason
  ms_ClaudeSessionID :: string
  ms_PreviousClaudeSessionID :: string
  ms_ChildPID :: int
  ms_ChildStartedAt :: "go_time option"
  ms_SendGate :: send_gate_record
  ms_LastSend :: "last_send_record option"
  ms_RestartCount :: int
  ms_RestartTimes :: "go_time list"
  ms_Rotation :: "rotation_record option"
  ms_AutoContinueDisabledReason :: string
  ms_PendingRemoteControl :: bool
  ms_RemoteControlConfirmed :: bool
  ms_PendingRemoteControlSince :: "go_time option"
  ms_PreviousState :: session_state
  ms_LastVerifiedFingerprint :: string
  ms_LastVerifiedResult :: string
  ms_LastFailureFingerprint :: string
  ms_LastFailureReason :: string
  ms_LastPushFailedHead :: string
  ms_GitConfigFingerprint :: string

record transition_context =
  tc_CLI :: supervisor_cli
  tc_Generation :: int
  tc_ChildPID :: int
  tc_ExitCode :: int
  tc_HasPendingSend :: bool
  tc_ClaudeSessionID :: bool
  tc_HasPreviousClaudeSessionID :: bool
  tc_ResumeScope :: stop_scope
  tc_RestartCount :: int
  tc_DailyRestartCount :: int
  tc_ObservedState :: session_state
  tc_StopReason :: stop_reason
  tc_ChildAlive :: bool
  tc_RotationStep :: rotate_step
  tc_RotationExitTimedOut :: bool
  tc_HasRotation :: bool
  tc_OrphanChildAlive :: bool

section \<open>Session identifiers\<close>

text \<open>The regular expression \<^verbatim>\<open>^[a-z0-9]+(?:-[a-z0-9]+)*-[1-9][0-9]*$\<close>, segment by segment.\<close>

definition sessionIDPattern :: "string \<Rightarrow> bool" where
  "sessionIDPattern v =
     (let segs = split_on (CHR ''-'') v; n = last segs
      in 2 \<le> length segs \<and> list_all (plus_class lower_alnum) segs
         \<and> list_all is_digit_char n \<and> hd n \<noteq> CHR ''0'')"

definition NewSessionID :: "string \<Rightarrow> domain_error + session_id" where
  "NewSessionID v =
     (if sessionIDPattern v then Inr (SessionID v) else Inl (ErrText ''invalid session id''))"

section \<open>Restart limits\<close>

definition RestartMaxCount :: int where
  "RestartMaxCount = 3"

definition RestartMaxPerDay :: int where
  "RestartMaxPerDay = 10"

definition RestartBackoffBase :: duration where
  "RestartBackoffBase = 10 * go_second"

definition RestartBackoffMax :: duration where
  "RestartBackoffMax = 300 * go_second"

definition RestartStableDuration :: duration where
  "RestartStableDuration = 600 * go_second"

definition RestartWindow :: duration where
  "RestartWindow = 24 * 3600 * go_second"

text \<open>The loop of \<open>RestartBackoff\<close>: the first argument counts the iterations left.\<close>

fun backoff_loop :: "nat \<Rightarrow> duration \<Rightarrow> duration" where
  "backoff_loop 0 delay = delay"
| "backoff_loop (Suc n) delay = (if delay < RestartBackoffMax then backoff_loop n (delay * 2) else delay)"

definition RestartBackoff :: "int \<Rightarrow> duration" where
  "RestartBackoff count =
     (let delay = backoff_loop (nat count) RestartBackoffBase
      in if delay > RestartBackoffMax then RestartBackoffMax else delay)"

definition RestartCountInWindow :: "go_time list \<Rightarrow> go_time \<Rightarrow> int" where
  "RestartCountInWindow ts now =
     (let start = now - RestartWindow
      in foldl (\<lambda>count at. if \<not> at < start \<and> \<not> at > now then count + 1 else count) 0 ts)"

definition RestartLimitCounts :: "int \<Rightarrow> int \<Rightarrow> stop_reason" where
  "RestartLimitCounts count daily =
     (if count \<ge> RestartMaxCount then StopRestartLimitConsecutive
      else if daily \<ge> RestartMaxPerDay then StopRestartLimitDaily
      else no_stop)"

definition RestartLimitReason :: "int \<Rightarrow> go_time list \<Rightarrow> go_time \<Rightarrow> stop_reason" where
  "RestartLimitReason count ts now = RestartLimitCounts count (RestartCountInWindow ts now)"

definition RestartStable :: "go_time \<Rightarrow> go_time \<Rightarrow> bool" where
  "RestartStable started now \<longleftrightarrow>
     \<not> is_zero_time started \<and> \<not> now < started \<and> time_sub now started \<ge> RestartStableDuration"

section \<open>The handoff record\<close>

definition Rotation_Advance :: "rotate_step \<Rightarrow> go_time \<Rightarrow> rotation_record \<Rightarrow> rotation_record" where
  "Rotation_Advance step at r =
     r\<lparr>rr_Step := step, rr_StepStartedAt := Some at, rr_FailReason := RotateFailOther ''''\<rparr>"

definition Rotation_Fail :: "rotate_step \<Rightarrow> rotate_fail_reason \<Rightarrow> rotation_record \<Rightarrow> rotation_record" where
  "Rotation_Fail step reason r = r\<lparr>rr_Step := step, rr_FailReason := reason\<rparr>"

definition RecordCheckpoint :: "checkpoint_snapshot \<Rightarrow> rotation_record \<Rightarrow> rotation_record" where
  "RecordCheckpoint snap r =
     r\<lparr>rr_CheckpointSnapshot := Some
         (if cps_Undeterminable snap
          then \<lparr>cps_Exists = False, cps_Mtime = None, cps_HeadHash = '''', cps_Undeterminable = True\<rparr>
          else snap)\<rparr>"

section \<open>The transition table\<close>

definition exitStopReason :: "transition_context \<Rightarrow> stop_reason" where
  "exitStopReason c =
     (if tc_HasPendingSend c then StopProcessExitWithPending
      else if tc_ExitCode c = 0 then no_stop
      else if \<not> tc_ClaudeSessionID c then StopClaudeSessionIDMissing
      else RestartLimitCounts (tc_RestartCount c) (tc_DailyRestartCount c))"

definition classifyExit :: "transition_context \<Rightarrow> session_state \<times> bool" where
  "classifyExit c =
     (if tc_HasPendingSend c then (SessionStopped, True)
      else if tc_ExitCode c = 0 then (SessionExited, True)
      else if tc_CLI c = CLICodex then (SessionExited, True)
      else if \<not> tc_ClaudeSessionID c then (SessionStopped, True)
      else if RestartLimitCounts (tc_RestartCount c) (tc_DailyRestartCount c) \<noteq> no_stop
        then (SessionStopped, True)
      else (SessionRecovering, True))"

text \<open>The four states in which the child waits for input or works.\<close>

abbreviation child_states :: "session_state list" where
  "child_states \<equiv>
     [SessionIdle, SessionWorking, SessionAwaitingPermission, SessionAwaitingRecommendation]"

fun detector_target :: "sup_event \<Rightarrow> session_state" where
  "detector_target EventDetectorIdle = SessionIdle"
| "detector_target EventDetectorWorking = SessionWorking"
| "detector_target EventDetectorPermission = SessionAwaitingPermission"
| "detector_target EventDetectorRecommendation = SessionAwaitingRecommendation"
| "detector_target _ = SessionOther ''''"

definition resume_target :: "transition_context \<Rightarrow> session_state \<times> bool" where
  "resume_target c =
     (if tc_OrphanChildAlive c then (SessionStopped, False)
      else if tc_HasRotation c \<or> tc_RotationStep c \<noteq> RotateStepOther '''' then
        (if tc_RotationExitTimedOut c \<and> tc_ChildAlive c then (SessionStopped, False)
         else (SessionRotating, True))
      else if tc_ChildAlive c then
        (if tc_ObservedState c \<in> set child_states then (tc_ObservedState c, True)
         else (SessionWorking, True))
      else if \<not> tc_ClaudeSessionID c \<and> \<not> tc_HasPreviousClaudeSessionID c then (SessionStopped, False)
      else (SessionStarting, True))"

text \<open>The rows of the table, state by state, after the detector events.\<close>

fun transition_row :: "session_state \<Rightarrow> sup_event \<Rightarrow> transition_context \<Rightarrow> session_state \<times> bool" where
  "transition_row SessionStarting event c =
     (case event of
        EventUnexpectedExit \<Rightarrow> classifyExit c
      | EventStartupTimeout \<Rightarrow> (if tc_Generation c \<ge> 2 then (SessionStopped, True) else (SessionFailed, True))
      | EventStop \<Rightarrow> (SessionStopped, True)
      | EventStopSession \<Rightarrow> (SessionExited, True)
      | EventReconcile \<Rightarrow>
          (if tc_Generation c = 1 \<and> tc_ChildPID c = 0 then (SessionExited, True)
           else (SessionStarting, False))
      | _ \<Rightarrow> (SessionStarting, False))"
| "transition_row SessionRotating event c =
     (case event of
        EventUnexpectedExit \<Rightarrow> (SessionRotating, True)
      | EventHandoffExit \<Rightarrow> (SessionRotating, True)
      | EventContextRotate \<Rightarrow> (SessionRotating, True)
      | EventRotationDone \<Rightarrow>
          (if tc_ObservedState c \<in> set child_states then (tc_ObservedState c, True)
           else (SessionRotating, True))
      | EventRotationFailed \<Rightarrow> (SessionStopped, True)
      | EventStop \<Rightarrow> (SessionStopped, True)
      | EventStopSession \<Rightarrow>
          (if tc_OrphanChildAlive c \<or> tc_ChildAlive c then (SessionRotating, False)
           else (SessionExited, True))
      | _ \<Rightarrow> (SessionRotating, False))"
| "transition_row SessionRecovering event c =
     (case event of
        EventStop \<Rightarrow> (SessionStopped, True)
      | EventRecoveryWaitDone \<Rightarrow> (SessionStarting, True)
      | EventStopSession \<Rightarrow> (SessionExited, True)
      | _ \<Rightarrow> (SessionRecovering, False))"
| "transition_row SessionStopped event c =
     (case event of
        EventStop \<Rightarrow> (SessionStopped, True)
      | EventUnexpectedExit \<Rightarrow> (SessionStopped, True)
      | EventHandoffExit \<Rightarrow> (SessionStopped, True)
      | EventResume \<Rightarrow> resume_target c
      | EventStopSession \<Rightarrow> (SessionExited, True)
      | _ \<Rightarrow> (SessionStopped, False))"
| "transition_row SessionExited event c =
     (SessionExited, event = EventStop \<or> event = EventStopSession)"
| "transition_row SessionFailed event c =
     (SessionFailed, event = EventStop \<or> event = EventStopSession)"
| "transition_row (SessionOther v) event c = (SessionOther v, False)"
| "transition_row from event c =
     (case event of
        EventUnexpectedExit \<Rightarrow> classifyExit c
      | EventContextRotate \<Rightarrow>
          (if from = SessionIdle \<or> from = SessionAwaitingRecommendation then (SessionRotating, True)
           else (from, True))
      | EventStop \<Rightarrow> (SessionStopped, True)
      | EventStopSession \<Rightarrow>
          (if tc_OrphanChildAlive c \<or> tc_ChildAlive c then (from, False) else (SessionExited, True))
      | _ \<Rightarrow> (from, False))"

definition Transition :: "session_state \<Rightarrow> sup_event \<Rightarrow> transition_context \<Rightarrow> session_state \<times> bool" where
  "Transition from event c =
     (if event = EventDetectorUndetermined
         \<and> from \<in> set ([SessionStarting] @ child_states @ [SessionRotating, SessionRecovering, SessionStopped])
      then (from, True)
      else if event \<in> set [EventDetectorIdle, EventDetectorWorking, EventDetectorPermission,
                           EventDetectorRecommendation]
              \<and> from \<in> set (SessionStarting # child_states)
      then (if from = SessionStarting \<and> event = EventDetectorWorking then (from, True)
            else if from = SessionStarting \<and> event = EventDetectorRecommendation
              then (SessionOther '''', False)
            else (detector_target event, True))
      else if event \<in> set [EventDetectorIdle, EventDetectorWorking, EventDetectorPermission,
                           EventDetectorRecommendation]
              \<and> from \<in> set [SessionRotating, SessionRecovering, SessionStopped]
      then (from, True)
      else transition_row from event c)"

datatype session_error = TransitionError string | SessionErrorText string

definition TransitionWithError :: "session_state \<Rightarrow> sup_event \<Rightarrow> transition_context
    \<Rightarrow> session_state \<times> session_error option" where
  "TransitionWithError from event c =
     (case Transition from event c of
        (to, True) \<Rightarrow> (to, None)
      | (_, False) \<Rightarrow>
          (from, Some (TransitionError
             (if from = SessionStopped \<and> event = EventResume then
                (if tc_OrphanChildAlive c then ''SUP_ORPHAN_CHILD_ALIVE''
                 else if tc_RotationExitTimedOut c \<and> tc_ChildAlive c then ''SUP_ROTATE_STEP_FAILED''
                 else if \<not> tc_ClaudeSessionID c \<and> \<not> tc_HasPreviousClaudeSessionID c
                         \<and> \<not> tc_ChildAlive c \<and> \<not> tc_HasRotation c
                   then ''SUP_CLAUDE_SESSION_ID_MISSING''
                 else ''SUP_ILLEGAL_TRANSITION'')
              else ''SUP_ILLEGAL_TRANSITION''))))"

definition default_context :: transition_context where
  "default_context =
     \<lparr>tc_CLI = CLIOther '''', tc_Generation = 0, tc_ChildPID = 0, tc_ExitCode = 0, tc_HasPendingSend = False,
      tc_ClaudeSessionID = False, tc_HasPreviousClaudeSessionID = False, tc_ResumeScope = StopScopeOther '''',
      tc_RestartCount = 0, tc_DailyRestartCount = 0, tc_ObservedState = SessionOther '''',
      tc_StopReason = no_stop, tc_ChildAlive = False, tc_RotationStep = RotateStepOther '''',
      tc_RotationExitTimedOut = False, tc_HasRotation = False, tc_OrphanChildAlive = False\<rparr>"

definition CanTransition :: "session_state \<Rightarrow> sup_event \<Rightarrow> bool" where
  "CanTransition from event =
     snd (Transition from event
       (default_context\<lparr>tc_Generation := 1, tc_ClaudeSessionID := True, tc_ObservedState := SessionIdle\<rparr>))"

fun validSupervisorStopReason :: "stop_reason \<Rightarrow> bool" where
  "validSupervisorStopReason (StopOther _) = False"
| "validSupervisorStopReason _ = True"

section \<open>Applying an event to a session\<close>

text \<open>The updates that any allowed transition makes.\<close>

definition change_state :: "session_state \<Rightarrow> go_time \<Rightarrow> managed_session \<Rightarrow> managed_session" where
  "change_state to now s = (if to \<noteq> ms_State s then s\<lparr>ms_State := to, ms_StateSince := now\<rparr> else s)"

definition leave_stopped :: "session_state \<Rightarrow> session_state \<Rightarrow> managed_session \<Rightarrow> managed_session" where
  "leave_stopped previous to s =
     (if previous = SessionStopped \<and> to \<noteq> SessionStopped
      then s\<lparr>ms_AutoContinueDisabledReason := '''', ms_StopReason := no_stop, ms_StopScope := StopScopeNone\<rparr>
      else s)"

definition reach_exited :: "session_state \<Rightarrow> session_state \<Rightarrow> managed_session \<Rightarrow> managed_session" where
  "reach_exited previous to s =
     (if to = SessionExited \<and> previous \<noteq> SessionExited
      then s\<lparr>ms_StopReason := no_stop, ms_StopScope := StopScopeNone\<rparr> else s)"

definition reach_stopped :: "session_state \<Rightarrow> session_state \<Rightarrow> managed_session \<Rightarrow> managed_session" where
  "reach_stopped previous to s =
     (if to = SessionStopped \<and> to \<noteq> previous then s\<lparr>ms_PreviousState := previous\<rparr> else s)"

definition enter_state :: "session_state \<Rightarrow> go_time \<Rightarrow> managed_session \<Rightarrow> managed_session" where
  "enter_state to now s =
     (let previous = ms_State s
      in reach_stopped previous to (reach_exited previous to (leave_stopped previous to (change_state to now s))))"

definition record_stop_scope :: "stop_reason \<Rightarrow> managed_session \<Rightarrow> managed_session" where
  "record_stop_scope reason s =
     (if reason = StopGlobal then s\<lparr>ms_StopScope := StopScopeGlobal\<rparr>
      else if reason = StopSession then s\<lparr>ms_StopScope := StopScopeSession\<rparr>
      else s)"

text \<open>What the event adds to the entered state; \<open>previous\<close> is the state before.\<close>

definition record_stop :: "session_state \<Rightarrow> transition_context \<Rightarrow> managed_session \<Rightarrow> managed_session" where
  "record_stop previous c s =
     record_stop_scope (tc_StopReason c)
       (if previous \<noteq> SessionStopped \<and> previous \<noteq> SessionExited \<and> previous \<noteq> SessionFailed
        then s\<lparr>ms_StopReason := tc_StopReason c\<rparr> else s)"

definition record_event_effect :: "session_state \<Rightarrow> sup_event \<Rightarrow> transition_context \<Rightarrow> session_state
    \<Rightarrow> managed_session \<Rightarrow> managed_session" where
  "record_event_effect previous event c to s =
     (case event of
        EventStop \<Rightarrow>
          if to = SessionExited \<or> to = SessionFailed then record_stop_scope (tc_StopReason c) s
          else if to = SessionStopped then record_stop previous c s
          else s
      | EventUnexpectedExit \<Rightarrow>
          if to = SessionStopped \<and> previous \<noteq> SessionStopped
          then s\<lparr>ms_StopReason := exitStopReason c\<rparr> else s
      | EventStartupTimeout \<Rightarrow>
          if to = SessionStopped then s\<lparr>ms_StopReason := StopRecoveryStartTimeout\<rparr> else s
      | EventRotationFailed \<Rightarrow>
          if to = SessionStopped then s\<lparr>ms_StopReason := StopRotateStepFailed\<rparr> else s
      | EventStopSession \<Rightarrow>
          if to = SessionExited \<and> previous \<noteq> SessionExited \<and> previous \<noteq> SessionFailed
          then s\<lparr>ms_ExitReason := ExitStopSessionRequested\<rparr> else s
      | _ \<Rightarrow> s)"

definition Apply :: "sup_event \<Rightarrow> transition_context \<Rightarrow> go_time \<Rightarrow> managed_session
    \<Rightarrow> managed_session \<times> session_error option" where
  "Apply event c0 now s =
     (let c = (if tc_CLI c0 = CLIOther '''' then c0\<lparr>tc_CLI := ms_CLI s\<rparr> else c0)
      in if event = EventResume \<and> tc_ResumeScope c = StopScopeGlobal
            \<and> (ms_StopScope s \<noteq> StopScopeGlobal \<or> ms_StopReason s \<noteq> StopGlobal)
         then (s\<lparr>ms_StopScope := StopScopeNone\<rparr>, None)
         else
     (case TransitionWithError (ms_State s) event c of (to, transitionErr) \<Rightarrow>
        if event = EventStop \<and> ms_State s \<noteq> SessionStopped \<and> tc_StopReason c = no_stop
        then (s, Some (SessionErrorText ''SUP_ILLEGAL_TRANSITION: stop reason required''))
        else if event = EventStop \<and> tc_StopReason c \<noteq> no_stop
                \<and> \<not> validSupervisorStopReason (tc_StopReason c)
        then (s, Some (SessionErrorText ''SUP_ILLEGAL_TRANSITION: invalid stop reason''))
        else
     (case transitionErr of
        Some e \<Rightarrow>
          if ms_State s = SessionStopped \<and> event = EventResume \<and> tc_OrphanChildAlive c then (s, Some e)
          else if ms_State s = SessionStopped \<and> event = EventResume \<and> tc_RotationExitTimedOut c
                  \<and> tc_ChildAlive c
            then (s, Some (TransitionError ''SUP_ROTATE_STEP_FAILED''))
          else if ms_State s = SessionStopped \<and> event = EventResume \<and> \<not> tc_ClaudeSessionID c
                  \<and> \<not> tc_HasPreviousClaudeSessionID c \<and> \<not> tc_ChildAlive c \<and> \<not> tc_HasRotation c
            then (s\<lparr>ms_StopReason := StopClaudeSessionIDMissing\<rparr>, Some e)
          else (s, Some e)
      | None \<Rightarrow>
          (record_event_effect (ms_State s) event c to (enter_state to now s), None))))"

section \<open>Event kinds\<close>

text \<open>The string constants of \<open>SupervisorEventKind\<close>, in the order of their declaration.\<close>

definition supervisor_event_kinds :: "string list" where
  "supervisor_event_kinds = [
    ''session_started'', ''session_start_failed'', ''session_start_interrupted'',
    ''state_changed'', ''illegal_transition'', ''session_stopped'', ''session_resumed'',
    ''resume_refused'', ''session_failed'', ''session_exited'', ''session_restarted'',
    ''restart_counters_reset'', ''exit_while_stopped'', ''restart_limit_exceeded'',
    ''orphan_child_alive'', ''state_file_corrupt'', ''undetermined_long'', ''stop_set'',
    ''stop_cleared'', ''stop_file_removed'', ''send_issued'', ''send_confirmed'',
    ''send_unconfirmed'', ''send_blocked'', ''send_aborted'', ''send_pending_discarded'',
    ''recommendation_blocked'', ''permission_pending'', ''permission_mode_unsafe'',
    ''no_changes'', ''sensitive_path_blocked'', ''verify_failed'',
    ''tree_changed_during_verify'', ''commit_created'', ''commit_failed'',
    ''commit_suppressed_same_fingerprint'', ''repo_busy'', ''push_blocked'',
    ''push_succeeded'', ''push_failed'', ''push_suppressed_same_head'', ''rotate_pending'',
    ''rotate_step_done'', ''rotate_resumed'', ''rotate_completed'', ''rotate_failed'',
    ''rotation_not_applicable'', ''remote_control_pending'', ''remote_control_expired'',
    ''context_unknown'', ''notify_failed'', ''notify_dropped'', ''supervisor_started'',
    ''luna_impl_not_allowed'', ''rotate_idle_wait_timeout'', ''screen_read'',
    ''operator_input_refused'', ''remote_control_skipped'']"

text \<open>The cases of the switch in \<open>ValidSupervisorEventKind\<close>, in their order.\<close>

definition ValidSupervisorEventKind :: "string \<Rightarrow> bool" where
  "ValidSupervisorEventKind kind = (kind \<in> set [
    ''remote_control_skipped'', ''screen_read'', ''operator_input_refused'',
    ''session_started'', ''session_start_failed'', ''session_start_interrupted'',
    ''state_changed'', ''illegal_transition'', ''session_stopped'', ''session_resumed'',
    ''resume_refused'', ''session_failed'', ''session_exited'', ''session_restarted'',
    ''restart_counters_reset'', ''exit_while_stopped'', ''restart_limit_exceeded'',
    ''orphan_child_alive'', ''state_file_corrupt'', ''undetermined_long'', ''stop_set'',
    ''stop_cleared'', ''stop_file_removed'', ''send_issued'', ''send_confirmed'',
    ''send_unconfirmed'', ''send_blocked'', ''send_aborted'', ''send_pending_discarded'',
    ''recommendation_blocked'', ''permission_pending'', ''permission_mode_unsafe'',
    ''no_changes'', ''sensitive_path_blocked'', ''verify_failed'',
    ''tree_changed_during_verify'', ''commit_created'', ''commit_failed'',
    ''commit_suppressed_same_fingerprint'', ''repo_busy'', ''push_blocked'',
    ''push_succeeded'', ''push_failed'', ''push_suppressed_same_head'', ''rotate_pending'',
    ''rotate_step_done'', ''rotate_resumed'', ''rotate_completed'', ''rotate_failed'',
    ''rotation_not_applicable'', ''remote_control_pending'', ''remote_control_expired'',
    ''context_unknown'', ''notify_failed'', ''notify_dropped'', ''supervisor_started'',
    ''luna_impl_not_allowed'', ''rotate_idle_wait_timeout''])"

text \<open>\<open>RecordEvent\<close> of the validating recorder; \<open>inner\<close> is the wrapped recorder, acting on its own state.\<close>

type_synonym 'r recorder =
  "session_id \<Rightarrow> string \<Rightarrow> stop_reason \<Rightarrow> exit_reason \<Rightarrow> rotate_fail_reason \<Rightarrow> go_time \<Rightarrow> 'r \<Rightarrow> 'r"

definition RecordEvent :: "'r recorder \<Rightarrow> session_id \<Rightarrow> string \<Rightarrow> stop_reason \<Rightarrow> exit_reason
    \<Rightarrow> rotate_fail_reason \<Rightarrow> go_time \<Rightarrow> 'r \<Rightarrow> 'r \<times> domain_error option" where
  "RecordEvent inner sid kind stop exit failure at r =
     (if \<not> ValidSupervisorEventKind kind then (r, Some (ErrText ''invalid supervisor event kind''))
      else (inner sid kind stop exit failure at r, None))"

section \<open>The send gate\<close>

datatype send_origin = SendOriginNormal | SendOriginHandoff

datatype send_blocked_reason =
    SendBlockedStop | SendBlockedState | SendBlockedPending | SendBlockedUnconfirmed
  | SendBlockedNotFixedText | SendBlockedRateLimited

definition handoff_origin :: "send_origin list \<Rightarrow> bool" where
  "handoff_origin origins = (\<not> (origins = [] \<or> hd origins \<noteq> SendOriginHandoff))"

definition SendKindAllowed :: "session_state \<Rightarrow> session_state \<Rightarrow> send_kind \<Rightarrow> send_origin list \<Rightarrow> bool" where
  "SendKindAllowed st observed kind origins =
     (if kind = SendKindOperatorInput then st = SessionIdle \<and> observed = SessionIdle
      else if st \<noteq> SessionIdle \<and> st \<noteq> SessionAwaitingRecommendation \<and> st \<noteq> SessionRotating then False
      else if st = SessionRotating \<and> \<not> handoff_origin origins then False
      else if observed \<noteq> SessionIdle \<and> observed \<noteq> SessionAwaitingRecommendation then False
      else if st = SessionRotating \<and> kind = SendKindRecommendationContinue then False
      else if observed = SessionAwaitingRecommendation
        then kind = SendKindRecommendationContinue \<or> kind = SendKindHandoffEnd \<or> kind = SendKindRemoteControl
      else True)"

text \<open>\<open>CheckSendGate\<close>; the empty reason, which lets the send pass, is \<open>None\<close>.\<close>

definition CheckSendGate :: "managed_session \<Rightarrow> session_state \<Rightarrow> send_kind \<Rightarrow> bool \<Rightarrow> bool \<Rightarrow> bool
    \<Rightarrow> send_origin list \<Rightarrow> send_blocked_reason option" where
  "CheckSendGate s observed kind stopped fixed freshAfterDiscard origins =
     (if ms_State s \<noteq> SessionIdle \<and> ms_State s \<noteq> SessionAwaitingRecommendation
         \<and> (ms_State s \<noteq> SessionRotating \<or> \<not> handoff_origin origins)
      then Some SendBlockedState
      else if stopped then Some SendBlockedStop
      else if \<not> SendKindAllowed (ms_State s) observed kind origins then Some SendBlockedState
      else if sg_Pending (ms_SendGate s) \<noteq> None then Some SendBlockedPending
      else if sg_UnconfirmedDiscarded (ms_SendGate s) \<and> \<not> freshAfterDiscard
              \<or> \<not> sg_UnconfirmedDiscarded (ms_SendGate s) \<and> sg_EverSent (ms_SendGate s)
                 \<and> \<not> sg_LastSendConfirmed (ms_SendGate s)
      then Some SendBlockedUnconfirmed
      else if \<not> fixed then Some SendBlockedNotFixedText
      else None)"

section \<open>Lemmas on the transition table\<close>

fun known_state :: "session_state \<Rightarrow> bool" where
  "known_state (SessionOther _) = False"
| "known_state _ = True"

definition session_terminal :: "session_state \<Rightarrow> bool" where
  "session_terminal st \<longleftrightarrow> st = SessionExited \<or> st = SessionFailed"

lemma RestartLimitCounts_cases:
  "RestartLimitCounts n d = no_stop \<longleftrightarrow> n < 3 \<and> d < 10"
  "validSupervisorStopReason (RestartLimitCounts n d) \<longleftrightarrow> \<not> (n < 3 \<and> d < 10)"
  by (simp_all add: RestartLimitCounts_def RestartMaxCount_def RestartMaxPerDay_def)

lemma classifyExit_ok: "snd (classifyExit c)"
  by (simp add: classifyExit_def)

lemma classifyExit_state:
  "fst (classifyExit c) \<in> {SessionStopped, SessionExited, SessionRecovering}"
  by (simp add: classifyExit_def)

lemma classifyExit_stopped:
  "fst (classifyExit c) = SessionStopped \<Longrightarrow> validSupervisorStopReason (exitStopReason c)"
  by (auto simp: classifyExit_def exitStopReason_def RestartLimitCounts_cases split: if_splits)

lemma classifyExit_recovering:
  "fst (classifyExit c) = SessionRecovering \<longleftrightarrow>
     \<not> tc_HasPendingSend c \<and> tc_ExitCode c \<noteq> 0 \<and> tc_CLI c \<noteq> CLICodex \<and> tc_ClaudeSessionID c
     \<and> tc_RestartCount c < 3 \<and> tc_DailyRestartCount c < 10"
  by (auto simp: classifyExit_def RestartLimitCounts_cases split: if_splits)

lemma resume_target_state:
  "fst (resume_target c) \<in> {SessionStopped, SessionRotating, SessionStarting} \<union> set child_states"
  "snd (resume_target c) \<Longrightarrow> fst (resume_target c) \<noteq> SessionStopped"
  by (auto simp: resume_target_def split: if_splits)

lemma detector_target_known:
  "event \<in> set [EventDetectorIdle, EventDetectorWorking, EventDetectorPermission,
     EventDetectorRecommendation] \<Longrightarrow> detector_target event \<in> set child_states"
  by auto

text \<open>Where an allowed event can lead: the table read column by column.\<close>

lemma Transition_to_other: "Transition (SessionOther v) event c = (SessionOther v, False)"
  by (cases event) (simp_all add: Transition_def)

lemma Transition_known:
  assumes "Transition from event c = (to, True)"
  shows "known_state from" and "known_state to"
proof -
  show "known_state from" using assms by (cases "from") (simp_all add: Transition_to_other)
  show "known_state to"
    using assms classifyExit_state [of c] resume_target_state(1) [of c]
    by (cases "from"; cases event) (auto simp: Transition_def split: if_splits)
qed

lemma Transition_terminal:
  assumes "Transition from event c = (to, True)" and "session_terminal from"
  shows "to = from \<and> (event = EventStop \<or> event = EventStopSession)"
  using assms by (cases event) (auto simp: Transition_def session_terminal_def)

lemma Transition_to_stopped:
  assumes "Transition from event c = (SessionStopped, True)" and "from \<noteq> SessionStopped"
  shows "event = EventStop \<or> event = EventStartupTimeout \<or> event = EventRotationFailed
         \<or> event = EventUnexpectedExit \<and> validSupervisorStopReason (exitStopReason c)"
  using assms classifyExit_stopped [of c]
  by (cases "from"; cases event) (auto simp: Transition_def split: if_splits)

lemma Transition_to_failed:
  assumes "Transition from event c = (SessionFailed, True)" and "from \<noteq> SessionFailed"
  shows "from = SessionStarting \<and> event = EventStartupTimeout \<and> tc_Generation c < 2"
  using assms classifyExit_state [of c] resume_target_state(1) [of c]
  by (cases "from"; cases event) (auto simp: Transition_def split: if_splits)

lemma Transition_to_recovering:
  assumes "Transition from event c = (SessionRecovering, True)" and "from \<noteq> SessionRecovering"
  shows "event = EventUnexpectedExit \<and> from \<in> set (SessionStarting # child_states)
         \<and> fst (classifyExit c) = SessionRecovering"
  using assms classifyExit_state [of c] resume_target_state(1) [of c]
  by (cases "from"; cases event) (auto simp: Transition_def split: if_splits)

lemma Transition_stop:
  "known_state from \<Longrightarrow> Transition from EventStop c =
     (if session_terminal from then from else SessionStopped, True)"
  by (cases "from") (simp_all add: Transition_def session_terminal_def)

lemma TransitionWithError_None:
  "TransitionWithError from event c = (to, None) \<longleftrightarrow> Transition from event c = (to, True)"
  by (auto simp: TransitionWithError_def split: prod.splits bool.splits)

lemma TransitionWithError_Some:
  "TransitionWithError from event c = (to, Some e) \<Longrightarrow> to = from \<and> \<not> snd (Transition from event c)"
  by (auto simp: TransitionWithError_def split: prod.splits bool.splits)

text \<open>The three ways an application can end.\<close>

definition with_cli :: "managed_session \<Rightarrow> transition_context \<Rightarrow> transition_context" where
  "with_cli s c = (if tc_CLI c = CLIOther '''' then c\<lparr>tc_CLI := ms_CLI s\<rparr> else c)"

lemma with_cli_StopReason [simp]: "tc_StopReason (with_cli s c) = tc_StopReason c"
  by (simp add: with_cli_def)

lemma Apply_cases:
  assumes "Apply event c now s = (s', r)"
  obtains (unrelated) "event = EventResume" "s' = s\<lparr>ms_StopScope := StopScopeNone\<rparr>" "r = None"
  | (rejected) e where "r = Some e" "s' = s"
  | (missing) e where "r = Some e" "event = EventResume" "ms_State s = SessionStopped"
      "s' = s\<lparr>ms_StopReason := StopClaudeSessionIDMissing\<rparr>"
  | (allowed) to where "r = None" "Transition (ms_State s) event (with_cli s c) = (to, True)"
      "event = EventStop \<Longrightarrow> validSupervisorStopReason (tc_StopReason c) \<or> ms_State s = SessionStopped"
      "s' = record_event_effect (ms_State s) event (with_cli s c) to (enter_state to now s)"
proof (cases "event = EventResume \<and> tc_ResumeScope (with_cli s c) = StopScopeGlobal
    \<and> (ms_StopScope s \<noteq> StopScopeGlobal \<or> ms_StopReason s \<noteq> StopGlobal)")
  case True
  with assms have "s' = s\<lparr>ms_StopScope := StopScopeNone\<rparr>" "r = None"
    by (auto simp: Apply_def with_cli_def Let_def)
  with True that(1) show ?thesis by blast
next
  case no_global: False
  obtain to terr where t: "TransitionWithError (ms_State s) event (with_cli s c) = (to, terr)" by fastforce
  note body = assms [unfolded Apply_def Let_def with_cli_def [symmetric] if_not_P [OF no_global] t prod.case]
  show ?thesis
  proof (cases "event = EventStop \<and> \<not> validSupervisorStopReason (tc_StopReason c)
      \<and> (ms_State s \<noteq> SessionStopped \<or> tc_StopReason c \<noteq> no_stop)")
    case True
    with body have "s' = s" "\<exists>e. r = Some e" by (auto split: if_splits)
    with that(2) show ?thesis by blast
  next
    case False
    then have guards: "\<not> (event = EventStop \<and> ms_State s \<noteq> SessionStopped \<and> tc_StopReason (with_cli s c) = no_stop)"
      "\<not> (event = EventStop \<and> tc_StopReason (with_cli s c) \<noteq> no_stop
          \<and> \<not> validSupervisorStopReason (tc_StopReason (with_cli s c)))" by auto
    note rest = body [unfolded if_not_P [OF guards(1)] if_not_P [OF guards(2)]]
    show ?thesis
    proof (cases terr)
      case None
      with t have "Transition (ms_State s) event (with_cli s c) = (to, True)"
        by (simp add: TransitionWithError_None)
      moreover from rest None have "r = None"
        "s' = record_event_effect (ms_State s) event (with_cli s c) to (enter_state to now s)" by auto
      ultimately show ?thesis using that(4) False by auto
    next
      case (Some e)
      with rest have "\<exists>e. r = Some e" "s' = s \<or> ms_State s = SessionStopped \<and> event = EventResume
          \<and> s' = s\<lparr>ms_StopReason := StopClaudeSessionIDMissing\<rparr>"
        by (auto split: if_splits)
      with that(2,3) show ?thesis by blast
    qed
  qed
qed

section \<open>What an application changes\<close>

lemma record_stop_scope_simps [simp]:
  "ms_State (record_stop_scope r s) = ms_State s"
  "ms_StopReason (record_stop_scope r s) = ms_StopReason s"
  "ms_ExitReason (record_stop_scope r s) = ms_ExitReason s"
  by (simp_all add: record_stop_scope_def)

lemma enter_state_steps:
  "ms_State (change_state to now s) = to"
  "ms_StopReason (change_state to now s) = ms_StopReason s"
  "ms_StopScope (change_state to now s) = ms_StopScope s"
  "ms_ExitReason (change_state to now s) = ms_ExitReason s"
  "ms_State (leave_stopped p to s) = ms_State s"
  "ms_StopReason (leave_stopped p to s) = (if p = SessionStopped \<and> to \<noteq> SessionStopped then no_stop else ms_StopReason s)"
  "ms_StopScope (leave_stopped p to s) = (if p = SessionStopped \<and> to \<noteq> SessionStopped then StopScopeNone else ms_StopScope s)"
  "ms_ExitReason (leave_stopped p to s) = ms_ExitReason s"
  "ms_State (reach_exited p to s) = ms_State s"
  "ms_StopReason (reach_exited p to s) = (if to = SessionExited \<and> p \<noteq> SessionExited then no_stop else ms_StopReason s)"
  "ms_StopScope (reach_exited p to s) = (if to = SessionExited \<and> p \<noteq> SessionExited then StopScopeNone else ms_StopScope s)"
  "ms_ExitReason (reach_exited p to s) = ms_ExitReason s"
  "ms_State (reach_stopped p to s) = ms_State s"
  "ms_StopReason (reach_stopped p to s) = ms_StopReason s"
  "ms_StopScope (reach_stopped p to s) = ms_StopScope s"
  "ms_ExitReason (reach_stopped p to s) = ms_ExitReason s"
  by (simp_all add: change_state_def leave_stopped_def reach_exited_def reach_stopped_def)

lemma enter_state_simps [simp]:
  "ms_State (enter_state to now s) = to"
  "ms_ExitReason (enter_state to now s) = ms_ExitReason s"
  "ms_StopReason (enter_state to now s) =
     (if to = SessionExited \<and> ms_State s \<noteq> SessionExited then no_stop
      else if ms_State s = SessionStopped \<and> to \<noteq> SessionStopped then no_stop else ms_StopReason s)"
  "ms_StopScope (enter_state to now s) =
     (if to = SessionExited \<and> ms_State s \<noteq> SessionExited then StopScopeNone
      else if ms_State s = SessionStopped \<and> to \<noteq> SessionStopped then StopScopeNone else ms_StopScope s)"
  unfolding enter_state_def Let_def enter_state_steps by (rule refl)+

lemma enter_state_same [simp]: "enter_state (ms_State s) now s = s"
  by (simp add: enter_state_def change_state_def leave_stopped_def reach_exited_def reach_stopped_def Let_def)

lemma record_event_effect_State [simp]:
  "ms_State (record_event_effect previous event c to s) = ms_State s"
  by (cases event) (simp_all add: record_event_effect_def record_stop_def)

lemma record_event_effect_StopReason:
  "ms_StopReason (record_event_effect previous event c to s) =
     (if to \<noteq> SessionStopped then ms_StopReason s
      else if event = EventRotationFailed then StopRotateStepFailed
      else if event = EventStartupTimeout then StopRecoveryStartTimeout
      else if event = EventUnexpectedExit \<and> previous \<noteq> SessionStopped then exitStopReason c
      else if event = EventStop \<and> previous \<noteq> SessionStopped \<and> \<not> session_terminal previous
        then tc_StopReason c
      else ms_StopReason s)"
  by (cases event) (simp_all add: record_event_effect_def record_stop_def session_terminal_def)

lemma record_event_effect_StopScope:
  "ms_StopScope (record_event_effect previous event c to s) \<noteq> ms_StopScope s
     \<Longrightarrow> to = SessionStopped \<or> session_terminal to"
  by (cases event) (simp_all add: record_event_effect_def session_terminal_def split: if_splits)

lemma record_event_effect_ExitReason:
  "ms_ExitReason (record_event_effect previous event c to s) =
     (if event = EventStopSession \<and> to = SessionExited \<and> previous \<noteq> SessionExited \<and> previous \<noteq> SessionFailed
      then ExitStopSessionRequested else ms_ExitReason s)"
  by (cases event) (simp_all add: record_event_effect_def record_stop_def)

section \<open>The invariant of a session\<close>

definition session_inv :: "managed_session \<Rightarrow> bool" where
  "session_inv s \<longleftrightarrow>
     known_state (ms_State s)
     \<and> (if ms_State s = SessionStopped then validSupervisorStopReason (ms_StopReason s)
        else ms_StopReason s = no_stop)
     \<and> (ms_StopScope s \<noteq> StopScopeNone \<longrightarrow> ms_State s = SessionStopped \<or> session_terminal (ms_State s))
     \<and> (ms_ExitReason s = ExitStopSessionRequested \<longrightarrow> ms_State s = SessionExited)"

lemma allowed_StopReason:
  assumes "session_inv s" and "Transition (ms_State s) event c = (to, True)"
    and "event = EventStop \<Longrightarrow> validSupervisorStopReason (tc_StopReason c) \<or> ms_State s = SessionStopped"
  shows "if to = SessionStopped
         then validSupervisorStopReason (ms_StopReason (record_event_effect (ms_State s) event c to (enter_state to now s)))
         else ms_StopReason (record_event_effect (ms_State s) event c to (enter_state to now s)) = no_stop"
proof (cases "to = SessionStopped")
  case True
  show ?thesis
  proof (cases "ms_State s = SessionStopped")
    case stopped: True
    with assms(1) have "validSupervisorStopReason (ms_StopReason s)" by (simp add: session_inv_def)
    with stopped True show ?thesis by (simp add: record_event_effect_StopReason)
  next
    case False
    with Transition_to_stopped [of "ms_State s" event c] assms(2) True
      Transition_terminal [OF assms(2)] assms(3)
    show ?thesis by (auto simp: record_event_effect_StopReason)
  qed
next
  case False
  with assms(1) show ?thesis by (auto simp: record_event_effect_StopReason session_inv_def split: if_splits)
qed

lemma allowed_preserves_inv:
  assumes "session_inv s" and "Transition (ms_State s) event c = (to, True)"
    and "event = EventStop \<Longrightarrow> validSupervisorStopReason (tc_StopReason c) \<or> ms_State s = SessionStopped"
  shows "session_inv (record_event_effect (ms_State s) event c to (enter_state to now s))"
    (is "session_inv ?s'")
proof -
  note absorbing = Transition_terminal [OF assms(2)]
  have scope: "to = SessionStopped \<or> session_terminal to" if "ms_StopScope ?s' \<noteq> StopScopeNone"
  proof (cases "ms_StopScope ?s' = ms_StopScope (enter_state to now s)")
    case True
    with that have "ms_StopScope s \<noteq> StopScopeNone" "ms_State s = SessionStopped \<longrightarrow> to = SessionStopped"
      by (auto split: if_splits)
    with assms(1) absorbing show ?thesis by (auto simp: session_inv_def)
  next
    case False
    then show ?thesis by (rule record_event_effect_StopScope)
  qed
  have exit: "to = SessionExited" if "ms_ExitReason ?s' = ExitStopSessionRequested"
    using that assms(1) absorbing by (auto simp: record_event_effect_ExitReason session_inv_def
        session_terminal_def split: if_splits)
  show ?thesis
    using Transition_known(2) [OF assms(2)] allowed_StopReason [OF assms, where now = now] scope exit
    by (simp add: session_inv_def)
qed

lemma Apply_preserves_inv:
  assumes "session_inv s" and "Apply event c now s = (s', r)"
  shows "session_inv s'"
  using assms(2)
proof (cases rule: Apply_cases)
  case (allowed to)
  then show ?thesis using allowed_preserves_inv [OF assms(1)] by simp
qed (use assms(1) in \<open>auto simp: session_inv_def\<close>)

text \<open>A history of the session: the events the supervisor applies, each with its context and its time.\<close>

type_synonym session_input = "sup_event \<times> transition_context \<times> go_time"

fun run_session :: "session_input list \<Rightarrow> managed_session \<Rightarrow> managed_session" where
  "run_session [] s = s"
| "run_session ((event, c, now) # rest) s = run_session rest (fst (Apply event c now s))"

lemma run_session_invariant:
  assumes "\<And>event c now s s' r. \<lbrakk>P s; event \<in> E; Apply event c now s = (s', r)\<rbrakk> \<Longrightarrow> P s'"
    and "P s" and "fst ` set inputs \<subseteq> E"
  shows "P (run_session inputs s)"
  using assms(2,3)
proof (induction inputs s rule: run_session.induct)
  case (2 event c now rest s)
  then have "P (fst (Apply event c now s))" using assms(1) by (metis fst_conv image_eqI list.set_intros(1) prod.collapse subsetD)
  with 2 show ?case by simp
qed simp

definition fresh_session :: managed_session where
  "fresh_session =
     \<lparr>ms_GitPhase = ''none'', ms_SchemaVersion = 1, ms_SessionID = SessionID ''proj-1'', ms_ProjectID = ''proj'',
      ms_CLI = CLIClaude, ms_Generation = 1, ms_State = SessionStarting, ms_StateSince = 1,
      ms_StopScope = StopScopeNone, ms_StopReason = no_stop, ms_ExitReason = ExitOther '''',
      ms_ClaudeSessionID = '''', ms_PreviousClaudeSessionID = '''', ms_ChildPID = 0, ms_ChildStartedAt = None,
      ms_SendGate = \<lparr>sg_NextSeq = 1, sg_EverSent = False, sg_LastSendConfirmed = False,
        sg_LastConfirmedAt = None, sg_UnconfirmedDiscarded = False, sg_Pending = None\<rparr>,
      ms_LastSend = None, ms_RestartCount = 0, ms_RestartTimes = [], ms_Rotation = None,
      ms_AutoContinueDisabledReason = '''', ms_PendingRemoteControl = False, ms_RemoteControlConfirmed = False,
      ms_PendingRemoteControlSince = None, ms_PreviousState = SessionOther '''',
      ms_LastVerifiedFingerprint = '''', ms_LastVerifiedResult = '''', ms_LastFailureFingerprint = '''',
      ms_LastFailureReason = '''', ms_LastPushFailedHead = '''', ms_GitConfigFingerprint = ''''\<rparr>"

lemma fresh_session_inv [wf_intros]: "session_inv fresh_session"
  by (simp add: session_inv_def fresh_session_def)

section \<open>Properties of the session\<close>

text \<open>
  C23: whatever events the supervisor applies, in whatever contexts, the session stays consistent: its
  state is one of the ten known ones, it carries a known stop reason exactly while it is stopped, a stop
  scope only while stopped or ended, and the exit reason only once exited.
\<close>

theorem session_consistent:
  assumes "session_inv s"
  shows "session_inv (run_session inputs s)"
  by (rule run_session_invariant [where E = UNIV]) (use assms Apply_preserves_inv in auto)

definition sample_inputs :: "session_input list" where
  "sample_inputs =
     [(EventDetectorIdle, default_context, 2),
      (EventUnexpectedExit, default_context\<lparr>tc_ExitCode := 1, tc_ClaudeSessionID := True\<rparr>, 3),
      (EventRecoveryWaitDone, default_context, 4),
      (EventStop, default_context\<lparr>tc_StopReason := StopGlobal\<rparr>, 5)]"

theorem session_consistent_witness:
  "session_inv fresh_session \<and> session_inv (run_session sample_inputs fresh_session)
   \<and> ms_State (run_session sample_inputs fresh_session) = SessionStopped"
  by (intro conjI session_consistent fresh_session_inv) code_simp

lemma Apply_terminal:
  assumes "session_terminal (ms_State s)" and "Apply event c now s = (s', r)"
  shows "s' = s\<lparr>ms_StopScope := ms_StopScope s'\<rparr>"
  using assms(2)
proof (cases rule: Apply_cases)
  case (allowed to)
  from Transition_terminal [OF allowed(2) assms(1)]
  have to: "to = ms_State s" "event = EventStop \<or> event = EventStopSession" by auto
  with assms(1) allowed(4) show ?thesis
    by (auto simp: session_terminal_def record_event_effect_def record_stop_scope_def)
qed (use assms in \<open>auto simp: session_terminal_def\<close>)

text \<open>
  An exited or failed session is final: no sequence of events changes any of its fields, except that
  a stop or a resume of the whole supervisor still records its scope.
\<close>

theorem ended_session_final:
  assumes "session_terminal (ms_State s)"
  shows "run_session inputs s = s\<lparr>ms_StopScope := ms_StopScope (run_session inputs s)\<rparr>"
proof (rule run_session_invariant [where E = UNIV and P = "\<lambda>s'. s' = s\<lparr>ms_StopScope := ms_StopScope s'\<rparr>"])
  fix event c now s1 s2 r
  assume s1: "s1 = s\<lparr>ms_StopScope := ms_StopScope s1\<rparr>" and "Apply event c now s1 = (s2, r)"
  from s1 assms have "session_terminal (ms_State s1)"
    by (metis managed_session.select_convs(7) managed_session.simps(40) managed_session.surjective managed_session.update_convs(9))
  from Apply_terminal [OF this \<open>Apply event c now s1 = (s2, r)\<close>] s1
  show "s2 = s\<lparr>ms_StopScope := ms_StopScope s2\<rparr>"
    by (metis managed_session.surjective managed_session.update_convs(9))
qed auto

theorem ended_session_final_witness:
  "let s = fresh_session\<lparr>ms_State := SessionFailed\<rparr>
   in session_terminal (ms_State s)
      \<and> run_session sample_inputs s = s\<lparr>ms_StopScope := ms_StopScope (run_session sample_inputs s)\<rparr>
      \<and> ms_StopScope (run_session sample_inputs s) = StopScopeGlobal"
proof -
  have "session_terminal (ms_State (fresh_session\<lparr>ms_State := SessionFailed\<rparr>))"
    by (simp add: session_terminal_def)
  moreover have "ms_StopScope (run_session sample_inputs (fresh_session\<lparr>ms_State := SessionFailed\<rparr>)) = StopScopeGlobal"
    by code_simp
  ultimately show ?thesis
    unfolding Let_def by (intro conjI ended_session_final)
qed

definition send_dead :: "managed_session \<Rightarrow> bool" where
  "send_dead s \<longleftrightarrow> ms_State s = SessionStopped \<or> session_terminal (ms_State s)"

lemma send_dead_gate: "send_dead s \<Longrightarrow> CheckSendGate s observed kind stopped fixed fresh origins = Some SendBlockedState"
  unfolding send_dead_def session_terminal_def by (elim disjE) (simp_all add: CheckSendGate_def)

lemma Transition_from_stopped:
  "\<lbrakk>Transition SessionStopped event c = (to, True); event \<noteq> EventResume\<rbrakk>
     \<Longrightarrow> to = SessionStopped \<or> to = SessionExited"
  by (cases event) (auto simp: Transition_def)

lemma Apply_send_dead:
  assumes "send_dead s" and "event \<noteq> EventResume" and "Apply event c now s = (s', r)"
  shows "send_dead s'"
  using assms(3)
proof (cases rule: Apply_cases)
  case (allowed to)
  then have "ms_State s' = to" by simp
  with assms(1,2) Transition_terminal [OF allowed(2)] Transition_from_stopped [of event "with_cli s c" to] allowed(2)
  show ?thesis by (auto simp: send_dead_def session_terminal_def)
qed (use assms in auto)

lemma Apply_stop:
  assumes "known_state (ms_State s)" and "\<not> session_terminal (ms_State s)"
    and "validSupervisorStopReason (tc_StopReason c)"
  shows "snd (Apply EventStop c now s) = None \<and> ms_State (fst (Apply EventStop c now s)) = SessionStopped
    \<and> ms_StopReason (fst (Apply EventStop c now s)) =
        (if ms_State s = SessionStopped then ms_StopReason s else tc_StopReason c)"
proof -
  have valid: "tc_StopReason c \<noteq> no_stop" using assms(3) by auto
  have t: "TransitionWithError (ms_State s) EventStop (with_cli s c) = (SessionStopped, None)"
    using assms(1,2) by (simp add: TransitionWithError_None Transition_stop)
  have "Apply EventStop c now s =
      (record_event_effect (ms_State s) EventStop (with_cli s c) SessionStopped (enter_state SessionStopped now s), None)"
    unfolding Apply_def Let_def with_cli_def [symmetric] t using assms(3) valid by simp
  with assms(2) show ?thesis by (simp add: record_event_effect_StopReason session_terminal_def)
qed

text \<open>
  A stop with a known reason always takes effect on a live session, and from then on nothing is sent:
  after any further events other than a resume, the send gate refuses every kind of text from every
  origin.
\<close>

theorem stop_blocks_sends:
  assumes "known_state (ms_State s)" and "\<not> session_terminal (ms_State s)"
    and "validSupervisorStopReason (tc_StopReason c)" and "EventResume \<notin> fst ` set inputs"
  shows "\<exists>s'. Apply EventStop c now s = (s', None) \<and> ms_State s' = SessionStopped
    \<and> (ms_State s \<noteq> SessionStopped \<longrightarrow> ms_StopReason s' = tc_StopReason c)
    \<and> (\<forall>observed kind stopped fixed fresh origins.
         CheckSendGate (run_session inputs s') observed kind stopped fixed fresh origins = Some SendBlockedState)"
proof -
  obtain s' where s': "Apply EventStop c now s = (s', None)" "ms_State s' = SessionStopped"
    "ms_State s \<noteq> SessionStopped \<longrightarrow> ms_StopReason s' = tc_StopReason c"
    using Apply_stop [OF assms(1-3), where now = now] by (cases "Apply EventStop c now s") auto
  have "send_dead (run_session inputs s')"
    by (rule run_session_invariant [where E = "- {EventResume}"])
       (use Apply_send_dead s'(2) assms(4) in \<open>auto simp: send_dead_def\<close>)
  with s' send_dead_gate show ?thesis by blast
qed

theorem stop_blocks_sends_witness:
  "\<exists>s'. Apply EventStop (default_context\<lparr>tc_StopReason := StopSession\<rparr>) 9 fresh_session = (s', None)
    \<and> ms_State s' = SessionStopped
    \<and> (ms_State fresh_session \<noteq> SessionStopped
         \<longrightarrow> ms_StopReason s' = tc_StopReason (default_context\<lparr>tc_StopReason := StopSession\<rparr>))
    \<and> (\<forall>observed kind stopped fixed fresh origins.
         CheckSendGate (run_session sample_inputs s') observed kind stopped fixed fresh origins
           = Some SendBlockedState)"
  by (rule stop_blocks_sends) (simp_all add: fresh_session_def session_terminal_def sample_inputs_def)

text \<open>
  A session enters automatic recovery only after an unexpected, failed exit of a resumable Claude
  session while no send is in flight, and only below both restart limits.
\<close>

theorem recovery_entered_only_when_safe:
  assumes "Apply event c now s = (s', r)" and "ms_State s' = SessionRecovering"
    and "ms_State s \<noteq> SessionRecovering"
  shows "r = None \<and> event = EventUnexpectedExit \<and> ms_State s \<in> set (SessionStarting # child_states)
    \<and> \<not> tc_HasPendingSend c \<and> tc_ExitCode c \<noteq> 0 \<and> tc_CLI (with_cli s c) \<noteq> CLICodex
    \<and> tc_ClaudeSessionID c \<and> tc_RestartCount c < RestartMaxCount \<and> tc_DailyRestartCount c < RestartMaxPerDay"
  using assms(1)
proof (cases rule: Apply_cases)
  case (allowed to)
  with assms(2) have "to = SessionRecovering" by simp
  with Transition_to_recovering [of "ms_State s" event "with_cli s c"] allowed(1,2) assms(3)
  show ?thesis
    by (auto simp: classifyExit_recovering with_cli_def RestartMaxCount_def RestartMaxPerDay_def
        split: if_splits)
qed (use assms(2,3) in auto)

definition crash_context :: transition_context where
  "crash_context = default_context\<lparr>tc_ExitCode := 1, tc_ClaudeSessionID := True, tc_RestartCount := 2\<rparr>"

theorem recovery_entered_only_when_safe_witness:
  "ms_State (fst (Apply EventUnexpectedExit crash_context 7 fresh_session)) = SessionRecovering
   \<and> tc_RestartCount crash_context < RestartMaxCount"
proof
  show s: "ms_State (fst (Apply EventUnexpectedExit crash_context 7 fresh_session)) = SessionRecovering"
    by code_simp
  have "Apply EventUnexpectedExit crash_context 7 fresh_session =
      (fst (Apply EventUnexpectedExit crash_context 7 fresh_session), snd (Apply EventUnexpectedExit crash_context 7 fresh_session))"
    by simp
  from recovery_entered_only_when_safe [OF this s]
  show "tc_RestartCount crash_context < RestartMaxCount" by (simp add: fresh_session_def)
qed

text \<open>
  An application that reports an error leaves the session as it was. The single exception is a
  resume refused for want of a Claude session ID, which records that as the stop reason of the session
  that stays stopped.
\<close>

theorem Apply_error_unchanged:
  assumes "Apply event c now s = (s', Some e)"
  shows "s' = s \<or> event = EventResume \<and> ms_State s = SessionStopped
           \<and> s' = s\<lparr>ms_StopReason := StopClaudeSessionIDMissing\<rparr>"
  using assms by (cases rule: Apply_cases) auto

theorem Apply_error_unchanged_witness:
  "let s = fresh_session\<lparr>ms_State := SessionStopped, ms_StopReason := StopSendAborted\<rparr>;
       s' = fst (Apply EventResume default_context 8 s)
   in snd (Apply EventResume default_context 8 s) = Some (TransitionError ''SUP_CLAUDE_SESSION_ID_MISSING'')
      \<and> (s' = s \<or> EventResume = EventResume \<and> ms_State s = SessionStopped
                   \<and> s' = s\<lparr>ms_StopReason := StopClaudeSessionIDMissing\<rparr>)"
proof -
  let ?s = "fresh_session\<lparr>ms_State := SessionStopped, ms_StopReason := StopSendAborted\<rparr>"
  have e: "snd (Apply EventResume default_context 8 ?s) = Some (TransitionError ''SUP_CLAUDE_SESSION_ID_MISSING'')"
    by code_simp
  then have "Apply EventResume default_context 8 ?s =
      (fst (Apply EventResume default_context 8 ?s), Some (TransitionError ''SUP_CLAUDE_SESSION_ID_MISSING''))"
    by (metis prod.collapse)
  from Apply_error_unchanged [OF this] e show ?thesis unfolding Let_def by blast
qed

section \<open>Restart budget\<close>

lemma backoff_loop_min:
  "min RestartBackoffMax (backoff_loop n d) = min RestartBackoffMax (d * 2 ^ n)" if "0 < d" for d
  using that
proof (induction n arbitrary: d)
  case (Suc n)
  show ?case
  proof (cases "d < RestartBackoffMax")
    case True
    with Suc.IH [of "d * 2"] Suc.prems show ?thesis by (simp add: mult_ac)
  next
    case False
    have "(1::int) \<le> 2 ^ Suc n" by (rule one_le_power) simp
    then have "d * 1 \<le> d * 2 ^ Suc n" using Suc.prems by (intro mult_left_mono) auto
    with False show ?thesis by simp
  qed
qed simp

text \<open>
  The delay before the restart number \<open>count\<close> is ten seconds doubled for each earlier restart and
  capped at five minutes.
\<close>

theorem RestartBackoff_closed_form:
  "RestartBackoff count = min (300 * go_second) (10 * go_second * 2 ^ nat count)"
proof -
  have "RestartBackoff count = min RestartBackoffMax (backoff_loop (nat count) RestartBackoffBase)"
    by (simp add: RestartBackoff_def Let_def min_def)
  also have "\<dots> = min RestartBackoffMax (RestartBackoffBase * 2 ^ nat count)"
    by (rule backoff_loop_min) (simp add: RestartBackoffBase_def go_second_def)
  finally show ?thesis by (simp add: RestartBackoffMax_def RestartBackoffBase_def)
qed

lemma RestartCountInWindow_filter:
  "RestartCountInWindow ts now = int (length (filter (\<lambda>at. now - RestartWindow \<le> at \<and> at \<le> now) ts))"
proof -
  have "foldl (\<lambda>count at. if \<not> at < now - RestartWindow \<and> \<not> at > now then count + 1 else count) n ts
      = n + int (length (filter (\<lambda>at. now - RestartWindow \<le> at \<and> at \<le> now) ts))" for n
    by (induction ts arbitrary: n) (auto simp: not_less)
  then show ?thesis by (simp add: RestartCountInWindow_def Let_def)
qed

text \<open>
  The restart budget is free exactly when fewer than three consecutive restarts have happened and
  fewer than ten of the recorded restarts lie in the 24 hours up to now; otherwise the reason names the
  limit that was hit, the consecutive one first.
\<close>

theorem RestartLimitReason_spec:
  "RestartLimitReason count ts now =
     (if 3 \<le> count then StopRestartLimitConsecutive
      else if 10 \<le> card {i. i < length ts \<and> now - RestartWindow \<le> ts ! i \<and> ts ! i \<le> now}
        then StopRestartLimitDaily
      else no_stop)"
  by (simp add: RestartLimitReason_def RestartLimitCounts_def RestartCountInWindow_filter
      RestartMaxCount_def RestartMaxPerDay_def length_filter_conv_card)

section \<open>The gate\<close>

text \<open>
  The gate lets a text pass exactly when the stop flag is down, no send is pending, the last send
  was confirmed (or a discarded one has been followed by a fresh screen), the text is one of the fixed
  ones, and the session and the observed screen are both ready for that kind: idle, awaiting a
  recommendation, or in a handoff that itself issues the send.
\<close>

theorem CheckSendGate_passes:
  "CheckSendGate s observed kind stopped fixed fresh origins = None \<longleftrightarrow>
     \<not> stopped \<and> fixed \<and> sg_Pending (ms_SendGate s) = None
     \<and> (if sg_UnconfirmedDiscarded (ms_SendGate s) then fresh
        else sg_EverSent (ms_SendGate s) \<longrightarrow> sg_LastSendConfirmed (ms_SendGate s))
     \<and> (if kind = SendKindOperatorInput then ms_State s = SessionIdle \<and> observed = SessionIdle
        else (ms_State s = SessionIdle \<or> ms_State s = SessionAwaitingRecommendation
              \<or> ms_State s = SessionRotating \<and> (\<exists>rest. origins = SendOriginHandoff # rest)
                 \<and> kind \<noteq> SendKindRecommendationContinue)
             \<and> (observed = SessionIdle
                \<or> observed = SessionAwaitingRecommendation
                   \<and> kind \<in> {SendKindRecommendationContinue, SendKindHandoffEnd, SendKindRemoteControl}))"
proof -
  have origin: "handoff_origin origins \<longleftrightarrow> (\<exists>rest. origins = SendOriginHandoff # rest)"
    by (cases origins) (auto simp: handoff_origin_def)
  show ?thesis
    unfolding CheckSendGate_def SendKindAllowed_def origin
    by (cases "ms_State s"; cases observed) simp_all
qed

theorem CheckSendGate_passes_witness:
  "let s = fresh_session\<lparr>ms_State := SessionIdle\<rparr>
   in CheckSendGate s SessionIdle SendKindHandoffEnd False True False [] = None"
  unfolding Let_def CheckSendGate_passes by (simp add: fresh_session_def)

text \<open>
  The validating recorder accepts exactly the declared event kinds: the switch of
  \<open>ValidSupervisorEventKind\<close> covers every constant, each constant is a different string, and an event
  of any other kind never reaches the wrapped recorder.
\<close>

theorem RecordEvent_known_kinds:
  "distinct supervisor_event_kinds \<and>
   RecordEvent inner sid kind stop exit failure at r =
     (if kind \<in> set supervisor_event_kinds then (inner sid kind stop exit failure at r, None)
      else (r, Some (ErrText ''invalid supervisor event kind'')))"
proof
  show "distinct supervisor_event_kinds" by code_simp
  have "list_all ValidSupervisorEventKind supervisor_event_kinds" by code_simp
  moreover have "{k. ValidSupervisorEventKind k} \<subseteq> set supervisor_event_kinds"
    unfolding ValidSupervisorEventKind_def Collect_mem_eq by code_simp
  ultimately have "ValidSupervisorEventKind kind \<longleftrightarrow> kind \<in> set supervisor_event_kinds"
    by (auto simp: list_all_iff)
  then show "RecordEvent inner sid kind stop exit failure at r =
     (if kind \<in> set supervisor_event_kinds then (inner sid kind stop exit failure at r, None)
      else (r, Some (ErrText ''invalid supervisor event kind'')))"
    by (simp add: RecordEvent_def)
qed

end
