(* ===== verification/Text_Policy.thy ===== *)
theory Text_Policy
  imports Prelude
begin

text \<open>
  Display widths, from \<^verbatim>\<open>internal/supervisor/textpolicy/east_asian_width.go\<close>: the width of a rune
  in terminal columns, and the binary search over the table of wide ranges that decides it.

  The tables of combining marks in Go's package \<^verbatim>\<open>unicode\<close> (\<open>Mn\<close> and \<open>Me\<close>) are data of the
  standard library; the predicate \<open>mark\<close> that stands for them is an argument of \<open>RuneWidth\<close>.
\<close>

section \<open>The table of wide ranges\<close>

text \<open>\<open>wideRanges\<close>: the pairs of first and last rune, in the order of the table.\<close>

definition wideRanges :: "(rune \<times> rune) list" where
  "wideRanges = [
    (4352, 4447), (8986, 8987), (9001, 9001), (9002, 9002), (9193, 9196), (9200, 9200),
    (9203, 9203), (9725, 9726), (9748, 9749), (9800, 9811), (9855, 9855), (9875, 9875),
    (9889, 9889), (9898, 9899), (9917, 9918), (9924, 9925), (9934, 9934), (9940, 9940),
    (9962, 9962), (9970, 9971), (9973, 9973), (9978, 9978), (9981, 9981), (9989, 9989),
    (9994, 9995), (10024, 10024), (10060, 10060), (10062, 10062), (10067, 10069), (10071, 10071),
    (10133, 10135), (10160, 10160), (10175, 10175), (11035, 11036), (11088, 11088),
    (11093, 11093), (11904, 11929), (11931, 12019), (12032, 12245), (12272, 12287),
    (12288, 12288), (12289, 12291), (12292, 12292), (12293, 12293), (12294, 12294),
    (12295, 12295), (12296, 12296), (12297, 12297), (12298, 12298), (12299, 12299),
    (12300, 12300), (12301, 12301), (12302, 12302), (12303, 12303), (12304, 12304),
    (12305, 12305), (12306, 12307), (12308, 12308), (12309, 12309), (12310, 12310),
    (12311, 12311), (12312, 12312), (12313, 12313), (12314, 12314), (12315, 12315),
    (12316, 12316), (12317, 12317), (12318, 12319), (12320, 12320), (12321, 12329),
    (12330, 12333), (12334, 12335), (12336, 12336), (12337, 12341), (12342, 12343),
    (12344, 12346), (12347, 12347), (12348, 12348), (12349, 12349), (12350, 12350),
    (12353, 12438), (12441, 12442), (12443, 12444), (12445, 12446), (12447, 12447),
    (12448, 12448), (12449, 12538), (12539, 12539), (12540, 12542), (12543, 12543),
    (12549, 12591), (12593, 12686), (12688, 12689), (12690, 12693), (12694, 12703),
    (12704, 12735), (12736, 12771), (12783, 12783), (12784, 12799), (12800, 12830),
    (12832, 12841), (12842, 12871), (12880, 12880), (12881, 12895), (12896, 12927),
    (12928, 12937), (12938, 12976), (12977, 12991), (12992, 13055), (13056, 13311),
    (13312, 19903), (19968, 40959), (40960, 40980), (40981, 40981), (40982, 42124),
    (42128, 42182), (43360, 43388), (44032, 55203), (63744, 64109), (64110, 64111),
    (64112, 64217), (64218, 64255), (65040, 65046), (65047, 65047), (65048, 65048),
    (65049, 65049), (65072, 65072), (65073, 65074), (65075, 65076), (65077, 65077),
    (65078, 65078), (65079, 65079), (65080, 65080), (65081, 65081), (65082, 65082),
    (65083, 65083), (65084, 65084), (65085, 65085), (65086, 65086), (65087, 65087),
    (65088, 65088), (65089, 65089), (65090, 65090), (65091, 65091), (65092, 65092),
    (65093, 65094), (65095, 65095), (65096, 65096), (65097, 65100), (65101, 65103),
    (65104, 65106), (65108, 65111), (65112, 65112), (65113, 65113), (65114, 65114),
    (65115, 65115), (65116, 65116), (65117, 65117), (65118, 65118), (65119, 65121),
    (65122, 65122), (65123, 65123), (65124, 65126), (65128, 65128), (65129, 65129),
    (65130, 65131), (65281, 65283), (65284, 65284), (65285, 65287), (65288, 65288),
    (65289, 65289), (65290, 65290), (65291, 65291), (65292, 65292), (65293, 65293),
    (65294, 65295), (65296, 65305), (65306, 65307), (65308, 65310), (65311, 65312),
    (65313, 65338), (65339, 65339), (65340, 65340), (65341, 65341), (65342, 65342),
    (65343, 65343), (65344, 65344), (65345, 65370), (65371, 65371), (65372, 65372),
    (65373, 65373), (65374, 65374), (65375, 65375), (65376, 65376), (65504, 65505),
    (65506, 65506), (65507, 65507), (65508, 65508), (65509, 65510), (94176, 94177),
    (94178, 94178), (94179, 94179), (94180, 94180), (94192, 94193), (94208, 100343),
    (100352, 101119), (101120, 101589), (101632, 101640), (110576, 110579), (110581, 110587),
    (110589, 110590), (110592, 110847), (110848, 110882), (110898, 110898), (110928, 110930),
    (110933, 110933), (110948, 110951), (110960, 111355), (126980, 126980), (127183, 127183),
    (127374, 127374), (127377, 127386), (127488, 127490), (127504, 127547), (127552, 127560),
    (127568, 127569), (127584, 127589), (127744, 127776), (127789, 127797), (127799, 127868),
    (127870, 127891), (127904, 127946), (127951, 127955), (127968, 127984), (127988, 127988),
    (127992, 127994), (127995, 127999), (128000, 128062), (128064, 128064), (128066, 128252),
    (128255, 128317), (128331, 128334), (128336, 128359), (128378, 128378), (128405, 128406),
    (128420, 128420), (128507, 128511), (128512, 128591), (128640, 128709), (128716, 128716),
    (128720, 128722), (128725, 128727), (128732, 128735), (128747, 128748), (128756, 128764),
    (128992, 129003), (129008, 129008), (129292, 129338), (129340, 129349), (129351, 129535),
    (129648, 129660), (129664, 129672), (129680, 129725), (129727, 129733), (129742, 129755),
    (129760, 129768), (129776, 129784), (131072, 173791), (173792, 173823), (173824, 177977),
    (177978, 177983), (177984, 178205), (178206, 178207), (178208, 183969), (183970, 183983),
    (183984, 191456), (191457, 191471), (191472, 192093), (192094, 194559), (194560, 195101),
    (195102, 195103), (195104, 196605), (196608, 201546), (201547, 201551), (201552, 205743),
    (205744, 262141)]"

section \<open>Widths\<close>

text \<open>
  The loop of \<open>isWide\<close>. An index outside the table is a panic of the program; the bounds are
  proved to keep the search inside.
\<close>

function search_wide :: "(rune \<times> rune) list \<Rightarrow> rune \<Rightarrow> nat \<Rightarrow> nat \<Rightarrow> nat outcome" where
  "search_wide table r lo hi =
     (if lo < hi then
        let mid = lo + (hi - lo) div 2
        in if mid < length table then
             (if snd (table ! mid) < r then search_wide table r (mid + 1) hi
              else search_wide table r lo mid)
           else Panic
      else Done lo)"
  by pat_completeness auto
termination
  by (relation "measure (\<lambda>(table, r, lo, hi). hi - lo)") auto

declare search_wide.simps [simp del]

definition wide_in :: "(rune \<times> rune) list \<Rightarrow> rune \<Rightarrow> bool outcome" where
  "wide_in table r =
     and_then (search_wide table r 0 (length table))
       (\<lambda>lo. Done (lo < length table \<and> fst (table ! lo) \<le> r))"

definition isWide :: "rune \<Rightarrow> bool outcome" where
  "isWide r = wide_in wideRanges r"

definition zero_width :: "(rune \<Rightarrow> bool) \<Rightarrow> rune \<Rightarrow> bool" where
  "zero_width mark r \<longleftrightarrow>
     mark r \<or> r = 0x200d \<or> r \<ge> 0xfe00 \<and> r \<le> 0xfe0f \<or> r \<ge> 0x1f3fb \<and> r \<le> 0x1f3ff"

definition RuneWidth :: "(rune \<Rightarrow> bool) \<Rightarrow> rune \<Rightarrow> int outcome" where
  "RuneWidth mark r =
     (if zero_width mark r then Done 0
      else and_then (isWide r) (\<lambda>wide. Done (if wide then 2 else 1)))"

fun DisplayWidth :: "(rune \<Rightarrow> bool) \<Rightarrow> rune list \<Rightarrow> int outcome" where
  "DisplayWidth mark [] = Done 0"
| "DisplayWidth mark (r # rs) =
     and_then (RuneWidth mark r) (\<lambda>w. and_then (DisplayWidth mark rs) (\<lambda>n. Done (w + n)))"

section \<open>The binary search is membership in the table\<close>

text \<open>The table lists disjoint ranges in increasing order.\<close>

definition ranges_sorted :: "(rune \<times> rune) list \<Rightarrow> bool" where
  "ranges_sorted table \<longleftrightarrow>
     list_all (\<lambda>p. fst p \<le> snd p) table \<and> sorted_wrt (\<lambda>p q. snd p < fst q) table"

fun ascending :: "rune \<Rightarrow> (rune \<times> rune) list \<Rightarrow> bool" where
  "ascending lo [] = True"
| "ascending lo ((a, b) # rest) = (lo < a \<and> a \<le> b \<and> ascending b rest)"

lemma ascending_sorted:
  "ascending lo table \<Longrightarrow> (\<forall>p \<in> set table. lo < fst p) \<and> ranges_sorted table"
  by (induction lo table rule: ascending.induct) (force simp: ranges_sorted_def)+

lemma ranges_sorted_last:
  assumes "ranges_sorted table" and "i < j" and "j < length table"
  shows "snd (table ! i) < fst (table ! j)" and "snd (table ! i) < snd (table ! j)"
proof -
  from assms show *: "snd (table ! i) < fst (table ! j)"
    unfolding ranges_sorted_def using sorted_wrt_nth_less [where P = "\<lambda>p q. snd p < fst q"] by blast
  from assms have "fst (table ! j) \<le> snd (table ! j)"
    by (auto simp: ranges_sorted_def list_all_length)
  with * show "snd (table ! i) < snd (table ! j)" by simp
qed

text \<open>The search finds the first range that ends at or after the rune.\<close>

lemma search_wide_first:
  assumes "ranges_sorted table" and "lo \<le> hi" and "hi \<le> length table"
    and "\<forall>i < lo. snd (table ! i) < r" and "\<forall>i. hi \<le> i \<and> i < length table \<longrightarrow> r \<le> snd (table ! i)"
  shows "\<exists>k. search_wide table r lo hi = Done k \<and> k \<le> length table
           \<and> (\<forall>i < k. snd (table ! i) < r) \<and> (\<forall>i. k \<le> i \<and> i < length table \<longrightarrow> r \<le> snd (table ! i))"
  using assms
proof (induction table r lo hi rule: search_wide.induct)
  case (1 table r lo hi)
  show ?case
  proof (cases "lo < hi")
    case False
    then have "search_wide table r lo hi = Done lo" by (simp add: search_wide.simps)
    with False "1.prems" show ?thesis by (intro exI [of _ lo]) auto
  next
    case True
    let ?mid = "lo + (hi - lo) div 2"
    from True have mid: "lo \<le> ?mid" "?mid < hi" by auto
    with "1.prems"(3) have len: "?mid < length table" by simp
    show ?thesis
    proof (cases "snd (table ! ?mid) < r")
      case below: True
      have "snd (table ! i) < r" if "i < ?mid + 1" for i
        using below ranges_sorted_last(2) [OF "1.prems"(1) _ len, of i] that
        by (cases "i = ?mid") auto
      with "1.IH"(1) [OF True refl len below] "1.prems" mid below True len show ?thesis
        by (simp add: search_wide.simps [of table r lo hi] Let_def)
    next
      case above: False
      have "\<forall>i. ?mid \<le> i \<and> i < length table \<longrightarrow> r \<le> snd (table ! i)"
        using above ranges_sorted_last(2) [OF "1.prems"(1), of ?mid]
        by (metis le_neq_implies_less not_less order.strict_trans1 less_imp_le)
      with "1.IH"(2) [OF True refl len above] "1.prems" mid above True len show ?thesis
        by (simp add: search_wide.simps [of table r lo hi] Let_def)
    qed
  qed
qed

lemma wide_in_iff:
  assumes "ranges_sorted table"
  shows "wide_in table r = Done (\<exists>(a, b) \<in> set table. a \<le> r \<and> r \<le> b)"
proof -
  from search_wide_first [OF assms, of 0 "length table" r] obtain k where
    k: "search_wide table r 0 (length table) = Done k" "k \<le> length table"
      "\<forall>i < k. snd (table ! i) < r" "\<forall>i. k \<le> i \<and> i < length table \<longrightarrow> r \<le> snd (table ! i)" by auto
  have "(k < length table \<and> fst (table ! k) \<le> r) \<longleftrightarrow> (\<exists>(a, b) \<in> set table. a \<le> r \<and> r \<le> b)"
  proof
    assume "k < length table \<and> fst (table ! k) \<le> r"
    with k(4) have "table ! k \<in> set table" "fst (table ! k) \<le> r" "r \<le> snd (table ! k)" by auto
    then show "\<exists>(a, b) \<in> set table. a \<le> r \<and> r \<le> b" by (metis case_prod_beta)
  next
    assume "\<exists>(a, b) \<in> set table. a \<le> r \<and> r \<le> b"
    then obtain i where i: "i < length table" "fst (table ! i) \<le> r" "r \<le> snd (table ! i)"
      by (force simp: in_set_conv_nth)
    with k(3) have "k \<le> i" by (metis not_less)
    moreover have "\<not> k < i"
    proof
      assume "k < i"
      with i k(4) ranges_sorted_last(1) [OF assms, of k i] show False by force
    qed
    ultimately show "k < length table \<and> fst (table ! k) \<le> r" using i by simp
  qed
  with k(1) show ?thesis by (simp add: wide_in_def)
qed

lemma wideRanges_sorted: "ranges_sorted wideRanges"
proof -
  have "ascending 0 wideRanges" unfolding wideRanges_def by simp
  then show ?thesis using ascending_sorted by blast
qed

text \<open>
  The binary search over the table of wide ranges terminates without leaving the table and answers
  exactly whether some range of the table contains the rune.
\<close>

theorem isWide_iff: "isWide r = Done (\<exists>(a, b) \<in> set wideRanges. a \<le> r \<and> r \<le> b)"
  unfolding isWide_def by (rule wide_in_iff [OF wideRanges_sorted])

theorem isWide_iff_witness:
  "isWide 0x3042 = Done True \<and> (\<exists>(a, b) \<in> set wideRanges. a \<le> 0x3042 \<and> 0x3042 \<le> b)"
proof -
  have "isWide 0x3042 = Done True" by code_simp
  with isWide_iff [of "0x3042"] show ?thesis by simp
qed

lemma RuneWidth_cases: "RuneWidth mark r = Done 0 \<or> RuneWidth mark r = Done 1 \<or> RuneWidth mark r = Done 2"
  by (simp add: RuneWidth_def isWide_def wide_in_iff [OF wideRanges_sorted])

end
