(* ===== verification/Terminal.thy ===== *)
theory Terminal
  imports Text_Policy
begin

text \<open>
  The virtual terminal of \<^verbatim>\<open>internal/supervisor/vterm.go\<close>, which reconstructs the screen of a
  supervised child from the bytes it writes.

  A screen is a grid of cells with a cursor, a saved cursor and a scroll region; the terminal has two
  of them, the state of the escape-sequence parser and the bytes of an incomplete UTF-8 sequence. Every
  index and every slice of the source is checked: an access outside its bounds is \<open>Panic\<close>, and the
  central theorem is that no input reaches one. The text of a cell is the list of its runes; rows are
  values, since a scroll replaces the rows it vacates and so leaves no two entries sharing a slice. The
  methods of the terminal that only touch the current screen are functions of the dimensions and that
  screen.
\<close>

section \<open>Checked access\<close>

definition index_at :: "'a list \<Rightarrow> int \<Rightarrow> 'a outcome" where
  "index_at xs i = (if 0 \<le> i \<and> i < int (length xs) then Done (xs ! nat i) else Panic)"

definition store_at :: "'a list \<Rightarrow> int \<Rightarrow> 'a \<Rightarrow> 'a list outcome" where
  "store_at xs i x = (if 0 \<le> i \<and> i < int (length xs) then Done (xs[nat i := x]) else Panic)"

text \<open>\<open>copy(xs[a:b], xs[c:d])\<close>: both slices are checked, and the shorter length is copied.\<close>

definition copy_within :: "'a list \<Rightarrow> int \<Rightarrow> int \<Rightarrow> int \<Rightarrow> int \<Rightarrow> 'a list outcome" where
  "copy_within xs a b c d =
     (if 0 \<le> a \<and> a \<le> b \<and> b \<le> int (length xs) \<and> 0 \<le> c \<and> c \<le> d \<and> d \<le> int (length xs) then
        let n = nat (min (b - a) (d - c))
        in Done (take (nat a) xs @ take n (drop (nat c) xs) @ drop (nat a + n) xs)
      else Panic)"

text \<open>A counting loop \<open>for i := lo; i < hi; i++\<close> whose body may panic.\<close>

function for_range :: "int \<Rightarrow> int \<Rightarrow> (int \<Rightarrow> 'a \<Rightarrow> 'a outcome) \<Rightarrow> 'a \<Rightarrow> 'a outcome" where
  "for_range lo hi f x = (if lo < hi then and_then (f lo x) (for_range (lo + 1) hi f) else Done x)"
  by pat_completeness auto
termination
  by (relation "measure (\<lambda>(lo, hi, f, x). nat (hi - lo))") auto

declare for_range.simps [simp del]

definition clamp :: "int \<Rightarrow> int \<Rightarrow> int \<Rightarrow> int" where
  "clamp n low high = min (max n low) high"

section \<open>Cells and screens\<close>

record terminal_cell =
  tx :: "rune list"
  continuation :: bool
  faint :: bool

definition blank :: terminal_cell where
  "blank = \<lparr>tx = [], continuation = False, faint = False\<rparr>"

record terminal_screen =
  ts_cells :: "terminal_cell list list"
  ts_row :: int
  ts_col :: int
  ts_savedRow :: int
  ts_savedCol :: int
  ts_scrollTop :: int
  ts_scrollBottom :: int
  ts_savedFaint :: bool
  ts_joinNext :: bool
  ts_pendingWrap :: bool
  ts_faint :: bool

definition blank_row :: "int \<Rightarrow> terminal_cell list" where
  "blank_row cols = replicate (nat cols) blank"

definition newScreen :: "int \<Rightarrow> int \<Rightarrow> terminal_screen" where
  "newScreen cols rows =
     \<lparr>ts_cells = replicate (nat rows) (blank_row cols), ts_row = 0, ts_col = 0, ts_savedRow = 0,
      ts_savedCol = 0, ts_scrollTop = 0, ts_scrollBottom = rows - 1, ts_savedFaint = False,
      ts_joinNext = False, ts_pendingWrap = False, ts_faint = False\<rparr>"

definition cell_at :: "int \<Rightarrow> int \<Rightarrow> terminal_screen \<Rightarrow> terminal_cell outcome" where
  "cell_at r c s = and_then (index_at (ts_cells s) r) (\<lambda>line. index_at line c)"

definition put_cell :: "int \<Rightarrow> int \<Rightarrow> terminal_cell \<Rightarrow> terminal_screen \<Rightarrow> terminal_screen outcome" where
  "put_cell r c x s =
     and_then (index_at (ts_cells s) r) (\<lambda>line.
     and_then (store_at line c x) (\<lambda>line'.
     and_then (store_at (ts_cells s) r line') (\<lambda>cells. Done (s\<lparr>ts_cells := cells\<rparr>))))"

definition put_row :: "int \<Rightarrow> terminal_cell list \<Rightarrow> terminal_screen \<Rightarrow> terminal_screen outcome" where
  "put_row r line s = and_then (store_at (ts_cells s) r line) (\<lambda>cells. Done (s\<lparr>ts_cells := cells\<rparr>))"

text \<open>\<open>clear(s.cells[r])\<close> sets every element of the row to its zero value.\<close>

definition clear_row :: "int \<Rightarrow> terminal_screen \<Rightarrow> terminal_screen outcome" where
  "clear_row r s = and_then (index_at (ts_cells s) r) (\<lambda>line. put_row r (map (\<lambda>_. blank) line) s)"

section \<open>Erasing\<close>

definition eraseWideAt :: "int \<Rightarrow> int \<Rightarrow> int \<Rightarrow> terminal_screen \<Rightarrow> terminal_screen outcome" where
  "eraseWideAt cols row col s =
     (if col < 0 \<or> col \<ge> cols then Done s
      else
        and_then (cell_at row col s) (\<lambda>cur.
        and_then (if continuation cur \<and> col > 0 then put_cell row (col - 1) blank s else Done s) (\<lambda>s.
        and_then (if col + 1 < cols then
                    and_then (cell_at row (col + 1) s) (\<lambda>next.
                      if continuation next then put_cell row (col + 1) blank s else Done s)
                  else Done s)
          (put_cell row col blank))))"

definition eraseLine :: "int \<Rightarrow> int \<Rightarrow> terminal_screen \<Rightarrow> terminal_screen outcome" where
  "eraseLine cols mode s =
     (if mode = 1 then for_range 0 (ts_col s + 1) (eraseWideAt cols (ts_row s)) s
      else if mode = 2 then for_range 0 cols (eraseWideAt cols (ts_row s)) s
      else if mode \<noteq> 0 then Done s
      else for_range (ts_col s) cols (eraseWideAt cols (ts_row s)) s)"

definition eraseDisplay :: "int \<Rightarrow> int \<Rightarrow> int \<Rightarrow> terminal_screen \<Rightarrow> terminal_screen outcome" where
  "eraseDisplay cols rows mode s =
     (if mode = 0 then
        and_then (eraseLine cols 0 s) (\<lambda>s. for_range (ts_row s + 1) rows clear_row s)
      else if mode = 1 then
        and_then (for_range 0 (ts_row s) clear_row s) (eraseLine cols 1)
      else if mode = 2 then for_range 0 (int (length (ts_cells s))) clear_row s
      else Done s)"

section \<open>Scrolling\<close>

definition scrollUpAt :: "int \<Rightarrow> int \<Rightarrow> int \<Rightarrow> terminal_screen \<Rightarrow> terminal_screen outcome" where
  "scrollUpAt cols row n s =
     (let bottom = ts_scrollBottom s
      in if row < ts_scrollTop s \<or> row > bottom then Done s
         else
           let n = min n (bottom - row + 1)
           in and_then (copy_within (ts_cells s) row (bottom + 1 - n) (row + n) (bottom + 1)) (\<lambda>cells.
              for_range (bottom - n + 1) (bottom + 1) (\<lambda>i. put_row i (blank_row cols))
                (s\<lparr>ts_cells := cells\<rparr>)))"

definition scrollDownAt :: "int \<Rightarrow> int \<Rightarrow> int \<Rightarrow> terminal_screen \<Rightarrow> terminal_screen outcome" where
  "scrollDownAt cols row n s =
     (let bottom = ts_scrollBottom s
      in if row < ts_scrollTop s \<or> row > bottom then Done s
         else
           let n = min n (bottom - row + 1)
           in and_then (copy_within (ts_cells s) (row + n) (bottom + 1) row (bottom + 1 - n)) (\<lambda>cells.
              for_range row (row + n) (\<lambda>i. put_row i (blank_row cols)) (s\<lparr>ts_cells := cells\<rparr>)))"

definition scrollUp :: "int \<Rightarrow> int \<Rightarrow> terminal_screen \<Rightarrow> terminal_screen outcome" where
  "scrollUp cols n s = scrollUpAt cols (ts_scrollTop s) n s"

definition scrollDown :: "int \<Rightarrow> int \<Rightarrow> terminal_screen \<Rightarrow> terminal_screen outcome" where
  "scrollDown cols n s = scrollDownAt cols (ts_scrollTop s) n s"

definition lineFeed :: "int \<Rightarrow> int \<Rightarrow> terminal_screen \<Rightarrow> terminal_screen outcome" where
  "lineFeed cols rows s =
     (if ts_row s = ts_scrollBottom s then scrollUp cols 1 s
      else if ts_row s < rows - 1 then Done (s\<lparr>ts_row := ts_row s + 1\<rparr>)
      else Done s)"

definition reverseIndex :: "int \<Rightarrow> int \<Rightarrow> terminal_screen \<Rightarrow> terminal_screen outcome" where
  "reverseIndex cols rows s =
     (if ts_row s = ts_scrollTop s then scrollDown cols 1 s
      else if ts_row s > 0 then Done (s\<lparr>ts_row := ts_row s - 1\<rparr>)
      else Done s)"

section \<open>Writing a rune\<close>

definition previousCell :: "terminal_screen \<Rightarrow> int outcome" where
  "previousCell s =
     (let c = (if ts_pendingWrap s then ts_col s else ts_col s - 1)
      in if c \<ge> 0
         then and_then (cell_at (ts_row s) c s) (\<lambda>cell. Done (if continuation cell then c - 1 else c))
         else Done c)"

text \<open>A combining rune is appended to the text of the cell before the cursor, if there is one.\<close>

definition put_combining :: "rune \<Rightarrow> terminal_screen \<Rightarrow> terminal_screen outcome" where
  "put_combining ch s =
     and_then (previousCell s) (\<lambda>c.
     and_then (if c \<ge> 0
               then and_then (cell_at (ts_row s) c s) (\<lambda>cell.
                      put_cell (ts_row s) c (cell\<lparr>tx := tx cell @ [ch]\<rparr>) s)
               else Done s) (\<lambda>s. Done (s\<lparr>ts_joinNext := (ch = 0x200d)\<rparr>)))"

text \<open>The rune itself: the cells it covers are freed, written, and the cursor moves past them.\<close>

definition put_spacing :: "int \<Rightarrow> rune \<Rightarrow> int \<Rightarrow> terminal_screen \<Rightarrow> terminal_screen outcome" where
  "put_spacing cols ch w s =
     and_then (eraseWideAt cols (ts_row s) (ts_col s) s) (\<lambda>s.
     and_then (if w = 2 then eraseWideAt cols (ts_row s) (ts_col s + 1) s else Done s) (\<lambda>s.
     and_then (put_cell (ts_row s) (ts_col s) \<lparr>tx = [ch], continuation = False, faint = ts_faint s\<rparr> s) (\<lambda>s.
     and_then (if w = 2
               then put_cell (ts_row s) (ts_col s + 1)
                      \<lparr>tx = [], continuation = True, faint = ts_faint s\<rparr> s
               else Done s) (\<lambda>s.
       let s = s\<lparr>ts_col := ts_col s + w\<rparr>
       in Done (if ts_col s \<ge> cols then s\<lparr>ts_col := cols - 1, ts_pendingWrap := True\<rparr> else s)))))"

definition put :: "(rune \<Rightarrow> bool) \<Rightarrow> int \<Rightarrow> int \<Rightarrow> rune \<Rightarrow> terminal_screen \<Rightarrow> terminal_screen outcome" where
  "put mark cols rows ch s =
     and_then (RuneWidth mark ch) (\<lambda>w.
       if w = 0 \<or> ts_joinNext s then put_combining ch s
       else
         and_then (if ts_pendingWrap s
                   then lineFeed cols rows (s\<lparr>ts_col := 0, ts_pendingWrap := False\<rparr>) else Done s) (\<lambda>s.
           let w = (if cols < 2 \<and> w = 2 then 1 else w)
           in and_then (if w = 2 \<and> ts_col s = cols - 1
                        then lineFeed cols rows (s\<lparr>ts_col := 0\<rparr>) else Done s)
                (put_spacing cols ch w)))"

section \<open>Inserting and deleting characters\<close>

text \<open>Whether a cell holds the first half of a wide character.\<close>

definition first_wide :: "(rune \<Rightarrow> bool) \<Rightarrow> terminal_cell \<Rightarrow> bool outcome" where
  "first_wide mark cell =
     (if tx cell = [] then Done False
      else and_then (RuneWidth mark (hd (tx cell))) (\<lambda>w. Done (w = 2)))"

definition repair_cell :: "(rune \<Rightarrow> bool) \<Rightarrow> int \<Rightarrow> int \<Rightarrow> int \<Rightarrow> terminal_screen \<Rightarrow> terminal_screen outcome" where
  "repair_cell mark cols row col s =
     and_then (cell_at row col s) (\<lambda>cell.
       if continuation cell then
         (if col = 0 then put_cell row col blank s
          else and_then (cell_at row (col - 1) s) (\<lambda>left.
               and_then (first_wide mark left) (\<lambda>wide.
                 if continuation left \<or> \<not> wide then put_cell row col blank s else Done s)))
       else
         and_then (first_wide mark cell) (\<lambda>wide.
           if \<not> wide then Done s
           else if col + 1 \<ge> cols then put_cell row col blank s
           else and_then (cell_at row (col + 1) s) (\<lambda>next.
                  if \<not> continuation next then put_cell row col blank s else Done s)))"

definition repairWideRow :: "(rune \<Rightarrow> bool) \<Rightarrow> int \<Rightarrow> int \<Rightarrow> terminal_screen \<Rightarrow> terminal_screen outcome" where
  "repairWideRow mark cols row s =
     (if cols < 2 then Done s else for_range 0 cols (repair_cell mark cols row) s)"

definition shiftChars :: "(rune \<Rightarrow> bool) \<Rightarrow> int \<Rightarrow> int \<Rightarrow> bool \<Rightarrow> terminal_screen \<Rightarrow> terminal_screen outcome" where
  "shiftChars mark cols n ins s =
     (let r = ts_row s; c = ts_col s; n = min n (cols - c)
      in and_then (index_at (ts_cells s) r) (\<lambda>line.
         and_then (if ins
                   then and_then (copy_within line (c + n) (int (length line)) c (cols - n))
                          (for_range c (c + n) (\<lambda>i l. store_at l i blank))
                   else and_then (copy_within line c (int (length line)) (c + n) (int (length line)))
                          (for_range (cols - n) cols (\<lambda>i l. store_at l i blank))) (\<lambda>line'.
         and_then (put_row r line' s) (repairWideRow mark cols r))))"

section \<open>Parameters of control sequences\<close>

text \<open>The digits of one field; the loop stops at a character that is not a digit and at overflow.\<close>

fun param_value :: "int \<Rightarrow> byte list \<Rightarrow> int" where
  "param_value value [] = value"
| "param_value value (c # rest) =
     (if c < 0x30 \<or> c > 0x39 then 0
      else if value > 6553 \<or> value = 6553 \<and> uint c - 0x30 > 5 then 65535
      else param_value (value * 10 + (uint c - 0x30)) rest)"

definition parseTerminalParams :: "byte list \<Rightarrow> int list" where
  "parseTerminalParams raw =
     map (\<lambda>f. if f \<noteq> [] then param_value 0 f else 0) (concat (map (split_on 0x3a) (split_on 0x3b raw)))"

definition privateEraseMode :: "byte list \<Rightarrow> int outcome" where
  "privateEraseMode raw =
     (if length raw < 2 then Done 0 else index_at (parseTerminalParams (tl raw)) 0)"

definition csi_param :: "int list \<Rightarrow> nat \<Rightarrow> int \<Rightarrow> int" where
  "csi_param params i def = (if i \<ge> length params \<or> params ! i = 0 then def else params ! i)"

text \<open>
  The attribute loop of SGR: each field with its value and whether it has colon subparameters. An
  extended colour in semicolon form skips the fields it consumes.
\<close>

function sgr_loop :: "(int \<times> bool) list \<Rightarrow> bool \<Rightarrow> bool" where
  "sgr_loop [] dim = dim"
| "sgr_loop ((p, colon) # rest) dim =
     (if p = 0 then sgr_loop rest False
      else if p = 2 then sgr_loop rest True
      else if p = 22 then sgr_loop rest False
      else if p = 38 \<or> p = 48 \<or> p = 58 then
        (if colon then sgr_loop rest dim
         else (case rest of
                 [] \<Rightarrow> dim
               | q # _ \<Rightarrow>
                   if fst q = 5 then sgr_loop (drop 2 rest) dim
                   else if fst q = 2 then sgr_loop (drop 4 rest) dim
                   else sgr_loop rest dim))
      else sgr_loop rest dim)"
  by pat_completeness auto
termination
  by (relation "measure (\<lambda>(fields, dim). length fields)") auto

text \<open>The value of a field is read up to its first colon, as \<open>strings.Cut\<close> gives it.\<close>

definition sgr_fields :: "byte list \<Rightarrow> (int \<times> bool) list outcome" where
  "sgr_fields raw =
     foldr (\<lambda>field acc.
         and_then (index_at (parseTerminalParams (takeWhile (\<lambda>b. b \<noteq> 0x3a) field)) 0) (\<lambda>value.
         and_then acc (\<lambda>fs. Done ((value, 0x3a \<in> set field) # fs))))
       (split_on 0x3b raw) (Done [])"

section \<open>Control sequences on the current screen\<close>

definition csi_clears_wrap :: "byte \<Rightarrow> bool" where
  "csi_clears_wrap final \<longleftrightarrow>
     final \<in> set [0x48, 0x66, 0x41, 0x42, 0x43, 0x44, 0x47, 0x60, 0x64, 0x75] \<or> final = 0x72"

definition save_cursor :: "terminal_screen \<Rightarrow> terminal_screen" where
  "save_cursor s = s\<lparr>ts_savedRow := ts_row s, ts_savedCol := ts_col s, ts_savedFaint := ts_faint s\<rparr>"

definition restore_cursor :: "int \<Rightarrow> int \<Rightarrow> terminal_screen \<Rightarrow> terminal_screen" where
  "restore_cursor cols rows s =
     s\<lparr>ts_row := clamp (ts_savedRow s) 0 (rows - 1), ts_col := clamp (ts_savedCol s) 0 (cols - 1),
       ts_faint := ts_savedFaint s\<rparr>"

definition set_region :: "int \<Rightarrow> int \<Rightarrow> int \<Rightarrow> terminal_screen \<Rightarrow> terminal_screen" where
  "set_region rows p q s =
     (let upper = clamp (p - 1) 0 (rows - 1); bottom = clamp (q - 1) 0 (rows - 1)
      in if upper < bottom
         then s\<lparr>ts_scrollTop := upper, ts_scrollBottom := bottom, ts_row := 0, ts_col := 0\<rparr> else s)"

definition csi_dispatch :: "(rune \<Rightarrow> bool) \<Rightarrow> int \<Rightarrow> int \<Rightarrow> byte \<Rightarrow> byte list \<Rightarrow> terminal_screen
    \<Rightarrow> terminal_screen outcome" where
  "csi_dispatch mark cols rows final raw s =
     (let params = parseTerminalParams raw;
          n = csi_param params 0 1
      in if final = 0x6d then
           and_then (sgr_fields raw) (\<lambda>fs. Done (s\<lparr>ts_faint := sgr_loop fs (ts_faint s)\<rparr>))
         else if final = 0x48 \<or> final = 0x66 then
           Done (s\<lparr>ts_row := clamp (csi_param params 0 1 - 1) 0 (rows - 1),
                   ts_col := clamp (csi_param params 1 1 - 1) 0 (cols - 1)\<rparr>)
         else if final = 0x41 then Done (s\<lparr>ts_row := max 0 (ts_row s - n)\<rparr>)
         else if final = 0x42 then Done (s\<lparr>ts_row := min (rows - 1) (ts_row s + n)\<rparr>)
         else if final = 0x43 then Done (s\<lparr>ts_col := min (cols - 1) (ts_col s + n)\<rparr>)
         else if final = 0x44 then Done (s\<lparr>ts_col := max 0 (ts_col s - n)\<rparr>)
         else if final = 0x47 \<or> final = 0x60 then
           Done (s\<lparr>ts_col := clamp (csi_param params 0 1 - 1) 0 (cols - 1)\<rparr>)
         else if final = 0x64 then Done (s\<lparr>ts_row := clamp (csi_param params 0 1 - 1) 0 (rows - 1)\<rparr>)
         else if final = 0x4a then eraseDisplay cols rows (csi_param params 0 0) s
         else if final = 0x4b then eraseLine cols (csi_param params 0 0) s
         else if final = 0x72 then Done (set_region rows (csi_param params 0 1) (csi_param params 1 rows) s)
         else if final = 0x53 then scrollUp cols n s
         else if final = 0x54 then scrollDown cols n s
         else if final = 0x4c then
           (if ts_row s \<ge> ts_scrollTop s \<and> ts_row s \<le> ts_scrollBottom s
            then scrollDownAt cols (ts_row s) n s else Done s)
         else if final = 0x4d then
           (if ts_row s \<ge> ts_scrollTop s \<and> ts_row s \<le> ts_scrollBottom s
            then scrollUpAt cols (ts_row s) n s else Done s)
         else if final = 0x40 then shiftChars mark cols n True s
         else if final = 0x50 then shiftChars mark cols n False s
         else if final = 0x58 then
           for_range (ts_col s) (min cols (ts_col s + n)) (eraseWideAt cols (ts_row s)) s
         else if final = 0x73 then Done (if raw \<noteq> [] then s else save_cursor s)
         else if final = 0x75 then Done (if raw \<noteq> [] then s else restore_cursor cols rows s)
         else Done s)"

definition csi_on_screen :: "(rune \<Rightarrow> bool) \<Rightarrow> int \<Rightarrow> int \<Rightarrow> byte \<Rightarrow> byte list \<Rightarrow> terminal_screen
    \<Rightarrow> terminal_screen outcome" where
  "csi_on_screen mark cols rows final raw s =
     csi_dispatch mark cols rows final raw
       (if csi_clears_wrap final then s\<lparr>ts_pendingWrap := False, ts_joinNext := False\<rparr> else s)"

section \<open>The terminal\<close>

datatype parser_state =
    TerminalGround | TerminalEscape | TerminalCSI | TerminalOSC | TerminalDCS | TerminalStringEscape
  | TerminalEscapeIntermediate | TerminalDiscardCSI | TerminalDiscardOSC | TerminalDiscardDCS

record virtual_terminal =
  vt_cols :: int
  vt_rows :: int
  vt_primary :: terminal_screen
  vt_alternate :: terminal_screen
  vt_useAlternate :: bool
  vt_state :: parser_state
  vt_sequence :: "byte list"
  vt_sequenceBytes :: int
  vt_utf8Pending :: "byte list"

definition NewVirtualTerminal :: "int \<Rightarrow> int \<Rightarrow> virtual_terminal" where
  "NewVirtualTerminal cols rows =
     (let cols = (if cols < 1 then 1 else cols); rows = (if rows < 1 then 1 else rows)
      in \<lparr>vt_cols = cols, vt_rows = rows, vt_primary = newScreen cols rows,
          vt_alternate = newScreen cols rows, vt_useAlternate = False, vt_state = TerminalGround,
          vt_sequence = [], vt_sequenceBytes = 0, vt_utf8Pending = []\<rparr>)"

definition current :: "virtual_terminal \<Rightarrow> terminal_screen" where
  "current v = (if vt_useAlternate v then vt_alternate v else vt_primary v)"

definition set_current :: "terminal_screen \<Rightarrow> virtual_terminal \<Rightarrow> virtual_terminal" where
  "set_current s v =
     (if vt_useAlternate v then v\<lparr>vt_alternate := s\<rparr> else v\<lparr>vt_primary := s\<rparr>)"

text \<open>A method that acts on the current screen.\<close>

definition on_current :: "(int \<Rightarrow> int \<Rightarrow> terminal_screen \<Rightarrow> terminal_screen outcome) \<Rightarrow> virtual_terminal
    \<Rightarrow> virtual_terminal outcome" where
  "on_current f v = and_then (f (vt_cols v) (vt_rows v) (current v)) (\<lambda>s. Done (set_current s v))"

definition privateMode_param :: "byte \<Rightarrow> int \<Rightarrow> virtual_terminal \<Rightarrow> virtual_terminal" where
  "privateMode_param final p v =
     (if p = 47 \<or> p = 1047 \<or> p = 1049 then
        let enable = (final = 0x68)
        in if enable \<and> \<not> vt_useAlternate v then
             let v = (if p = 1049 then v\<lparr>vt_primary := save_cursor (vt_primary v)\<rparr> else v);
                 v = (if p = 1049 \<or> p = 1047
                      then v\<lparr>vt_alternate := newScreen (vt_cols v) (vt_rows v)\<rparr> else v)
             in v\<lparr>vt_alternate := (vt_alternate v)\<lparr>ts_faint := ts_faint (vt_primary v)\<rparr>,
                  vt_useAlternate := True\<rparr>
           else if \<not> enable \<and> vt_useAlternate v then
             let v = v\<lparr>vt_primary := (vt_primary v)\<lparr>ts_faint := ts_faint (vt_alternate v)\<rparr>,
                       vt_useAlternate := False\<rparr>
             in if p = 1049
                then v\<lparr>vt_primary := restore_cursor (vt_cols v) (vt_rows v) (vt_primary v)\<rparr> else v
           else v
      else v)"

definition privateMode :: "byte \<Rightarrow> byte list \<Rightarrow> virtual_terminal \<Rightarrow> virtual_terminal" where
  "privateMode final raw v =
     (if final \<noteq> 0x68 \<and> final \<noteq> 0x6c then v
      else fold (privateMode_param final) (parseTerminalParams raw) v)"

definition executeCSI :: "(rune \<Rightarrow> bool) \<Rightarrow> byte \<Rightarrow> byte list \<Rightarrow> virtual_terminal \<Rightarrow> virtual_terminal outcome" where
  "executeCSI mark final raw0 v =
     (let has_private = (raw0 \<noteq> [] \<and> hd raw0 \<in> set [0x3f, 0x3e, 0x3c, 0x3d, 0x21]);
          raw = (if has_private then tl raw0 else raw0)
      in if has_private \<and> hd raw0 = 0x3f then
           (if final = 0x4a then
              and_then (privateEraseMode raw) (\<lambda>m. on_current (\<lambda>cols rows. eraseDisplay cols rows m) v)
            else if final = 0x4b then
              and_then (privateEraseMode raw) (\<lambda>m. on_current (\<lambda>cols rows. eraseLine cols m) v)
            else Done (privateMode final raw v))
         else if has_private then Done v
         else if 0x2d \<in> set raw \<or> list_ex (\<lambda>r. r < 0x30 \<or> r > 0x39 \<and> r \<noteq> 0x3b \<and> r \<noteq> 0x3a) raw
           then Done v
         else on_current (\<lambda>cols rows. csi_on_screen mark cols rows final raw) v)"

section \<open>Escape sequences\<close>

definition discarding :: "parser_state \<Rightarrow> bool" where
  "discarding st \<longleftrightarrow> st = TerminalDiscardCSI \<or> st = TerminalDiscardOSC \<or> st = TerminalDiscardDCS"

fun overflow_state :: "parser_state \<Rightarrow> parser_state" where
  "overflow_state TerminalCSI = TerminalDiscardCSI"
| "overflow_state TerminalOSC = TerminalDiscardOSC"
| "overflow_state TerminalStringEscape = TerminalDiscardOSC"
| "overflow_state TerminalDCS = TerminalDiscardDCS"
| "overflow_state _ = TerminalGround"

text \<open>The count of the bytes of a sequence; a sequence of more than 4096 bytes is discarded.\<close>

definition count_sequence :: "virtual_terminal \<Rightarrow> virtual_terminal" where
  "count_sequence v =
     (if discarding (vt_state v) \<or> vt_state v = TerminalStringEscape then v
      else
        let v = v\<lparr>vt_sequenceBytes := vt_sequenceBytes v + 1\<rparr>
        in if vt_sequenceBytes v > 4096
           then v\<lparr>vt_state := overflow_state (vt_state v), vt_sequence := []\<rparr> else v)"

definition ground :: "virtual_terminal \<Rightarrow> virtual_terminal" where
  "ground v = v\<lparr>vt_state := TerminalGround\<rparr>"

definition escape_final :: "byte \<Rightarrow> virtual_terminal \<Rightarrow> virtual_terminal outcome" where
  "escape_final b v =
     (if b = 0x5b then Done (v\<lparr>vt_state := TerminalCSI, vt_sequence := [], vt_sequenceBytes := 0\<rparr>)
      else if b = 0x5d then Done (v\<lparr>vt_state := TerminalOSC, vt_sequenceBytes := 0\<rparr>)
      else if b = 0x50 \<or> b = 0x5e \<or> b = 0x5f then
        Done (v\<lparr>vt_state := TerminalDCS, vt_sequenceBytes := 0\<rparr>)
      else if b = 0x37 then Done (ground (set_current (save_cursor (current v)) v))
      else if b = 0x38 then
        Done (ground (set_current
          ((restore_cursor (vt_cols v) (vt_rows v) (current v))\<lparr>ts_pendingWrap := False\<rparr>) v))
      else if b = 0x44 then and_then (on_current lineFeed v) (\<lambda>v. Done (ground v))
      else if b = 0x45 then
        and_then (on_current lineFeed (set_current ((current v)\<lparr>ts_col := 0\<rparr>) v)) (\<lambda>v. Done (ground v))
      else if b = 0x4d then and_then (on_current reverseIndex v) (\<lambda>v. Done (ground v))
      else if b = 0x63 then
        Done (ground (v\<lparr>vt_primary := newScreen (vt_cols v) (vt_rows v),
                        vt_alternate := newScreen (vt_cols v) (vt_rows v), vt_useAlternate := False\<rparr>))
      else if b \<in> set [0x20, 0x28, 0x29, 0x2a, 0x2b, 0x2d, 0x2e, 0x2f, 0x23] then
        Done (v\<lparr>vt_state := TerminalEscapeIntermediate\<rparr>)
      else Done (ground v))"

definition csi_byte :: "(rune \<Rightarrow> bool) \<Rightarrow> byte \<Rightarrow> virtual_terminal \<Rightarrow> virtual_terminal outcome" where
  "csi_byte mark b v =
     (if b = 0x1b then Done (v\<lparr>vt_state := TerminalEscape, vt_sequence := []\<rparr>)
      else if b = 0x18 \<or> b = 0x1a then Done (v\<lparr>vt_state := TerminalGround, vt_sequence := []\<rparr>)
      else if b \<ge> 0x40 \<and> b \<le> 0x7e then
        and_then (executeCSI mark b (vt_sequence v) v) (\<lambda>v. Done (ground v))
      else if b \<ge> 0x20 \<and> b \<le> 0x3f \<and> length (vt_sequence v) < 4096 then
        Done (v\<lparr>vt_sequence := vt_sequence v @ [b]\<rparr>)
      else if length (vt_sequence v) \<ge> 4096 then
        Done (v\<lparr>vt_state := TerminalDiscardCSI, vt_sequence := []\<rparr>)
      else Done v)"

text \<open>Bytes of an OSC or DCS string, discarded or not; \<open>bell\<close> says whether BEL also ends it.\<close>

definition string_byte :: "bool \<Rightarrow> byte \<Rightarrow> virtual_terminal \<Rightarrow> virtual_terminal" where
  "string_byte bell b v =
     (if b = 0x18 \<or> b = 0x1a \<or> bell \<and> b = 0x07 then ground v
      else if b = 0x1b then v\<lparr>vt_state := TerminalStringEscape\<rparr>
      else v)"

text \<open>The body of \<open>consumeEscape\<close> outside the state in which a string meets an escape byte.\<close>

definition consume_counted :: "(rune \<Rightarrow> bool) \<Rightarrow> byte \<Rightarrow> virtual_terminal \<Rightarrow> virtual_terminal outcome" where
  "consume_counted mark b v0 =
     (let v = count_sequence v0
      in case vt_state v of
        TerminalGround \<Rightarrow> Done v
      | TerminalEscape \<Rightarrow> escape_final b v
      | TerminalCSI \<Rightarrow> csi_byte mark b v
      | TerminalOSC \<Rightarrow> Done (string_byte True b v)
      | TerminalDCS \<Rightarrow> Done (string_byte False b v)
      | TerminalStringEscape \<Rightarrow> Done v
      | TerminalEscapeIntermediate \<Rightarrow> Done (if b \<ge> 0x30 \<and> b \<le> 0x7e then ground v else v)
      | TerminalDiscardCSI \<Rightarrow>
          Done (if b \<ge> 0x40 \<and> b \<le> 0x7e \<or> b = 0x18 \<or> b = 0x1a then ground v else v)
      | TerminalDiscardOSC \<Rightarrow> Done (string_byte True b v)
      | TerminalDiscardDCS \<Rightarrow> Done (string_byte False b v))"

definition consumeEscape :: "(rune \<Rightarrow> bool) \<Rightarrow> byte \<Rightarrow> virtual_terminal \<Rightarrow> virtual_terminal outcome" where
  "consumeEscape mark b v =
     (if vt_state v = TerminalStringEscape then
        (if b = 0x5c then Done (ground v)
         else if b = 0x1b then Done (v\<lparr>vt_state := TerminalEscape, vt_sequenceBytes := 0\<rparr>)
         else consume_counted mark b (v\<lparr>vt_state := TerminalEscape\<rparr>))
      else consume_counted mark b v)"

definition control_or_rune :: "(rune \<Rightarrow> bool) \<Rightarrow> byte \<Rightarrow> int \<Rightarrow> int \<Rightarrow> terminal_screen
    \<Rightarrow> terminal_screen outcome" where
  "control_or_rune mark ch cols rows s =
     (if ch = 0x0d then Done (s\<lparr>ts_col := 0, ts_pendingWrap := False\<rparr>)
      else if ch = 0x0a \<or> ch = 0x0b \<or> ch = 0x0c then lineFeed cols rows s
      else if ch = 0x08 then
        Done (if ts_col s > 0 then s\<lparr>ts_pendingWrap := False, ts_col := ts_col s - 1\<rparr>
              else s\<lparr>ts_pendingWrap := False\<rparr>)
      else if ch = 0x09 then Done (s\<lparr>ts_col := min (cols - 1) ((ts_col s div 8 + 1) * 8)\<rparr>)
      else if ch \<ge> 0x20 \<and> ch \<noteq> 0x7f then put mark cols rows (uint ch) s
      else Done s)"

definition consumeControlOrRune :: "(rune \<Rightarrow> bool) \<Rightarrow> byte \<Rightarrow> virtual_terminal \<Rightarrow> virtual_terminal outcome" where
  "consumeControlOrRune mark ch v =
     (let v = set_current ((current v)\<lparr>ts_joinNext := False\<rparr>) v
      in if ch = 0x1b then Done (v\<lparr>vt_state := TerminalEscape, vt_sequenceBytes := 0\<rparr>)
         else on_current (control_or_rune mark ch) v)"

section \<open>UTF-8: package unicode/utf8\<close>

text \<open>
  The length that a first byte announces with the range its second byte must lie in; \<open>None\<close> for a byte
  that starts no sequence. These are the tables \<open>first\<close> and \<open>acceptRanges\<close> of the package.
\<close>

definition utf8_first :: "byte \<Rightarrow> (nat \<times> byte \<times> byte) option" where
  "utf8_first b =
     (if b < 0x80 then Some (1, 0, 0)
      else if b < 0xc2 then None
      else if b < 0xe0 then Some (2, 0x80, 0xbf)
      else if b = 0xe0 then Some (3, 0xa0, 0xbf)
      else if b = 0xed then Some (3, 0x80, 0x9f)
      else if b < 0xf0 then Some (3, 0x80, 0xbf)
      else if b = 0xf0 then Some (4, 0x90, 0xbf)
      else if b < 0xf4 then Some (4, 0x80, 0xbf)
      else if b = 0xf4 then Some (4, 0x80, 0x8f)
      else None)"

definition is_cont :: "byte \<Rightarrow> bool" where
  "is_cont b \<longleftrightarrow> 0x80 \<le> b \<and> b \<le> 0xbf"

definition rune_error :: rune where
  "rune_error = 0xfffd"

definition DecodeRune :: "byte list \<Rightarrow> rune \<times> nat" where
  "DecodeRune p =
     (case p of
        [] \<Rightarrow> (rune_error, 0)
      | b0 # rest \<Rightarrow>
          (case utf8_first b0 of
             None \<Rightarrow> (rune_error, 1)
           | Some (sz, lo, hi) \<Rightarrow>
               if sz = 1 then (uint b0, 1)
               else if length p < sz then (rune_error, 1)
               else if p ! 1 < lo \<or> hi < p ! 1 then (rune_error, 1)
               else if sz = 2 then ((uint b0 mod 32) * 64 + uint (p ! 1) mod 64, 2)
               else if \<not> is_cont (p ! 2) then (rune_error, 1)
               else if sz = 3 then
                 ((uint b0 mod 16) * 4096 + (uint (p ! 1) mod 64) * 64 + uint (p ! 2) mod 64, 3)
               else if \<not> is_cont (p ! 3) then (rune_error, 1)
               else ((uint b0 mod 8) * 262144 + (uint (p ! 1) mod 64) * 4096
                      + (uint (p ! 2) mod 64) * 64 + uint (p ! 3) mod 64, 4)))"

definition FullRune :: "byte list \<Rightarrow> bool" where
  "FullRune p =
     (case p of
        [] \<Rightarrow> False
      | b0 # rest \<Rightarrow>
          (case utf8_first b0 of
             None \<Rightarrow> True
           | Some (sz, lo, hi) \<Rightarrow>
               length p \<ge> sz
               \<or> length p > 1 \<and> (p ! 1 < lo \<or> hi < p ! 1)
               \<or> length p > 2 \<and> \<not> is_cont (p ! 2)))"

section \<open>Write, Resize and the views of the screen\<close>

text \<open>The loop of \<open>Write\<close> over the bytes left.\<close>

function write_loop :: "(rune \<Rightarrow> bool) \<Rightarrow> byte list \<Rightarrow> virtual_terminal \<Rightarrow> virtual_terminal outcome" where
  "write_loop mark [] v = Done v"
| "write_loop mark (b # rest) v =
     (if vt_state v \<noteq> TerminalGround then
        and_then (consumeEscape mark b v) (write_loop mark rest)
      else if b < 0x80 then
        and_then (consumeControlOrRune mark b v) (write_loop mark rest)
      else
        let (r, size) = DecodeRune (b # rest)
        in if r = rune_error \<and> size = 1 \<and> \<not> FullRune (b # rest)
           then Done (v\<lparr>vt_utf8Pending := vt_utf8Pending v @ b # rest\<rparr>)
           else if r = rune_error \<and> size = 1 then write_loop mark rest v
           else
             let data = drop (size - 1) rest
             in if r \<ge> 0x80 \<and> r \<le> 0x9f then write_loop mark data v
                else and_then (on_current (\<lambda>cols rows. put mark cols rows r) v) (write_loop mark data))"
  by pat_completeness auto
termination
  by (relation "measure (\<lambda>(mark, data, v). length data)") auto

definition Write :: "(rune \<Rightarrow> bool) \<Rightarrow> byte list \<Rightarrow> virtual_terminal \<Rightarrow> (virtual_terminal \<times> int) outcome" where
  "Write mark data v =
     and_then (write_loop mark (vt_utf8Pending v @ data) (v\<lparr>vt_utf8Pending := []\<rparr>))
       (\<lambda>v. Done (v, int (length data)))"

definition resize_row :: "int \<Rightarrow> terminal_cell list \<Rightarrow> terminal_cell list" where
  "resize_row cols line =
     take (nat cols) line @ replicate (nat cols - length line) blank"

definition resize_screen :: "(rune \<Rightarrow> bool) \<Rightarrow> int \<Rightarrow> int \<Rightarrow> terminal_screen \<Rightarrow> terminal_screen outcome" where
  "resize_screen mark cols rows s =
     (let cells = map (resize_row cols) (take (nat rows) (ts_cells s))
                  @ replicate (nat rows - length (ts_cells s)) (blank_row cols)
      in and_then (for_range 0 (int (length cells)) (repairWideRow mark cols) (s\<lparr>ts_cells := cells\<rparr>)) (\<lambda>s.
         Done (s\<lparr>ts_row := clamp (ts_row s) 0 (rows - 1), ts_col := clamp (ts_col s) 0 (cols - 1),
                 ts_savedRow := clamp (ts_savedRow s) 0 (rows - 1),
                 ts_savedCol := clamp (ts_savedCol s) 0 (cols - 1),
                 ts_scrollTop := 0, ts_scrollBottom := rows - 1, ts_pendingWrap := False\<rparr>)))"

definition Resize :: "(rune \<Rightarrow> bool) \<Rightarrow> int \<Rightarrow> int \<Rightarrow> virtual_terminal \<Rightarrow> virtual_terminal outcome" where
  "Resize mark cols rows v =
     (let cols = (if cols < 1 then 1 else cols); rows = (if rows < 1 then 1 else rows)
      in and_then (resize_screen mark cols rows (vt_primary v)) (\<lambda>primary.
         and_then (resize_screen mark cols rows (vt_alternate v)) (\<lambda>alternate.
           Done (v\<lparr>vt_cols := cols, vt_rows := rows, vt_primary := primary, vt_alternate := alternate\<rparr>))))"

definition CursorPos :: "virtual_terminal \<Rightarrow> int \<times> int" where
  "CursorPos v = (ts_row (current v), ts_col (current v))"

definition trailing_blank :: "terminal_cell \<Rightarrow> bool" where
  "trailing_blank cell \<longleftrightarrow> \<not> continuation cell \<and> (tx cell = [] \<or> tx cell = [0x20])"

definition cell_text :: "bool \<Rightarrow> terminal_cell \<Rightarrow> rune list" where
  "cell_text omitContinuation cell =
     (if continuation cell then (if omitContinuation then [] else [0x20])
      else if tx cell \<noteq> [] then tx cell else [0x20])"

definition row_text :: "bool \<Rightarrow> terminal_cell list \<Rightarrow> rune list" where
  "row_text omitContinuation line =
     concat (map (cell_text omitContinuation) (rev (dropWhile trailing_blank (rev line))))"

text \<open>\<open>out[r]\<close> is written for every row of the grid; the slice has one entry per terminal row.\<close>

definition screenRows :: "bool \<Rightarrow> virtual_terminal \<Rightarrow> rune list list outcome" where
  "screenRows omitContinuation v =
     (let s = current v
      in if int (length (ts_cells s)) \<le> vt_rows v
         then Done (map (row_text omitContinuation) (ts_cells s)
                    @ replicate (nat (vt_rows v) - length (ts_cells s)) [])
         else Panic)"

text \<open>\<open>Cells\<close>: a copy of one row with the attributes of its cells; \<open>None\<close> is the nil slice of a row outside.\<close>

record terminal_view =
  cv_Text :: "rune list"
  cv_Faint :: bool
  cv_Wide :: bool

definition Cells :: "(rune \<Rightarrow> bool) \<Rightarrow> int \<Rightarrow> virtual_terminal \<Rightarrow> terminal_view list option outcome" where
  "Cells mark row v =
     (if row < 0 \<or> row \<ge> vt_rows v then Done None
      else
        and_then (index_at (ts_cells (current v)) row) (\<lambda>line.
          if int (length line) > vt_cols v then Panic
          else
            and_then (foldr (\<lambda>cell acc.
                and_then (first_wide mark cell) (\<lambda>wide.
                and_then acc (\<lambda>out.
                  Done (\<lparr>cv_Text = tx cell, cv_Faint = faint cell, cv_Wide = continuation cell \<or> wide\<rparr> # out))))
              line (Done []))
            (\<lambda>out. Done (Some (out @ replicate (nat (vt_cols v) - length line)
                                  \<lparr>cv_Text = [], cv_Faint = False, cv_Wide = False\<rparr>)))))"

section \<open>The shape of a screen\<close>

text \<open>The grid has the dimensions of the terminal.\<close>

definition grid_ok :: "int \<Rightarrow> int \<Rightarrow> terminal_cell list list \<Rightarrow> bool" where
  "grid_ok cols rows cells \<longleftrightarrow>
     int (length cells) = rows \<and> (\<forall>line \<in> set cells. int (length line) = cols)"

definition screen_ok :: "int \<Rightarrow> int \<Rightarrow> terminal_screen \<Rightarrow> bool" where
  "screen_ok cols rows s \<longleftrightarrow>
     grid_ok cols rows (ts_cells s)
     \<and> 0 \<le> ts_row s \<and> ts_row s < rows \<and> 0 \<le> ts_col s \<and> ts_col s < cols
     \<and> 0 \<le> ts_scrollTop s \<and> ts_scrollTop s \<le> ts_scrollBottom s \<and> ts_scrollBottom s < rows"

text \<open>A step that rewrites cells only: the grid keeps its shape, everything else its value.\<close>

definition redrawn :: "int \<Rightarrow> int \<Rightarrow> terminal_screen \<Rightarrow> terminal_screen \<Rightarrow> bool" where
  "redrawn cols rows s s' \<longleftrightarrow> grid_ok cols rows (ts_cells s') \<and> s' = s\<lparr>ts_cells := ts_cells s'\<rparr>"

lemma redrawn_refl: "grid_ok cols rows (ts_cells s) \<Longrightarrow> redrawn cols rows s s"
  by (simp add: redrawn_def)

lemma redrawn_trans: "\<lbrakk>redrawn cols rows s t; redrawn cols rows t u\<rbrakk> \<Longrightarrow> redrawn cols rows s u"
  unfolding redrawn_def by (cases s; cases t; cases u) simp

lemma redrawn_cells: "grid_ok cols rows cells \<Longrightarrow> redrawn cols rows s (s\<lparr>ts_cells := cells\<rparr>)"
  by (simp add: redrawn_def)

lemma redrawn_simps:
  assumes "redrawn cols rows s s'"
  shows "ts_row s' = ts_row s" "ts_col s' = ts_col s" "ts_scrollTop s' = ts_scrollTop s"
    "ts_scrollBottom s' = ts_scrollBottom s" "ts_faint s' = ts_faint s"
    "ts_pendingWrap s' = ts_pendingWrap s" "ts_joinNext s' = ts_joinNext s"
    "grid_ok cols rows (ts_cells s')"
  using assms unfolding redrawn_def by (cases s; cases s'; simp)+

lemma redrawn_screen_ok: "\<lbrakk>redrawn cols rows s s'; screen_ok cols rows s\<rbrakk> \<Longrightarrow> screen_ok cols rows s'"
  by (simp add: screen_ok_def redrawn_simps)

lemma screen_ok_grid: "screen_ok cols rows s \<Longrightarrow> grid_ok cols rows (ts_cells s)"
  by (simp add: screen_ok_def)

lemma index_at_ok: "\<lbrakk>0 \<le> i; i < int (length xs)\<rbrakk> \<Longrightarrow> index_at xs i = Done (xs ! nat i)"
  by (simp add: index_at_def)

lemma store_at_ok: "\<lbrakk>0 \<le> i; i < int (length xs)\<rbrakk> \<Longrightarrow> store_at xs i x = Done (xs[nat i := x])"
  by (simp add: store_at_def)

lemma grid_ok_nth:
  "\<lbrakk>grid_ok cols rows cells; 0 \<le> r; r < rows\<rbrakk> \<Longrightarrow> int (length (cells ! nat r)) = cols"
  by (auto simp: grid_ok_def)

lemma grid_ok_update:
  "\<lbrakk>grid_ok cols rows cells; int (length line) = cols\<rbrakk> \<Longrightarrow> grid_ok cols rows (cells[i := line])"
  by (auto simp: grid_ok_def dest!: set_update_subset_insert [THEN subsetD])

lemma put_row_ok:
  assumes "grid_ok cols rows (ts_cells s)" and "0 \<le> r" and "r < rows" and "int (length line) = cols"
  shows "ok_with (redrawn cols rows s) (put_row r line s)"
proof -
  from assms have "put_row r line s = Done (s\<lparr>ts_cells := (ts_cells s)[nat r := line]\<rparr>)"
    by (simp add: put_row_def store_at_ok grid_ok_def)
  with assms show ?thesis by (simp add: redrawn_cells grid_ok_update)
qed

lemma put_cell_ok:
  assumes "grid_ok cols rows (ts_cells s)" and "0 \<le> r" and "r < rows" and "0 \<le> c" and "c < cols"
  shows "ok_with (redrawn cols rows s) (put_cell r c x s)"
proof -
  let ?line = "(ts_cells s ! nat r)[nat c := x]"
  from assms grid_ok_nth [OF assms(1-3)]
  have "put_cell r c x s = Done (s\<lparr>ts_cells := (ts_cells s)[nat r := ?line]\<rparr>)"
    by (simp add: put_cell_def store_at_ok index_at_ok grid_ok_def)
  moreover from grid_ok_nth [OF assms(1-3)] have "int (length ?line) = cols" by simp
  ultimately show ?thesis using assms(1) by (simp add: redrawn_cells grid_ok_update)
qed

lemma cell_at_ok:
  assumes "grid_ok cols rows (ts_cells s)" and "0 \<le> r" and "r < rows" and "0 \<le> c" and "c < cols"
  shows "cell_at r c s = Done (ts_cells s ! nat r ! nat c)"
  using assms grid_ok_nth [OF assms(1-3)] by (simp add: cell_at_def index_at_ok grid_ok_def)

lemma clear_row_ok:
  assumes "grid_ok cols rows (ts_cells s)" and "0 \<le> r" and "r < rows"
  shows "ok_with (redrawn cols rows s) (clear_row r s)"
proof -
  from assms(1) have "int (length (ts_cells s)) = rows" by (simp add: grid_ok_def)
  with assms have "clear_row r s = put_row r (map (\<lambda>_. blank) (ts_cells s ! nat r)) s"
    by (simp add: clear_row_def index_at_ok)
  with put_row_ok [OF assms] grid_ok_nth [OF assms] show ?thesis by simp
qed

text \<open>A loop keeps what each of its iterations keeps.\<close>

lemma for_range_ok:
  assumes "P x" and "\<And>i y. \<lbrakk>lo \<le> i; i < hi; P y\<rbrakk> \<Longrightarrow> ok_with P (f i y)"
  shows "ok_with P (for_range lo hi f x)"
  using assms
proof (induction lo hi f x rule: for_range.induct)
  case (1 lo hi f x)
  show ?case
  proof (cases "lo < hi")
    case True
    have "ok_with P (f lo x)" using "1.prems" True by simp
    then show ?thesis
      unfolding for_range.simps [of lo hi f x] if_P [OF True]
      by (rule ok_with_bind) (rule "1.IH" [OF True], use "1.prems" in auto)
  qed (simp add: for_range.simps [of lo hi f x] "1.prems")
qed

lemma redraw_after:
  "\<lbrakk>redrawn cols rows s x; ok_with (redrawn cols rows x) m\<rbrakk> \<Longrightarrow> ok_with (redrawn cols rows s) m"
  using ok_with_mono redrawn_trans by blast

lemma redraw_loop:
  assumes "grid_ok cols rows (ts_cells s)"
    and "\<And>i s'. \<lbrakk>lo \<le> i; i < hi; grid_ok cols rows (ts_cells s')\<rbrakk> \<Longrightarrow> ok_with (redrawn cols rows s') (f i s')"
  shows "ok_with (redrawn cols rows s) (for_range lo hi f s)"
proof (rule for_range_ok)
  show "redrawn cols rows s s" by (rule redrawn_refl [OF assms(1)])
  fix i y assume "lo \<le> i" "i < hi" "redrawn cols rows s y"
  note y = this
  from assms(2) [OF y(1,2) redrawn_simps(8) [OF y(3)]]
  show "ok_with (redrawn cols rows s) (f i y)" by (rule redraw_after [OF y(3)])
qed

lemma redraw_bind:
  assumes "ok_with (redrawn cols rows s) m"
    and "\<And>s'. grid_ok cols rows (ts_cells s') \<Longrightarrow> ok_with (redrawn cols rows s') (f s')"
  shows "ok_with (redrawn cols rows s) (and_then m f)"
proof (rule ok_with_bind [OF assms(1)])
  fix x assume x: "redrawn cols rows s x"
  from assms(2) [OF redrawn_simps(8) [OF x]]
  show "ok_with (redrawn cols rows s) (f x)" by (rule redraw_after [OF x])
qed

lemma eraseWideAt_ok:
  assumes "grid_ok cols rows (ts_cells s)" and "0 \<le> r" and "r < rows"
  shows "ok_with (redrawn cols rows s) (eraseWideAt cols r c s)"
proof (cases "c < 0 \<or> c \<ge> cols")
  case True
  with assms(1) show ?thesis by (simp add: eraseWideAt_def redrawn_refl)
next
  case False
  have keep: "ok_with (redrawn cols rows s') (Done s')" if "grid_ok cols rows (ts_cells s')" for s'
    using that by (simp add: redrawn_refl)
  have left: "ok_with (redrawn cols rows s) (if b \<and> c > 0 then put_cell r (c - 1) blank s else Done s)" for b
    using put_cell_ok [of cols rows s r "c - 1"] keep assms False by auto
  have right: "ok_with (redrawn cols rows s')
      (if c + 1 < cols then and_then (cell_at r (c + 1) s') (\<lambda>next.
         if continuation next then put_cell r (c + 1) blank s' else Done s') else Done s')"
    if "grid_ok cols rows (ts_cells s')" for s'
    using put_cell_ok [of cols rows s' r "c + 1"] cell_at_ok [of cols rows s' r "c + 1"] keep assms False that
    by auto
  from False have e: "\<not> (c < 0 \<or> c \<ge> cols)" "0 \<le> c" "c < cols" by auto
  show ?thesis
    unfolding eraseWideAt_def if_not_P [OF e(1)] cell_at_ok [OF assms e(2,3)] and_then.simps
    by (intro redraw_bind [OF left] redraw_bind [OF right] put_cell_ok assms(2,3) e(2,3))
qed

section \<open>No operation on a screen panics\<close>

lemma eraseLine_ok:
  assumes "grid_ok cols rows (ts_cells s)" and "0 \<le> ts_row s" and "ts_row s < rows"
  shows "ok_with (redrawn cols rows s) (eraseLine cols mode s)"
  unfolding eraseLine_def using assms
  by (auto intro!: redraw_loop eraseWideAt_ok redrawn_refl)

lemma clear_rows_ok:
  assumes "grid_ok cols rows (ts_cells s)" and "0 \<le> lo" and "hi \<le> rows"
  shows "ok_with (redrawn cols rows s) (for_range lo hi clear_row s)"
  using assms by (intro redraw_loop clear_row_ok) auto

lemma eraseDisplay_ok:
  assumes "screen_ok cols rows s"
  shows "ok_with (redrawn cols rows s) (eraseDisplay cols rows mode s)"
proof -
  from assms have s: "grid_ok cols rows (ts_cells s)" "0 \<le> ts_row s" "ts_row s < rows"
    "int (length (ts_cells s)) = rows" by (auto simp: screen_ok_def grid_ok_def)
  have below: "ok_with (redrawn cols rows s) (and_then (eraseLine cols 0 s) (\<lambda>s. for_range (ts_row s + 1) rows clear_row s))"
  proof (rule ok_with_bind [OF eraseLine_ok [OF s(1-3)]])
    fix x assume x: "redrawn cols rows s x"
    have "ok_with (redrawn cols rows x) (for_range (ts_row x + 1) rows clear_row x)"
      using s(2) redrawn_simps [OF x] by (intro clear_rows_ok) auto
    then show "ok_with (redrawn cols rows s) (for_range (ts_row x + 1) rows clear_row x)"
      by (rule redraw_after [OF x])
  qed
  have above: "ok_with (redrawn cols rows s) (and_then (for_range 0 (ts_row s) clear_row s) (eraseLine cols 1))"
  proof (rule ok_with_bind)
    show "ok_with (redrawn cols rows s) (for_range 0 (ts_row s) clear_row s)"
      using s by (intro clear_rows_ok) auto
    fix x assume x: "redrawn cols rows s x"
    have "ok_with (redrawn cols rows x) (eraseLine cols 1 x)"
      using s(2,3) redrawn_simps [OF x] by (intro eraseLine_ok) auto
    then show "ok_with (redrawn cols rows s) (eraseLine cols 1 x)"
      by (rule redraw_after [OF x])
  qed
  have all: "ok_with (redrawn cols rows s) (for_range 0 (int (length (ts_cells s))) clear_row s)"
    using s by (intro clear_rows_ok) auto
  show ?thesis using below above all s(1) by (simp add: eraseDisplay_def redrawn_refl)
qed

text \<open>A copy within a slice keeps its length and invents no element.\<close>

lemma copy_within_ok:
  assumes "0 \<le> a" "a \<le> b" "b \<le> int (length xs)" "0 \<le> c" "c \<le> d" "d \<le> int (length xs)"
  shows "ok_with (\<lambda>ys. length ys = length xs \<and> set ys \<subseteq> set xs) (copy_within xs a b c d)"
proof -
  let ?n = "nat (min (b - a) (d - c))"
  from assms have n: "nat a + ?n \<le> length xs" "nat c + ?n \<le> length xs" by auto
  then have m: "?n \<le> length xs - nat c" by linarith
  have "set (take ?n (drop (nat c) xs)) \<subseteq> set xs"
    by (meson set_drop_subset set_take_subset subset_trans)
  moreover have "set (take (nat a) xs) \<subseteq> set xs" "set (drop (nat a + ?n) xs) \<subseteq> set xs"
    by (rule set_take_subset) (rule set_drop_subset)
  ultimately show ?thesis
    using assms n min_absorb2 [OF m] unfolding copy_within_def Let_def by simp
qed

lemma copy_rows_ok:
  assumes "grid_ok cols rows cells" and "0 \<le> a" "a \<le> b" "b \<le> rows" "0 \<le> c" "c \<le> d" "d \<le> rows"
  shows "ok_with (grid_ok cols rows) (copy_within cells a b c d)"
  by (rule ok_with_mono [OF copy_within_ok]) (use assms in \<open>auto simp: grid_ok_def\<close>)

lemma length_blank_row [simp]: "0 \<le> cols \<Longrightarrow> int (length (blank_row cols)) = cols"
  by (simp add: blank_row_def)

lemma blank_rows_ok:
  assumes "grid_ok cols rows cells" and "0 \<le> lo" and "hi \<le> rows" and "0 \<le> cols"
  shows "ok_with (redrawn cols rows s) (for_range lo hi (\<lambda>i. put_row i (blank_row cols)) (s\<lparr>ts_cells := cells\<rparr>))"
proof (rule ok_with_mono [OF redraw_loop])
  show "grid_ok cols rows (ts_cells (s\<lparr>ts_cells := cells\<rparr>))" using assms by simp
  show "\<And>i s'. \<lbrakk>lo \<le> i; i < hi; grid_ok cols rows (ts_cells s')\<rbrakk>
      \<Longrightarrow> ok_with (redrawn cols rows s') (put_row i (blank_row cols) s')"
    using assms(2-4) by (intro put_row_ok) auto
  show "\<And>x. redrawn cols rows (s\<lparr>ts_cells := cells\<rparr>) x \<Longrightarrow> redrawn cols rows s x"
    by (rule redrawn_trans [OF redrawn_cells [OF assms(1)]])
qed

lemma scrollUpAt_ok:
  assumes "screen_ok cols rows s" and "0 \<le> n"
  shows "ok_with (redrawn cols rows s) (scrollUpAt cols r n s)"
proof (cases "r < ts_scrollTop s \<or> r > ts_scrollBottom s")
  case True
  with assms(1) show ?thesis by (simp add: scrollUpAt_def redrawn_refl screen_ok_grid)
next
  case False
  let ?n = "min n (ts_scrollBottom s - r + 1)"
  from assms False have b: "0 \<le> r" "0 \<le> ?n" "r + ?n \<le> ts_scrollBottom s + 1" "ts_scrollBottom s < rows" "0 \<le> cols"
    by (auto simp: screen_ok_def)
  have "ok_with (grid_ok cols rows)
      (copy_within (ts_cells s) r (ts_scrollBottom s + 1 - ?n) (r + ?n) (ts_scrollBottom s + 1))"
    using b by (intro copy_rows_ok screen_ok_grid [OF assms(1)]) auto
  then show ?thesis
    unfolding scrollUpAt_def Let_def if_not_P [OF False]
    by (rule ok_with_bind) (rule blank_rows_ok, use b in auto)
qed

lemma scrollDownAt_ok:
  assumes "screen_ok cols rows s" and "0 \<le> n"
  shows "ok_with (redrawn cols rows s) (scrollDownAt cols r n s)"
proof (cases "r < ts_scrollTop s \<or> r > ts_scrollBottom s")
  case True
  with assms(1) show ?thesis by (simp add: scrollDownAt_def redrawn_refl screen_ok_grid)
next
  case False
  let ?n = "min n (ts_scrollBottom s - r + 1)"
  from assms False have b: "0 \<le> r" "0 \<le> ?n" "r + ?n \<le> ts_scrollBottom s + 1" "ts_scrollBottom s < rows" "0 \<le> cols"
    by (auto simp: screen_ok_def)
  have "ok_with (grid_ok cols rows)
      (copy_within (ts_cells s) (r + ?n) (ts_scrollBottom s + 1) r (ts_scrollBottom s + 1 - ?n))"
    using b by (intro copy_rows_ok screen_ok_grid [OF assms(1)]) auto
  then show ?thesis
    unfolding scrollDownAt_def Let_def if_not_P [OF False]
    by (rule ok_with_bind) (rule blank_rows_ok, use b in auto)
qed

lemma redrawn_keeps_ok:
  "\<lbrakk>ok_with (redrawn cols rows s) m; screen_ok cols rows s\<rbrakk> \<Longrightarrow> ok_with (screen_ok cols rows) m"
  using ok_with_mono redrawn_screen_ok by blast

lemma lineFeed_ok:
  assumes "screen_ok cols rows s"
  shows "ok_with (\<lambda>s'. screen_ok cols rows s' \<and> ts_col s' = ts_col s \<and> ts_pendingWrap s' = ts_pendingWrap s)
           (lineFeed cols rows s)"
proof (cases "ts_row s = ts_scrollBottom s")
  case True
  have "ok_with (redrawn cols rows s) (scrollUpAt cols (ts_scrollTop s) 1 s)"
    using assms by (rule scrollUpAt_ok) simp
  then show ?thesis
    unfolding lineFeed_def if_P [OF True] scrollUp_def
    by (rule ok_with_mono) (use assms in \<open>auto simp: redrawn_simps intro: redrawn_screen_ok\<close>)
next
  case False
  with assms show ?thesis by (auto simp: lineFeed_def screen_ok_def)
qed

lemma reverseIndex_ok:
  assumes "screen_ok cols rows s"
  shows "ok_with (screen_ok cols rows) (reverseIndex cols rows s)"
proof (cases "ts_row s = ts_scrollTop s")
  case True
  have "ok_with (redrawn cols rows s) (scrollDownAt cols (ts_scrollTop s) 1 s)"
    using assms by (rule scrollDownAt_ok) simp
  with True assms show ?thesis by (simp add: reverseIndex_def scrollDown_def redrawn_keeps_ok)
next
  case False
  with assms show ?thesis by (auto simp: reverseIndex_def screen_ok_def)
qed

lemma previousCell_ok:
  assumes "screen_ok cols rows s"
  shows "ok_with (\<lambda>c. c < cols \<and> - 1 \<le> c) (previousCell s)"
proof -
  let ?c = "if ts_pendingWrap s then ts_col s else ts_col s - 1"
  from assms have s: "grid_ok cols rows (ts_cells s)" "0 \<le> ts_row s" "ts_row s < rows" "?c < cols" "- 1 \<le> ?c"
    by (auto simp: screen_ok_def)
  show ?thesis
  proof (cases "?c \<ge> 0")
    case True
    with cell_at_ok [OF s(1-3) True s(4)] s show ?thesis by (simp add: previousCell_def Let_def)
  next
    case False
    with s show ?thesis by (simp add: previousCell_def Let_def)
  qed
qed

lemma put_combining_ok:
  assumes "screen_ok cols rows s"
  shows "ok_with (screen_ok cols rows) (put_combining ch s)"
proof -
  from assms have s: "grid_ok cols rows (ts_cells s)" "0 \<le> ts_row s" "ts_row s < rows"
    by (auto simp: screen_ok_def)
  have "ok_with (screen_ok cols rows)
      (and_then (if c \<ge> 0 then and_then (cell_at (ts_row s) c s) (\<lambda>cell.
           put_cell (ts_row s) c (cell\<lparr>tx := tx cell @ [ch]\<rparr>) s) else Done s)
         (\<lambda>s. Done (s\<lparr>ts_joinNext := (ch = 0x200d)\<rparr>)))" if c: "c < cols \<and> - 1 \<le> c" for c
  proof (cases "c \<ge> 0")
    case True
    have "ok_with (screen_ok cols rows)
        (and_then (cell_at (ts_row s) c s) (\<lambda>cell. put_cell (ts_row s) c (cell\<lparr>tx := tx cell @ [ch]\<rparr>) s))"
      using cell_at_ok [OF s True] redrawn_keeps_ok [OF put_cell_ok [OF s True] assms] c by simp
    then show ?thesis
      unfolding if_P [OF True] by (rule ok_with_bind) (simp add: screen_ok_def)
  next
    case False
    with assms show ?thesis by (simp add: screen_ok_def)
  qed
  with previousCell_ok [OF assms] show ?thesis
    unfolding put_combining_def by (rule ok_with_bind)
qed

lemma put_spacing_ok:
  assumes "screen_ok cols rows s" and "w = 1 \<or> w = 2 \<and> ts_col s + 1 < cols"
  shows "ok_with (screen_ok cols rows) (put_spacing cols ch w s)"
proof -
  from assms(1) have s: "grid_ok cols rows (ts_cells s)" "0 \<le> ts_row s" "ts_row s < rows"
    "0 \<le> ts_col s" "ts_col s < cols" by (auto simp: screen_ok_def)
  have free: "ok_with (redrawn cols rows s)
      (and_then (eraseWideAt cols (ts_row s) (ts_col s) s) (\<lambda>s.
         if w = 2 then eraseWideAt cols (ts_row s) (ts_col s + 1) s else Done s))"
  proof (rule ok_with_bind [OF eraseWideAt_ok [OF s(1-3)]])
    fix x assume x: "redrawn cols rows s x"
    have "ok_with (redrawn cols rows x) (if w = 2 then eraseWideAt cols (ts_row x) (ts_col x + 1) x else Done x)"
      using s redrawn_simps [OF x] by (simp add: redrawn_refl eraseWideAt_ok)
    then show "ok_with (redrawn cols rows s) (if w = 2 then eraseWideAt cols (ts_row x) (ts_col x + 1) x else Done x)"
      by (rule redraw_after [OF x])
  qed
  have store: "ok_with (redrawn cols rows s)
      (and_then (put_cell (ts_row x) (ts_col x) a x) (\<lambda>x. if w = 2 then put_cell (ts_row x) (ts_col x + 1) (b x) x else Done x))"
    if x: "redrawn cols rows s x" for x a b
  proof (rule ok_with_bind)
    have "ok_with (redrawn cols rows x) (put_cell (ts_row x) (ts_col x) a x)"
      using s by (intro put_cell_ok) (simp_all add: redrawn_simps [OF x])
    then show "ok_with (redrawn cols rows s) (put_cell (ts_row x) (ts_col x) a x)"
      by (rule redraw_after [OF x])
    fix y assume y: "redrawn cols rows s y"
    have "ok_with (redrawn cols rows y) (if w = 2 then put_cell (ts_row y) (ts_col y + 1) (b y) y else Done y)"
      using s assms(2) redrawn_simps [OF y] by (cases "w = 2") (simp_all add: redrawn_refl put_cell_ok)
    then show "ok_with (redrawn cols rows s) (if w = 2 then put_cell (ts_row y) (ts_col y + 1) (b y) y else Done y)"
      by (rule redraw_after [OF y])
  qed
  have move: "screen_ok cols rows (let z = z\<lparr>ts_col := ts_col z + w\<rparr>
      in if ts_col z \<ge> cols then z\<lparr>ts_col := cols - 1, ts_pendingWrap := True\<rparr> else z)"
    if "redrawn cols rows s z" for z
    using assms redrawn_simps [OF that] by (auto simp: screen_ok_def Let_def)
  let ?free = "and_then (eraseWideAt cols (ts_row s) (ts_col s) s) (\<lambda>s.
      if w = 2 then eraseWideAt cols (ts_row s) (ts_col s + 1) s else Done s)"
  let ?store = "\<lambda>s. and_then (put_cell (ts_row s) (ts_col s) \<lparr>tx = [ch], continuation = False, faint = ts_faint s\<rparr> s)
      (\<lambda>s. if w = 2 then put_cell (ts_row s) (ts_col s + 1) \<lparr>tx = [], continuation = True, faint = ts_faint s\<rparr> s
            else Done s)"
  let ?move = "\<lambda>z. Done (let z = z\<lparr>ts_col := ts_col z + w\<rparr>
      in if ts_col z \<ge> cols then z\<lparr>ts_col := cols - 1, ts_pendingWrap := True\<rparr> else z)"
  have "put_spacing cols ch w s = and_then (and_then ?free ?store) ?move"
    by (simp add: put_spacing_def and_then_assoc Let_def)
  moreover have "ok_with (redrawn cols rows s) (and_then ?free ?store)"
    by (rule ok_with_bind [OF free]) (rule store)
  ultimately show ?thesis using ok_with_bind [of "redrawn cols rows s" _ _ ?move] move by simp
qed

lemma put_ok:
  assumes "screen_ok cols rows s"
  shows "ok_with (screen_ok cols rows) (put mark cols rows ch s)"
proof -
  obtain w where w: "RuneWidth mark ch = Done w" "w = 0 \<or> w = 1 \<or> w = 2"
    using RuneWidth_cases [of mark ch] by auto
  have wrap: "ok_with (screen_ok cols rows) (if ts_pendingWrap s
      then lineFeed cols rows (s\<lparr>ts_col := 0, ts_pendingWrap := False\<rparr>) else Done s)"
    using assms ok_with_mono [OF lineFeed_ok [of cols rows "s\<lparr>ts_col := 0, ts_pendingWrap := False\<rparr>"]]
    by (auto simp: screen_ok_def)
  have last: "ok_with (screen_ok cols rows)
      (and_then (if w' = 2 \<and> ts_col x = cols - 1 then lineFeed cols rows (x\<lparr>ts_col := 0\<rparr>) else Done x)
        (put_spacing cols ch w'))"
    if x: "screen_ok cols rows x" and w': "w' = 1 \<or> w' = 2 \<and> 2 \<le> cols" for x w'
  proof (cases "w' = 2 \<and> ts_col x = cols - 1")
    case True
    have "screen_ok cols rows (x\<lparr>ts_col := 0\<rparr>)" using x by (simp add: screen_ok_def)
    from lineFeed_ok [OF this] show ?thesis
      unfolding if_P [OF True]
      by (rule ok_with_bind) (rule put_spacing_ok, use w' True in auto)
  next
    case False
    with x w' show ?thesis by (auto intro!: put_spacing_ok simp: screen_ok_def)
  qed
  show ?thesis
  proof (cases "w = 0 \<or> ts_joinNext s")
    case True
    with w put_combining_ok [OF assms] show ?thesis by (simp add: put_def)
  next
    case False
    have "ok_with (screen_ok cols rows)
      (and_then (if ts_pendingWrap s then lineFeed cols rows (s\<lparr>ts_col := 0, ts_pendingWrap := False\<rparr>) else Done s)
        (\<lambda>x. let w = (if cols < 2 \<and> w = 2 then 1 else w)
             in and_then (if w = 2 \<and> ts_col x = cols - 1 then lineFeed cols rows (x\<lparr>ts_col := 0\<rparr>) else Done x)
                  (put_spacing cols ch w)))"
      by (rule ok_with_bind [OF wrap], unfold Let_def, rule last) (use w(2) False in auto)
    then show ?thesis unfolding put_def w(1) and_then.simps if_not_P [OF False] .
  qed
qed

lemma first_wide_done: "\<exists>b. first_wide mark cell = Done b"
  using RuneWidth_cases [of mark "hd (tx cell)"] by (auto simp: first_wide_def)

lemma repair_cell_ok:
  assumes "grid_ok cols rows (ts_cells s)" and "0 \<le> r" and "r < rows" and "0 \<le> c" and "c < cols"
  shows "ok_with (redrawn cols rows s) (repair_cell mark cols r c s)"
proof -
  let ?cell = "ts_cells s ! nat r ! nat c"
  note put = put_cell_ok [OF assms] and keep = redrawn_refl [OF assms(1)]
  obtain b where b: "first_wide mark ?cell = Done b" using first_wide_done by blast
  have left: "c = 0 \<or> (\<exists>l w. cell_at r (c - 1) s = Done l \<and> first_wide mark l = Done w)"
    using cell_at_ok [OF assms(1-3), of "c - 1"] first_wide_done assms(4,5) by force
  have right: "c + 1 \<ge> cols \<or> (\<exists>n. cell_at r (c + 1) s = Done n)"
    using cell_at_ok [OF assms(1-3), of "c + 1"] assms(4) by force
  show ?thesis
    using left right put keep b
    unfolding repair_cell_def cell_at_ok [OF assms] and_then.simps by auto
qed

lemma repairWideRow_ok:
  assumes "grid_ok cols rows (ts_cells s)" and "0 \<le> r" and "r < rows"
  shows "ok_with (redrawn cols rows s) (repairWideRow mark cols r s)"
  unfolding repairWideRow_def using assms
  by (auto intro!: redraw_loop repair_cell_ok redrawn_refl)

lemma store_loop_ok:
  assumes "0 \<le> lo" and "hi \<le> int (length l)"
  shows "ok_with (\<lambda>l'. length l' = length l) (for_range lo hi (\<lambda>i l. store_at l i x) l)"
  by (rule for_range_ok) (use assms in \<open>auto simp: store_at_ok\<close>)

lemma shiftChars_ok:
  assumes "screen_ok cols rows s" and "0 \<le> n"
  shows "ok_with (redrawn cols rows s) (shiftChars mark cols n ins s)"
proof -
  let ?r = "ts_row s" and ?c = "ts_col s" and ?line = "ts_cells s ! nat (ts_row s)"
  let ?n = "min n (cols - ?c)"
  from assms(1) have s: "grid_ok cols rows (ts_cells s)" "0 \<le> ?r" "?r < rows" "0 \<le> ?c" "?c < cols"
    "int (length (ts_cells s)) = rows" by (auto simp: screen_ok_def grid_ok_def)
  note line = grid_ok_nth [OF s(1-3)]
  have insert: "ok_with (\<lambda>l. int (length l) = cols)
      (and_then (copy_within ?line (?c + ?n) (int (length ?line)) ?c (cols - ?n))
         (for_range ?c (?c + ?n) (\<lambda>i l. store_at l i blank)))"
    by (rule ok_with_bind [OF copy_within_ok], use s line assms(2) in simp_all)
       (rule ok_with_mono [OF store_loop_ok], use s line assms(2) in auto)
  have delete: "ok_with (\<lambda>l. int (length l) = cols)
      (and_then (copy_within ?line ?c (int (length ?line)) (?c + ?n) (int (length ?line)))
         (for_range (cols - ?n) cols (\<lambda>i l. store_at l i blank)))"
    by (rule ok_with_bind [OF copy_within_ok], use s line assms(2) in simp_all)
       (rule ok_with_mono [OF store_loop_ok], use s line assms(2) in auto)
  have shift: "ok_with (\<lambda>l. int (length l) = cols)
      (if ins then and_then (copy_within ?line (?c + ?n) (int (length ?line)) ?c (cols - ?n))
                     (for_range ?c (?c + ?n) (\<lambda>i l. store_at l i blank))
       else and_then (copy_within ?line ?c (int (length ?line)) (?c + ?n) (int (length ?line)))
              (for_range (cols - ?n) cols (\<lambda>i l. store_at l i blank)))"
    using insert delete by (cases ins) simp_all
  have finish: "ok_with (redrawn cols rows s) (and_then (put_row ?r l s) (repairWideRow mark cols ?r))"
    if "int (length l) = cols" for l
    by (rule redraw_bind [OF put_row_ok [OF s(1-3) that]]) (rule repairWideRow_ok [OF _ s(2,3)])
  show ?thesis
    unfolding shiftChars_def Let_def index_at_ok [OF s(2) s(3) [folded s(6)]] and_then.simps
    by (rule ok_with_bind [OF shift]) (rule finish)
qed

section \<open>Parameters are bounded\<close>

lemma param_value_range: "\<lbrakk>0 \<le> n; n \<le> 65535\<rbrakk> \<Longrightarrow> 0 \<le> param_value n f \<and> param_value n f \<le> 65535"
proof (induction n f rule: param_value.induct)
  case (2 n c rest)
  show ?case
  proof (cases "c < 0x30 \<or> c > 0x39 \<or> n > 6553 \<or> n = 6553 \<and> uint c - 0x30 > 5")
    case True
    then show ?thesis by auto
  next
    case False
    then have digit: "0x30 \<le> uint c" "uint c \<le> 0x39"
      by (auto simp: word_less_def word_le_def not_less)
    have "0 \<le> n * 10 + (uint c - 0x30)" "n * 10 + (uint c - 0x30) \<le> 65535"
      using "2.prems" digit False by (cases "n = 6553"; simp)+
    with "2.IH" False show ?thesis by simp
  qed
qed simp

lemma parseTerminalParams_range: "p \<in> set (parseTerminalParams raw) \<Longrightarrow> 0 \<le> p \<and> p \<le> 65535"
  using param_value_range [of 0] by (auto simp: parseTerminalParams_def split: if_splits)

lemma parseTerminalParams_not_Nil: "parseTerminalParams raw \<noteq> []"
proof -
  obtain f rest where "split_on 0x3b raw = f # rest" by (cases "split_on 0x3b raw") auto
  then show ?thesis by (simp add: parseTerminalParams_def)
qed

lemma csi_param_range:
  "0 \<le> def \<Longrightarrow> 0 \<le> csi_param (parseTerminalParams raw) i def"
  using parseTerminalParams_range [of "parseTerminalParams raw ! i" raw]
  by (auto simp: csi_param_def)

lemma privateEraseMode_done: "\<exists>m. privateEraseMode raw = Done m"
  using parseTerminalParams_not_Nil [of "tl raw"]
  by (auto simp: privateEraseMode_def index_at_def)

lemma sgr_fields_done: "\<exists>fs. sgr_fields raw = Done fs"
proof -
  have "\<exists>fs. foldr (\<lambda>field acc.
         and_then (index_at (parseTerminalParams (takeWhile (\<lambda>b. b \<noteq> 0x3a) field)) 0) (\<lambda>value.
         and_then acc (\<lambda>fs. Done ((value, 0x3a \<in> set field) # fs)))) fields (Done []) = Done fs" for fields
    by (induction fields) (auto simp: index_at_def parseTerminalParams_not_Nil)
  then show ?thesis by (simp add: sgr_fields_def)
qed

lemma clamp_range: "0 \<le> hi \<Longrightarrow> 0 \<le> clamp n 0 hi \<and> clamp n 0 hi \<le> hi"
  by (simp add: clamp_def)

lemma restore_cursor_ok:
  "screen_ok cols rows s \<Longrightarrow> screen_ok cols rows (restore_cursor cols rows s)"
  using clamp_range [of "rows - 1" "ts_savedRow s"] clamp_range [of "cols - 1" "ts_savedCol s"]
  by (simp add: screen_ok_def restore_cursor_def)

lemma save_cursor_ok: "screen_ok cols rows s \<Longrightarrow> screen_ok cols rows (save_cursor s)"
  by (simp add: screen_ok_def save_cursor_def)

lemma set_region_ok: "screen_ok cols rows s \<Longrightarrow> screen_ok cols rows (set_region rows p q s)"
  using clamp_range [of "rows - 1" "p - 1"] clamp_range [of "rows - 1" "q - 1"]
  by (auto simp: screen_ok_def set_region_def Let_def)

lemma ok_with_if:
  "\<lbrakk>c \<Longrightarrow> ok_with P x; \<not> c \<Longrightarrow> ok_with P y\<rbrakk> \<Longrightarrow> ok_with P (if c then x else y)"
  by simp

lemma screen_ok_move:
  assumes "screen_ok cols rows s"
  shows "\<lbrakk>0 \<le> r \<and> r \<le> rows - 1; 0 \<le> c \<and> c \<le> cols - 1\<rbrakk> \<Longrightarrow> screen_ok cols rows (s\<lparr>ts_row := r, ts_col := c\<rparr>)"
    and "0 \<le> r \<and> r \<le> rows - 1 \<Longrightarrow> screen_ok cols rows (s\<lparr>ts_row := r\<rparr>)"
    and "0 \<le> c \<and> c \<le> cols - 1 \<Longrightarrow> screen_ok cols rows (s\<lparr>ts_col := c\<rparr>)"
    and "screen_ok cols rows (s\<lparr>ts_faint := b\<rparr>)"
    and "screen_ok cols rows (s\<lparr>ts_pendingWrap := b\<rparr>)"
    and "screen_ok cols rows (s\<lparr>ts_joinNext := b\<rparr>)"
  using assms by (auto simp: screen_ok_def)

lemma screen_ok_relative:
  assumes "screen_ok cols rows s" and "0 \<le> n"
  shows "screen_ok cols rows (s\<lparr>ts_row := max 0 (ts_row s - n)\<rparr>)"
    and "screen_ok cols rows (s\<lparr>ts_row := min (rows - 1) (ts_row s + n)\<rparr>)"
    and "screen_ok cols rows (s\<lparr>ts_col := min (cols - 1) (ts_col s + n)\<rparr>)"
    and "screen_ok cols rows (s\<lparr>ts_col := max 0 (ts_col s - n)\<rparr>)"
  using assms by (auto simp: screen_ok_def)

lemma screen_ok_clamp:
  assumes "screen_ok cols rows s"
  shows "screen_ok cols rows (s\<lparr>ts_row := clamp a 0 (rows - 1), ts_col := clamp b 0 (cols - 1)\<rparr>)"
    and "screen_ok cols rows (s\<lparr>ts_row := clamp a 0 (rows - 1)\<rparr>)"
    and "screen_ok cols rows (s\<lparr>ts_col := clamp b 0 (cols - 1)\<rparr>)"
  using assms clamp_range [of "rows - 1" a] clamp_range [of "cols - 1" b] by (auto simp: screen_ok_def)

lemma screen_ok_erase:
  assumes "screen_ok cols rows s"
  shows "ok_with (screen_ok cols rows) (eraseLine cols m s)"
    and "ok_with (screen_ok cols rows) (eraseDisplay cols rows m s)"
    and "ok_with (screen_ok cols rows) (for_range lo hi (eraseWideAt cols (ts_row s)) s)"
  using assms
  by (auto intro!: redrawn_keeps_ok [OF _ assms] eraseLine_ok eraseDisplay_ok redraw_loop eraseWideAt_ok
      simp: screen_ok_def)

lemma csi_dispatch_ok:
  assumes s: "screen_ok cols rows s"
  shows "ok_with (screen_ok cols rows) (csi_dispatch mark cols rows final raw s)"
proof -
  have n: "0 \<le> csi_param (parseTerminalParams raw) 0 1" by (rule csi_param_range) simp
  obtain fs where fs: "sgr_fields raw = Done fs" using sgr_fields_done by blast
  note scroll = redrawn_keeps_ok [OF scrollUpAt_ok [OF s n] s] redrawn_keeps_ok [OF scrollDownAt_ok [OF s n] s]
    redrawn_keeps_ok [OF shiftChars_ok [OF s n] s]
  show ?thesis
    unfolding csi_dispatch_def Let_def fs and_then.simps scrollUp_def scrollDown_def
    by (intro ok_with_if)
       (simp_all add: s screen_ok_move [OF s] screen_ok_relative [OF s n] screen_ok_erase [OF s] scroll
         screen_ok_clamp [OF s] save_cursor_ok restore_cursor_ok set_region_ok)
qed

lemma csi_on_screen_ok:
  "screen_ok cols rows s \<Longrightarrow> ok_with (screen_ok cols rows) (csi_on_screen mark cols rows final raw s)"
  unfolding csi_on_screen_def by (rule csi_dispatch_ok) (simp add: screen_ok_def)

section \<open>No input makes the terminal panic\<close>

definition vterm_ok :: "virtual_terminal \<Rightarrow> bool" where
  "vterm_ok v \<longleftrightarrow>
     screen_ok (vt_cols v) (vt_rows v) (vt_primary v) \<and> screen_ok (vt_cols v) (vt_rows v) (vt_alternate v)"

lemma newScreen_ok: "\<lbrakk>1 \<le> cols; 1 \<le> rows\<rbrakk> \<Longrightarrow> screen_ok cols rows (newScreen cols rows)"
  by (auto simp: screen_ok_def newScreen_def grid_ok_def)

lemma NewVirtualTerminal_ok: "vterm_ok (NewVirtualTerminal cols rows)"
  by (simp add: vterm_ok_def NewVirtualTerminal_def Let_def newScreen_ok)

lemma current_ok: "vterm_ok v \<Longrightarrow> screen_ok (vt_cols v) (vt_rows v) (current v)"
  by (simp add: vterm_ok_def current_def)

lemma set_current_ok: "\<lbrakk>vterm_ok v; screen_ok (vt_cols v) (vt_rows v) s\<rbrakk> \<Longrightarrow> vterm_ok (set_current s v)"
  by (simp add: vterm_ok_def set_current_def)

lemma vterm_ok_dims: "vterm_ok v \<Longrightarrow> 1 \<le> vt_cols v \<and> 1 \<le> vt_rows v"
  by (auto simp: vterm_ok_def screen_ok_def)

lemma vterm_ok_parser [simp]:
  "vterm_ok (v\<lparr>vt_state := st\<rparr>) = vterm_ok v"
  "vterm_ok (v\<lparr>vt_sequence := q\<rparr>) = vterm_ok v"
  "vterm_ok (v\<lparr>vt_sequenceBytes := n\<rparr>) = vterm_ok v"
  "vterm_ok (v\<lparr>vt_utf8Pending := p\<rparr>) = vterm_ok v"
  by (simp_all add: vterm_ok_def)

lemma ground_ok [simp]: "vterm_ok (ground v) = vterm_ok v"
  by (simp add: ground_def)

lemma on_current_ok:
  assumes "vterm_ok v"
    and "\<And>cols rows s. screen_ok cols rows s \<Longrightarrow> ok_with (screen_ok cols rows) (f cols rows s)"
  shows "ok_with vterm_ok (on_current f v)"
  unfolding on_current_def
  by (rule ok_with_bind [OF assms(2) [OF current_ok [OF assms(1)]]]) (simp add: set_current_ok assms(1))

lemma ok_with_ground: "ok_with vterm_ok m \<Longrightarrow> ok_with vterm_ok (and_then m (\<lambda>v. Done (ground v)))"
  by (rule ok_with_bind) simp_all

lemma lineFeed_screen_ok: "screen_ok cols rows s \<Longrightarrow> ok_with (screen_ok cols rows) (lineFeed cols rows s)"
  by (rule ok_with_mono [OF lineFeed_ok]) auto

lemma privateMode_param_ok: "vterm_ok v \<Longrightarrow> vterm_ok (privateMode_param final p v)"
  using vterm_ok_dims [of v]
  by (simp add: privateMode_param_def Let_def vterm_ok_def newScreen_ok save_cursor_ok restore_cursor_ok
      screen_ok_move)

lemma privateMode_ok: "vterm_ok v \<Longrightarrow> vterm_ok (privateMode final raw v)"
proof -
  assume v: "vterm_ok v"
  have "vterm_ok (fold (privateMode_param final) ps w)" if "vterm_ok w" for ps w
    using that by (induction ps arbitrary: w) (simp_all add: privateMode_param_ok)
  with v show ?thesis by (simp add: privateMode_def)
qed

lemma executeCSI_ok:
  assumes "vterm_ok v"
  shows "ok_with vterm_ok (executeCSI mark final raw v)"
proof -
  have e: "ok_with vterm_ok (and_then (privateEraseMode r) (\<lambda>m. on_current (\<lambda>cols rows. eraseDisplay cols rows m) v))"
    "ok_with vterm_ok (and_then (privateEraseMode r) (\<lambda>m. on_current (\<lambda>cols rows. eraseLine cols m) v))" for r
    using privateEraseMode_done [of r] by (auto intro!: on_current_ok [OF assms] screen_ok_erase)
  have c: "ok_with vterm_ok (on_current (\<lambda>cols rows. csi_on_screen mark cols rows final r) v)" for r
    by (rule on_current_ok [OF assms csi_on_screen_ok])
  show ?thesis
    unfolding executeCSI_def Let_def
    by (intro ok_with_if) (simp_all add: e c assms privateMode_ok)
qed

lemma escape_final_ok:
  assumes "vterm_ok v"
  shows "ok_with vterm_ok (escape_final b v)"
proof -
  have next_line: "vterm_ok (set_current ((current v)\<lparr>ts_col := 0\<rparr>) v)"
    using current_ok [OF assms] by (intro set_current_ok [OF assms]) (simp add: screen_ok_def)
  have reset: "vterm_ok (v\<lparr>vt_primary := newScreen (vt_cols v) (vt_rows v),
      vt_alternate := newScreen (vt_cols v) (vt_rows v), vt_useAlternate := False\<rparr>)"
    using vterm_ok_dims [OF assms] by (simp add: vterm_ok_def newScreen_ok)
  have save: "vterm_ok (set_current (save_cursor (current v)) v)"
    "vterm_ok (set_current ((restore_cursor (vt_cols v) (vt_rows v) (current v))\<lparr>ts_pendingWrap := False\<rparr>) v)"
    using current_ok [OF assms]
    by (auto intro!: set_current_ok [OF assms] screen_ok_move save_cursor_ok restore_cursor_ok)
  show ?thesis
    unfolding escape_final_def
    by (intro ok_with_if ok_with_ground on_current_ok next_line assms)
       (simp_all add: assms reset save lineFeed_screen_ok reverseIndex_ok)
qed

lemma csi_byte_ok: "vterm_ok v \<Longrightarrow> ok_with vterm_ok (csi_byte mark b v)"
  unfolding csi_byte_def by (intro ok_with_if ok_with_ground executeCSI_ok) simp_all

lemma string_byte_ok: "vterm_ok v \<Longrightarrow> vterm_ok (string_byte bell b v)"
  by (simp add: string_byte_def)

lemma count_sequence_ok: "vterm_ok v \<Longrightarrow> vterm_ok (count_sequence v)"
  by (simp add: count_sequence_def Let_def)

lemma consumeEscape_ok:
  assumes "vterm_ok v"
  shows "ok_with vterm_ok (consumeEscape mark b v)"
proof -
  have "ok_with vterm_ok (consume_counted mark b w)" if "vterm_ok w" for w
    using count_sequence_ok [OF that]
    by (cases "vt_state (count_sequence w)")
       (simp_all add: consume_counted_def Let_def escape_final_ok csi_byte_ok string_byte_ok)
  with assms show ?thesis by (simp add: consumeEscape_def)
qed

lemma control_or_rune_ok:
  assumes "screen_ok cols rows s"
  shows "ok_with (screen_ok cols rows) (control_or_rune mark ch cols rows s)"
proof -
  from assms have "0 \<le> ts_col s div 8" by (simp add: screen_ok_def pos_imp_zdiv_nonneg_iff)
  with assms show ?thesis
    unfolding control_or_rune_def
    by (intro ok_with_if) (auto simp: lineFeed_screen_ok put_ok, auto simp: screen_ok_def)
qed

lemma consumeControlOrRune_ok:
  assumes "vterm_ok v"
  shows "ok_with vterm_ok (consumeControlOrRune mark ch v)"
proof -
  have v: "vterm_ok (set_current ((current v)\<lparr>ts_joinNext := False\<rparr>) v)"
    using current_ok [OF assms] by (intro set_current_ok [OF assms] screen_ok_move)
  show ?thesis
    unfolding consumeControlOrRune_def Let_def
    by (intro ok_with_if on_current_ok control_or_rune_ok) (simp_all add: v)
qed

lemma write_loop_ok: "vterm_ok v \<Longrightarrow> ok_with vterm_ok (write_loop mark data v)"
proof (induction data arbitrary: v rule: length_induct)
  case (1 data)
  show ?case
  proof (cases data)
    case Nil
    with "1.prems" show ?thesis by simp
  next
    case (Cons b rest)
    obtain r size where d: "DecodeRune (b # rest) = (r, size)" by fastforce
    have p: "ok_with vterm_ok (on_current (\<lambda>cols rows. put mark cols rows r) v)"
      by (rule on_current_ok [OF "1.prems" put_ok])
    have IH: "ok_with vterm_ok (write_loop mark ys w)" if "vterm_ok w" "length ys \<le> length rest" for ys w
      using "1.IH" that Cons by simp
    show ?thesis
      unfolding Cons write_loop.simps d Let_def prod.case
      by (intro ok_with_if ok_with_bind [OF consumeEscape_ok [OF "1.prems"]]
          ok_with_bind [OF consumeControlOrRune_ok [OF "1.prems"]] ok_with_bind [OF p])
         (simp_all add: IH "1.prems")
  qed
qed

lemma Write_ok: "vterm_ok v \<Longrightarrow> ok_with (\<lambda>(v', n). vterm_ok v' \<and> n = int (length data)) (Write mark data v)"
  unfolding Write_def by (rule ok_with_bind [OF write_loop_ok]) simp_all

lemma redrawn_resize:
  assumes "redrawn cols rows (s\<lparr>ts_cells := cells\<rparr>) x" and "1 \<le> cols" and "1 \<le> rows"
  shows "screen_ok cols rows (x\<lparr>ts_row := clamp (ts_row x) 0 (rows - 1), ts_col := clamp (ts_col x) 0 (cols - 1),
           ts_savedRow := a, ts_savedCol := b, ts_scrollTop := 0, ts_scrollBottom := rows - 1,
           ts_pendingWrap := False\<rparr>)"
  using redrawn_simps(8) [OF assms(1)] assms(2,3) clamp_range [of "rows - 1" "ts_row x"]
    clamp_range [of "cols - 1" "ts_col x"]
  by (simp add: screen_ok_def)

lemma resize_screen_ok:
  assumes "1 \<le> cols" and "1 \<le> rows"
  shows "ok_with (screen_ok cols rows) (resize_screen mark cols rows s)"
proof -
  let ?cells = "map (resize_row cols) (take (nat rows) (ts_cells s))
      @ replicate (nat rows - length (ts_cells s)) (blank_row cols)"
  have g: "grid_ok cols rows ?cells"
    using assms by (auto simp: grid_ok_def resize_row_def blank_row_def)
  then have "int (length ?cells) = rows" by (simp add: grid_ok_def)
  then have "ok_with (redrawn cols rows (s\<lparr>ts_cells := ?cells\<rparr>))
      (for_range 0 (int (length ?cells)) (repairWideRow mark cols) (s\<lparr>ts_cells := ?cells\<rparr>))"
    using g by (intro redraw_loop repairWideRow_ok) auto
  then show ?thesis
    unfolding resize_screen_def Let_def
    by (rule ok_with_bind) (simp add: redrawn_resize [OF _ assms])
qed

lemma Resize_ok: "ok_with vterm_ok (Resize mark cols rows v)"
proof -
  let ?c = "if cols < 1 then 1 else cols" and ?r = "if rows < 1 then 1 else rows"
  have "1 \<le> ?c" "1 \<le> ?r" by auto
  then show ?thesis
    unfolding Resize_def Let_def
    by (intro ok_with_bind [OF resize_screen_ok]) (auto simp: vterm_ok_def)
qed

text \<open>The life of a terminal: it is created, fed bytes and resized in any order.\<close>

datatype terminal_op = OpWrite "byte list" | OpResize int int

fun run_terminal :: "(rune \<Rightarrow> bool) \<Rightarrow> terminal_op list \<Rightarrow> virtual_terminal \<Rightarrow> virtual_terminal outcome" where
  "run_terminal mark [] v = Done v"
| "run_terminal mark (OpWrite data # ops) v =
     and_then (Write mark data v) (\<lambda>(v, n). run_terminal mark ops v)"
| "run_terminal mark (OpResize cols rows # ops) v =
     and_then (Resize mark cols rows v) (run_terminal mark ops)"

lemma run_terminal_ok: "vterm_ok v \<Longrightarrow> ok_with vterm_ok (run_terminal mark ops v)"
proof (induction mark ops v rule: run_terminal.induct)
  case (2 mark data ops v)
  show ?case unfolding run_terminal.simps
    by (rule ok_with_bind [OF Write_ok [OF "2.prems"]]) (auto intro: "2.IH")
next
  case (3 mark cols rows ops v)
  show ?case unfolding run_terminal.simps by (rule ok_with_bind [OF Resize_ok]) (rule "3.IH")
qed simp

lemma Cells_ok:
  assumes "vterm_ok v"
  shows "Cells mark row v \<noteq> Panic"
proof (cases "row < 0 \<or> row \<ge> vt_rows v")
  case False
  then have r: "\<not> (row < 0 \<or> row \<ge> vt_rows v)" "0 \<le> row" "row < vt_rows v" by auto
  have views: "foldr (\<lambda>cell acc. and_then (first_wide mark cell) (\<lambda>wide. and_then acc (\<lambda>out.
      Done (\<lparr>cv_Text = tx cell, cv_Faint = faint cell, cv_Wide = continuation cell \<or> wide\<rparr> # out))))
      line (Done []) \<noteq> Panic" for line
  proof (induction line)
    case (Cons cell line)
    obtain b where "first_wide mark cell = Done b" using first_wide_done by blast
    with Cons show ?case by (cases "foldr (\<lambda>cell acc. and_then (first_wide mark cell) (\<lambda>wide. and_then acc (\<lambda>out.
      Done (\<lparr>cv_Text = tx cell, cv_Faint = faint cell, cv_Wide = continuation cell \<or> wide\<rparr> # out))))
      line (Done [])") simp_all
  qed simp
  note g = screen_ok_grid [OF current_ok [OF assms]]
  have len: "index_at (ts_cells (current v)) row = Done (ts_cells (current v) ! nat row)"
    using g r by (simp add: index_at_ok grid_ok_def)
  have "\<not> int (length (ts_cells (current v) ! nat row)) > vt_cols v"
    using grid_ok_nth [OF g r(2,3)] by simp
  with views [of "ts_cells (current v) ! nat row"] show ?thesis
    unfolding Cells_def if_not_P [OF r(1)] len and_then.simps by (auto simp: and_then_Panic)
qed (simp add: Cells_def)

text \<open>
  C36: whatever bytes a child writes, in whatever chunks and between whatever resizes, the terminal never
  indexes or slices outside its grid; every row can be read, there is always one row of text for every terminal row, and its
  cursor lies on the screen.
\<close>

theorem terminal_never_panics:
  "\<exists>v lines. run_terminal mark ops (NewVirtualTerminal cols rows) = Done v
     \<and> screenRows omit v = Done lines \<and> int (length lines) = vt_rows v
     \<and> Cells mark row v \<noteq> Panic
     \<and> (case CursorPos v of (row, col) \<Rightarrow> 0 \<le> row \<and> row < vt_rows v \<and> 0 \<le> col \<and> col < vt_cols v)"
proof -
  from run_terminal_ok [OF NewVirtualTerminal_ok, of mark ops cols rows] obtain v where
    v: "run_terminal mark ops (NewVirtualTerminal cols rows) = Done v" "vterm_ok v"
    by (auto simp: ok_with_iff)
  from current_ok [OF v(2)] show ?thesis
    using v(1) Cells_ok [OF v(2)] by (auto simp: screenRows_def Let_def CursorPos_def screen_ok_def grid_ok_def)
qed

section \<open>Output does not depend on how it is cut into chunks\<close>

lemma set_current_pending [simp]: "vt_utf8Pending (set_current s v) = vt_utf8Pending v"
  by (simp add: set_current_def)

lemma on_current_pending: "on_current f v = Done v' \<Longrightarrow> vt_utf8Pending v' = vt_utf8Pending v"
  by (auto simp: on_current_def and_then_Done)

lemma privateMode_pending [simp]: "vt_utf8Pending (privateMode final raw v) = vt_utf8Pending v"
proof -
  have step: "vt_utf8Pending (privateMode_param final p w) = vt_utf8Pending w" for p w
    by (simp add: privateMode_param_def Let_def)
  have "vt_utf8Pending (fold (privateMode_param final) ps w) = vt_utf8Pending w" for ps w
    by (induction ps arbitrary: w) (simp_all add: step)
  then show ?thesis by (simp add: privateMode_def)
qed

lemma executeCSI_pending: "executeCSI mark final raw v = Done v' \<Longrightarrow> vt_utf8Pending v' = vt_utf8Pending v"
  unfolding executeCSI_def Let_def
  by (auto simp: and_then_Done split: if_splits dest: on_current_pending)

lemma ground_pending [simp]: "vt_utf8Pending (ground v) = vt_utf8Pending v"
  by (simp add: ground_def)

lemma escape_final_pending: "escape_final b v = Done v' \<Longrightarrow> vt_utf8Pending v' = vt_utf8Pending v"
  unfolding escape_final_def
  by (auto simp: and_then_Done split: if_splits dest: on_current_pending)

lemma csi_byte_pending: "csi_byte mark b v = Done v' \<Longrightarrow> vt_utf8Pending v' = vt_utf8Pending v"
  unfolding csi_byte_def by (auto simp: and_then_Done split: if_splits dest: executeCSI_pending)

lemma count_sequence_pending [simp]: "vt_utf8Pending (count_sequence v) = vt_utf8Pending v"
  by (simp add: count_sequence_def Let_def)

lemma string_byte_pending [simp]: "vt_utf8Pending (string_byte bell b v) = vt_utf8Pending v"
  by (simp add: string_byte_def)

lemma consume_counted_pending: "consume_counted mark b v = Done v' \<Longrightarrow> vt_utf8Pending v' = vt_utf8Pending v"
  by (cases "vt_state (count_sequence v)")
     (auto simp: consume_counted_def Let_def dest: escape_final_pending csi_byte_pending)

lemma consumeEscape_pending: "consumeEscape mark b v = Done v' \<Longrightarrow> vt_utf8Pending v' = vt_utf8Pending v"
  unfolding consumeEscape_def by (auto split: if_splits dest: consume_counted_pending)

lemma consumeControlOrRune_pending:
  "consumeControlOrRune mark ch v = Done v' \<Longrightarrow> vt_utf8Pending v' = vt_utf8Pending v"
  unfolding consumeControlOrRune_def Let_def by (auto split: if_splits dest: on_current_pending)

text \<open>Bytes that follow a full rune do not change how it decodes.\<close>

lemma utf8_first_size: "utf8_first b = Some (sz, lo, hi) \<Longrightarrow> sz \<in> {1, 2, 3, 4}"
  by (auto simp: utf8_first_def split: if_splits)

lemma DecodeRune_eq:
  assumes "p \<noteq> []" and "utf8_first (hd p) = Some (sz, lo, hi)"
  shows "DecodeRune p =
    (if sz = 1 then (uint (hd p), 1)
     else if length p < sz \<or> p ! 1 < lo \<or> hi < p ! 1 then (rune_error, 1)
     else if sz = 2 then ((uint (hd p) mod 32) * 64 + uint (p ! 1) mod 64, 2)
     else if \<not> is_cont (p ! 2) then (rune_error, 1)
     else if sz = 3 then ((uint (hd p) mod 16) * 4096 + (uint (p ! 1) mod 64) * 64 + uint (p ! 2) mod 64, 3)
     else if \<not> is_cont (p ! 3) then (rune_error, 1)
     else ((uint (hd p) mod 8) * 262144 + (uint (p ! 1) mod 64) * 4096
            + (uint (p ! 2) mod 64) * 64 + uint (p ! 3) mod 64, 4))"
  using assms by (cases p) (simp_all add: DecodeRune_def)

lemma FullRune_eq:
  assumes "p \<noteq> []" and "utf8_first (hd p) = Some (sz, lo, hi)"
  shows "FullRune p \<longleftrightarrow> sz \<le> length p \<or> 1 < length p \<and> (p ! 1 < lo \<or> hi < p ! 1)
           \<or> 2 < length p \<and> \<not> is_cont (p ! 2)"
  using assms by (cases p) (simp_all add: FullRune_def)

lemma DecodeRune_short:
  "\<lbrakk>p \<noteq> []; utf8_first (hd p) = Some (sz, lo, hi); length p < sz\<rbrakk> \<Longrightarrow> DecodeRune p = (rune_error, 1)"
  by (subst DecodeRune_eq) (auto simp: Suc_lessI)

lemma DecodeRune_not_full: "\<not> FullRune (b # rest) \<Longrightarrow> DecodeRune (b # rest) = (rune_error, 1)"
proof (cases "utf8_first b")
  case (Some t)
  assume "\<not> FullRune (b # rest)"
  obtain sz lo hi where t: "utf8_first (hd (b # rest)) = Some (sz, lo, hi)" using Some by (cases t) auto
  with \<open>\<not> FullRune (b # rest)\<close> have "length (b # rest) < sz" by (auto simp: FullRune_eq [OF _ t])
  then show ?thesis using DecodeRune_short [OF _ t] by simp
qed (simp add: DecodeRune_def)

lemma FullRune_append: "FullRune p \<Longrightarrow> FullRune (p @ q)"
  by (cases p) (auto simp: FullRune_def nth_append split: option.splits)

lemma DecodeRune_append:
  assumes full: "FullRune p"
  shows "DecodeRune (p @ q) = DecodeRune p"
proof (cases "utf8_first (hd p)")
  case None
  with full show ?thesis by (cases p) (simp_all add: DecodeRune_def FullRune_def)
next
  case (Some t)
  from full have ne: "p \<noteq> []" "p @ q \<noteq> []" by (auto simp: FullRune_def)
  obtain sz lo hi where t: "utf8_first (hd p) = Some (sz, lo, hi)" using Some by (cases t) auto
  with ne have tq: "utf8_first (hd (p @ q)) = Some (sz, lo, hi)" by simp
  have nth: "(p @ q) ! k = p ! k" if "k < length p" for k using that by (simp add: nth_append)
  have sz: "sz = 1 \<or> sz = 2 \<or> sz = 3 \<or> sz = 4" using utf8_first_size [OF t] by auto
  show ?thesis
  proof (cases "sz \<le> length p")
    case True
    then show ?thesis
      unfolding DecodeRune_eq [OF ne(1) t] DecodeRune_eq [OF ne(2) tq] using sz ne nth [of 1] nth [of 2] nth [of 3]
      by (elim disjE) simp_all
  next
    case False
    with full have "1 < length p \<and> (p ! 1 < lo \<or> hi < p ! 1) \<or> 2 < length p \<and> \<not> is_cont (p ! 2)"
      by (simp add: FullRune_eq [OF ne(1) t])
    moreover have "sz \<noteq> 1" "2 < length p \<longrightarrow> sz \<noteq> 2 \<and> sz \<noteq> 3"
      using False ne by (auto simp: Suc_le_eq)
    ultimately have "DecodeRune (p @ q) = (rune_error, 1)"
      unfolding DecodeRune_eq [OF ne(2) tq] using nth [of 1] nth [of 2] by (elim disjE) simp_all
    moreover have "DecodeRune p = (rune_error, 1)" using False DecodeRune_short [OF ne(1) t] by simp
    ultimately show ?thesis by simp
  qed
qed

lemma DecodeRune_size: "DecodeRune (b # rest) = (r, n) \<Longrightarrow> 1 \<le> n \<and> n \<le> Suc (length rest)"
proof (cases "utf8_first b")
  case (Some t)
  assume d: "DecodeRune (b # rest) = (r, n)"
  obtain sz lo hi where t: "utf8_first (hd (b # rest)) = Some (sz, lo, hi)" using Some by (cases t) auto
  then have sz: "sz = 1 \<or> sz = 2 \<or> sz = 3 \<or> sz = 4" using utf8_first_size by auto
  show ?thesis using d unfolding DecodeRune_eq [OF list.distinct(2) t] using sz
    by (elim disjE) (auto split: if_splits simp: Suc_le_eq)
qed (simp add: DecodeRune_def)

text \<open>Feeding the rest later, with the bytes kept back in front of it, is feeding everything at once.\<close>

lemma write_loop_append:
  "vt_utf8Pending v = [] \<Longrightarrow>
     write_loop mark (d @ e) v =
       and_then (write_loop mark d v) (\<lambda>w. write_loop mark (vt_utf8Pending w @ e) (w\<lparr>vt_utf8Pending := []\<rparr>))"
proof (induction d arbitrary: v rule: length_induct)
  case (1 d)
  have keep: "w\<lparr>vt_utf8Pending := []\<rparr> = w" if "vt_utf8Pending w = []" for w :: virtual_terminal
    using that by (cases w) simp
  show ?case
  proof (cases d)
    case Nil
    with "1.prems" show ?thesis by (simp add: keep)
  next
    case (Cons b rest)
    let ?k = "\<lambda>w. write_loop mark (vt_utf8Pending w @ e) (w\<lparr>vt_utf8Pending := []\<rparr>)"
    obtain r n where dec: "DecodeRune (b # rest) = (r, n)" by fastforce
    from DecodeRune_size [OF dec] have drop: "drop (n - 1) (rest @ e) = drop (n - 1) rest @ e" by simp
    have IH: "write_loop mark (ys @ e) w = and_then (write_loop mark ys w) ?k"
      if "vt_utf8Pending w = []" "length ys \<le> length rest" for ys w
      using "1.IH" that Cons by simp
    have bind: "and_then m (write_loop mark (ys @ e)) = and_then (and_then m (write_loop mark ys)) ?k"
      if "\<And>w. m = Done w \<Longrightarrow> vt_utf8Pending w = []" "length ys \<le> length rest" for m ys
      using IH that by (cases m) simp_all
    have esc: "and_then (consumeEscape mark b v) (write_loop mark (rest @ e))
        = and_then (and_then (consumeEscape mark b v) (write_loop mark rest)) ?k"
      by (rule bind) (simp_all add: consumeEscape_pending "1.prems")
    have ctl: "and_then (consumeControlOrRune mark b v) (write_loop mark (rest @ e))
        = and_then (and_then (consumeControlOrRune mark b v) (write_loop mark rest)) ?k"
      by (rule bind) (simp_all add: consumeControlOrRune_pending "1.prems")
    show ?thesis
    proof (cases "vt_state v \<noteq> TerminalGround \<or> b < 0x80")
      case True
      then show ?thesis
        using Cons esc ctl by auto
    next
      case ground: False
      show ?thesis
      proof (cases "FullRune (b # rest)")
        case False
        with DecodeRune_not_full [OF this] Cons ground "1.prems" show ?thesis by (simp add: keep)
      next
        case True
        have full: "FullRune (b # rest @ e)" "DecodeRune (b # rest @ e) = (r, n)"
          using FullRune_append [OF True, of e] DecodeRune_append [OF True, of e] dec by simp_all
        have p: "and_then (on_current (\<lambda>cols rows. put mark cols rows r) v) (write_loop mark (drop (n - 1) rest @ e))
            = and_then (and_then (on_current (\<lambda>cols rows. put mark cols rows r) v) (write_loop mark (drop (n - 1) rest))) ?k"
          by (rule bind) (auto dest: on_current_pending simp: "1.prems")
        show ?thesis
          using Cons ground True full dec drop p IH [OF "1.prems", of rest] IH [OF "1.prems", of "drop (n - 1) rest"]
          by (simp add: Let_def)
      qed
    qed
  qed
qed

text \<open>
  The screen does not depend on where the output of the child was cut into chunks, even inside an
  escape sequence or inside the UTF-8 encoding of a character: writing two chunks one after the other
  is writing their concatenation.
\<close>

theorem Write_chunks:
  "Write mark (a @ b) v =
     and_then (Write mark a v) (\<lambda>(v1, n1). and_then (Write mark b v1) (\<lambda>(v2, n2). Done (v2, n1 + n2)))"
proof -
  have "write_loop mark ((vt_utf8Pending v @ a) @ b) (v\<lparr>vt_utf8Pending := []\<rparr>) =
      and_then (write_loop mark (vt_utf8Pending v @ a) (v\<lparr>vt_utf8Pending := []\<rparr>))
        (\<lambda>w. write_loop mark (vt_utf8Pending w @ b) (w\<lparr>vt_utf8Pending := []\<rparr>))"
    by (rule write_loop_append) simp
  then show ?thesis by (simp add: Write_def and_then_assoc)
qed

text \<open>
  The parameters of a control sequence are never missing and always between 0 and 65535, so that no
  sequence of digits overflows the cursor arithmetic.
\<close>

theorem parseTerminalParams_bounded:
  "parseTerminalParams raw \<noteq> [] \<and> list_all (\<lambda>p. 0 \<le> p \<and> p \<le> 65535) (parseTerminalParams raw)"
  using parseTerminalParams_not_Nil parseTerminalParams_range by (simp add: list_all_iff)

text \<open>
  A selective erase with a one-digit mode ignores its mode. The question mark has already been cut
  off when the mode is read, and \<open>privateEraseMode\<close> cuts off one byte more, so the sequences for the
  whole display or the whole line erase from the cursor only, as mode 0 does.
\<close>

theorem selective_erase_ignores_mode:
  "executeCSI mark 0x4a [0x3f, d] v = on_current (\<lambda>cols rows. eraseDisplay cols rows 0) v
   \<and> executeCSI mark 0x4b [0x3f, d] v = on_current (\<lambda>cols rows. eraseLine cols 0) v"
  by (simp add: executeCSI_def privateEraseMode_def)

end
