(* ===== verification/Contract.thy ===== *)
theory Contract
  imports Domain_Values
begin

text \<open>
  The files a task leaves for its readers, from \<^verbatim>\<open>internal/contract\<close> and
  \<^verbatim>\<open>internal/store/contractreader.go\<close>: the exit-code file, which is written once and never
  replaced, and the event log \<^verbatim>\<open>events.jsonl\<close>, whose records are numbered consecutively across
  restarts and crashes of the daemon.

  The guard on exit codes is written over the two operations it receives through interfaces; the locale
  \<open>exit_code_store\<close> states what they promise and the files interpret it. The JSON codec of the event
  records is a parameter of the log: what the log relies on is that an encoded record has no line feed
  and that decoding gives its sequence number back.
\<close>

section \<open>Decimal numbers: fmt and strconv\<close>

fun print_nat :: "nat \<Rightarrow> string" where
  "print_nat n = (if n < 10 then [digit_char n] else print_nat (n div 10) @ [digit_char (n mod 10)])"

declare print_nat.simps [simp del]

definition print_int :: "int \<Rightarrow> string" where
  "print_int i = (if i < 0 then CHR ''-'' # print_nat (nat (- i)) else print_nat (nat i))"

definition in_int64 :: "int \<Rightarrow> bool" where
  "in_int64 i \<longleftrightarrow> - (2 ^ 63) \<le> i \<and> i < 2 ^ 63"

text \<open>\<open>strconv.Atoi\<close>: an optional sign, digits, and the range of a 64-bit \<open>int\<close>.\<close>

definition atoi :: "string \<Rightarrow> string + int" where
  "atoi s =
     (let neg = has_prefix s ''-'';
          ds = (if has_prefix s ''-'' \<or> has_prefix s ''+'' then tl s else s);
          v = int (digits_value 0 ds)
      in if ds = [] \<or> \<not> list_all is_digit_char ds then Inl ''invalid syntax''
         else if in_int64 (if neg then - v else v) then Inr (if neg then - v else v)
         else Inl ''value out of range'')"

text \<open>\<open>strings.TrimSpace\<close> on ASCII text.\<close>

definition is_space :: "char \<Rightarrow> bool" where
  "is_space c \<longleftrightarrow> c \<in> set [CHR '' '', CHR 0x09, CHR 0x0a, CHR 0x0b, CHR 0x0c, CHR 0x0d]"

definition trim_space :: "string \<Rightarrow> string" where
  "trim_space s = rev (dropWhile is_space (rev (dropWhile is_space s)))"

section \<open>The exit-code file\<close>

datatype contract_error = ReadExitCodeError string | ExitCodeMismatchError int int

text \<open>\<open>CheckExitCode\<close> on the answer of its reader: an error, no exit code, or an exit code.\<close>

definition CheckExitCode :: "(string + int option) \<Rightarrow> exit_code \<Rightarrow> contract_error + bool" where
  "CheckExitCode answer code =
     (case answer of
        Inl e \<Rightarrow> Inl (ReadExitCodeError e)
      | Inr None \<Rightarrow> Inr True
      | Inr (Some existing) \<Rightarrow>
          if existing \<noteq> ec_raw code then Inl (ExitCodeMismatchError existing (ec_raw code)) else Inr False)"

text \<open>The pair of the source: the write error, then the fatal error.\<close>

definition WriteExitCodeIdempotently ::
    "('s \<Rightarrow> task_id \<Rightarrow> string + int option) \<Rightarrow> (task_id \<Rightarrow> exit_code \<Rightarrow> 's \<Rightarrow> 's \<times> string option)
      \<Rightarrow> task_id \<Rightarrow> exit_code \<Rightarrow> 's \<Rightarrow> 's \<times> string option \<times> contract_error option" where
  "WriteExitCodeIdempotently reader writer tid code s =
     (case CheckExitCode (reader s tid) code of
        Inl fatal \<Rightarrow> (s, None, Some fatal)
      | Inr shouldWrite \<Rightarrow>
          if shouldWrite
          then (case writer tid code s of
                  (s', Some e) \<Rightarrow> (s', Some e, None)
                | (s', None) \<Rightarrow> (s', None, None))
          else (s, None, None))"

definition ExitCodeMismatch :: "contract_error \<Rightarrow> (int \<times> int) option" where
  "ExitCodeMismatch e =
     (case e of ExitCodeMismatchError existing attempted \<Rightarrow> Some (existing, attempted) | _ \<Rightarrow> None)"

text \<open>
  The files: the content of the exit-code file of every task. \<open>rd\<close> and \<open>wr\<close> are the errors that the
  file system answers for a task, if any; an atomic write that fails leaves the file as it was.
\<close>

type_synonym exit_files = "task_id \<rightharpoonup> string"

definition ReadExitCode :: "(task_id \<Rightarrow> string option) \<Rightarrow> exit_files \<Rightarrow> task_id \<Rightarrow> string + int option" where
  "ReadExitCode rd files tid =
     (case rd tid of
        Some e \<Rightarrow> Inl e
      | None \<Rightarrow>
          (case files tid of
             None \<Rightarrow> Inr None
           | Some b \<Rightarrow> (case atoi (trim_space b) of Inl e \<Rightarrow> Inl e | Inr v \<Rightarrow> Inr (Some v))))"

definition WriteExitCode :: "(task_id \<Rightarrow> string option) \<Rightarrow> task_id \<Rightarrow> exit_code \<Rightarrow> exit_files
    \<Rightarrow> exit_files \<times> string option" where
  "WriteExitCode wr tid code files =
     (case wr tid of
        Some e \<Rightarrow> (files, Some e)
      | None \<Rightarrow> (files(tid \<mapsto> print_int (ec_raw code) @ [CHR 0x0a]), None))"

section \<open>The event log\<close>

record 'r event_record =
  er_Seq :: int
  er_RecordedAt :: go_time
  er_EventType :: string
  er_Raw :: 'r

text \<open>The log file of one task and the in-memory state \<open>taskEventSeqState\<close> of the writer.\<close>

record event_log =
  el_file :: "string option"
  el_next :: int
  el_initialized :: bool

text \<open>
  What the file system does to one append: a task directory that is not accepted (\<open>verifyTaskDir\<close>, or the
  path of the log), the errors of the scan, of \<open>Stat\<close>, \<open>Truncate\<close> and \<open>OpenFile\<close>, and a write or close
  that fails once \<open>k\<close> bytes have reached the file.
\<close>

datatype append_io = AppendWorks | VerifyFails string | ScanFails string | StatFails string | TruncateFails string | OpenFails string
  | WriteFails nat string

abbreviation line_feed :: char where
  "line_feed \<equiv> CHR 0x0a"

text \<open>The loop of \<open>lastSeq\<close> over the complete lines; the offset counts each with its line feed.\<close>

fun scan_lines :: "(string \<Rightarrow> string + int) \<Rightarrow> string list \<Rightarrow> int \<Rightarrow> nat \<Rightarrow> string + (int \<times> nat)" where
  "scan_lines unmarshal [] seq off = Inr (seq, off)"
| "scan_lines unmarshal (l # ls) seq off =
     (case unmarshal l of
        Inl e \<Rightarrow> Inl e
      | Inr v \<Rightarrow> scan_lines unmarshal ls v (off + length l + 1))"

definition lastSeq :: "(string \<Rightarrow> string + int) \<Rightarrow> append_io \<Rightarrow> string option \<Rightarrow> string + (int \<times> nat)" where
  "lastSeq unmarshal io file =
     (case file of
        None \<Rightarrow> Inr (0, 0)
      | Some b \<Rightarrow>
          (case io of
             ScanFails e \<Rightarrow> Inl e
           | _ \<Rightarrow> scan_lines unmarshal (butlast (split_on line_feed b)) 0 0))"

text \<open>The first append of a process reads the last number and cuts off an incomplete record.\<close>

definition init_sequence :: "(string \<Rightarrow> string + int) \<Rightarrow> append_io \<Rightarrow> event_log \<Rightarrow> event_log \<times> string option" where
  "init_sequence unmarshal io l =
     (if el_initialized l then (l, None)
      else
        case lastSeq unmarshal io (el_file l) of
          Inl e \<Rightarrow> (l, Some e)
        | Inr (n, off) \<Rightarrow>
            (case io of
               StatFails e \<Rightarrow> (l, Some e)
             | _ \<Rightarrow>
               (case el_file l of
                  None \<Rightarrow> (l\<lparr>el_next := n + 1, el_initialized := True\<rparr>, None)
                | Some b \<Rightarrow>
                    if off < length b
                    then (case io of
                            TruncateFails e \<Rightarrow> (l, Some e)
                          | _ \<Rightarrow> (l\<lparr>el_file := Some (take off b), el_next := n + 1, el_initialized := True\<rparr>, None))
                    else (l\<lparr>el_next := n + 1, el_initialized := True\<rparr>, None))))"

definition append_bytes :: "string \<Rightarrow> string option \<Rightarrow> string option" where
  "append_bytes b file = Some (case file of None \<Rightarrow> b | Some c \<Rightarrow> c @ b)"

definition appendEventRecord :: "('r event_record \<Rightarrow> string + string) \<Rightarrow> (string \<Rightarrow> string + int)
    \<Rightarrow> append_io \<Rightarrow> go_time \<Rightarrow> string \<Rightarrow> 'r \<Rightarrow> event_log \<Rightarrow> event_log \<times> string option" where
  "appendEventRecord marshal unmarshal io now kind raw l0 =
     (case io of
        VerifyFails e \<Rightarrow> (l0, Some e)
      | _ \<Rightarrow>
     (case init_sequence unmarshal io l0 of
        (l, Some e) \<Rightarrow> (l, Some e)
      | (l, None) \<Rightarrow>
          (case marshal \<lparr>er_Seq = el_next l, er_RecordedAt = now, er_EventType = kind, er_Raw = raw\<rparr> of
             Inl e \<Rightarrow> (l, Some e)
           | Inr b \<Rightarrow>
               (case io of
                  OpenFails e \<Rightarrow> (l, Some e)
                | WriteFails k e \<Rightarrow>
                    (l\<lparr>el_file := append_bytes (take k (b @ [line_feed])) (el_file l)\<rparr>, Some e)
                | _ \<Rightarrow>
                    (l\<lparr>el_file := append_bytes (b @ [line_feed]) (el_file l), el_next := el_next l + 1\<rparr>, None)))))"

section \<open>Numbers are read back as they are written\<close>

lemma print_nat_digits: "list_all is_digit_char (print_nat n) \<and> print_nat n \<noteq> []"
proof (induction n rule: print_nat.induct)
  case (1 n)
  then show ?case by (subst (1 2) print_nat.simps) (auto split: if_splits)
qed

lemma digits_value_print_nat: "digits_value 0 (print_nat n) = n"
proof (induction n rule: print_nat.induct)
  case (1 n)
  show ?case
  proof (cases "n < 10")
    case True
    then show ?thesis by (subst print_nat.simps) simp
  next
    case False
    then have "print_nat n = print_nat (n div 10) @ [digit_char (n mod 10)]"
      by (subst print_nat.simps) simp
    with 1 False show ?thesis by (simp add: digits_value_append)
  qed
qed

lemma digit_not_sign: "is_digit_char c \<Longrightarrow> c \<noteq> CHR ''-'' \<and> c \<noteq> CHR ''+'' \<and> \<not> is_space c"
  by (auto simp: is_digit_char_def char_between_def is_space_def)

lemma atoi_print_int:
  assumes "in_int64 i"
  shows "atoi (print_int i) = Inr i"
proof -
  obtain c cs where p: "print_nat (nat \<bar>i\<bar>) = c # cs" using print_nat_digits by (metis list.exhaust)
  with print_nat_digits [of "nat \<bar>i\<bar>"] have d: "is_digit_char c" "list_all is_digit_char cs" by auto
  have v: "int (digits_value 0 (c # cs)) = \<bar>i\<bar>" using digits_value_print_nat [of "nat \<bar>i\<bar>"] p by simp
  show ?thesis
  proof (cases "i < 0")
    case True
    with p have "print_int i = CHR ''-'' # c # cs" by (simp add: print_int_def)
    with True d v assms show ?thesis by (simp add: atoi_def has_prefix_def Let_def)
  next
    case False
    with p have "print_int i = c # cs" by (simp add: print_int_def)
    with False d v assms digit_not_sign [OF d(1)] show ?thesis by (simp add: atoi_def has_prefix_def Let_def)
  qed
qed

lemma trim_space_line:
  assumes "s \<noteq> []" and "\<not> is_space (hd s)" and "\<not> is_space (last s)"
  shows "trim_space (s @ [line_feed]) = s"
proof -
  have "dropWhile is_space (s @ [line_feed]) = s @ [line_feed]"
    using assms(1,2) by (cases s) auto
  moreover have "dropWhile is_space (rev s) = rev s"
    using assms(1,3) by (cases "rev s") (auto simp: last_rev hd_rev)
  moreover have "is_space line_feed" by (simp add: is_space_def)
  ultimately show ?thesis by (simp add: trim_space_def)
qed

lemma print_int_no_space: "print_int i \<noteq> [] \<and> \<not> is_space (hd (print_int i)) \<and> \<not> is_space (last (print_int i))"
proof -
  have digits: "\<not> is_space c" if "c \<in> set (print_nat n)" for c n
    using that print_nat_digits [of n] digit_not_sign by (auto simp: list_all_iff)
  have ne: "print_nat n \<noteq> []" for n using print_nat_digits by blast
  have minus: "\<not> is_space (CHR ''-'')" by (simp add: is_space_def)
  have "\<not> is_space (hd (print_nat n)) \<and> \<not> is_space (last (print_nat n))" for n
    using digits [OF hd_in_set [OF ne]] digits [OF last_in_set [OF ne]] by blast
  with minus ne show ?thesis by (simp add: print_int_def)
qed

section \<open>The contract of the exit-code operations\<close>

locale exit_code_store =
  fixes reader :: "'s \<Rightarrow> task_id \<Rightarrow> string + int option"
    and writer :: "task_id \<Rightarrow> exit_code \<Rightarrow> 's \<Rightarrow> 's \<times> string option"
    and recorded :: "'s \<Rightarrow> task_id \<rightharpoonup> int"
  assumes reader_truth: "reader s tid = Inr v \<Longrightarrow> recorded s tid = v"
    and writer_records:
      "\<lbrakk>in_int64 (ec_raw c); writer tid c s = (s', None)\<rbrakk> \<Longrightarrow> recorded s' = (recorded s)(tid \<mapsto> ec_raw c)"
    and writer_refused: "writer tid c s = (s', Some e) \<Longrightarrow> recorded s' = recorded s"
begin

text \<open>One guarded write: which answers it can give and what each means for the recorded codes.\<close>

lemma guarded_write:
  assumes "in_int64 (ec_raw c)"
    and "WriteExitCodeIdempotently reader writer tid c s = (s', we, fe)"
  shows "(case fe of
            Some (ExitCodeMismatchError old new) \<Rightarrow> recorded s tid = Some old \<and> old \<noteq> ec_raw c \<and> new = ec_raw c
          | _ \<Rightarrow> True)
     \<and> (we = None \<and> fe = None \<longrightarrow> recorded s' tid = Some (ec_raw c))
     \<and> (recorded s' = recorded s \<or> recorded s tid = None \<and> recorded s' = (recorded s)(tid \<mapsto> ec_raw c))"
proof (cases "reader s tid")
  case (Inl e)
  with assms(2) show ?thesis by (auto simp: WriteExitCodeIdempotently_def CheckExitCode_def)
next
  case (Inr v)
  note truth = reader_truth [OF this]
  show ?thesis
  proof (cases v)
    case None
    obtain s1 r where w: "writer tid c s = (s1, r)" by fastforce
    with assms(2) Inr None have "s' = s1" "we = r" "fe = None"
      by (auto simp: WriteExitCodeIdempotently_def CheckExitCode_def split: option.splits)
    with w writer_records [OF assms(1)] writer_refused truth None show ?thesis by (cases r) auto
  next
    case (Some old)
    with assms(2) Inr truth show ?thesis
      by (auto simp: WriteExitCodeIdempotently_def CheckExitCode_def split: if_splits)
  qed
qed

lemma frozen_step:
  assumes "in_int64 (ec_raw c)" and "recorded s t = Some v"
    and "WriteExitCodeIdempotently reader writer tid c s = (s', we, fe)"
  shows "recorded s' t = Some v"
  using guarded_write [OF assms(1,3)] assms(2) by (auto split: if_splits)

end

definition file_recorded :: "exit_files \<Rightarrow> task_id \<Rightarrow> int option" where
  "file_recorded files tid =
     (case files tid of
        None \<Rightarrow> None
      | Some b \<Rightarrow> (case atoi (trim_space b) of Inl e \<Rightarrow> None | Inr v \<Rightarrow> Some v))"

interpretation exit_file: exit_code_store "ReadExitCode rd" "WriteExitCode wr" file_recorded
  for rd wr
proof unfold_locales
  fix s tid v assume "ReadExitCode rd s tid = Inr v"
  then show "file_recorded s tid = v"
    by (auto simp: ReadExitCode_def file_recorded_def split: option.splits sum.splits)
next
  fix c tid s s' assume c: "in_int64 (ec_raw c)" and w: "WriteExitCode wr tid c s = (s', None)"
  have "atoi (trim_space (print_int (ec_raw c) @ [line_feed])) = Inr (ec_raw c)"
    using trim_space_line print_int_no_space atoi_print_int [OF c] by metis
  moreover from w have "s' = s(tid \<mapsto> print_int (ec_raw c) @ [line_feed])"
    by (auto simp: WriteExitCode_def split: option.splits)
  ultimately show "file_recorded s' = (file_recorded s)(tid \<mapsto> ec_raw c)"
    by (simp add: file_recorded_def fun_eq_iff)
next
  fix tid c s s' e assume "WriteExitCode wr tid c s = (s', Some e)"
  then show "file_recorded s' = file_recorded s" by (auto simp: WriteExitCode_def split: option.splits)
qed

section \<open>Exit codes are frozen\<close>

text \<open>Terminal operations in any order, each under its own file system errors.\<close>

type_synonym exit_call = "(task_id \<Rightarrow> string option) \<times> (task_id \<Rightarrow> string option) \<times> task_id \<times> exit_code"

fun run_exit_calls :: "exit_call list \<Rightarrow> exit_files \<Rightarrow> exit_files" where
  "run_exit_calls [] files = files"
| "run_exit_calls ((rd, wr, tid, c) # rest) files =
     run_exit_calls rest (fst (WriteExitCodeIdempotently (ReadExitCode rd) (WriteExitCode wr) tid c files))"

lemma run_exit_calls_frozen:
  assumes "file_recorded files t = Some v" and "list_all (\<lambda>(rd, wr, tid, c). in_int64 (ec_raw c)) calls"
  shows "file_recorded (run_exit_calls calls files) t = Some v"
  using assms
proof (induction calls files rule: run_exit_calls.induct)
  case (2 rd wr tid c rest files)
  obtain s' we fe where w: "WriteExitCodeIdempotently (ReadExitCode rd) (WriteExitCode wr) tid c files = (s', we, fe)"
    by (cases "WriteExitCodeIdempotently (ReadExitCode rd) (WriteExitCode wr) tid c files")
  with 2 exit_file.frozen_step [of c files t v rd wr tid s' we fe] show ?case by simp
qed simp

text \<open>
  The exit code of a task is written once. If a guarded write of a code reports no error, every later
  sequence of guarded writes, for this task and others and under any file system errors, leaves that code
  recorded; and any attempt to write a different code whose read succeeds fails with the mismatch, which
  names the recorded and the attempted code.
\<close>

theorem exit_code_frozen:
  assumes "in_int64 (ec_raw c)" and "list_all (\<lambda>(rd, wr, tid, c). in_int64 (ec_raw c)) calls"
    and "WriteExitCodeIdempotently (ReadExitCode rd) (WriteExitCode wr) tid c files = (files', None, None)"
  shows "file_recorded (run_exit_calls calls files') tid = Some (ec_raw c)
    \<and> (ec_raw c' \<noteq> ec_raw c \<and> rd' tid = None \<longrightarrow>
         WriteExitCodeIdempotently (ReadExitCode rd') (WriteExitCode wr') tid c' (run_exit_calls calls files')
           = (run_exit_calls calls files', None, Some (ExitCodeMismatchError (ec_raw c) (ec_raw c'))))"
proof
  from exit_file.guarded_write [OF assms(1,3)]
  show r: "file_recorded (run_exit_calls calls files') tid = Some (ec_raw c)"
    by (intro run_exit_calls_frozen assms(2)) auto
  show "ec_raw c' \<noteq> ec_raw c \<and> rd' tid = None \<longrightarrow>
         WriteExitCodeIdempotently (ReadExitCode rd') (WriteExitCode wr') tid c' (run_exit_calls calls files')
           = (run_exit_calls calls files', None, Some (ExitCodeMismatchError (ec_raw c) (ec_raw c')))"
    using r by (auto simp: WriteExitCodeIdempotently_def CheckExitCode_def ReadExitCode_def file_recorded_def
        split: option.splits sum.splits)
qed

theorem exit_code_frozen_witness:
  "let none = (\<lambda>_. None); t = TaskID ''a'';
       files = fst (WriteExitCodeIdempotently (ReadExitCode none) (WriteExitCode none) t (NewExitCode 137) Map.empty);
       after = run_exit_calls [(none, none, t, NewExitCode 0), (none, none, TaskID ''b'', NewExitCode 1)] files
   in file_recorded after t = Some 137
      \<and> (ec_raw (NewExitCode 0) \<noteq> ec_raw (NewExitCode 137) \<and> none t = (None :: string option) \<longrightarrow>
         WriteExitCodeIdempotently (ReadExitCode none) (WriteExitCode none) t (NewExitCode 0) after
           = (after, None, Some (ExitCodeMismatchError 137 0)))"
proof -
  have raw: "ec_raw (NewExitCode i) = i" for i by (simp add: NewExitCode_def)
  have w: "WriteExitCodeIdempotently (ReadExitCode (\<lambda>_. None)) (WriteExitCode (\<lambda>_. None)) (TaskID ''a'') (NewExitCode 137) Map.empty
      = (fst (WriteExitCodeIdempotently (ReadExitCode (\<lambda>_. None)) (WriteExitCode (\<lambda>_. None)) (TaskID ''a'') (NewExitCode 137) Map.empty), None, None)"
    by (simp add: WriteExitCodeIdempotently_def CheckExitCode_def ReadExitCode_def WriteExitCode_def)
  show ?thesis
    unfolding Let_def
    using exit_code_frozen [OF _ _ w, where calls = "[(\<lambda>_. None, \<lambda>_. None, TaskID ''a'', NewExitCode 0),
        (\<lambda>_. None, \<lambda>_. None, TaskID ''b'', NewExitCode 1)]" and c' = "NewExitCode 0"
        and rd' = "\<lambda>_. None" and wr' = "\<lambda>_. None"]
    by (simp add: raw in_int64_def)
qed

section \<open>Event numbers are consecutive\<close>

text \<open>What the log relies on of the JSON codec.\<close>

definition codec_ok :: "('r event_record \<Rightarrow> string + string) \<Rightarrow> (string \<Rightarrow> string + int) \<Rightarrow> bool" where
  "codec_ok marshal unmarshal \<longleftrightarrow>
     (\<forall>r b. marshal r = Inr b \<longrightarrow> line_feed \<notin> set b \<and> unmarshal b = Inr (er_Seq r))"

text \<open>
  The life of a log: appends that work, appends that are refused before anything is written (a record that cannot be
  encoded is one of them), and a process that dies while an append is writing, or at any other moment, and is started again. A
  failed write or close in a process that goes on is not part of it: there the numbers repeat, as shown at the end.
\<close>

inductive log_life :: "('r event_record \<Rightarrow> string + string) \<Rightarrow> (string \<Rightarrow> string + int) \<Rightarrow> event_log \<Rightarrow> bool"
  for marshal unmarshal where
  fresh: "log_life marshal unmarshal \<lparr>el_file = None, el_next = n, el_initialized = False\<rparr>"
| append: "\<lbrakk>log_life marshal unmarshal l; \<forall>k e. io \<noteq> WriteFails k e;
    appendEventRecord marshal unmarshal io now kind raw l = (l', r)\<rbrakk> \<Longrightarrow> log_life marshal unmarshal l'"
| crash: "\<lbrakk>log_life marshal unmarshal l;
    appendEventRecord marshal unmarshal (WriteFails k e) now kind raw l = (l', r)\<rbrakk>
    \<Longrightarrow> log_life marshal unmarshal (l'\<lparr>el_initialized := False\<rparr>)"
| restart: "log_life marshal unmarshal l \<Longrightarrow> log_life marshal unmarshal (l\<lparr>el_initialized := False\<rparr>)"

text \<open>The content of a log: complete lines, and what an interrupted write left after them.\<close>

definition log_text :: "string list \<Rightarrow> string" where
  "log_text lines = concat (map (\<lambda>l. l @ [line_feed]) lines)"

definition numbered :: "(string \<Rightarrow> string + int) \<Rightarrow> string list \<Rightarrow> bool" where
  "numbered unmarshal lines \<longleftrightarrow>
     (\<forall>l \<in> set lines. line_feed \<notin> set l) \<and> map unmarshal lines = map Inr [1..int (length lines)]"

definition file_text :: "string option \<Rightarrow> string" where
  "file_text file = (case file of None \<Rightarrow> [] | Some b \<Rightarrow> b)"

definition log_inv :: "(string \<Rightarrow> string + int) \<Rightarrow> event_log \<Rightarrow> bool" where
  "log_inv unmarshal l \<longleftrightarrow>
     (\<exists>lines partial. numbered unmarshal lines \<and> line_feed \<notin> set partial
        \<and> file_text (el_file l) = log_text lines @ partial
        \<and> (el_initialized l \<longrightarrow> partial = [] \<and> el_next l = int (length lines) + 1))"

lemma split_log_text:
  assumes "\<forall>l \<in> set lines. line_feed \<notin> set l" and "line_feed \<notin> set partial"
  shows "split_on line_feed (log_text lines @ partial) = lines @ [partial]"
  using assms by (induction lines) (simp_all add: log_text_def split_on_id split_on_append_sep)

lemma scan_lines_numbered:
  assumes "map unmarshal lines = map Inr [i + 1..i + int (length lines)]"
  shows "scan_lines unmarshal lines i off = Inr (i + int (length lines), off + length (log_text lines))"
  using assms
proof (induction lines arbitrary: i off)
  case (Cons l ls)
  have "[i + 1..i + int (length (l # ls))] = (i + 1) # [(i + 1) + 1..(i + 1) + int (length ls)]"
    by (simp add: upto_rec1 ac_simps)
  with Cons.prems have "unmarshal l = Inr (i + 1)"
    "map unmarshal ls = map Inr [(i + 1) + 1..(i + 1) + int (length ls)]" by simp_all
  with Cons.IH [of "i + 1" "off + length l + 1"] show ?case by (simp add: log_text_def)
qed (simp add: log_text_def)

lemma lastSeq_numbered:
  assumes "numbered unmarshal lines" and "line_feed \<notin> set partial"
    and "file_text fl = log_text lines @ partial"
  shows "lastSeq unmarshal io fl = Inr (int (length lines), length (log_text lines)) \<or> (\<exists>e. io = ScanFails e \<and> lastSeq unmarshal io fl = Inl e)"
proof (cases fl)
  case None
  with assms(3) have "lines = []" by (cases lines) (simp_all add: file_text_def log_text_def)
  with None show ?thesis by (simp add: lastSeq_def log_text_def)
next
  case (Some b)
  with assms split_log_text [of lines partial] have "butlast (split_on line_feed b) = lines"
    by (simp add: file_text_def numbered_def)
  with Some assms(1) scan_lines_numbered [of unmarshal lines 0 0] show ?thesis
    by (cases io) (simp_all add: lastSeq_def numbered_def)
qed

text \<open>After initialization nothing but complete, numbered records is left.\<close>

lemma init_sequence_inv:
  assumes "log_inv unmarshal l" and "init_sequence unmarshal io l = (l', r)"
  shows "log_inv unmarshal l' \<and> (r = None \<longrightarrow> el_initialized l')"
proof (cases "el_initialized l")
  case True
  with assms show ?thesis by (simp add: init_sequence_def)
next
  case False
  from assms(1) obtain lines partial where i: "numbered unmarshal lines" "line_feed \<notin> set partial"
    "file_text (el_file l) = log_text lines @ partial" by (auto simp: log_inv_def)
  note seq = lastSeq_numbered [OF i, of io]
  have keep: "log_inv unmarshal l" by fact
  have ready: "log_inv unmarshal (l\<lparr>el_file := f, el_next := int (length lines) + 1, el_initialized := True\<rparr>)"
    if "file_text f = log_text lines" for f
    using that i by (auto simp: log_inv_def intro!: exI [of _ lines])
  show ?thesis
  proof (cases "el_file l")
    case None
    with i(3) ready [of None] have "log_inv unmarshal (l\<lparr>el_next := int (length lines) + 1, el_initialized := True\<rparr>)"
      by (cases l) (simp add: file_text_def)
    with assms(2) False seq None keep show ?thesis
      by (cases io) (auto simp: init_sequence_def)
  next
    case (Some b)
    with i(3) have b: "b = log_text lines @ partial" by (simp add: file_text_def)
    have trunc: "log_inv unmarshal (l\<lparr>el_file := Some (take (length (log_text lines)) b),
        el_next := int (length lines) + 1, el_initialized := True\<rparr>)"
      by (rule ready) (simp add: file_text_def b)
    have whole: "log_inv unmarshal (l\<lparr>el_next := int (length lines) + 1, el_initialized := True\<rparr>)"
      if "\<not> length (log_text lines) < length b"
      using that ready [of "Some b"] b Some by (cases l) (simp add: file_text_def)
    from assms(2) False seq Some keep trunc whole show ?thesis
      by (cases io) (auto simp: init_sequence_def split: if_splits)
  qed
qed

lemma numbered_snoc:
  assumes "numbered unmarshal lines" and "line_feed \<notin> set b" and "unmarshal b = Inr (int (length lines) + 1)"
  shows "numbered unmarshal (lines @ [b])"
  using assms by (simp add: numbered_def upto_rec2)

lemma log_text_snoc: "log_text (lines @ [b]) = log_text lines @ b @ [line_feed]"
  by (simp add: log_text_def)

lemma file_text_append: "file_text (append_bytes b f) = file_text f @ b"
  by (simp add: file_text_def append_bytes_def split: option.splits)

lemma log_inv_append:
  assumes "log_inv unmarshal l" and "el_initialized l" and "line_feed \<notin> set b"
    and "unmarshal b = Inr (el_next l)"
  shows "log_inv unmarshal (l\<lparr>el_file := append_bytes (b @ [line_feed]) (el_file l), el_next := el_next l + 1\<rparr>)"
    and "log_inv unmarshal (l\<lparr>el_file := append_bytes (take k (b @ [line_feed])) (el_file l), el_initialized := False\<rparr>)"
proof -
  from assms(1,2) obtain lines where i: "numbered unmarshal lines"
    "file_text (el_file l) = log_text lines" "el_next l = int (length lines) + 1"
    by (auto simp: log_inv_def)
  from assms(3,4) i have n: "numbered unmarshal (lines @ [b])" by (simp add: numbered_snoc)
  show "log_inv unmarshal (l\<lparr>el_file := append_bytes (b @ [line_feed]) (el_file l), el_next := el_next l + 1\<rparr>)"
    unfolding log_inv_def using n i
    by (intro exI [of _ "lines @ [b]"] exI [of _ "[]"]) (simp add: file_text_append log_text_snoc)
  show "log_inv unmarshal (l\<lparr>el_file := append_bytes (take k (b @ [line_feed])) (el_file l), el_initialized := False\<rparr>)"
  proof (cases "length b < k")
    case True
    then have "take k (b @ [line_feed]) = b @ [line_feed]" by simp
    with n i show ?thesis unfolding log_inv_def
      by (intro exI [of _ "lines @ [b]"] exI [of _ "[]"]) (simp add: file_text_append log_text_snoc)
  next
    case False
    with assms(3) have "take k (b @ [line_feed]) = take k b" "line_feed \<notin> set (take k b)"
      by (auto dest: in_set_takeD)
    with i show ?thesis unfolding log_inv_def
      by (intro exI [of _ lines] exI [of _ "take k b"]) (simp add: file_text_append)
  qed
qed

lemma append_inv:
  assumes c: "codec_ok marshal unmarshal" and "log_inv unmarshal l"
    and "appendEventRecord marshal unmarshal io now kind raw l = (l', r)"
  shows "if \<exists>k e. io = WriteFails k e then log_inv unmarshal (l'\<lparr>el_initialized := False\<rparr>) else log_inv unmarshal l'"
proof -
  have reset: "log_inv unmarshal (m\<lparr>el_initialized := False\<rparr>)" if "log_inv unmarshal m" for m
    using that by (auto simp: log_inv_def)
  obtain l1 r1 where s: "init_sequence unmarshal io l = (l1, r1)" by fastforce
  note i1 = init_sequence_inv [OF assms(2) s]
  show ?thesis
  proof (cases "r1 = None \<and> is_ok (marshal \<lparr>er_Seq = el_next l1, er_RecordedAt = now, er_EventType = kind, er_Raw = raw\<rparr>)")
    case False
    then have "l' = l1 \<or> l' = l"
      using assms(3) s by (cases io) (auto simp: appendEventRecord_def split: option.splits sum.splits)
    with i1 assms(2) reset show ?thesis by auto
  next
    case True
    then obtain b where m: "marshal \<lparr>er_Seq = el_next l1, er_RecordedAt = now, er_EventType = kind, er_Raw = raw\<rparr> = Inr b"
      by (cases "marshal \<lparr>er_Seq = el_next l1, er_RecordedAt = now, er_EventType = kind, er_Raw = raw\<rparr>") auto
    with c have "line_feed \<notin> set b" "unmarshal b = Inr (el_next l1)" by (auto simp: codec_ok_def)
    note written = log_inv_append [OF i1 [THEN conjunct1] _ this]
    from True i1 have "el_initialized l1" by simp
    with written assms(2,3) s m True i1 show ?thesis
      by (cases io) (auto simp: appendEventRecord_def)
  qed
qed

lemma log_life_inv:
  assumes "codec_ok marshal unmarshal" and "log_life marshal unmarshal l"
  shows "log_inv unmarshal l"
  using assms(2)
proof (induction rule: log_life.induct)
  case (fresh n)
  show ?case
    by (auto simp: log_inv_def numbered_def file_text_def log_text_def intro!: exI [of _ "[]"])
next
  case (append l io now ty raw l' r)
  with append_inv [OF assms(1)] show ?case by (metis (full_types))
next
  case (crash l k e now ty raw l' r)
  with append_inv [OF assms(1)] show ?case by (metis (full_types))
next
  case (restart l)
  then show ?case by (auto simp: log_inv_def)
qed

text \<open>A working file system makes the log ready for the next record.\<close>

lemma init_works:
  assumes i: "numbered unmarshal lines" "line_feed \<notin> set partial" "file_text (el_file l) = log_text lines @ partial"
    and ready: "el_initialized l \<longrightarrow> partial = [] \<and> el_next l = int (length lines) + 1"
  shows "\<exists>l1. init_sequence unmarshal AppendWorks l = (l1, None)
     \<and> file_text (el_file l1) = log_text lines \<and> el_next l1 = int (length lines) + 1"
proof (cases "el_initialized l")
  case True
  with i(3) ready show ?thesis by (simp add: init_sequence_def)
next
  case False
  have "lastSeq unmarshal AppendWorks (el_file l) = Inr (int (length lines), length (log_text lines))"
    using lastSeq_numbered [OF i, of AppendWorks] by simp
  with False i(3) show ?thesis
    by (cases "el_file l") (auto simp: init_sequence_def file_text_def)
qed

text \<open>
  C38: in every life of a log in which no process goes on after a failed write or close (appends that work, appends refused
  before anything is written, among them records that the encoder rejects, crashes in the middle of a write, and
  restarts), the complete lines of the file are exactly the records numbered 1, 2, 3 and so on without gap or duplicate, and at
  most one incomplete record follows them. The next append on a working file system asks the encoder for the next number; if it
  encodes the record, the append succeeds and the file then consists of the old lines and the new one, and otherwise the append
  reports the error of the encoder and adds nothing. What happens when a process survives a failed close is
  \<open>close_failure_duplicates_number\<close> below.
\<close>

theorem event_log_consecutive:
  assumes "codec_ok marshal unmarshal" and "log_life marshal unmarshal l"
    and "appendEventRecord marshal unmarshal AppendWorks now kind raw l = (l', err)"
  shows "\<exists>lines partial. file_text (el_file l) = log_text lines @ partial
            \<and> line_feed \<notin> set partial \<and> (\<forall>x \<in> set lines. line_feed \<notin> set x)
            \<and> map unmarshal lines = map Inr [1..int (length lines)]
            \<and> (case marshal \<lparr>er_Seq = int (length lines) + 1, er_RecordedAt = now, er_EventType = kind, er_Raw = raw\<rparr> of
                 Inr b \<Rightarrow> err = None \<and> file_text (el_file l') = log_text (lines @ [b])
               | Inl e \<Rightarrow> err = Some e \<and> file_text (el_file l') = log_text lines)"
proof -
  from log_life_inv [OF assms(1,2)] obtain lines partial where i: "numbered unmarshal lines" "line_feed \<notin> set partial"
    "file_text (el_file l) = log_text lines @ partial" "el_initialized l \<longrightarrow> partial = [] \<and> el_next l = int (length lines) + 1"
    by (auto simp: log_inv_def)
  obtain l1 where "init_sequence unmarshal AppendWorks l = (l1, None)"
    "file_text (el_file l1) = log_text lines" "el_next l1 = int (length lines) + 1"
    using init_works [OF i] by blast
  with assms(3)
  have "case marshal \<lparr>er_Seq = int (length lines) + 1, er_RecordedAt = now, er_EventType = kind, er_Raw = raw\<rparr> of
          Inr b \<Rightarrow> err = None \<and> file_text (el_file l') = log_text (lines @ [b])
        | Inl e \<Rightarrow> err = Some e \<and> file_text (el_file l') = log_text lines"
    by (auto simp: appendEventRecord_def file_text_append log_text_snoc split: sum.splits)
  with i show ?thesis unfolding numbered_def by blast
qed

text \<open>A codec for concrete runs: the line of a record is its number.\<close>

definition sample_marshal :: "unit event_record \<Rightarrow> string + string" where
  "sample_marshal r = Inr (print_int (er_Seq r))"

definition sample_unmarshal :: "string \<Rightarrow> string + int" where
  "sample_unmarshal s =
     Inr (if has_prefix s ''-'' then - int (digits_value 0 (tl s)) else int (digits_value 0 s))"

lemma sample_codec_ok: "codec_ok sample_marshal sample_unmarshal"
proof -
  have "line_feed \<notin> set (print_int i) \<and> sample_unmarshal (print_int i) = Inr i" for i
  proof -
    obtain c cs where p: "print_nat (nat \<bar>i\<bar>) = c # cs" using print_nat_digits by (metis list.exhaust)
    with print_nat_digits [of "nat \<bar>i\<bar>"] have d: "\<forall>x \<in> set (c # cs). is_digit_char x"
      by (simp add: list_all_iff)
    have v: "int (digits_value 0 (c # cs)) = \<bar>i\<bar>" using digits_value_print_nat [of "nat \<bar>i\<bar>"] p by simp
    have "is_space line_feed" by (simp add: is_space_def)
    with d digit_not_sign have lf: "line_feed \<notin> set (c # cs)" by blast
    from d digit_not_sign have "c \<noteq> CHR ''-''" by simp
    with p v lf show ?thesis
      by (cases "i < 0") (simp_all add: print_int_def sample_unmarshal_def has_prefix_def)
  qed
  then show ?thesis by (auto simp: codec_ok_def sample_marshal_def)
qed

definition sample_log :: event_log where
  "sample_log = \<lparr>el_file = Some (log_text [''1'', ''2'']), el_next = 3, el_initialized = False\<rparr>"

text \<open>Two appends, then a process that dies before the third record reaches the file.\<close>

lemma sample_log_life: "log_life sample_marshal sample_unmarshal sample_log"
proof -
  let ?life = "log_life sample_marshal sample_unmarshal"
  let ?app = "\<lambda>io. appendEventRecord sample_marshal sample_unmarshal io 0 ''x'' ()"
  have 0: "?life \<lparr>el_file = None, el_next = 0, el_initialized = False\<rparr>" by (rule log_life.fresh)
  have 1: "?life \<lparr>el_file = Some (log_text [''1'']), el_next = 2, el_initialized = True\<rparr>"
    by (rule log_life.append [where io = AppendWorks and now = 0 and kind = "''x''" and raw = "()" and r = None, OF 0])
      (simp, code_simp)
  have 2: "?life \<lparr>el_file = Some (log_text [''1'', ''2'']), el_next = 3, el_initialized = True\<rparr>"
    by (rule log_life.append [where io = AppendWorks and now = 0 and kind = "''x''" and raw = "()" and r = None, OF 1])
      (simp, code_simp)
  have 3: "?app (WriteFails 0 ''killed'') \<lparr>el_file = Some (log_text [''1'', ''2'']), el_next = 3, el_initialized = True\<rparr>
      = (\<lparr>el_file = Some (log_text [''1'', ''2'']), el_next = 3, el_initialized = True\<rparr>, Some ''killed'')"
    by code_simp
  from log_life.crash [OF 2 3] show ?thesis by (simp add: sample_log_def)
qed

theorem event_log_consecutive_witness:
  "\<exists>l' err lines. appendEventRecord sample_marshal sample_unmarshal AppendWorks 0 ''x'' () sample_log = (l', err)
       \<and> err = None \<and> file_text (el_file l') = log_text (lines @ [print_int (int (length lines) + 1)])
       \<and> map sample_unmarshal lines = map Inr [1..int (length lines)]"
proof -
  obtain l' err where a: "appendEventRecord sample_marshal sample_unmarshal AppendWorks 0 ''x'' () sample_log = (l', err)" by fastforce
  from event_log_consecutive [OF sample_codec_ok sample_log_life a] a show ?thesis
    by (auto simp: sample_marshal_def)
qed

section \<open>An append whose close fails\<close>

text \<open>
  The numbers are consecutive only because a crash makes the next process read the file again. When
  the write reaches the file completely and \<open>Close\<close> then reports an error, the running process keeps
  its counter although the record is in the file, so its next append writes a second record with the
  same number.
\<close>

theorem close_failure_duplicates_number:
  assumes "codec_ok marshal unmarshal" and "\<forall>r. is_ok (marshal r)"
    and "el_initialized l" and "log_inv unmarshal l"
    and "marshal \<lparr>er_Seq = el_next l, er_RecordedAt = now, er_EventType = ty, er_Raw = raw\<rparr> = Inr x" and "length x < k"
    and "appendEventRecord marshal unmarshal (WriteFails k e) now ty raw l = (l1, r1)"
    and "appendEventRecord marshal unmarshal AppendWorks now' ty' raw' l1 = (l2, r2)"
  shows "r1 = Some e \<and> r2 = None
     \<and> (\<exists>lines y. file_text (el_file l2) = log_text (lines @ [x, y])
          \<and> unmarshal x = Inr (el_next l) \<and> unmarshal y = Inr (el_next l))"
proof -
  from assms(3,4) obtain lines where t: "file_text (el_file l) = log_text lines"
    by (auto simp: log_inv_def)
  define enc where "enc = (\<lambda>t y w. marshal \<lparr>er_Seq = el_next l, er_RecordedAt = t, er_EventType = y, er_Raw = w\<rparr>)"
  have x: "enc now ty raw = Inr x" using assms(5) by (simp add: enc_def)
  obtain y where y: "enc now' ty' raw' = Inr y" using assms(2) unfolding enc_def by (metis is_ok.elims(2))
  from x y assms(1) have n: "unmarshal x = Inr (el_next l)" "unmarshal y = Inr (el_next l)"
    by (auto simp: codec_ok_def enc_def)
  from assms(3,7) x have l1: "l1 = l\<lparr>el_file := append_bytes (take k (x @ [line_feed])) (el_file l)\<rparr>" "r1 = Some e"
    by (auto simp: appendEventRecord_def init_sequence_def enc_def)
  from assms(6) have "take k (x @ [line_feed]) = x @ [line_feed]" by simp
  with l1 have l1': "l1 = l\<lparr>el_file := append_bytes (x @ [line_feed]) (el_file l)\<rparr>" by simp
  from assms(3,8) y l1' have l2: "el_file l2 = append_bytes (y @ [line_feed]) (append_bytes (x @ [line_feed]) (el_file l))"
    "r2 = None"
    by (auto simp: appendEventRecord_def init_sequence_def enc_def)
  have "file_text (el_file l2) = log_text (lines @ [x, y])"
    using t l2(1) by (simp add: file_text_append log_text_def)
  with n l1 l2(2) show ?thesis by blast
qed


definition open_log :: event_log where
  "open_log = \<lparr>el_file = Some (log_text [''1'', ''2'']), el_next = 3, el_initialized = True\<rparr>"

lemma open_log_inv: "log_inv sample_unmarshal open_log"
proof -
  have "numbered sample_unmarshal [''1'', ''2'']" by code_simp
  then show ?thesis unfolding log_inv_def open_log_def
    by (intro exI [of _ "[''1'', ''2'']"] exI [of _ "[]"]) (simp add: file_text_def)
qed

theorem close_failure_duplicates_number_witness:
  "let l1 = fst (appendEventRecord sample_marshal sample_unmarshal (WriteFails 2 ''close'') 0 ''x'' () open_log);
       l2 = fst (appendEventRecord sample_marshal sample_unmarshal AppendWorks 1 ''y'' () l1)
   in \<exists>lines y. file_text (el_file l2) = log_text (lines @ [''3'', y])
        \<and> sample_unmarshal ''3'' = Inr 3 \<and> sample_unmarshal y = Inr 3"
proof -
  let ?l1 = "\<lparr>el_file = Some (log_text [''1'', ''2'', ''3'']), el_next = 3, el_initialized = True\<rparr>"
  let ?l2 = "\<lparr>el_file = Some (log_text [''1'', ''2'', ''3'', ''3'']), el_next = 4, el_initialized = True\<rparr>"
  have a: "appendEventRecord sample_marshal sample_unmarshal (WriteFails 2 ''close'') 0 ''x'' () open_log
      = (?l1, Some ''close'')" by code_simp
  have b: "appendEventRecord sample_marshal sample_unmarshal AppendWorks 1 ''y'' () ?l1 = (?l2, None)" by code_simp
  have m: "sample_marshal \<lparr>er_Seq = el_next open_log, er_RecordedAt = 0, er_EventType = ''x'', er_Raw = ()\<rparr> = Inr ''3''"
    by code_simp
  have ok: "\<forall>r. is_ok (sample_marshal r)" and init: "el_initialized open_log" and len: "length ''3'' < (2 :: nat)"
    by (simp_all add: sample_marshal_def open_log_def)
  have n: "el_next open_log = 3" by (simp add: open_log_def)
  from close_failure_duplicates_number [OF sample_codec_ok ok init open_log_inv m len a b]
  show ?thesis by (simp add: a b n)
qed

end
