(* ===== verification/Push_Policy.thy ===== *)
theory Push_Policy
  imports Domain_Values
begin

text \<open>
  The supervisor's decision whether a finished session may push its branch, from
  \<^verbatim>\<open>internal/supervisor/gitops/pushpolicy.go\<close>: names of branches and remotes, the lookup in the
  allowlist, the three stages of checks, and the command line of the push with its validation.
  The inputs of the decision are the answers that the git commands gave, as the source collects them in
  \<open>PushInput\<close>.
\<close>

section \<open>Data\<close>

datatype git_error = ErrGitOutputTooLarge | OtherGitError string

record push_allowlist_entry =
  pae_Remote :: string
  pae_URL :: string
  pae_Branch :: string

record push_input =
  LocalGitError :: "git_error option"
  RemoteHeadLocalError :: "git_error option"
  CommitListError :: "git_error option"
  FetchURLs :: "string list"
  PushURLs :: "string list"
  ReceivepackConfigured :: bool
  RemoteHelperConfigured :: bool
  CurrentRef :: string
  ProtectedBranches :: "string list"
  Allowlist :: "push_allowlist_entry list"
  RemoteHeadSHA :: string
  RemoteHeadLocal :: bool
  RemoteHeadUnavailable :: bool
  CommitSHAs :: "string list"
  SupervisorCommitSHAs :: "string list"
  HeadSHA :: string
  PreviousFailedHead :: string
  GitConfigChanged :: bool
  GitConfigInclude :: bool

record push_decision =
  Allowed :: bool
  ReadyForRemote :: bool
  ReadyForCommits :: bool
  Reason :: string
  Remote :: string
  Branch :: string
  Noop :: bool
  NoPushes :: bool
  Suppressed :: bool

definition zero_decision :: push_decision where
  "zero_decision = \<lparr>Allowed = False, ReadyForRemote = False, ReadyForCommits = False, Reason = '''',
     Remote = '''', Branch = '''', Noop = False, NoPushes = False, Suppressed = False\<rparr>"

definition zero_entry :: push_allowlist_entry where
  "zero_entry = \<lparr>pae_Remote = '''', pae_URL = '''', pae_Branch = ''''\<rparr>"

section \<open>Names\<close>

definition shaPattern :: "string \<Rightarrow> bool" where
  "shaPattern s = rep_class lower_hex 40 s"

definition remote_char :: "char \<Rightarrow> bool" where
  "remote_char c \<longleftrightarrow> char_between (CHR ''A'') (CHR ''Z'') c \<or> char_between (CHR ''a'') (CHR ''z'') c
     \<or> is_digit_char c \<or> c \<in> set ''._-''"

definition remotePattern :: "string \<Rightarrow> bool" where
  "remotePattern s = plus_class remote_char s"

text \<open>The bytes of \<open>strings.ContainsAny\<close>, and the control characters of the last loop.\<close>

definition ref_forbidden :: string where
  "ref_forbidden = '' ~^:?*['' @ [CHR 0x5c, CHR 0x00, CHR 0x0d, CHR 0x0a]"

definition is_control :: "char \<Rightarrow> bool" where
  "is_control c \<longleftrightarrow> (of_char c :: nat) < 32 \<or> (of_char c :: nat) = 127"

definition ref_part_ok :: "string \<Rightarrow> bool" where
  "ref_part_ok part \<longleftrightarrow> part \<noteq> '''' \<and> \<not> has_prefix part ''.'' \<and> \<not> has_suffix part ''.lock''"

definition validRefName :: "string \<Rightarrow> bool" where
  "validRefName s =
     (if s = '''' \<or> has_prefix s ''-'' \<or> has_prefix s ''.'' \<or> has_suffix s ''.'' \<or> has_suffix s ''.lock''
         \<or> contains_str s ''..'' \<or> contains_str s ''//'' \<or> list_ex (\<lambda>c. c \<in> set ref_forbidden) s
         \<or> contains_str s [CHR ''@'', CHR 0x7b] \<or> s = ''@''
      then False
      else if \<not> list_all ref_part_ok (split_on (CHR ''/'') s) then False
      else if list_ex is_control s then False
      else True)"

definition validRemote :: "string \<Rightarrow> bool" where
  "validRemote s \<longleftrightarrow> remotePattern s \<and> s \<noteq> ''.'' \<and> s \<noteq> ''..'' \<and> \<not> has_prefix s ''-''"

section \<open>The allowlist\<close>

text \<open>The accumulators of the loop: candidate, found, count and matches.\<close>

definition urls_match :: "string list \<Rightarrow> string list \<Rightarrow> push_allowlist_entry \<Rightarrow> bool" where
  "urls_match fetchURLs pushURLs e \<longleftrightarrow>
     length fetchURLs = 1 \<and> length pushURLs = 1 \<and> fetchURLs ! 0 = pae_URL e \<and> pushURLs ! 0 = pae_URL e"

fun resolve_loop :: "push_allowlist_entry list \<Rightarrow> string \<Rightarrow> string list \<Rightarrow> string list
    \<Rightarrow> push_allowlist_entry \<times> push_allowlist_entry \<times> nat \<times> nat
    \<Rightarrow> push_allowlist_entry \<times> push_allowlist_entry \<times> nat \<times> nat" where
  "resolve_loop [] branch fetchURLs pushURLs acc = acc"
| "resolve_loop (e # es) branch fetchURLs pushURLs (candidate, found, n, matches) =
     (if pae_Branch e \<noteq> branch then resolve_loop es branch fetchURLs pushURLs (candidate, found, n, matches)
      else if urls_match fetchURLs pushURLs e
      then resolve_loop es branch fetchURLs pushURLs (e, e, n + 1, matches + 1)
      else resolve_loop es branch fetchURLs pushURLs (e, found, n + 1, matches))"

definition ResolveAllowlistEntry :: "push_allowlist_entry list \<Rightarrow> string \<Rightarrow> string list \<Rightarrow> string list
    \<Rightarrow> push_allowlist_entry \<times> bool" where
  "ResolveAllowlistEntry entries branch fetchURLs pushURLs =
     (let (candidate, found, n, matches) = resolve_loop entries branch fetchURLs pushURLs (zero_entry, zero_entry, 0, 0)
      in if matches = 1 then (found, True)
         else if matches > 1 then (zero_entry, False)
         else if n = 1 then (candidate, True)
         else if n > 1 then (candidate, True)
         else (zero_entry, False))"

text \<open>The loop of \<open>EvaluateBeforeURLs\<close> over the allowlist; \<open>None\<close> is its early return.\<close>

fun select_remote :: "push_allowlist_entry list \<Rightarrow> string \<Rightarrow> string \<Rightarrow> string option" where
  "select_remote [] branch remote = Some remote"
| "select_remote (entry # es) branch remote =
     (if pae_Branch entry \<noteq> branch then select_remote es branch remote
      else if remote \<noteq> '''' \<and> remote \<noteq> pae_Remote entry then None
      else select_remote es branch (pae_Remote entry))"

section \<open>The stages of the decision\<close>

definition localGitFailureReason :: "git_error \<Rightarrow> string" where
  "localGitFailureReason err =
     (case err of ErrGitOutputTooLarge \<Rightarrow> ''git_output_too_large'' | _ \<Rightarrow> ''git_failed'')"

abbreviation heads_prefix :: string where
  "heads_prefix \<equiv> ''refs/heads/''"

definition EvaluateBeforeURLs :: "push_input \<Rightarrow> push_decision" where
  "EvaluateBeforeURLs p =
     (if Allowlist p = [] then zero_decision\<lparr>Noop := True\<rparr>
      else case LocalGitError p of
        Some e \<Rightarrow> zero_decision\<lparr>Reason := localGitFailureReason e\<rparr>
      | None \<Rightarrow>
        if CurrentRef p = '''' \<or> \<not> has_prefix (CurrentRef p) heads_prefix
        then zero_decision\<lparr>Reason := ''detached_head''\<rparr>
        else
          let branch = trim_prefix (CurrentRef p) heads_prefix;
              d = zero_decision\<lparr>Branch := branch\<rparr>
          in if \<not> validRefName branch \<or> has_prefix branch ''refs/'' \<or> branch = ''HEAD''
             then d\<lparr>Reason := ''argv_not_allowed''\<rparr>
             else if list_ex (\<lambda>b. heads_prefix @ b = CurrentRef p) ([''main'', ''master'', ''develop''] @ ProtectedBranches p)
             then d\<lparr>Reason := ''protected_branch''\<rparr>
             else case select_remote (Allowlist p) branch '''' of
               None \<Rightarrow> d\<lparr>Reason := ''not_in_allowlist''\<rparr>
             | Some remote \<Rightarrow>
                 if remote = '''' then d\<lparr>Reason := ''not_in_allowlist''\<rparr>
                 else if \<not> validRemote remote then d\<lparr>Reason := ''argv_not_allowed''\<rparr>
                 else d\<lparr>Remote := remote\<rparr>)"

definition EvaluateLocal :: "push_input \<Rightarrow> push_decision" where
  "EvaluateLocal p =
     (let d = EvaluateBeforeURLs p
      in if Noop d \<or> Reason d \<noteq> '''' then d
         else case ResolveAllowlistEntry (Allowlist p) (Branch d) (FetchURLs p) (PushURLs p) of
           (match, ok) \<Rightarrow>
             if \<not> ok \<or> pae_Remote match \<noteq> Remote d then d\<lparr>Reason := ''not_in_allowlist''\<rparr>
             else if length (FetchURLs p) \<noteq> 1 \<or> length (PushURLs p) \<noteq> 1 then d\<lparr>Reason := ''multiple_urls''\<rparr>
             else if FetchURLs p ! 0 \<noteq> pae_URL match \<or> PushURLs p ! 0 \<noteq> pae_URL match
             then d\<lparr>Reason := ''url_mismatch''\<rparr>
             else if ReceivepackConfigured p then d\<lparr>Reason := ''receivepack_configured''\<rparr>
             else if RemoteHelperConfigured p then d\<lparr>Reason := ''remote_helper_configured''\<rparr>
             else if GitConfigInclude p then d\<lparr>Reason := ''git_config_include''\<rparr>
             else if GitConfigChanged p then d\<lparr>Reason := ''git_config_changed''\<rparr>
             else d\<lparr>ReadyForRemote := True\<rparr>)"

definition EvaluateRemote :: "push_input \<Rightarrow> push_decision \<Rightarrow> push_decision" where
  "EvaluateRemote p loc =
     (if \<not> ReadyForRemote loc \<or> Reason loc \<noteq> '''' then loc
      else
        let d = loc\<lparr>ReadyForRemote := False\<rparr>
        in if RemoteHeadUnavailable p then d\<lparr>Reason := ''remote_head_unavailable''\<rparr>
           else if RemoteHeadSHA p = '''' then d\<lparr>Reason := ''no_tracking_ref''\<rparr>
           else if \<not> shaPattern (RemoteHeadSHA p) then d\<lparr>Reason := ''remote_head_unavailable''\<rparr>
           else case RemoteHeadLocalError p of
             Some e \<Rightarrow> d\<lparr>Reason := localGitFailureReason e\<rparr>
           | None \<Rightarrow>
               if \<not> RemoteHeadLocal p then d\<lparr>Reason := ''remote_head_not_local''\<rparr>
               else d\<lparr>ReadyForCommits := True\<rparr>)"

definition EvaluateCommits :: "push_input \<Rightarrow> push_decision \<Rightarrow> push_decision" where
  "EvaluateCommits p rem =
     (if \<not> ReadyForCommits rem \<or> Reason rem \<noteq> '''' then rem
      else
        let d = rem\<lparr>ReadyForCommits := False\<rparr>;
            foreign = d\<lparr>Reason := ''foreign_commits''\<rparr>
        in case CommitListError p of
             Some e \<Rightarrow> d\<lparr>Reason := localGitFailureReason e\<rparr>
           | None \<Rightarrow>
               if \<not> shaPattern (HeadSHA p) then foreign
               else if list_ex (\<lambda>sha. \<not> shaPattern sha) (SupervisorCommitSHAs p) then foreign
               else if list_ex (\<lambda>sha. \<not> shaPattern sha \<or> sha \<notin> set (SupervisorCommitSHAs p)) (CommitSHAs p) then foreign
               else if CommitSHAs p = [] then d\<lparr>NoPushes := True\<rparr>
               else if HeadSHA p \<notin> set (SupervisorCommitSHAs p) \<or> SupervisorCommitSHAs p = []
                       \<or> last (SupervisorCommitSHAs p) \<noteq> HeadSHA p then foreign
               else if HeadSHA p = PreviousFailedHead p then d\<lparr>Suppressed := True\<rparr>
               else d\<lparr>Allowed := True\<rparr>)"

definition Evaluate :: "push_input \<Rightarrow> push_decision" where
  "Evaluate p =
     (let d = EvaluateLocal p
      in if \<not> ReadyForRemote d then d
         else let d = EvaluateRemote p d
              in if \<not> ReadyForCommits d then d
                 else EvaluateCommits p d)"

section \<open>The command line of the push\<close>

text \<open>\<open>SupervisorGitHardeningArgs\<close> split into its fields.\<close>

definition hardening_options :: "string list" where
  "hardening_options =
     [''core.hooksPath=/dev/null'', ''core.fsmonitor=false'', ''core.sshCommand='', ''push.recurseSubmodules=no'',
      ''push.pushOption='', ''protocol.ext.allow=never'', ''commit.gpgsign=false'', ''push.gpgSign=false'',
      ''core.excludesFile=/dev/null'', ''core.attributesFile=/dev/null'', ''core.gitProxy='', ''http.proxy='',
      ''credential.helper='']"

definition hardeningArgs :: "string list" where
  "hardeningArgs = concat (map (\<lambda>opt. [''-c'', opt]) hardening_options)"

definition BuildPushArgv :: "string \<Rightarrow> string \<Rightarrow> string \<Rightarrow> string list" where
  "BuildPushArgv remote branch inspectedSHA =
     hardeningArgs @ [''-c'', ''remote.'' @ remote @ ''.proxy='', ''-c'', ''push.followTags=false'', ''push'',
       ''--no-verify'', ''--recurse-submodules=no'', ''--'', remote, inspectedSHA @ '':refs/heads/'' @ branch]"

text \<open>\<open>True\<close> where the source returns no error, \<open>False\<close> for \<open>ErrPushArgvNotAllowed\<close>.\<close>

definition ValidatePushArgv :: "string list \<Rightarrow> string \<Rightarrow> string \<Rightarrow> string \<Rightarrow> bool" where
  "ValidatePushArgv argv remote branch inspectedSHA =
     (if \<not> shaPattern inspectedSHA then False
      else if length argv < 2 \<or> \<not> is_abs (argv ! 0) \<or> clean_path (argv ! 0) \<noteq> argv ! 0
              \<or> has_prefix branch ''refs/'' \<or> branch = ''HEAD'' then False
      else if \<not> validRemote remote \<or> \<not> validRefName branch then False
      else argv = argv ! 0 # BuildPushArgv remote branch inspectedSHA)"

section \<open>The lookup loops\<close>

definition branch_entries :: "push_allowlist_entry list \<Rightarrow> string \<Rightarrow> push_allowlist_entry list" where
  "branch_entries es branch = filter (\<lambda>e. pae_Branch e = branch) es"

lemma resolve_loop_eq:
  "resolve_loop es branch fu pu (c, f, n, m) =
     (let bs = branch_entries es branch; ms = filter (urls_match fu pu) bs
      in (if bs = [] then c else last bs, if ms = [] then f else last ms, n + length bs, m + length ms))"
  by (induction es arbitrary: c f n m) (simp_all add: branch_entries_def Let_def)

text \<open>With one URL on each side, a match with that URL is the only entry of the branch with it.\<close>

lemma Resolve_unique:
  "fst (ResolveAllowlistEntry es branch [u] [v]) = e \<and> snd (ResolveAllowlistEntry es branch [u] [v])
     \<and> u = pae_URL e \<and> v = pae_URL e
   \<longleftrightarrow> u = v \<and> filter (\<lambda>e. pae_URL e = u) (branch_entries es branch) = [e]"
proof -
  let ?bs = "branch_entries es branch"
  have m: "filter (urls_match [u] [v]) ?bs = (if u = v then filter (\<lambda>e. pae_URL e = u) ?bs else [])"
    by (auto simp: urls_match_def filter_empty_conv intro!: filter_cong)
  let ?ms = "filter (\<lambda>e. pae_URL e = u) ?bs"
  consider "u \<noteq> v" | "u = v" "?ms = []" | x where "u = v" "?ms = [x]" | x y zs where "u = v" "?ms = x # y # zs"
    by (metis list.exhaust)
  then show ?thesis
  proof cases
    case 1
    then show ?thesis by auto
  next
    case 2
    then have "\<forall>x \<in> set ?bs. pae_URL x \<noteq> u" by (simp add: filter_empty_conv)
    with 2 m show ?thesis
      by (auto simp: ResolveAllowlistEntry_def resolve_loop_eq Let_def split: if_splits)
  next
    case (3 x)
    then have "x \<in> set ?ms" by simp
    then have "pae_URL x = u" unfolding set_filter by blast
    with 3 m show ?thesis by (auto simp: ResolveAllowlistEntry_def resolve_loop_eq Let_def)
  next
    case (4 x y zs)
    with m show ?thesis by (simp add: ResolveAllowlistEntry_def resolve_loop_eq Let_def)
  qed
qed

lemma select_remote_set:
  "r \<noteq> '''' \<Longrightarrow> select_remote es branch r = Some q \<longleftrightarrow>
     q = r \<and> (\<forall>e \<in> set (branch_entries es branch). pae_Remote e = r)"
  by (induction es) (auto simp: branch_entries_def)

lemma select_remote_start:
  "q \<noteq> '''' \<Longrightarrow> select_remote es branch '''' = Some q \<longleftrightarrow>
     (let rs = dropWhile (\<lambda>r. r = '''') (map pae_Remote (branch_entries es branch))
      in rs \<noteq> [] \<and> (\<forall>r \<in> set rs. r = q))"
proof (induction es)
  case (Cons e es)
  consider "pae_Branch e \<noteq> branch" | "pae_Branch e = branch" "pae_Remote e = ''''"
    | "pae_Branch e = branch" "pae_Remote e \<noteq> ''''" by blast
  then show ?case
  proof cases
    case 3
    with select_remote_set [OF 3(2)] Cons.prems show ?thesis
      by (auto simp: branch_entries_def Let_def)
  qed (use Cons in \<open>auto simp: branch_entries_def Let_def\<close>)
qed (simp add: branch_entries_def)

section \<open>When a push is allowed\<close>

text \<open>What the policy asks for, stated without the order of the checks.\<close>

definition branch_pushable :: "push_input \<Rightarrow> string \<Rightarrow> bool" where
  "branch_pushable p branch \<longleftrightarrow>
     CurrentRef p = heads_prefix @ branch \<and> validRefName branch \<and> \<not> has_prefix branch ''refs/''
     \<and> branch \<noteq> ''HEAD'' \<and> branch \<notin> {''main'', ''master'', ''develop''} \<union> set (ProtectedBranches p)"

definition sole_entry :: "push_input \<Rightarrow> string \<Rightarrow> push_allowlist_entry \<Rightarrow> bool" where
  "sole_entry p branch e \<longleftrightarrow>
     FetchURLs p = [pae_URL e] \<and> PushURLs p = [pae_URL e] \<and> validRemote (pae_Remote e)
     \<and> filter (\<lambda>x. pae_URL x = pae_URL e) (branch_entries (Allowlist p) branch) = [e]
     \<and> (\<forall>r \<in> set (dropWhile (\<lambda>r. r = '''') (map pae_Remote (branch_entries (Allowlist p) branch))). r = pae_Remote e)"

definition git_quiet :: "push_input \<Rightarrow> bool" where
  "git_quiet p \<longleftrightarrow> LocalGitError p = None \<and> RemoteHeadLocalError p = None \<and> CommitListError p = None
     \<and> \<not> ReceivepackConfigured p \<and> \<not> RemoteHelperConfigured p \<and> \<not> GitConfigInclude p \<and> \<not> GitConfigChanged p"

definition remote_head_known :: "push_input \<Rightarrow> bool" where
  "remote_head_known p \<longleftrightarrow> \<not> RemoteHeadUnavailable p \<and> shaPattern (RemoteHeadSHA p) \<and> RemoteHeadLocal p"

definition own_commits :: "push_input \<Rightarrow> bool" where
  "own_commits p \<longleftrightarrow> CommitSHAs p \<noteq> [] \<and> set (CommitSHAs p) \<subseteq> set (SupervisorCommitSHAs p)
     \<and> (\<forall>sha \<in> set (SupervisorCommitSHAs p). shaPattern sha)
     \<and> SupervisorCommitSHAs p \<noteq> [] \<and> last (SupervisorCommitSHAs p) = HeadSHA p \<and> HeadSHA p \<noteq> PreviousFailedHead p"

lemma shaPattern_nonempty: "shaPattern s \<Longrightarrow> s \<noteq> []"
  by (auto simp: shaPattern_def rep_class_def)

lemma validRemote_nonempty: "validRemote s \<Longrightarrow> s \<noteq> []"
  by (simp add: validRemote_def remotePattern_def plus_class_def)

lemma localGitFailureReason_nonempty [simp]: "localGitFailureReason e \<noteq> []"
  by (cases e) (simp_all add: localGitFailureReason_def)

lemma zero_decision_simps [simp]:
  "\<not> Allowed zero_decision" "\<not> ReadyForRemote zero_decision" "\<not> ReadyForCommits zero_decision"
  "Reason zero_decision = []" "Remote zero_decision = []" "Branch zero_decision = []"
  "\<not> Noop zero_decision" "\<not> NoPushes zero_decision" "\<not> Suppressed zero_decision"
  by (simp_all add: zero_decision_def)

text \<open>What each stage leaves when it passes; a stage that does not pass leaves the decision final.\<close>

lemma EvaluateBeforeURLs_pass:
  "\<not> Noop (EvaluateBeforeURLs p) \<and> Reason (EvaluateBeforeURLs p) = [] \<longleftrightarrow>
     (\<exists>branch r. LocalGitError p = None \<and> branch_pushable p branch
        \<and> validRemote r \<and> select_remote (Allowlist p) branch '''' = Some r
        \<and> EvaluateBeforeURLs p = zero_decision\<lparr>Branch := branch, Remote := r\<rparr>)"
  (is "?pass \<longleftrightarrow> ?spec")
proof
  assume ?pass
  then have a: "Allowlist p \<noteq> []" "LocalGitError p = None" "has_prefix (CurrentRef p) heads_prefix"
    by (auto simp: EvaluateBeforeURLs_def split: option.splits if_splits)
  from a(3) obtain branch where b: "CurrentRef p = heads_prefix @ branch" by (auto simp: has_prefix_iff)
  let ?listed = "list_ex (\<lambda>x. x = branch) ([''main'', ''master'', ''develop''] @ ProtectedBranches p)"
  let ?bad = "\<not> validRefName branch \<or> has_prefix branch ''refs/'' \<or> branch = ''HEAD''"
  let ?d = "zero_decision\<lparr>Branch := branch\<rparr>"
  have d: "EvaluateBeforeURLs p =
     (if ?bad then ?d\<lparr>Reason := ''argv_not_allowed''\<rparr> else if ?listed then ?d\<lparr>Reason := ''protected_branch''\<rparr>
      else case select_remote (Allowlist p) branch '''' of
          None \<Rightarrow> ?d\<lparr>Reason := ''not_in_allowlist''\<rparr>
        | Some r \<Rightarrow> if r = '''' then ?d\<lparr>Reason := ''not_in_allowlist''\<rparr>
            else if \<not> validRemote r then ?d\<lparr>Reason := ''argv_not_allowed''\<rparr> else ?d\<lparr>Remote := r\<rparr>)"
    using a unfolding EvaluateBeforeURLs_def b trim_prefix_append Let_def same_append_eq by simp
  from \<open>?pass\<close> have ok: "\<not> ?bad" "\<not> ?listed" unfolding d by (simp_all split: if_splits)
  with \<open>?pass\<close> obtain r where "select_remote (Allowlist p) branch '''' = Some r" "validRemote r"
    unfolding d by (simp split: option.splits if_splits)
  moreover from this ok have "EvaluateBeforeURLs p = ?d\<lparr>Remote := r\<rparr>" unfolding d using validRemote_nonempty by simp
  moreover from b ok have "branch_pushable p branch" by (auto simp: branch_pushable_def list_ex_iff)
  ultimately show ?spec using a(2) by blast
next
  assume ?spec
  then show ?pass by auto
qed

lemma EvaluateBeforeURLs_flags [simp]:
  "\<not> Allowed (EvaluateBeforeURLs p)" "\<not> ReadyForRemote (EvaluateBeforeURLs p)" "\<not> ReadyForCommits (EvaluateBeforeURLs p)"
  "\<not> NoPushes (EvaluateBeforeURLs p)" "\<not> Suppressed (EvaluateBeforeURLs p)"
  by (simp_all add: EvaluateBeforeURLs_def Let_def split: option.splits)

lemma EvaluateLocal_pass:
  "ReadyForRemote (EvaluateLocal p) \<longleftrightarrow>
     (\<exists>branch e. LocalGitError p = None \<and> branch_pushable p branch \<and> sole_entry p branch e
        \<and> \<not> ReceivepackConfigured p \<and> \<not> RemoteHelperConfigured p \<and> \<not> GitConfigInclude p \<and> \<not> GitConfigChanged p
        \<and> EvaluateLocal p = zero_decision\<lparr>Branch := branch, Remote := pae_Remote e, ReadyForRemote := True\<rparr>)"
  (is "?ready \<longleftrightarrow> ?spec")
proof
  let ?d = "EvaluateBeforeURLs p"
  let ?m = "ResolveAllowlistEntry (Allowlist p) (Branch ?d) (FetchURLs p) (PushURLs p)"
  assume ready: ?ready
  then have "\<not> Noop ?d \<and> Reason ?d = []"
    by (auto simp: EvaluateLocal_def Let_def split: if_splits)
  then obtain branch r where b: "LocalGitError p = None" "branch_pushable p branch" "validRemote r"
    "select_remote (Allowlist p) branch '''' = Some r" "?d = zero_decision\<lparr>Branch := branch, Remote := r\<rparr>"
    unfolding EvaluateBeforeURLs_pass by blast
  from ready b(5) have ok: "snd ?m" "pae_Remote (fst ?m) = r" "length (FetchURLs p) = 1" "length (PushURLs p) = 1"
    "FetchURLs p ! 0 = pae_URL (fst ?m)" "PushURLs p ! 0 = pae_URL (fst ?m)"
    "\<not> ReceivepackConfigured p" "\<not> RemoteHelperConfigured p" "\<not> GitConfigInclude p" "\<not> GitConfigChanged p"
    by (auto simp: EvaluateLocal_def Let_def split: if_splits prod.splits)
  from ok(3-6) have urls: "FetchURLs p = [pae_URL (fst ?m)]" "PushURLs p = [pae_URL (fst ?m)]"
    by (simp_all add: length_Suc_conv) auto
  with ok(1) b(5) Resolve_unique [of "Allowlist p" branch "pae_URL (fst ?m)" "pae_URL (fst ?m)" "fst ?m"]
  have u: "filter (\<lambda>x. pae_URL x = pae_URL (fst ?m)) (branch_entries (Allowlist p) branch) = [fst ?m]" by simp
  have "sole_entry p branch (fst ?m)"
    using b(3,4) ok(2) urls u select_remote_start [OF validRemote_nonempty [OF b(3)]]
    by (simp add: sole_entry_def Let_def)
  moreover have "EvaluateLocal p = zero_decision\<lparr>Branch := branch, Remote := r, ReadyForRemote := True\<rparr>"
    using ok b(5) by (simp add: EvaluateLocal_def Let_def case_prod_beta)
  ultimately show ?spec using b ok by blast
next
  assume ?spec
  then show ?ready by auto
qed

lemma EvaluateLocal_flags [simp]:
  "\<not> Allowed (EvaluateLocal p)" "\<not> ReadyForCommits (EvaluateLocal p)"
  by (simp_all add: EvaluateLocal_def Let_def case_prod_beta if_distrib [of Allowed] if_distrib [of ReadyForCommits] cong: if_cong)

lemma EvaluateRemote_pass:
  assumes "ReadyForRemote d" and "Reason d = []" and "\<not> ReadyForCommits d"
  shows "ReadyForCommits (EvaluateRemote p d) \<longleftrightarrow> RemoteHeadLocalError p = None \<and> remote_head_known p"
    and "ReadyForCommits (EvaluateRemote p d) \<Longrightarrow> EvaluateRemote p d = d\<lparr>ReadyForRemote := False, ReadyForCommits := True\<rparr>"
  using assms shaPattern_nonempty [of "RemoteHeadSHA p"]
  by (auto simp: EvaluateRemote_def Let_def remote_head_known_def split: option.splits if_splits)

lemma EvaluateRemote_flags: "\<not> Allowed d \<Longrightarrow> \<not> Allowed (EvaluateRemote p d)"
  by (simp add: EvaluateRemote_def Let_def split: option.splits)

lemma EvaluateCommits_pass:
  assumes "ReadyForCommits d" and "Reason d = []" and "\<not> Allowed d"
  shows "Allowed (EvaluateCommits p d) \<longleftrightarrow> CommitListError p = None \<and> own_commits p"
    and "Allowed (EvaluateCommits p d) \<Longrightarrow> EvaluateCommits p d = d\<lparr>ReadyForCommits := False, Allowed := True\<rparr>"
proof -
  have last_in: "HeadSHA p \<in> set (SupervisorCommitSHAs p)"
    if "SupervisorCommitSHAs p \<noteq> []" "last (SupervisorCommitSHAs p) = HeadSHA p"
    using that by (metis last_in_set)
  have iff: "Allowed (EvaluateCommits p d) \<longleftrightarrow> CommitListError p = None \<and> shaPattern (HeadSHA p)
      \<and> (\<forall>sha \<in> set (SupervisorCommitSHAs p). shaPattern sha)
      \<and> (\<forall>sha \<in> set (CommitSHAs p). shaPattern sha \<and> sha \<in> set (SupervisorCommitSHAs p))
      \<and> CommitSHAs p \<noteq> [] \<and> HeadSHA p \<in> set (SupervisorCommitSHAs p) \<and> SupervisorCommitSHAs p \<noteq> []
      \<and> last (SupervisorCommitSHAs p) = HeadSHA p \<and> HeadSHA p \<noteq> PreviousFailedHead p"
    using assms by (simp add: EvaluateCommits_def Let_def list_ex_iff split: option.splits)
  have "(\<forall>sha \<in> set (CommitSHAs p). shaPattern sha \<and> sha \<in> set (SupervisorCommitSHAs p))
      \<longleftrightarrow> set (CommitSHAs p) \<subseteq> set (SupervisorCommitSHAs p)"
    if "\<forall>sha \<in> set (SupervisorCommitSHAs p). shaPattern sha"
    using that by blast
  then show "Allowed (EvaluateCommits p d) \<longleftrightarrow> CommitListError p = None \<and> own_commits p"
    using last_in iff by (auto simp only: own_commits_def)
  show "EvaluateCommits p d = d\<lparr>ReadyForCommits := False, Allowed := True\<rparr>" if "Allowed (EvaluateCommits p d)"
    using assms that [unfolded iff] by (simp add: EvaluateCommits_def Let_def list_ex_iff)
qed

lemma Allowed_Evaluate_stages:
  "Allowed (Evaluate p) \<longleftrightarrow>
     (\<exists>branch e. branch_pushable p branch \<and> sole_entry p branch e \<and> git_quiet p \<and> remote_head_known p \<and> own_commits p
        \<and> Evaluate p = zero_decision\<lparr>Branch := branch, Remote := pae_Remote e, Allowed := True\<rparr>)"
  (is "_ \<longleftrightarrow> ?spec")
proof
  assume a: "Allowed (Evaluate p)"
  then have ready: "ReadyForRemote (EvaluateLocal p)"
    by (auto simp: Evaluate_def Let_def split: if_splits)
  then obtain branch e where l: "LocalGitError p = None" "branch_pushable p branch" "sole_entry p branch e"
    "\<not> ReceivepackConfigured p" "\<not> RemoteHelperConfigured p" "\<not> GitConfigInclude p" "\<not> GitConfigChanged p"
    and d: "EvaluateLocal p = zero_decision\<lparr>Branch := branch, Remote := pae_Remote e, ReadyForRemote := True\<rparr>"
    unfolding EvaluateLocal_pass by blast
  let ?r = "EvaluateRemote p (EvaluateLocal p)"
  from d have d': "Reason (EvaluateLocal p) = []" "\<not> ReadyForCommits (EvaluateLocal p)" by simp_all
  from a ready have rc: "ReadyForCommits ?r"
    using EvaluateRemote_flags [of "EvaluateLocal p" p] by (auto simp: Evaluate_def Let_def split: if_splits)
  with EvaluateRemote_pass [OF ready d', of p]
  have r: "RemoteHeadLocalError p = None" "remote_head_known p"
    "?r = zero_decision\<lparr>Branch := branch, Remote := pae_Remote e, ReadyForCommits := True\<rparr>"
    by (simp_all add: d)
  then have r': "Reason ?r = []" "\<not> Allowed ?r" by simp_all
  from a ready rc have c: "Evaluate p = EvaluateCommits p ?r" by (simp add: Evaluate_def Let_def)
  with a EvaluateCommits_pass [OF rc r', of p] have "CommitListError p = None" "own_commits p"
    "Evaluate p = zero_decision\<lparr>Branch := branch, Remote := pae_Remote e, Allowed := True\<rparr>"
    by (simp_all add: r)
  with l r show ?spec by (auto simp: git_quiet_def)
qed auto

text \<open>A stage passes when its conditions hold: the other direction, stage by stage.\<close>

lemma EvaluateLocal_ready:
  assumes "branch_pushable p branch" and "sole_entry p branch e" and "git_quiet p"
  shows "EvaluateLocal p = zero_decision\<lparr>Branch := branch, Remote := pae_Remote e, ReadyForRemote := True\<rparr>"
proof -
  let ?es = "Allowlist p" and ?r = "pae_Remote e" and ?u = "pae_URL e"
  from assms(2) have s: "FetchURLs p = [?u]" "PushURLs p = [?u]" "validRemote ?r"
    "filter (\<lambda>x. pae_URL x = ?u) (branch_entries ?es branch) = [e]"
    "\<forall>r \<in> set (dropWhile (\<lambda>r. r = '''') (map pae_Remote (branch_entries ?es branch))). r = ?r"
    by (simp_all add: sole_entry_def)
  then have "e \<in> set (filter (\<lambda>x. pae_URL x = ?u) (branch_entries ?es branch))" by simp
  then have e: "e \<in> set (branch_entries ?es branch)" by simp
  then have ne: "?es \<noteq> []" by (auto simp: branch_entries_def)
  have "dropWhile (\<lambda>r. r = '''') (map pae_Remote (branch_entries ?es branch)) \<noteq> []"
    using e validRemote_nonempty [OF s(3)] by (auto simp: dropWhile_eq_Nil_conv)
  with s(5) have sel: "select_remote ?es branch '''' = Some ?r"
    by (simp only: select_remote_start [OF validRemote_nonempty [OF s(3)]] Let_def simp_thms)
  from assms(1) have b: "CurrentRef p = heads_prefix @ branch" "validRefName branch" "\<not> has_prefix branch ''refs/''"
    "branch \<noteq> ''HEAD''" "branch \<notin> {''main'', ''master'', ''develop''} \<union> set (ProtectedBranches p)"
    by (simp_all add: branch_pushable_def)
  have pre: "EvaluateBeforeURLs p = zero_decision\<lparr>Branch := branch, Remote := ?r\<rparr>"
  proof -
    have "\<not> list_ex (\<lambda>x. heads_prefix @ x = CurrentRef p) ([''main'', ''master'', ''develop''] @ ProtectedBranches p)"
      using b(1,5) by (auto simp: list_ex_iff)
    with ne assms(3) b sel s(3) validRemote_nonempty [OF s(3)] show ?thesis
      unfolding EvaluateBeforeURLs_def b(1) trim_prefix_append Let_def git_quiet_def
      by (simp add: has_prefix_def)
  qed
  from Resolve_unique [of ?es branch ?u ?u e] s(4) obtain m where
    "ResolveAllowlistEntry ?es branch [?u] [?u] = (m, True)" "m = e"
    by (metis prod.collapse)
  with pre s assms(3) show ?thesis by (simp add: EvaluateLocal_def git_quiet_def Let_def)
qed

lemma Evaluate_allowed:
  assumes "branch_pushable p branch" and "sole_entry p branch e" and "git_quiet p" and "remote_head_known p" and "own_commits p"
  shows "Evaluate p = zero_decision\<lparr>Branch := branch, Remote := pae_Remote e, Allowed := True\<rparr>"
proof -
  let ?d = "zero_decision\<lparr>Branch := branch, Remote := pae_Remote e, ReadyForRemote := True\<rparr>"
  note l = EvaluateLocal_ready [OF assms(1-3)]
  have r: "EvaluateRemote p ?d = zero_decision\<lparr>Branch := branch, Remote := pae_Remote e, ReadyForCommits := True\<rparr>"
    using EvaluateRemote_pass [of ?d p] assms(3,4) by (simp add: git_quiet_def)
  then have "EvaluateCommits p (EvaluateRemote p ?d) = zero_decision\<lparr>Branch := branch, Remote := pae_Remote e, Allowed := True\<rparr>"
    using EvaluateCommits_pass [of "EvaluateRemote p ?d" p] assms(3,5) by (simp add: git_quiet_def)
  with l r show ?thesis by (simp add: Evaluate_def Let_def)
qed

text \<open>
  C39: a push is allowed for a branch and a remote exactly when the current ref is that branch, its name is
  valid and it is neither one of the default nor one of the configured protected branches; the one fetch
  URL and the one push URL are the URL of exactly one allowlist entry of the branch, whose remote is valid
  and the only remote the allowlist names for the branch; no git command failed and no receive-pack,
  remote-helper, include or changed configuration was seen; the remote head is known and present locally;
  and every commit to be pushed is one of the supervisor's, the last of which is the head, and this head
  has not failed before. Leading allowlist entries of the branch with an empty remote are skipped.
\<close>

theorem push_allowed_iff:
  "Allowed (Evaluate p) \<and> Branch (Evaluate p) = branch \<and> Remote (Evaluate p) = remote \<longleftrightarrow>
     (\<exists>e. pae_Remote e = remote \<and> branch_pushable p branch \<and> sole_entry p branch e \<and> git_quiet p
        \<and> remote_head_known p \<and> own_commits p)"
proof
  assume "Allowed (Evaluate p) \<and> Branch (Evaluate p) = branch \<and> Remote (Evaluate p) = remote"
  then show "\<exists>e. pae_Remote e = remote \<and> branch_pushable p branch \<and> sole_entry p branch e \<and> git_quiet p
        \<and> remote_head_known p \<and> own_commits p"
    unfolding Allowed_Evaluate_stages by auto
qed (use Evaluate_allowed in auto)

section \<open>The command line is confined\<close>

lemma lower_hex_no_colon: "lower_hex c \<Longrightarrow> c \<noteq> CHR '':''"
  by (auto simp: lower_hex_def is_digit_char_def char_between_def)

lemma shaPattern_no_colon: "shaPattern s \<Longrightarrow> CHR '':'' \<notin> set s"
  by (auto simp: shaPattern_def rep_class_def list_all_iff dest: lower_hex_no_colon)

lemma validRefName_no_colon: "validRefName s \<Longrightarrow> CHR '':'' \<notin> set s"
  by (auto simp: validRefName_def ref_forbidden_def list_ex_iff split: if_splits)

lemma validRemote_first: "validRemote s \<Longrightarrow> hd s \<noteq> CHR ''+'' \<and> hd s \<noteq> CHR ''-''"
  by (cases s) (auto simp: validRemote_def remotePattern_def plus_class_def remote_char_def
      is_digit_char_def char_between_def has_prefix_def)

lemma shaPattern_first: "shaPattern s \<Longrightarrow> hd (s @ t) \<noteq> CHR ''+'' \<and> hd (s @ t) \<noteq> CHR ''-''"
  by (cases s) (auto simp: shaPattern_def rep_class_def lower_hex_def is_digit_char_def char_between_def)

text \<open>
  A command line of git read from the left, as git documents it: the program, the settings \<^verbatim>\<open>-c key=value\<close>,
  the subcommand, its options, and behind the end of options its operands.
\<close>

record git_command =
  gc_program :: string
  gc_settings :: "(string \<times> string) list"
  gc_verb :: string
  gc_options :: "string list"
  gc_operands :: "string list"

definition read_setting :: "string \<Rightarrow> string \<times> string" where
  "read_setting s = (takeWhile (\<lambda>c. c \<noteq> CHR ''='') s, drop 1 (dropWhile (\<lambda>c. c \<noteq> CHR ''='') s))"

fun read_settings :: "string list \<Rightarrow> (string \<times> string) list \<times> string list" where
  "read_settings (a # v # rest) =
     (if a = ''-c'' then (case read_settings rest of (ss, left) \<Rightarrow> (read_setting v # ss, left))
      else ([], a # v # rest))"
| "read_settings args = ([], args)"

definition is_option :: "string \<Rightarrow> bool" where
  "is_option a \<longleftrightarrow> has_prefix a ''-'' \<and> a \<noteq> ''--''"

fun read_command :: "string list \<Rightarrow> git_command option" where
  "read_command [] = None"
| "read_command (program # args) =
     (case read_settings args of
        (ss, verb # rest) \<Rightarrow>
          Some \<lparr>gc_program = program, gc_settings = ss, gc_verb = verb, gc_options = takeWhile is_option rest,
                gc_operands = (case dropWhile is_option rest of
                   a # operands \<Rightarrow> if a = ''--'' then operands else a # operands
                 | [] \<Rightarrow> [])\<rparr>
      | _ \<Rightarrow> None)"

text \<open>The values by which a setting switches its feature off or leaves it empty.\<close>

definition off_values :: "string list" where
  "off_values = ['''', ''false'', ''no'', ''never'', ''/dev/null'']"

lemma read_settings_concat:
  "rest \<noteq> [] \<Longrightarrow> hd rest \<noteq> ''-c''
     \<Longrightarrow> read_settings (concat (map (\<lambda>opt. [''-c'', opt]) opts) @ rest) = (map read_setting opts, rest)"
proof (induction opts)
  case Nil
  then show ?case by (cases rest rule: read_settings.cases) auto
qed simp

lemma validRemote_setting:
  assumes "validRemote remote"
  shows "read_setting (''remote.'' @ remote @ ''.proxy='') = (''remote.'' @ remote @ ''.proxy'', '''')"
proof -
  have "\<forall>c \<in> set remote. c \<noteq> CHR ''=''"
    using assms by (auto simp: validRemote_def remotePattern_def plus_class_def list_all_iff remote_char_def
        char_between_def is_digit_char_def)
  then show ?thesis by (simp add: read_setting_def takeWhile_append dropWhile_append)
qed

text \<open>How the command line that the policy builds reads.\<close>

definition push_settings :: "string \<Rightarrow> (string \<times> string) list" where
  "push_settings remote = map read_setting hardening_options
     @ [(''remote.'' @ remote @ ''.proxy'', ''''), (''push.followTags'', ''false'')]"

lemma read_BuildPushArgv:
  assumes "validRemote remote"
  shows "read_command (git # BuildPushArgv remote branch sha) =
     Some \<lparr>gc_program = git, gc_settings = push_settings remote,
       gc_verb = ''push'', gc_options = [''--no-verify'', ''--recurse-submodules=no''],
       gc_operands = [remote, sha @ '':refs/heads/'' @ branch]\<rparr>"
proof -
  let ?opts = "hardening_options @ [''remote.'' @ remote @ ''.proxy='', ''push.followTags=false'']"
  let ?rest = "[''push'', ''--no-verify'', ''--recurse-submodules=no'', ''--'', remote, sha @ '':refs/heads/'' @ branch]"
  have "BuildPushArgv remote branch sha = concat (map (\<lambda>opt. [''-c'', opt]) ?opts) @ ?rest"
    by (simp add: BuildPushArgv_def hardeningArgs_def)
  moreover have "read_setting ''push.followTags=false'' = (''push.followTags'', ''false'')" by code_simp
  ultimately have "read_settings (BuildPushArgv remote branch sha) = (push_settings remote, ?rest)"
    using read_settings_concat [of ?rest ?opts] validRemote_setting [OF assms] by (simp add: push_settings_def)
  then show ?thesis by (simp add: has_prefix_def is_option_def)
qed

lemma hardening_settings:
  "map read_setting hardening_options =
     [(''core.hooksPath'', ''/dev/null''), (''core.fsmonitor'', ''false''), (''core.sshCommand'', ''''),
      (''push.recurseSubmodules'', ''no''), (''push.pushOption'', ''''), (''protocol.ext.allow'', ''never''),
      (''commit.gpgsign'', ''false''), (''push.gpgSign'', ''false''), (''core.excludesFile'', ''/dev/null''),
      (''core.attributesFile'', ''/dev/null''), (''core.gitProxy'', ''''), (''http.proxy'', ''''), (''credential.helper'', '''')]"
  by code_simp

lemma push_settings_off:
  "list_all (\<lambda>s. snd s \<in> set off_values) (push_settings remote)"
  "(''push.followTags'', ''false'') \<in> set (push_settings remote)"
  "(''core.hooksPath'', ''/dev/null'') \<in> set (push_settings remote)"
  unfolding push_settings_def hardening_settings by (simp_all add: off_values_def)

lemma push_settings_distinct: "distinct (map fst (push_settings remote))"
  unfolding push_settings_def hardening_settings by simp

text \<open>
  C40: what a command line that \<open>ValidatePushArgv\<close> accepts asks git to do. Read from the left it is the
  subcommand push with exactly two options, both of which switch something off, and exactly two operands: the
  remote and one refspec, which is the inspected commit, one colon and the full name of the branch, without a
  plus sign and with a commit on its left side; so neither an option nor an operand forces, deletes, mirrors
  or pushes tags. No setting is given twice, every setting that is given switches its feature off or empties
  it, and hooks and the pushing of tags along with the branch are among what is switched off.
\<close>

theorem push_argv_confined:
  assumes "ValidatePushArgv argv remote branch inspectedSHA"
  shows "\<exists>g refspec. read_command argv = Some g \<and> gc_verb g = ''push''
     \<and> gc_options g = [''--no-verify'', ''--recurse-submodules=no'']
     \<and> gc_operands g = [remote, refspec]
     \<and> split_on (CHR '':'') refspec = [inspectedSHA, heads_prefix @ branch] \<and> shaPattern inspectedSHA
     \<and> \<not> has_prefix refspec ''+'' \<and> \<not> has_prefix refspec ''-'' \<and> \<not> has_prefix remote ''-''
     \<and> distinct (map fst (gc_settings g)) \<and> list_all (\<lambda>s. snd s \<in> set off_values) (gc_settings g)
     \<and> (''push.followTags'', ''false'') \<in> set (gc_settings g)
     \<and> (''core.hooksPath'', ''/dev/null'') \<in> set (gc_settings g)"
proof -
  from assms have sha: "shaPattern inspectedSHA" and rem: "validRemote remote" and br: "validRefName branch"
    and argv: "argv = argv ! 0 # BuildPushArgv remote branch inspectedSHA"
    by (auto simp: ValidatePushArgv_def split: if_splits)
  from argv obtain git where g: "argv = git # BuildPushArgv remote branch inspectedSHA" by blast
  let ?spec = "inspectedSHA @ CHR '':'' # heads_prefix @ branch"
  have colon: "CHR '':'' \<notin> set (heads_prefix @ branch)" using validRefName_no_colon [OF br] by simp
  have spec: "split_on (CHR '':'') ?spec = [inspectedSHA, heads_prefix @ branch]"
    by (simp only: split_on_append_sep [OF shaPattern_no_colon [OF sha]] split_on_id [OF colon])
  have plain: "\<not> has_prefix a ''+'' \<and> \<not> has_prefix a ''-''" if "hd a \<noteq> CHR ''+'' \<and> hd a \<noteq> CHR ''-''" for a :: string
    using that by (cases a) (auto simp: has_prefix_def)
  note free = plain [OF validRemote_first [OF rem]] plain [OF shaPattern_first [OF sha]]
  show ?thesis
    unfolding g read_BuildPushArgv [OF rem]
    by (rule exI, rule exI [of _ ?spec], rule conjI, rule refl,
        simp add: spec [simplified] free [simplified] sha push_settings_off push_settings_distinct)
qed

definition sample_sha :: string where
  "sample_sha = replicate 40 (CHR ''a'')"

theorem push_argv_confined_witness:
  "\<exists>g. read_command (''/usr/bin/git'' # BuildPushArgv ''origin'' ''feature/x'' sample_sha) = Some g
     \<and> gc_operands g = [''origin'', sample_sha @ '':refs/heads/feature/x'']
     \<and> list_all (\<lambda>s. snd s \<in> set off_values) (gc_settings g)"
proof -
  have "ValidatePushArgv (''/usr/bin/git'' # BuildPushArgv ''origin'' ''feature/x'' sample_sha) ''origin'' ''feature/x'' sample_sha"
    by code_simp
  from push_argv_confined [OF this] obtain g where g:
    "read_command (''/usr/bin/git'' # BuildPushArgv ''origin'' ''feature/x'' sample_sha) = Some g"
    "list_all (\<lambda>s. snd s \<in> set off_values) (gc_settings g)" by blast
  moreover have "map_option gc_operands (read_command (''/usr/bin/git'' # BuildPushArgv ''origin'' ''feature/x'' sample_sha))
      = Some [''origin'', sample_sha @ '':refs/heads/feature/x'']" by code_simp
  ultimately show ?thesis by simp
qed

text \<open>
  The decision and the validation agree: for every allowed push, the command line built from the
  remote and the branch of the decision and the inspected head passes \<open>ValidatePushArgv\<close>, whatever
  clean absolute path the git program has.
\<close>

theorem allowed_push_validates:
  assumes "Allowed (Evaluate p)" and "is_abs git" and "clean_path git = git"
  shows "ValidatePushArgv (git # BuildPushArgv (Remote (Evaluate p)) (Branch (Evaluate p)) (HeadSHA p))
           (Remote (Evaluate p)) (Branch (Evaluate p)) (HeadSHA p)"
proof -
  from assms(1) obtain branch e where a: "branch_pushable p branch" "sole_entry p branch e" "own_commits p"
    and d: "Evaluate p = zero_decision\<lparr>Branch := branch, Remote := pae_Remote e, Allowed := True\<rparr>"
    unfolding Allowed_Evaluate_stages by blast
  from a(3) have "shaPattern (HeadSHA p)" unfolding own_commits_def by (metis last_in_set)
  with a assms(2,3) d show ?thesis
    by (simp add: ValidatePushArgv_def branch_pushable_def sole_entry_def BuildPushArgv_def)
qed

definition sample_push :: push_input where
  "sample_push = \<lparr>LocalGitError = None, RemoteHeadLocalError = None, CommitListError = None,
     FetchURLs = [''u''], PushURLs = [''u''], ReceivepackConfigured = False, RemoteHelperConfigured = False,
     CurrentRef = heads_prefix @ ''feature/x'', ProtectedBranches = [''release''],
     Allowlist = [\<lparr>pae_Remote = ''origin'', pae_URL = ''u'', pae_Branch = ''feature/x''\<rparr>,
                  \<lparr>pae_Remote = ''origin'', pae_URL = ''v'', pae_Branch = ''feature/x''\<rparr>],
     RemoteHeadSHA = sample_sha, RemoteHeadLocal = True, RemoteHeadUnavailable = False,
     CommitSHAs = [sample_sha], SupervisorCommitSHAs = [sample_sha], HeadSHA = sample_sha,
     PreviousFailedHead = [], GitConfigChanged = False, GitConfigInclude = False\<rparr>"

theorem allowed_push_validates_witness:
  "ValidatePushArgv (''/usr/bin/git'' # BuildPushArgv (Remote (Evaluate sample_push)) (Branch (Evaluate sample_push)) (HeadSHA sample_push))
     (Remote (Evaluate sample_push)) (Branch (Evaluate sample_push)) (HeadSHA sample_push)"
proof (rule allowed_push_validates)
  show "Allowed (Evaluate sample_push)" by code_simp
  show "is_abs ''/usr/bin/git''" and "clean_path ''/usr/bin/git'' = ''/usr/bin/git''" by code_simp+
qed

end
