(* ===== verification/Filepath.thy ===== *)
theory Filepath
  imports Domain_Values
begin

text \<open>
  The functions of Go's \<^verbatim>\<open>path/filepath\<close> on Unix that the scope of a session uses, with the
  algebra of clean absolute paths: such a path is a slash followed by plain components, and \<open>Join\<close>,
  \<open>Dir\<close>, \<open>Base\<close> and \<open>Rel\<close> act on it as the corresponding operations on the list of components.
  \<open>ToSlash\<close> and \<open>FromSlash\<close> are the identity on Unix.
\<close>

abbreviation slash :: char where
  "slash \<equiv> CHR ''/''"

section \<open>Join, Dir, Base, Abs and Rel\<close>

definition filepath_join :: "string \<Rightarrow> string \<Rightarrow> string" where
  "filepath_join a b =
     (if a \<noteq> '''' then clean_path (a @ slash # b) else if b \<noteq> '''' then clean_path b else '''')"

text \<open>\<open>Dir\<close> cleans what precedes the last slash, that slash included.\<close>

definition upto_slash :: "string \<Rightarrow> string" where
  "upto_slash p = rev (dropWhile (\<lambda>c. c \<noteq> slash) (rev p))"

definition filepath_dir :: "string \<Rightarrow> string" where
  "filepath_dir p = clean_path (upto_slash p)"

definition after_slash :: "string \<Rightarrow> string" where
  "after_slash p = rev (takeWhile (\<lambda>c. c \<noteq> slash) (rev p))"

definition filepath_base :: "string \<Rightarrow> string" where
  "filepath_base p =
     (if p = '''' then ''.''
      else let b = after_slash (rev (dropWhile (\<lambda>c. c = slash) (rev p)))
           in if b = '''' then ''/'' else b)"

text \<open>\<open>Abs\<close> on the answer of \<open>os.Getwd\<close>.\<close>

definition filepath_abs :: "('e + string) \<Rightarrow> string \<Rightarrow> 'e + string" where
  "filepath_abs getwd p =
     (if is_abs p then Inr (clean_path p)
      else case getwd of Inl e \<Rightarrow> Inl e | Inr wd \<Rightarrow> Inr (filepath_join wd p))"

text \<open>\<open>Rel\<close> walks over the common components of the two clean paths; \<open>None\<close> is its error.\<close>

definition path_comps :: "string \<Rightarrow> string list" where
  "path_comps p = filter (\<lambda>c. c \<noteq> '''') (split_on slash p)"

fun strip_common :: "'a list \<Rightarrow> 'a list \<Rightarrow> 'a list \<times> 'a list" where
  "strip_common (x # xs) (y # ys) = (if x = y then strip_common xs ys else (x # xs, y # ys))"
| "strip_common xs ys = (xs, ys)"

definition filepath_rel :: "string \<Rightarrow> string \<Rightarrow> string option" where
  "filepath_rel basepath targpath =
     (let base = clean_path basepath; targ = clean_path targpath
      in if targ = base then Some ''.''
         else
           let base = (if base = ''.'' then '''' else base)
           in if has_prefix base ''/'' \<noteq> has_prefix targ ''/'' then None
              else case strip_common (path_comps base) (path_comps targ) of
                (bs, ts) \<Rightarrow>
                  if bs \<noteq> [] \<and> hd bs = ''..'' then None
                  else if bs \<noteq> [] then Some (join_with slash (replicate (length bs) ''..'' @ ts))
                  else Some (join_with slash ts))"

section \<open>The length of a clean path\<close>

lemma length_join_with: "xs \<noteq> [] \<Longrightarrow> Suc (length (join_with c xs)) = (\<Sum>x\<leftarrow>xs. Suc (length x))"
proof (induction xs)
  case (Cons x xs)
  then show ?case by (cases xs) (auto simp: join_with_Cons)
qed simp

lemma length_split_sum: "(\<Sum>x\<leftarrow>split_on c s. Suc (length x)) = Suc (length s)"
  using length_join_with [of "split_on c s" c] by simp

lemma clean_step_weight:
  "(\<Sum>x\<leftarrow>clean_step r out seg. Suc (length x)) \<le> (\<Sum>x\<leftarrow>out. Suc (length x)) + Suc (length seg)"
  by (cases out) auto

lemma clean_stack_weight:
  "(\<Sum>x\<leftarrow>clean_stack r comps. Suc (length x)) \<le> (\<Sum>x\<leftarrow>comps. Suc (length x))"
proof -
  have "(\<Sum>x\<leftarrow>foldl (clean_step r) out comps. Suc (length x))
      \<le> (\<Sum>x\<leftarrow>out. Suc (length x)) + (\<Sum>x\<leftarrow>comps. Suc (length x))" for out
  proof (induction comps arbitrary: out)
    case (Cons c cs)
    from Cons.IH [of "clean_step r out c"] clean_step_weight [of r out c]
    show ?case by simp
  qed simp
  from this [of "[]"] show ?thesis by (simp add: clean_stack_def)
qed

lemma length_join_le:
  assumes "(\<Sum>x\<leftarrow>xs. Suc (length x)) \<le> Suc n"
  shows "length (join_with c (rev xs)) \<le> n"
proof (cases "xs = []")
  case False
  then have "Suc (length (join_with c (rev xs))) = (\<Sum>x\<leftarrow>xs. Suc (length x))"
    using length_join_with [of "rev xs" c] by (simp add: rev_map [symmetric])
  with assms show ?thesis by simp
qed simp

lemma length_clean_path:
  assumes "p \<noteq> []"
  shows "length (clean_path p) \<le> length p"
proof (cases "is_abs p")
  case True
  then obtain q where p: "p = slash # q" by (auto simp: is_abs_def has_prefix_iff)
  have "length (join_with slash (rev (clean_stack True (split_on slash q)))) \<le> length q"
    by (rule length_join_le) (metis clean_stack_weight length_split_sum)
  with p show ?thesis by (simp add: clean_path_abs)
next
  case False
  have "length (join_with slash (rev (clean_stack False (split_on slash p)))) \<le> length p"
    by (rule length_join_le) (metis clean_stack_weight length_split_sum)
  with False assms show ?thesis by (simp add: clean_path_def Let_def Suc_le_eq)
qed

lemma clean_path_not_Nil [simp]: "clean_path p \<noteq> []"
  by (simp add: clean_path_def Let_def)

lemma split_on_snoc_sep: "split_on c (s @ [c]) = split_on c s @ [[]]"
proof (induction s)
  case (Cons x xs)
  then show ?case by (cases "split_on c xs") auto
qed simp

lemma clean_path_trailing_slash:
  assumes "p \<noteq> []"
  shows "clean_path (p @ [slash]) = clean_path p"
proof -
  have "is_abs (p @ [slash]) = is_abs p" using assms by (cases p) (auto simp: is_abs_def has_prefix_def)
  moreover have "clean_stack r (split_on slash (p @ [slash])) = clean_stack r (split_on slash p)" for r
    by (simp add: split_on_snoc_sep clean_stack_def)
  ultimately show ?thesis by (simp add: clean_path_def)
qed

lemma upto_after_slash: "p = upto_slash p @ after_slash p"
  unfolding upto_slash_def after_slash_def rev_append [symmetric] takeWhile_dropWhile_id rev_rev_ident
  by (rule refl)

lemma upto_slash_last: "upto_slash p \<noteq> [] \<Longrightarrow> last (upto_slash p) = slash"
  using hd_dropWhile [of "\<lambda>c. c \<noteq> slash" "rev p"] by (simp add: upto_slash_def last_rev)

text \<open>The measure that \<open>Dir\<close> decreases until it reaches a fixed point.\<close>

definition dir_rank :: "string \<Rightarrow> nat" where
  "dir_rank p = (if p = '''' then 3 else 2 * length p + (if p = ''.'' then 0 else 1))"

lemma dir_rank_decreases:
  assumes "filepath_dir p \<noteq> p"
  shows "dir_rank (filepath_dir p) < dir_rank p"
proof (cases "upto_slash p = []")
  case True
  then have "filepath_dir p = ''.''" by (simp add: filepath_dir_def clean_path_def is_abs_def clean_stack_def has_prefix_def)
  with assms show ?thesis by (cases p) (auto simp: dir_rank_def)
next
  case False
  then obtain r where q: "upto_slash p = r @ [slash]"
    by (metis append_butlast_last_id upto_slash_last)
  have len: "length p = Suc (length r) + length (after_slash p)"
    using arg_cong [OF upto_after_slash, of length p] by (simp add: q)
  show ?thesis
  proof (cases "r = []")
    case True
    then have d: "filepath_dir p = ''/''" by (simp add: filepath_dir_def q clean_path_abs clean_stack_def)
    have "after_slash p \<noteq> []" using assms d upto_after_slash [of p] q True by auto
    with len d show ?thesis by (cases p) (auto simp: dir_rank_def)
  next
    case r: False
    then have "length (filepath_dir p) \<le> length r"
      unfolding filepath_dir_def q clean_path_trailing_slash [OF r] by (rule length_clean_path)
    moreover have "filepath_dir p \<noteq> []" by (simp add: filepath_dir_def)
    ultimately show ?thesis using len by (auto simp: dir_rank_def)
  qed
qed

section \<open>Clean absolute paths as lists of components\<close>

abbreviation abs_path :: "string list \<Rightarrow> string" where
  "abs_path cs \<equiv> slash # join_with slash cs"

lemma plain_comp_simps:
  assumes "plain_comp x"
  shows "x \<noteq> []" and "x \<noteq> ''.''" and "x \<noteq> ''..''" and "slash \<notin> set x"
  using assms by (auto simp: plain_comp_def)

lemma split_join_plain:
  assumes "list_all plain_comp cs" and "cs \<noteq> []"
  shows "split_on slash (join_with slash cs) = cs"
  using assms by (intro split_join_with) (auto simp: list_all_iff plain_comp_def)

lemma clean_path_abs_plain:
  assumes "is_abs p"
  obtains cs where "list_all plain_comp cs" and "clean_path p = abs_path cs"
proof -
  from assms obtain q where p: "p = slash # q" by (auto simp: is_abs_def has_prefix_iff)
  have "list_all plain_comp (clean_stack True (split_on slash q))"
    by (rule clean_stack_rooted_plain) (auto dest: split_on_no_sep)
  then have "list_all plain_comp (rev (clean_stack True (split_on slash q)))" by simp
  then show ?thesis by (rule that) (simp add: p clean_path_abs)
qed

lemma path_comps_abs [simp]: "list_all plain_comp cs \<Longrightarrow> path_comps (abs_path cs) = cs"
proof (cases "cs = []")
  case False
  assume a: "list_all plain_comp cs"
  then have "filter (\<lambda>c. c \<noteq> []) cs = cs" by (auto simp: list_all_iff plain_comp_def intro!: filter_True)
  with False a show ?thesis by (simp add: path_comps_def split_join_plain)
qed (simp add: path_comps_def)

lemma abs_path_inject: "\<lbrakk>list_all plain_comp cs; list_all plain_comp ds; abs_path cs = abs_path ds\<rbrakk> \<Longrightarrow> cs = ds"
  by (metis path_comps_abs)

lemma join_with_snoc: "xs \<noteq> [] \<Longrightarrow> join_with c (xs @ [y]) = join_with c xs @ c # y"
proof (induction xs)
  case (Cons x xs)
  then show ?case by (cases xs) (auto simp: join_with_Cons)
qed simp

lemma join_with_append: "\<lbrakk>xs \<noteq> []; ys \<noteq> []\<rbrakk> \<Longrightarrow> join_with c (xs @ ys) = join_with c xs @ c # join_with c ys"
proof (induction xs)
  case (Cons x xs)
  then show ?case by (cases xs) (auto simp: join_with_Cons)
qed simp

lemma clean_stack_append:
  "clean_stack r (xs @ ys) = foldl (clean_step r) (clean_stack r xs) ys"
  by (simp add: clean_stack_def)

lemma split_on_append: "split_on c (s @ c # t) = split_on c s @ split_on c t"
proof (induction s)
  case (Cons x xs)
  then show ?case by (cases "split_on c xs") auto
qed simp

text \<open>Joining a relative path to a clean absolute one runs \<open>Clean\<close> on its components from there.\<close>

lemma join_abs:
  assumes "list_all plain_comp cs"
  shows "filepath_join (abs_path cs) p = abs_path (rev (foldl (clean_step True) (rev cs) (split_on slash p)))"
proof -
  have "clean_stack True (split_on slash (join_with slash cs)) = rev cs"
    using assms by (cases "cs = []") (simp_all add: split_join_plain clean_stack_def foldl_clean_plain)
  then show ?thesis
    by (simp add: filepath_join_def clean_path_abs split_on_append clean_stack_append)
qed

lemma join_abs_comp:
  assumes "list_all plain_comp cs" and "plain_comp c"
  shows "filepath_join (abs_path cs) c = abs_path (cs @ [c])"
  using assms by (simp add: join_abs split_on_id plain_comp_simps clean_step_plain del: clean_step.simps)

lemma foldl_join_comps:
  assumes "list_all plain_comp cs" and "list_all plain_comp ds"
  shows "foldl filepath_join (abs_path cs) ds = abs_path (cs @ ds)"
  using assms
proof (induction ds arbitrary: cs)
  case (Cons d ds)
  then have "foldl filepath_join (abs_path cs) (d # ds) = foldl filepath_join (abs_path (cs @ [d])) ds"
    by (simp only: foldl.simps join_abs_comp list.pred_inject)
  also have "\<dots> = abs_path ((cs @ [d]) @ ds)" by (rule Cons.IH) (use Cons.prems in auto)
  finally show ?case by simp
qed simp

lemma upto_slash_snoc: "slash \<notin> set c \<Longrightarrow> upto_slash (p @ slash # c) = p @ [slash]"
  by (simp add: upto_slash_def, subst dropWhile_append2) auto

lemma after_slash_snoc: "slash \<notin> set c \<Longrightarrow> after_slash (p @ slash # c) = c"
  by (simp add: after_slash_def, subst takeWhile_append2) auto

lemma abs_path_snoc: "abs_path (cs @ [c]) = (if cs = [] then [] else abs_path cs) @ slash # c"
  by (simp add: join_with_snoc)

lemma dir_abs:
  assumes "list_all plain_comp (cs @ [c])"
  shows "filepath_dir (abs_path (cs @ [c])) = abs_path cs"
proof -
  have "filepath_dir (abs_path (cs @ [c])) = clean_path ((if cs = [] then [] else abs_path cs) @ [slash])"
    unfolding abs_path_snoc filepath_dir_def
    by (subst upto_slash_snoc) (use assms in \<open>simp_all add: plain_comp_simps\<close>)
  also have "\<dots> = abs_path cs"
  proof (cases "cs = []")
    case True
    then show ?thesis using clean_path_plain [of "[]"] by simp
  next
    case False
    have "clean_path (abs_path cs @ [slash]) = clean_path (abs_path cs)"
      by (rule clean_path_trailing_slash) simp
    with False assms show ?thesis by (simp only: clean_path_plain list_all_append if_False)
  qed
  finally show ?thesis .
qed

lemma dir_root: "filepath_dir (abs_path []) = abs_path []"
  by (simp add: filepath_dir_def upto_slash_def clean_path_abs clean_stack_def)

lemma base_abs:
  assumes "list_all plain_comp (cs @ [c])"
  shows "filepath_base (abs_path (cs @ [c])) = c"
proof -
  have c: "c \<noteq> []" "slash \<notin> set c" using assms by (auto simp: plain_comp_simps)
  then have "last c \<noteq> slash" by (metis last_in_set)
  with c have "dropWhile (\<lambda>x. x = slash) (rev (p @ slash # c)) = rev (p @ slash # c)" for p
    by (cases "rev c") (auto simp: hd_rev [symmetric])
  with c show ?thesis unfolding abs_path_snoc by (simp add: filepath_base_def after_slash_snoc)
qed

section \<open>Relative paths between clean absolute paths\<close>

lemma strip_common_spec:
  "strip_common xs ys = (bs, ts) \<longleftrightarrow>
     (\<exists>p. xs = p @ bs \<and> ys = p @ ts \<and> (bs = [] \<or> ts = [] \<or> hd bs \<noteq> hd ts))"
proof
  show "strip_common xs ys = (bs, ts) \<Longrightarrow> \<exists>p. xs = p @ bs \<and> ys = p @ ts \<and> (bs = [] \<or> ts = [] \<or> hd bs \<noteq> hd ts)"
  proof (induction xs ys rule: strip_common.induct)
    case (1 x xs y ys)
    show ?case
    proof (cases "x = y")
      case True
      with 1 obtain p where "xs = p @ bs" "ys = p @ ts" "bs = [] \<or> ts = [] \<or> hd bs \<noteq> hd ts" by auto
      with True show ?thesis by (intro exI [of _ "x # p"]) simp
    next
      case False
      with 1 show ?thesis by auto
    qed
  qed auto
next
  assume "\<exists>p. xs = p @ bs \<and> ys = p @ ts \<and> (bs = [] \<or> ts = [] \<or> hd bs \<noteq> hd ts)"
  then obtain p where p: "xs = p @ bs" "ys = p @ ts" "bs = [] \<or> ts = [] \<or> hd bs \<noteq> hd ts" by blast
  have "strip_common (p @ bs) (p @ ts) = strip_common bs ts" by (induction p) auto
  moreover have "strip_common bs ts = (bs, ts)" using p(3) by (cases bs; cases ts) auto
  ultimately show "strip_common xs ys = (bs, ts)" by (simp add: p)
qed

lemma rel_abs:
  assumes "list_all plain_comp bs" and "list_all plain_comp ts"
  shows "filepath_rel (abs_path bs) (abs_path ts) =
     (if ts = bs then Some ''.''
      else case strip_common bs ts of (b, t) \<Rightarrow> Some (join_with slash (replicate (length b) ''..'' @ t)))"
proof -
  have eq: "abs_path ts = abs_path bs \<longleftrightarrow> ts = bs" using abs_path_inject assms by blast
  obtain b t where s: "strip_common bs ts = (b, t)" by fastforce
  then obtain p where "bs = p @ b" using strip_common_spec by blast
  with assms(1) have "b \<noteq> [] \<Longrightarrow> hd b \<noteq> ''..''" by (cases b) (auto simp: plain_comp_simps)
  then show ?thesis
    unfolding filepath_rel_def Let_def clean_path_plain [OF assms(1)] clean_path_plain [OF assms(2)] eq
    using s path_comps_abs [OF assms(1)] path_comps_abs [OF assms(2)]
    by (simp add: has_prefix_def)
qed

end
