(* ===== verification/Git_Scope.thy ===== *)
theory Git_Scope
  imports Filepath
begin

text \<open>
  What a session may touch in its repository, from \<^verbatim>\<open>internal/supervisor/gitops\<close>:
  \<^verbatim>\<open>pathscope.go\<close>, the owned paths and the test whether a path lies under them once symbolic links
  are resolved, and \<^verbatim>\<open>porcelain.go\<close>, the parser of \<^verbatim>\<open>git status --porcelain=v1 -z\<close> and the
  classification of its entries against the scope.

  The file system is a parameter: the answers of \<open>filepath.EvalSymlinks\<close>, \<open>os.Lstat\<close> and \<open>os.Getwd\<close>.
  They may differ between the creation of a scope and its use.
\<close>

section \<open>The file system\<close>

datatype lstat_answer = LstatOk | LstatNotExist | LstatError string

record path_fs =
  fs_eval_symlinks :: "string \<Rightarrow> string + string"
  fs_lstat :: "string \<Rightarrow> lstat_answer"
  fs_getwd :: "string + string"

section \<open>Path scope\<close>

record path_scope =
  sc_root :: string
  sc_paths :: "string list"

definition lower_ascii :: "char \<Rightarrow> char" where
  "lower_ascii c = (if char_between (CHR ''A'') (CHR ''Z'') c then char_of ((of_char c :: nat) + 32) else c)"

text \<open>\<open>strings.EqualFold\<close> with \<^verbatim>\<open>.git\<close>; none of its letters folds to a letter outside ASCII.\<close>

definition is_git_name :: "string \<Rightarrow> bool" where
  "is_git_name part \<longleftrightarrow> map lower_ascii part = ''.git''"

definition within :: "string \<Rightarrow> string \<Rightarrow> bool" where
  "within root p =
     (case filepath_rel root p of
        None \<Rightarrow> False
      | Some rel \<Rightarrow> rel \<noteq> ''..'' \<and> \<not> has_prefix rel ''../'')"

text \<open>The loop climbs to the first parent that exists; \<open>Dir\<close> decreases its rank until the root.\<close>

function resolve_parent :: "path_fs \<Rightarrow> string \<Rightarrow> string list \<Rightarrow> string + string" where
  "resolve_parent fs parent suffix =
     (case fs_lstat fs parent of
        LstatOk \<Rightarrow>
          (case fs_eval_symlinks fs parent of
             Inl e \<Rightarrow> Inl e
           | Inr r \<Rightarrow> Inr (foldl filepath_join r (rev suffix)))
      | LstatError e \<Rightarrow> Inl e
      | LstatNotExist \<Rightarrow>
          (let nxt = filepath_dir parent
           in if nxt = parent then Inl ''not exist''
              else resolve_parent fs nxt (suffix @ [filepath_base parent])))"
  by pat_completeness auto
termination
  by (relation "measure (\<lambda>(fs, parent, suffix). dir_rank parent)") (auto intro: dir_rank_decreases)

declare resolve_parent.simps [simp del]

definition resolveExistingParent :: "path_fs \<Rightarrow> string \<Rightarrow> string + string" where
  "resolveExistingParent fs p = resolve_parent fs p []"

text \<open>The steps that \<open>NewPathScope\<close> and \<open>Resolve\<close> share: names that are never accepted, and the real path.\<close>

fun check_parts :: "string list \<Rightarrow> string option" where
  "check_parts [] = None"
| "check_parts (part # parts) =
     (if part = ''..'' then Some ''path traversal''
      else if is_git_name part then Some ''git metadata''
      else check_parts parts)"

definition real_path :: "path_fs \<Rightarrow> string \<Rightarrow> string + string" where
  "real_path fs full =
     (case (case fs_eval_symlinks fs full of Inr r \<Rightarrow> Inr r | Inl _ \<Rightarrow> resolveExistingParent fs full) of
        Inl e \<Rightarrow> Inl e
      | Inr r \<Rightarrow> filepath_abs (fs_getwd fs) r)"

definition rel_inside :: "string \<Rightarrow> string \<Rightarrow> string + string" where
  "rel_inside root r =
     (if \<not> within root r then Inl ''path outside repository''
      else case filepath_rel root r of
        None \<Rightarrow> Inl ''rel''
      | Some rel \<Rightarrow>
          if list_ex is_git_name (split_on slash rel) then Inl ''git metadata'' else Inr rel)"

definition resolve_under :: "path_fs \<Rightarrow> string \<Rightarrow> string \<Rightarrow> string \<Rightarrow> string + string" where
  "resolve_under fs root base p =
     (if p = '''' \<or> is_abs p then Inl ''invalid path''
      else case check_parts (split_on slash p) of
        Some e \<Rightarrow> Inl e
      | None \<Rightarrow>
          (case real_path fs (filepath_join base p) of
             Inl e \<Rightarrow> Inl e
           | Inr r \<Rightarrow> rel_inside root r))"

fun add_owned :: "path_fs \<Rightarrow> string \<Rightarrow> string list \<Rightarrow> path_scope \<Rightarrow> string + path_scope" where
  "add_owned fs base [] s = Inr s"
| "add_owned fs base (p # ps) s =
     (case resolve_under fs (sc_root s) base p of
        Inl e \<Rightarrow> Inl e
      | Inr rel \<Rightarrow> add_owned fs base ps (s\<lparr>sc_paths := sc_paths s @ [rel]\<rparr>))"

definition eval_abs :: "path_fs \<Rightarrow> string \<Rightarrow> string + string" where
  "eval_abs fs p = (case fs_eval_symlinks fs p of Inl e \<Rightarrow> Inl e | Inr r \<Rightarrow> filepath_abs (fs_getwd fs) r)"

definition NewPathScope :: "path_fs \<Rightarrow> string \<Rightarrow> string \<Rightarrow> string list \<Rightarrow> string + path_scope" where
  "NewPathScope fs toplevel cwd owned =
     (case eval_abs fs toplevel of
        Inl e \<Rightarrow> Inl e
      | Inr root \<Rightarrow>
          (case eval_abs fs cwd of
             Inl e \<Rightarrow> Inl e
           | Inr base \<Rightarrow>
               if \<not> within root base then Inl ''cwd outside repository''
               else add_owned fs base owned \<lparr>sc_root = root, sc_paths = []\<rparr>))"

definition Resolve :: "path_fs \<Rightarrow> path_scope \<Rightarrow> string \<Rightarrow> string + string" where
  "Resolve fs s path = resolve_under fs (sc_root s) (sc_root s) path"

definition trim_slash :: "string \<Rightarrow> string" where
  "trim_slash p = (if has_suffix p ''/'' then butlast p else p)"

fun contains_loop :: "string list \<Rightarrow> string \<Rightarrow> bool" where
  "contains_loop [] p = False"
| "contains_loop (owned # os) p =
     (if owned = ''.'' then p \<noteq> ''..'' \<and> \<not> has_prefix p ''../'' \<and> \<not> has_prefix p ''/''
      else if p = owned \<or> has_prefix p (trim_slash owned @ ''/'') then True
      else contains_loop os p)"

definition Contains :: "path_fs \<Rightarrow> path_scope \<Rightarrow> string \<Rightarrow> bool" where
  "Contains fs s path = (case Resolve fs s path of Inl _ \<Rightarrow> False | Inr p \<Rightarrow> contains_loop (sc_paths s) p)"

definition OwnsLexically :: "path_scope \<Rightarrow> string \<Rightarrow> bool" where
  "OwnsLexically s path =
     list_ex (\<lambda>owned. owned = ''.'' \<or> path = owned \<or> has_prefix path (trim_slash owned @ ''/'')) (sc_paths s)"

section \<open>Status of the working tree\<close>

record status_entry =
  se_Kind :: string
  se_Index :: char
  se_Worktree :: char
  se_Path :: string
  se_OriginalPath :: string

abbreviation NUL :: char where
  "NUL \<equiv> CHR 0x00"

definition porcelain_allowed :: string where
  "porcelain_allowed = '' MTADRCU?!''"

definition bad_pair :: "char \<Rightarrow> char \<Rightarrow> bool" where
  "bad_pair i w \<longleftrightarrow> i = CHR '' '' \<and> w = CHR '' '' \<or> i = CHR ''?'' \<and> w \<noteq> CHR ''?'' \<or> w = CHR ''?'' \<and> i \<noteq> CHR ''?''
     \<or> i = CHR ''!'' \<and> w \<noteq> CHR ''!'' \<or> w = CHR ''!'' \<and> i \<noteq> CHR ''!''"

definition status_kind :: "char \<Rightarrow> char \<Rightarrow> string" where
  "status_kind i w =
     (if i = CHR ''?'' \<and> w = CHR ''?'' then ''untracked''
      else if i = CHR ''!'' \<and> w = CHR ''!'' then ''ignored''
      else if i = CHR ''R'' \<or> w = CHR ''R'' then ''rename''
      else if i = CHR ''C'' \<or> w = CHR ''C'' then ''copy''
      else ''ordinary'')"

definition has_origin :: "string \<Rightarrow> bool" where
  "has_origin kind \<longleftrightarrow> kind = ''rename'' \<or> kind = ''copy''"

text \<open>One field: its two status letters, a blank and the path.\<close>

definition parse_field :: "string \<Rightarrow> string + status_entry" where
  "parse_field v =
     (if length v < 3 \<or> v ! 2 \<noteq> CHR '' '' then Inl ''invalid porcelain v1 entry''
      else if drop 3 v = '''' then Inl ''empty porcelain path''
      else if v ! 0 \<notin> set porcelain_allowed \<or> v ! 1 \<notin> set porcelain_allowed then Inl ''invalid porcelain status''
      else if bad_pair (v ! 0) (v ! 1) then Inl ''invalid porcelain status pair''
      else Inr \<lparr>se_Kind = status_kind (v ! 0) (v ! 1), se_Index = v ! 0, se_Worktree = v ! 1,
                se_Path = drop 3 v, se_OriginalPath = ''''\<rparr>)"

text \<open>The loop over the fields; the last field is what follows the last separator.\<close>

fun parse_fields :: "string list \<Rightarrow> status_entry list \<Rightarrow> string + status_entry list" where
  "parse_fields [] out = Inr out"
| "parse_fields [v] out = (if v \<noteq> '''' then Inl ''unterminated porcelain v1 entry'' else Inr out)"
| "parse_fields (v # w # rest) out =
     (case parse_field v of
        Inl e \<Rightarrow> Inl e
      | Inr e \<Rightarrow>
          if has_origin (se_Kind e)
          then (if rest = [] then Inl ''missing original path for porcelain v1 rename/copy''
                else if w = '''' then Inl ''empty original porcelain path''
                else parse_fields rest (out @ [e\<lparr>se_OriginalPath := w\<rparr>]))
          else parse_fields (w # rest) (out @ [e]))"

definition ParsePorcelainV1 :: "string \<Rightarrow> string + status_entry list" where
  "ParsePorcelainV1 data = (if data = '''' then Inr [] else parse_fields (split_on NUL data) [])"

record status_classification =
  cl_Entries :: "status_entry list"
  cl_RenamePartial :: bool
  cl_OutOfScopeUncommitted :: bool
  cl_StagedOutOfScope :: bool

definition staged_letter :: "status_entry \<Rightarrow> bool" where
  "staged_letter e \<longleftrightarrow> se_Index e \<noteq> CHR '' '' \<and> se_Index e \<noteq> CHR ''.'' \<and> se_Index e \<noteq> CHR ''?'' \<and> se_Index e \<noteq> NUL"

definition uncommitted_letter :: "status_entry \<Rightarrow> bool" where
  "uncommitted_letter e \<longleftrightarrow>
     se_Worktree e \<noteq> CHR '' '' \<and> se_Worktree e \<noteq> CHR ''.'' \<and> se_Worktree e \<noteq> NUL \<or> se_Kind e = ''untracked''"

definition classify_entry :: "(string \<Rightarrow> bool) \<Rightarrow> status_entry \<Rightarrow> status_classification \<Rightarrow> status_classification" where
  "classify_entry contains e r =
     (if se_Kind e = ''ignored'' then r
      else
        let inside = contains (se_Path e);
            old = contains (se_OriginalPath e);
            origin = has_origin (se_Kind e)
        in if origin \<and> old \<noteq> inside then r\<lparr>cl_RenamePartial := True\<rparr>
           else if (if origin then inside \<and> old else inside) then r
           else
             let r = (if staged_letter e then r\<lparr>cl_StagedOutOfScope := True\<rparr> else r)
             in (if uncommitted_letter e then r\<lparr>cl_OutOfScopeUncommitted := True\<rparr> else r))"

definition ClassifyStatus :: "path_fs \<Rightarrow> status_entry list \<Rightarrow> path_scope \<Rightarrow> status_classification" where
  "ClassifyStatus fs entries scope =
     fold (classify_entry (Contains fs scope)) entries
       \<lparr>cl_Entries = entries, cl_RenamePartial = False, cl_OutOfScopeUncommitted = False, cl_StagedOutOfScope = False\<rparr>"

section \<open>Paths inside the repository\<close>

text \<open>The name that \<open>Rel\<close> gives to the components below the root.\<close>

definition rel_string :: "string list \<Rightarrow> string" where
  "rel_string cs = (if cs = [] then ''.'' else join_with slash cs)"

definition git_free :: "string list \<Rightarrow> bool" where
  "git_free cs \<longleftrightarrow> list_all plain_comp cs \<and> \<not> list_ex is_git_name cs"

lemma rel_string_prefix:
  assumes "list_all plain_comp cs" and "has_prefix (rel_string cs) (d @ ''/'')" and "slash \<notin> set d"
  shows "\<exists>ds. cs = d # ds"
proof -
  from assms(2) obtain u where u: "rel_string cs = d @ slash # u" by (auto simp: has_prefix_iff)
  show ?thesis
  proof (cases "cs = []")
    case True
    with u show ?thesis by (cases d) (auto simp: rel_string_def)
  next
    case False
    with u split_join_plain [OF assms(1) False] have "cs = split_on slash (d @ slash # u)"
      by (simp add: rel_string_def)
    with assms(3) show ?thesis by (simp add: split_on_append_sep)
  qed
qed

lemma rel_string_up: "list_all plain_comp cs \<Longrightarrow> rel_string cs \<noteq> ''..'' \<and> \<not> has_prefix (rel_string cs) ''../''"
proof
  assume p: "list_all plain_comp cs"
  show "rel_string cs \<noteq> ''..''"
  proof
    assume "rel_string cs = ''..''"
    with p split_join_plain [OF p] have "cs = split_on slash ''..''" by (auto simp: rel_string_def split: if_splits)
    with p show False by (auto simp: plain_comp_def)
  qed
  show "\<not> has_prefix (rel_string cs) ''../''"
    using rel_string_prefix [OF p, of "''..''"] p by (auto simp: plain_comp_def)
qed

lemma rel_below:
  assumes "list_all plain_comp (bs @ rest)"
  shows "filepath_rel (abs_path bs) (abs_path (bs @ rest)) = Some (rel_string rest)"
proof -
  have "strip_common bs (bs @ rest) = ([], rest)" by (subst strip_common_spec) (intro exI [of _ bs], simp)
  with assms show ?thesis by (subst rel_abs) (simp_all add: rel_string_def)
qed

lemma within_abs:
  assumes "list_all plain_comp bs" and "list_all plain_comp ts"
  shows "within (abs_path bs) (abs_path ts) \<longleftrightarrow> (\<exists>rest. ts = bs @ rest)"
proof
  assume w: "within (abs_path bs) (abs_path ts)"
  obtain b t where s: "strip_common bs ts = (b, t)" by fastforce
  have "b = []"
  proof (rule ccontr)
    assume b: "b \<noteq> []"
    with s have "ts \<noteq> bs" by (auto simp: strip_common_spec)
    moreover obtain n where n: "length b = Suc n" using b by (cases b) auto
    ultimately have "filepath_rel (abs_path bs) (abs_path ts) = Some (join_with slash (''..'' # replicate n ''..'' @ t))"
      using s by (subst rel_abs) (simp_all add: assms)
    with w show False by (cases "replicate n ''..'' @ t") (simp_all add: within_def join_with_Cons has_prefix_def)
  qed
  with s show "\<exists>rest. ts = bs @ rest" by (auto simp: strip_common_spec)
next
  assume "\<exists>rest. ts = bs @ rest"
  then obtain rest where r: "ts = bs @ rest" by blast
  with assms have "list_all plain_comp (bs @ rest)" and "list_all plain_comp rest" by simp_all
  with rel_below rel_string_up r show "within (abs_path bs) (abs_path ts)" by (simp add: within_def)
qed

lemma split_rel_string: "list_all plain_comp cs \<Longrightarrow> split_on slash (rel_string cs) = (if cs = [] then [''.''] else cs)"
  by (simp add: rel_string_def split_join_plain)

lemma rel_string_inject:
  assumes "git_free cs" and "git_free ds" and "rel_string cs = rel_string ds"
  shows "cs = ds"
proof -
  have dot: "[''.''] \<noteq> xs" if "git_free xs" for xs using that by (auto simp: git_free_def plain_comp_def)
  have "(if cs = [] then [''.''] else cs) = (if ds = [] then [''.''] else ds)"
    using assms split_rel_string [of cs] split_rel_string [of ds] by (simp add: git_free_def)
  with dot [OF assms(1)] dot [OF assms(2)] show ?thesis by (cases cs; cases ds) auto
qed

lemma rel_inside_abs:
  assumes "list_all plain_comp bs" and "list_all plain_comp ts"
  shows "rel_inside (abs_path bs) (abs_path ts) = Inr rel \<longleftrightarrow> (\<exists>rest. ts = bs @ rest \<and> git_free rest \<and> rel = rel_string rest)"
proof (cases "\<exists>rest. ts = bs @ rest")
  case True
  then obtain rest where r: "ts = bs @ rest" by blast
  with assms have "list_all plain_comp (bs @ rest)" "list_all plain_comp rest" by simp_all
  moreover have "\<not> is_git_name ''.''" by code_simp
  moreover have "within (abs_path bs) (abs_path (bs @ rest))" using within_abs [OF assms] r by simp
  ultimately show ?thesis
    unfolding rel_inside_def r by (auto simp: rel_below split_rel_string git_free_def)
next
  case False
  with within_abs [OF assms] show ?thesis by (auto simp: rel_inside_def)
qed

text \<open>\<open>Getwd\<close> answers an absolute path, so \<open>Abs\<close> always gives a clean absolute one.\<close>

definition getwd_abs :: "path_fs \<Rightarrow> bool" where
  "getwd_abs fs \<longleftrightarrow> (case fs_getwd fs of Inl _ \<Rightarrow> True | Inr d \<Rightarrow> is_abs d)"

lemma filepath_abs_clean:
  assumes "getwd_abs fs" and "filepath_abs (fs_getwd fs) p = Inr r"
  obtains cs where "list_all plain_comp cs" and "r = abs_path cs"
proof (cases "is_abs p")
  case True
  with assms(2) have "r = clean_path p" by (simp add: filepath_abs_def)
  with True show ?thesis by (metis clean_path_abs_plain that)
next
  case False
  with assms obtain d where d: "is_abs d" "r = filepath_join d p"
    by (auto simp: filepath_abs_def getwd_abs_def split: sum.splits)
  then have "is_abs (d @ slash # p)" "d \<noteq> []" by (auto simp: is_abs_def has_prefix_iff)
  with d show ?thesis by (metis clean_path_abs_plain filepath_join_def that)
qed

lemma check_parts_None: "check_parts ps = None \<longleftrightarrow> (\<forall>part \<in> set ps. part \<noteq> ''..'' \<and> \<not> is_git_name part)"
  by (induction ps) auto

definition accepted_name :: "string \<Rightarrow> bool" where
  "accepted_name p \<longleftrightarrow> p \<noteq> '''' \<and> \<not> is_abs p \<and> (\<forall>part \<in> set (split_on slash p). part \<noteq> ''..'' \<and> \<not> is_git_name part)"

lemma resolve_under_Inr:
  assumes "getwd_abs fs" and "list_all plain_comp bs"
  shows "resolve_under fs (abs_path bs) base p = Inr rel \<longleftrightarrow>
     accepted_name p \<and> (\<exists>rest. real_path fs (filepath_join base p) = Inr (abs_path (bs @ rest)) \<and> git_free rest \<and> rel = rel_string rest)"
proof (cases "accepted_name p")
  case True
  then have pre: "\<not> (p = '''' \<or> is_abs p)" "check_parts (split_on slash p) = None"
    by (auto simp: accepted_name_def check_parts_None)
  show ?thesis
  proof (cases "real_path fs (filepath_join base p)")
    case (Inl e)
    with pre True show ?thesis by (simp add: resolve_under_def)
  next
    case (Inr r)
    then obtain r' where "filepath_abs (fs_getwd fs) r' = Inr r"
      by (auto simp: real_path_def split: sum.splits)
    from filepath_abs_clean [OF assms(1) this] obtain ts where ts: "list_all plain_comp ts" "r = abs_path ts" .
    have "resolve_under fs (abs_path bs) base p = rel_inside (abs_path bs) (abs_path ts)"
      using pre Inr ts(2) by (simp add: resolve_under_def)
    moreover have "real_path fs (filepath_join base p) = Inr (abs_path (bs @ rest)) \<longleftrightarrow> ts = bs @ rest"
      if "git_free rest" for rest
      using that Inr ts assms(2) abs_path_inject [OF ts(1), of "bs @ rest"] by (auto simp: git_free_def)
    ultimately show ?thesis using True rel_inside_abs [OF assms(2) ts(1)] by auto
  qed
next
  case False
  then show ?thesis
    by (auto simp: resolve_under_def accepted_name_def check_parts_None [symmetric] split: option.splits)
qed

section \<open>A scope confines real paths\<close>

definition scope_ok :: "path_scope \<Rightarrow> bool" where
  "scope_ok s \<longleftrightarrow> (\<exists>bs. list_all plain_comp bs \<and> sc_root s = abs_path bs)
     \<and> (\<forall>p \<in> set (sc_paths s). \<exists>os. git_free os \<and> p = rel_string os)"

lemma add_owned_ok:
  "\<lbrakk>getwd_abs fs; scope_ok s; add_owned fs base ps s = Inr s'\<rbrakk> \<Longrightarrow> scope_ok s' \<and> sc_root s' = sc_root s"
proof (induction ps arbitrary: s)
  case (Cons p ps)
  from Cons.prems(2) obtain bs where bs: "list_all plain_comp bs" "sc_root s = abs_path bs"
    by (auto simp: scope_ok_def)
  from Cons.prems(3) obtain rel where rel: "resolve_under fs (sc_root s) base p = Inr rel"
    and rest: "add_owned fs base ps (s\<lparr>sc_paths := sc_paths s @ [rel]\<rparr>) = Inr s'"
    by (auto split: sum.splits)
  from rel bs resolve_under_Inr [OF Cons.prems(1) bs(1), of base p rel] obtain os where "git_free os" "rel = rel_string os"
    by auto
  with Cons.prems(2) have "scope_ok (s\<lparr>sc_paths := sc_paths s @ [rel]\<rparr>)" by (auto simp: scope_ok_def)
  from Cons.IH [OF Cons.prems(1) this rest] show ?case by simp
qed simp

lemma NewPathScope_ok:
  assumes "getwd_abs fs" and "NewPathScope fs toplevel cwd owned = Inr s"
  shows "scope_ok s"
proof -
  from assms(2) obtain root base where r: "eval_abs fs toplevel = Inr root"
    and a: "add_owned fs base owned \<lparr>sc_root = root, sc_paths = []\<rparr> = Inr s"
    by (auto simp: NewPathScope_def split: sum.splits if_splits)
  from r obtain p where "filepath_abs (fs_getwd fs) p = Inr root" by (auto simp: eval_abs_def split: sum.splits)
  from filepath_abs_clean [OF assms(1) this] have "scope_ok \<lparr>sc_root = root, sc_paths = []\<rparr>"
    by (auto simp: scope_ok_def)
  from add_owned_ok [OF assms(1) this a] show ?thesis by simp
qed

lemma rel_string_under:
  assumes "git_free os" and "git_free rest" and "rel_string os \<noteq> ''.''"
  shows "rel_string rest = rel_string os \<or> has_prefix (rel_string rest) (trim_slash (rel_string os) @ ''/'')
     \<longleftrightarrow> (\<exists>more. rest = os @ more)"
proof -
  from assms have os: "list_all plain_comp os" "os \<noteq> []" "rel_string os = join_with slash os"
    by (auto simp: git_free_def rel_string_def)
  have "\<not> has_suffix (rel_string os) ''/''"
    using last_join_with [OF os(2,1)] os(3) by (cases "join_with slash os" rule: rev_cases) (auto simp: has_suffix_def)
  then have "trim_slash (rel_string os) = join_with slash os" by (simp add: trim_slash_def os(3))
  then have trim: "trim_slash (join_with slash os) = join_with slash os" by (simp only: os(3))
  have p: "list_all plain_comp rest" using assms(2) by (simp add: git_free_def)
  show ?thesis
  proof
    assume "rel_string rest = rel_string os \<or> has_prefix (rel_string rest) (trim_slash (rel_string os) @ ''/'')"
    then consider "rel_string rest = join_with slash os" | u where "rel_string rest = join_with slash os @ slash # u"
      unfolding os(3) trim by (auto simp: has_prefix_iff)
    then show "\<exists>more. rest = os @ more"
    proof cases
      case 1
      with split_rel_string [OF p] split_join_plain [OF os(1,2)] os show ?thesis
        by (cases "rest = []") (auto simp: plain_comp_def)
    next
      case (2 u)
      have "os @ split_on slash u = split_on slash (rel_string rest)"
        using split_on_append [of slash "join_with slash os" u] split_join_plain [OF os(1,2)] by (simp add: 2)
      with split_rel_string [OF p] os(2) have "os @ split_on slash u = (if rest = [] then [''.''] else rest)" by simp
      with os(1,2) show ?thesis by (cases os) (auto simp: plain_comp_def split: if_splits)
    qed
  next
    assume "\<exists>more. rest = os @ more"
    then obtain more where m: "rest = os @ more" by blast
    show "rel_string rest = rel_string os \<or> has_prefix (rel_string rest) (trim_slash (rel_string os) @ ''/'')"
    proof (cases "more = []")
      case False
      then have "rel_string rest = join_with slash os @ slash # join_with slash more"
        using os(2) by (simp add: m rel_string_def join_with_append)
      then show ?thesis unfolding os(3) trim by (simp add: has_prefix_iff)
    qed (simp add: m)
  qed
qed

lemma contains_loop_iff:
  assumes "\<forall>p \<in> set paths. \<exists>os. git_free os \<and> p = rel_string os" and "git_free rest"
  shows "contains_loop paths (rel_string rest) \<longleftrightarrow> (\<exists>os more. git_free os \<and> rel_string os \<in> set paths \<and> rest = os @ more)"
  using assms(1)
proof (induction paths)
  case (Cons p paths)
  from assms(2) have rest: "list_all plain_comp rest" by (simp add: git_free_def)
  have first: "\<not> has_prefix (rel_string rest) ''/''"
  proof (cases rest)
    case (Cons c cs)
    with rest show ?thesis by (cases c; cases cs) (auto simp: rel_string_def has_prefix_def plain_comp_def)
  qed (simp add: rel_string_def has_prefix_def)
  from Cons.prems obtain os where os: "git_free os" "p = rel_string os" by auto
  have same: "qs = os" if "git_free qs" "rel_string qs = p" for qs
    using rel_string_inject that os by blast
  show ?case
  proof (cases "p = ''.''")
    case True
    then have "os = []" using same [of "[]"] by (simp add: git_free_def rel_string_def)
    with True os first rel_string_up [OF rest] show ?thesis by auto
  next
    case False
    with os(2) have "contains_loop (p # paths) (rel_string rest) \<longleftrightarrow>
        (\<exists>more. rest = os @ more) \<or> contains_loop paths (rel_string rest)"
      using rel_string_under [OF os(1) assms(2)] by (simp add: os(2) del: append.simps)
    moreover have "contains_loop paths (rel_string rest) \<longleftrightarrow>
        (\<exists>os more. git_free os \<and> rel_string os \<in> set paths \<and> rest = os @ more)"
      using Cons by simp
    ultimately show ?thesis using os same by (metis list.set_intros(1,2) set_ConsD)
  qed
qed simp

text \<open>
  C21: the paths a scope contains are decided on real paths. For a scope that \<open>NewPathScope\<close> has built, a
  path is contained exactly when it is a non-empty relative path without dot-dot or git-metadata
  components and its real path, with every symbolic link resolved at the time of the question, lies at
  or below one of the owned paths under the root, again without any git-metadata component. So no
  symbolic link, however it was placed after the scope was built, leads out of the owned paths.
\<close>

theorem scope_contains_iff:
  assumes "getwd_abs fs0" and "NewPathScope fs0 toplevel cwd owned = Inr s" and "getwd_abs fs"
  shows "Contains fs s path \<longleftrightarrow>
     accepted_name path
     \<and> (\<exists>os more. rel_string os \<in> set (sc_paths s) \<and> git_free (os @ more)
          \<and> real_path fs (filepath_join (sc_root s) path) = Inr (abs_path (path_comps (sc_root s) @ os @ more)))"
proof -
  have ok: "scope_ok s" using assms(1,2) by (rule NewPathScope_ok)
  then obtain bs where bs: "list_all plain_comp bs" "sc_root s = abs_path bs" by (auto simp: scope_ok_def)
  note loop = contains_loop_iff [OF ok [unfolded scope_ok_def, THEN conjunct2]]
  have free: "git_free (os @ more) \<longleftrightarrow> git_free os \<and> git_free more" for os more by (auto simp: git_free_def)
  have "Contains fs s path \<longleftrightarrow> (\<exists>rel. resolve_under fs (abs_path bs) (abs_path bs) path = Inr rel \<and> contains_loop (sc_paths s) rel)"
    by (simp add: Contains_def Resolve_def bs(2) split: sum.splits)
  also have "\<dots> \<longleftrightarrow> accepted_name path \<and> (\<exists>rest. real_path fs (filepath_join (abs_path bs) path) = Inr (abs_path (bs @ rest))
      \<and> git_free rest \<and> contains_loop (sc_paths s) (rel_string rest))"
    unfolding resolve_under_Inr [OF assms(3) bs(1)] by blast
  also have "\<dots> \<longleftrightarrow> accepted_name path \<and> (\<exists>os more. rel_string os \<in> set (sc_paths s) \<and> git_free (os @ more)
      \<and> real_path fs (filepath_join (abs_path bs) path) = Inr (abs_path (bs @ os @ more)))"
    using loop free by blast
  finally show ?thesis using bs by simp
qed

text \<open>A repository with an owned directory and, inside it, a link that leads out of it.\<close>

definition sample_fs :: path_fs where
  "sample_fs = \<lparr>fs_eval_symlinks = (\<lambda>p. if p = ''/r/own/link'' then Inr ''/r/other''
       else if p \<in> {''/r'', ''/r/own'', ''/r/own/file''} then Inr p else Inl ''no such file''),
     fs_lstat = (\<lambda>p. if p \<in> {''/r'', ''/r/own'', ''/r/own/file'', ''/r/own/link''} then LstatOk else LstatNotExist),
     fs_getwd = Inr ''/''\<rparr>"

definition sample_scope :: path_scope where
  "sample_scope = \<lparr>sc_root = ''/r'', sc_paths = [''own'']\<rparr>"

theorem scope_contains_iff_witness:
  "let spec = (\<lambda>path. accepted_name path \<and> (\<exists>os more. rel_string os \<in> set (sc_paths sample_scope) \<and> git_free (os @ more)
        \<and> real_path sample_fs (filepath_join (sc_root sample_scope) path)
            = Inr (abs_path (path_comps (sc_root sample_scope) @ os @ more))))
   in NewPathScope sample_fs ''/r'' ''/r'' [''own''] = Inr sample_scope
      \<and> spec ''own/new/file'' \<and> \<not> spec ''own/link'' \<and> \<not> spec ''own/.GIT/config''"
proof -
  have wd: "getwd_abs sample_fs" by code_simp
  have new: "NewPathScope sample_fs ''/r'' ''/r'' [''own''] = Inr sample_scope" by code_simp
  note iff = scope_contains_iff [OF wd new wd, symmetric]
  have "Contains sample_fs sample_scope ''own/new/file''" and "\<not> Contains sample_fs sample_scope ''own/link''"
    and "\<not> Contains sample_fs sample_scope ''own/.GIT/config''" by code_simp+
  with new show ?thesis unfolding Let_def iff by blast
qed

section \<open>Parsing and printing of the status\<close>

text \<open>The entries that the format can express, and how git prints them.\<close>

definition entry_ok :: "status_entry \<Rightarrow> bool" where
  "entry_ok e \<longleftrightarrow>
     se_Index e \<in> set porcelain_allowed \<and> se_Worktree e \<in> set porcelain_allowed
     \<and> \<not> bad_pair (se_Index e) (se_Worktree e) \<and> se_Kind e = status_kind (se_Index e) (se_Worktree e)
     \<and> se_Path e \<noteq> [] \<and> NUL \<notin> set (se_Path e) \<and> NUL \<notin> set (se_OriginalPath e)
     \<and> (se_OriginalPath e \<noteq> [] \<longleftrightarrow> has_origin (se_Kind e))"

definition print_entry :: "status_entry \<Rightarrow> string" where
  "print_entry e = [se_Index e, se_Worktree e, CHR '' ''] @ se_Path e @ [NUL]
     @ (if has_origin (se_Kind e) then se_OriginalPath e @ [NUL] else [])"

lemma porcelain_no_NUL: "NUL \<notin> set porcelain_allowed"
  by (simp add: porcelain_allowed_def)

lemma parse_field_Inr:
  "parse_field v = Inr e \<longleftrightarrow>
     v = [se_Index e, se_Worktree e, CHR '' ''] @ se_Path e \<and> se_OriginalPath e = [] \<and> se_Path e \<noteq> []
     \<and> se_Index e \<in> set porcelain_allowed \<and> se_Worktree e \<in> set porcelain_allowed
     \<and> \<not> bad_pair (se_Index e) (se_Worktree e) \<and> se_Kind e = status_kind (se_Index e) (se_Worktree e)"
proof (cases "length v < 3")
  case True
  then show ?thesis by (auto simp: parse_field_def)
next
  case False
  then obtain a b c p where v: "v = a # b # c # p"
    by (cases v; cases "tl v"; cases "tl (tl v)") auto
  show ?thesis by (cases e) (auto simp: parse_field_def v)
qed

text \<open>The loop accepts exactly the printed entries.\<close>

lemma parse_fields_print:
  assumes "list_all entry_ok es"
  shows "parse_fields (split_on NUL (concat (map print_entry es))) out = Inr (out @ es)"
  using assms
proof (induction es arbitrary: out)
  case (Cons e es)
  then have e: "entry_ok e" and es: "list_all entry_ok es" by simp_all
  let ?v = "[se_Index e, se_Worktree e, CHR '' ''] @ se_Path e" and ?rest = "concat (map print_entry es)"
  have v: "NUL \<notin> set ?v" and o: "NUL \<notin> set (se_OriginalPath e)"
    using e porcelain_no_NUL by (auto simp: entry_ok_def)
  have pf: "parse_field ?v = Inr (e\<lparr>se_OriginalPath := []\<rparr>)"
    using e by (simp add: parse_field_Inr entry_ok_def)
  obtain f fs where f: "split_on NUL ?rest = f # fs" by (metis neq_Nil_conv split_on_not_Nil)
  show ?case
  proof (cases "has_origin (se_Kind e)")
    case True
    have "concat (map print_entry (e # es)) = ?v @ NUL # se_OriginalPath e @ NUL # ?rest"
      using True by (simp add: print_entry_def)
    then have s: "split_on NUL (concat (map print_entry (e # es))) = ?v # se_OriginalPath e # split_on NUL ?rest"
      by (simp only: split_on_append_sep [OF v] split_on_append_sep [OF o])
    have "se_OriginalPath e \<noteq> []" using e True by (simp add: entry_ok_def)
    then show ?thesis unfolding s using pf True Cons.IH [OF es] f by simp
  next
    case False
    have "concat (map print_entry (e # es)) = ?v @ NUL # ?rest"
      using False by (simp add: print_entry_def)
    then have s: "split_on NUL (concat (map print_entry (e # es))) = ?v # split_on NUL ?rest"
      by (simp only: split_on_append_sep [OF v])
    have "e\<lparr>se_OriginalPath := []\<rparr> = e" using e False by (cases e) (simp add: entry_ok_def)
    then show ?thesis unfolding s f using pf False Cons.IH [OF es] f by simp
  qed
qed simp

lemma parse_fields_sound:
  assumes "\<forall>x \<in> set fl. NUL \<notin> set x" and "fl \<noteq> []" and "parse_fields fl out = Inr res"
  shows "\<exists>es. res = out @ es \<and> list_all entry_ok es \<and> join_with NUL fl = concat (map print_entry es)"
  using assms
proof (induction fl out rule: parse_fields.induct)
  case (3 v w rest out)
  from 3(5) obtain e where e: "parse_field v = Inr e" by (cases "parse_field v") auto
  note p = e [unfolded parse_field_Inr]
  have nul: "NUL \<notin> set v" "NUL \<notin> set w" using 3(3) by simp_all
  show ?case
  proof (cases "has_origin (se_Kind e)")
    case True
    let ?e = "e\<lparr>se_OriginalPath := w\<rparr>"
    from 3(5) e True have w: "rest \<noteq> []" "w \<noteq> []" and rec: "parse_fields rest (out @ [?e]) = Inr res"
      by (auto split: if_splits)
    with 3(1) [OF e True] 3(3) obtain es where es: "res = (out @ [?e]) @ es" "list_all entry_ok es"
      "join_with NUL rest = concat (map print_entry es)" by auto
    have "entry_ok ?e" using p nul w True by (simp add: entry_ok_def)
    moreover have "join_with NUL (v # w # rest) = print_entry ?e @ join_with NUL rest"
      using p True w by (simp add: print_entry_def join_with_Cons)
    ultimately show ?thesis using es by (intro exI [of _ "?e # es"]) simp
  next
    case False
    from 3(5) e False have rec: "parse_fields (w # rest) (out @ [e]) = Inr res" by simp
    with 3(2) [OF e False] 3(3) obtain es where es: "res = (out @ [e]) @ es" "list_all entry_ok es"
      "join_with NUL (w # rest) = concat (map print_entry es)" by auto
    have "entry_ok e" using p nul False by (auto simp: entry_ok_def)
    moreover have "join_with NUL (v # w # rest) = print_entry e @ join_with NUL (w # rest)"
      using p False by (simp add: print_entry_def)
    ultimately show ?thesis using es by (intro exI [of _ "e # es"]) simp
  qed
qed (auto split: if_splits)

text \<open>
  C22: the status parser is exact: it returns a list of entries precisely when every entry is expressible
  (allowed status letters in an allowed pair, a non-empty path, an original path for renames and copies
  and only for them) and the bytes are those entries printed one after the other; anything else is an
  error.
\<close>

theorem porcelain_exact:
  "ParsePorcelainV1 data = Inr es \<longleftrightarrow> list_all entry_ok es \<and> data = concat (map print_entry es)"
proof
  assume p: "ParsePorcelainV1 data = Inr es"
  show "list_all entry_ok es \<and> data = concat (map print_entry es)"
  proof (cases "data = []")
    case True
    with p show ?thesis by (simp add: ParsePorcelainV1_def)
  next
    case False
    with p have "parse_fields (split_on NUL data) [] = Inr es" by (simp add: ParsePorcelainV1_def)
    with parse_fields_sound [of "split_on NUL data" "[]" es] split_on_no_sep show ?thesis by fastforce
  qed
next
  assume "list_all entry_ok es \<and> data = concat (map print_entry es)"
  then show "ParsePorcelainV1 data = Inr es"
    using parse_fields_print [of es "[]"]
    by (cases es) (auto simp: ParsePorcelainV1_def print_entry_def)
qed

section \<open>Classification against the scope\<close>

definition entry_inside :: "(string \<Rightarrow> bool) \<Rightarrow> status_entry \<Rightarrow> bool" where
  "entry_inside contains e \<longleftrightarrow>
     se_Kind e = ''ignored'' \<or> contains (se_Path e) \<and> (has_origin (se_Kind e) \<longrightarrow> contains (se_OriginalPath e))"

definition no_flags :: "status_classification \<Rightarrow> bool" where
  "no_flags r \<longleftrightarrow> \<not> cl_RenamePartial r \<and> \<not> cl_OutOfScopeUncommitted r \<and> \<not> cl_StagedOutOfScope r"

lemma status_letters:
  assumes "entry_ok e" and "se_Kind e \<noteq> ''ignored''"
  shows "staged_letter e \<or> uncommitted_letter e"
proof -
  have "CHR ''.'' \<notin> set porcelain_allowed" by (simp add: porcelain_allowed_def)
  with assms(1) porcelain_no_NUL have "se_Index e \<noteq> CHR ''.''" "se_Worktree e \<noteq> CHR ''.''" "se_Index e \<noteq> NUL" "se_Worktree e \<noteq> NUL"
    by (metis entry_ok_def)+
  moreover have "se_Kind e = ''untracked''" if "se_Index e = CHR ''?''"
  proof -
    from assms(1) have "\<not> bad_pair (se_Index e) (se_Worktree e)" by (simp add: entry_ok_def)
    with that have "se_Worktree e = CHR ''?''" unfolding bad_pair_def by blast
    with that assms(1) show ?thesis by (simp add: entry_ok_def status_kind_def)
  qed
  moreover have "\<not> (se_Index e = CHR '' '' \<and> se_Worktree e = CHR '' '')"
    using assms(1) unfolding entry_ok_def bad_pair_def by blast
  ultimately show ?thesis unfolding staged_letter_def uncommitted_letter_def by blast
qed

lemma classify_entry_flags:
  assumes "entry_ok e"
  shows "no_flags (classify_entry contains e r) \<longleftrightarrow> no_flags r \<and> entry_inside contains e"
proof (cases "entry_inside contains e")
  case True
  then have "classify_entry contains e r = r"
    by (cases "se_Kind e = ''ignored''"; cases "contains (se_OriginalPath e)"; cases "has_origin (se_Kind e)")
      (simp_all add: classify_entry_def entry_inside_def)
  with True show ?thesis by simp
next
  case False
  then have "se_Kind e \<noteq> ''ignored''" by (simp add: entry_inside_def)
  from status_letters [OF assms this] False have "\<not> no_flags (classify_entry contains e r)"
    by (cases "contains (se_Path e)"; cases "contains (se_OriginalPath e)"; cases "has_origin (se_Kind e)";
        cases "staged_letter e"; cases "uncommitted_letter e")
      (simp_all add: classify_entry_def entry_inside_def no_flags_def)
  with False show ?thesis by simp
qed

text \<open>
  For a status that was parsed, the classification raises none of its three flags exactly when every
  entry that is not ignored lies in the scope, both of its paths for a rename or a copy. So no change
  outside the scope, staged or not, goes unreported.
\<close>

theorem ClassifyStatus_clean_iff:
  assumes "ParsePorcelainV1 data = Inr es"
  shows "\<not> cl_RenamePartial (ClassifyStatus fs es scope) \<and> \<not> cl_OutOfScopeUncommitted (ClassifyStatus fs es scope)
       \<and> \<not> cl_StagedOutOfScope (ClassifyStatus fs es scope)
     \<longleftrightarrow> (\<forall>e \<in> set es. se_Kind e = ''ignored'' \<or>
          Contains fs scope (se_Path e) \<and> (has_origin (se_Kind e) \<longrightarrow> Contains fs scope (se_OriginalPath e)))"
proof -
  have ok: "list_all entry_ok es" using assms parse_fields_sound [of "split_on NUL data" "[]" es] split_on_no_sep [of _ NUL data]
    by (auto simp: ParsePorcelainV1_def split: if_splits)
  have "no_flags (fold (classify_entry contains) xs r) \<longleftrightarrow> no_flags r \<and> (\<forall>e \<in> set xs. entry_inside contains e)"
    if "list_all entry_ok xs" for contains xs r
    using that by (induction xs arbitrary: r) (auto simp: classify_entry_flags)
  from this [OF ok] show ?thesis
    by (simp add: ClassifyStatus_def no_flags_def entry_inside_def)
qed

definition sample_status :: string where
  "sample_status = ''R  own/b'' @ [NUL] @ ''own/a'' @ [NUL] @ ''?? own/new'' @ [NUL]"

definition sample_entries :: "status_entry list" where
  "sample_entries =
     [\<lparr>se_Kind = ''rename'', se_Index = CHR ''R'', se_Worktree = CHR '' '', se_Path = ''own/b'', se_OriginalPath = ''own/a''\<rparr>,
      \<lparr>se_Kind = ''untracked'', se_Index = CHR ''?'', se_Worktree = CHR ''?'', se_Path = ''own/new'', se_OriginalPath = ''''\<rparr>]"

theorem ClassifyStatus_clean_iff_witness:
  "ParsePorcelainV1 sample_status = Inr sample_entries
   \<and> (\<not> cl_RenamePartial (ClassifyStatus sample_fs sample_entries sample_scope)
      \<and> \<not> cl_OutOfScopeUncommitted (ClassifyStatus sample_fs sample_entries sample_scope)
      \<and> \<not> cl_StagedOutOfScope (ClassifyStatus sample_fs sample_entries sample_scope)
      \<longleftrightarrow> (\<forall>e \<in> set sample_entries. se_Kind e = ''ignored'' \<or> Contains sample_fs sample_scope (se_Path e)
            \<and> (has_origin (se_Kind e) \<longrightarrow> Contains sample_fs sample_scope (se_OriginalPath e))))"
proof
  show p: "ParsePorcelainV1 sample_status = Inr sample_entries" by code_simp
qed (rule ClassifyStatus_clean_iff [of sample_status], code_simp)

end
