(* ===== verification/Task_Store.thy ===== *)
theory Task_Store
  imports Task_Snapshot "HOL-Library.Char_ord" "HOL-Library.List_Lexorder"
begin

text \<open>
  The file store of task snapshots, \<^verbatim>\<open>internal/store/taskstore.go\<close>: one directory per task with a
  \<^verbatim>\<open>task.json\<close> in it, and an in-memory index that listings read instead of the disk. The locale
  \<open>task_store\<close> states what the use cases rely on; the file store interprets it.

  A file is modelled by what reading and decoding it gives: a snapshot, or an error. Faults of the file
  system are arguments of the operations: the error that opening a directory, reading or the atomic
  write answers, if any.
\<close>

section \<open>Task identifiers are ordered by their text\<close>

instantiation task_id :: linorder
begin

definition less_eq_task_id :: "task_id \<Rightarrow> task_id \<Rightarrow> bool" where
  "less_eq_task_id a b \<longleftrightarrow> tid_string a \<le> tid_string b"

definition less_task_id :: "task_id \<Rightarrow> task_id \<Rightarrow> bool" where
  "less_task_id a b \<longleftrightarrow> tid_string a < tid_string b"

instance
  by standard (auto simp: less_eq_task_id_def less_task_id_def intro: task_id.expand)

end

section \<open>The store\<close>

datatype json_file = NoJSON | JSONError string | JSONSnapshot task_snapshot

record file_task_store =
  fts_disk :: "task_id \<rightharpoonup> json_file"
  fts_index :: "(task_id \<times> task_snapshot) list"
  fts_corrupted :: "task_id list"

definition index_put :: "task_id \<Rightarrow> task_snapshot \<Rightarrow> (task_id \<times> task_snapshot) list \<Rightarrow> (task_id \<times> task_snapshot) list" where
  "index_put tid n idx = (tid, n) # filter (\<lambda>(k, v). k \<noteq> tid) idx"

definition index_delete :: "task_id \<Rightarrow> (task_id \<times> task_snapshot) list \<Rightarrow> (task_id \<times> task_snapshot) list" where
  "index_delete tid idx = filter (\<lambda>(k, v). k \<noteq> tid) idx"

text \<open>One directory entry at start-up; \<open>opened\<close> is the error that opening the directory gives.\<close>

definition scan_entry :: "(task_id \<Rightarrow> string option) \<Rightarrow> string \<Rightarrow> file_task_store \<Rightarrow> file_task_store" where
  "scan_entry opened name s =
     (case NewTaskID name of
        Inl e \<Rightarrow> s
      | Inr tid \<Rightarrow>
          (let corrupt = s\<lparr>fts_corrupted := fts_corrupted s @ [tid]\<rparr>
           in if tid_string tid = '''' then corrupt
              else case opened tid of
                Some e \<Rightarrow> corrupt
              | None \<Rightarrow>
                (case fts_disk s tid of
                   None \<Rightarrow> s
                 | Some NoJSON \<Rightarrow> s
                 | Some (JSONError e) \<Rightarrow> corrupt
                 | Some (JSONSnapshot v) \<Rightarrow>
                     if Validate v \<noteq> None \<or> sn_TaskID v \<noteq> tid then corrupt
                     else s\<lparr>fts_index := index_put tid v (fts_index s)\<rparr>)))"

definition NewFileTaskStore :: "(task_id \<Rightarrow> string option) \<Rightarrow> string list \<Rightarrow> (task_id \<rightharpoonup> json_file) \<Rightarrow> file_task_store" where
  "NewFileTaskStore opened names disk =
     fold (scan_entry opened) names \<lparr>fts_disk = disk, fts_index = [], fts_corrupted = []\<rparr>"

definition Reserve :: "string option \<Rightarrow> task_id \<Rightarrow> file_task_store \<Rightarrow> file_task_store \<times> domain_error option" where
  "Reserve fault tid s =
     (if tid_string tid = '''' then (s, Some (ErrText ''task id is zero value''))
      else case fault of
        Some e \<Rightarrow> (s, Some (ErrText e))
      | None \<Rightarrow>
          if fts_disk s tid \<noteq> None then (s, Some (ErrText ''file exists''))
          else (s\<lparr>fts_disk := (fts_disk s)(tid \<mapsto> NoJSON)\<rparr>, None))"

text \<open>A removal that fails may leave part of the directory behind: \<open>Some f\<close> is what remains.\<close>

definition Release :: "(string \<times> json_file) option \<Rightarrow> task_id \<Rightarrow> file_task_store \<Rightarrow> file_task_store \<times> domain_error option" where
  "Release fault tid s =
     (if tid_string tid = '''' then (s, Some (ErrText ''task id is zero value''))
      else if fts_disk s tid = None then (s, Some (ErrText ''no such file''))
      else case fault of
        Some (e, f) \<Rightarrow> (s\<lparr>fts_disk := (fts_disk s)(tid \<mapsto> f)\<rparr>, Some (ErrText e))
      | None \<Rightarrow> (s\<lparr>fts_disk := (fts_disk s)(tid := None), fts_index := index_delete tid (fts_index s)\<rparr>, None))"

text \<open>The eviction removes the directory by itself, then the store forgets the task.\<close>

definition ForgetEvicted :: "task_id \<Rightarrow> file_task_store \<Rightarrow> file_task_store" where
  "ForgetEvicted tid s = s\<lparr>fts_index := index_delete tid (fts_index s)\<rparr>"

definition IsReserved :: "string option \<Rightarrow> file_task_store \<Rightarrow> task_id \<Rightarrow> domain_error + bool" where
  "IsReserved fault s tid =
     (if tid_string tid = '''' then Inl (ErrText ''task id is zero value'')
      else case fault of Some e \<Rightarrow> Inl (ErrText e) | None \<Rightarrow> Inr (fts_disk s tid \<noteq> None))"

definition Save :: "string option \<Rightarrow> task_id \<Rightarrow> task_snapshot \<Rightarrow> file_task_store \<Rightarrow> file_task_store \<times> domain_error option" where
  "Save fault tid v s =
     (if tid_string tid \<noteq> tid_string (sn_TaskID v) then (s, Some (ErrText ''taskID mismatch''))
      else case Validate v of
        Some e \<Rightarrow> (s, Some e)
      | None \<Rightarrow>
          if tid_string tid = '''' then (s, Some (ErrText ''task id is zero value''))
          else if fts_disk s tid = None then (s, Some (ErrText ''task directory not reserved''))
          else case fault of
            Some e \<Rightarrow> (s, Some ErrContractWriteFailed)
          | None \<Rightarrow> (s\<lparr>fts_disk := (fts_disk s)(tid \<mapsto> JSONSnapshot v),
                       fts_index := index_put tid v (fts_index s)\<rparr>, None))"

definition Load :: "string option \<Rightarrow> file_task_store \<Rightarrow> task_id \<Rightarrow> domain_error + task_snapshot" where
  "Load fault s tid =
     (if tid_string tid = '''' then Inl (ErrText ''task id is zero value'')
      else case fault of
        Some e \<Rightarrow> Inl (ErrText e)
      | None \<Rightarrow>
          (case fts_disk s tid of
             None \<Rightarrow> Inl ErrTaskNotFound
           | Some NoJSON \<Rightarrow> Inl ErrTaskNotFound
           | Some (JSONError e) \<Rightarrow> Inl (ErrText e)
           | Some (JSONSnapshot v) \<Rightarrow>
               (case Validate v of
                  Some e \<Rightarrow> Inl e
                | None \<Rightarrow> if sn_TaskID v \<noteq> tid then Inl (ErrText ''taskID mismatch'') else Inr v)))"

definition ListByStates :: "task_state list \<Rightarrow> file_task_store \<Rightarrow> task_snapshot list" where
  "ListByStates states s =
     sort_key sn_TaskID (filter (\<lambda>v. sn_State v \<in> set states) (map snd (fts_index s)))"

section \<open>Restoring never panics\<close>

lemma Restore_total: "\<exists>r. Restore n = Done r"
proof (cases "Validate n")
  case None
  then have "validate_core n = None" by (simp add: Validate_None)
  note p = validate_core_process(1) [OF this]
  show ?thesis
  proof (cases "sn_PID n")
    case None
    then show ?thesis by (auto simp: Restore_def Let_def split: option.splits sum.splits)
  next
    case (Some pid)
    with p obtain at where "sn_ProcessStartedAt n = Some at" by auto
    with Some show ?thesis by (auto simp: Restore_def Let_def split: option.splits sum.splits)
  qed
qed (simp add: Restore_def)

text \<open>\<open>Restore\<close> as the use cases call it.\<close>

definition restore_task :: "task_snapshot \<Rightarrow> domain_error + task" where
  "restore_task n = the_done (Restore n)"

lemma Restore_restore_task: "Restore n = Done (restore_task n)"
  using Restore_total [of n] by (auto simp: restore_task_def)

lemma restore_task_sel:
  assumes "restore_task n = Inr t"
  shows "id t = sn_TaskID n" and "state t = sn_State n" and "exitCode t = sn_ExitCode n"
    and "subcommand t = sn_Subcommand n" and "adoptedAfterRestart t = sn_AdoptedAfterRestart n"
    and "Validate n = None"
  using assms Restore_restore_task [of n]
  by (auto simp: Restore_def Let_def split: option.splits sum.splits)

section \<open>What the use cases rely on\<close>

locale task_store =
  fixes load :: "'s \<Rightarrow> task_id \<Rightarrow> domain_error + task_snapshot"
    and save :: "task_id \<Rightarrow> task_snapshot \<Rightarrow> 's \<Rightarrow> 's \<times> domain_error option"
    and stored :: "'s \<Rightarrow> task_id \<rightharpoonup> task_snapshot"
  assumes load_stored: "load s tid = Inr n \<Longrightarrow> stored s tid = Some n \<and> sn_TaskID n = tid"
    and save_stores: "save tid n s = (s', None) \<Longrightarrow> stored s' = (stored s)(tid \<mapsto> n)"
    and save_valid: "save tid n s = (s', None) \<Longrightarrow> Validate n = None \<and> sn_TaskID n = tid"
    and save_refused: "save tid n s = (s', Some e) \<Longrightarrow> stored s' = stored s"
begin

text \<open>Every use case changes a stored task by one successful operation of the aggregate.\<close>

lemma read_modify_write:
  assumes "load s tid = Inr n" and "restore_task n = Inr t" and "run_op c t = (t', Inr evs)"
    and "WithTask n t' at = Inr n'" and "save tid n' s = (s', r)"
  shows "if r = None then stored s' = (stored s)(tid \<mapsto> n') else stored s' = stored s"
    and "\<not> terminal (sn_State n)" and "sn_State n' = state t'" and "sn_ExitCode n' = exitCode t'"
    and "sn_TaskID n' = id t'"
proof -
  show "if r = None then stored s' = (stored s)(tid \<mapsto> n') else stored s' = stored s"
    using assms(5) save_stores save_refused by (cases r) auto
  show "\<not> terminal (sn_State n)"
    using run_op_closing [OF assms(3)] restore_task_sel(2) [OF assms(2)] by simp
qed (use assms(4) in \<open>auto simp: WithTask_Inr\<close>)

end

definition disk_snapshot :: "file_task_store \<Rightarrow> task_id \<rightharpoonup> task_snapshot" where
  "disk_snapshot s tid = (case fts_disk s tid of Some (JSONSnapshot v) \<Rightarrow> Some v | _ \<Rightarrow> None)"

interpretation file_tasks: task_store "Load lf" "Save sf" disk_snapshot
  for lf sf
proof unfold_locales
  fix s tid n
  show "Load lf s tid = Inr n \<Longrightarrow> disk_snapshot s tid = Some n \<and> sn_TaskID n = tid"
    by (auto simp: Load_def disk_snapshot_def split: option.splits json_file.splits if_splits)
next
  fix tid n s s'
  assume a: "Save sf tid n s = (s', None)"
  then show "disk_snapshot s' = (disk_snapshot s)(tid \<mapsto> n)"
    by (auto simp: Save_def disk_snapshot_def split: option.splits if_splits)
  from a show "Validate n = None \<and> sn_TaskID n = tid"
    by (auto simp: Save_def intro: task_id.expand split: option.splits if_splits)
next
  fix tid n s s' e
  show "Save sf tid n s = (s', Some e) \<Longrightarrow> disk_snapshot s' = disk_snapshot s"
    by (auto simp: Save_def split: option.splits if_splits)
qed

section \<open>The index agrees with the disk\<close>

definition index_ok :: "file_task_store \<Rightarrow> bool" where
  "index_ok s \<longleftrightarrow> distinct (map fst (fts_index s))
     \<and> (\<forall>(tid, v) \<in> set (fts_index s). sn_TaskID v = tid \<and> Validate v = None \<and> tid_string tid \<noteq> [])"

text \<open>A snapshot that can be loaded is in the index, and the index holds nothing else.\<close>

definition index_faithful :: "file_task_store \<Rightarrow> bool" where
  "index_faithful s \<longleftrightarrow> (\<forall>tid. map_of (fts_index s) tid = (case Load None s tid of Inr v \<Rightarrow> Some v | Inl e \<Rightarrow> None))"

lemma map_of_index_put: "map_of (index_put tid v idx) = (map_of idx)(tid \<mapsto> v)"
proof
  fix k
  have "map_of (filter (\<lambda>(k, v). k \<noteq> tid) idx) k = (if k = tid then None else map_of idx k)"
    by (induction idx) auto
  then show "map_of (index_put tid v idx) k = ((map_of idx)(tid \<mapsto> v)) k" by (simp add: index_put_def)
qed

lemma map_of_index_delete: "map_of (index_delete tid idx) = (map_of idx)(tid := None)"
proof
  fix k
  show "map_of (index_delete tid idx) k = ((map_of idx)(tid := None)) k"
    unfolding index_delete_def by (induction idx) auto
qed

lemma distinct_fst_filter: "distinct (map fst idx) \<Longrightarrow> distinct (map fst (filter P idx))"
  by (induction idx) auto

lemma index_ok_put:
  assumes "index_ok s" and "sn_TaskID v = tid" and "Validate v = None" and "tid_string tid \<noteq> []"
  shows "index_ok (s\<lparr>fts_index := index_put tid v (fts_index s)\<rparr>)"
  using assms by (auto simp: index_ok_def index_put_def distinct_fst_filter)

lemma index_ok_delete: "index_ok s \<Longrightarrow> index_ok (s\<lparr>fts_index := index_delete tid (fts_index s)\<rparr>)"
  by (auto simp: index_ok_def index_delete_def distinct_fst_filter)

lemma index_ok_disk [simp]: "index_ok (s\<lparr>fts_disk := d\<rparr>) = index_ok s"
  by (simp add: index_ok_def)

lemma index_ok_corrupted [simp]: "index_ok (s\<lparr>fts_corrupted := c\<rparr>) = index_ok s"
  by (simp add: index_ok_def)

text \<open>
  The life of a store on a working disk: it is opened over directories it can all read, directories are
  reserved and released, snapshots are saved or refused, and a directory that was evicted is forgotten.
\<close>

inductive store_life :: "file_task_store \<Rightarrow> bool" where
  opened: "\<lbrakk>\<forall>tid. opened tid = None; distinct names; \<And>tid. disk tid \<noteq> None \<Longrightarrow> tid_string tid \<in> set names;
     \<And>tid. disk tid \<noteq> None \<Longrightarrow> NewTaskID (tid_string tid) = Inr tid\<rbrakk>
     \<Longrightarrow> store_life (NewFileTaskStore opened names disk)"
| reserved: "store_life s \<Longrightarrow> store_life (fst (Reserve fault tid s))"
| released: "store_life s \<Longrightarrow> store_life (fst (Release None tid s))"
| saved: "store_life s \<Longrightarrow> store_life (fst (Save fault tid v s))"
| evicted: "store_life s \<Longrightarrow> store_life (ForgetEvicted tid (s\<lparr>fts_disk := (fts_disk s)(tid := None)\<rparr>))"

definition loadable :: "file_task_store \<Rightarrow> task_id \<rightharpoonup> task_snapshot" where
  "loadable s tid = (case Load None s tid of Inr v \<Rightarrow> Some v | Inl e \<Rightarrow> None)"

definition decoded :: "task_id \<Rightarrow> json_file option \<Rightarrow> task_snapshot option" where
  "decoded tid f =
     (case f of
        Some (JSONSnapshot v) \<Rightarrow> if tid_string tid \<noteq> [] \<and> Validate v = None \<and> sn_TaskID v = tid then Some v else None
      | _ \<Rightarrow> None)"

lemma loadable_decoded: "loadable s tid = decoded tid (fts_disk s tid)"
  by (auto simp: loadable_def Load_def decoded_def split: option.splits json_file.splits)

lemma index_faithful_iff: "index_faithful s \<longleftrightarrow> (\<forall>tid. map_of (fts_index s) tid = decoded tid (fts_disk s tid))"
  by (simp add: index_faithful_def loadable_def [symmetric] loadable_decoded)

lemma scan_entry_step:
  assumes "\<forall>tid. opened tid = None"
  shows "fts_disk (scan_entry opened name s) = fts_disk s \<and> (index_ok s \<longrightarrow> index_ok (scan_entry opened name s))
     \<and> map_of (fts_index (scan_entry opened name s)) =
         (case NewTaskID name of Inl e \<Rightarrow> map_of (fts_index s)
          | Inr tid \<Rightarrow> (case decoded tid (fts_disk s tid) of None \<Rightarrow> map_of (fts_index s)
                      | Some v \<Rightarrow> (map_of (fts_index s))(tid \<mapsto> v)))"
  using index_ok_put
  by (auto simp: scan_entry_def assms Let_def decoded_def map_of_index_put
      split: sum.splits option.splits json_file.splits)

lemma scan_entries:
  assumes "\<forall>tid. opened tid = None"
  shows "fts_disk (fold (scan_entry opened) names s) = fts_disk s
     \<and> (index_ok s \<longrightarrow> index_ok (fold (scan_entry opened) names s))
     \<and> (\<forall>tid. map_of (fts_index (fold (scan_entry opened) names s)) tid =
          (if (\<exists>name \<in> set names. NewTaskID name = Inr tid) \<and> decoded tid (fts_disk s tid) \<noteq> None
           then decoded tid (fts_disk s tid) else map_of (fts_index s) tid))"
proof (induction names arbitrary: s)
  case (Cons name names)
  note one = scan_entry_step [OF assms, of name s]
  note rest = Cons.IH [of "scan_entry opened name s"]
  show ?case
  proof (intro conjI allI impI)
    fix tid
    show "map_of (fts_index (fold (scan_entry opened) (name # names) s)) tid =
          (if (\<exists>nm \<in> set (name # names). NewTaskID nm = Inr tid) \<and> decoded tid (fts_disk s tid) \<noteq> None
           then decoded tid (fts_disk s tid) else map_of (fts_index s) tid)"
      using one rest by (auto split: sum.splits option.splits)
  qed (use one rest in auto)
qed simp

lemma store_life_index: "store_life s \<Longrightarrow> index_ok s \<and> index_faithful s"
proof (induction rule: store_life.induct)
  case (opened op names disk)
  let ?s0 = "\<lparr>fts_disk = disk, fts_index = [], fts_corrupted = []\<rparr>"
  note scan = scan_entries [OF opened(1), of names ?s0]
  have "index_ok ?s0" by (simp add: index_ok_def)
  moreover have "map_of (fts_index (fold (scan_entry op) names ?s0)) tid = decoded tid (disk tid)" for tid
  proof (cases "disk tid = None")
    case True
    then show ?thesis using scan by (simp add: decoded_def)
  next
    case False
    with opened(3,4) have "\<exists>name \<in> set names. NewTaskID name = Inr tid" by blast
    then show ?thesis using scan by auto
  qed
  ultimately show ?case using scan by (simp add: NewFileTaskStore_def index_faithful_iff)
next
  case (reserved s fault tid)
  then show ?case
    by (auto simp: Reserve_def index_faithful_iff decoded_def split: option.splits)
next
  case (released s tid)
  then show ?case
    using index_ok_delete [of "s\<lparr>fts_disk := (fts_disk s)(tid := None)\<rparr>" tid]
    by (auto simp: Release_def index_faithful_iff map_of_index_delete decoded_def)
next
  case (saved s fault tid v)
  show ?case
  proof (cases "snd (Save fault tid v s)")
    case None
    then have v: "tid_string tid = tid_string (sn_TaskID v)" "Validate v = None" "tid_string tid \<noteq> []"
      and s': "fst (Save fault tid v s) = s\<lparr>fts_disk := (fts_disk s)(tid \<mapsto> JSONSnapshot v),
        fts_index := index_put tid v (fts_index s)\<rparr>"
      by (auto simp: Save_def split: option.splits if_splits)
    from v(1) have "sn_TaskID v = tid" by (auto intro: task_id.expand)
    with v s' saved index_ok_put [of s v tid] show ?thesis
      by (auto simp: index_faithful_iff map_of_index_put decoded_def index_ok_def)
  next
    case (Some e)
    then have "fst (Save fault tid v s) = s" by (auto simp: Save_def split: option.splits if_splits)
    with saved show ?thesis by simp
  qed
next
  case (evicted s tid)
  then show ?case
    using index_ok_delete [of s tid]
    by (auto simp: ForgetEvicted_def index_faithful_iff map_of_index_delete decoded_def index_ok_def)
qed

lemma ListByStates_listing:
  assumes "store_life s"
  shows "set (ListByStates states s) = {v. \<exists>tid. Load None s tid = Inr v \<and> sn_State v \<in> set states}
     \<and> sorted_wrt (<) (map sn_TaskID (ListByStates states s))"
proof
  from store_life_index [OF assms] have ok: "index_ok s" and faithful: "\<And>tid. map_of (fts_index s) tid = loadable s tid"
    by (auto simp: index_faithful_def loadable_def)
  from ok have d: "distinct (map fst (fts_index s))" by (simp add: index_ok_def)
  have "(tid, v) \<in> set (fts_index s) \<longleftrightarrow> Load None s tid = Inr v" for tid v
    using faithful [of tid] map_of_eq_Some_iff [OF d, of tid v]
    by (cases "Load None s tid") (auto simp: loadable_def)
  then show "set (ListByStates states s) = {v. \<exists>tid. Load None s tid = Inr v \<and> sn_State v \<in> set states}"
    by (force simp: ListByStates_def)
  have "map sn_TaskID (map snd (fts_index s)) = map fst (fts_index s)"
    using ok by (auto simp: index_ok_def)
  with d have "distinct (map sn_TaskID (map snd (fts_index s)))" by (simp only:)
  then have "distinct (map sn_TaskID (filter (\<lambda>v. sn_State v \<in> set states) (map snd (fts_index s))))"
    by (rule distinct_map_filter)
  then have "distinct (map sn_TaskID (ListByStates states s))"
    unfolding ListByStates_def by (simp add: distinct_map)
  moreover have "sorted (map sn_TaskID (ListByStates states s))" by (simp add: ListByStates_def)
  ultimately show "sorted_wrt (<) (map sn_TaskID (ListByStates states s))"
    by (simp add: strict_sorted_iff)
qed

text \<open>
  Listings do not miss or invent tasks. Over every life of a store on a working disk, the tasks listed
  for a set of states are exactly those that can be loaded from the disk in one of these states, each
  once and in the order of their identifiers, although the listing reads only the index in memory.
\<close>

theorem ListByStates_exact:
  assumes "store_life s"
  shows "set (ListByStates states s) = {v. \<exists>tid. Load None s tid = Inr v \<and> sn_State v \<in> set states}
     \<and> sorted_wrt (<) (map sn_TaskID (ListByStates states s))"
  using assms by (rule ListByStates_listing)

definition sample_id :: task_id where
  "sample_id = TaskID ''impl-20240229-235900-ab07-fix''"

definition sample_snapshot :: "task_state \<Rightarrow> task_snapshot" where
  "sample_snapshot s = overlay_task sample_base (sample_task s) 9"

definition sample_store :: file_task_store where
  "sample_store = fst (Save None sample_id (sample_snapshot StateStarting)
     (NewFileTaskStore (\<lambda>_. None) [''impl-20240229-235900-ab07-fix'', ''lost+found''] [sample_id \<mapsto> NoJSON]))"

lemma sample_id_ok: "NewTaskID (tid_string sample_id) = Inr sample_id"
  by code_simp

lemma sample_store_life: "store_life sample_store"
  unfolding sample_store_def
proof (intro store_life.saved store_life.opened)
  show "distinct [''impl-20240229-235900-ab07-fix'', ''lost+found'']" by simp
qed (use sample_id_ok in \<open>auto simp: sample_id_def split: if_splits\<close>)

theorem ListByStates_exact_witness:
  "ListByStates [StateStarting, StateRunning] sample_store = [sample_snapshot StateStarting]
   \<and> set (ListByStates [StateStarting, StateRunning] sample_store)
       = {v. \<exists>tid. Load None sample_store tid = Inr v \<and> sn_State v \<in> set [StateStarting, StateRunning]}
   \<and> sorted_wrt (<) (map sn_TaskID (ListByStates [StateStarting, StateRunning] sample_store))"
proof
  show "ListByStates [StateStarting, StateRunning] sample_store = [sample_snapshot StateStarting]" by code_simp
qed (rule ListByStates_exact [OF sample_store_life])

end
