(* ===== verification/Task_Runtime.thy ===== *)
theory Task_Runtime
  imports Task_Store Contract
begin

text \<open>
  The use cases that change a task while it runs, from \<^verbatim>\<open>internal/execution\<close>,
  \<^verbatim>\<open>internal/execution/usecase\<close>, \<^verbatim>\<open>internal/recovery\<close> and
  \<^verbatim>\<open>internal/transport/usecase\<close>. Each of them holds the mutex of the task while it loads the
  snapshot, applies one operation of the aggregate, writes the exit code and saves (the record of a start is made
  without the mutex, while nothing is stored for the task yet); so each such part
  is one atomic step on the world of a daemon: the task store, the exit-code files, the event logs, the
  prompts, the recovery markers and the tracker of stalled times.

  What the file system and the liveness lock answer during a step are arguments of the step. Loggers are
  not modelled. The theorems hold for every interleaving of the steps of all tasks.
\<close>

section \<open>Tracker of stalled times\<close>

text \<open>From \<^verbatim>\<open>internal/metrics/stalled_tracker.go\<close>.\<close>

record stalled_entry =
  se_enteredAt :: go_time
  se_totalMs :: int
  se_active :: bool

type_synonym stalled_tracker = "task_id \<rightharpoonup> stalled_entry"

definition zero_stalled :: stalled_entry where
  "zero_stalled = \<lparr>se_enteredAt = 0, se_totalMs = 0, se_active = False\<rparr>"

definition milliseconds :: "duration \<Rightarrow> int" where
  "milliseconds d = (if d \<ge> 0 then d div 1000000 else - ((- d) div 1000000))"

definition EnterStalled :: "task_id \<Rightarrow> go_time \<Rightarrow> stalled_tracker \<Rightarrow> stalled_tracker" where
  "EnterStalled tid at m =
     (let entry = (case m tid of None \<Rightarrow> zero_stalled | Some e \<Rightarrow> e)
      in if se_active entry then m else m(tid \<mapsto> entry\<lparr>se_enteredAt := at, se_active := True\<rparr>))"

definition LeaveStalled :: "task_id \<Rightarrow> go_time \<Rightarrow> stalled_tracker \<Rightarrow> stalled_tracker \<times> int" where
  "LeaveStalled tid at m =
     (case m tid of
        None \<Rightarrow> (m, 0)
      | Some e \<Rightarrow>
          if \<not> se_active e then (m, se_totalMs e)
          else let e' = e\<lparr>se_totalMs := se_totalMs e + milliseconds (time_sub at (se_enteredAt e)), se_active := False\<rparr>
               in (m(tid \<mapsto> e'), se_totalMs e'))"

definition TakeTotal :: "task_id \<Rightarrow> stalled_tracker \<Rightarrow> stalled_tracker \<times> int" where
  "TakeTotal tid m = (case m tid of None \<Rightarrow> (m, 0) | Some e \<Rightarrow> (m(tid := None), se_totalMs e))"

section \<open>The world of a daemon\<close>

datatype log_item = DomainEvent event | RawEvent string string

record task_world =
  tw_store :: file_task_store
  tw_exit :: exit_files
  tw_log :: "task_id \<Rightarrow> log_item list"
  tw_prompts :: "task_id \<rightharpoonup> string"
  tw_recovered :: "task_id \<rightharpoonup> go_time"
  tw_adopted :: "task_id \<rightharpoonup> go_time"
  tw_stalled :: stalled_tracker

text \<open>What the environment answers to the calls of one step; \<open>io_append\<close> and \<open>io_raw\<close> tell whether an append works.\<close>

record task_io =
  io_load :: "string option"
  io_save :: "string option"
  io_exit_read :: "string option"
  io_exit_write :: "string option"
  io_prompt :: "string option"
  io_recovered :: "string option"
  io_adopted :: "string option"
  io_append :: "event \<Rightarrow> bool"
  io_raw :: bool

datatype runtime_error =
    DomainErr domain_error
  | FatalExitCode contract_error
  | WriteFailure string string
  | JoinErr runtime_error runtime_error
  | Invalid string

definition load_task :: "task_io \<Rightarrow> task_id \<Rightarrow> task_world \<Rightarrow> domain_error + task_snapshot" where
  "load_task io tid w = Load (io_load io) (tw_store w) tid"

definition save_task :: "task_io \<Rightarrow> task_id \<Rightarrow> task_snapshot \<Rightarrow> task_world \<Rightarrow> task_world \<times> domain_error option" where
  "save_task io tid n w =
     (case Save (io_save io) tid n (tw_store w) of (s, r) \<Rightarrow> (w\<lparr>tw_store := s\<rparr>, r))"

definition append_event :: "task_io \<Rightarrow> task_id \<Rightarrow> event \<Rightarrow> task_world \<Rightarrow> task_world" where
  "append_event io tid ev w =
     (if io_append io ev then w\<lparr>tw_log := (tw_log w)(tid := tw_log w tid @ [DomainEvent ev])\<rparr> else w)"

definition append_events :: "task_io \<Rightarrow> task_id \<Rightarrow> event list \<Rightarrow> task_world \<Rightarrow> task_world" where
  "append_events io tid evs w = fold (append_event io tid) evs w"

definition append_raw :: "task_io \<Rightarrow> task_id \<Rightarrow> string \<Rightarrow> string \<Rightarrow> task_world \<Rightarrow> task_world" where
  "append_raw io tid kind raw w =
     (if io_raw io then w\<lparr>tw_log := (tw_log w)(tid := tw_log w tid @ [RawEvent kind raw])\<rparr> else w)"

definition write_exit_code :: "task_io \<Rightarrow> task_id \<Rightarrow> exit_code \<Rightarrow> task_world
    \<Rightarrow> task_world \<times> string option \<times> contract_error option" where
  "write_exit_code io tid code w =
     (case WriteExitCodeIdempotently (ReadExitCode (\<lambda>_. io_exit_read io)) (WriteExitCode (\<lambda>_. io_exit_write io))
             tid code (tw_exit w) of
        (files, we, fe) \<Rightarrow> (w\<lparr>tw_exit := files\<rparr>, we, fe))"

text \<open>\<open>WritePrompt\<close> publishes by a hard link, so a second write fails.\<close>

definition write_prompt :: "task_io \<Rightarrow> task_id \<Rightarrow> string \<Rightarrow> task_world \<Rightarrow> task_world \<times> domain_error option" where
  "write_prompt io tid text w =
     (if io_prompt io \<noteq> None \<or> tw_prompts w tid \<noteq> None then (w, Some ErrContractWriteFailed)
      else (w\<lparr>tw_prompts := (tw_prompts w)(tid \<mapsto> text)\<rparr>, None))"

definition leave_stalled :: "task_id \<Rightarrow> go_time \<Rightarrow> task_world \<Rightarrow> task_world" where
  "leave_stalled tid at w = w\<lparr>tw_stalled := fst (LeaveStalled tid at (tw_stalled w))\<rparr>"

section \<open>Recording the start\<close>

definition validateRecordTaskStartingInput ::
    "timeout \<Rightarrow> string \<Rightarrow> string \<Rightarrow> string \<Rightarrow> execution_route \<Rightarrow> string \<Rightarrow> go_time \<Rightarrow> domain_error option" where
  "validateRecordTaskStartingInput to mdl sandbox wd route prompt now =
     (if resolvedSeconds to \<le> 0 then Some (ErrText ''record task starting resolved timeout is required'')
      else if mdl = '''' then Some (ErrText ''record task starting model is required'')
      else if \<not> IsValidSandboxMode sandbox then Some (ErrText ''record task starting sandbox mode is invalid'')
      else if wd = '''' then Some (ErrText ''record task starting working directory is required'')
      else if prompt = '''' then Some (ErrText ''record task starting prompt text is required'')
      else if route \<noteq> ExecutionRouteDaemon then Some (ErrText ''record task starting route must be daemon'')
      else if is_zero_time now then Some (ErrText ''record task starting now is required'')
      else case NewNormalizedPath wd of Inl e \<Rightarrow> Some e | Inr _ \<Rightarrow> None)"

text \<open>The task is the caller's object, which \<open>Start\<close> changes; its new value is returned.\<close>

definition RecordTaskStarting_Execute ::
    "task_io \<Rightarrow> task \<Rightarrow> timeout \<Rightarrow> string \<Rightarrow> string option \<Rightarrow> string \<Rightarrow> string \<Rightarrow> execution_route \<Rightarrow> string \<Rightarrow> go_time
      \<Rightarrow> task_world \<Rightarrow> task_world \<times> task \<times> domain_error option" where
  "RecordTaskStarting_Execute io t to mdl effort sandbox wd route prompt now w =
     (case validateRecordTaskStartingInput to mdl sandbox wd route prompt now of
        Some e \<Rightarrow> (w, t, Some e)
      | None \<Rightarrow>
     (case Start to mdl now t of
        (t, Inl e) \<Rightarrow> (w, t, Some e)
      | (t, Inr _) \<Rightarrow>
     (case write_prompt io (id t) prompt w of
        (w, Some e) \<Rightarrow> (w, t, Some e)
      | (w, None) \<Rightarrow>
     (case WithTask (NewInitialTaskSnapshot route effort sandbox (Some wd)) t now of
        Inl e \<Rightarrow> (w, t, Some e)
      | Inr n \<Rightarrow>
     (case save_task io (id t) n w of
        (w, Some e) \<Rightarrow> (w, t, Some ErrContractWriteFailed)
      | (w, None) \<Rightarrow> (w, t, None))))))"

definition RecordTaskProcess_Execute :: "task_io \<Rightarrow> task_id \<Rightarrow> int \<Rightarrow> go_time \<Rightarrow> go_time \<Rightarrow> task_world
    \<Rightarrow> task_world \<times> domain_error option" where
  "RecordTaskProcess_Execute io tid pid startedAt now w =
     (if is_zero_time now then (w, Some (ErrText ''record task process now is required''))
      else
     (case load_task io tid w of
        Inl e \<Rightarrow> (w, Some e)
      | Inr n \<Rightarrow>
     (case restore_task n of
        Inl e \<Rightarrow> (w, Some e)
      | Inr t \<Rightarrow>
     (case RecordProcessInfo pid startedAt now t of
        (t, Inl e) \<Rightarrow> (w, Some e)
      | (t, Inr evs) \<Rightarrow>
     (case WithTask n t now of
        Inl e \<Rightarrow> (w, Some e)
      | Inr n' \<Rightarrow>
     (case save_task io tid n' w of
        (w, Some e) \<Rightarrow> (w, Some ErrContractWriteFailed)
      | (w, None) \<Rightarrow> (append_events io tid evs w, None)))))))"

text \<open>\<open>live\<close> is the answer of the liveness check: an error, or whether the process is dead.\<close>

definition ConfirmTaskRunning_Execute :: "task_io \<Rightarrow> domain_error + bool \<Rightarrow> task_id \<Rightarrow> go_time \<Rightarrow> task_world
    \<Rightarrow> task_world \<times> (domain_error + bool \<times> task_state)" where
  "ConfirmTaskRunning_Execute io live tid at w =
     (if is_zero_time at then (w, Inl (ErrText ''confirm task running occurred at is required''))
      else
     (case load_task io tid w of
        Inl e \<Rightarrow> (w, Inl e)
      | Inr n \<Rightarrow>
     (case restore_task n of
        Inl e \<Rightarrow> (w, Inl e)
      | Inr t \<Rightarrow>
          if state t = StateCancelling then (w, Inr (False, StateCancelling))
          else
     (case live of
        Inl e \<Rightarrow> (w, Inl e)
      | Inr dead \<Rightarrow>
     (case (if dead then DetectOrphan ''starting'' at t else ConfirmRunning at t) of
        (t, Inl e) \<Rightarrow> (w, Inl e)
      | (t, Inr evs) \<Rightarrow>
     (case WithTask n t at of
        Inl e \<Rightarrow> (w, Inl e)
      | Inr n' \<Rightarrow>
     (case save_task io tid n' w of
        (w, Some e) \<Rightarrow> (w, Inl e)
      | (w, None) \<Rightarrow> (append_events io tid evs w, Inr (dead, state t)))))))))"

section \<open>Failed launches\<close>

record fail_launch_input =
  fl_Task :: task
  fl_ResolvedTimeout :: timeout
  fl_Model :: string
  fl_ReasoningEffort :: "string option"
  fl_SandboxMode :: string
  fl_WorkingDir :: "string option"
  fl_FailureCode :: string
  fl_OccurredAt :: go_time

definition fail_launch_base :: "task_snapshot option \<Rightarrow> fail_launch_input \<Rightarrow> task_snapshot" where
  "fail_launch_base loaded inp =
     (case loaded of
        None \<Rightarrow> NewInitialTaskSnapshot ExecutionRouteDaemon (fl_ReasoningEffort inp) (fl_SandboxMode inp) (fl_WorkingDir inp)
      | Some n \<Rightarrow>
          if SupportsWorkingDir n \<and> sn_WorkingDir n = None \<and> fl_WorkingDir inp \<noteq> None
          then n\<lparr>sn_WorkingDir := fl_WorkingDir inp\<rparr> else n)"

definition set_failure_code :: "string \<Rightarrow> task_snapshot \<Rightarrow> domain_error + task_snapshot" where
  "set_failure_code code n =
     (if code \<noteq> '''' \<and> SupportsFailureCode n
      then (let n' = n\<lparr>sn_FailureCode := Some code\<rparr>
            in case Validate n' of Some e \<Rightarrow> Inl e | None \<Rightarrow> Inr n')
      else Inr n)"

text \<open>The persisting half: from the recorded exit to the saved snapshot and its events.\<close>

definition persist_launch_failure :: "task_io \<Rightarrow> fail_launch_input \<Rightarrow> task_snapshot option \<Rightarrow> task \<Rightarrow> event list
    \<Rightarrow> task_world \<Rightarrow> task_world \<times> runtime_error option" where
  "persist_launch_failure io inp loaded t evs w =
     (case write_exit_code io (id (fl_Task inp)) (NewExitCode 1) w of
        (w, _, Some fatal) \<Rightarrow> (w, Some (FatalExitCode fatal))
      | (w, Some e, None) \<Rightarrow> (w, Some (WriteFailure ''exit-code'' e))
      | (w, None, None) \<Rightarrow>
     (case WithTask (fail_launch_base loaded inp) t (fl_OccurredAt inp) of
        Inl e \<Rightarrow> (w, Some (DomainErr e))
      | Inr n \<Rightarrow>
     (case set_failure_code (fl_FailureCode inp) n of
        Inl e \<Rightarrow> (w, Some (DomainErr e))
      | Inr n \<Rightarrow>
     (case save_task io (id (fl_Task inp)) n w of
        (w, Some e) \<Rightarrow> (w, Some (DomainErr e))
      | (w, None) \<Rightarrow> (append_events io (id (fl_Task inp)) evs w, None)))))"

text \<open>The stored task, or the task of the caller when none is stored.\<close>

definition fail_launch_load :: "task_io \<Rightarrow> task \<Rightarrow> task_world \<Rightarrow> domain_error + task_snapshot option \<times> task" where
  "fail_launch_load io task w =
     (case load_task io (id task) w of
        Inr n \<Rightarrow> (case restore_task n of Inl e \<Rightarrow> Inl e | Inr t \<Rightarrow> Inr (Some n, t))
      | Inl e \<Rightarrow> if e = ErrTaskNotFound then Inr (None, task) else Inl e)"

definition start_queued :: "timeout \<Rightarrow> string \<Rightarrow> go_time \<Rightarrow> task \<Rightarrow> task_result" where
  "start_queued to mdl at t = (if state t = StateQueued then Start to mdl at t else (t, Inr []))"

text \<open>The result is the pair \<open>Terminal\<close>, \<open>Impl\<close>.\<close>

definition FailTaskLaunch_ExecuteLocked :: "task_io \<Rightarrow> fail_launch_input \<Rightarrow> task_world
    \<Rightarrow> task_world \<times> (bool \<times> bool) \<times> runtime_error option" where
  "FailTaskLaunch_ExecuteLocked io inp w =
     (if is_zero_time (fl_OccurredAt inp) \<or> resolvedSeconds (fl_ResolvedTimeout inp) \<le> 0 \<or> fl_Model inp = ''''
         \<or> \<not> IsValidSandboxMode (fl_SandboxMode inp)
      then (w, (False, False), Some (Invalid ''fail task launch requires task, timeout, model, and occurred at''))
      else
     (case fail_launch_load io (fl_Task inp) w of
        Inl e \<Rightarrow> (w, (False, False), Some (DomainErr e))
      | Inr (n, t) \<Rightarrow>
        (case start_queued (fl_ResolvedTimeout inp) (fl_Model inp) (fl_OccurredAt inp) t of
           (t, Inl e) \<Rightarrow> (w, (False, False), Some (DomainErr e))
         | (t, Inr _) \<Rightarrow>
        (case RecordExit (NewExitCode 1) False True False (fl_OccurredAt inp) t of
           (t, Inl e) \<Rightarrow> (w, (False, False), Some (DomainErr e))
         | (t, Inr evs) \<Rightarrow>
             (case persist_launch_failure io inp n t evs w of
                (w, r) \<Rightarrow> (w, (True, subcommand t = SubcommandImpl), r))))))"

section \<open>Finalization\<close>

record finalize_input =
  fi_TaskID :: task_id
  fi_RawExitCode :: int
  fi_Estimated :: bool
  fi_AdoptedAfterRestart :: bool
  fi_OccurredAt :: go_time

record metrics_input =
  mi_TaskID :: task_id
  mi_FinalState :: task_state
  mi_Estimated :: bool
  mi_OccurredAt :: go_time
  mi_StalledTotalMs :: int

record finalize_result =
  fr_ResultState :: task_state
  fr_Events :: "event list"
  fr_ContractWriteError :: "runtime_error option"
  fr_RecordExited :: bool
  fr_Metrics :: "metrics_input option"
  fr_Subcommand :: subcommand

definition no_result :: finalize_result where
  "no_result = \<lparr>fr_ResultState = StateOther '''', fr_Events = [], fr_ContractWriteError = None, fr_RecordExited = False,
     fr_Metrics = None, fr_Subcommand = SubcommandOther ''''\<rparr>"

text \<open>The terminal snapshot was persisted exactly when the metrics input is there.\<close>

definition fr_TerminalPersisted :: "finalize_result \<Rightarrow> bool" where
  "fr_TerminalPersisted r \<longleftrightarrow> fr_Metrics r \<noteq> None"

datatype write_outcome = Persisted | Retryable runtime_error | NonRetryable runtime_error

definition writeTerminalState :: "task_io \<Rightarrow> task_id \<Rightarrow> exit_code \<Rightarrow> task \<Rightarrow> task_snapshot \<Rightarrow> event list \<Rightarrow> go_time
    \<Rightarrow> task_world \<Rightarrow> task_world \<times> write_outcome" where
  "writeTerminalState io tid code t n evs at w =
     (case write_exit_code io tid code w of
        (w, _, Some fatal) \<Rightarrow> (w, NonRetryable (FatalExitCode fatal))
      | (w, Some e, None) \<Rightarrow> (w, Retryable (WriteFailure ''exit-code'' e))
      | (w, None, None) \<Rightarrow>
     (case WithTask n t at of
        Inl e \<Rightarrow> (w, NonRetryable (DomainErr e))
      | Inr n' \<Rightarrow>
     (case save_task io tid n' w of
        (w, Some e) \<Rightarrow> (w, Retryable (WriteFailure ''task.json'' ''save''))
      | (w, None) \<Rightarrow> (append_events io tid evs w, Persisted))))"

fun taskExitedEstimated :: "event list \<Rightarrow> bool" where
  "taskExitedEstimated (TaskExited _ _ _ est _ _ # _) = est"
| "taskExitedEstimated (_ # evs) = taskExitedEstimated evs"
| "taskExitedEstimated [] = False"

definition exited_result :: "task \<Rightarrow> event list \<Rightarrow> runtime_error option \<Rightarrow> finalize_result" where
  "exited_result t evs werr = \<lparr>fr_ResultState = state t, fr_Events = evs, fr_ContractWriteError = werr,
     fr_RecordExited = True, fr_Metrics = None, fr_Subcommand = subcommand t\<rparr>"

definition persistedFinalizeResult :: "task_id \<Rightarrow> task_state \<Rightarrow> task \<Rightarrow> event list \<Rightarrow> go_time \<Rightarrow> runtime_error option
    \<Rightarrow> task_world \<Rightarrow> task_world \<times> finalize_result" where
  "persistedFinalizeResult tid previous t evs at werr w =
     (let w = (if previous = StateStalled then leave_stalled tid at w else w);
          (m, ms) = TakeTotal tid (tw_stalled w)
      in (w\<lparr>tw_stalled := m\<rparr>,
          (exited_result t evs werr)\<lparr>fr_Metrics := Some \<lparr>mi_TaskID = tid, mi_FinalState = state t,
             mi_Estimated = taskExitedEstimated evs, mi_OccurredAt = at, mi_StalledTotalMs = ms\<rparr>\<rparr>))"

text \<open>The second attempt: reload, record the exit as without output, and write once more.\<close>

definition finalize_retry :: "task_io \<Rightarrow> finalize_input \<Rightarrow> task \<Rightarrow> event list \<Rightarrow> runtime_error \<Rightarrow> task_world
    \<Rightarrow> task_world \<times> finalize_result \<times> runtime_error option" where
  "finalize_retry io inp t evs fail w =
     (let tid = fi_TaskID inp; at = fi_OccurredAt inp; code = NewExitCode (fi_RawExitCode inp);
          failed = exited_result t evs (Some fail)
      in (case load_task io tid w of
            Inl e \<Rightarrow> (w, failed, Some (JoinErr fail (DomainErr e)))
          | Inr n \<Rightarrow>
         (case restore_task n of
            Inl e \<Rightarrow> (w, failed, Some (JoinErr fail (DomainErr e)))
          | Inr rt \<Rightarrow>
         (case RecordExit code False (fi_Estimated inp) (fi_AdoptedAfterRestart inp) at rt of
            (_, Inl e) \<Rightarrow> (w, failed, Some (JoinErr fail (DomainErr e)))
          | (rt', Inr revs) \<Rightarrow>
         (case writeTerminalState io tid code rt' n revs at w of
            (w, NonRetryable e) \<Rightarrow> (w, exited_result rt' revs (Some fail), Some (JoinErr fail e))
          | (w, Persisted) \<Rightarrow>
              (case persistedFinalizeResult tid (state rt) rt' revs at (Some fail) w of (w, r) \<Rightarrow> (w, r, None))
          | (w, Retryable e) \<Rightarrow> (w, exited_result rt' revs (Some fail), Some (JoinErr fail e)))))))"

text \<open>\<open>io1\<close> answers the first attempt and \<open>io2\<close> the retry; \<open>present\<close> is what \<open>Prepare\<close> read.\<close>

definition FinalizeTask_executeLocked :: "task_io \<Rightarrow> task_io \<Rightarrow> finalize_input \<Rightarrow> bool \<Rightarrow> task_world
    \<Rightarrow> task_world \<times> finalize_result \<times> runtime_error option" where
  "FinalizeTask_executeLocked io1 io2 inp present w =
     (let tid = fi_TaskID inp; at = fi_OccurredAt inp; code = NewExitCode (fi_RawExitCode inp)
      in (case load_task io1 tid w of
            Inl e \<Rightarrow> (w, no_result, Some (DomainErr e))
          | Inr n \<Rightarrow>
         (case restore_task n of
            Inl e \<Rightarrow> (w, no_result, Some (DomainErr e))
          | Inr t \<Rightarrow>
         (case RecordExit code present (fi_Estimated inp) (fi_AdoptedAfterRestart inp) at t of
            (_, Inl e) \<Rightarrow> (w, no_result, Some (DomainErr e))
          | (t', Inr evs) \<Rightarrow>
         (case writeTerminalState io1 tid code t' n evs at w of
            (w, NonRetryable e) \<Rightarrow> (w, exited_result t' evs None, Some e)
          | (w, Persisted) \<Rightarrow>
              (case persistedFinalizeResult tid (state t) t' evs at None w of (w, r) \<Rightarrow> (w, r, None))
          | (w, Retryable e) \<Rightarrow> finalize_retry io2 inp t' evs e w)))))"

section \<open>Confirmed kills\<close>

record kill_result =
  kr_Events :: "event list"
  kr_Confirmed :: bool
  kr_TerminalPersisted :: bool
  kr_StalledTotalMs :: int
  kr_Subcommand :: subcommand

definition no_kill :: kill_result where
  "no_kill = \<lparr>kr_Events = [], kr_Confirmed = False, kr_TerminalPersisted = False, kr_StalledTotalMs = 0,
     kr_Subcommand = SubcommandOther ''''\<rparr>"

definition ConfirmTaskKilled_ExecuteLocked :: "task_io \<Rightarrow> task_id \<Rightarrow> int \<Rightarrow> bool \<Rightarrow> go_time \<Rightarrow> task_world
    \<Rightarrow> task_world \<times> kill_result \<times> runtime_error option" where
  "ConfirmTaskKilled_ExecuteLocked io tid rawExitCode estimated at w =
     (case load_task io tid w of
        Inl e \<Rightarrow> (w, no_kill, Some (DomainErr e))
      | Inr n \<Rightarrow>
     (case restore_task n of
        Inl e \<Rightarrow> (w, no_kill, Some (DomainErr e))
      | Inr t \<Rightarrow>
     (case ConfirmKilled (NewExitCode rawExitCode) estimated at t of
        (_, Inl e) \<Rightarrow> (w, no_kill, Some (DomainErr e))
      | (t, Inr evs) \<Rightarrow>
          let result = no_kill\<lparr>kr_Confirmed := True, kr_Subcommand := subcommand t, kr_Events := evs\<rparr>
          in
     (case write_exit_code io tid (NewExitCode rawExitCode) w of
        (w, _, Some fatal) \<Rightarrow> (w, result, Some (FatalExitCode fatal))
      | (w, Some e, None) \<Rightarrow> (w, result, Some (WriteFailure ''exit-code'' e))
      | (w, None, None) \<Rightarrow>
     (case WithTask n t at of
        Inl e \<Rightarrow> (w, result, Some (DomainErr e))
      | Inr n' \<Rightarrow>
     (case save_task io tid n' w of
        (w, Some e) \<Rightarrow> (w, result, Some (WriteFailure ''task.json'' ''save''))
      | (w, None) \<Rightarrow>
          (case TakeTotal tid (tw_stalled w) of
             (m, ms) \<Rightarrow>
               (append_events io tid evs (w\<lparr>tw_stalled := m\<rparr>),
                result\<lparr>kr_TerminalPersisted := True, kr_StalledTotalMs := ms\<rparr>, None))))))))"

section \<open>Events of the running process\<close>

definition MonitorTaskEvents_observeKnown :: "task_io \<Rightarrow> task_id \<Rightarrow> string \<Rightarrow> string \<Rightarrow> go_time \<Rightarrow> task_world \<Rightarrow> task_world" where
  "MonitorTaskEvents_observeKnown io tid kind raw now w =
     (case load_task io tid w of
        Inl e \<Rightarrow> w
      | Inr n \<Rightarrow>
     (case restore_task n of
        Inl e \<Rightarrow> w
      | Inr t \<Rightarrow>
     (case ObserveEvent kind now t of
        (_, Inl e) \<Rightarrow> append_raw io tid kind raw w
      | (t, Inr evs) \<Rightarrow>
     (case WithTask n t now of
        Inl e \<Rightarrow> append_raw io tid kind raw w
      | Inr n' \<Rightarrow>
     (case save_task io tid n' w of
        (w, Some e) \<Rightarrow> append_raw io tid kind raw w
      | (w, None) \<Rightarrow>
          append_events io tid evs
            (append_raw io tid kind raw (if sn_State n = StateStalled then leave_stalled tid now w else w)))))))"

section \<open>Timeouts\<close>

datatype timeout_stage = TimeoutEnforcementStageLoad | TimeoutEnforcementStageRestore | TimeoutEnforcementStageSave

datatype timeout_error = TimeoutEnforcementError timeout_stage domain_error

text \<open>
  The answer: an error; that the task is not running any more; or the snapshot as it was, the events and
  whether every event was appended.
\<close>

datatype timeout_answer = TimeoutFailed timeout_error | AlreadyTerminal | TimedOutNow task_snapshot "event list" bool

definition EnforceTaskTimeout_executeLocked :: "task_io \<Rightarrow> task_id \<Rightarrow> go_time \<Rightarrow> task_world \<Rightarrow> task_world \<times> timeout_answer" where
  "EnforceTaskTimeout_executeLocked io tid at w =
     (case load_task io tid w of
        Inl e \<Rightarrow> (w, TimeoutFailed (TimeoutEnforcementError TimeoutEnforcementStageLoad e))
      | Inr n \<Rightarrow>
     (case restore_task n of
        Inl e \<Rightarrow> (w, TimeoutFailed (TimeoutEnforcementError TimeoutEnforcementStageRestore e))
      | Inr t \<Rightarrow>
          if state t \<noteq> StateRunning \<and> state t \<noteq> StateStalled then (w, AlreadyTerminal)
          else
     (case MarkTimedOut (sn_SessionRef n) at t of
        (_, Inl e) \<Rightarrow> (w, TimeoutFailed (TimeoutEnforcementError TimeoutEnforcementStageRestore e))
      | (t, Inr evs) \<Rightarrow>
     (case WithTask n t at of
        Inl e \<Rightarrow> (w, TimeoutFailed (TimeoutEnforcementError TimeoutEnforcementStageRestore e))
      | Inr n' \<Rightarrow>
     (case save_task io tid n' w of
        (w, Some e) \<Rightarrow> (w, TimeoutFailed (TimeoutEnforcementError TimeoutEnforcementStageSave e))
      | (w, None) \<Rightarrow>
          (append_events io tid evs (if sn_State n = StateStalled then leave_stalled tid at w else w),
           TimedOutNow n evs (list_all (io_append io) evs)))))))"

section \<open>The stall check\<close>

definition stallThresholdSeconds :: int where
  "stallThresholdSeconds = 1200"

text \<open>The result tells whether the new snapshot was stored.\<close>

definition checkStall_persist :: "task_io \<Rightarrow> task_id \<Rightarrow> task_snapshot \<Rightarrow> task \<Rightarrow> event list \<Rightarrow> go_time \<Rightarrow> task_world
    \<Rightarrow> task_world \<times> bool" where
  "checkStall_persist io tid n t evs now w =
     (case WithTask n t now of
        Inl e \<Rightarrow> (w, False)
      | Inr n' \<Rightarrow>
     (case save_task io tid n' w of
        (w, Some e) \<Rightarrow> (w, False)
      | (w, None) \<Rightarrow>
          let w = (if sn_State n = StateRunning \<and> sn_State n' = StateStalled
                   then w\<lparr>tw_stalled := EnterStalled tid now (tw_stalled w)\<rparr> else w);
              w = (if sn_State n = StateStalled \<and> sn_State n' = StateOrphaned then leave_stalled tid now w else w)
          in (append_events io tid evs w, True)))"

definition checkStall_orphan :: "task_io \<Rightarrow> task_id \<Rightarrow> task_snapshot \<Rightarrow> task \<Rightarrow> go_time \<Rightarrow> task_world \<Rightarrow> task_world \<times> bool" where
  "checkStall_orphan io tid n t now w =
     (case DetectOrphan ''running'' now t of
        (_, Inl e) \<Rightarrow> (w, False)
      | (t, Inr evs) \<Rightarrow> checkStall_persist io tid n t evs now w)"

definition checkStall_stall :: "task_io \<Rightarrow> task_id \<Rightarrow> task_snapshot \<Rightarrow> task \<Rightarrow> int \<Rightarrow> go_time \<Rightarrow> task_world \<Rightarrow> task_world" where
  "checkStall_stall io tid n t gap now w =
     (case MarkStalled gap now t of
        (_, Inl e) \<Rightarrow> w
      | (t, Inr evs) \<Rightarrow> fst (checkStall_persist io tid n t evs now w))"

definition stall_start :: "task_snapshot \<Rightarrow> go_time option" where
  "stall_start n = (case sn_LastEventAt n of Some at \<Rightarrow> Some at | None \<Rightarrow> sn_ProcessStartedAt n)"

definition stall_gap :: "duration \<Rightarrow> int" where
  "stall_gap elapsed = elapsed div go_second + (if elapsed mod go_second \<noteq> 0 then 1 else 0)"

text \<open>
  \<open>owned\<close> tells that the lifecycle owned the task before or after the lock was taken, \<open>live\<close> is the
  answer of the liveness check and \<open>cancelled\<close> the state of the context after it. The second component
  is the orphan that is handed to the recovery coordinator.
\<close>

definition checkStall_checkOne :: "task_io \<Rightarrow> bool \<Rightarrow> domain_error + bool \<Rightarrow> bool \<Rightarrow> task_id \<Rightarrow> go_time \<Rightarrow> task_world
    \<Rightarrow> task_world \<times> task_snapshot option" where
  "checkStall_checkOne io owned live cancelled tid now w =
     (case load_task io tid w of
        Inl e \<Rightarrow> (w, None)
      | Inr n \<Rightarrow>
     (case restore_task n of
        Inl e \<Rightarrow> (w, None)
      | Inr t \<Rightarrow>
          if state t \<noteq> StateRunning \<and> state t \<noteq> StateStalled then (w, None)
          else
     (case (if owned then Inr False else live) of
        Inl e \<Rightarrow> (w, None)
      | Inr dead \<Rightarrow>
          if cancelled then (w, None)
          else if dead then
            (case checkStall_orphan io tid n t now w of
               (w, persisted) \<Rightarrow> (w, if persisted then Some n else None))
          else
     (case stall_start n of
        None \<Rightarrow> (w, None)
      | Some start \<Rightarrow>
          if time_sub now start \<le> stallThresholdSeconds * go_second then (w, None)
          else (checkStall_stall io tid n t (stall_gap (time_sub now start)) now w, None)))))"

section \<open>Recovery\<close>

record resume_settings =
  rs_Subcommand :: subcommand
  rs_SandboxMode :: string
  rs_Model :: string
  rs_ReasoningEffort :: "string option"
  rs_WorkingDir :: "string option"

definition newResumeSettings :: "task_snapshot \<Rightarrow> resume_settings" where
  "newResumeSettings n = \<lparr>rs_Subcommand = sn_Subcommand n, rs_SandboxMode = sn_SandboxMode n, rs_Model = sn_Model n,
     rs_ReasoningEffort = sn_ReasoningEffort n, rs_WorkingDir = sn_WorkingDir n\<rparr>"

definition failureExitCodeFor :: "recovery_origin \<Rightarrow> exit_code" where
  "failureExitCodeFor origin = (if origin = RecoveryOriginTimeout then NewExitCode 6 else NewExitCode 1)"

definition write_recovered :: "task_io \<Rightarrow> task_id \<Rightarrow> go_time \<Rightarrow> task_world \<Rightarrow> task_world" where
  "write_recovered io tid at w =
     (if io_recovered io \<noteq> None then w else w\<lparr>tw_recovered := (tw_recovered w)(tid \<mapsto> at)\<rparr>)"

definition write_adopted :: "task_io \<Rightarrow> task_id \<Rightarrow> go_time \<Rightarrow> task_world \<Rightarrow> task_world" where
  "write_adopted io tid at w =
     (if io_adopted io \<noteq> None then w else w\<lparr>tw_adopted := (tw_adopted w)(tid \<mapsto> at)\<rparr>)"

text \<open>The exit code of a recovery is written without a look at the file.\<close>

definition overwrite_exit_code :: "task_io \<Rightarrow> task_id \<Rightarrow> exit_code \<Rightarrow> task_world \<Rightarrow> task_world" where
  "overwrite_exit_code io tid code w = w\<lparr>tw_exit := fst (WriteExitCode (\<lambda>_. io_exit_write io) tid code (tw_exit w))\<rparr>"

fun attempted_origin :: "event list \<Rightarrow> recovery_origin" where
  "attempted_origin (RecoveryAttempted _ origin _ _ # _) = origin"
| "attempted_origin _ = RecoveryOriginNone"

definition RecoverViaResume_begin :: "task_io \<Rightarrow> task_id \<Rightarrow> session_ref option \<Rightarrow> go_time \<Rightarrow> task_world
    \<Rightarrow> task_world \<times> (domain_error + recovery_origin \<times> resume_settings)" where
  "RecoverViaResume_begin io tid ref at w =
     (case load_task io tid w of
        Inl e \<Rightarrow> (w, Inl e)
      | Inr n \<Rightarrow>
     (case restore_task n of
        Inl e \<Rightarrow> (w, Inl e)
      | Inr t \<Rightarrow>
     (case BeginRecovery ref at t of
        (_, Inl e) \<Rightarrow> (w, Inl e)
      | (t, Inr evs) \<Rightarrow>
     (case WithTask n t at of
        Inl e \<Rightarrow> (w, Inl e)
      | Inr n' \<Rightarrow>
     (case save_task io tid n' w of
        (w, Some e) \<Rightarrow> (w, Inl e)
      | (w, None) \<Rightarrow> (append_events io tid evs w, Inr (attempted_origin evs, newResumeSettings n)))))))"

record recovery_result =
  rr_Succeeded :: bool
  rr_ExitCode :: exit_code
  rr_PartialOutputSaved :: bool

record recovery_output =
  ro_Succeeded :: bool
  ro_ExitCode :: exit_code
  ro_PartialOutputSaved :: bool
  ro_FinalState :: task_state

text \<open>
  \<open>saved\<close> is the answer of the use case that saves partial output. The result is the output when the
  terminal snapshot was stored.
\<close>

definition finish_op :: "recovery_result \<Rightarrow> bool \<Rightarrow> go_time \<Rightarrow> task \<Rightarrow> task_result" where
  "finish_op result partialSaved at t =
     (if rr_Succeeded result then CompleteRecovery (rr_ExitCode result) at t else FailRecovery partialSaved at t)"

definition finish_commit :: "task_io \<Rightarrow> task_id \<Rightarrow> recovery_result \<Rightarrow> task_snapshot \<Rightarrow> event list \<Rightarrow> go_time \<Rightarrow> task_world
    \<Rightarrow> task_world \<times> bool" where
  "finish_commit io tid result n' evs at w =
     (case save_task io tid n' w of
        (w, Some e) \<Rightarrow> (w, False)
      | (w, None) \<Rightarrow>
          (append_events io tid evs
             (overwrite_exit_code io tid (rr_ExitCode result)
                (if rr_Succeeded result then write_recovered io tid at w else w)), True))"

definition RecoverViaResume_finish :: "task_io \<Rightarrow> task_id \<Rightarrow> recovery_origin \<Rightarrow> recovery_result \<Rightarrow> bool \<Rightarrow> go_time \<Rightarrow> task_world
    \<Rightarrow> task_world \<times> recovery_output option" where
  "RecoverViaResume_finish io tid origin result saved at w =
     (case load_task io tid w of
        Inl e \<Rightarrow> (w, None)
      | Inr n \<Rightarrow>
     (case restore_task n of
        Inl e \<Rightarrow> (w, None)
      | Inr t \<Rightarrow>
          let partialSaved = (if \<not> rr_Succeeded result \<and> origin = RecoveryOriginTimeout then saved
                              else rr_PartialOutputSaved result)
          in
     (case finish_op result partialSaved at t of
        (_, Inl e) \<Rightarrow> (w, None)
      | (t, Inr evs) \<Rightarrow>
     (case WithTask n t at of
        Inl e \<Rightarrow> (w, None)
      | Inr n' \<Rightarrow>
     (case finish_commit io tid result n' evs at w of
        (w, False) \<Rightarrow> (w, None)
      | (w, True) \<Rightarrow>
          (w, Some \<lparr>ro_Succeeded = rr_Succeeded result, ro_ExitCode = rr_ExitCode result,
             ro_PartialOutputSaved = partialSaved, ro_FinalState = state t\<rparr>))))))"

text \<open>A recovery that the previous daemon left unfinished; \<open>n\<close> is the snapshot the caller has just loaded.\<close>

definition recovering_exit :: "bool \<Rightarrow> exit_code" where
  "recovering_exit present = (if present then NewExitCode 0 else NewExitCode 1)"

definition resolve_op :: "bool \<Rightarrow> go_time \<Rightarrow> task \<Rightarrow> task_result" where
  "resolve_op present at t = (if present then CompleteRecovery (recovering_exit present) at t else FailRecovery False at t)"

definition resolveRecoveringLocked :: "task_io \<Rightarrow> task_id \<Rightarrow> task_snapshot \<Rightarrow> bool \<Rightarrow> go_time \<Rightarrow> task_world
    \<Rightarrow> task_world \<times> runtime_error option" where
  "resolveRecoveringLocked io tid n present at w =
     (case restore_task n of
        Inl e \<Rightarrow> (w, Some (DomainErr e))
      | Inr t \<Rightarrow>
     (case resolve_op present at t of
        (_, Inl e) \<Rightarrow> (w, Some (DomainErr e))
      | (t, Inr evs) \<Rightarrow>
     (case WithTask n t at of
        Inl e \<Rightarrow> (w, Some (DomainErr e))
      | Inr n' \<Rightarrow>
     (case CheckExitCode (ReadExitCode (\<lambda>_. io_exit_read io) (tw_exit w) tid) (recovering_exit present) of
        Inl e \<Rightarrow> (w, Some (FatalExitCode e))
      | Inr shouldWrite \<Rightarrow>
          let w = write_adopted io tid at w;
              w = (if present then write_recovered io tid at w else w);
              w = (if shouldWrite then overwrite_exit_code io tid (recovering_exit present) w else w)
          in
     (case save_task io tid (n'\<lparr>sn_AdoptedAfterRestart := True\<rparr>) w of
        (w, Some e) \<Rightarrow> (w, Some (DomainErr e))
      | (w, None) \<Rightarrow> (append_events io tid evs w, None))))))"

definition recoveringFinalState :: "bool \<Rightarrow> task_snapshot \<Rightarrow> task_state" where
  "recoveringFinalState present n =
     (if present then StateRecovered
      else if sn_RecoveryOrigin n = Some RecoveryOriginTimeout then StateTimeoutLost else StateLost)"

text \<open>
  \<open>ctx\<close> answers the checks of the context, in the order of the source: check \<open>i\<close> is the \<open>i\<close>-th place
  where a cancelled context ends the call. The loop over the events has two checks per event.
\<close>

fun appendAdoptionEvents :: "(nat \<Rightarrow> bool) \<Rightarrow> nat \<Rightarrow> task_io \<Rightarrow> task_id \<Rightarrow> event list \<Rightarrow> task_world \<Rightarrow> task_world \<times> bool" where
  "appendAdoptionEvents ctx i io tid [] w = (w, True)"
| "appendAdoptionEvents ctx i io tid (ev # evs) w =
     (if ctx i then (w, False)
      else let w = append_event io tid ev w
           in if ctx (i + 1) then (w, False) else appendAdoptionEvents ctx (i + 2) io tid evs w)"

text \<open>The file writes of \<open>resolveRecoveringLockedWithContext\<close>; the second component is false when the context ended the call.\<close>

definition resolve_files :: "(nat \<Rightarrow> bool) \<Rightarrow> task_io \<Rightarrow> task_id \<Rightarrow> bool \<Rightarrow> bool \<Rightarrow> go_time \<Rightarrow> task_world \<Rightarrow> task_world \<times> bool" where
  "resolve_files ctx io tid present shouldWrite at w =
     (if ctx 2 then (w, False)
      else let w = write_adopted io tid at w
      in if io_adopted io \<noteq> None \<and> ctx 3 \<or> ctx 4 then (w, False)
      else let w = (if present then write_recovered io tid at w else w)
      in if present \<and> io_recovered io \<noteq> None \<and> ctx 5 \<or> ctx 6 then (w, False)
      else let w = (if shouldWrite then overwrite_exit_code io tid (recovering_exit present) w else w)
      in if shouldWrite \<and> io_exit_write io \<noteq> None \<and> ctx 7 \<or> ctx 8 then (w, False)
      else (w, True))"

text \<open>The writes, the save and the events.\<close>

definition resolve_commit :: "(nat \<Rightarrow> bool) \<Rightarrow> task_io \<Rightarrow> task_id \<Rightarrow> task_snapshot \<Rightarrow> bool \<Rightarrow> bool \<Rightarrow> event list \<Rightarrow> go_time
    \<Rightarrow> task_world \<Rightarrow> task_world \<times> runtime_error option \<times> bool" where
  "resolve_commit ctx io tid n' present shouldWrite evs at w =
     (case resolve_files ctx io tid present shouldWrite at w of
        (w, False) \<Rightarrow> (w, None, False)
      | (w, True) \<Rightarrow>
     (case save_task io tid n' w of
        (w, Some e) \<Rightarrow> (w, Some (DomainErr e), True)
      | (w, None) \<Rightarrow>
          if ctx 9 then (w, None, False)
          else (case appendAdoptionEvents ctx 10 io tid evs w of (w, completed) \<Rightarrow> (w, None, completed))))"

definition resolveRecoveringLockedWithContext :: "(nat \<Rightarrow> bool) \<Rightarrow> task_io \<Rightarrow> task_id \<Rightarrow> task_snapshot \<Rightarrow> bool \<Rightarrow> go_time
    \<Rightarrow> task_world \<Rightarrow> task_world \<times> runtime_error option \<times> bool" where
  "resolveRecoveringLockedWithContext ctx io tid n present at w =
     (case restore_task n of
        Inl e \<Rightarrow> (w, Some (DomainErr e), True)
      | Inr t \<Rightarrow>
     (case resolve_op present at t of
        (_, Inl e) \<Rightarrow> (w, Some (DomainErr e), True)
      | (t, Inr evs) \<Rightarrow>
     (case WithTask n t at of
        Inl e \<Rightarrow> (w, Some (DomainErr e), True)
      | Inr n' \<Rightarrow>
          if ctx 0 \<or> ctx 1 then (w, None, False)
          else
     (case CheckExitCode (ReadExitCode (\<lambda>_. io_exit_read io) (tw_exit w) tid) (recovering_exit present) of
        Inl e \<Rightarrow> (w, Some (FatalExitCode e), True)
      | Inr shouldWrite \<Rightarrow>
          resolve_commit ctx io tid (n'\<lparr>sn_AdoptedAfterRestart := True\<rparr>) present shouldWrite evs at w))))"

text \<open>What follows the save of an adoption.\<close>

definition adopt_saved :: "(nat \<Rightarrow> bool) \<Rightarrow> task_io \<Rightarrow> task_id \<Rightarrow> task_snapshot \<Rightarrow> go_time \<Rightarrow> event list \<Rightarrow> task_world \<Rightarrow> task_world \<times> bool" where
  "adopt_saved ctx io tid n at evs w =
     (if ctx 4 then (w, False)
      else let w = (if sn_State n = StateStalled then leave_stalled tid at w else w)
      in if ctx 5 then (w, False)
      else let w = write_adopted io tid at w
      in if io_adopted io \<noteq> None \<and> ctx 6 then (w, False)
      else appendAdoptionEvents ctx 7 io tid evs w)"

text \<open>
  The adoption of a task that was starting, running or stalled when the daemon stopped, after it was
  loaded as \<open>n\<close>. The answer is \<open>None\<close> when the context ended the call, else an error or whether the
  process was found dead.
\<close>

definition adopt_live_locked :: "(nat \<Rightarrow> bool) \<Rightarrow> task_io \<Rightarrow> domain_error + bool \<Rightarrow> task_id \<Rightarrow> task_snapshot \<Rightarrow> go_time \<Rightarrow> task_world
    \<Rightarrow> task_world \<times> (domain_error + bool) option" where
  "adopt_live_locked ctx io live tid n at w =
     (if ctx 0 \<or> ctx 1 then (w, None)
      else
     (case live of
        Inl e \<Rightarrow> (w, Some (Inl e))
      | Inr dead \<Rightarrow>
     (case restore_task n of
        Inl e \<Rightarrow> (w, Some (Inl e))
      | Inr t \<Rightarrow>
     (case Adopt dead at t of
        (_, Inl e) \<Rightarrow> (w, Some (Inl e))
      | (t, Inr evs) \<Rightarrow>
     (case WithTask n t at of
        Inl e \<Rightarrow> (w, Some (Inl e))
      | Inr n' \<Rightarrow>
          if ctx 2 then (w, None)
          else
     (case save_task io tid n' w of
        (w, Some e) \<Rightarrow> (w, if ctx 3 then None else Some (Inl e))
      | (w, None) \<Rightarrow>
          (case adopt_saved ctx io tid n at evs w of (w, completed) \<Rightarrow> (w, if completed then Some (Inr dead) else None))))))))"

definition adoptionStates :: "task_state list" where
  "adoptionStates = [StateStarting, StateRunning, StateStalled, StateRecovering, StateTimeout, StateOrphaned, StateCancelling]"

definition isAdoptionState :: "task_state \<Rightarrow> bool" where
  "isAdoptionState s = list_ex (\<lambda>c. s = c) adoptionStates"

section \<open>Cancellation\<close>

text \<open>The cancel request of a stored task whose snapshot \<open>n\<close> was just loaded.\<close>

definition request_cancel_locked :: "task_io \<Rightarrow> task_id \<Rightarrow> bool \<Rightarrow> task_snapshot \<Rightarrow> go_time \<Rightarrow> task_world
    \<Rightarrow> task_world \<times> (domain_error + event list)" where
  "request_cancel_locked io tid force n at w =
     (case restore_task n of
        Inl e \<Rightarrow> (w, Inl e)
      | Inr t \<Rightarrow>
     (case RequestCancel force at t of
        (_, Inl e) \<Rightarrow> (w, Inl e)
      | (t, Inr evs) \<Rightarrow>
     (case WithTask n t at of
        Inl e \<Rightarrow> (w, Inl e)
      | Inr n' \<Rightarrow>
     (case save_task io tid n' w of
        (w, Some e) \<Rightarrow> (w, Inl e)
      | (w, None) \<Rightarrow>
          (append_events io tid (take 1 evs) (if sn_State n = StateStalled then leave_stalled tid at w else w), Inr evs)))))"

text \<open>The cancel request of a task that waits in the queue: its first snapshot is written.\<close>

definition cancel_queued_locked :: "task_io \<Rightarrow> bool \<Rightarrow> task \<Rightarrow> timeout \<Rightarrow> string \<Rightarrow> string option \<Rightarrow> string \<Rightarrow> string option
    \<Rightarrow> task_id \<Rightarrow> go_time \<Rightarrow> task_world \<Rightarrow> task_world \<times> (domain_error + event list)" where
  "cancel_queued_locked io force t to mdl effort sandbox wd tid at w =
     (case RequestCancel force at t of
        (_, Inl e) \<Rightarrow> (w, Inl e)
      | (t, Inr evs) \<Rightarrow>
     (case NewTaskSnapshotFromAdmission (Some t) to mdl effort sandbox wd ExecutionRouteDaemon at of
        Inl e \<Rightarrow> (w, Inl e)
      | Inr n \<Rightarrow>
     (case save_task io tid n w of
        (w, Some e) \<Rightarrow> (w, Inl e)
      | (w, None) \<Rightarrow> (append_events io tid (take 1 evs) w, Inr evs))))"

text \<open>
  \<open>prepareStartingClaim\<close> stores the process of a task that was cancelled before its process was recorded.
  \<open>current\<close> tells whether the lifecycle still owns the task under the expected generation.
\<close>

definition prepareStartingClaim :: "task_io \<Rightarrow> task_id \<Rightarrow> (int \<times> go_time) option \<Rightarrow> bool \<Rightarrow> task_world \<Rightarrow> task_world \<times> bool" where
  "prepareStartingClaim io tid handle current w =
     (case load_task io tid w of
        Inl e \<Rightarrow> (w, False)
      | Inr n \<Rightarrow>
     (case handle of
        None \<Rightarrow> (w, False)
      | Some (pid, startedAt) \<Rightarrow>
          if sn_State n \<noteq> StateCancelling \<or> \<not> current
             \<or> sn_PID n \<noteq> None \<and> (sn_PID n \<noteq> Some pid \<or> sn_ProcessStartedAt n \<noteq> Some startedAt)
          then (w, False)
          else if sn_PID n \<noteq> None then (w, True)
          else (case save_task io tid (n\<lparr>sn_PID := Some pid, sn_ProcessStartedAt := Some startedAt\<rparr>) w of
                  (w, Some e) \<Rightarrow> (w, False)
                | (w, None) \<Rightarrow> (w, True))))"

section \<open>Safe changes\<close>

text \<open>What the clients of a task see: the stored snapshot and the recorded exit code of every task.\<close>

definition disks :: "task_world \<Rightarrow> task_id \<rightharpoonup> task_snapshot" where
  "disks w = disk_snapshot (tw_store w)"

definition codes :: "task_world \<Rightarrow> task_id \<rightharpoonup> int" where
  "codes w = file_recorded (tw_exit w)"

definition coded_state :: "task_state \<Rightarrow> bool" where
  "coded_state s \<longleftrightarrow> s = StateCompleted \<or> s = StateFailed \<or> s = StateKilled"

definition code_agrees :: "task_snapshot \<Rightarrow> int option \<Rightarrow> bool" where
  "code_agrees n code \<longleftrightarrow> (\<exists>c. sn_ExitCode n = Some c \<and> code = Some (ec_raw c))"

text \<open>
  A step of one task leaves the others alone, changes nothing of a task that is stored as terminal; a
  task it stores as completed, failed or killed has the exit code of its snapshot on disk, and it does not
  bring a task into one of the states that exist only in memory, waiting and just adopted.
\<close>

definition stored_state :: "task_state \<Rightarrow> bool" where
  "stored_state s \<longleftrightarrow> s \<noteq> StateQueued \<and> s \<noteq> StateAdopted"

definition same_or_stored :: "task_world \<Rightarrow> task_id \<Rightarrow> task_snapshot \<Rightarrow> bool" where
  "same_or_stored w tid n \<longleftrightarrow> stored_state (sn_State n) \<or> (\<exists>m. disks w tid = Some m \<and> sn_State m = sn_State n)"

definition frozen :: "task_world \<Rightarrow> task_id \<Rightarrow> bool" where
  "frozen w tid \<longleftrightarrow> (\<exists>n. disks w tid = Some n \<and> terminal (sn_State n))"

definition safe_change :: "task_id \<Rightarrow> task_world \<Rightarrow> task_world \<Rightarrow> bool" where
  "safe_change tid w w' \<longleftrightarrow>
     (\<forall>x. x \<noteq> tid \<or> frozen w tid \<longrightarrow> disks w' x = disks w x \<and> codes w' x = codes w x)
     \<and> (\<forall>n. disks w' tid = Some n \<and> disks w tid \<noteq> Some n \<and> coded_state (sn_State n) \<longrightarrow> code_agrees n (codes w' tid))
     \<and> (\<forall>n. disks w' tid = Some n \<longrightarrow> same_or_stored w tid n)"

named_theorems views

lemma view_updates [views]:
  "disks (w\<lparr>tw_log := l\<rparr>) = disks w" "codes (w\<lparr>tw_log := l\<rparr>) = codes w"
  "disks (w\<lparr>tw_prompts := p\<rparr>) = disks w" "codes (w\<lparr>tw_prompts := p\<rparr>) = codes w"
  "disks (w\<lparr>tw_recovered := m\<rparr>) = disks w" "codes (w\<lparr>tw_recovered := m\<rparr>) = codes w"
  "disks (w\<lparr>tw_adopted := m\<rparr>) = disks w" "codes (w\<lparr>tw_adopted := m\<rparr>) = codes w"
  "disks (w\<lparr>tw_stalled := s\<rparr>) = disks w" "codes (w\<lparr>tw_stalled := s\<rparr>) = codes w"
  "disks (w\<lparr>tw_exit := f\<rparr>) = disks w" "codes (w\<lparr>tw_store := d\<rparr>) = codes w"
  by (simp_all add: disks_def codes_def)

lemma append_event_view [views]: "disks (append_event io tid ev w) = disks w" "codes (append_event io tid ev w) = codes w"
  by (simp_all add: append_event_def views)

lemma append_events_view [views]: "disks (append_events io tid evs w) = disks w" "codes (append_events io tid evs w) = codes w"
  unfolding append_events_def by (induction evs arbitrary: w) (simp_all add: views)

lemma append_raw_view [views]: "disks (append_raw io tid k r w) = disks w" "codes (append_raw io tid k r w) = codes w"
  by (simp_all add: append_raw_def views)

lemma marker_view [views]:
  "disks (write_recovered io tid at w) = disks w" "codes (write_recovered io tid at w) = codes w"
  "disks (write_adopted io tid at w) = disks w" "codes (write_adopted io tid at w) = codes w"
  "disks (leave_stalled tid at w) = disks w" "codes (leave_stalled tid at w) = codes w"
  "disks (overwrite_exit_code io tid c w) = disks w"
  by (simp_all add: write_recovered_def write_adopted_def leave_stalled_def overwrite_exit_code_def views)

lemma adoption_events_view [views]:
  "disks (fst (appendAdoptionEvents ctx i io tid evs w)) = disks w"
  "codes (fst (appendAdoptionEvents ctx i io tid evs w)) = codes w"
  by (induction ctx i io tid evs w rule: appendAdoptionEvents.induct) (simp_all add: views Let_def)

lemma overwrite_exit_code_others: "x \<noteq> tid \<Longrightarrow> codes (overwrite_exit_code io tid c w) x = codes w x"
  by (auto simp: overwrite_exit_code_def codes_def WriteExitCode_def file_recorded_def split: option.splits)

lemma write_exit_code_view:
  assumes "write_exit_code io tid c w = (w', we, fe)"
  shows "disks w' = disks w" and "x \<noteq> tid \<Longrightarrow> codes w' x = codes w x"
    and "in_int64 (ec_raw c) \<Longrightarrow> we = None \<Longrightarrow> fe = None \<Longrightarrow> codes w' tid = Some (ec_raw c)"
proof -
  obtain files where f: "WriteExitCodeIdempotently (ReadExitCode (\<lambda>_. io_exit_read io)) (WriteExitCode (\<lambda>_. io_exit_write io))
      tid c (tw_exit w) = (files, we, fe)" and w': "w' = w\<lparr>tw_exit := files\<rparr>"
    using assms by (auto simp: write_exit_code_def split: prod.splits)
  then show "disks w' = disks w" by (simp add: views)
  show "codes w' x = codes w x" if "x \<noteq> tid"
    using f w' that
    by (auto simp: codes_def WriteExitCodeIdempotently_def WriteExitCode_def file_recorded_def
        split: sum.splits if_splits option.splits prod.splits)
  show "codes w' tid = Some (ec_raw c)" if "in_int64 (ec_raw c)" and "we = None" and "fe = None"
    using exit_file.guarded_write [OF that(1) f] that w' by (simp add: codes_def)
qed

lemma save_task_view:
  assumes "save_task io tid n w = (w', r)"
  shows "codes w' = codes w" and "disks w' = (if r = None then (disks w)(tid \<mapsto> n) else disks w)"
  using assms file_tasks.save_stores file_tasks.save_refused
  by (auto simp: save_task_def disks_def codes_def split: prod.splits)

lemma safe_same_view: "disks w' = disks w \<Longrightarrow> codes w' = codes w \<Longrightarrow> safe_change tid w w'"
  by (auto simp: safe_change_def same_or_stored_def)

lemma safe_refl [simp]: "safe_change tid w w"
  by (auto simp: safe_change_def same_or_stored_def)

lemma safe_change_views [views]:
  "safe_change tid w (append_events io x evs w1) = safe_change tid w w1"
  "safe_change tid w (append_raw io x k r w1) = safe_change tid w w1"
  "safe_change tid w (leave_stalled x at w1) = safe_change tid w w1"
  "safe_change tid w (write_recovered io x at w1) = safe_change tid w w1"
  "safe_change tid w (write_adopted io x at w1) = safe_change tid w w1"
  "safe_change tid w (w1\<lparr>tw_stalled := s\<rparr>) = safe_change tid w w1"
  "safe_change tid w (fst (appendAdoptionEvents ctx i io x evs w1)) = safe_change tid w w1"
  by (simp_all add: safe_change_def views)

lemma loaded_frozen:
  assumes "load_task io tid w = Inr n" and "restore_task n = Inr t"
  shows "frozen w tid \<longleftrightarrow> terminal (state t)" and "id t = tid"
  using file_tasks.load_stored assms restore_task_sel
  by (auto simp: frozen_def disks_def load_task_def)

lemma op_not_frozen:
  assumes "load_task io tid w = Inr n" and "restore_task n = Inr t" and "run_op c t = (t', Inr evs)"
  shows "\<not> frozen w tid"
  using loaded_frozen(1) [OF assms(1,2)] run_op_closing [OF assms(3)] by simp

text \<open>Only the exit code of the task changed, and nothing that is stored.\<close>

lemma safe_code:
  assumes "\<not> frozen w tid" and "disks w1 = disks w" and "\<forall>x. x \<noteq> tid \<longrightarrow> codes w1 x = codes w x"
  shows "safe_change tid w w1"
  using assms by (auto simp: safe_change_def same_or_stored_def)

lemma safe_stored:
  assumes "\<not> frozen w tid" and "disks w1 = disks w" and "\<forall>x. x \<noteq> tid \<longrightarrow> codes w1 x = codes w x"
    and "save_task io tid n' w1 = (w2, r)" and "coded_state (sn_State n') \<Longrightarrow> code_agrees n' (codes w1 tid)"
    and "same_or_stored w tid n'"
  shows "safe_change tid w w2"
  using assms(1,2,3,5,6) save_task_view [OF assms(4)] by (auto simp: safe_change_def same_or_stored_def split: if_splits)

lemma terminal_stored: "terminal s \<Longrightarrow> stored_state s"
  by (cases s) (simp_all add: stored_state_def)

fun coding_op :: "task_op \<Rightarrow> bool" where
  "coding_op (OpRecordExit _ _ _ _ _) = True"
| "coding_op (OpConfirmKilled _ _ _) = True"
| "coding_op _ = False"

lemma open_op: "run_op c t = (t', Inr evs) \<Longrightarrow> \<not> coding_op c \<Longrightarrow> coded_state (state t') \<Longrightarrow> False"
  using run_op_closing [of c t t' evs]
  by (cases c) (auto simp: go_simps coded_state_def split: if_splits)

fun requeue_op :: "task_op \<Rightarrow> bool" where
  "requeue_op (OpRequeue _ _) = True"
| "requeue_op _ = False"

lemma run_op_stored: "run_op c t = (t', Inr evs) \<Longrightarrow> \<not> requeue_op c \<Longrightarrow> stored_state (state t') \<or> state t' = state t"
  by (cases c) (auto simp: go_simps stored_state_def split: if_splits)

lemma op_stored:
  assumes "load_task io tid w = Inr n" and "restore_task n = Inr t" and "run_op c t = (t', Inr evs)"
    and "\<not> requeue_op c" and "WithTask n t' at = Inr n'"
  shows "same_or_stored w tid n'"
  using run_op_stored [OF assms(3,4)] restore_task_sel(2) [OF assms(2)] assms(1,5) file_tasks.load_stored
  by (auto simp: same_or_stored_def WithTask_Inr load_task_def disks_def)

lemma safe_op:
  assumes "load_task io tid w = Inr n" and "restore_task n = Inr t" and "run_op c t = (t', Inr evs)"
    and "\<not> coding_op c" and "\<not> requeue_op c" and "WithTask n t' at = Inr n'" and "save_task io' tid n' w = (w2, r)"
  shows "safe_change tid w w2"
  using safe_stored [OF op_not_frozen [OF assms(1-3)] refl _ assms(7)] open_op [OF assms(3,4)] op_stored [OF assms(1-3,5,6)] assms(6)
  by (auto simp: WithTask_Inr)

lemmas handler_splits = sum.splits prod.splits option.splits

section \<open>Every use case is safe\<close>

lemma RecordTaskProcess_safe: "safe_change tid w (fst (RecordTaskProcess_Execute io tid pid st now w))"
  by (auto simp: RecordTaskProcess_Execute_def views split: handler_splits
      intro: safe_op [where c = "OpRecordProcessInfo pid st now", simplified])

lemma ConfirmTaskRunning_safe: "safe_change tid w (fst (ConfirmTaskRunning_Execute io live tid at w))"
  by (auto simp: ConfirmTaskRunning_Execute_def views split: handler_splits if_splits
      intro: safe_op [where c = "OpDetectOrphan ''starting'' at", simplified] safe_op [where c = "OpConfirmRunning at", simplified])

lemma observeKnown_safe: "safe_change tid w (MonitorTaskEvents_observeKnown io tid kind raw now w)"
  by (auto simp: MonitorTaskEvents_observeKnown_def views split: handler_splits
      intro: safe_op [where c = "OpObserveEvent kind now", simplified])

lemma EnforceTaskTimeout_safe: "safe_change tid w (fst (EnforceTaskTimeout_executeLocked io tid at w))"
  by (auto simp: EnforceTaskTimeout_executeLocked_def views split: handler_splits
      intro: safe_op [where c = "OpMarkTimedOut ref at" for ref, simplified])

lemma begin_safe: "safe_change tid w (fst (RecoverViaResume_begin io tid ref at w))"
  by (auto simp: RecoverViaResume_begin_def views split: handler_splits
      intro: safe_op [where c = "OpBeginRecovery ref at", simplified])

lemma request_cancel_safe:
  assumes "load_task io tid w = Inr n"
  shows "safe_change tid w (fst (request_cancel_locked io' tid force n at w))"
  by (auto simp: request_cancel_locked_def views split: handler_splits
      intro: safe_op [OF assms, where c = "OpRequestCancel force at", simplified])


lemma checkStall_persist_safe:
  assumes "load_task io tid w = Inr n" and "restore_task n = Inr t" and "run_op c t = (t', Inr evs)" and "\<not> coding_op c"
    and "\<not> requeue_op c"
  shows "safe_change tid w (fst (checkStall_persist io' tid n t' evs now w))"
  by (auto simp: checkStall_persist_def views Let_def split: handler_splits intro: safe_op [OF assms])

lemma checkOne_safe: "safe_change tid w (fst (checkStall_checkOne io owned live cancelled tid now w))"
proof -
  have orphan: "safe_change tid w w2" if "load_task io tid w = Inr n" "restore_task n = Inr t"
    "checkStall_orphan io tid n t now w = (w2, r)" for n t w2 r
    using that checkStall_persist_safe [OF that(1,2), where c = "OpDetectOrphan ''running'' now", simplified]
    by (auto simp: checkStall_orphan_def split: handler_splits) (metis fst_conv)
  have stall: "safe_change tid w (checkStall_stall io tid n t gap now w)"
    if "load_task io tid w = Inr n" "restore_task n = Inr t" for n t gap
    using that checkStall_persist_safe [OF that, where c = "OpMarkStalled gap now", simplified]
    by (auto simp: checkStall_stall_def split: handler_splits)
  show ?thesis
    using orphan stall by (auto simp: checkStall_checkOne_def split: handler_splits)
qed

lemma adopt_saved_view: "safe_change tid w (fst (adopt_saved ctx io x n at evs w1)) = safe_change tid w w1"
  by (simp add: adopt_saved_def Let_def views)

lemma adopt_live_safe:
  assumes "load_task io tid w = Inr n"
  shows "safe_change tid w (fst (adopt_live_locked ctx io' live tid n at w))"
proof -
  have saved: "safe_change tid w w2"
    if "restore_task n = Inr t" "Adopt dead at t = (t', Inr evs)" "WithTask n t' at = Inr n'"
      "save_task io' tid n' w = (w2, r)" for dead t t' evs n' w2 r
    using that by (intro safe_op [OF assms, where c = "OpAdopt dead at"]) auto
  have after: "safe_change tid w w3"
    if "safe_change tid w w2" and "adopt_saved ctx io' tid n at evs w2 = (w3, b)" for w2 w3 evs b
    using that adopt_saved_view [of tid w ctx io' tid n at evs w2] by simp
  show ?thesis
    unfolding adopt_live_locked_def by (auto split: handler_splits intro: saved after)
qed

lemma prepareStartingClaim_safe: "safe_change tid w (fst (prepareStartingClaim io tid handle current w))"
proof -
  have "safe_change tid w w2"
    if "load_task io tid w = Inr n" "sn_State n = StateCancelling" "save_task io tid n' w = (w2, r)" "sn_State n' = sn_State n"
    for n n' w2 r
    using that file_tasks.load_stored by (intro safe_stored [OF _ refl _ that(3)]) (auto simp: frozen_def disks_def coded_state_def same_or_stored_def stored_state_def load_task_def)
  then show ?thesis
    by (auto simp: prepareStartingClaim_def split: handler_splits)
qed


text \<open>The first snapshot of a task is written only while none is stored.\<close>

lemma unstored_not_frozen: "disks w tid = None \<Longrightarrow> \<not> frozen w tid"
  by (simp add: frozen_def)

lemma write_prompt_view: "write_prompt io tid text w = (w', r) \<Longrightarrow> disks w' = disks w \<and> codes w' = codes w"
  by (auto simp: write_prompt_def views split: if_splits)

lemma RecordTaskStarting_safe:
  assumes "disks w (id t) = None"
  shows "safe_change (id t) w (fst (RecordTaskStarting_Execute io t to mdl effort sandbox wd route prompt now w))"
proof -
  have saved: "safe_change (id t) w w3"
    if "Start to mdl now t = (t', Inr evs)" "write_prompt io (id t') prompt w = (w2, r1)"
      "WithTask n0 t' now = Inr n" "save_task io (id t') n w2 = (w3, r)" for t' evs w2 r1 n0 n w3 r
    using that write_prompt_view [OF that(2)] unstored_not_frozen [OF assms]
    by (intro safe_stored [where io = io and n' = n and r = r]) (auto simp: go_simps WithTask_Inr coded_state_def same_or_stored_def stored_state_def)
  have prompt: "safe_change (id t) w w2" if "write_prompt io x prompt w = (w2, r)" for x w2 r
    using write_prompt_view [OF that] by (simp add: safe_same_view)
  show ?thesis
    by (auto simp: RecordTaskStarting_Execute_def split: handler_splits intro: saved prompt)
qed

lemma cancel_queued_safe:
  assumes "disks w tid = None"
  shows "safe_change tid w (fst (cancel_queued_locked io force t to mdl effort sandbox wd tid at w))"
proof -
  have "safe_change tid w w2"
    if "RequestCancel force at t = (t', Inr evs)"
      "NewTaskSnapshotFromAdmission (Some t') to mdl effort sandbox wd ExecutionRouteDaemon at = Inr n"
      "save_task io tid n w = (w2, r)" for t' evs n w2 r
    using that unstored_not_frozen [OF assms]
    by (intro safe_stored [OF _ refl _ that(3)])
      (auto simp: go_simps NewTaskSnapshotFromAdmission_def Let_def coded_state_def same_or_stored_def stored_state_def split: option.splits)
  then show ?thesis by (auto simp: cancel_queued_locked_def views split: handler_splits)
qed

text \<open>The terminal write: the exit code first, then the snapshot that carries it.\<close>

lemma writeTerminalState_safe:
  assumes "\<not> frozen w0 tid" and "disks w = disks w0" and "\<forall>x. x \<noteq> tid \<longrightarrow> codes w x = codes w0 x"
    and "in_int64 (ec_raw c)" and "exitCode t = Some c \<and> terminal (state t)" and "writeTerminalState io tid c t n evs at w = (w', r)"
  shows "safe_change tid w0 w'" and "r \<noteq> Persisted \<Longrightarrow> disks w' = disks w0"
    and "x \<noteq> tid \<Longrightarrow> codes w' x = codes w0 x"
    and "r = Persisted \<Longrightarrow> \<exists>n'. disks w' tid = Some n' \<and> sn_State n' = state t \<and> sn_ExitCode n' = Some c
           \<and> codes w' tid = Some (ec_raw c)"
proof -
  obtain w1 we fe where e: "write_exit_code io tid c w = (w1, we, fe)" by (cases "write_exit_code io tid c w") auto
  note v = write_exit_code_view [OF e]
  have w1: "safe_change tid w0 w1" using assms(1-3) v by (intro safe_code) simp_all
  have saved: "safe_change tid w0 w2" "codes w2 x = codes w1 x" "r = Some y \<Longrightarrow> disks w2 = disks w1"
      "r = None \<Longrightarrow> disks w2 tid = Some n'"
    if "we = None" "fe = None" "WithTask n t at = Inr n'" "save_task io tid n' w1 = (w2, r)" for n' w2 r x y
  proof -
    show "safe_change tid w0 w2"
      using assms(1-5) v that
      by (intro safe_stored [OF _ _ _ that(4)]) (auto simp: code_agrees_def WithTask_Inr same_or_stored_def terminal_stored)
  qed (use save_task_view [OF that(4)] in auto)
  have cases: "(w' = w1 \<and> r \<noteq> Persisted) \<or> we = None \<and> fe = None
      \<and> (\<exists>n' w2 s. WithTask n t at = Inr n' \<and> save_task io tid n' w1 = (w2, s)
          \<and> (if s = None then w' = append_events io tid evs w2 \<and> r = Persisted else w' = w2 \<and> r \<noteq> Persisted))"
    using assms(6) by (auto simp: writeTerminalState_def e split: handler_splits)
  show "safe_change tid w0 w'"
    using cases w1 saved(1) by (auto simp: views split: if_splits)
  show "disks w' = disks w0" if "r \<noteq> Persisted"
    using cases that assms(2) v(1) saved(3) by (auto split: if_splits)
  show "codes w' x = codes w0 x" if "x \<noteq> tid"
    using cases v(2) [OF that] assms(3) that saved(2) by (auto simp: views split: if_splits)
  show "\<exists>n'. disks w' tid = Some n' \<and> sn_State n' = state t \<and> sn_ExitCode n' = Some c \<and> codes w' tid = Some (ec_raw c)"
    if "r = Persisted"
    using cases that saved(2,4) v(3) assms(4,5) by (auto simp: views WithTask_Inr split: if_splits)
qed


lemma persistedFinalizeResult_view:
  assumes "persistedFinalizeResult tid previous t evs at werr w = (w', r)"
  shows "disks w' = disks w \<and> codes w' = codes w \<and> fr_ResultState r = state t \<and> fr_TerminalPersisted r \<and> fr_RecordExited r"
  using assms
  by (auto simp: persistedFinalizeResult_def Let_def exited_result_def fr_TerminalPersisted_def views split: prod.splits if_splits)

lemma exited_result_sel [simp]:
  "fr_RecordExited (exited_result t evs e)" "\<not> fr_TerminalPersisted (exited_result t evs e)"
  by (simp_all add: exited_result_def fr_TerminalPersisted_def)

text \<open>What a finalization that recorded an exit leaves behind.\<close>

definition finalized :: "task_world \<Rightarrow> finalize_input \<Rightarrow> task_world \<Rightarrow> finalize_result \<Rightarrow> runtime_error option \<Rightarrow> bool" where
  "finalized w0 inp w' r err \<longleftrightarrow>
     safe_change (fi_TaskID inp) w0 w' \<and> (fr_TerminalPersisted r \<longleftrightarrow> err = None) \<and> fr_RecordExited r
     \<and> (if fr_TerminalPersisted r
        then \<exists>n. disks w' (fi_TaskID inp) = Some n \<and> sn_State n = fr_ResultState r \<and> terminal (sn_State n)
               \<and> sn_ExitCode n = Some (NewExitCode (fi_RawExitCode inp)) \<and> codes w' (fi_TaskID inp) = Some (fi_RawExitCode inp)
        else disks w' = disks w0)"

lemma NewExitCode_raw [simp]: "ec_raw (NewExitCode c) = c"
  by (simp add: NewExitCode_def)

lemma RecordExit_coded:
  "RecordExit c l e a at t = (t', Inr evs) \<Longrightarrow> exitCode t' = Some c \<and> terminal (state t') \<and> \<not> terminal (state t)"
  by (auto simp: go_simps)

lemma finalize_retry_outcome:
  assumes "\<not> frozen w0 (fi_TaskID inp)" and "disks w = disks w0" and "\<forall>x. x \<noteq> fi_TaskID inp \<longrightarrow> codes w x = codes w0 x"
    and "in_int64 (fi_RawExitCode inp)" and "finalize_retry io inp t evs fail w = (w', r, err)"
  shows "finalized w0 inp w' r err"
proof -
  have stop: "finalized w0 inp w (exited_result t evs (Some fail)) (Some e)" for e
    using assms(1-3) by (auto simp: finalized_def intro: safe_code)
  have wrote: "finalized w0 inp w'' res er"
    if "RecordExit (NewExitCode (fi_RawExitCode inp)) False (fi_Estimated inp) (fi_AdoptedAfterRestart inp) (fi_OccurredAt inp) rt = (rt', Inr revs)"
      "writeTerminalState io (fi_TaskID inp) (NewExitCode (fi_RawExitCode inp)) rt' n revs (fi_OccurredAt inp) w = (w1, out)"
      "(if out = Persisted
        then persistedFinalizeResult (fi_TaskID inp) (state rt) rt' revs (fi_OccurredAt inp) (Some fail) w1 = (w'', res) \<and> er = None
        else w'' = w1 \<and> res = exited_result rt' revs (Some fail) \<and> er \<noteq> None)" for rt rt' revs n w1 out w'' res er
    using that writeTerminalState_safe [OF assms(1-3) _ _ that(2)] assms(4) RecordExit_coded [OF that(1)]
      persistedFinalizeResult_view [of "fi_TaskID inp" "state rt" rt' revs "fi_OccurredAt inp" "Some fail" w1 w'' res]
    by (auto simp: finalized_def safe_change_def split: if_splits)
  show ?thesis
    using assms(5) stop wrote
    by (auto simp: finalize_retry_def Let_def split: handler_splits write_outcome.splits)
qed


lemma FinalizeTask_outcome:
  assumes "in_int64 (fi_RawExitCode inp)" and "FinalizeTask_executeLocked io1 io2 inp present w = (w', r, err)"
  shows "finalized w inp w' r err \<or> w' = w \<and> r = no_result \<and> err \<noteq> None"
proof -
  let ?tid = "fi_TaskID inp" and ?code = "NewExitCode (fi_RawExitCode inp)" and ?at = "fi_OccurredAt inp"
  have wrote: "finalized w inp w'' res er"
    if l: "load_task io1 ?tid w = Inr n" "restore_task n = Inr t"
      and x: "RecordExit ?code present (fi_Estimated inp) (fi_AdoptedAfterRestart inp) ?at t = (t', Inr evs)"
      and wt: "writeTerminalState io1 ?tid ?code t' n evs ?at w = (w1, out)"
      and out: "case out of
         Persisted \<Rightarrow> persistedFinalizeResult ?tid (state t) t' evs ?at None w1 = (w'', res) \<and> er = None
       | NonRetryable e \<Rightarrow> w'' = w1 \<and> res = exited_result t' evs None \<and> er = Some e
       | Retryable e \<Rightarrow> finalize_retry io2 inp t' evs e w1 = (w'', res, er)" for n t t' evs w1 out w'' res er
  proof -
    have nf: "\<not> frozen w ?tid" using loaded_frozen(1) [OF l] RecordExit_coded [OF x] by simp
    note ws = writeTerminalState_safe [OF nf refl _ _ _ wt]
    show ?thesis
    proof (cases out)
      case Persisted
      then show ?thesis
        using ws assms(1) RecordExit_coded [OF x] out persistedFinalizeResult_view [of ?tid "state t" t' evs ?at None w1 w'' res]
        by (auto simp: finalized_def safe_change_def)
    next
      case (Retryable e)
      then show ?thesis
        using ws assms(1) RecordExit_coded [OF x] out
        by (intro finalize_retry_outcome [OF nf]) auto
    next
      case (NonRetryable e)
      then show ?thesis
        using ws assms(1) RecordExit_coded [OF x] out by (auto simp: finalized_def)
    qed
  qed
  show ?thesis
    using assms(2) wrote
    by (fastforce simp: FinalizeTask_executeLocked_def Let_def split: sum.splits prod.splits write_outcome.splits)
qed

lemma FinalizeTask_safe:
  assumes "in_int64 (fi_RawExitCode inp)"
  shows "safe_change (fi_TaskID inp) w (fst (FinalizeTask_executeLocked io1 io2 inp present w))"
proof -
  obtain w' r err where x: "FinalizeTask_executeLocked io1 io2 inp present w = (w', r, err)" by (rule prod_cases3)
  show ?thesis using FinalizeTask_outcome [OF assms x] x by (auto simp: finalized_def)
qed

lemma ConfirmTaskKilled_safe:
  assumes "in_int64 raw"
  shows "safe_change tid w (fst (ConfirmTaskKilled_ExecuteLocked io tid raw estimated at w))"
proof -
  have kill: "exitCode t' = Some (NewExitCode raw) \<and> terminal (state t')" "\<not> frozen w tid"
    if "load_task io tid w = Inr n" "restore_task n = Inr t" "ConfirmKilled (NewExitCode raw) estimated at t = (t', Inr evs)" for n t t' evs
    using loaded_frozen(1) [OF that(1,2)] that(3) by (auto simp: go_simps)
  have code: "safe_change tid w w1" if "\<not> frozen w tid" "write_exit_code io tid c w = (w1, we, fe)" for c w1 we fe
    using that write_exit_code_view [OF that(2)] by (intro safe_code) auto
  have saved: "safe_change tid w w2"
    if "\<not> frozen w tid" "exitCode t' = Some (NewExitCode raw) \<and> terminal (state t')" "write_exit_code io tid (NewExitCode raw) w = (w1, None, None)"
      "WithTask n t' at = Inr n'" "save_task io tid n' w1 = (w2, r)" for t' w1 n n' w2 r
    using that write_exit_code_view [OF that(3)] assms
    by (intro safe_stored [OF _ _ _ that(5)]) (auto simp: code_agrees_def WithTask_Inr same_or_stored_def terminal_stored)
  show ?thesis
    by (auto simp: ConfirmTaskKilled_ExecuteLocked_def Let_def views split: handler_splits intro: code saved dest: kill)
qed


lemma set_failure_code_sel:
  "set_failure_code code n = Inr n' \<Longrightarrow> sn_State n' = sn_State n \<and> sn_ExitCode n' = sn_ExitCode n"
  by (auto simp: set_failure_code_def Let_def split: if_splits option.splits)

lemma persist_launch_failure_safe:
  assumes "\<not> frozen w (id (fl_Task inp))" and "exitCode t = Some (NewExitCode 1) \<and> terminal (state t)"
  shows "safe_change (id (fl_Task inp)) w (fst (persist_launch_failure io inp loaded t evs w))"
proof -
  let ?tid = "id (fl_Task inp)"
  have code: "safe_change ?tid w w1" if "write_exit_code io ?tid (NewExitCode 1) w = (w1, we, fe)" for w1 we fe
    using assms(1) write_exit_code_view [OF that] by (intro safe_code) auto
  have saved: "safe_change ?tid w w2"
    if "write_exit_code io ?tid (NewExitCode 1) w = (w1, None, None)" "WithTask n0 t at = Inr n"
      "set_failure_code fc n = Inr n'" "save_task io ?tid n' w1 = (w2, r)" for w1 n0 at n fc n' w2 r
    using that assms write_exit_code_view [OF that(1)] set_failure_code_sel [OF that(3)]
    by (intro safe_stored [OF _ _ _ that(4)]) (auto simp: code_agrees_def WithTask_Inr in_int64_def same_or_stored_def terminal_stored)
  show ?thesis
    by (auto simp: persist_launch_failure_def views split: handler_splits intro: code saved)
qed

lemma if_text_not_found: "(if b then Some (ErrText x) else y) = Some ErrTaskNotFound \<longleftrightarrow> \<not> b \<and> y = Some ErrTaskNotFound"
  by simp

lemma Validate_not_found: "Validate n \<noteq> Some ErrTaskNotFound"
proof -
  have "validate_core n \<noteq> Some ErrTaskNotFound"
    unfolding validate_core_def if_text_not_found by simp
  moreover have "validate_failure_code n \<noteq> Some ErrTaskNotFound"
    unfolding validate_failure_code_def by (simp split: option.split)
  moreover have "validate_working_dir n \<noteq> Some ErrTaskNotFound"
    unfolding validate_working_dir_def by (simp split: option.split sum.split)
  ultimately show ?thesis by (auto simp: Validate_def split: option.split)
qed

lemma load_task_not_found: "load_task io tid w = Inl ErrTaskNotFound \<Longrightarrow> disks w tid = None"
  using Validate_not_found
  by (auto simp: load_task_def Load_def disks_def disk_snapshot_def
      split: if_splits option.splits json_file.splits)

lemma FailTaskLaunch_safe: "safe_change (id (fl_Task inp)) w (fst (FailTaskLaunch_ExecuteLocked io inp w))"
proof -
  have persisted: "safe_change (id (fl_Task inp)) w w2"
    if "persist_launch_failure io inp loaded t evs w = (w2, r)" "\<not> frozen w (id (fl_Task inp))" "exitCode t = Some (NewExitCode 1) \<and> terminal (state t)"
    for loaded t evs w2 r
    using persist_launch_failure_safe [OF that(2,3), of io loaded evs] that(1) by simp
  have exited: "exitCode t2 = Some (NewExitCode 1) \<and> terminal (state t2)" "\<not> terminal (state t)"
    if "start_queued to m at t = (t1, Inr evs1)" "RecordExit (NewExitCode 1) False True False at' t1 = (t2, Inr evs2)"
    for t to m at t1 evs1 at' t2 evs2
    using that RecordExit_coded [OF that(2)] by (auto simp: start_queued_def go_simps split: if_splits)
  have open_task: "\<not> frozen w (id (fl_Task inp))"
    if "fail_launch_load io (fl_Task inp) w = Inr (n, t)" "\<not> terminal (state t)" for n t
    using that loaded_frozen(1) load_task_not_found [THEN unstored_not_frozen]
    by (auto simp: fail_launch_load_def split: sum.splits if_splits)
  show ?thesis
    by (auto simp: FailTaskLaunch_ExecuteLocked_def split: handler_splits intro!: persisted dest: exited open_task)
qed


lemma finish_commit_safe:
  assumes "\<not> frozen w tid" and "\<not> coded_state (sn_State n') \<and> stored_state (sn_State n')"
  shows "safe_change tid w (fst (finish_commit io tid result n' evs at w))"
proof -
  obtain w2 r where sv: "save_task io tid n' w = (w2, r)" by fastforce
  note v = save_task_view [OF sv]
  show ?thesis
  proof (cases r)
    case None
    have "safe_change tid w (overwrite_exit_code io tid c w3)" if "disks w3 = disks w2" "codes w3 = codes w2" for c w3
      using that assms v None overwrite_exit_code_others by (auto simp: safe_change_def same_or_stored_def views)
    then show ?thesis using None by (simp add: finish_commit_def sv views)
  next
    case (Some e)
    then show ?thesis using assms v by (auto simp: finish_commit_def sv intro: safe_code)
  qed
qed

lemma finish_op_open:
  assumes "load_task io tid w = Inr n" and "restore_task n = Inr t" and "finish_op result p at t = (t', Inr evs)"
  shows "\<not> frozen w tid" and "WithTask n t' at = Inr n' \<Longrightarrow> \<not> coded_state (sn_State n') \<and> stored_state (sn_State n')"
  using loaded_frozen(1) [OF assms(1,2)] assms(3)
  by (auto simp: finish_op_def go_simps WithTask_Inr coded_state_def stored_state_def split: if_splits)

lemma finish_safe: "safe_change tid w (fst (RecoverViaResume_finish io tid origin result saved at w))"
proof -
  have "safe_change tid w w2"
    if "load_task io tid w = Inr n" "restore_task n = Inr t" "finish_op result p at t = (t', Inr evs)"
      "WithTask n t' at = Inr n'" "finish_commit io tid result n' evs at w = (w2, b)" for n t p t' evs n' w2 b
    using finish_commit_safe [OF finish_op_open [OF that(1-3)], OF that(4), of io result evs at] that(5) by simp
  then show ?thesis
    unfolding RecoverViaResume_finish_def Let_def
    by (auto split: sum.splits prod.splits bool.splits)
qed

lemma resolve_files_view:
  assumes "resolve_files ctx io tid present shouldWrite at w = (w', completed)"
  shows "disks w' = disks w \<and> (\<forall>x. x \<noteq> tid \<longrightarrow> codes w' x = codes w x)"
  using assms by (auto simp: resolve_files_def Let_def views overwrite_exit_code_others split: if_splits)

lemma resolve_commit_safe:
  assumes "\<not> frozen w tid" and "\<not> coded_state (sn_State n') \<and> stored_state (sn_State n')"
  shows "safe_change tid w (fst (resolve_commit ctx io tid n' present s evs at w))"
proof -
  obtain w1 b where f: "resolve_files ctx io tid present s at w = (w1, b)" by fastforce
  obtain w2 r where sv: "save_task io tid n' w1 = (w2, r)" by fastforce
  obtain w3 c where ev: "appendAdoptionEvents ctx 10 io tid evs w2 = (w3, c)" by fastforce
  note v = resolve_files_view [OF f]
  have "safe_change tid w w1" using assms(1) v by (intro safe_code) auto
  moreover have stored: "safe_change tid w w2" using assms v by (intro safe_stored [OF _ _ _ sv]) (auto simp: same_or_stored_def)
  moreover have "safe_change tid w w3" using stored safe_change_views(7) [of tid w ctx 10 io tid evs w2] ev by simp
  ultimately show ?thesis by (cases b; cases r) (simp_all add: resolve_commit_def f sv ev)
qed

lemma resolve_op_open:
  assumes "load_task io tid w = Inr n" and "restore_task n = Inr t" and "resolve_op present at t = (t', Inr evs)"
  shows "\<not> frozen w tid" and "WithTask n t' at = Inr n' \<Longrightarrow> \<not> coded_state (sn_State n') \<and> stored_state (sn_State n')"
  using loaded_frozen(1) [OF assms(1,2)] assms(3)
  by (auto simp: resolve_op_def go_simps WithTask_Inr coded_state_def stored_state_def split: if_splits)

lemma resolveRecovering_safe:
  assumes "load_task io tid w = Inr n"
  shows "safe_change tid w (fst (resolveRecoveringLockedWithContext ctx io' tid n present at w))"
  unfolding resolveRecoveringLockedWithContext_def
  by (auto split: sum.splits prod.splits intro!: resolve_commit_safe dest: resolve_op_open [OF assms])


section \<open>All interleavings\<close>

text \<open>
  The locked steps of all use cases, in any order and for any task. The first snapshot of a task is
  written by its launch or by its cancellation in the queue, which own the task while nothing is stored.
  A restart of the daemon opens the store again and loses the tracker of stalled times.
\<close>

inductive world_step :: "task_world \<Rightarrow> task_world \<Rightarrow> bool" where
  reserve: "world_step w (w\<lparr>tw_store := fst (Reserve fault tid (tw_store w))\<rparr>)"
| restart: "world_step w (w\<lparr>tw_store := NewFileTaskStore opened names (fts_disk (tw_store w)), tw_stalled := Map.empty\<rparr>)"
| starting: "disks w (id t) = None
     \<Longrightarrow> world_step w (fst (RecordTaskStarting_Execute io t to mdl effort sandbox wd route prompt now w))"
| cancel_queued: "disks w tid = None
     \<Longrightarrow> world_step w (fst (cancel_queued_locked io force t to mdl effort sandbox wd tid at w))"
| process: "world_step w (fst (RecordTaskProcess_Execute io tid pid st now w))"
| running: "world_step w (fst (ConfirmTaskRunning_Execute io live tid at w))"
| observe: "world_step w (MonitorTaskEvents_observeKnown io tid kind raw now w)"
| stall: "world_step w (fst (checkStall_checkOne io owned live cancelled tid now w))"
| timed_out: "world_step w (fst (EnforceTaskTimeout_executeLocked io tid at w))"
| launch_failed: "world_step w (fst (FailTaskLaunch_ExecuteLocked io inp w))"
| finalize: "in_int64 (fi_RawExitCode fin) \<Longrightarrow> world_step w (fst (FinalizeTask_executeLocked io1 io2 fin present w))"
| killed: "in_int64 raw \<Longrightarrow> world_step w (fst (ConfirmTaskKilled_ExecuteLocked io tid raw estimated at w))"
| recovery_begun: "world_step w (fst (RecoverViaResume_begin io tid ref at w))"
| recovery_done: "world_step w (fst (RecoverViaResume_finish io tid origin result saved at w))"
| resolved: "load_task io tid w = Inr n
     \<Longrightarrow> world_step w (fst (resolveRecoveringLockedWithContext ctx io' tid n present at w))"
| adopted: "load_task io tid w = Inr n \<Longrightarrow> world_step w (fst (adopt_live_locked ctx io' live tid n at w))"
| cancel: "load_task io tid w = Inr n \<Longrightarrow> world_step w (fst (request_cancel_locked io' tid force n at w))"
| claim: "world_step w (fst (prepareStartingClaim io tid handle current w))"

inductive world_run :: "task_world \<Rightarrow> task_world \<Rightarrow> bool" where
  start: "world_run w w"
| step: "world_run w w1 \<Longrightarrow> world_step w1 w2 \<Longrightarrow> world_run w w2"

lemma scan_keeps_disk: "fts_disk (scan_entry opened name s) = fts_disk s"
  by (auto simp: scan_entry_def Let_def split: sum.splits option.splits json_file.splits if_splits)

lemma NewFileTaskStore_disk: "fts_disk (NewFileTaskStore opened names d) = d"
proof -
  have "fts_disk (fold (scan_entry opened) names s) = fts_disk s" for s
    by (induction names arbitrary: s) (simp_all add: scan_keeps_disk)
  then show ?thesis by (simp add: NewFileTaskStore_def)
qed

lemma Reserve_disk: "disk_snapshot (fst (Reserve fault tid s)) = disk_snapshot s"
  by (auto simp: Reserve_def disk_snapshot_def fun_eq_iff split: option.splits)

lemma store_steps_view:
  "disks (w\<lparr>tw_store := fst (Reserve fault tid (tw_store w))\<rparr>) = disks w"
  "disks (w\<lparr>tw_store := NewFileTaskStore opened names (fts_disk (tw_store w)), tw_stalled := m\<rparr>) = disks w"
  by (simp_all add: disks_def Reserve_disk) (simp add: disk_snapshot_def fun_eq_iff NewFileTaskStore_disk)

lemma store_steps_safe:
  "safe_change x w (w\<lparr>tw_store := fst (Reserve fault tid (tw_store w))\<rparr>)"
  "safe_change x w (w\<lparr>tw_store := NewFileTaskStore opened names (fts_disk (tw_store w)), tw_stalled := m\<rparr>)"
  by (intro safe_same_view store_steps_view; simp add: views)+

lemmas use_case_safe = store_steps_safe RecordTaskStarting_safe cancel_queued_safe RecordTaskProcess_safe
  ConfirmTaskRunning_safe observeKnown_safe checkOne_safe EnforceTaskTimeout_safe FailTaskLaunch_safe FinalizeTask_safe
  ConfirmTaskKilled_safe begin_safe finish_safe resolveRecovering_safe adopt_live_safe request_cancel_safe
  prepareStartingClaim_safe

lemma world_step_safe: "world_step w w' \<Longrightarrow> \<exists>tid. safe_change tid w w'"
  by (induction rule: world_step.induct) (blast intro: use_case_safe)+

lemma world_run_frozen:
  assumes "world_run w w'" and "disks w tid = Some n" and "terminal (sn_State n)"
  shows "disks w' tid = Some n \<and> codes w' tid = codes w tid"
  using assms
proof (induction rule: world_run.induct)
  case (step w w1 w2)
  then have i: "disks w1 tid = Some n" "codes w1 tid = codes w tid" by auto
  with step.prems(2) have "frozen w1 tid" by (simp add: frozen_def)
  moreover obtain x where "safe_change x w1 w2" using world_step_safe [OF step.hyps(2)] by blast
  ultimately have "disks w2 tid = disks w1 tid \<and> codes w2 tid = codes w1 tid"
    by (cases "x = tid") (auto simp: safe_change_def)
  with i show ?case by simp
qed simp

definition codes_ok :: "task_world \<Rightarrow> bool" where
  "codes_ok w \<longleftrightarrow> (\<forall>tid n. disks w tid = Some n \<longrightarrow> coded_state (sn_State n) \<longrightarrow> code_agrees n (codes w tid))"

lemma world_run_stored:
  assumes "world_run w w'" and "\<forall>x. disks w x = None" and "disks w' tid = Some n"
  shows "stored_state (sn_State n)"
  using assms
proof (induction arbitrary: tid n rule: world_run.induct)
  case (step w w1 w2)
  obtain x where x: "safe_change x w1 w2" using world_step_safe [OF step.hyps(2)] by blast
  show ?case
  proof (cases "x = tid")
    case True
    with x step.prems(2) have "same_or_stored w1 tid n" by (simp add: safe_change_def)
    with step.IH [OF step.prems(1)] show ?thesis unfolding same_or_stored_def by metis
  next
    case False
    with x step.prems step.IH show ?thesis by (auto simp: safe_change_def)
  qed
qed simp

lemma stored_adoptable: "stored_state s \<Longrightarrow> isKnownTaskState s \<Longrightarrow> terminal s \<or> isAdoptionState s"
  by (cases s) (simp_all add: stored_state_def isAdoptionState_def adoptionStates_def)

lemma coded_terminal: "coded_state s \<Longrightarrow> terminal s"
  by (auto simp: coded_state_def)

lemma world_step_codes:
  assumes "world_step w w'" and "codes_ok w"
  shows "codes_ok w'"
proof -
  obtain x where s: "safe_change x w w'" using world_step_safe [OF assms(1)] by blast
  show ?thesis
    unfolding codes_ok_def
  proof (intro allI impI)
    fix tid n assume n: "disks w' tid = Some n" "coded_state (sn_State n)"
    show "code_agrees n (codes w' tid)"
    proof (cases "disks w tid = Some n")
      case True
      with n coded_terminal have "frozen w tid" by (auto simp: frozen_def)
      then have "codes w' tid = codes w tid" using s by (cases "x = tid") (auto simp: safe_change_def)
      with True n(2) assms(2) show ?thesis by (simp add: codes_ok_def)
    next
      case False
      with n s show ?thesis by (cases "x = tid") (auto simp: safe_change_def)
    qed
  qed
qed

lemma world_run_codes: "world_run w w' \<Longrightarrow> codes_ok w \<Longrightarrow> codes_ok w'"
  by (induction rule: world_run.induct) (auto intro: world_step_codes)

text \<open>
  C11: once a terminal snapshot of a task is stored, no use case ever changes that snapshot or the exit
  code on disk, whatever the interleaving with the steps of the same and of all other tasks, the faults
  of the file system and the restarts of the daemon.
\<close>

theorem persisted_terminal_frozen:
  assumes "world_run w w'" and "disks w tid = Some n" and "terminal (sn_State n)"
  shows "disks w' tid = Some n \<and> codes w' tid = codes w tid"
  using assms by (rule world_run_frozen)

text \<open>
  C12: whenever a task is stored as completed, failed or killed, its exit code file holds the exit code
  of that snapshot: the terminal states that clients act on are never visible before the exit code.
\<close>

theorem terminal_exit_code_agrees:
  assumes "world_run w w'" and "\<forall>x. disks w x = None" and "disks w' tid = Some n"
    and "sn_State n \<in> {StateCompleted, StateFailed, StateKilled}"
  shows "\<exists>c. sn_ExitCode n = Some c \<and> codes w' tid = Some (ec_raw c)"
proof -
  have "codes_ok w" using assms(2) by (simp add: codes_ok_def)
  with assms world_run_codes show ?thesis by (auto simp: codes_ok_def coded_state_def code_agrees_def)
qed

text \<open>
  The result of a finalization is truthful. It reports a persisted terminal state exactly when it
  returns no error; then the stored snapshot has the reported state and the exit code of the process,
  and the exit code is on disk. Otherwise no stored snapshot changed; and when the exit could not even
  be recorded nothing changed at all.
\<close>

theorem FinalizeTask_truthful:
  assumes "in_int64 (fi_RawExitCode inp)" and "FinalizeTask_executeLocked io1 io2 inp present w = (w', r, err)"
  shows "(fr_TerminalPersisted r \<longleftrightarrow> err = None)
     \<and> (fr_TerminalPersisted r \<longrightarrow> (\<exists>n. disks w' (fi_TaskID inp) = Some n \<and> sn_State n = fr_ResultState r \<and> terminal (sn_State n)
           \<and> sn_ExitCode n = Some (NewExitCode (fi_RawExitCode inp)) \<and> codes w' (fi_TaskID inp) = Some (fi_RawExitCode inp)))
     \<and> (\<not> fr_TerminalPersisted r \<longrightarrow> disks w' = disks w) \<and> (\<not> fr_RecordExited r \<longrightarrow> w' = w)"
  using FinalizeTask_outcome [OF assms]
  by (auto simp: finalized_def no_result_def fr_TerminalPersisted_def split: if_splits)


definition ok_io :: task_io where
  "ok_io = \<lparr>io_load = None, io_save = None, io_exit_read = None, io_exit_write = None, io_prompt = None,
     io_recovered = None, io_adopted = None, io_append = (\<lambda>_. True), io_raw = True\<rparr>"

definition sample_running :: task where
  "sample_running = (sample_task StateRunning)\<lparr>processStartTime := Some \<lparr>pst_pid = 4242, pst_startedAt = 7\<rparr>\<rparr>"

definition sample_world :: "task \<Rightarrow> task_world" where
  "sample_world t = \<lparr>tw_store = fst (Save None sample_id (overlay_task sample_base t 9)
       \<lparr>fts_disk = [sample_id \<mapsto> NoJSON], fts_index = [], fts_corrupted = []\<rparr>),
     tw_exit = Map.empty, tw_log = (\<lambda>_. []), tw_prompts = Map.empty, tw_recovered = Map.empty,
     tw_adopted = Map.empty, tw_stalled = Map.empty\<rparr>"

definition sample_finalize :: "int \<Rightarrow> finalize_input" where
  "sample_finalize code = \<lparr>fi_TaskID = sample_id, fi_RawExitCode = code, fi_Estimated = False,
     fi_AdoptedAfterRestart = False, fi_OccurredAt = 12\<rparr>"


definition closed_world :: task_world where
  "closed_world = fst (FinalizeTask_executeLocked ok_io ok_io (sample_finalize 0) True (sample_world sample_running))"

definition after_kill :: task_world where
  "after_kill = fst (ConfirmTaskKilled_ExecuteLocked ok_io sample_id 130 True 20 closed_world)"

theorem persisted_terminal_frozen_witness:
  "\<exists>n. disks closed_world sample_id = Some n \<and> sn_State n = StateCompleted
     \<and> disks after_kill sample_id = Some n \<and> codes after_kill sample_id = Some 0"
proof -
  have run: "world_run closed_world after_kill"
    unfolding after_kill_def by (rule world_run.step [OF world_run.start world_step.killed]) (simp add: in_int64_def)
  have st: "map_option sn_State (disks closed_world sample_id) = Some StateCompleted" by code_simp
  then obtain n where n: "disks closed_world sample_id = Some n" "sn_State n = StateCompleted" by auto
  have "codes closed_world sample_id = Some 0" by code_simp
  with persisted_terminal_frozen [OF run n(1)] n show ?thesis by simp
qed

definition reserved_world :: task_world where
  "reserved_world = (sample_world sample_running)\<lparr>tw_store := \<lparr>fts_disk = [sample_id \<mapsto> NoJSON], fts_index = [], fts_corrupted = []\<rparr>\<rparr>"

definition launched_world :: task_world where
  "launched_world = fst (RecordTaskStarting_Execute ok_io (sample_task StateQueued) (timeout sample_running) ''gpt'' None ''read-only'' ''/w''
     ExecutionRouteDaemon ''do it'' 9 reserved_world)"

definition exited_world :: task_world where
  "exited_world = fst (FinalizeTask_executeLocked ok_io ok_io (sample_finalize 3) True launched_world)"

theorem terminal_exit_code_agrees_witness:
  "\<exists>n c. disks exited_world sample_id = Some n \<and> sn_State n = StateFailed \<and> sn_ExitCode n = Some c
     \<and> codes exited_world sample_id = Some (ec_raw c)"
proof -
  have fresh: "\<forall>x. disks reserved_world x = None"
    by (simp add: disks_def disk_snapshot_def reserved_world_def)
  have run: "world_run reserved_world exited_world"
    unfolding exited_world_def launched_world_def
    by (intro world_run.step [OF world_run.step [OF world_run.start world_step.starting] world_step.finalize])
      (simp_all add: fresh sample_finalize_def in_int64_def)
  have "map_option sn_State (disks exited_world sample_id) = Some StateFailed" by code_simp
  then obtain n where n: "disks exited_world sample_id = Some n" "sn_State n = StateFailed" by auto
  with terminal_exit_code_agrees [OF run fresh n(1)] show ?thesis by auto
qed

theorem FinalizeTask_truthful_witness:
  "\<exists>w' r. FinalizeTask_executeLocked ok_io ok_io (sample_finalize 0) True (sample_world sample_running) = (w', r, None)
     \<and> fr_TerminalPersisted r
     \<and> (\<exists>n. disks w' sample_id = Some n \<and> sn_State n = fr_ResultState r \<and> codes w' sample_id = Some 0)"
proof -
  obtain w' r err where x: "FinalizeTask_executeLocked ok_io ok_io (sample_finalize 0) True (sample_world sample_running) = (w', r, err)"
    by (rule prod_cases3)
  have "snd (snd (FinalizeTask_executeLocked ok_io ok_io (sample_finalize 0) True (sample_world sample_running))) = None"
    by code_simp
  with x have err: "err = None" by simp
  have "in_int64 (fi_RawExitCode (sample_finalize 0))" by code_simp
  from FinalizeTask_truthful [OF this x] err x show ?thesis by (auto simp: sample_finalize_def)
qed

text \<open>
  A recovery that finishes writes its exit code over a different one that an earlier finalization
  already put on disk, although a conflicting exit code is meant to be fatal.
\<close>

theorem recovery_overwrites_exit_code:
  assumes "codes w tid = Some old" and "old \<noteq> ec_raw (rr_ExitCode result)" and "in_int64 (ec_raw (rr_ExitCode result))"
    and "io_exit_write io = None" and "RecoverViaResume_finish io tid origin result saved at w = (w', Some out)"
  shows "codes w' tid = Some (ec_raw (rr_ExitCode result))"
proof -
  have over: "codes (overwrite_exit_code io tid c w2) tid = Some (ec_raw c)" if "in_int64 (ec_raw c)" for c w2
    using that assms(4) exit_file.writer_records [of c "\<lambda>_. io_exit_write io" tid "tw_exit w2"]
    by (auto simp: overwrite_exit_code_def codes_def WriteExitCode_def)
  have commit: "codes w2 tid = Some (ec_raw (rr_ExitCode result))"
    if "finish_commit io tid result n' evs at w = (w2, True)" for n' evs w2
    using that over [OF assms(3)] by (auto simp: finish_commit_def views split: prod.splits option.splits)
  show ?thesis
    using assms(5) commit
    by (auto simp: RecoverViaResume_finish_def Let_def split: sum.splits prod.splits bool.splits)
qed


text \<open>
  A process exits with code 0 while the disk refuses task.json, so only the exit code is stored; the
  timeout then fires, and the recovery that follows fails.
\<close>

definition recovering_world :: task_world where
  "recovering_world =
     fst (RecoverViaResume_begin ok_io sample_id None 15
       (fst (EnforceTaskTimeout_executeLocked ok_io sample_id 14
         (fst (FinalizeTask_executeLocked (ok_io\<lparr>io_save := Some ''disk full''\<rparr>) (ok_io\<lparr>io_save := Some ''disk full''\<rparr>)
           (sample_finalize 0) True (sample_world sample_running))))))"

definition failed_recovery :: recovery_result where
  "failed_recovery = \<lparr>rr_Succeeded = False, rr_ExitCode = failureExitCodeFor RecoveryOriginTimeout, rr_PartialOutputSaved = False\<rparr>"

theorem recovery_overwrites_exit_code_witness:
  "codes recovering_world sample_id = Some 0
   \<and> codes (fst (RecoverViaResume_finish ok_io sample_id RecoveryOriginTimeout failed_recovery True 16 recovering_world)) sample_id = Some 6"
proof -
  let ?f = "RecoverViaResume_finish ok_io sample_id RecoveryOriginTimeout failed_recovery True 16 recovering_world"
  have zero: "codes recovering_world sample_id = Some 0" by code_simp
  have "map_option ro_FinalState (snd ?f) = Some StateTimeoutLost" by code_simp
  then obtain out where out: "?f = (fst ?f, Some out)" by (cases ?f) auto
  have six: "ec_raw (rr_ExitCode failed_recovery) = 6" by code_simp
  have "codes (fst ?f) sample_id = Some (ec_raw (rr_ExitCode failed_recovery))"
    by (rule recovery_overwrites_exit_code [OF zero _ _ _ out]) (simp_all add: six in_int64_def ok_io_def)
  with zero six show ?thesis by simp
qed

lemma appendAdoptionEvents_free:
  "appendAdoptionEvents (\<lambda>_. False) i io tid evs w = (append_events io tid evs w, True)"
  by (induction evs arbitrary: i w) (simp_all add: append_events_def Let_def)

lemma resolveRecovering_free:
  "resolveRecoveringLockedWithContext (\<lambda>_. False) io tid n present at w
     = (let (w', err) = resolveRecoveringLocked io tid n present at w in (w', err, True))"
  unfolding resolveRecoveringLockedWithContext_def resolveRecoveringLocked_def
  by (simp add: resolve_commit_def resolve_files_def appendAdoptionEvents_free Let_def split: sum.split prod.split option.split)

text \<open>
  The resolution of an interrupted recovery is the same with and without a context, as long as the
  context is not cancelled.
\<close>

theorem resolveRecovering_context_free:
  "resolveRecoveringLockedWithContext (\<lambda>_. False) io tid n present at w
     = (let (w', err) = resolveRecoveringLocked io tid n present at w in (w', err, True))"
  by (rule resolveRecovering_free)

end
