(* ===== verification/Pending_Set.thy ===== *)
theory Pending_Set
  imports Task_Store "HOL-Library.Word"
begin

text \<open>
  The in-memory registries that keep the threads of the daemon from working on one task at the same time:
  the set of tasks that wait for reconciliation with its send claims
  (\<^verbatim>\<open>internal/recovery/pending.go\<close>), the ownership registries of the lifecycle and of the recovery
  (\<^verbatim>\<open>internal/execution/lifecycle_ownership.go\<close>, \<^verbatim>\<open>internal/recovery/recovery_ownership.go\<close>) and the check
  that a signal still targets the recorded process (\<^verbatim>\<open>internal/recovery/process_signal_authority.go\<close>).

  Every operation holds the mutex of its registry for its whole body, so it is one step. Tokens and
  generations are 64-bit words and wrap around.
\<close>

section \<open>Data\<close>

type_synonym lifecycle_generation = "64 word"

record process_signal_authority =
  sa_TaskID :: task_id
  sa_PID :: int
  sa_ProcessStartedAt :: go_time
  sa_ExpectedState :: task_state
  sa_LifecycleGeneration :: "lifecycle_generation option"

definition zero_authority :: process_signal_authority where
  "zero_authority = \<lparr>sa_TaskID = TaskID '''', sa_PID = 0, sa_ProcessStartedAt = 0, sa_ExpectedState = StateOther '''',
     sa_LifecycleGeneration = None\<rparr>"

record send_claim =
  sc_TaskID :: task_id
  sc_Token :: "64 word"
  sc_Authority :: process_signal_authority

definition zero_claim :: send_claim where
  "zero_claim = \<lparr>sc_TaskID = TaskID '''', sc_Token = 0, sc_Authority = zero_authority\<rparr>"

text \<open>A disposition is an int in the source; \<open>PendingSendInvalid\<close> stands for the values without a name.\<close>

datatype pending_send_disposition = PendingSendUnsent | PendingSendSent | PendingSendConfirmOnly | PendingSendInvalid

datatype claim_outcome = ClaimNotFound | ClaimAcquired | ClaimAlreadyClaimed | ClaimSent | ClaimConfirmOnly

datatype pending_state = pendingUnsent | pendingClaimed | pendingSent | pendingConfirmOnly

record pending_entry =
  pe_taskID :: task_id
  pe_state :: pending_state
  pe_authority :: process_signal_authority
  pe_claimToken :: "64 word"
  pe_initialClaimFromUnsent :: bool

record pending_set =
  ps_entries :: "task_id \<rightharpoonup> pending_entry"
  ps_nextToken :: "64 word"

datatype pending_error = ErrPendingClaimed | PendingInvalid string

section \<open>Registration\<close>

definition validatePendingRegistration ::
    "task_id \<Rightarrow> pending_send_disposition \<Rightarrow> process_signal_authority option \<Rightarrow> pending_error option" where
  "validatePendingRegistration tid disposition authority =
     (if disposition = PendingSendInvalid then Some (PendingInvalid ''invalid pending send disposition'')
      else if disposition = PendingSendUnsent then
        (case authority of
           None \<Rightarrow> Some (PendingInvalid ''unsent pending entry requires process signal authority'')
         | Some a \<Rightarrow>
             if sa_TaskID a \<noteq> tid then Some (PendingInvalid ''task ID does not match pending entry'')
             else if sa_PID a \<le> 0 then Some (PendingInvalid ''requires a positive PID'')
             else if is_zero_time (sa_ProcessStartedAt a) then Some (PendingInvalid ''requires a non-zero process start time'')
             else None)
      else None)"

definition new_entry :: "task_id \<Rightarrow> pending_state \<Rightarrow> process_signal_authority \<Rightarrow> 64 word \<Rightarrow> pending_entry" where
  "new_entry tid s a k = \<lparr>pe_taskID = tid, pe_state = s, pe_authority = a, pe_claimToken = k, pe_initialClaimFromUnsent = False\<rparr>"

definition given :: "process_signal_authority option \<Rightarrow> process_signal_authority" where
  "given a = (case a of Some x \<Rightarrow> x | None \<Rightarrow> zero_authority)"

fun pendingEntryForRegistration :: "task_id \<Rightarrow> pending_send_disposition \<Rightarrow> process_signal_authority option \<Rightarrow> pending_entry" where
  "pendingEntryForRegistration tid PendingSendUnsent a = new_entry tid pendingUnsent (given a) 0"
| "pendingEntryForRegistration tid PendingSendSent a = new_entry tid pendingSent zero_authority 0"
| "pendingEntryForRegistration tid PendingSendConfirmOnly a = new_entry tid pendingConfirmOnly zero_authority 0"
| "pendingEntryForRegistration tid PendingSendInvalid a = new_entry tid pendingUnsent zero_authority 0"

text \<open>The entry after a registration of a task that is already in the set and not claimed.\<close>

definition registered_again :: "pending_send_disposition \<Rightarrow> process_signal_authority option \<Rightarrow> pending_entry \<Rightarrow> pending_entry" where
  "registered_again disposition a e =
     (case (pe_state e, disposition) of
        (pendingUnsent, PendingSendUnsent) \<Rightarrow> e\<lparr>pe_authority := given a\<rparr>
      | (pendingUnsent, PendingSendSent) \<Rightarrow> e\<lparr>pe_state := pendingSent, pe_authority := zero_authority, pe_claimToken := 0\<rparr>
      | (pendingUnsent, PendingSendConfirmOnly) \<Rightarrow> e\<lparr>pe_state := pendingConfirmOnly, pe_authority := zero_authority, pe_claimToken := 0\<rparr>
      | (pendingConfirmOnly, PendingSendSent) \<Rightarrow> e\<lparr>pe_state := pendingSent\<rparr>
      | _ \<Rightarrow> e)"

definition put_entry :: "task_id \<Rightarrow> pending_entry \<Rightarrow> pending_set \<Rightarrow> pending_set" where
  "put_entry tid e s = s\<lparr>ps_entries := (ps_entries s)(tid \<mapsto> e)\<rparr>"

definition Register :: "task_id \<Rightarrow> pending_send_disposition \<Rightarrow> process_signal_authority option \<Rightarrow> pending_set
    \<Rightarrow> pending_set \<times> pending_error option" where
  "Register tid disposition authority s =
     (case validatePendingRegistration tid disposition authority of
        Some e \<Rightarrow> (s, Some e)
      | None \<Rightarrow>
          (case ps_entries s tid of
             None \<Rightarrow> (put_entry tid (pendingEntryForRegistration tid disposition authority) s, None)
           | Some entry \<Rightarrow>
               if pe_state entry = pendingClaimed then (s, Some ErrPendingClaimed)
               else (put_entry tid (registered_again disposition authority entry) s, None)))"

section \<open>Claims\<close>

definition pendingAuthorityEqual :: "process_signal_authority \<Rightarrow> process_signal_authority \<Rightarrow> bool" where
  "pendingAuthorityEqual l r =
     (if sa_TaskID l \<noteq> sa_TaskID r \<or> sa_PID l \<noteq> sa_PID r \<or> sa_ProcessStartedAt l \<noteq> sa_ProcessStartedAt r
         \<or> sa_ExpectedState l \<noteq> sa_ExpectedState r then False
      else if sa_LifecycleGeneration l = None \<or> sa_LifecycleGeneration r = None
           then sa_LifecycleGeneration l = None \<and> sa_LifecycleGeneration r = None
      else sa_LifecycleGeneration l = sa_LifecycleGeneration r)"

definition confirm_only :: "pending_entry \<Rightarrow> pending_entry" where
  "confirm_only e = e\<lparr>pe_state := pendingConfirmOnly, pe_authority := zero_authority, pe_claimToken := 0,
     pe_initialClaimFromUnsent := False\<rparr>"

text \<open>The common tail of the two claims: an entry is found; \<open>initial\<close> is the flag that the claim sets.\<close>

definition claim_entry :: "bool \<Rightarrow> task_id \<Rightarrow> process_signal_authority \<Rightarrow> pending_entry \<Rightarrow> pending_set
    \<Rightarrow> pending_set \<times> send_claim \<times> claim_outcome" where
  "claim_entry initial tid authority entry s =
     (case pe_state entry of
        pendingClaimed \<Rightarrow> (s, zero_claim, ClaimAlreadyClaimed)
      | pendingSent \<Rightarrow> (s, zero_claim, ClaimSent)
      | pendingConfirmOnly \<Rightarrow> (s, zero_claim, ClaimConfirmOnly)
      | pendingUnsent \<Rightarrow>
          if \<not> pendingAuthorityEqual (pe_authority entry) authority
          then (put_entry tid (confirm_only entry) s, zero_claim, ClaimConfirmOnly)
          else let k = ps_nextToken s + 1
               in (put_entry tid (entry\<lparr>pe_claimToken := k, pe_state := pendingClaimed, pe_initialClaimFromUnsent := initial\<rparr>)
                     (s\<lparr>ps_nextToken := k\<rparr>),
                   \<lparr>sc_TaskID = tid, sc_Token = k, sc_Authority = pe_authority entry\<rparr>, ClaimAcquired))"

definition ClaimForSend :: "task_id \<Rightarrow> process_signal_authority \<Rightarrow> pending_set \<Rightarrow> pending_set \<times> send_claim \<times> claim_outcome" where
  "ClaimForSend tid authority s =
     (case ps_entries s tid of
        None \<Rightarrow> (s, zero_claim, ClaimNotFound)
      | Some entry \<Rightarrow> claim_entry False tid authority entry s)"

definition ClaimInitialSend :: "task_id \<Rightarrow> process_signal_authority \<Rightarrow> pending_set \<Rightarrow> pending_set \<times> send_claim \<times> claim_outcome" where
  "ClaimInitialSend tid authority s =
     (case ps_entries s tid of
        None \<Rightarrow>
          let k = ps_nextToken s + 1
          in (put_entry tid (new_entry tid pendingClaimed authority k) (s\<lparr>ps_nextToken := k\<rparr>),
              \<lparr>sc_TaskID = tid, sc_Token = k, sc_Authority = authority\<rparr>, ClaimAcquired)
      | Some entry \<Rightarrow> claim_entry True tid authority entry s)"

text \<open>The entry that a claim holds, if it is the current claim.\<close>

definition held_entry :: "send_claim \<Rightarrow> pending_set \<Rightarrow> pending_entry option" where
  "held_entry c s =
     (case ps_entries s (sc_TaskID c) of
        None \<Rightarrow> None
      | Some e \<Rightarrow> if pe_state e \<noteq> pendingClaimed \<or> pe_claimToken e \<noteq> sc_Token c then None else Some e)"

definition CompleteSend :: "send_claim \<Rightarrow> pending_set \<Rightarrow> pending_set \<times> bool" where
  "CompleteSend c s =
     (case held_entry c s of
        None \<Rightarrow> (s, False)
      | Some e \<Rightarrow> (put_entry (sc_TaskID c) (e\<lparr>pe_state := pendingSent, pe_authority := zero_authority,
                      pe_initialClaimFromUnsent := False\<rparr>) s, True))"

definition ReleaseSend :: "send_claim \<Rightarrow> pending_set \<Rightarrow> pending_set \<times> bool" where
  "ReleaseSend c s =
     (case held_entry c s of
        None \<Rightarrow> (s, False)
      | Some e \<Rightarrow> (put_entry (sc_TaskID c) (e\<lparr>pe_state := pendingUnsent, pe_initialClaimFromUnsent := False\<rparr>) s, True))"

definition InvalidateSend :: "send_claim \<Rightarrow> pending_set \<Rightarrow> pending_set \<times> bool" where
  "InvalidateSend c s =
     (case held_entry c s of
        None \<Rightarrow> (s, False)
      | Some e \<Rightarrow> if pe_taskID e \<noteq> sc_TaskID c then (s, False) else (put_entry (sc_TaskID c) (confirm_only e) s, True))"

definition RemoveClaim :: "send_claim \<Rightarrow> pending_set \<Rightarrow> pending_set \<times> bool" where
  "RemoveClaim c s =
     (case held_entry c s of
        None \<Rightarrow> (s, False)
      | Some e \<Rightarrow>
          if pe_taskID e \<noteq> sc_TaskID c then (s, False)
          else if pe_initialClaimFromUnsent e
          then (put_entry (sc_TaskID c) (e\<lparr>pe_state := pendingUnsent, pe_claimToken := 0, pe_initialClaimFromUnsent := False\<rparr>) s, True)
          else (s\<lparr>ps_entries := (ps_entries s)(sc_TaskID c := None)\<rparr>, True))"

definition Remove_pending :: "task_id \<Rightarrow> pending_set \<Rightarrow> pending_set" where
  "Remove_pending tid s =
     (case ps_entries s tid of
        Some e \<Rightarrow> if pe_state e = pendingClaimed then s else s\<lparr>ps_entries := (ps_entries s)(tid := None)\<rparr>
      | None \<Rightarrow> s)"

definition empty_pending :: pending_set where
  "empty_pending = \<lparr>ps_entries = Map.empty, ps_nextToken = 0\<rparr>"


section \<open>Runs of the set\<close>

datatype pending_op =
    OpRegister task_id pending_send_disposition "process_signal_authority option"
  | OpClaimForSend task_id process_signal_authority
  | OpClaimInitialSend task_id process_signal_authority
  | OpCompleteSend send_claim
  | OpReleaseSend send_claim
  | OpInvalidateSend send_claim
  | OpRemoveClaim send_claim
  | OpRemove task_id

fun pending_step :: "pending_op \<Rightarrow> pending_set \<Rightarrow> pending_set" where
  "pending_step (OpRegister tid d a) s = fst (Register tid d a s)"
| "pending_step (OpClaimForSend tid a) s = fst (ClaimForSend tid a s)"
| "pending_step (OpClaimInitialSend tid a) s = fst (ClaimInitialSend tid a s)"
| "pending_step (OpCompleteSend c) s = fst (CompleteSend c s)"
| "pending_step (OpReleaseSend c) s = fst (ReleaseSend c s)"
| "pending_step (OpInvalidateSend c) s = fst (InvalidateSend c s)"
| "pending_step (OpRemoveClaim c) s = fst (RemoveClaim c s)"
| "pending_step (OpRemove tid) s = Remove_pending tid s"

definition run_pending :: "pending_op list \<Rightarrow> pending_set \<Rightarrow> pending_set" where
  "run_pending ops s = fold pending_step ops s"

text \<open>The claim that an operation uses.\<close>

fun used_claim :: "pending_op \<Rightarrow> send_claim option" where
  "used_claim (OpCompleteSend c) = Some c"
| "used_claim (OpReleaseSend c) = Some c"
| "used_claim (OpInvalidateSend c) = Some c"
| "used_claim (OpRemoveClaim c) = Some c"
| "used_claim _ = None"

definition same_claim :: "send_claim \<Rightarrow> send_claim \<Rightarrow> bool" where
  "same_claim c d \<longleftrightarrow> sc_TaskID c = sc_TaskID d \<and> sc_Token c = sc_Token d"

definition uses :: "send_claim \<Rightarrow> pending_op \<Rightarrow> bool" where
  "uses c op = (case used_claim op of Some d \<Rightarrow> same_claim c d | None \<Rightarrow> False)"

definition live :: "send_claim \<Rightarrow> pending_set \<Rightarrow> bool" where
  "live c s \<longleftrightarrow> held_entry c s \<noteq> None"

lemmas pending_defs = Register_def ClaimForSend_def ClaimInitialSend_def claim_entry_def CompleteSend_def ReleaseSend_def
  InvalidateSend_def RemoveClaim_def Remove_pending_def put_entry_def

lemmas pending_splits = option.splits pending_state.splits pending_send_disposition.splits if_splits

lemma put_entry_sel [simp]: "ps_entries (put_entry tid e s) = (ps_entries s)(tid \<mapsto> e)" "ps_nextToken (put_entry tid e s) = ps_nextToken s"
  by (simp_all add: put_entry_def)

lemma held_entry_Some:
  "held_entry c s = Some e \<longleftrightarrow> ps_entries s (sc_TaskID c) = Some e \<and> pe_state e = pendingClaimed \<and> pe_claimToken e = sc_Token c"
  by (auto simp: held_entry_def split: option.splits)

lemma registered_again_unclaimed: "pe_state e \<noteq> pendingClaimed \<Longrightarrow> pe_state (registered_again d a e) \<noteq> pendingClaimed"
  by (auto simp: registered_again_def split: pending_state.splits pending_send_disposition.splits)

text \<open>An operation changes at most the entry of its own task.\<close>

fun op_task :: "pending_op \<Rightarrow> task_id" where
  "op_task (OpRegister tid d a) = tid"
| "op_task (OpClaimForSend tid a) = tid"
| "op_task (OpClaimInitialSend tid a) = tid"
| "op_task (OpCompleteSend c) = sc_TaskID c"
| "op_task (OpReleaseSend c) = sc_TaskID c"
| "op_task (OpInvalidateSend c) = sc_TaskID c"
| "op_task (OpRemoveClaim c) = sc_TaskID c"
| "op_task (OpRemove tid) = tid"

lemma pending_step_frame: "x \<noteq> op_task op \<Longrightarrow> ps_entries (pending_step op s) x = ps_entries s x"
  by (cases op) (auto simp: pending_defs Let_def split: option.splits pending_state.splits)

lemma claimed_entry_kept:
  assumes "ps_entries s (sc_TaskID c) = Some e" and "pe_state e = pendingClaimed" and "pe_claimToken e = sc_Token c"
    and "\<not> uses c op"
  shows "ps_entries (pending_step op s) (sc_TaskID c) = Some e"
proof (cases "op_task op = sc_TaskID c")
  case True
  have other: "held_entry d s = None" if "used_claim op = Some d" for d
    using assms that True by (cases op) (auto simp: uses_def same_claim_def held_entry_def)
  show ?thesis
    using True assms other
    by (cases op) (auto simp: pending_defs Let_def split: option.splits)
qed (use assms pending_step_frame in auto)

lemma live_kept: "held_entry c s = Some e \<Longrightarrow> \<not> uses c op \<Longrightarrow> held_entry c (pending_step op s) = Some e"
  using claimed_entry_kept by (auto simp: held_entry_Some)

lemma run_live: "held_entry c s = Some e \<Longrightarrow> \<forall>op \<in> set ops. \<not> uses c op \<Longrightarrow> held_entry c (run_pending ops s) = Some e"
  unfolding run_pending_def by (induction ops arbitrary: s) (auto intro: live_kept)

text \<open>
  C13: a send claim is exclusive. From the moment it is handed out until its holder gives it back,
  whatever other threads register, claim, remove or do with other claims, the entry stays claimed with
  its authority, and every further claim of the task is refused.
\<close>

theorem send_claim_exclusive:
  assumes "held_entry c s = Some e" and "\<forall>op \<in> set ops. \<not> uses c op"
  shows "held_entry c (run_pending ops s) = Some e
     \<and> ClaimForSend (sc_TaskID c) a (run_pending ops s) = (run_pending ops s, zero_claim, ClaimAlreadyClaimed)
     \<and> ClaimInitialSend (sc_TaskID c) a (run_pending ops s) = (run_pending ops s, zero_claim, ClaimAlreadyClaimed)"
  using run_live [OF assms] by (auto simp: held_entry_Some ClaimForSend_def ClaimInitialSend_def claim_entry_def)

section \<open>Settled tasks\<close>

definition settled :: "task_id \<Rightarrow> pending_set \<Rightarrow> bool" where
  "settled tid s \<longleftrightarrow> (\<exists>e. ps_entries s tid = Some e \<and> pe_state e \<in> {pendingSent, pendingConfirmOnly})"

lemma registered_again_settled:
  "pe_state e \<in> {pendingSent, pendingConfirmOnly} \<Longrightarrow> pe_state (registered_again d a e) \<in> {pendingSent, pendingConfirmOnly}"
  by (cases "pe_state e"; cases d) (auto simp: registered_again_def)

lemma settled_step:
  assumes "settled tid s" and "op \<noteq> OpRemove tid"
  shows "settled tid (pending_step op s)"
proof (cases "op_task op = tid")
  case True
  obtain e where e: "ps_entries s tid = Some e" "pe_state e \<in> {pendingSent, pendingConfirmOnly}"
    using assms(1) by (auto simp: settled_def)
  have held: "held_entry c s = None" if "sc_TaskID c = tid" for c
    using e that by (auto simp: held_entry_def)
  have claim: "claim_entry i tid a e s = (s, zero_claim, if pe_state e = pendingSent then ClaimSent else ClaimConfirmOnly)" for i a
    using e by (auto simp: claim_entry_def)
  show ?thesis
  proof (cases op)
    case (OpRegister x d a)
    then have tid: "x = tid" using True by simp
    have unclaimed: "pe_state e \<noteq> pendingClaimed" using e(2) by auto
    have "pending_step op s = s \<or> pending_step op s = put_entry tid (registered_again d a e) s"
      by (simp add: OpRegister tid Register_def e(1) unclaimed split: option.split)
    with assms(1) registered_again_settled [OF e(2), of d a] show ?thesis
      by (elim disjE) (simp_all add: settled_def)
  qed (use True e assms held claim in \<open>auto simp: settled_def ClaimForSend_def ClaimInitialSend_def CompleteSend_def
      ReleaseSend_def InvalidateSend_def RemoveClaim_def\<close>)
qed (use assms in \<open>simp add: settled_def pending_step_frame\<close>)

lemma run_settled: "settled tid s \<Longrightarrow> OpRemove tid \<notin> set ops \<Longrightarrow> settled tid (run_pending ops s)"
proof (induction ops arbitrary: s)
  case (Cons op ops)
  then have "op \<noteq> OpRemove tid" and "OpRemove tid \<notin> set ops" by auto
  with Cons.IH [OF settled_step [OF Cons.prems(1)]] show ?case by (simp add: run_pending_def)
qed (simp add: run_pending_def)


text \<open>
  A task whose signal was sent, or for which only the confirmation is awaited, is never claimed for
  sending again, unless its entry is removed first.
\<close>

theorem no_send_after_settled:
  assumes "settled tid s" and "OpRemove tid \<notin> set ops"
  shows "snd (snd (ClaimForSend tid a (run_pending ops s))) \<in> {ClaimSent, ClaimConfirmOnly}
     \<and> snd (snd (ClaimInitialSend tid a (run_pending ops s))) \<in> {ClaimSent, ClaimConfirmOnly}"
proof -
  obtain e where "ps_entries (run_pending ops s) tid = Some e" "pe_state e \<in> {pendingSent, pendingConfirmOnly}"
    using run_settled [OF assms] by (auto simp: settled_def)
  then show ?thesis by (auto simp: ClaimForSend_def ClaimInitialSend_def claim_entry_def)
qed

section \<open>Stale claims\<close>

text \<open>A claim that was handed out and is not current any more.\<close>

definition stale :: "send_claim \<Rightarrow> pending_set \<Rightarrow> bool" where
  "stale c s \<longleftrightarrow> unat (sc_Token c) \<le> unat (ps_nextToken s) \<and> held_entry c s = None"

definition claiming :: "pending_op \<Rightarrow> bool" where
  "claiming op = (case op of OpClaimForSend _ _ \<Rightarrow> True | OpClaimInitialSend _ _ \<Rightarrow> True | _ \<Rightarrow> False)"

lemma nextToken_step:
  "ps_nextToken (pending_step op s) = ps_nextToken s \<or> claiming op \<and> ps_nextToken (pending_step op s) = ps_nextToken s + 1"
  by (cases op) (auto simp: claiming_def pending_defs Let_def split: option.splits pending_state.splits)

lemma registration_unclaimed: "pe_state (pendingEntryForRegistration tid d a) \<noteq> pendingClaimed"
  by (cases d) (simp_all add: new_entry_def)

text \<open>A task becomes claimed only with a fresh token.\<close>

lemma held_origin:
  assumes "held_entry c (pending_step op s) = Some e"
  shows "held_entry c s \<noteq> None \<or> claiming op \<and> sc_Token c = ps_nextToken s + 1 \<and> ps_nextToken (pending_step op s) = ps_nextToken s + 1"
proof (cases "op_task op = sc_TaskID c")
  case True
  with assms registered_again_unclaimed registration_unclaimed show ?thesis
    by (cases op)
      (auto simp: held_entry_def pending_defs claiming_def confirm_only_def new_entry_def Let_def
        split: option.splits if_splits pending_state.splits)
next
  case False
  then show ?thesis using assms pending_step_frame by (simp add: held_entry_def)
qed

lemma unat_next: "unat (k :: 64 word) + 1 < 2 ^ 64 \<Longrightarrow> unat (k + 1) = unat k + 1"
  by (simp add: unat_word_ariths)

lemma stale_step:
  assumes "stale c s" and "claiming op \<Longrightarrow> unat (ps_nextToken s) + 1 < 2 ^ 64"
  shows "stale c (pending_step op s)"
proof -
  have "unat (ps_nextToken s) \<le> unat (ps_nextToken (pending_step op s))"
    using nextToken_step [of op s] unat_next [of "ps_nextToken s"] assms(2) by auto
  moreover have "held_entry c (pending_step op s) = None"
  proof (rule ccontr)
    assume "held_entry c (pending_step op s) \<noteq> None"
    then obtain e where "held_entry c (pending_step op s) = Some e" by auto
    from held_origin [OF this] assms(1) have "claiming op" "sc_Token c = ps_nextToken s + 1"
      by (auto simp: stale_def)
    with assms unat_next [of "ps_nextToken s"] show False by (simp add: stale_def)
  qed
  ultimately show ?thesis using assms(1) by (simp add: stale_def)
qed

lemma run_stale:
  "stale c s \<Longrightarrow> unat (ps_nextToken s) + length (filter claiming ops) < 2 ^ 64 \<Longrightarrow> stale c (run_pending ops s)"
proof (induction ops arbitrary: s)
  case (Cons op ops)
  have "stale c (pending_step op s)" using Cons.prems by (intro stale_step) (auto split: if_splits)
  moreover have "unat (ps_nextToken (pending_step op s)) + length (filter claiming ops) < 2 ^ 64"
    using Cons.prems(2) nextToken_step [of op s] unat_next [of "ps_nextToken s"] by (auto split: if_splits)
  ultimately show ?case using Cons.IH [of "pending_step op s"] by (simp add: run_pending_def)
qed (simp add: run_pending_def)

text \<open>
  A claim that was given back is powerless for ever: no later operation with it changes anything,
  even when the task was registered and claimed again, as long as fewer than 2 to the power of 64 claims are handed out.
\<close>

theorem stale_claim_powerless:
  assumes "stale c s" and "unat (ps_nextToken s) + length (filter claiming ops) < 2 ^ 64"
  shows "CompleteSend c (run_pending ops s) = (run_pending ops s, False)
     \<and> ReleaseSend c (run_pending ops s) = (run_pending ops s, False)
     \<and> InvalidateSend c (run_pending ops s) = (run_pending ops s, False)
     \<and> RemoveClaim c (run_pending ops s) = (run_pending ops s, False)"
  using run_stale [OF assms]
  by (simp add: stale_def CompleteSend_def ReleaseSend_def InvalidateSend_def RemoveClaim_def)

text \<open>A run for the witnesses: a cancelled task is registered, claimed, released and claimed again.\<close>

definition sample_authority :: process_signal_authority where
  "sample_authority = \<lparr>sa_TaskID = sample_id, sa_PID = 4242, sa_ProcessStartedAt = 7, sa_ExpectedState = StateCancelling,
     sa_LifecycleGeneration = Some 3\<rparr>"

definition waiting_set :: pending_set where
  "waiting_set = fst (Register sample_id PendingSendUnsent (Some sample_authority) empty_pending)"

definition first_claim :: send_claim where
  "first_claim = fst (snd (ClaimForSend sample_id sample_authority waiting_set))"

definition claimed_set :: pending_set where
  "claimed_set = fst (ClaimForSend sample_id sample_authority waiting_set)"

theorem send_claim_exclusive_witness:
  "held_entry first_claim claimed_set \<noteq> None
   \<and> ClaimForSend sample_id sample_authority (run_pending [OpRemove sample_id, OpRegister sample_id PendingSendSent None] claimed_set)
       = (run_pending [OpRemove sample_id, OpRegister sample_id PendingSendSent None] claimed_set, zero_claim, ClaimAlreadyClaimed)"
proof -
  have h: "held_entry first_claim claimed_set \<noteq> None" by code_simp
  then obtain e where e: "held_entry first_claim claimed_set = Some e" by auto
  have u: "\<forall>op \<in> set [OpRemove sample_id, OpRegister sample_id PendingSendSent None]. \<not> uses first_claim op"
    by (simp add: uses_def)
  have "sc_TaskID first_claim = sample_id" by code_simp
  with send_claim_exclusive [OF e u, of sample_authority] h show ?thesis by simp
qed

theorem no_send_after_settled_witness:
  "settled sample_id (fst (CompleteSend first_claim claimed_set))
   \<and> snd (snd (ClaimForSend sample_id sample_authority
        (run_pending [OpRegister sample_id PendingSendUnsent (Some sample_authority)] (fst (CompleteSend first_claim claimed_set)))))
      \<in> {ClaimSent, ClaimConfirmOnly}"
proof -
  have "map_option pe_state (ps_entries (fst (CompleteSend first_claim claimed_set)) sample_id) = Some pendingSent" by code_simp
  then have s: "settled sample_id (fst (CompleteSend first_claim claimed_set))" by (auto simp: settled_def)
  show ?thesis
    using no_send_after_settled [OF s, of "[OpRegister sample_id PendingSendUnsent (Some sample_authority)]"] s by simp
qed

definition released_set :: pending_set where
  "released_set = fst (ReleaseSend first_claim claimed_set)"

theorem stale_claim_powerless_witness:
  "stale first_claim released_set
   \<and> CompleteSend first_claim (run_pending [OpClaimForSend sample_id sample_authority] released_set)
       = (run_pending [OpClaimForSend sample_id sample_authority] released_set, False)
   \<and> snd (snd (ClaimForSend sample_id sample_authority released_set)) = ClaimAcquired"
proof -
  have "held_entry first_claim released_set = None" by code_simp
  moreover have "sc_Token first_claim = 1" and k: "ps_nextToken released_set = 1" by code_simp+
  ultimately have st: "stale first_claim released_set" by (simp add: stale_def)
  have "snd (snd (ClaimForSend sample_id sample_authority released_set)) = ClaimAcquired" by code_simp
  with st stale_claim_powerless [OF st, of "[OpClaimForSend sample_id sample_authority]"] k show ?thesis
    by (simp add: claiming_def)
qed


section \<open>Ownership\<close>

text \<open>
  The two ownership registries have one shape: the owners with their generation, and the last generation.
  The release function that \<open>Acquire\<close> returns is \<open>release_owner\<close> with the task and the generation; it runs
  its body at most once.
\<close>

record ownership_registry =
  or_owners :: "task_id \<rightharpoonup> 64 word"
  or_generation :: "64 word"

definition NewLifecycleOwnershipRegistry :: ownership_registry where
  "NewLifecycleOwnershipRegistry = \<lparr>or_owners = Map.empty, or_generation = 0\<rparr>"

definition NewRecoveryOwnershipRegistry :: ownership_registry where
  "NewRecoveryOwnershipRegistry = \<lparr>or_owners = Map.empty, or_generation = 0\<rparr>"

definition Acquire_lifecycle :: "task_id \<Rightarrow> ownership_registry \<Rightarrow> ownership_registry \<times> lifecycle_generation option" where
  "Acquire_lifecycle tid r =
     (if or_owners r tid \<noteq> None then (r, None)
      else let g = or_generation r + 1
           in (r\<lparr>or_generation := g, or_owners := (or_owners r)(tid \<mapsto> g)\<rparr>, Some g))"

definition release_lifecycle :: "task_id \<Rightarrow> lifecycle_generation \<Rightarrow> ownership_registry \<Rightarrow> ownership_registry" where
  "release_lifecycle tid g r = (if or_owners r tid = Some g then r\<lparr>or_owners := (or_owners r)(tid := None)\<rparr> else r)"

definition Current :: "task_id \<Rightarrow> ownership_registry \<Rightarrow> lifecycle_generation option" where
  "Current tid r = or_owners r tid"

definition IsOwned_lifecycle :: "task_id \<Rightarrow> ownership_registry \<Rightarrow> bool" where
  "IsOwned_lifecycle tid r \<longleftrightarrow> or_owners r tid \<noteq> None"

text \<open>\<open>action\<close> is the effect on the world with its error, which runs under the read lock of the registry.\<close>

definition WithCurrent :: "task_id \<Rightarrow> lifecycle_generation \<Rightarrow> ('w \<Rightarrow> 'w \<times> 'e option) \<Rightarrow> ownership_registry \<Rightarrow> 'w
    \<Rightarrow> 'w \<times> bool \<times> 'e option" where
  "WithCurrent tid g action r w =
     (if or_owners r tid \<noteq> Some g then (w, False, None)
      else case action w of (w, e) \<Rightarrow> (w, True, e))"

definition Acquire_recovery :: "task_id \<Rightarrow> ownership_registry \<Rightarrow> ownership_registry \<times> 64 word option" where
  "Acquire_recovery tid r =
     (if or_owners r tid \<noteq> None then (r, None)
      else let g = or_generation r + 1
           in (r\<lparr>or_generation := g, or_owners := (or_owners r)(tid \<mapsto> g)\<rparr>, Some g))"

definition release_recovery :: "task_id \<Rightarrow> 64 word \<Rightarrow> ownership_registry \<Rightarrow> ownership_registry" where
  "release_recovery tid g r = (if or_owners r tid = Some g then r\<lparr>or_owners := (or_owners r)(tid := None)\<rparr> else r)"

definition IsOwned_recovery :: "task_id \<Rightarrow> ownership_registry \<Rightarrow> bool" where
  "IsOwned_recovery tid r \<longleftrightarrow> or_owners r tid \<noteq> None"

text \<open>What the clients of a registry rely on.\<close>

locale ownership =
  fixes acquire :: "task_id \<Rightarrow> 'r \<Rightarrow> 'r \<times> 64 word option"
    and release :: "task_id \<Rightarrow> 64 word \<Rightarrow> 'r \<Rightarrow> 'r"
    and owner :: "'r \<Rightarrow> task_id \<rightharpoonup> 64 word"
    and issued :: "'r \<Rightarrow> 64 word"
  assumes acquire_free: "owner r tid = None \<Longrightarrow> acquire tid r = (r', ans) \<Longrightarrow>
      ans = Some (issued r + 1) \<and> owner r' = (owner r)(tid \<mapsto> issued r + 1) \<and> issued r' = issued r + 1"
    and acquire_taken: "owner r tid \<noteq> None \<Longrightarrow> acquire tid r = (r, None)"
    and release_own: "owner r tid = Some g \<Longrightarrow> owner (release tid g r) = (owner r)(tid := None)"
    and release_other: "owner r tid \<noteq> Some g \<Longrightarrow> owner (release tid g r) = owner r"
    and release_issued: "issued (release tid g r) = issued r"
begin

text \<open>The calls of all threads: to acquire a task, or to release a task with a generation.\<close>

definition call :: "task_id \<times> 64 word option \<Rightarrow> 'r \<Rightarrow> 'r" where
  "call c r = (case c of (tid, None) \<Rightarrow> fst (acquire tid r) | (tid, Some g) \<Rightarrow> release tid g r)"

lemma owner_kept:
  assumes "owner r tid = Some g" and "c \<noteq> (tid, Some g)"
  shows "owner (call c r) tid = Some g"
proof (cases c)
  case (Pair x h)
  show ?thesis
  proof (cases h)
    case None
    obtain r' q where a: "acquire x r = (r', q)" by fastforce
    show ?thesis
      using assms Pair None a acquire_free [of r x r' q] acquire_taken [of r x]
      by (cases "owner r x") (auto simp: call_def)
  next
    case (Some k)
    then show ?thesis
      using assms Pair release_own [of r x k] release_other [of r x k]
      by (cases "owner r x = Some k") (auto simp: call_def)
  qed
qed

text \<open>From an acquire to the matching release nobody else acquires the task.\<close>

lemma exclusive:
  assumes "acquire tid r = (r', Some g)" and "(tid, Some g) \<notin> set calls"
  shows "acquire tid (fold call calls r') = (fold call calls r', None)"
proof -
  have o: "owner r' tid = Some g"
    using assms(1) acquire_free [of r tid r' "Some g"] acquire_taken [of r tid] by (cases "owner r tid") auto
  have "owner (fold call calls q) tid = Some g" if "owner q tid = Some g" for q
    using that assms(2)
  proof (induction calls arbitrary: q)
    case (Cons c calls)
    then have "owner (call c q) tid = Some g" by (intro owner_kept) auto
    with Cons show ?case by simp
  qed simp
  with o have "owner (fold call calls r') tid \<noteq> None" by simp
  then show ?thesis by (rule acquire_taken)
qed

end

interpretation lifecycle: ownership Acquire_lifecycle release_lifecycle or_owners or_generation
  by unfold_locales (auto simp: Acquire_lifecycle_def release_lifecycle_def Let_def)

interpretation recovery: ownership Acquire_recovery release_recovery or_owners or_generation
  by unfold_locales (auto simp: Acquire_recovery_def release_recovery_def Let_def)

fun lifecycle_call :: "task_id \<times> 64 word option \<Rightarrow> ownership_registry \<Rightarrow> ownership_registry" where
  "lifecycle_call (tid, None) r = fst (Acquire_lifecycle tid r)"
| "lifecycle_call (tid, Some g) r = release_lifecycle tid g r"

lemma lifecycle_call_eq: "lifecycle.call = lifecycle_call"
  by (rule ext)+ (auto simp: lifecycle.call_def split: prod.split option.split)

text \<open>
  A task has one lifecycle owner at a time: from the moment \<open>Acquire\<close> succeeds until that owner calls
  its release function, every other \<open>Acquire\<close> of the task fails, whatever stale release functions are called.
\<close>

theorem lifecycle_owner_exclusive:
  assumes "Acquire_lifecycle tid r = (r', Some g)" and "(tid, Some g) \<notin> set calls"
  shows "Acquire_lifecycle tid (fold lifecycle_call calls r') = (fold lifecycle_call calls r', None)"
  using lifecycle.exclusive [OF assms] by (simp add: lifecycle_call_eq)

theorem lifecycle_owner_exclusive_witness:
  "Acquire_lifecycle sample_id (fold lifecycle_call [(sample_id, None), (sample_id, Some 7)] (fst (Acquire_lifecycle sample_id NewLifecycleOwnershipRegistry)))
     = (fold lifecycle_call [(sample_id, None), (sample_id, Some 7)] (fst (Acquire_lifecycle sample_id NewLifecycleOwnershipRegistry)), None)"
proof (rule lifecycle_owner_exclusive)
  show "Acquire_lifecycle sample_id NewLifecycleOwnershipRegistry = (fst (Acquire_lifecycle sample_id NewLifecycleOwnershipRegistry), Some 1)"
    by (simp add: Acquire_lifecycle_def NewLifecycleOwnershipRegistry_def Let_def)
qed simp


section \<open>The authority of a signal\<close>

definition validProcessSignalAuthority :: "process_signal_authority \<Rightarrow> bool" where
  "validProcessSignalAuthority a =
     (if tid_string (sa_TaskID a) = '''' \<or> sa_PID a \<le> 0 \<or> is_zero_time (sa_ProcessStartedAt a) then False
      else sa_ExpectedState a = StateTimeout \<or> sa_ExpectedState a = StateCancelling)"

definition matchesProcessSignalAuthority :: "task_snapshot \<Rightarrow> process_signal_authority \<Rightarrow> bool" where
  "matchesProcessSignalAuthority n a \<longleftrightarrow> sn_TaskID n = sa_TaskID a \<and> sn_PID n = Some (sa_PID a)
     \<and> sn_ProcessStartedAt n = Some (sa_ProcessStartedAt a) \<and> sn_State n = sa_ExpectedState a"

text \<open>\<open>action\<close> is the signal to a process id; \<open>'w\<close> is the world it acts on.\<close>

definition Validate_authority :: "string option \<Rightarrow> file_task_store \<Rightarrow> ownership_registry \<Rightarrow> process_signal_authority
    \<Rightarrow> (int \<Rightarrow> 'w \<Rightarrow> 'w \<times> domain_error option) \<Rightarrow> 'w \<Rightarrow> 'w \<times> bool \<times> domain_error option" where
  "Validate_authority fault store owners a action w =
     (if \<not> validProcessSignalAuthority a then (w, False, None)
      else
     (case Load fault store (sa_TaskID a) of
        Inl e \<Rightarrow> (w, False, Some e)
      | Inr n \<Rightarrow>
          if \<not> matchesProcessSignalAuthority n a then (w, False, None)
          else
     (case sa_LifecycleGeneration a of
        None \<Rightarrow> (case action (sa_PID a) w of (w, e) \<Rightarrow> (w, True, e))
      | Some g \<Rightarrow> WithCurrent (sa_TaskID a) g (action (sa_PID a)) owners w)))"

definition processSignalAuthority :: "task_snapshot \<Rightarrow> process_signal_authority option" where
  "processSignalAuthority n =
     (case (sn_PID n, sn_ProcessStartedAt n) of
        (Some pid, Some at) \<Rightarrow>
          if sn_State n \<noteq> StateTimeout \<and> sn_State n \<noteq> StateCancelling then None
          else Some \<lparr>sa_TaskID = sn_TaskID n, sa_PID = pid, sa_ProcessStartedAt = at, sa_ExpectedState = sn_State n,
                     sa_LifecycleGeneration = None\<rparr>
      | _ \<Rightarrow> None)"

definition pendingRegistration :: "task_snapshot \<Rightarrow> pending_send_disposition \<times> process_signal_authority option" where
  "pendingRegistration n =
     (if sn_State n = StateTimeout \<or> sn_State n = StateCancelling
      then (case processSignalAuthority n of
              Some a \<Rightarrow> (PendingSendUnsent, Some a)
            | None \<Rightarrow> (PendingSendConfirmOnly, None))
      else (PendingSendConfirmOnly, None))"

text \<open>
  C14: a signal goes out only to the process the task recorded. If the validator runs the action, the
  snapshot on disk at that moment is of this task, carries exactly this process id and start time and is
  in the expected state, timed out or cancelling; and when the authority names a lifecycle generation,
  that generation owns the task at that moment. In every other case nothing is signalled.
\<close>

theorem signal_only_recorded_process:
  "case Validate_authority fault store owners a action w of
     (w', executed, err) \<Rightarrow>
       if executed
       then (\<exists>n. disk_snapshot store (sa_TaskID a) = Some n \<and> sn_TaskID n = sa_TaskID a \<and> sn_PID n = Some (sa_PID a)
               \<and> 0 < sa_PID a \<and> sn_ProcessStartedAt n = Some (sa_ProcessStartedAt a) \<and> sn_State n = sa_ExpectedState a
               \<and> sa_ExpectedState a \<in> {StateTimeout, StateCancelling})
            \<and> (case sa_LifecycleGeneration a of None \<Rightarrow> True | Some g \<Rightarrow> Current (sa_TaskID a) owners = Some g)
            \<and> (w', err) = action (sa_PID a) w
       else w' = w"
  using file_tasks.load_stored [of fault store "sa_TaskID a"]
  by (auto simp: Validate_authority_def WithCurrent_def validProcessSignalAuthority_def matchesProcessSignalAuthority_def
      Current_def split: sum.splits prod.splits option.splits if_splits)

text \<open>
  What a reconciliation registers for a stored task is always accepted by the set, unless the task is
  claimed; in particular a valid snapshot never yields an authority without a process.
\<close>

theorem registration_accepted:
  assumes "Validate n = None" and "\<forall>e. ps_entries s (sn_TaskID n) = Some e \<longrightarrow> pe_state e \<noteq> pendingClaimed"
  shows "snd (Register (sn_TaskID n) (fst (pendingRegistration n)) (snd (pendingRegistration n)) s) = None"
proof -
  have c: "validate_core n = None" using assms(1) by (simp add: Validate_None)
  have "validatePendingRegistration (sn_TaskID n) (fst (pendingRegistration n)) (snd (pendingRegistration n)) = None"
    using validate_core_process [OF c]
    by (auto simp: validatePendingRegistration_def pendingRegistration_def processSignalAuthority_def is_zero_time_def
        split: option.splits)
  with assms(2) show ?thesis by (auto simp: Register_def split: option.splits)
qed


definition sample_cancelling :: task_snapshot where
  "sample_cancelling = (overlay_task sample_base (sample_task StateCancelling) 9)\<lparr>sn_PID := Some 4242, sn_ProcessStartedAt := Some 7\<rparr>"

theorem registration_accepted_witness:
  "snd (Register (sn_TaskID sample_cancelling) (fst (pendingRegistration sample_cancelling)) (snd (pendingRegistration sample_cancelling)) empty_pending) = None
   \<and> fst (pendingRegistration sample_cancelling) = PendingSendUnsent"
proof
  show "snd (Register (sn_TaskID sample_cancelling) (fst (pendingRegistration sample_cancelling)) (snd (pendingRegistration sample_cancelling)) empty_pending) = None"
  proof (rule registration_accepted)
    show "Validate sample_cancelling = None" by code_simp
  qed (simp add: empty_pending_def)
  show "fst (pendingRegistration sample_cancelling) = PendingSendUnsent" by code_simp
qed

end
