(* ===== verification/Timeout_Watcher.thy ===== *)
theory Timeout_Watcher
  imports Domain_Values "HOL-Library.Word" "HOL-Library.Multiset"
begin

text \<open>
  The timeout watcher of \<^verbatim>\<open>internal/execution/timeout.go\<close>: armed timers, their callbacks, the retries of a
  failed enforcement, disarming and closing.

  A callback of a timer runs in its own thread and takes the mutex of the watcher twice: before and after
  it enforces the timeout. So a callback is \<open>scheduled\<close> while its timer has not fired, \<open>fired\<close> until its
  first locked section, and \<open>running\<close> while it enforces. The wait group of the source counts exactly these
  callbacks. Stopping a timer works only while its callback is scheduled. The environment decides when
  timers fire, how threads interleave and whether an enforcement fails with a retryable error.
\<close>

section \<open>State\<close>

definition timeoutEnforcementRetryInterval :: duration where
  "timeoutEnforcementRetryInterval = 10 * go_second"

definition timeoutEnforcementRetryMaxAttempts :: nat where
  "timeoutEnforcementRetryMaxAttempts = 6"

record armed_timer =
  at_cancel :: nat
  at_deadline :: go_time
  at_resolvedTimeoutSeconds :: int
  at_generation :: "64 word"
  at_lifecycleGeneration :: "64 word"
  at_retryAttempts :: nat
  at_executing :: bool

record callback =
  cb_timer :: nat
  cb_task :: task_id
  cb_generation :: "64 word"
  cb_delay :: duration

record watcher =
  wt_timers :: "task_id \<rightharpoonup> armed_timer"
  wt_nextGeneration :: "64 word"
  wt_closed :: bool
  wt_scheduled :: "callback list"
  wt_fired :: "callback list"
  wt_running :: "callback list"
  wt_nextTimer :: nat

definition NewTimeoutWatcher :: watcher where
  "NewTimeoutWatcher = \<lparr>wt_timers = Map.empty, wt_nextGeneration = 0, wt_closed = False, wt_scheduled = [],
     wt_fired = [], wt_running = [], wt_nextTimer = 0\<rparr>"

section \<open>Timers\<close>

definition AfterFunc :: "duration \<Rightarrow> task_id \<Rightarrow> 64 word \<Rightarrow> watcher \<Rightarrow> watcher" where
  "AfterFunc d tid g w = w\<lparr>wt_scheduled := \<lparr>cb_timer = wt_nextTimer w, cb_task = tid, cb_generation = g, cb_delay = d\<rparr> # wt_scheduled w,
     wt_nextTimer := wt_nextTimer w + 1\<rparr>"

definition cancel_timer :: "nat \<Rightarrow> watcher \<Rightarrow> watcher" where
  "cancel_timer k w = w\<lparr>wt_scheduled := filter (\<lambda>c. cb_timer c \<noteq> k) (wt_scheduled w)\<rparr>"

definition cancel_armed :: "task_id \<Rightarrow> watcher \<Rightarrow> watcher" where
  "cancel_armed tid w = (case wt_timers w tid of None \<Rightarrow> w | Some old \<Rightarrow> cancel_timer (at_cancel old) w)"

section \<open>Operations\<close>

definition Arm :: "task_id \<Rightarrow> go_time \<Rightarrow> int \<Rightarrow> 64 word \<Rightarrow> go_time \<Rightarrow> watcher \<Rightarrow> watcher" where
  "Arm tid deadline resolved lifecycle now w =
     (if wt_closed w then w
      else
        let w = cancel_armed tid w;
            g = wt_nextGeneration w + 1;
            delay = time_sub deadline now;
            k = wt_nextTimer w;
            w = AfterFunc (if delay < 0 then 0 else delay) tid g (w\<lparr>wt_nextGeneration := g\<rparr>)
        in w\<lparr>wt_timers := (wt_timers w)(tid \<mapsto> \<lparr>at_cancel = k, at_deadline = deadline, at_resolvedTimeoutSeconds = resolved,
                at_generation = g, at_lifecycleGeneration = lifecycle, at_retryAttempts = 0, at_executing = False\<rparr>)\<rparr>)"

text \<open>A timer that was not stopped fires.\<close>

definition fire :: "callback \<Rightarrow> watcher \<Rightarrow> watcher" where
  "fire c w = w\<lparr>wt_scheduled := remove1 c (wt_scheduled w), wt_fired := c # wt_fired w\<rparr>"

text \<open>The first locked section of a callback: it enforces the timeout only for the current, idle timer.\<close>

definition may_enforce :: "callback \<Rightarrow> watcher \<Rightarrow> bool" where
  "may_enforce c w =
     (case wt_timers w (cb_task c) of
        None \<Rightarrow> False
      | Some armed \<Rightarrow> \<not> (at_generation armed \<noteq> cb_generation c \<or> at_executing armed \<or> wt_closed w))"

definition callback_begin :: "callback \<Rightarrow> watcher \<Rightarrow> watcher" where
  "callback_begin c w =
     (let w = w\<lparr>wt_fired := remove1 c (wt_fired w)\<rparr>
      in if \<not> may_enforce c w then w
         else w\<lparr>wt_timers := (wt_timers w)(cb_task c \<mapsto> (the (wt_timers w (cb_task c)))\<lparr>at_executing := True\<rparr>),
                wt_running := c # wt_running w\<rparr>)"

text \<open>\<open>retryable\<close> tells that the enforcement returned a retryable \<open>TimeoutEnforcementError\<close>.\<close>

definition finishExecution :: "task_id \<Rightarrow> 64 word \<Rightarrow> bool \<Rightarrow> watcher \<Rightarrow> watcher" where
  "finishExecution tid g retryable w =
     (case wt_timers w tid of
        None \<Rightarrow> w
      | Some current \<Rightarrow>
          if at_generation current \<noteq> g then w
          else if wt_closed w \<or> \<not> retryable then w\<lparr>wt_timers := (wt_timers w)(tid := None)\<rparr>
          else if at_retryAttempts current \<ge> timeoutEnforcementRetryMaxAttempts then w\<lparr>wt_timers := (wt_timers w)(tid := None)\<rparr>
          else
            let k = wt_nextTimer w;
                w = AfterFunc timeoutEnforcementRetryInterval tid g w
            in w\<lparr>wt_timers := (wt_timers w)(tid \<mapsto> current\<lparr>at_retryAttempts := at_retryAttempts current + 1,
                   at_executing := False, at_cancel := k\<rparr>)\<rparr>)"

definition callback_end :: "callback \<Rightarrow> bool \<Rightarrow> watcher \<Rightarrow> watcher" where
  "callback_end c retryable w =
     finishExecution (cb_task c) (cb_generation c) retryable (w\<lparr>wt_running := remove1 c (wt_running w)\<rparr>)"

definition Disarm :: "task_id \<Rightarrow> watcher \<Rightarrow> watcher" where
  "Disarm tid w =
     (case wt_timers w tid of
        None \<Rightarrow> w
      | Some armed \<Rightarrow> (cancel_timer (at_cancel armed) w)\<lparr>wt_timers := (wt_timers w)(tid := None)\<rparr>)"

text \<open>\<open>Close\<close> up to its wait: every armed timer is stopped and forgotten.\<close>

definition Close :: "watcher \<Rightarrow> watcher" where
  "Close w =
     (if wt_closed w then w
      else w\<lparr>wt_closed := True,
             wt_scheduled := filter (\<lambda>c. \<not> (case wt_timers w (cb_task c) of None \<Rightarrow> False | Some a \<Rightarrow> at_cancel a = cb_timer c)) (wt_scheduled w),
             wt_timers := Map.empty\<rparr>)"

section \<open>Runs\<close>

text \<open>
  A run collects the enforcements it started, as pairs of task and timer generation. The generation
  counter is a 64-bit word; a run arms fewer timers than it can count.
\<close>

inductive watcher_run :: "watcher \<Rightarrow> (task_id \<times> 64 word) list \<Rightarrow> bool" where
  start: "watcher_run NewTimeoutWatcher []"
| arm: "watcher_run w log \<Longrightarrow> unat (wt_nextGeneration w) + 1 < 2 ^ 64 \<Longrightarrow> watcher_run (Arm tid deadline resolved lg now w) log"
| fire: "watcher_run w log \<Longrightarrow> c \<in> set (wt_scheduled w) \<Longrightarrow> watcher_run (fire c w) log"
| enforce: "watcher_run w log \<Longrightarrow> c \<in> set (wt_fired w) \<Longrightarrow> may_enforce c w
     \<Longrightarrow> watcher_run (callback_begin c w) ((cb_task c, cb_generation c) # log)"
| skip: "watcher_run w log \<Longrightarrow> c \<in> set (wt_fired w) \<Longrightarrow> \<not> may_enforce c w \<Longrightarrow> watcher_run (callback_begin c w) log"
| finish: "watcher_run w log \<Longrightarrow> c \<in> set (wt_running w) \<Longrightarrow> watcher_run (callback_end c retryable w) log"
| disarm: "watcher_run w log \<Longrightarrow> watcher_run (Disarm tid w) log"
| close: "watcher_run w log \<Longrightarrow> watcher_run (Close w) log"


section \<open>The invariant\<close>

definition callbacks :: "watcher \<Rightarrow> callback list" where
  "callbacks w = wt_scheduled w @ wt_fired w @ wt_running w"

text \<open>How many callbacks enforce the timeout of one timer right now.\<close>

definition enforcing :: "watcher \<Rightarrow> task_id \<Rightarrow> 64 word \<Rightarrow> nat" where
  "enforcing w tid g = length (filter (\<lambda>c. cb_task c = tid \<and> cb_generation c = g) (wt_running w))"

definition ids_ok :: "watcher \<Rightarrow> bool" where
  "ids_ok w \<longleftrightarrow> distinct (map cb_timer (callbacks w))
     \<and> (\<forall>c \<in> set (callbacks w). cb_timer c < wt_nextTimer w \<and> unat (cb_generation c) \<le> unat (wt_nextGeneration w))
     \<and> (\<forall>tid a. wt_timers w tid = Some a \<longrightarrow> at_cancel a < wt_nextTimer w \<and> unat (at_generation a) \<le> unat (wt_nextGeneration w))
     \<and> (\<forall>x y a b. wt_timers w x = Some a \<longrightarrow> wt_timers w y = Some b \<longrightarrow> at_cancel a = at_cancel b \<longrightarrow> x = y)"

definition serves :: "callback \<Rightarrow> task_id \<Rightarrow> armed_timer \<Rightarrow> bool" where
  "serves c tid a \<longleftrightarrow> cb_task c = tid \<and> cb_timer c = at_cancel a \<and> cb_generation c = at_generation a"

definition timers_ok :: "watcher \<Rightarrow> bool" where
  "timers_ok w \<longleftrightarrow>
     (\<forall>c \<in> set (wt_scheduled w). \<exists>a. wt_timers w (cb_task c) = Some a \<and> serves c (cb_task c) a \<and> \<not> at_executing a)
     \<and> (\<forall>c \<in> set (wt_fired w). \<forall>a. wt_timers w (cb_task c) = Some a \<longrightarrow> at_generation a = cb_generation c
          \<longrightarrow> cb_timer c = at_cancel a \<and> \<not> at_executing a)
     \<and> (\<forall>tid a. wt_timers w tid = Some a \<longrightarrow> \<not> at_executing a \<longrightarrow> (\<exists>c. (c \<in> set (wt_scheduled w) \<or> c \<in> set (wt_fired w)) \<and> serves c tid a))
     \<and> (wt_closed w \<longrightarrow> wt_timers w = Map.empty)"

definition counts_ok :: "watcher \<Rightarrow> (task_id \<times> 64 word) list \<Rightarrow> bool" where
  "counts_ok w log \<longleftrightarrow>
     (\<forall>tid a. wt_timers w tid = Some a \<longrightarrow>
        at_retryAttempts a \<le> timeoutEnforcementRetryMaxAttempts
        \<and> count_list log (tid, at_generation a) = at_retryAttempts a + (if at_executing a then 1 else 0)
        \<and> enforcing w tid (at_generation a) = (if at_executing a then 1 else 0))
     \<and> (\<forall>tid g. count_list log (tid, g) \<le> timeoutEnforcementRetryMaxAttempts + 1 \<and> enforcing w tid g \<le> 1
          \<and> (unat (wt_nextGeneration w) < unat g \<longrightarrow> count_list log (tid, g) = 0 \<and> enforcing w tid g = 0))"

lemmas watcher_inv_defs = ids_ok_def timers_ok_def counts_ok_def serves_def callbacks_def enforcing_def

lemma unat_next_generation: "unat (k :: 64 word) + 1 < 2 ^ 64 \<Longrightarrow> unat (k + 1) = unat k + 1"
  by (simp add: unat_word_ariths)

lemma cancel_armed_sel [simp]:
  "wt_timers (cancel_armed tid w) = wt_timers w" "wt_nextGeneration (cancel_armed tid w) = wt_nextGeneration w"
  "wt_closed (cancel_armed tid w) = wt_closed w" "wt_fired (cancel_armed tid w) = wt_fired w"
  "wt_running (cancel_armed tid w) = wt_running w" "wt_nextTimer (cancel_armed tid w) = wt_nextTimer w"
  by (simp_all add: cancel_armed_def cancel_timer_def split: option.split)

lemma cancel_armed_scheduled:
  "wt_scheduled (cancel_armed tid w) = filter (\<lambda>c. \<forall>a. wt_timers w tid = Some a \<longrightarrow> cb_timer c \<noteq> at_cancel a) (wt_scheduled w)"
  by (simp add: cancel_armed_def cancel_timer_def split: option.split)

text \<open>After the old timer of a task is stopped, no callback of the task is scheduled.\<close>

lemma cancelled_tasks:
  assumes "timers_ok w" and "c \<in> set (wt_scheduled (cancel_armed tid w))"
  shows "c \<in> set (wt_scheduled w)" and "cb_task c \<noteq> tid"
  using assms by (auto simp: cancel_armed_scheduled timers_ok_def serves_def)

lemma distinct_map_filter_append:
  "distinct (map f (xs @ ys)) \<Longrightarrow> distinct (map f (filter P xs @ ys))"
  by (induction xs) auto

section \<open>Every step keeps the invariant\<close>

lemma Arm_sel:
  assumes "\<not> wt_closed w"
  shows "wt_timers (Arm tid d r lg now w) = (wt_timers w)(tid \<mapsto> \<lparr>at_cancel = wt_nextTimer w, at_deadline = d,
      at_resolvedTimeoutSeconds = r, at_generation = wt_nextGeneration w + 1, at_lifecycleGeneration = lg, at_retryAttempts = 0, at_executing = False\<rparr>)"
    and "wt_scheduled (Arm tid d r lg now w) = \<lparr>cb_timer = wt_nextTimer w, cb_task = tid, cb_generation = wt_nextGeneration w + 1,
      cb_delay = (if time_sub d now < 0 then 0 else time_sub d now)\<rparr> # wt_scheduled (cancel_armed tid w)"
    and "wt_fired (Arm tid d r lg now w) = wt_fired w" and "wt_running (Arm tid d r lg now w) = wt_running w"
    and "wt_nextTimer (Arm tid d r lg now w) = wt_nextTimer w + 1"
    and "wt_nextGeneration (Arm tid d r lg now w) = wt_nextGeneration w + 1" and "\<not> wt_closed (Arm tid d r lg now w)"
  using assms by (simp_all add: Arm_def AfterFunc_def Let_def)

lemma Arm_ids:
  assumes "ids_ok w" and "unat (wt_nextGeneration w) + 1 < 2 ^ 64" and "\<not> wt_closed w"
  shows "ids_ok (Arm tid d r lg now w)"
proof -
  note sel = Arm_sel [OF assms(3), of tid d r lg now]
  note g = unat_next_generation [OF assms(2)]
  let ?keep = "filter (\<lambda>c. \<forall>a. wt_timers w tid = Some a \<longrightarrow> cb_timer c \<noteq> at_cancel a) (wt_scheduled w)"
  have old: "distinct (map cb_timer (?keep @ wt_fired w @ wt_running w))"
    using assms(1) by (intro distinct_map_filter_append) (simp add: ids_ok_def callbacks_def)
  have bound: "cb_timer c < wt_nextTimer w \<and> unat (cb_generation c) \<le> unat (wt_nextGeneration w)"
    if "c \<in> set (?keep @ wt_fired w @ wt_running w)" for c
    using assms(1) that by (auto simp: ids_ok_def callbacks_def)
  have tbound: "at_cancel a < wt_nextTimer w \<and> unat (at_generation a) \<le> unat (wt_nextGeneration w)" if "wt_timers w x = Some a" for x a
    using assms(1) that by (simp add: ids_ok_def)
  then have fresh: "wt_timers w x = Some a \<Longrightarrow> at_cancel a = wt_nextTimer w \<Longrightarrow> x = y"
    "wt_timers w x = Some a \<Longrightarrow> wt_nextTimer w = at_cancel a \<Longrightarrow> y = x" for x y a
    by (metis less_irrefl)+
  show ?thesis
    unfolding ids_ok_def
  proof (intro conjI)
    have "wt_nextTimer w \<notin> set (map cb_timer (?keep @ wt_fired w @ wt_running w))" using bound by fastforce
    with old show "distinct (map cb_timer (callbacks (Arm tid d r lg now w)))"
      by (simp add: callbacks_def sel cancel_armed_scheduled)
    show "\<forall>c \<in> set (callbacks (Arm tid d r lg now w)). cb_timer c < wt_nextTimer (Arm tid d r lg now w)
        \<and> unat (cb_generation c) \<le> unat (wt_nextGeneration (Arm tid d r lg now w))"
      using bound g by (auto simp: callbacks_def sel cancel_armed_scheduled intro: le_SucI less_SucI)
    show "\<forall>x a. wt_timers (Arm tid d r lg now w) x = Some a \<longrightarrow> at_cancel a < wt_nextTimer (Arm tid d r lg now w)
        \<and> unat (at_generation a) \<le> unat (wt_nextGeneration (Arm tid d r lg now w))"
      using tbound g by (auto simp: sel intro: less_SucI le_SucI)
    show "\<forall>x y a b. wt_timers (Arm tid d r lg now w) x = Some a \<longrightarrow> wt_timers (Arm tid d r lg now w) y = Some b
        \<longrightarrow> at_cancel a = at_cancel b \<longrightarrow> x = y"
      using assms(1) fresh by (auto simp: sel ids_ok_def)
  qed
qed

lemma waiting_callback:
  assumes "timers_ok w" and "wt_timers w x = Some a" and "\<not> at_executing a"
  obtains c where "c \<in> set (wt_scheduled w) \<or> c \<in> set (wt_fired w)" and "serves c x a"
  using assms unfolding timers_ok_def by blast

text \<open>Stopping the timer of one task leaves the callbacks of the others.\<close>

lemma waiting_kept:
  assumes "ids_ok w" and "timers_ok w" and "wt_timers w x = Some a" and "\<not> at_executing a" and "x \<noteq> tid"
  shows "\<exists>c. (c \<in> set (wt_scheduled (cancel_armed tid w)) \<or> c \<in> set (wt_fired w)) \<and> serves c x a"
proof -
  obtain c where c: "c \<in> set (wt_scheduled w) \<or> c \<in> set (wt_fired w)" "serves c x a"
    using waiting_callback [OF assms(2-4)] .
  have "cb_timer c \<noteq> at_cancel b" if "wt_timers w tid = Some b" for b
    using assms(1,3,5) c(2) that unfolding ids_ok_def serves_def by metis
  with c show ?thesis by (auto simp: cancel_armed_scheduled)
qed

lemma timers_okI:
  assumes "\<And>c. c \<in> set (wt_scheduled w) \<Longrightarrow> \<exists>a. wt_timers w (cb_task c) = Some a \<and> serves c (cb_task c) a \<and> \<not> at_executing a"
    and "\<And>x a. wt_timers w x = Some a \<Longrightarrow> \<not> at_executing a \<Longrightarrow> \<exists>c. (c \<in> set (wt_scheduled w) \<or> c \<in> set (wt_fired w)) \<and> serves c x a"
    and "wt_closed w \<Longrightarrow> wt_timers w = Map.empty"
    and "\<And>c a. c \<in> set (wt_fired w) \<Longrightarrow> wt_timers w (cb_task c) = Some a \<Longrightarrow> at_generation a = cb_generation c
           \<Longrightarrow> cb_timer c = at_cancel a \<and> \<not> at_executing a"
  shows "timers_ok w"
  unfolding timers_ok_def by (intro conjI ballI allI impI) (use assms in blast)+

lemma Arm_timers:
  assumes "ids_ok w" and "timers_ok w" and "\<not> wt_closed w" and "unat (wt_nextGeneration w) + 1 < 2 ^ 64"
  shows "timers_ok (Arm tid d r lg now w)"
proof (rule timers_okI)
  note sel = Arm_sel [OF assms(3), of tid d r lg now]
  fix c assume "c \<in> set (wt_scheduled (Arm tid d r lg now w))"
  then consider "c = \<lparr>cb_timer = wt_nextTimer w, cb_task = tid, cb_generation = wt_nextGeneration w + 1,
      cb_delay = (if time_sub d now < 0 then 0 else time_sub d now)\<rparr>" | "c \<in> set (wt_scheduled (cancel_armed tid w))"
    by (auto simp: sel)
  then show "\<exists>a. wt_timers (Arm tid d r lg now w) (cb_task c) = Some a \<and> serves c (cb_task c) a \<and> \<not> at_executing a"
  proof cases
    case 2
    with assms(2) cancelled_tasks [OF assms(2) 2] show ?thesis by (auto simp: sel timers_ok_def)
  qed (simp add: sel serves_def)
next
  note sel = Arm_sel [OF assms(3), of tid d r lg now]
  fix x a assume "wt_timers (Arm tid d r lg now w) x = Some a" and "\<not> at_executing a"
  then show "\<exists>c. (c \<in> set (wt_scheduled (Arm tid d r lg now w)) \<or> c \<in> set (wt_fired (Arm tid d r lg now w))) \<and> serves c x a"
    using waiting_kept [OF assms(1,2), of x a tid] by (cases "x = tid") (auto simp: sel serves_def)
next
  note sel = Arm_sel [OF assms(3), of tid d r lg now]
  fix c a
  assume c: "c \<in> set (wt_fired (Arm tid d r lg now w))" "wt_timers (Arm tid d r lg now w) (cb_task c) = Some a"
    "at_generation a = cb_generation c"
  then have "unat (cb_generation c) \<le> unat (wt_nextGeneration w)" using assms(1) by (simp add: sel ids_ok_def callbacks_def)
  then have "cb_generation c \<noteq> wt_nextGeneration w + 1" using unat_next_generation [OF assms(4)] by auto
  with c assms(2) show "cb_timer c = at_cancel a \<and> \<not> at_executing a"
    by (auto simp: sel timers_ok_def split: if_splits)
qed (use Arm_sel(7) [OF assms(3)] in simp)

lemma Arm_counts:
  assumes "ids_ok w" and "counts_ok w log" and "unat (wt_nextGeneration w) + 1 < 2 ^ 64" and "\<not> wt_closed w"
  shows "counts_ok (Arm tid d r lg now w) log"
  using assms(2) unat_next_generation [OF assms(3)]
  by (auto simp: counts_ok_def enforcing_def Arm_sel [OF assms(4)])


text \<open>Steps that only move or drop callbacks.\<close>

lemma distinct_map_remove1: "distinct (map f xs) \<Longrightarrow> distinct (map f (remove1 c xs))"
  by (induction xs) (auto dest: subsetD [OF set_remove1_subset])

lemma distinct_map_drop:
  assumes "distinct (map f (xs @ ys @ zs))"
  shows "distinct (map f (xs @ remove1 c ys @ zs))"
proof -
  have "f ` set (remove1 c ys) \<subseteq> f ` set ys" by (intro image_mono set_remove1_subset)
  moreover have "distinct (map f xs)" "distinct (map f ys)" "distinct (map f zs)" "f ` set xs \<inter> (f ` set ys \<union> f ` set zs) = {}"
    "f ` set ys \<inter> f ` set zs = {}"
    using assms by auto
  moreover have "distinct (map f (remove1 c ys))" using calculation(3) by (rule distinct_map_remove1)
  ultimately show ?thesis unfolding map_append distinct_append set_append set_map by blast
qed

lemma distinct_map_move:
  assumes "c \<in> set xs" and "distinct (map f (zs @ xs @ ys))"
  shows "distinct (map f (zs @ remove1 c xs @ c # ys))"
proof -
  have xs: "mset xs = add_mset c (mset (remove1 c xs))" using assms(1) by simp
  have "mset (map f (zs @ remove1 c xs @ c # ys)) = mset (map f (zs @ xs @ ys))"
    using xs by (simp del: mset_remove1)
  then show ?thesis using assms(2) mset_eq_imp_distinct_iff by blast
qed

definition timers_from :: "watcher \<Rightarrow> watcher \<Rightarrow> bool" where
  "timers_from w w' \<longleftrightarrow> wt_nextTimer w' = wt_nextTimer w \<and> wt_nextGeneration w' = wt_nextGeneration w
     \<and> (\<forall>x a'. wt_timers w' x = Some a' \<longrightarrow> (\<exists>a. wt_timers w x = Some a \<and> at_cancel a' = at_cancel a \<and> at_generation a' = at_generation a))"

lemma ids_ok_subset:
  assumes "ids_ok w" and "distinct (map cb_timer (callbacks w'))" and "set (callbacks w') \<subseteq> set (callbacks w)" and "timers_from w w'"
  shows "ids_ok w'"
proof -
  have t: "\<exists>a. wt_timers w x = Some a \<and> at_cancel a' = at_cancel a \<and> at_generation a' = at_generation a" if "wt_timers w' x = Some a'" for x a'
    using assms(4) that by (simp add: timers_from_def)
  have b: "at_cancel a < wt_nextTimer w \<and> unat (at_generation a) \<le> unat (wt_nextGeneration w)" if "wt_timers w x = Some a" for x a
    using assms(1) that by (simp add: ids_ok_def)
  have i: "x = y" if "wt_timers w x = Some a" "wt_timers w y = Some b" "at_cancel a = at_cancel b" for x y a b
    using assms(1) that unfolding ids_ok_def by blast
  have n: "wt_nextTimer w' = wt_nextTimer w" "wt_nextGeneration w' = wt_nextGeneration w" using assms(4) by (simp_all add: timers_from_def)
  show ?thesis
    unfolding ids_ok_def n
  proof (intro conjI)
    show "\<forall>c \<in> set (callbacks w'). cb_timer c < wt_nextTimer w \<and> unat (cb_generation c) \<le> unat (wt_nextGeneration w)"
      using assms(1,3) by (auto simp: ids_ok_def)
    show "\<forall>x a. wt_timers w' x = Some a \<longrightarrow> at_cancel a < wt_nextTimer w \<and> unat (at_generation a) \<le> unat (wt_nextGeneration w)"
      using t b by (metis)
    show "\<forall>x y a b. wt_timers w' x = Some a \<longrightarrow> wt_timers w' y = Some b \<longrightarrow> at_cancel a = at_cancel b \<longrightarrow> x = y"
      using t i by metis
  qed (rule assms(2))
qed

lemma fire_ok:
  assumes "ids_ok w" and "timers_ok w" and "counts_ok w log" and "c \<in> set (wt_scheduled w)"
  shows "ids_ok (fire c w)" and "timers_ok (fire c w)" and "counts_ok (fire c w) log"
proof -
  have "distinct (map cb_timer ([] @ remove1 c (wt_scheduled w) @ c # (wt_fired w @ wt_running w)))"
    using assms(1,4) by (intro distinct_map_move) (simp_all add: ids_ok_def callbacks_def)
  then show "ids_ok (fire c w)"
    by (intro ids_ok_subset [OF assms(1)])
      (use assms(4) set_remove1_subset in \<open>auto simp: fire_def callbacks_def timers_from_def\<close>)
  show "timers_ok (fire c w)"
  proof (rule timers_okI)
    fix x a assume a: "wt_timers (fire c w) x = Some a" "\<not> at_executing a"
    then have "wt_timers w x = Some a" by (simp add: fire_def)
    from waiting_callback [OF assms(2) this a(2)] obtain d where "d \<in> set (wt_scheduled w) \<or> d \<in> set (wt_fired w)" "serves d x a" .
    then show "\<exists>c'. (c' \<in> set (wt_scheduled (fire c w)) \<or> c' \<in> set (wt_fired (fire c w))) \<and> serves c' x a"
      by (intro exI [of _ d]) (cases "d = c", simp_all add: fire_def in_set_remove1)
  next
    fix d a assume "d \<in> set (wt_fired (fire c w))" "wt_timers (fire c w) (cb_task d) = Some a" "at_generation a = cb_generation d"
    with assms(2,4) show "cb_timer d = at_cancel a \<and> \<not> at_executing a"
      by (cases "d = c") (auto simp: fire_def timers_ok_def serves_def)
  qed (use assms(2) set_remove1_subset in \<open>auto simp: fire_def timers_ok_def\<close>)
  show "counts_ok (fire c w) log" using assms(3) by (simp add: counts_ok_def enforcing_def fire_def)
qed

lemma skip_ok:
  assumes "ids_ok w" and "timers_ok w" and "counts_ok w log" and "c \<in> set (wt_fired w)" and "\<not> may_enforce c w"
  shows "ids_ok (callback_begin c w)" and "timers_ok (callback_begin c w)" and "counts_ok (callback_begin c w) log"
proof -
  have m: "may_enforce c (w\<lparr>wt_fired := f\<rparr>) = may_enforce c w" for f by (simp add: may_enforce_def split: option.split)
  have w': "callback_begin c w = w\<lparr>wt_fired := remove1 c (wt_fired w)\<rparr>"
    using assms(5) m by (simp add: callback_begin_def Let_def)
  have "distinct (map cb_timer (callbacks w))" using assms(1) by (simp add: ids_ok_def)
  then have "distinct (map cb_timer (wt_scheduled w @ remove1 c (wt_fired w) @ wt_running w))"
    unfolding callbacks_def by (rule distinct_map_drop)
  then show "ids_ok (callback_begin c w)"
    by (intro ids_ok_subset [OF assms(1)])
      (use set_remove1_subset in \<open>auto simp: w' callbacks_def timers_from_def\<close>)
  show "timers_ok (callback_begin c w)"
  proof (rule timers_okI)
    fix x a assume a: "wt_timers (callback_begin c w) x = Some a" "\<not> at_executing a"
    then have x: "wt_timers w x = Some a" by (simp add: w')
    from waiting_callback [OF assms(2) this a(2)] obtain d where d: "d \<in> set (wt_scheduled w) \<or> d \<in> set (wt_fired w)" "serves d x a" .
    have "d \<noteq> c" using a x d(2) assms(2,5) by (auto simp: may_enforce_def serves_def timers_ok_def)
    with d show "\<exists>c'. (c' \<in> set (wt_scheduled (callback_begin c w)) \<or> c' \<in> set (wt_fired (callback_begin c w))) \<and> serves c' x a"
      by (intro exI [of _ d]) (simp add: w' in_set_remove1)
  qed (use assms(2) in \<open>auto simp: w' timers_ok_def\<close>)
  show "counts_ok (callback_begin c w) log" using assms(3) by (simp add: counts_ok_def enforcing_def w')
qed


lemma may_enforce_fired [simp]: "may_enforce c (w\<lparr>wt_fired := f\<rparr>) = may_enforce c w"
  by (simp add: may_enforce_def split: option.split)

lemma may_enforceE:
  assumes "may_enforce c w"
  obtains a where "wt_timers w (cb_task c) = Some a" and "at_generation a = cb_generation c" and "\<not> at_executing a" and "\<not> wt_closed w"
  using assms by (auto simp: may_enforce_def split: option.splits)

lemma counts_okD:
  assumes "counts_ok w log" and "wt_timers w tid = Some a"
  shows "at_retryAttempts a \<le> timeoutEnforcementRetryMaxAttempts"
    and "count_list log (tid, at_generation a) = at_retryAttempts a + (if at_executing a then 1 else 0)"
    and "enforcing w tid (at_generation a) = (if at_executing a then 1 else 0)"
  using assms unfolding counts_ok_def by blast+

lemma distinct_timer_unique:
  assumes "ids_ok w" and "c \<in> set (wt_fired w)" and "cb_timer d = cb_timer c"
  shows "d \<notin> set (wt_scheduled w)" and "d \<in> set (wt_fired w) \<Longrightarrow> d = c"
  using assms by (auto simp: ids_ok_def callbacks_def distinct_map inj_on_def image_iff)

lemma enforce_ok:
  assumes i: "ids_ok w" and t: "timers_ok w" and n: "counts_ok w log" and c: "c \<in> set (wt_fired w)" and m: "may_enforce c w"
  shows "ids_ok (callback_begin c w)" and "timers_ok (callback_begin c w)"
    and "counts_ok (callback_begin c w) ((cb_task c, cb_generation c) # log)"
proof -
  obtain a where a: "wt_timers w (cb_task c) = Some a" "at_generation a = cb_generation c" "\<not> at_executing a" "\<not> wt_closed w"
    using may_enforceE [OF m] .
  have w': "callback_begin c w = w\<lparr>wt_fired := remove1 c (wt_fired w),
      wt_timers := (wt_timers w)(cb_task c \<mapsto> a\<lparr>at_executing := True\<rparr>), wt_running := c # wt_running w\<rparr>"
    using m a by (simp add: callback_begin_def Let_def)
  have ct: "cb_timer c = at_cancel a" using t c a by (simp add: timers_ok_def)
  have "distinct (map cb_timer (wt_scheduled w @ remove1 c (wt_fired w) @ c # wt_running w))"
    using i c by (intro distinct_map_move) (simp_all add: ids_ok_def callbacks_def)
  then show "ids_ok (callback_begin c w)"
    by (intro ids_ok_subset [OF i]) (use c a set_remove1_subset in \<open>auto simp: w' callbacks_def timers_from_def\<close>)
  have fired: "d \<in> set (remove1 c (wt_fired w)) \<longleftrightarrow> d \<in> set (wt_fired w) \<and> d \<noteq> c" for d
    using i by (auto simp: ids_ok_def callbacks_def distinct_map)
  have other: "cb_task d \<noteq> cb_task c" if "d \<in> set (wt_scheduled w)" for d
    using t that a ct distinct_timer_unique(1) [OF i c, of d] by (fastforce simp: timers_ok_def serves_def)
  have stale: "at_generation a \<noteq> cb_generation d" if "d \<in> set (wt_fired w)" "d \<noteq> c" "cb_task d = cb_task c" for d
    using t that a ct distinct_timer_unique(2) [OF i c, of d] by (auto simp: timers_ok_def)
  show "timers_ok (callback_begin c w)"
  proof (rule timers_okI)
    fix x b assume b: "wt_timers (callback_begin c w) x = Some b" "\<not> at_executing b"
    then have x: "x \<noteq> cb_task c" "wt_timers w x = Some b" by (auto simp: w' split: if_splits)
    from waiting_callback [OF t x(2) b(2)] obtain d where d: "d \<in> set (wt_scheduled w) \<or> d \<in> set (wt_fired w)" "serves d x b" .
    with x have "d \<noteq> c" by (auto simp: serves_def)
    with d show "\<exists>c'. (c' \<in> set (wt_scheduled (callback_begin c w)) \<or> c' \<in> set (wt_fired (callback_begin c w))) \<and> serves c' x b"
      by (intro exI [of _ d]) (simp add: w' in_set_remove1)
  next
    fix d assume "d \<in> set (wt_scheduled (callback_begin c w))"
    then show "\<exists>a. wt_timers (callback_begin c w) (cb_task d) = Some a \<and> serves d (cb_task d) a \<and> \<not> at_executing a"
      using t other by (auto simp: w' timers_ok_def)
  next
    fix d b assume "d \<in> set (wt_fired (callback_begin c w))" "wt_timers (callback_begin c w) (cb_task d) = Some b" "at_generation b = cb_generation d"
    then show "cb_timer d = at_cancel b \<and> \<not> at_executing b"
      using t fired stale [of d] by (auto simp: w' timers_ok_def split: if_splits)
  qed (use a in \<open>simp add: w'\<close>)
  have cur: "at_retryAttempts a \<le> timeoutEnforcementRetryMaxAttempts" "count_list log (cb_task c, cb_generation c) = at_retryAttempts a"
    "enforcing w (cb_task c) (cb_generation c) = 0"
    using counts_okD [OF n a(1)] a by simp_all
  have enf: "enforcing (callback_begin c w) x g = enforcing w x g + (if x = cb_task c \<and> g = cb_generation c then 1 else 0)" for x g
    by (auto simp: enforcing_def w')
  have gen: "unat (cb_generation c) \<le> unat (wt_nextGeneration w)" using i c by (simp add: ids_ok_def callbacks_def)
  show "counts_ok (callback_begin c w) ((cb_task c, cb_generation c) # log)"
    unfolding counts_ok_def enf
    using n cur a gen by (auto simp: counts_ok_def w')
qed


text \<open>Dropping the timer of a task, with or without stopping its callback.\<close>

lemma drop_timer_counts:
  assumes "counts_ok w log" and "wt_running w' = wt_running w" and "wt_nextGeneration w' = wt_nextGeneration w"
    and "\<And>x a. wt_timers w' x = Some a \<Longrightarrow> wt_timers w x = Some a"
  shows "counts_ok w' log"
proof -
  have e: "enforcing w' = enforcing w" by (intro ext) (simp add: enforcing_def assms(2))
  show ?thesis
    unfolding counts_ok_def e assms(3)
    using assms(1,4) unfolding counts_ok_def by blast
qed

lemma Disarm_ok:
  assumes "ids_ok w" and "timers_ok w" and "counts_ok w log"
  shows "ids_ok (Disarm tid w)" and "timers_ok (Disarm tid w)" and "counts_ok (Disarm tid w) log"
proof -
  have w': "Disarm tid w = (cancel_armed tid w)\<lparr>wt_timers := (wt_timers w)(tid := None)\<rparr>"
    by (cases w) (auto simp: Disarm_def cancel_armed_def fun_upd_idem cancel_timer_def split: option.split)
  have "distinct (map cb_timer (wt_scheduled (cancel_armed tid w) @ wt_fired w @ wt_running w))"
    unfolding cancel_armed_scheduled using assms(1) by (intro distinct_map_filter_append) (simp add: ids_ok_def callbacks_def)
  then show "ids_ok (Disarm tid w)"
    by (intro ids_ok_subset [OF assms(1)]) (auto simp: w' callbacks_def timers_from_def cancel_armed_scheduled)
  show "timers_ok (Disarm tid w)"
  proof (rule timers_okI)
    fix c assume c: "c \<in> set (wt_scheduled (Disarm tid w))"
    then have s: "c \<in> set (wt_scheduled (cancel_armed tid w))" by (simp add: w')
    show "\<exists>a. wt_timers (Disarm tid w) (cb_task c) = Some a \<and> serves c (cb_task c) a \<and> \<not> at_executing a"
      using cancelled_tasks [OF assms(2) s] assms(2) by (auto simp: w' timers_ok_def)
  next
    fix x a assume a: "wt_timers (Disarm tid w) x = Some a" "\<not> at_executing a"
    then have x: "x \<noteq> tid" "wt_timers w x = Some a" by (auto simp: w' split: if_splits)
    show "\<exists>c. (c \<in> set (wt_scheduled (Disarm tid w)) \<or> c \<in> set (wt_fired (Disarm tid w))) \<and> serves c x a"
      using waiting_kept [OF assms(1,2) x(2) a(2) x(1)] by (simp add: w')
  qed (use assms(2) in \<open>auto simp: w' timers_ok_def split: if_splits\<close>)
  show "counts_ok (Disarm tid w) log"
    by (rule drop_timer_counts [OF assms(3)]) (auto simp: w' split: if_splits)
qed

lemma Close_scheduled:
  assumes "timers_ok w" and "\<not> wt_closed w"
  shows "Close w = w\<lparr>wt_closed := True, wt_scheduled := [], wt_timers := Map.empty\<rparr>"
proof -
  have "filter (\<lambda>c. \<not> (case wt_timers w (cb_task c) of None \<Rightarrow> False | Some a \<Rightarrow> at_cancel a = cb_timer c)) (wt_scheduled w) = []"
    using assms(1) by (auto simp: filter_empty_conv timers_ok_def serves_def)
  then show ?thesis using assms(2) by (simp add: Close_def)
qed

lemma Close_ok:
  assumes "ids_ok w" and "timers_ok w" and "counts_ok w log"
  shows "ids_ok (Close w)" and "timers_ok (Close w)" and "counts_ok (Close w) log"
proof -
  have "ids_ok (Close w) \<and> timers_ok (Close w) \<and> counts_ok (Close w) log"
  proof (cases "wt_closed w")
    case True
    with assms show ?thesis by (simp add: Close_def)
  next
    case False
    note w' = Close_scheduled [OF assms(2) False]
    have "ids_ok (Close w)" using assms(1) by (simp add: ids_ok_def callbacks_def w')
    moreover have "timers_ok (Close w)" by (rule timers_okI) (simp_all add: w')
    moreover have "counts_ok (Close w) log" by (rule drop_timer_counts [OF assms(3)]) (simp_all add: w')
    ultimately show ?thesis by simp
  qed
  then show "ids_ok (Close w)" "timers_ok (Close w)" "counts_ok (Close w) log" by simp_all
qed

lemma finishExecution_sel:
  "wt_closed (finishExecution tid g retryable w) = wt_closed w" "wt_fired (finishExecution tid g retryable w) = wt_fired w"
  "wt_running (finishExecution tid g retryable w) = wt_running w"
  "wt_nextGeneration (finishExecution tid g retryable w) = wt_nextGeneration w"
  by (simp_all add: finishExecution_def AfterFunc_def Let_def split: option.split)

text \<open>A finished enforcement does nothing, drops its timer, or schedules a retry.\<close>

lemma finishExecution_cases:
  obtains (stale) "finishExecution tid g retryable w = w" and "\<forall>a. wt_timers w tid = Some a \<longrightarrow> at_generation a \<noteq> g"
  | (dropped) a where "finishExecution tid g retryable w = w\<lparr>wt_timers := (wt_timers w)(tid := None)\<rparr>" "wt_timers w tid = Some a" "at_generation a = g"
  | (retried) a where "wt_timers w tid = Some a" "at_generation a = g" "at_retryAttempts a < timeoutEnforcementRetryMaxAttempts" "\<not> wt_closed w"
      "finishExecution tid g retryable w = (AfterFunc timeoutEnforcementRetryInterval tid g w)\<lparr>wt_timers := (wt_timers w)(tid \<mapsto>
         a\<lparr>at_retryAttempts := at_retryAttempts a + 1, at_executing := False, at_cancel := wt_nextTimer w\<rparr>)\<rparr>"
proof (cases "\<exists>a. wt_timers w tid = Some a \<and> at_generation a = g")
  case False
  then have "finishExecution tid g retryable w = w" by (auto simp: finishExecution_def split: option.split)
  with False stale show thesis by blast
next
  case True
  then obtain a where a: "wt_timers w tid = Some a" "at_generation a = g" by blast
  show thesis
  proof (cases "wt_closed w \<or> \<not> retryable \<or> at_retryAttempts a \<ge> timeoutEnforcementRetryMaxAttempts")
    case True
    then have "finishExecution tid g retryable w = w\<lparr>wt_timers := (wt_timers w)(tid := None)\<rparr>"
      using a by (auto simp: finishExecution_def)
    with a dropped show thesis by blast
  next
    case False
    then have "finishExecution tid g retryable w = (AfterFunc timeoutEnforcementRetryInterval tid g w)\<lparr>wt_timers := (wt_timers w)(tid \<mapsto>
         a\<lparr>at_retryAttempts := at_retryAttempts a + 1, at_executing := False, at_cancel := wt_nextTimer w\<rparr>)\<rparr>"
      using a by (simp add: finishExecution_def Let_def AfterFunc_def)
    with a False retried show thesis by force
  qed
qed


lemma enforcing_remove:
  assumes "c \<in> set (wt_running w)"
  shows "enforcing w x g = enforcing (w\<lparr>wt_running := remove1 c (wt_running w)\<rparr>) x g + (if x = cb_task c \<and> g = cb_generation c then 1 else 0)"
proof -
  have "length (filter P xs) = length (filter P (remove1 c xs)) + (if P c then 1 else 0)" if "c \<in> set xs" for P and xs :: "callback list"
    using that by (induction xs) auto
  from this [OF assms] show ?thesis by (auto simp: enforcing_def)
qed

text \<open>While a timer is executing, no callback of it waits.\<close>

lemma executing_quiet:
  assumes "timers_ok w" and "wt_timers w tid = Some a" and "at_executing a"
  shows "c \<in> set (wt_scheduled w) \<Longrightarrow> cb_task c \<noteq> tid"
    and "c \<in> set (wt_fired w) \<Longrightarrow> cb_task c = tid \<Longrightarrow> cb_generation c \<noteq> at_generation a"
  using assms by (auto simp: timers_ok_def)

lemma dropped_ok:
  assumes "ids_ok w" and "timers_ok w" and "wt_timers w tid = Some a" and "at_executing a"
  shows "ids_ok (w\<lparr>wt_timers := (wt_timers w)(tid := None)\<rparr>)" and "timers_ok (w\<lparr>wt_timers := (wt_timers w)(tid := None)\<rparr>)"
proof -
  show "ids_ok (w\<lparr>wt_timers := (wt_timers w)(tid := None)\<rparr>)"
    by (rule ids_ok_subset [OF assms(1)]) (use assms(1) in \<open>auto simp: callbacks_def timers_from_def ids_ok_def\<close>)
  show "timers_ok (w\<lparr>wt_timers := (wt_timers w)(tid := None)\<rparr>)"
    using assms(2) executing_quiet [OF assms(2-4)] by (intro timers_okI) (auto simp: timers_ok_def split: if_splits)
qed

lemma retried_ok:
  assumes i: "ids_ok w" and t: "timers_ok w" and a: "wt_timers w tid = Some a" "at_executing a" and o: "\<not> wt_closed w"
    and w'_def: "w' = (AfterFunc d tid (at_generation a) w)\<lparr>wt_timers := (wt_timers w)(tid \<mapsto>
         a\<lparr>at_retryAttempts := k, at_executing := False, at_cancel := wt_nextTimer w\<rparr>)\<rparr>"
  shows "ids_ok w'" and "timers_ok w'"
proof -
  note quiet = executing_quiet [OF t a]
  have b: "cb_timer c < wt_nextTimer w \<and> unat (cb_generation c) \<le> unat (wt_nextGeneration w)" if "c \<in> set (callbacks w)" for c
    using i that by (simp add: ids_ok_def)
  have tb: "at_cancel b < wt_nextTimer w \<and> unat (at_generation b) \<le> unat (wt_nextGeneration w)" if "wt_timers w x = Some b" for x b
    using i that by (simp add: ids_ok_def)
  then have fresh: "wt_timers w x = Some b \<Longrightarrow> at_cancel b = wt_nextTimer w \<Longrightarrow> x = y"
    "wt_timers w x = Some b \<Longrightarrow> wt_nextTimer w = at_cancel b \<Longrightarrow> y = x" for x y b
    by (metis less_irrefl)+
  show "ids_ok w'"
    unfolding ids_ok_def
  proof (intro conjI)
    have "wt_nextTimer w \<notin> cb_timer ` set (callbacks w)" using b by fastforce
    then show "distinct (map cb_timer (callbacks w'))"
      using i by (simp add: w'_def AfterFunc_def callbacks_def ids_ok_def image_Un)
    show "\<forall>c \<in> set (callbacks w'). cb_timer c < wt_nextTimer w' \<and> unat (cb_generation c) \<le> unat (wt_nextGeneration w')"
      using b tb [OF a(1)] by (auto simp: w'_def AfterFunc_def callbacks_def intro: less_SucI)
    show "\<forall>x b. wt_timers w' x = Some b \<longrightarrow> at_cancel b < wt_nextTimer w' \<and> unat (at_generation b) \<le> unat (wt_nextGeneration w')"
      using tb a by (auto simp: w'_def AfterFunc_def intro: less_SucI)
    show "\<forall>x y b c. wt_timers w' x = Some b \<longrightarrow> wt_timers w' y = Some c \<longrightarrow> at_cancel b = at_cancel c \<longrightarrow> x = y"
      using i fresh by (auto simp: w'_def ids_ok_def)
  qed
  show "timers_ok w'"
  proof (rule timers_okI)
    fix x b assume x: "wt_timers w' x = Some b" "\<not> at_executing b"
    show "\<exists>c. (c \<in> set (wt_scheduled w') \<or> c \<in> set (wt_fired w')) \<and> serves c x b"
    proof (cases "x = tid")
      case False
      with x have "wt_timers w x = Some b" by (simp add: w'_def)
      from waiting_callback [OF t this x(2)] show ?thesis by (auto simp: w'_def AfterFunc_def)
    qed (use x in \<open>auto simp: w'_def AfterFunc_def serves_def\<close>)
  next
    fix c assume c: "c \<in> set (wt_scheduled w')"
    show "\<exists>b. wt_timers w' (cb_task c) = Some b \<and> serves c (cb_task c) b \<and> \<not> at_executing b"
    proof (cases "c \<in> set (wt_scheduled w)")
      case True
      with t quiet(1) [OF True] show ?thesis by (auto simp: w'_def timers_ok_def)
    qed (use c in \<open>auto simp: w'_def AfterFunc_def serves_def\<close>)
  next
    fix c b assume c: "c \<in> set (wt_fired w')" "wt_timers w' (cb_task c) = Some b" "at_generation b = cb_generation c"
    then have f: "c \<in> set (wt_fired w)" by (simp add: w'_def AfterFunc_def)
    with c quiet(2) [OF f] have "cb_task c \<noteq> tid" by (auto simp: w'_def)
    with c f t show "cb_timer c = at_cancel b \<and> \<not> at_executing b" by (simp add: w'_def timers_ok_def)
  qed (use o in \<open>simp add: w'_def AfterFunc_def\<close>)
qed

text \<open>The counts after an enforcement of \<open>c\<close> ended.\<close>

lemma end_counts:
  assumes n: "counts_ok w log" and c: "c \<in> set (wt_running w)"
    and w': "wt_running w' = remove1 c (wt_running w)" "wt_nextGeneration w' = wt_nextGeneration w"
    and tm: "\<And>x a. wt_timers w' x = Some a \<Longrightarrow> (wt_timers w x = Some a \<and> (x \<noteq> cb_task c \<or> at_generation a \<noteq> cb_generation c))
          \<or> at_retryAttempts a \<le> timeoutEnforcementRetryMaxAttempts \<and> count_list log (x, at_generation a) = at_retryAttempts a
            \<and> \<not> at_executing a \<and> x = cb_task c \<and> at_generation a = cb_generation c"
  shows "counts_ok w' log"
proof -
  have glob: "count_list log (x, g) \<le> timeoutEnforcementRetryMaxAttempts + 1" "enforcing w x g \<le> 1"
    "unat (wt_nextGeneration w) < unat g \<Longrightarrow> count_list log (x, g) = 0 \<and> enforcing w x g = 0" for x g
    using n unfolding counts_ok_def by blast+
  have e: "enforcing w x g = enforcing w' x g + (if x = cb_task c \<and> g = cb_generation c then 1 else 0)" for x g
    using enforcing_remove [OF c, of x g] by (simp add: enforcing_def w')
  show ?thesis
    unfolding counts_ok_def w'
  proof (intro conjI allI impI)
    fix x a assume "wt_timers w' x = Some a"
    from tm [OF this] show "at_retryAttempts a \<le> timeoutEnforcementRetryMaxAttempts"
      "count_list log (x, at_generation a) = at_retryAttempts a + (if at_executing a then 1 else 0)"
      "enforcing w' x (at_generation a) = (if at_executing a then 1 else 0)"
      using counts_okD [OF n, of x a] e [of x "at_generation a"] glob(2) [of x "at_generation a"] by auto
  next
    fix x g show "count_list log (x, g) \<le> timeoutEnforcementRetryMaxAttempts + 1" by (rule glob)
    show "enforcing w' x g \<le> 1" using glob(2) [of x g] e [of x g] by simp
    show "unat (wt_nextGeneration w) < unat g \<Longrightarrow> count_list log (x, g) = 0"
      "unat (wt_nextGeneration w) < unat g \<Longrightarrow> enforcing w' x g = 0"
      using glob(3) [of g x] e [of x g] by auto
  qed
qed

lemma finish_ok:
  assumes i: "ids_ok w" and t: "timers_ok w" and n: "counts_ok w log" and c: "c \<in> set (wt_running w)"
  shows "ids_ok (callback_end c retryable w) \<and> timers_ok (callback_end c retryable w) \<and> counts_ok (callback_end c retryable w) log"
proof -
  let ?w = "w\<lparr>wt_running := remove1 c (wt_running w)\<rparr>"
  have "distinct (map cb_timer ((wt_scheduled w @ wt_fired w) @ remove1 c (wt_running w) @ []))"
    using i by (intro distinct_map_drop) (simp add: ids_ok_def callbacks_def)
  then have i1: "ids_ok ?w"
    by (intro ids_ok_subset [OF i]) (use set_remove1_subset in \<open>auto simp: callbacks_def timers_from_def\<close>)
  have t1: "timers_ok ?w" using t by (simp add: timers_ok_def)
  have exec: "at_executing a" if "wt_timers w (cb_task c) = Some a" "at_generation a = cb_generation c" for a
    using counts_okD(3) [OF n that(1)] that(2) enforcing_remove [OF c, of "cb_task c" "cb_generation c"] by (auto split: if_splits)
  show ?thesis
  proof (cases rule: finishExecution_cases [of "cb_task c" "cb_generation c" retryable ?w])
    case stale
    then have "counts_ok ?w log" by (intro end_counts [OF n c]) auto
    with stale i1 t1 show ?thesis by (simp add: callback_end_def)
  next
    case (dropped a)
    then have "counts_ok (?w\<lparr>wt_timers := (wt_timers ?w)(cb_task c := None)\<rparr>) log"
      by (intro end_counts [OF n c]) (auto split: if_splits)
    with dropped dropped_ok [OF i1 t1, of "cb_task c" a] exec [of a] show ?thesis by (simp add: callback_end_def)
  next
    case (retried a)
    then have "at_executing a" using exec by simp
    with retried counts_okD [OF n, of "cb_task c" a] have "counts_ok (callback_end c retryable w) log"
      by (intro end_counts [OF n c]) (auto simp: callback_end_def AfterFunc_def split: if_splits)
    with retried exec [of a] retried_ok [OF i1 t1, where tid = "cb_task c" and a = a and w' = "callback_end c retryable w" and k = "at_retryAttempts a + 1"]
    show ?thesis by (simp add: callback_end_def)
  qed
qed


lemma watcher_run_ok: "watcher_run w log \<Longrightarrow> ids_ok w \<and> timers_ok w \<and> counts_ok w log"
proof (induction rule: watcher_run.induct)
  case start
  show ?case by (simp add: NewTimeoutWatcher_def watcher_inv_defs)
next
  case (arm w log tid d r lg now)
  show ?case
  proof (cases "wt_closed w")
    case True
    with arm show ?thesis by (simp add: Arm_def)
  next
    case False
    with arm show ?thesis using Arm_ids Arm_timers Arm_counts by blast
  qed
qed (auto intro: fire_ok enforce_ok skip_ok finish_ok [THEN conjunct1] finish_ok [THEN conjunct2, THEN conjunct1]
    finish_ok [THEN conjunct2, THEN conjunct2] Disarm_ok Close_ok)

section \<open>Theorems\<close>

text \<open>
  C15: however timers fire and threads interleave, the timeout of one armed timer is enforced at most
  seven times, the first attempt and six retries, and never by two threads at once.
\<close>

theorem enforcement_bounded:
  assumes "watcher_run w log"
  shows "count_list log (tid, g) \<le> 7 \<and> enforcing w tid g \<le> 1"
  using watcher_run_ok [OF assms] by (auto simp: counts_ok_def timeoutEnforcementRetryMaxAttempts_def)

text \<open>
  An armed timer is never lost: as long as it is in the table and its enforcement is not running,
  exactly its own callback is scheduled or has fired and will enforce it; and a callback of an earlier
  timer of the same task never enforces anything.
\<close>

theorem armed_timer_served:
  assumes "watcher_run w log" and "wt_timers w tid = Some a" and "\<not> at_executing a"
  shows "\<exists>c. (c \<in> set (wt_scheduled w) \<or> c \<in> set (wt_fired w)) \<and> cb_task c = tid \<and> may_enforce c w
     \<and> (\<forall>d. (d \<in> set (wt_scheduled w) \<or> d \<in> set (wt_fired w)) \<longrightarrow> cb_task d = tid \<longrightarrow> may_enforce d w \<longrightarrow> cb_timer d = cb_timer c)"
proof -
  have t: "timers_ok w" using watcher_run_ok [OF assms(1)] by simp
  then have o: "\<not> wt_closed w" using assms(2) by (auto simp: timers_ok_def)
  obtain c where c: "c \<in> set (wt_scheduled w) \<or> c \<in> set (wt_fired w)" "serves c tid a"
    using waiting_callback [OF t assms(2,3)] .
  have "cb_timer d = at_cancel a"
    if "d \<in> set (wt_scheduled w) \<or> d \<in> set (wt_fired w)" "cb_task d = tid" "may_enforce d w" for d
    using that t assms(2) by (auto simp: may_enforce_def timers_ok_def serves_def split: option.splits)
  with c assms(2,3) o show ?thesis by (intro exI [of _ c]) (simp add: serves_def may_enforce_def)
qed

text \<open>The callbacks that \<open>Close\<close> waits for.\<close>

definition wait_group :: "watcher \<Rightarrow> nat" where
  "wait_group w = length (callbacks w)"

text \<open>
  C16: after \<open>Close\<close> no enforcement starts and no timer is armed again, and its wait ends: no callback
  is scheduled, and every locked section of a remaining callback takes one callback off the wait group.
\<close>

theorem closed_watcher_drains:
  assumes "watcher_run w log" and "wt_closed w"
  shows "wt_scheduled w = [] \<and> (\<forall>c. \<not> may_enforce c w) \<and> Arm tid d r lg now w = w
     \<and> (\<forall>c \<in> set (wt_fired w). wt_closed (callback_begin c w) \<and> wait_group (callback_begin c w) + 1 = wait_group w)
     \<and> (\<forall>c \<in> set (wt_running w). wt_closed (callback_end c retryable w) \<and> wait_group (callback_end c retryable w) + 1 = wait_group w)"
proof -
  have t: "timers_ok w" using watcher_run_ok [OF assms(1)] by simp
  with assms(2) have e: "wt_timers w = Map.empty" by (simp add: timers_ok_def)
  with t have s: "wt_scheduled w = []" unfolding timers_ok_def by (metis list.set_intros(1) neq_Nil_conv option.distinct(1))
  have m: "\<not> may_enforce c w" for c by (simp add: may_enforce_def e)
  have b: "callback_begin c w = w\<lparr>wt_fired := remove1 c (wt_fired w)\<rparr>" for c
    using m by (simp add: callback_begin_def Let_def)
  have f: "callback_end c retryable w = w\<lparr>wt_running := remove1 c (wt_running w)\<rparr>" for c
    by (simp add: callback_end_def finishExecution_def e)
  show ?thesis
    using s m assms(2) length_pos_if_in_set [of _ "wt_fired w"] length_pos_if_in_set [of _ "wt_running w"]
    by (auto simp: b f Arm_def wait_group_def callbacks_def length_remove1)
qed


text \<open>A timer that is armed, and the same timer while its first enforcement runs.\<close>

definition armed_watcher :: watcher where
  "armed_watcher = Arm (TaskID ''a'') 100 60 1 40 NewTimeoutWatcher"

definition first_callback :: callback where
  "first_callback = hd (wt_scheduled armed_watcher)"

definition enforcing_watcher :: watcher where
  "enforcing_watcher = callback_begin first_callback (fire first_callback armed_watcher)"

lemma armed_run: "watcher_run armed_watcher []"
  unfolding armed_watcher_def by (rule watcher_run.arm [OF watcher_run.start]) (simp add: NewTimeoutWatcher_def)

lemma first_callback_scheduled: "first_callback \<in> set (wt_scheduled armed_watcher)"
  by (simp add: first_callback_def armed_watcher_def Arm_def Let_def AfterFunc_def NewTimeoutWatcher_def)

lemma enforcing_run: "watcher_run enforcing_watcher [(TaskID ''a'', 1)]"
proof -
  have "watcher_run (fire first_callback armed_watcher) []"
    by (rule watcher_run.fire [OF armed_run first_callback_scheduled])
  moreover have "first_callback \<in> set (wt_fired (fire first_callback armed_watcher))" by (simp add: fire_def)
  moreover have "may_enforce first_callback (fire first_callback armed_watcher)" by code_simp
  ultimately have "watcher_run enforcing_watcher [(cb_task first_callback, cb_generation first_callback)]"
    unfolding enforcing_watcher_def by (rule watcher_run.enforce)
  moreover have "(cb_task first_callback, cb_generation first_callback) = (TaskID ''a'', 1)" by code_simp
  ultimately show ?thesis by simp
qed

theorem enforcement_bounded_witness:
  "count_list [(TaskID ''a'', 1 :: 64 word)] (TaskID ''a'', 1) \<le> 7 \<and> enforcing enforcing_watcher (TaskID ''a'') 1 \<le> 1
   \<and> enforcing enforcing_watcher (TaskID ''a'') 1 = 1"
proof -
  have "enforcing enforcing_watcher (TaskID ''a'') 1 = 1" by code_simp
  with enforcement_bounded [OF enforcing_run, of "TaskID ''a''" 1] show ?thesis by blast
qed

theorem armed_timer_served_witness:
  "\<exists>c. (c \<in> set (wt_scheduled armed_watcher) \<or> c \<in> set (wt_fired armed_watcher)) \<and> cb_task c = TaskID ''a'' \<and> may_enforce c armed_watcher"
proof -
  have "\<not> at_executing (the (wt_timers armed_watcher (TaskID ''a'')))" "wt_timers armed_watcher (TaskID ''a'') \<noteq> None" by code_simp+
  then obtain a where a: "wt_timers armed_watcher (TaskID ''a'') = Some a" "\<not> at_executing a" by auto
  from armed_timer_served [OF armed_run a] show ?thesis by blast
qed

theorem closed_watcher_drains_witness:
  "wt_scheduled (Close enforcing_watcher) = [] \<and> wait_group (callback_end first_callback True (Close enforcing_watcher)) + 1 = wait_group (Close enforcing_watcher)"
proof -
  have run: "watcher_run (Close enforcing_watcher) [(TaskID ''a'', 1)]" by (rule watcher_run.close [OF enforcing_run])
  have c: "wt_closed (Close enforcing_watcher)" by code_simp
  have m: "first_callback \<in> set (wt_running (Close enforcing_watcher))" by code_simp
  show ?thesis
    using closed_watcher_drains [OF run c, of "TaskID ''a''" 0 0 0 0 True] m by blast
qed

end
