(* ===== verification/Reconcile.thy ===== *)
theory Reconcile
  imports Task_Queue Task_Runtime Pending_Set
begin

text \<open>
  The threads that stop processes and settle tasks whose end is not yet known: the termination of a
  process (\<^verbatim>\<open>internal/execution/timeout.go\<close>), the adoption of tasks after a restart
  (\<^verbatim>\<open>internal/recovery/adopt.go\<close>), the periodic reconciliation (\<^verbatim>\<open>internal/recovery/reconcile.go\<close>), the
  coordinator of orphans (\<^verbatim>\<open>internal/recovery/orphan_transition.go\<close>) and the cancellation of tasks
  (\<^verbatim>\<open>internal/transport/usecase/cancel.go\<close>).

  These threads hold no lock between their calls. So what a call answers is an argument of the function,
  in a record of replies, and the function returns the calls that the thread makes, in their order: its
  script. The locked parts of a thread are steps of the world of the theory Task_Runtime, and the pending
  operations of a script are the operations of the theory Pending_Set, whose theorems hold for every
  interleaving of them.
\<close>

section \<open>Signals\<close>

datatype signal = SIGTERM | SIGKILL

text \<open>The state at the moment a signal is validated, with the answer of the system call.\<close>

record signal_moment =
  sm_fault :: "string option"
  sm_store :: file_task_store
  sm_owners :: ownership_registry
  sm_answer :: "domain_error option"

datatype signal_error = ErrProcessSignalAuthorityInvalid | SignalErr domain_error | JoinSignalErr signal_error signal_error

record termination_result =
  tr_Dead :: bool
  tr_TerminateErr :: "signal_error option"
  tr_ConfirmErr :: "domain_error option"

type_synonym signal_log = "(int \<times> signal) list"

definition send_signal :: "signal_moment \<Rightarrow> process_signal_authority \<Rightarrow> signal \<Rightarrow> signal_log \<Rightarrow> signal_log \<times> signal_error option" where
  "send_signal m a sig log =
     (case Validate_authority (sm_fault m) (sm_store m) (sm_owners m) a (\<lambda>pid log. (log @ [(pid, sig)], sm_answer m)) log of
        (log, executed, err) \<Rightarrow>
          (log, if \<not> executed \<and> err = None then Some ErrProcessSignalAuthorityInvalid else map_option SignalErr err))"

definition joinSignalErrors :: "signal_error option \<Rightarrow> signal_error option \<Rightarrow> signal_error option" where
  "joinSignalErrors termErr killErr =
     (case (termErr, killErr) of
        (None, k) \<Rightarrow> k
      | (Some t, None) \<Rightarrow> Some t
      | (Some t, Some k) \<Rightarrow> Some (JoinSignalErr t k))"

text \<open>The answer of the liveness check as the pair of the source.\<close>

definition liveness_pair :: "domain_error + bool \<Rightarrow> bool \<times> domain_error option" where
  "liveness_pair a = (case a of Inl e \<Rightarrow> (False, Some e) | Inr dead \<Rightarrow> (dead, None))"

definition Confirm :: "domain_error + bool \<Rightarrow> domain_error option \<Rightarrow> domain_error + bool \<Rightarrow> bool \<times> domain_error option" where
  "Confirm first ctxErr second =
     (case first of
        Inl e \<Rightarrow> (False, Some e)
      | Inr True \<Rightarrow> (True, None)
      | Inr False \<Rightarrow> (case ctxErr of Some e \<Rightarrow> (False, Some e) | None \<Rightarrow> liveness_pair second))"

definition SendAndConfirm :: "signal_moment \<Rightarrow> domain_error + bool \<Rightarrow> signal_moment \<Rightarrow> domain_error + bool
    \<Rightarrow> process_signal_authority \<Rightarrow> signal_log \<Rightarrow> signal_log \<times> termination_result" where
  "SendAndConfirm m1 live1 m2 live2 a log =
     (case send_signal m1 a SIGTERM log of
        (log, termErr) \<Rightarrow>
          (case liveness_pair live1 of
             (dead, confirmErr) \<Rightarrow>
               if confirmErr \<noteq> None \<or> dead
               then (log, \<lparr>tr_Dead = dead, tr_TerminateErr = termErr, tr_ConfirmErr = confirmErr\<rparr>)
               else
                 (case send_signal m2 a SIGKILL log of
                    (log, killErr) \<Rightarrow>
                      (log, \<lparr>tr_Dead = fst (liveness_pair live2), tr_TerminateErr = joinSignalErrors termErr killErr,
                             tr_ConfirmErr = snd (liveness_pair live2)\<rparr>))))"

text \<open>The moments at which a signal may go out.\<close>

definition targets :: "process_signal_authority \<Rightarrow> signal_moment \<Rightarrow> bool" where
  "targets a m \<longleftrightarrow> (\<exists>n. disk_snapshot (sm_store m) (sa_TaskID a) = Some n \<and> sn_PID n = Some (sa_PID a)
     \<and> sn_ProcessStartedAt n = Some (sa_ProcessStartedAt a) \<and> sn_State n = sa_ExpectedState a
     \<and> (sn_State n = StateTimeout \<or> sn_State n = StateCancelling))
     \<and> (case sa_LifecycleGeneration a of None \<Rightarrow> True | Some g \<Rightarrow> Current (sa_TaskID a) (sm_owners m) = Some g)"

lemma send_signal_cases:
  assumes "send_signal m a sig log = (log', err)"
  shows "log' = log \<and> err \<noteq> None \<or> log' = log @ [(sa_PID a, sig)] \<and> targets a m \<and> 0 < sa_PID a"
  using assms file_tasks.load_stored [of "sm_fault m" "sm_store m" "sa_TaskID a"]
  by (auto simp: send_signal_def targets_def Validate_authority_def WithCurrent_def validProcessSignalAuthority_def
      matchesProcessSignalAuthority_def Current_def split: sum.splits prod.splits option.splits if_splits)

text \<open>
  C17: the termination of a process sends at most one SIGTERM and then at most one SIGKILL, both only to
  the process that the task records at the moment of each signal; SIGKILL goes out only after a liveness
  check answered that the process is alive, and a termination that sent nothing reports an error.
\<close>

theorem SendAndConfirm_signals:
  "case SendAndConfirm m1 live1 m2 live2 a log of
     (log', r) \<Rightarrow>
       \<exists>term kill. log' = log @ term @ kill \<and> term \<in> {[], [(sa_PID a, SIGTERM)]} \<and> kill \<in> {[], [(sa_PID a, SIGKILL)]}
         \<and> (term = [] \<or> targets a m1 \<and> 0 < sa_PID a) \<and> (kill = [] \<or> targets a m2 \<and> 0 < sa_PID a \<and> live1 = Inr False)
         \<and> (if term @ kill = [] then tr_TerminateErr r \<noteq> None else True)"
proof -
  obtain log1 e1 where s1: "send_signal m1 a SIGTERM log = (log1, e1)" by fastforce
  obtain log2 e2 where s2: "send_signal m2 a SIGKILL log1 = (log2, e2)" by fastforce
  note c1 = send_signal_cases [OF s1] and c2 = send_signal_cases [OF s2]
  show ?thesis
  proof (cases "live1 = Inr False")
    case True
    then have r: "SendAndConfirm m1 live1 m2 live2 a log = (log2, \<lparr>tr_Dead = fst (liveness_pair live2),
        tr_TerminateErr = joinSignalErrors e1 e2, tr_ConfirmErr = snd (liveness_pair live2)\<rparr>)"
      by (simp add: SendAndConfirm_def s1 s2 liveness_pair_def)
    show ?thesis
      using c1 c2 True unfolding r prod.case
      by (intro exI [of _ "drop (length log) log1"] exI [of _ "drop (length log1) log2"])
        (auto simp: joinSignalErrors_def split: option.splits)
  next
    case False
    then obtain d e where r: "SendAndConfirm m1 live1 m2 live2 a log = (log1, \<lparr>tr_Dead = d, tr_TerminateErr = e1, tr_ConfirmErr = e\<rparr>)"
      by (cases live1) (auto simp: SendAndConfirm_def s1 liveness_pair_def)
    show ?thesis
      using c1 unfolding r prod.case
      by (intro exI [of _ "drop (length log) log1"] exI [of _ "[] :: signal_log"]) auto
  qed
qed

section \<open>Scripts\<close>

text \<open>\<open>RecoverViaResumeInput\<close> of \<^verbatim>\<open>internal/recovery/resume_types.go\<close>.\<close>

record recover_input =
  ri_TaskID :: task_id
  ri_SessionRef :: "session_ref option"
  ri_Origin :: recovery_origin
  ri_OccurredAt :: go_time

text \<open>The functions that are started as goroutines of their own.\<close>

datatype thread =
    ConfirmTimeoutTermination task_id task_snapshot
  | ConfirmCancellationTermination task_id task_snapshot
  | ResumeAdopted recover_input send_claim
  | ResumePending recover_input send_claim
  | ResumeOrphan recover_input
  | SendAndReconcile send_claim task_snapshot bool

datatype effect =
    Pend pending_op
  | ReleaseLock task_id
  | Terminate task_id process_signal_authority
  | SignalTerm int
  | AwaitDeath task_id
  | KillConfirmed task_id int go_time
  | FinalizeOrphan task_id bool go_time
  | Resume recover_input
  | RecordMetrics metrics_input
  | ReleaseSlot task_id
  | DisarmTimer task_id
  | Spawn thread

datatype resume_reply = ResumeDone | ResumeInFlight | ResumeFailed

text \<open>
  What the calls of one thread answer. \<open>rp_now k\<close> is the \<open>k\<close>-th reading of the clock; \<open>rp_registered\<close>,
  \<open>rp_unlocked\<close>, \<open>rp_killed\<close> and \<open>rp_finalized\<close> tell whether a call returned without an error
  (\<open>rp_terminate\<close> answers a SIGTERM that is sent without a check). The
  context is a separate argument \<open>ctx\<close>: \<open>ctx k\<close> tells whether the \<open>k\<close>-th look finds it ended.
\<close>

record replies =
  rp_now :: "nat \<Rightarrow> go_time"
  rp_live :: "domain_error + bool"
  rp_message :: "domain_error + bool"
  rp_load :: "domain_error + task_snapshot"
  rp_exit :: "(string, int option) sum"
  rp_claim :: "send_claim \<times> claim_outcome"
  rp_registered :: bool
  rp_signals :: termination_result
  rp_confirm :: "bool \<times> domain_error option"
  rp_unlocked :: bool
  rp_killed :: bool
  rp_finalized :: bool
  rp_resume :: resume_reply
  rp_terminate :: "signal_error option"
  rp_reserved :: "domain_error + bool"

section \<open>Failures that leave a task pending\<close>

definition isReconciliationTerminalState :: "task_state \<Rightarrow> bool" where
  "isReconciliationTerminalState s \<longleftrightarrow> s = StateCompleted \<or> s = StateFailed \<or> s = StateRecovered \<or> s = StateTimeoutLost
     \<or> s = StateKilled \<or> s = StateLost"

datatype pending_failure_disposition = pendingFailureFromSnapshot | pendingFailureAfterConfirmedDeath

definition pendingFailureRegistration :: "task_snapshot \<Rightarrow> pending_failure_disposition
    \<Rightarrow> pending_send_disposition \<times> process_signal_authority option" where
  "pendingFailureRegistration n d =
     (if d = pendingFailureAfterConfirmedDeath then (PendingSendConfirmOnly, None) else pendingRegistration n)"

definition register_effect :: "task_id \<Rightarrow> pending_send_disposition \<times> process_signal_authority option \<Rightarrow> effect" where
  "register_effect tid r = Pend (OpRegister tid (fst r) (snd r))"

definition reconcilePendingAfterFailure :: "(nat \<Rightarrow> bool) \<Rightarrow> domain_error + task_snapshot \<Rightarrow> task_id
    \<Rightarrow> pending_failure_disposition \<Rightarrow> effect list" where
  "reconcilePendingAfterFailure ctx load tid d =
     (if ctx 0 \<or> ctx 1 then []
      else case load of
        Inl _ \<Rightarrow> []
      | Inr n \<Rightarrow>
          if ctx 2 then []
          else if isReconciliationTerminalState (sn_State n) then [Pend (OpRemove tid)]
          else if sn_State n \<in> {StateTimeout, StateCancelling, StateRecovering, StateOrphaned}
          then (if d = pendingFailureAfterConfirmedDeath then [Pend (OpRemove tid)] else [])
               @ (if ctx 3 then [] else [register_effect tid (pendingFailureRegistration n d)])
          else [])"

text \<open>
  A call inside another function looks at the context from index \<open>k\<close> on; a context without cancellation
  (\<open>context.WithoutCancel\<close>) is never found ended.
\<close>

definition later :: "nat \<Rightarrow> (nat \<Rightarrow> bool) \<Rightarrow> nat \<Rightarrow> bool" where
  "later k ctx i = ctx (k + i)"

definition never_ended :: "nat \<Rightarrow> bool" where
  "never_ended i = False"

section \<open>Threads that hold a claim\<close>

definition currentClaimAuthorityWithError :: "domain_error + task_snapshot \<Rightarrow> send_claim
    \<Rightarrow> task_snapshot option \<times> bool \<times> domain_error option" where
  "currentClaimAuthorityWithError load c =
     (case load of
        Inl e \<Rightarrow> (None, False, Some e)
      | Inr n \<Rightarrow> (Some n, matchesProcessSignalAuthority n (sc_Authority c), None))"

definition currentClaimAuthority :: "domain_error + task_snapshot \<Rightarrow> send_claim \<Rightarrow> task_snapshot option" where
  "currentClaimAuthority load c =
     (case currentClaimAuthorityWithError load c of (n, valid, _) \<Rightarrow> if valid then n else None)"

definition releaseOrInvalidateSendAfterTerminationError :: "domain_error + task_snapshot \<Rightarrow> send_claim \<Rightarrow> effect list" where
  "releaseOrInvalidateSendAfterTerminationError load c =
     (case currentClaimAuthorityWithError load c of
        (_, valid, err) \<Rightarrow>
          if err \<noteq> None \<and> err \<noteq> Some ErrTaskNotFound then [Pend (OpReleaseSend c)]
          else if valid then [Pend (OpReleaseSend c)]
          else [Pend (OpInvalidateSend c)])"

text \<open>\<open>errors.Is\<close> looks through joined errors.\<close>

fun authority_invalid :: "signal_error \<Rightarrow> bool" where
  "authority_invalid ErrProcessSignalAuthorityInvalid = True"
| "authority_invalid (JoinSignalErr a b) = (authority_invalid a \<or> authority_invalid b)"
| "authority_invalid (SignalErr _) = False"

definition handleUnconfirmedTermination :: "domain_error + task_snapshot \<Rightarrow> send_claim \<Rightarrow> termination_result \<Rightarrow> effect list" where
  "handleUnconfirmedTermination load c result =
     (case tr_TerminateErr result of
        None \<Rightarrow> [Pend (OpCompleteSend c)]
      | Some e \<Rightarrow> if authority_invalid e then [Pend (OpInvalidateSend c)]
                  else releaseOrInvalidateSendAfterTerminationError load c)"

text \<open>The path lock of a timed-out task is released before its recovery starts; \<open>None\<close> is the error.\<close>

definition releaseTimeoutPathLock :: "replies \<Rightarrow> task_id \<Rightarrow> task_snapshot \<Rightarrow> effect list \<times> bool" where
  "releaseTimeoutPathLock r tid n =
     (if sn_Subcommand n = SubcommandImpl then ([ReleaseLock tid], rp_unlocked r) else ([], True))"

definition timeout_input :: "task_id \<Rightarrow> task_snapshot \<Rightarrow> go_time \<Rightarrow> recover_input" where
  "timeout_input tid n at = \<lparr>ri_TaskID = tid, ri_SessionRef = sn_SessionRef n, ri_Origin = RecoveryOriginTimeout, ri_OccurredAt = at\<rparr>"

definition confirmTimeoutTermination :: "replies \<Rightarrow> task_id \<Rightarrow> task_snapshot \<Rightarrow> effect list" where
  "confirmTimeoutTermination r tid n =
     (case processSignalAuthority n of
        None \<Rightarrow> [register_effect tid (pendingRegistration n)]
      | Some a \<Rightarrow>
          Pend (OpClaimForSend tid a) #
          (case rp_claim r of
             (c, outcome) \<Rightarrow>
               if outcome \<noteq> ClaimAcquired then []
               else Terminate tid a #
                 (if \<not> tr_Dead (rp_signals r) then handleUnconfirmedTermination (rp_load r) c (rp_signals r)
                  else case currentClaimAuthority (rp_load r) c of
                    None \<Rightarrow> [Pend (OpInvalidateSend c)]
                  | Some latest \<Rightarrow>
                      (case releaseTimeoutPathLock r tid latest of
                         (calls, ok) \<Rightarrow> calls @
                           (if ok then [Spawn (ResumeAdopted (timeout_input tid latest (rp_now r 1)) c)]
                            else [Pend (OpInvalidateSend c)])))))"

definition cancelledExitCode :: int where
  "cancelledExitCode = 130"

definition confirmCancellationTermination :: "replies \<Rightarrow> task_id \<Rightarrow> task_snapshot \<Rightarrow> effect list" where
  "confirmCancellationTermination r tid n =
     (case processSignalAuthority n of
        None \<Rightarrow> [register_effect tid (pendingRegistration n)]
      | Some a \<Rightarrow>
          Pend (OpClaimForSend tid a) #
          (case rp_claim r of
             (c, outcome) \<Rightarrow>
               if outcome \<noteq> ClaimAcquired then []
               else Terminate tid a #
                 (if \<not> tr_Dead (rp_signals r) then handleUnconfirmedTermination (rp_load r) c (rp_signals r)
                  else case currentClaimAuthority (rp_load r) c of
                    None \<Rightarrow> [Pend (OpInvalidateSend c)]
                  | Some latest \<Rightarrow>
                      [KillConfirmed tid cancelledExitCode (rp_now r 0),
                       if rp_killed r then Pend (OpRemoveClaim c) else Pend (OpInvalidateSend c)])))"

definition resumeRecovery_adopted :: "replies \<Rightarrow> recover_input \<Rightarrow> send_claim \<Rightarrow> effect list" where
  "resumeRecovery_adopted r inp c =
     Resume inp #
     (if rp_resume r \<noteq> ResumeDone
      then (if sc_Token c \<noteq> 0 then [Pend (OpInvalidateSend c)]
            else reconcilePendingAfterFailure never_ended (rp_load r) (ri_TaskID inp) pendingFailureAfterConfirmedDeath)
      else if sc_Token c \<noteq> 0 then [Pend (OpRemoveClaim c)]
      else [Pend (OpRemove (ri_TaskID inp))])"

text \<open>The same thread of the periodic reconciliation gives a claim back when another recovery is running.\<close>

definition resumeRecovery_pending :: "replies \<Rightarrow> recover_input \<Rightarrow> send_claim \<Rightarrow> effect list" where
  "resumeRecovery_pending r inp c =
     Resume inp #
     (case rp_resume r of
        ResumeInFlight \<Rightarrow> if sc_Token c \<noteq> 0 then [Pend (OpReleaseSend c)] else []
      | ResumeFailed \<Rightarrow>
          if sc_Token c \<noteq> 0 then [Pend (OpInvalidateSend c)]
          else reconcilePendingAfterFailure never_ended (rp_load r) (ri_TaskID inp) pendingFailureAfterConfirmedDeath
      | ResumeDone \<Rightarrow> if sc_Token c \<noteq> 0 then [Pend (OpRemoveClaim c)] else [Pend (OpRemove (ri_TaskID inp))])"

text \<open>A failure of the periodic reconciliation gives the claim up, or registers the task again.\<close>

definition give_up :: "(nat \<Rightarrow> bool) \<Rightarrow> replies \<Rightarrow> task_id \<Rightarrow> send_claim \<Rightarrow> effect list" where
  "give_up ctx r tid c =
     (if sc_Token c \<noteq> 0 then [Pend (OpInvalidateSend c)]
      else reconcilePendingAfterFailure ctx (rp_load r) tid pendingFailureAfterConfirmedDeath)"

definition completeTerminated :: "(nat \<Rightarrow> bool) \<Rightarrow> replies \<Rightarrow> task_id \<Rightarrow> task_snapshot \<Rightarrow> bool \<Rightarrow> go_time \<Rightarrow> send_claim \<Rightarrow> effect list" where
  "completeTerminated ctx r tid n timedOut at c =
     (if ctx 0 then []
      else if timedOut then
        (if sn_Subcommand n = SubcommandImpl \<and> \<not> rp_unlocked r
         then ReleaseLock tid # (if ctx 1 then [] else give_up (later 10 ctx) r tid c)
         else (if sn_Subcommand n = SubcommandImpl then [ReleaseLock tid] else [])
              @ (if ctx 2 then [] else [Spawn (ResumePending (timeout_input tid n (rp_now r 2)) c)]))
      else if ctx 3 then []
      else KillConfirmed tid (case rp_exit r of Inr (Some existing) \<Rightarrow> existing | _ \<Rightarrow> cancelledExitCode) at #
        (if \<not> rp_killed r then (if ctx 4 then [] else give_up (later 10 ctx) r tid c)
         else if ctx 5 then []
         else if sc_Token c \<noteq> 0 then [Pend (OpRemoveClaim c)]
         else [Pend (OpRemove tid)]))"

definition sendAndReconcile :: "replies \<Rightarrow> send_claim \<Rightarrow> task_snapshot \<Rightarrow> bool \<Rightarrow> effect list" where
  "sendAndReconcile r c n timedOut =
     Terminate (sc_TaskID c) (sc_Authority c) #
     (if \<not> tr_Dead (rp_signals r) then handleUnconfirmedTermination (rp_load r) c (rp_signals r)
      else case currentClaimAuthority (rp_load r) c of
        None \<Rightarrow> [Pend (OpInvalidateSend c)]
      | Some latest \<Rightarrow> completeTerminated never_ended r (sc_TaskID c) latest timedOut (rp_now r 0) c)"

section \<open>Periodic reconciliation\<close>

definition confirm_termination :: "(nat \<Rightarrow> bool) \<Rightarrow> replies \<Rightarrow> task_id \<Rightarrow> task_snapshot \<Rightarrow> bool \<Rightarrow> effect list" where
  "confirm_termination ctx r tid n timedOut =
     (if ctx 2 then []
      else AwaitDeath tid #
        (case rp_confirm r of
           (_, Some e) \<Rightarrow> if ctx 3 then [] else reconcilePendingAfterFailure (later 20 ctx) (rp_load r) tid pendingFailureFromSnapshot
         | (True, None) \<Rightarrow> completeTerminated (later 30 ctx) r tid n timedOut (rp_now r 3) zero_claim
         | (False, None) \<Rightarrow> []))"

definition reconcileTermination :: "(nat \<Rightarrow> bool) \<Rightarrow> replies \<Rightarrow> task_id \<Rightarrow> task_snapshot \<Rightarrow> bool \<Rightarrow> process_signal_authority \<Rightarrow> effect list" where
  "reconcileTermination ctx r tid n timedOut authority =
     (if ctx 0 then []
      else if validProcessSignalAuthority authority
      then Pend (OpClaimForSend tid authority) #
        (case rp_claim r of
           (c, ClaimAcquired) \<Rightarrow> if ctx 1 then [Pend (OpReleaseSend c)] else [Spawn (SendAndReconcile c n timedOut)]
         | (_, ClaimSent) \<Rightarrow> confirm_termination ctx r tid n timedOut
         | (_, ClaimConfirmOnly) \<Rightarrow> confirm_termination ctx r tid n timedOut
         | (_, ClaimNotFound) \<Rightarrow> []
         | (_, ClaimAlreadyClaimed) \<Rightarrow> [])
      else confirm_termination ctx r tid n timedOut)"

text \<open>The thread that takes the total of the stalled times of a task.\<close>

definition take_total :: "task_id \<Rightarrow> task_world \<Rightarrow> task_world \<times> int" where
  "take_total tid w = (case TakeTotal tid (tw_stalled w) of (m, ms) \<Rightarrow> (w\<lparr>tw_stalled := m\<rparr>, ms))"

text \<open>The metrics of a task whose end the daemon did not observe itself.\<close>

definition estimated_metrics :: "task_id \<Rightarrow> task_state \<Rightarrow> go_time \<Rightarrow> int \<Rightarrow> metrics_input" where
  "estimated_metrics tid st at ms = \<lparr>mi_TaskID = tid, mi_FinalState = st, mi_Estimated = True, mi_OccurredAt = at,
     mi_StalledTotalMs = ms\<rparr>"

text \<open>What follows once a recovering task is stored as recovered or lost.\<close>

definition recovering_resolved :: "(nat \<Rightarrow> bool) \<Rightarrow> replies \<Rightarrow> task_id \<Rightarrow> task_snapshot \<Rightarrow> bool \<Rightarrow> go_time \<Rightarrow> task_world
    \<Rightarrow> task_world \<times> effect list" where
  "recovering_resolved ctx r tid n present at w =
     (if ctx 8 \<or> ctx 9 then (w, [])
      else case take_total tid w of
        (w, ms) \<Rightarrow>
          (w, if ctx 10 then []
              else RecordMetrics (estimated_metrics tid (recoveringFinalState present n) at ms) #
                (if ctx 11 then []
                 else ReleaseSlot tid # (if ctx 12 then [] else [Pend (OpRemove tid)]))))"

definition reconcileRecovering :: "(nat \<Rightarrow> bool) \<Rightarrow> replies \<Rightarrow> task_io \<Rightarrow> task_id \<Rightarrow> task_world \<Rightarrow> task_world \<times> effect list" where
  "reconcileRecovering ctx r io tid w =
     (if ctx 0 then (w, [])
      else case rp_live r of
        Inl _ \<Rightarrow> (w, [])
      | Inr dead \<Rightarrow>
          if \<not> dead \<or> ctx 1 then (w, [])
          else
     (case rp_message r of
        Inl _ \<Rightarrow> (w, if ctx 2 then [] else [register_effect tid (PendingSendConfirmOnly, None)])
      | Inr present \<Rightarrow>
          if ctx 3 \<or> ctx 4 \<or> ctx 5 then (w, [])
          else
     (case load_task io tid w of
        Inl _ \<Rightarrow> (w, if ctx 6 then [] else reconcilePendingAfterFailure (later 20 ctx) (rp_load r) tid pendingFailureAfterConfirmedDeath)
      | Inr n \<Rightarrow>
          if sn_State n \<noteq> StateRecovering
          then (w, if \<not> ctx 7 \<and> isReconciliationTerminalState (sn_State n) then [Pend (OpRemove tid)] else [])
          else
     (case resolveRecoveringLockedWithContext (later 40 ctx) io tid n present (rp_now r 0) w of
        (w, _, False) \<Rightarrow> (w, [])
      | (w, Some _, True) \<Rightarrow> (w, if ctx 6 then [] else reconcilePendingAfterFailure (later 20 ctx) (rp_load r) tid pendingFailureAfterConfirmedDeath)
      | (w, None, True) \<Rightarrow> recovering_resolved ctx r tid n present (rp_now r 0) w))))"

section \<open>Orphans\<close>

record orphan_input =
  oi_TaskID :: task_id
  oi_SessionRef :: "session_ref option"
  oi_AdoptedAfterRestart :: bool
  oi_OccurredAt :: go_time

text \<open>The three flags of the result, of which one is set.\<close>

datatype orphan_result = Finalized | RecoveryStarted | Deferred

definition orphan_recovery :: "orphan_input \<Rightarrow> go_time \<Rightarrow> recover_input" where
  "orphan_recovery inp at = \<lparr>ri_TaskID = oi_TaskID inp, ri_SessionRef = oi_SessionRef inp, ri_Origin = RecoveryOriginOrphan, ri_OccurredAt = at\<rparr>"

definition Handle_orphan :: "(nat \<Rightarrow> bool) \<Rightarrow> replies \<Rightarrow> orphan_input \<Rightarrow> effect list \<times> orphan_result" where
  "Handle_orphan ctx r inp =
     (let failed = reconcilePendingAfterFailure (later 20 ctx) (rp_load r) (oi_TaskID inp) pendingFailureAfterConfirmedDeath
      in if ctx 0 then ([], Deferred)
         else case rp_message r of
           Inl _ \<Rightarrow> (if ctx 1 then [] else failed, Deferred)
         | Inr present \<Rightarrow>
             if ctx 2 then ([], Deferred)
             else if present then
               (if ctx 3 then ([], Deferred)
                else if \<not> rp_finalized r
                then (FinalizeOrphan (oi_TaskID inp) (oi_AdoptedAfterRestart inp) (oi_OccurredAt inp) # (if ctx 4 then [] else failed), Deferred)
                else if ctx 5 then ([FinalizeOrphan (oi_TaskID inp) (oi_AdoptedAfterRestart inp) (oi_OccurredAt inp)], Deferred)
                else ([FinalizeOrphan (oi_TaskID inp) (oi_AdoptedAfterRestart inp) (oi_OccurredAt inp), Pend (OpRemove (oi_TaskID inp))], Finalized))
             else if ctx 6 then ([], Deferred)
             else ([Spawn (ResumeOrphan (orphan_recovery inp (rp_now r 4)))], RecoveryStarted))"

text \<open>The goroutine of the coordinator; \<open>ctx\<close> is the context of the caller.\<close>

definition resumeOrphan :: "(nat \<Rightarrow> bool) \<Rightarrow> replies \<Rightarrow> recover_input \<Rightarrow> effect list" where
  "resumeOrphan ctx r inp =
     Resume inp #
     (case rp_resume r of
        ResumeInFlight \<Rightarrow> []
      | ResumeFailed \<Rightarrow> if ctx 0 then [] else reconcilePendingAfterFailure (later 20 ctx) (rp_load r) (ri_TaskID inp) pendingFailureAfterConfirmedDeath
      | ResumeDone \<Rightarrow> if ctx 1 then [] else [Pend (OpRemove (ri_TaskID inp))])"

section \<open>One round of the reconciliation\<close>

text \<open>
  \<open>owned\<close> is the lifecycle registry's answer; a recovering task is handled only while no other thread
  recovers it (\<open>recovering\<close>, the recovery registry before the call).
\<close>

definition reconcileOne :: "(nat \<Rightarrow> bool) \<Rightarrow> replies \<Rightarrow> task_io \<Rightarrow> bool \<Rightarrow> ownership_registry \<Rightarrow> pending_entry \<Rightarrow> task_world
    \<Rightarrow> task_world \<times> effect list" where
  "reconcileOne ctx r io owned recovering entry w =
     (let tid = pe_taskID entry
      in if ctx 0 \<or> owned \<or> ctx 1 then (w, [])
         else case load_task io tid w of
           Inl _ \<Rightarrow> (w, [])
         | Inr n \<Rightarrow>
             if ctx 2 then (w, [])
             else if sn_State n = StateRecovering then
               (if snd (Acquire_recovery tid recovering) = None then (w, []) else reconcileRecovering (later 100 ctx) r io tid w)
             else if sn_State n = StateOrphaned then
               (w, fst (Handle_orphan (later 100 ctx) r \<lparr>oi_TaskID = tid, oi_SessionRef = sn_SessionRef n,
                          oi_AdoptedAfterRestart = sn_AdoptedAfterRestart n, oi_OccurredAt = rp_now r 5\<rparr>))
             else if sn_State n = StateTimeout then (w, reconcileTermination (later 100 ctx) r tid n True (pe_authority entry))
             else if sn_State n = StateCancelling then (w, reconcileTermination (later 100 ctx) r tid n False (pe_authority entry))
             else if isReconciliationTerminalState (sn_State n) then (w, [Pend (OpRemove tid)])
             else (w, []))"

text \<open>Stored tasks that nobody looks after are registered; \<open>failed\<close> tells for which the registration is invalid.\<close>

fun discover :: "(task_id \<Rightarrow> bool) \<Rightarrow> (task_id \<Rightarrow> bool) \<Rightarrow> task_id list \<Rightarrow> task_snapshot list \<Rightarrow> effect list" where
  "discover owned failed seen [] = []"
| "discover owned failed seen (n # ns) =
     (if sn_TaskID n \<in> set seen \<or> owned (sn_TaskID n) then discover owned failed seen ns
      else register_effect (sn_TaskID n) (pendingRegistration n) #
           discover owned failed (if failed (sn_TaskID n) then seen else sn_TaskID n # seen) ns)"

definition reconcilableStates :: "task_state list" where
  "reconcilableStates = [StateOrphaned, StateRecovering, StateTimeout, StateCancelling]"

fun reconcile_entries :: "(nat \<Rightarrow> bool) \<Rightarrow> nat \<Rightarrow> (task_id \<Rightarrow> bool) \<Rightarrow> (pending_entry \<Rightarrow> task_world \<Rightarrow> task_world \<times> effect list)
    \<Rightarrow> pending_entry list \<Rightarrow> task_world \<Rightarrow> task_world \<times> effect list" where
  "reconcile_entries ctx k owned one [] w = (w, [])"
| "reconcile_entries ctx k owned one (e # es) w =
     (if ctx k then (w, [])
      else if owned (pe_taskID e) then reconcile_entries ctx (Suc k) owned one es w
      else case one e w of
        (w, script) \<Rightarrow> (case reconcile_entries ctx (Suc k) owned one es w of (w, rest) \<Rightarrow> (w, script @ rest)))"

text \<open>\<open>entries\<close> and \<open>entries'\<close> are the two listings of the pending set, \<open>one\<close> is the call of \<open>reconcileOne\<close>.\<close>

definition reconcileTick :: "(nat \<Rightarrow> bool) \<Rightarrow> pending_entry list \<Rightarrow> domain_error + task_snapshot list \<Rightarrow> (task_id \<Rightarrow> bool) \<Rightarrow> (task_id \<Rightarrow> bool)
    \<Rightarrow> pending_entry list \<Rightarrow> (pending_entry \<Rightarrow> task_world \<Rightarrow> task_world \<times> effect list) \<Rightarrow> task_world \<Rightarrow> task_world \<times> effect list" where
  "reconcileTick ctx entries stored owned failed entries' one w =
     (case stored of
        Inl _ \<Rightarrow> (w, [])
      | Inr ns \<Rightarrow>
          (case reconcile_entries ctx 0 owned one entries' w of
             (w, script) \<Rightarrow> (w, discover owned failed (map pe_taskID entries) ns @ script)))"

section \<open>Adoption after a restart\<close>

datatype adoption_outcome =
    OutcomeResumedMonitoring | OutcomeOrphanRecovered | OutcomeOrphanRecoveryStarted | OutcomeError | OutcomeReconciled | OutcomeDeferred

text \<open>A call gives its outcome, or \<open>None\<close> when the context ended it.\<close>

type_synonym adoption = "effect list \<times> adoption_outcome option"

text \<open>The recurring end of a branch: the task is registered as pending between two looks at the context.\<close>

definition register_and_return :: "(nat \<Rightarrow> bool) \<Rightarrow> nat \<Rightarrow> task_id \<Rightarrow> task_snapshot \<Rightarrow> adoption_outcome \<Rightarrow> adoption" where
  "register_and_return ctx k tid n outcome =
     (if ctx k then ([], None)
      else ([register_effect tid (pendingRegistration n)], if ctx (Suc k) then None else Some outcome))"

text \<open>The end of the adoption of a recovering task that is stored as recovered or lost.\<close>

definition adopted_resolved :: "(nat \<Rightarrow> bool) \<Rightarrow> task_id \<Rightarrow> task_snapshot \<Rightarrow> bool \<Rightarrow> go_time \<Rightarrow> task_world \<Rightarrow> task_world \<times> adoption" where
  "adopted_resolved ctx tid n present at w =
     (if ctx 14 then (w, [], None)
      else case take_total tid w of
        (w, ms) \<Rightarrow>
          if ctx 15 then (w, [], None)
          else if ctx 16 then (w, [RecordMetrics (estimated_metrics tid (recoveringFinalState present n) at ms)], None)
          else (w, [RecordMetrics (estimated_metrics tid (recoveringFinalState present n) at ms), ReleaseSlot tid],
                if ctx 17 then None else Some (if present then OutcomeOrphanRecovered else OutcomeError)))"

definition adopted_unresolved :: "(nat \<Rightarrow> bool) \<Rightarrow> replies \<Rightarrow> task_id \<Rightarrow> adoption" where
  "adopted_unresolved ctx r tid =
     (if ctx 10 then ([], None)
      else if ctx 11 \<or> ctx 12 then ([register_effect tid (PendingSendConfirmOnly, None)], None)
      else (register_effect tid (PendingSendConfirmOnly, None) #
              reconcilePendingAfterFailure (later 60 ctx) (rp_load r) tid pendingFailureAfterConfirmedDeath,
            if ctx 13 then None else Some OutcomeError))"

definition adoptRecoveringLocked :: "(nat \<Rightarrow> bool) \<Rightarrow> replies \<Rightarrow> task_io \<Rightarrow> task_id \<Rightarrow> task_snapshot \<Rightarrow> go_time \<Rightarrow> task_world
    \<Rightarrow> task_world \<times> adoption" where
  "adoptRecoveringLocked ctx r io tid n at w =
     (if ctx 0 \<or> ctx 1 then (w, [], None)
      else case rp_live r of
        Inl _ \<Rightarrow> (w, register_and_return ctx 2 tid n OutcomeError)
      | Inr False \<Rightarrow> (w, register_and_return ctx 4 tid n OutcomeDeferred)
      | Inr True \<Rightarrow>
          if ctx 6 \<or> ctx 7 then (w, [], None)
          else
     (case rp_message r of
        Inl _ \<Rightarrow> (w, register_and_return ctx 8 tid n OutcomeError)
      | Inr present \<Rightarrow>
     (case resolveRecoveringLockedWithContext (later 40 ctx) io tid n present at w of
        (w, _, False) \<Rightarrow> (w, [], None)
      | (w, Some _, True) \<Rightarrow> (w, adopted_unresolved ctx r tid)
      | (w, None, True) \<Rightarrow> adopted_resolved ctx tid n present at w)))"

text \<open>A task with a live process is registered first; then a thread of its own terminates the process.\<close>

definition register_and_spawn :: "(nat \<Rightarrow> bool) \<Rightarrow> nat \<Rightarrow> replies \<Rightarrow> task_id \<Rightarrow> task_snapshot \<Rightarrow> thread \<Rightarrow> adoption" where
  "register_and_spawn ctx k r tid n t =
     (if ctx k then ([], None)
      else if \<not> rp_registered r then ([register_effect tid (pendingRegistration n)], Some OutcomeError)
      else if ctx (Suc k) then ([register_effect tid (pendingRegistration n)], None)
      else ([register_effect tid (pendingRegistration n), Spawn t], Some OutcomeDeferred))"

text \<open>\<open>startTimeoutRecovery\<close> with its caller's answer to an error.\<close>

definition startTimeoutRecovery :: "(nat \<Rightarrow> bool) \<Rightarrow> replies \<Rightarrow> task_id \<Rightarrow> task_snapshot \<Rightarrow> adoption" where
  "startTimeoutRecovery ctx r tid n =
     (if ctx 4 then ([], None)
      else case releaseTimeoutPathLock r tid n of
        (calls, False) \<Rightarrow> (calls @ reconcilePendingAfterFailure (later 60 ctx) (rp_load r) tid pendingFailureAfterConfirmedDeath, Some OutcomeError)
      | (calls, True) \<Rightarrow>
          if ctx 5 \<or> ctx 6 then (calls, None)
          else (calls @ [Spawn (ResumeAdopted (timeout_input tid n (rp_now r 0)) zero_claim)], Some OutcomeOrphanRecoveryStarted))"

definition adoptTimeoutLocked :: "(nat \<Rightarrow> bool) \<Rightarrow> replies \<Rightarrow> task_id \<Rightarrow> task_snapshot \<Rightarrow> adoption" where
  "adoptTimeoutLocked ctx r tid n =
     (if ctx 0 \<or> ctx 1 then ([], None)
      else case rp_live r of
        Inl _ \<Rightarrow> register_and_return ctx 2 tid n OutcomeError
      | Inr True \<Rightarrow> startTimeoutRecovery ctx r tid n
      | Inr False \<Rightarrow>
          if sn_PID n = None then register_and_return ctx 7 tid n OutcomeDeferred
          else register_and_spawn ctx 9 r tid n (ConfirmTimeoutTermination tid n))"

definition adoptCancellingLocked :: "(nat \<Rightarrow> bool) \<Rightarrow> replies \<Rightarrow> task_id \<Rightarrow> task_snapshot \<Rightarrow> adoption" where
  "adoptCancellingLocked ctx r tid n =
     (if ctx 0 \<or> ctx 1 then ([], None)
      else if rp_live r = Inl ErrTaskNotFound \<or> rp_live r = Inr True then
        (if ctx 2 then ([], None)
         else if \<not> rp_killed r then
           (if ctx 3 then ([KillConfirmed tid cancelledExitCode (rp_now r 0)], None)
            else (KillConfirmed tid cancelledExitCode (rp_now r 0) #
                    reconcilePendingAfterFailure (later 60 ctx) (rp_load r) tid pendingFailureAfterConfirmedDeath, Some OutcomeError))
         else ([KillConfirmed tid cancelledExitCode (rp_now r 0)], Some OutcomeReconciled))
      else case rp_live r of
        Inl _ \<Rightarrow> register_and_return ctx 4 tid n OutcomeError
      | Inr _ \<Rightarrow>
          if sn_PID n = None then register_and_return ctx 6 tid n OutcomeDeferred
          else register_and_spawn ctx 8 r tid n (ConfirmCancellationTermination tid n))"

definition recoverOrphan :: "(nat \<Rightarrow> bool) \<Rightarrow> replies \<Rightarrow> task_id \<Rightarrow> session_ref option \<Rightarrow> go_time \<Rightarrow> adoption" where
  "recoverOrphan ctx r tid ref at =
     (case Handle_orphan (later 1 ctx) r \<lparr>oi_TaskID = tid, oi_SessionRef = ref, oi_AdoptedAfterRestart = True, oi_OccurredAt = at\<rparr> of
        (script, result) \<Rightarrow>
          (script, if ctx 0 then None
                   else Some (case result of Finalized \<Rightarrow> OutcomeOrphanRecovered
                     | RecoveryStarted \<Rightarrow> OutcomeOrphanRecoveryStarted | Deferred \<Rightarrow> OutcomeError)))"

text \<open>\<open>listed\<close> is the snapshot with which the task was found.\<close>

definition adoptOne :: "(nat \<Rightarrow> bool) \<Rightarrow> replies \<Rightarrow> task_io \<Rightarrow> task_snapshot \<Rightarrow> go_time \<Rightarrow> task_world \<Rightarrow> task_world \<times> adoption" where
  "adoptOne ctx r io listed at w =
     (let tid = sn_TaskID listed
      in if ctx 0 \<or> ctx 1 then (w, [], None)
         else case load_task io tid w of
           Inl e \<Rightarrow> (w, if e = ErrTaskNotFound then ([], Some OutcomeError) else register_and_return ctx 2 tid listed OutcomeError)
         | Inr n \<Rightarrow>
             if \<not> isAdoptionState (sn_State n) then (w, [], Some OutcomeReconciled)
             else if sn_State n = StateRecovering then adoptRecoveringLocked (later 100 ctx) r io tid n at w
             else if sn_State n = StateTimeout then (w, adoptTimeoutLocked (later 100 ctx) r tid n)
             else if sn_State n = StateOrphaned then
               (w, if ctx 4 then ([], None) else recoverOrphan (later 100 ctx) r tid (sn_SessionRef n) at)
             else if sn_State n = StateCancelling then (w, adoptCancellingLocked (later 100 ctx) r tid n)
             else
               (case adopt_live_locked (later 100 ctx) io (rp_live r) tid n at w of
                  (w, None) \<Rightarrow> (w, [], None)
                | (w, Some (Inl e)) \<Rightarrow> (w, [], Some OutcomeError)
                | (w, Some (Inr False)) \<Rightarrow> (w, [], Some OutcomeResumedMonitoring)
                | (w, Some (Inr True)) \<Rightarrow>
                    (w, if ctx 5 then ([], None) else recoverOrphan (later 200 ctx) r tid (sn_SessionRef n) at)))"

text \<open>The tasks are adopted one after the other; the first one that the context ends is the last.\<close>

fun adopt_all :: "(nat \<Rightarrow> bool) \<Rightarrow> (nat \<Rightarrow> task_snapshot \<Rightarrow> task_world \<Rightarrow> task_world \<times> adoption) \<Rightarrow> nat \<Rightarrow> task_snapshot list \<Rightarrow> task_world
    \<Rightarrow> task_world \<times> effect list \<times> (task_id \<times> adoption_outcome) list" where
  "adopt_all ctx one k [] w = (w, [], [])"
| "adopt_all ctx one k (n # ns) w =
     (if ctx k then (w, [], [])
      else case one k n w of
        (w, script, None) \<Rightarrow> (w, script, [])
      | (w, script, Some outcome) \<Rightarrow>
          (case adopt_all ctx one (Suc k) ns w of
             (w, rest, outcomes) \<Rightarrow> (w, script @ rest, (sn_TaskID n, outcome) # outcomes)))"

text \<open>
  The registry of active slots is reset to the tasks that are found; \<open>None\<close> is a registry left alone.
  \<open>one\<close> is the call of \<open>adoptOne\<close>.
\<close>

definition AdoptRunningTasks_Execute :: "(nat \<Rightarrow> bool) \<Rightarrow> domain_error + task_snapshot list
    \<Rightarrow> (nat \<Rightarrow> task_snapshot \<Rightarrow> task_world \<Rightarrow> task_world \<times> adoption) \<Rightarrow> task_world
    \<Rightarrow> task_world \<times> active_registry option \<times> effect list \<times> (domain_error + (task_id \<times> adoption_outcome) list)" where
  "AdoptRunningTasks_Execute ctx stored one w =
     (if ctx 0 then (w, None, [], Inr [])
      else case stored of
        Inl e \<Rightarrow> (w, None, [], Inl e)
      | Inr ns \<Rightarrow>
          if ctx 1 \<or> ctx 2 then (w, None, [], Inr [])
          else let reg = reg_Reset (map (\<lambda>n. (sn_TaskID n, sn_Subcommand n)) ns)
          in if ctx 3 then (w, Some reg, [], Inr [])
             else case adopt_all (later 4 ctx) one 0 ns w of (w, script, outcomes) \<Rightarrow> (w, Some reg, script, Inr outcomes))"

section \<open>Claims are always given back\<close>

text \<open>What a started thread does; \<open>ctx\<close> is the context of the thread that started it, where it matters.\<close>

fun run_thread :: "(nat \<Rightarrow> bool) \<Rightarrow> replies \<Rightarrow> thread \<Rightarrow> effect list" where
  "run_thread ctx r (ConfirmTimeoutTermination tid n) = confirmTimeoutTermination r tid n"
| "run_thread ctx r (ConfirmCancellationTermination tid n) = confirmCancellationTermination r tid n"
| "run_thread ctx r (ResumeAdopted inp c) = resumeRecovery_adopted r inp c"
| "run_thread ctx r (ResumePending inp c) = resumeRecovery_pending r inp c"
| "run_thread ctx r (ResumeOrphan inp) = resumeOrphan ctx r inp"
| "run_thread ctx r (SendAndReconcile c n timedOut) = sendAndReconcile r c n timedOut"

text \<open>The claim that a thread is given or obtains.\<close>

fun thread_claim :: "thread \<Rightarrow> send_claim option" where
  "thread_claim (ResumeAdopted inp c) = Some c"
| "thread_claim (ResumePending inp c) = Some c"
| "thread_claim (SendAndReconcile c n timedOut) = Some c"
| "thread_claim _ = None"

definition acquired :: "replies \<Rightarrow> task_snapshot \<Rightarrow> send_claim option" where
  "acquired r n = (if processSignalAuthority n \<noteq> None \<and> snd (rp_claim r) = ClaimAcquired then Some (fst (rp_claim r)) else None)"

fun claim_of :: "replies \<Rightarrow> thread \<Rightarrow> send_claim option" where
  "claim_of r (ConfirmTimeoutTermination tid n) = acquired r n"
| "claim_of r (ConfirmCancellationTermination tid n) = acquired r n"
| "claim_of r t = thread_claim t"

text \<open>A claim leaves a thread by an operation that uses it or with the thread it is handed to.\<close>

definition settles :: "send_claim \<Rightarrow> effect \<Rightarrow> bool" where
  "settles c e = (case e of Pend op \<Rightarrow> uses c op | Spawn t \<Rightarrow> thread_claim t = Some c | _ \<Rightarrow> False)"

fun rank :: "thread \<Rightarrow> nat" where
  "rank (ConfirmTimeoutTermination tid n) = 1"
| "rank (ConfirmCancellationTermination tid n) = 1"
| "rank (SendAndReconcile c n timedOut) = 1"
| "rank _ = 0"

lemmas claim_scripts = confirmTimeoutTermination_def confirmCancellationTermination_def resumeRecovery_adopted_def
  resumeRecovery_pending_def resumeOrphan_def sendAndReconcile_def completeTerminated_def give_up_def never_ended_def
  handleUnconfirmedTermination_def releaseOrInvalidateSendAfterTerminationError_def releaseTimeoutPathLock_def

lemma reconcilePendingAfterFailure_effects:
  "e \<in> set (reconcilePendingAfterFailure ctx load tid d) \<Longrightarrow> \<exists>op. e = Pend op \<and> used_claim op = None"
  by (auto simp: reconcilePendingAfterFailure_def register_effect_def split: if_splits sum.splits)

lemma spawned_rank: "Spawn t' \<in> set (run_thread ctx r t) \<Longrightarrow> rank t' < rank t"
  by (cases t)
    (auto simp: claim_scripts register_effect_def dest: reconcilePendingAfterFailure_effects
      split: option.splits prod.splits if_splits resume_reply.splits sum.splits)

text \<open>The pending operations of a thread and of the threads it starts.\<close>

function thread_ops :: "(nat \<Rightarrow> bool) \<Rightarrow> (thread \<Rightarrow> replies) \<Rightarrow> thread \<Rightarrow> pending_op list" where
  "thread_ops ctx rs t =
     concat (map (\<lambda>e. case e of Pend op \<Rightarrow> [op] | Spawn t' \<Rightarrow> thread_ops ctx rs t' | _ \<Rightarrow> []) (run_thread ctx (rs t) t))"
  by pat_completeness auto
termination
  by (relation "measure (\<lambda>(ctx, rs, t). rank t)") (auto dest: spawned_rank)

declare thread_ops.simps [simp del]

lemma settles_simps [simp]:
  "settles c (Pend op) = uses c op" "settles c (Spawn t) = (thread_claim t = Some c)" "\<not> settles c (ReleaseLock tid)"
  "\<not> settles c (Terminate tid a)" "\<not> settles c (KillConfirmed tid code at)" "\<not> settles c (Resume inp)"
  by (simp_all add: settles_def)

lemma uses_simps [simp]:
  "uses c (OpCompleteSend c)" "uses c (OpReleaseSend c)" "uses c (OpInvalidateSend c)" "uses c (OpRemoveClaim c)"
  "\<not> uses c (OpClaimForSend tid a)" "\<not> uses c (OpRegister tid d b)" "\<not> uses c (OpRemove tid)"
  by (simp_all add: uses_def same_claim_def)

lemma unconfirmed_settles: "length (filter (settles c) (handleUnconfirmedTermination load c result)) = 1"
  by (simp add: handleUnconfirmedTermination_def releaseOrInvalidateSendAfterTerminationError_def split: option.split prod.split)

lemma give_up_settles: "sc_Token c \<noteq> 0 \<Longrightarrow> length (filter (settles c) (give_up ctx r tid c)) = 1"
  by (simp add: give_up_def)

lemma completeTerminated_settles:
  "sc_Token c \<noteq> 0 \<Longrightarrow> length (filter (settles c) (completeTerminated never_ended r tid n timedOut at c)) = 1"
  by (simp add: completeTerminated_def never_ended_def give_up_settles)

lemma confirm_thread_settles:
  assumes "rp_claim r = (c, ClaimAcquired)" and "processSignalAuthority n = Some a"
  shows "length (filter (settles c) (confirmTimeoutTermination r tid n)) = 1"
    and "length (filter (settles c) (confirmCancellationTermination r tid n)) = 1"
  using assms unconfirmed_settles
  by (simp_all add: confirmTimeoutTermination_def confirmCancellationTermination_def releaseTimeoutPathLock_def split: option.split)

lemma sendAndReconcile_settles:
  "sc_Token c \<noteq> 0 \<Longrightarrow> length (filter (settles c) (sendAndReconcile r c n timedOut)) = 1"
  using unconfirmed_settles completeTerminated_settles by (simp add: sendAndReconcile_def split: option.split)

lemma resume_settles:
  assumes "sc_Token c \<noteq> 0"
  shows "length (filter (settles c) (resumeRecovery_adopted r inp c)) = 1"
    and "length (filter (settles c) (resumeRecovery_pending r inp c)) = 1"
  using assms by (simp_all add: resumeRecovery_adopted_def resumeRecovery_pending_def split: resume_reply.split)

lemma settled_once:
  assumes "claim_of r t = Some c" and "sc_Token c \<noteq> 0"
  shows "length (filter (settles c) (run_thread ctx r t)) = 1"
proof (cases t)
  case (ConfirmTimeoutTermination tid n)
  with assms(1) confirm_thread_settles(1) [of r c n] show ?thesis by (auto simp: acquired_def prod_eq_iff split: if_splits)
next
  case (ConfirmCancellationTermination tid n)
  with assms(1) confirm_thread_settles(2) [of r c n] show ?thesis by (auto simp: acquired_def prod_eq_iff split: if_splits)
qed (use assms resume_settles sendAndReconcile_settles in auto)

lemma concat_one:
  assumes "length (filter P xs) = 1" and "\<And>x. x \<in> set xs \<Longrightarrow> length (filter Q (f x)) = (if P x then 1 else 0)"
  shows "length (filter Q (concat (map f xs))) = 1"
proof -
  have "length (filter Q (concat (map f ys))) = length (filter P ys)" if "set ys \<subseteq> set xs" for ys
    using that assms(2) by (induction ys) auto
  with assms(1) show ?thesis by auto
qed

lemma spawn_unconfirmed: "Spawn t \<notin> set (handleUnconfirmedTermination load c result)"
  by (simp add: handleUnconfirmedTermination_def releaseOrInvalidateSendAfterTerminationError_def split: option.split prod.split)

lemma spawn_failure: "Spawn t \<notin> set (reconcilePendingAfterFailure ctx load tid d)"
  using reconcilePendingAfterFailure_effects by blast

lemma spawn_completeTerminated: "Spawn t \<in> set (completeTerminated ctx r tid n timedOut at c) \<Longrightarrow> thread_claim t = Some c"
  by (auto simp: completeTerminated_def give_up_def spawn_failure split: if_splits)

lemma spawned_claim:
  assumes "Spawn t' \<in> set (run_thread ctx r t)"
  shows "thread_claim t' = claim_of r t"
proof (cases t)
  case (ConfirmTimeoutTermination tid n)
  obtain c outcome where c: "rp_claim r = (c, outcome)" by fastforce
  show ?thesis
  proof (cases "processSignalAuthority n")
    case (Some a)
    with assms c ConfirmTimeoutTermination show ?thesis
      by (cases "currentClaimAuthority (rp_load r) c")
        (simp_all add: confirmTimeoutTermination_def releaseTimeoutPathLock_def acquired_def spawn_unconfirmed split: if_splits)
  qed (use assms ConfirmTimeoutTermination in \<open>simp add: confirmTimeoutTermination_def register_effect_def\<close>)
next
  case (ConfirmCancellationTermination tid n)
  obtain c outcome where c: "rp_claim r = (c, outcome)" by fastforce
  show ?thesis
  proof (cases "processSignalAuthority n")
    case (Some a)
    with assms c ConfirmCancellationTermination show ?thesis
      by (cases "currentClaimAuthority (rp_load r) c")
        (simp_all add: confirmCancellationTermination_def spawn_unconfirmed split: if_splits)
  qed (use assms ConfirmCancellationTermination in \<open>simp add: confirmCancellationTermination_def register_effect_def\<close>)
next
  case (SendAndReconcile c n timedOut)
  with assms spawn_completeTerminated show ?thesis
    by (auto simp: sendAndReconcile_def spawn_unconfirmed split: option.splits if_splits)
qed (use assms spawned_rank [of t' ctx r t] in auto)

lemma thread_claim_of: "thread_claim t = Some c \<Longrightarrow> claim_of r t = Some c"
  by (cases t) auto

lemma thread_ops_use_once:
  assumes "claim_of (rs t) t = Some c" and "sc_Token c \<noteq> 0"
  shows "length (filter (uses c) (thread_ops ctx rs t)) = 1"
  using assms
proof (induction ctx rs t rule: thread_ops.induct)
  case (1 ctx rs t)
  show ?case
    unfolding thread_ops.simps [of ctx rs t]
  proof (rule concat_one [OF settled_once [OF "1.prems"]])
    fix e assume e: "e \<in> set (run_thread ctx (rs t) t)"
    show "length (filter (uses c) (case e of Pend op \<Rightarrow> [op] | Spawn t' \<Rightarrow> thread_ops ctx rs t' | _ \<Rightarrow> []))
        = (if settles c e then 1 else 0)"
    proof (cases e)
      case (Spawn t')
      with e spawned_claim "1.prems"(1) have "thread_claim t' = Some c" by metis
      with Spawn "1.IH" [of e t'] "1.prems"(2) e thread_claim_of show ?thesis by simp
    qed (simp_all add: settles_def)
  qed
qed

text \<open>An operation that uses a claim ends it.\<close>

definition entries_named :: "pending_set \<Rightarrow> bool" where
  "entries_named s \<longleftrightarrow> (\<forall>tid e. ps_entries s tid = Some e \<longrightarrow> pe_taskID e = tid)"

lemma registered_again_named: "pe_taskID (registered_again d a e) = pe_taskID e"
  by (auto simp: registered_again_def split: pending_state.splits pending_send_disposition.splits)

lemma registration_named: "pe_taskID (pendingEntryForRegistration tid d a) = tid"
  by (cases d) (simp_all add: new_entry_def)

lemma held_named: "entries_named s \<Longrightarrow> held_entry c s = Some e \<Longrightarrow> pe_taskID e = sc_TaskID c"
  by (simp add: held_entry_Some entries_named_def)

lemma put_named: "entries_named s \<Longrightarrow> pe_taskID e = tid \<Longrightarrow> entries_named (put_entry tid e s)"
  by (simp add: entries_named_def)

lemma token_named: "entries_named (s\<lparr>ps_nextToken := k\<rparr>) = entries_named s"
  by (simp add: entries_named_def)

lemma drop_named: "entries_named s \<Longrightarrow> entries_named (s\<lparr>ps_entries := (ps_entries s)(tid := None)\<rparr>)"
  by (simp add: entries_named_def)

lemma claim_named: "entries_named s \<Longrightarrow> pe_taskID e = tid \<Longrightarrow> entries_named (fst (claim_entry b tid a e s))"
  by (simp add: claim_entry_def confirm_only_def put_named token_named Let_def split: pending_state.split)

lemma entry_named: "entries_named s \<Longrightarrow> ps_entries s tid = Some e \<Longrightarrow> pe_taskID e = tid"
  by (simp add: entries_named_def)

lemma step_named: "entries_named s \<Longrightarrow> entries_named (pending_step op s)"
proof (induction op s rule: pending_step.induct)
  case (1 tid d a s)
  then show ?case
    by (simp add: Register_def put_named registered_again_named registration_named entry_named split: option.split)
next
  case (2 tid a s)
  then show ?case by (simp add: ClaimForSend_def claim_named entry_named split: option.split)
next
  case (3 tid a s)
  then show ?case by (simp add: ClaimInitialSend_def claim_named entry_named put_named token_named new_entry_def Let_def split: option.split)
next
  case (4 c s)
  then show ?case by (simp add: CompleteSend_def put_named held_named split: option.split)
next
  case (5 c s)
  then show ?case by (simp add: ReleaseSend_def put_named held_named split: option.split)
next
  case (6 c s)
  then show ?case by (simp add: InvalidateSend_def put_named confirm_only_def split: option.split)
next
  case (7 c s)
  then show ?case by (simp add: RemoveClaim_def put_named drop_named split: option.split)
next
  case (8 tid s)
  then show ?case by (simp add: Remove_pending_def drop_named split: option.split)
qed

lemma run_named: "entries_named (run_pending ops empty_pending)"
proof -
  have "entries_named s \<Longrightarrow> entries_named (run_pending ops s)" for s
    unfolding run_pending_def by (induction ops arbitrary: s) (auto intro: step_named)
  moreover have "entries_named empty_pending" by (simp add: entries_named_def empty_pending_def)
  ultimately show ?thesis .
qed

lemma use_ends_claim:
  assumes "entries_named s" and "uses c op"
  shows "held_entry c (pending_step op s) = None"
proof -
  obtain d where d: "used_claim op = Some d" "same_claim c d" using assms(2) by (auto simp: uses_def split: option.splits)
  then have same: "held_entry c s' = held_entry d s'" for s'
    by (cases "ps_entries s' (sc_TaskID d)") (auto simp: held_entry_def same_claim_def)
  note named = held_named [OF assms(1), of d]
  show ?thesis
  proof (cases "held_entry d s")
    case None
    with d(1) have "pending_step op s = s"
      by (cases op) (simp_all add: CompleteSend_def ReleaseSend_def InvalidateSend_def RemoveClaim_def)
    with None show ?thesis unfolding same by simp
  next
    case (Some e)
    with d(1) named [OF Some] show ?thesis unfolding same
      by (cases op) (simp_all add: CompleteSend_def ReleaseSend_def InvalidateSend_def RemoveClaim_def held_entry_def confirm_only_def)
  qed
qed

text \<open>
  C18: a thread that holds a send claim always gives it back. Whatever its calls answer, it and the
  threads it starts make exactly one operation with the claim, and after that operation the claim is not
  held any more, whatever other threads did to the pending set before. So no failure leaves a task
  claimed for ever.
\<close>

theorem claims_given_back:
  assumes "claim_of (rs t) t = Some c" and "sc_Token c \<noteq> 0"
  shows "\<exists>before op after. thread_ops ctx rs t = before @ op # after \<and> uses c op
     \<and> (\<forall>x \<in> set (before @ after). \<not> uses c x)
     \<and> (\<forall>ops. held_entry c (pending_step op (run_pending ops empty_pending)) = None)"
proof -
  have "length (filter (uses c) (thread_ops ctx rs t)) = 1" using assms by (rule thread_ops_use_once)
  then obtain op where "filter (uses c) (thread_ops ctx rs t) = [op]" by (auto simp: length_Suc_conv)
  then obtain before after where "thread_ops ctx rs t = before @ op # after" "uses c op"
    "\<forall>x \<in> set before. \<not> uses c x" "filter (uses c) after = []"
    by (auto simp: filter_eq_Cons_iff)
  moreover have "\<forall>ops. held_entry c (pending_step op (run_pending ops empty_pending)) = None"
    using use_ends_claim [OF run_named] \<open>uses c op\<close> by blast
  ultimately show ?thesis by (intro exI [of _ before] exI [of _ op] exI [of _ after]) (auto simp: filter_empty_conv)
qed

definition sample_replies :: replies where
  "sample_replies = \<lparr>rp_now = (\<lambda>_. 40), rp_live = Inr False, rp_message = Inr False, rp_load = Inr sample_cancelling,
     rp_exit = Inr None, rp_claim = (first_claim, ClaimAcquired), rp_registered = True,
     rp_signals = \<lparr>tr_Dead = True, tr_TerminateErr = None, tr_ConfirmErr = None\<rparr>, rp_confirm = (True, None),
     rp_unlocked = True, rp_killed = False, rp_finalized = True, rp_resume = ResumeDone,
     rp_terminate = None, rp_reserved = Inr True\<rparr>"

theorem claims_given_back_witness:
  "\<exists>before op after. thread_ops never_ended (\<lambda>_. sample_replies) (ConfirmCancellationTermination sample_id sample_cancelling)
        = before @ op # after
     \<and> uses first_claim op \<and> (\<forall>x \<in> set (before @ after). \<not> uses first_claim x)
     \<and> (\<forall>ops. held_entry first_claim (pending_step op (run_pending ops empty_pending)) = None)"
proof (rule claims_given_back)
  show "claim_of sample_replies (ConfirmCancellationTermination sample_id sample_cancelling) = Some first_claim"
  proof -
    have "(case processSignalAuthority sample_cancelling of None \<Rightarrow> False | Some _ \<Rightarrow> True)" by code_simp
    then show ?thesis by (auto simp: acquired_def sample_replies_def split: option.splits)
  qed
  show "sc_Token first_claim \<noteq> 0" by code_simp
qed

section \<open>Every stored task is looked after\<close>

lemma discover_covers:
  assumes "n \<in> set ns" and "distinct (map sn_TaskID ns)"
  shows "owned (sn_TaskID n) \<or> sn_TaskID n \<in> set seen
     \<or> register_effect (sn_TaskID n) (pendingRegistration n) \<in> set (discover owned failed seen ns)"
  using assms
proof (induction owned failed seen ns rule: discover.induct)
  case (2 owned failed seen m ns)
  show ?case
  proof (cases "n = m")
    case False
    with "2.prems" have n: "n \<in> set ns" "distinct (map sn_TaskID ns)" "sn_TaskID n \<noteq> sn_TaskID m"
      by (auto intro: rev_image_eqI)
    show ?thesis
    proof (cases "sn_TaskID m \<in> set seen \<or> owned (sn_TaskID m)")
      case True
      with "2.IH"(1) [OF True n(1,2)] show ?thesis by simp
    next
      case other: False
      from "2.IH"(2) [OF other n(1,2)] n(3) other show ?thesis by (auto split: if_splits)
    qed
  qed simp
qed simp

text \<open>
  No stored task is stranded. A round of the reconciliation that can list the stored tasks registers
  every task that is orphaned, recovering, timed out or cancelling on disk, unless it is pending already or
  a lifecycle thread owns it; and the pending set accepts this registration as long as the task is not in it.
\<close>

theorem reconcileTick_discovers:
  assumes "store_life s" and "Load None s tid = Inr n"
    and "sn_State n \<in> {StateOrphaned, StateRecovering, StateTimeout, StateCancelling}"
    and "\<not> owned tid" and "tid \<notin> pe_taskID ` set entries"
    and "reconcileTick ctx entries (Inr (ListByStates reconcilableStates s)) owned failed entries' one w = (w', script)"
  shows "register_effect tid (pendingRegistration n) \<in> set script
     \<and> (\<forall>ps. ps_entries ps tid = None \<longrightarrow> snd (Register tid (fst (pendingRegistration n)) (snd (pendingRegistration n)) ps) = None)"
proof -
  have valid: "Validate n = None" using assms(2) by (auto simp: Load_def split: option.splits json_file.splits if_splits)
  have n: "n \<in> set (ListByStates reconcilableStates s)" "distinct (map sn_TaskID (ListByStates reconcilableStates s))"
    using ListByStates_listing [OF assms(1), where states = reconcilableStates] assms(2,3) by (auto simp: reconcilableStates_def strict_sorted_iff)
  have "sn_TaskID n = tid" using file_tasks.load_stored [OF assms(2)] by simp
  with discover_covers [OF n, of owned "map pe_taskID entries" failed] assms(4-6) registration_accepted [OF valid]
  show ?thesis by (auto simp: reconcileTick_def split: prod.splits)
qed

definition orphaned_store :: file_task_store where
  "orphaned_store = fst (Save None sample_id (sample_snapshot StateOrphaned) sample_store)"

theorem reconcileTick_discovers_witness:
  "register_effect sample_id (pendingRegistration (sample_snapshot StateOrphaned))
     \<in> set (snd (reconcileTick never_ended [] (Inr (ListByStates reconcilableStates orphaned_store)) (\<lambda>_. False) (\<lambda>_. False)
                  [] (\<lambda>_ w. (w, [])) (sample_world sample_running)))
   \<and> snd (Register sample_id (fst (pendingRegistration (sample_snapshot StateOrphaned)))
            (snd (pendingRegistration (sample_snapshot StateOrphaned))) empty_pending) = None"
proof -
  have "store_life orphaned_store"
    unfolding orphaned_store_def by (intro store_life.saved sample_store_life sample_id_ok)
  moreover have "Load None orphaned_store sample_id = Inr (sample_snapshot StateOrphaned)" by code_simp
  moreover have "sn_State (sample_snapshot StateOrphaned) \<in> {StateOrphaned, StateRecovering, StateTimeout, StateCancelling}" by code_simp
  moreover have "ps_entries empty_pending sample_id = None" by code_simp
  ultimately show ?thesis
    using reconcileTick_discovers [of orphaned_store sample_id "sample_snapshot StateOrphaned" "\<lambda>_. False" "[]" never_ended "\<lambda>_. False" "[]"
        "\<lambda>_ w. (w, [])" "sample_world sample_running", OF _ _ _ _ _ surjective_pairing] by simp
qed

section \<open>A restart loses no task\<close>

text \<open>Without an ended context every part of the adoption returns an outcome.\<close>

lemma later_free [simp]: "later k (\<lambda>_. False) = (\<lambda>_. False)"
  by (simp add: later_def fun_eq_iff)

lemma adopt_live_completes: "snd (adopt_live_locked (\<lambda>_. False) io answer tid n at w) \<noteq> None"
  by (simp add: adopt_live_locked_def adopt_saved_def appendAdoptionEvents_free Let_def split: sum.split prod.split option.split)

lemma register_returns:
  "snd (register_and_return (\<lambda>_. False) k tid n outcome) \<noteq> None" "snd (register_and_spawn (\<lambda>_. False) k r tid n t) \<noteq> None"
  by (simp_all add: register_and_return_def register_and_spawn_def)

lemma adoptRecovering_completes: "snd (snd (adoptRecoveringLocked (\<lambda>_. False) r io tid n at w)) \<noteq> None"
  by (simp add: adoptRecoveringLocked_def adopted_unresolved_def adopted_resolved_def register_and_return_def resolveRecovering_free
      split: sum.split bool.split prod.split option.split)

lemma adoptTimeout_completes: "snd (adoptTimeoutLocked (\<lambda>_. False) r tid n) \<noteq> None"
  by (simp add: adoptTimeoutLocked_def startTimeoutRecovery_def register_and_return_def register_and_spawn_def
      split: sum.split bool.split prod.split)

lemma adoptCancelling_completes: "snd (adoptCancellingLocked (\<lambda>_. False) r tid n) \<noteq> None"
  by (simp add: adoptCancellingLocked_def register_and_return_def register_and_spawn_def split: sum.split)

lemma recoverOrphan_completes: "snd (recoverOrphan (\<lambda>_. False) r tid ref at) \<noteq> None"
  by (simp add: recoverOrphan_def split: prod.split)

lemma adoptOne_completes: "snd (snd (adoptOne (\<lambda>_. False) r io listed at w)) \<noteq> None"
proof (cases "load_task io (sn_TaskID listed) w")
  case (Inr n)
  obtain w' a where l: "adopt_live_locked (\<lambda>_. False) io (rp_live r) (sn_TaskID listed) n at w = (w', Some a)"
    using adopt_live_completes [of io "rp_live r" "sn_TaskID listed" n at w]
    by (cases "adopt_live_locked (\<lambda>_. False) io (rp_live r) (sn_TaskID listed) n at w") auto
  show ?thesis
    using Inr l adoptRecovering_completes adoptTimeout_completes adoptCancelling_completes recoverOrphan_completes
    by (simp add: adoptOne_def Let_def split: sum.split bool.split)
qed (simp add: adoptOne_def register_and_return_def Let_def)

lemma adopt_all_outcomes:
  assumes "\<And>k n w. snd (snd (one k n w)) \<noteq> None"
  shows "map fst (snd (snd (adopt_all (\<lambda>_. False) one k ns w))) = map sn_TaskID ns"
proof (induction ns arbitrary: k w)
  case (Cons n ns)
  obtain w' script outcome where o: "one k n w = (w', script, Some outcome)"
    using assms [of k n w] by (cases "one k n w") auto
  with Cons.IH [of "Suc k" w'] show ?case by (cases "adopt_all (\<lambda>_. False) one (Suc k) ns w'") simp
qed simp

lemma reg_Reset_map_of:
  assumes "distinct (map fst rs)"
  shows "map_of (reg_Reset rs) = map_of rs"
proof -
  have "map_of (foldl (\<lambda>r (tid, sub). reg_Add tid sub r) acc ys) = map_of acc ++ map_of (rev ys)" for ys acc
    by (induction ys arbitrary: acc) (auto simp: reg_Add_def update_conv' fun_eq_iff map_add_def split: option.splits)
  then have "map_of (reg_Reset rs) = map_of (rev rs)" by (simp add: reg_Reset_def)
  moreover have "map_of (rev rs) k = map_of rs k" for k
  proof (cases "map_of rs k")
    case None
    then have "map_of (rev rs) k = None" by (simp add: map_of_eq_None_iff)
    with None show ?thesis by simp
  next
    case (Some v)
    then have "(k, v) \<in> set (rev rs)" by (simp add: map_of_SomeD)
    moreover have "distinct (map fst (rev rs))" using assms by (simp flip: rev_map)
    ultimately show ?thesis using Some by (simp add: map_of_is_SomeI)
  qed
  ultimately show ?thesis by (simp add: fun_eq_iff)
qed

section \<open>A restart leaves no task unattended\<close>

text \<open>
  The stored task after its adoption: finished, or in a state that every round of the reconciliation picks up, or running
  and marked as adopted.
\<close>

definition attended :: "task_state \<Rightarrow> bool \<Rightarrow> bool" where
  "attended st adopted \<longleftrightarrow> terminal st \<or> st \<in> set reconcilableStates \<or> st = StateRunning \<and> adopted"

text \<open>
  What the adoption of a task that was starting, running or stalled needs: an answer whether its process lives, a snapshot that
  can be restored, and an adopted snapshot that validates.
\<close>

definition adoptable :: "replies \<Rightarrow> task_snapshot \<Rightarrow> go_time \<Rightarrow> bool" where
  "adoptable r n at \<longleftrightarrow>
     (\<exists>dead t. rp_live r = Inr dead \<and> restore_task n = Inr t \<and> is_ok (WithTask n (fst (Adopt dead at t)) at))"

lemma load_from_disk:
  assumes "Load None s tid = Inr n" and "disks w tid = Some n" and "io_load io = None"
  shows "load_task io tid w = Inr n"
  using assms by (auto simp: load_task_def Load_def disks_def disk_snapshot_def split: option.splits json_file.splits if_splits)

lemma adopt_live_stores:
  assumes load: "load_task io tid w = Inr n" and save: "io_save io = None" and live: "rp_live r = Inr dead"
    and ok: "adoptable r n at" and st: "sn_State n \<in> {StateStarting, StateRunning, StateStalled}"
  shows "\<exists>w' m. adopt_live_locked (\<lambda>_. False) io (rp_live r) tid n at w = (w', Some (Inr dead)) \<and> disks w' tid = Some m
     \<and> (if dead then sn_State m = StateOrphaned else sn_State m = StateRunning \<and> sn_AdoptedAfterRestart m)"
proof -
  from ok live obtain t n' where t: "restore_task n = Inr t" and n': "WithTask n (fst (Adopt dead at t)) at = Inr n'"
    by (auto simp: adoptable_def elim!: is_ok.elims(2))
  have "state t = sn_State n" using restore_task_sel(2) [OF t] .
  with st obtain t' evs where a: "Adopt dead at t = (t', Inr evs)" and s': "state t' = (if dead then StateOrphaned else StateRunning)"
    "adoptedAfterRestart t'" "id t' = id t" by (auto simp: Adopt_Inr)
  from load have l: "tid_string tid \<noteq> ''''" "sn_TaskID n = tid" "fts_disk (tw_store w) tid \<noteq> None"
    by (auto simp: load_task_def Load_def split: option.splits json_file.splits if_splits)
  have id: "sn_TaskID n' = tid" using n' a s'(3) restore_task_sel(1) [OF t] l(2) by (simp add: WithTask_Inr)
  obtain w1 e where sv: "save_task io tid n' w = (w1, e)" by fastforce
  have "e = None" using sv save id l n' by (auto simp: save_task_def Save_def WithTask_Inr split: prod.splits)
  with save_task_view(2) [OF sv] have d: "disks w1 tid = Some n'" by simp
  let ?saved = "adopt_saved (\<lambda>_. False) io tid n at evs w1"
  have after: "disks (fst ?saved) = disks w1" "snd ?saved" by (simp_all add: adopt_saved_def Let_def appendAdoptionEvents_free views)
  have "adopt_live_locked (\<lambda>_. False) io (rp_live r) tid n at w = (fst ?saved, Some (Inr dead))"
    using a t n' sv \<open>e = None\<close> live after(2) by (simp add: adopt_live_locked_def case_prod_unfold)
  moreover have "if dead then sn_State n' = StateOrphaned else sn_State n' = StateRunning \<and> sn_AdoptedAfterRestart n'"
    using n' a s' by (simp add: WithTask_Inr)
  ultimately show ?thesis using d after(1) by auto
qed

lemma resolve_stores:
  assumes load: "load_task io' tid w = Inr n"
  shows "disks (fst (resolveRecoveringLocked io tid n present at w)) tid = Some n
     \<or> (\<exists>m. disks (fst (resolveRecoveringLocked io tid n present at w)) tid = Some m \<and> terminal (sn_State m))"
proof -
  have n: "disks w tid = Some n" using load file_tasks.load_stored by (auto simp: load_task_def disks_def)
  have "terminal (state t')" if "resolve_op present at t = (t', Inr evs)" for t t' evs
    using that by (auto simp: resolve_op_def go_simps split: if_splits)
  with n show ?thesis
    by (auto simp: resolveRecoveringLocked_def Let_def views WithTask_Inr overwrite_exit_code_others split: sum.splits prod.splits option.splits
        dest!: save_task_view(2))
qed

lemma take_total_disks: "disks (fst (take_total tid w)) = disks w"
  by (simp add: take_total_def views split: prod.split)

lemma adoptRecovering_world:
  "fst (adoptRecoveringLocked (\<lambda>_. False) r io tid n at w) = w
   \<or> (\<exists>present. disks (fst (adoptRecoveringLocked (\<lambda>_. False) r io tid n at w)) = disks (fst (resolveRecoveringLocked io tid n present at w)))"
  using take_total_disks
  by (auto simp: adoptRecoveringLocked_def adopted_unresolved_def adopted_resolved_def register_and_return_def resolveRecovering_free
      case_prod_unfold Let_def split: sum.split bool.split option.split)

lemma live_or_reconcilable:
  "isAdoptionState s \<Longrightarrow> s \<in> {StateStarting, StateRunning, StateStalled} \<or> s \<in> set reconcilableStates"
  by (auto simp: isAdoptionState_def adoptionStates_def reconcilableStates_def)

text \<open>An adoption leaves its task attended, and a task that is stored as running is one whose process was found alive.\<close>

lemma adoptOne_attends:
  assumes load: "load_task io tid w = Inr n" and tid: "sn_TaskID listed = tid" and "io_save io = None"
    and st: "isAdoptionState (sn_State n)" and ok: "adoptable r n at"
  shows "\<exists>w' sc out m. adoptOne (\<lambda>_. False) r io listed at w = (w', sc, Some out) \<and> disks w' tid = Some m
     \<and> attended (sn_State m) (sn_AdoptedAfterRestart m)
     \<and> (sn_State m = StateRunning \<longrightarrow> out = OutcomeResumedMonitoring \<and> rp_live r = Inr False)"
proof -
  have n: "disks w tid = Some n" using load file_tasks.load_stored by (auto simp: load_task_def disks_def)
  obtain w' sc out where x: "adoptOne (\<lambda>_. False) r io listed at w = (w', sc, Some out)"
    using adoptOne_completes [of r io listed at w] by (cases "adoptOne (\<lambda>_. False) r io listed at w") auto
  show ?thesis
  proof (cases "sn_State n \<in> {StateStarting, StateRunning, StateStalled}")
    case True
    from ok obtain dead where live: "rp_live r = Inr dead" by (auto simp: adoptable_def)
    from adopt_live_stores [OF load assms(3) live ok True] obtain w1 m where
      l: "adopt_live_locked (\<lambda>_. False) io (rp_live r) tid n at w = (w1, Some (Inr dead))" "disks w1 tid = Some m"
        "if dead then sn_State m = StateOrphaned else sn_State m = StateRunning \<and> sn_AdoptedAfterRestart m" by blast
    have "w' = w1" "\<not> dead \<longrightarrow> out = OutcomeResumedMonitoring"
      using x load tid st True l(1) by (auto simp: adoptOne_def Let_def split: bool.splits)
    with l live x show ?thesis by (auto simp: attended_def reconcilableStates_def split: if_splits)
  next
    case False
    with live_or_reconcilable st have rec: "sn_State n \<in> set reconcilableStates" by blast
    have "\<exists>m. disks w' tid = Some m \<and> (terminal (sn_State m) \<or> sn_State m \<in> set reconcilableStates)"
    proof (cases "sn_State n = StateRecovering")
      case True
      then have "w' = fst (adoptRecoveringLocked (\<lambda>_. False) r io tid n at w)"
        using x load tid st by (simp add: adoptOne_def Let_def)
      with adoptRecovering_world [of r io tid n at w] resolve_stores [OF load, of io _ at] n rec show ?thesis by metis
    next
      case other: False
      then have "w' = w" using x load tid st False rec by (auto simp: adoptOne_def Let_def reconcilableStates_def)
      with n rec show ?thesis by blast
    qed
    moreover have "sn_State m \<noteq> StateRunning" if "terminal (sn_State m) \<or> sn_State m \<in> set reconcilableStates" for m
      using that by (auto simp: reconcilableStates_def)
    ultimately show ?thesis using x unfolding attended_def by blast
  qed
qed

lemma adoptOne_frame:
  assumes "x \<noteq> sn_TaskID listed"
  shows "disks (fst (adoptOne (\<lambda>_. False) r io listed at w)) x = disks w x"
proof (cases "load_task io (sn_TaskID listed) w")
  case (Inr n)
  let ?tid = "sn_TaskID listed"
  have live: "disks (fst (adopt_live_locked (\<lambda>_. False) io (rp_live r) ?tid n at w)) x = disks w x"
    using adopt_live_safe [OF Inr, of "\<lambda>_. False" io "rp_live r" at] assms by (simp add: safe_change_def)
  have res: "disks (fst (resolveRecoveringLocked io ?tid n present at w)) x = disks w x" for present
    using resolveRecovering_safe [OF Inr, of "\<lambda>_. False" io present at] assms
    by (simp add: safe_change_def resolveRecovering_free case_prod_unfold Let_def)
  have "disks (fst (adoptRecoveringLocked (\<lambda>_. False) r io ?tid n at w)) x = disks w x"
    using adoptRecovering_world [of r io ?tid n at w] res by metis
  with live Inr show ?thesis
    by (auto simp: adoptOne_def Let_def case_prod_unfold split: option.split sum.split bool.split)
qed (simp add: adoptOne_def Let_def register_and_return_def)

text \<open>The turn of one task: nobody before it touches its snapshot, and nobody after it.\<close>

lemma adopt_all_turn:
  assumes complete: "\<And>k n w. snd (snd (one k n w)) \<noteq> None"
    and frame: "\<And>k n w x. x \<noteq> sn_TaskID n \<Longrightarrow> disks (fst (one k n w)) x = disks w x"
    and "distinct (map sn_TaskID ns)" and "n \<in> set ns" and "adopt_all (\<lambda>_. False) one k ns w = (w', script, outcomes)"
  shows "\<exists>i u u' sc out. i < length ns \<and> ns ! i = n \<and> one (k + i) n u = (u', sc, Some out) \<and> disks u (sn_TaskID n) = disks w (sn_TaskID n)
     \<and> disks w' (sn_TaskID n) = disks u' (sn_TaskID n) \<and> (sn_TaskID n, out) \<in> set outcomes \<and> set sc \<subseteq> set script"
  using assms(3-)
proof (induction ns arbitrary: k w script outcomes)
  case (Cons m ns)
  obtain w1 sc out where o: "one k m w = (w1, sc, Some out)" using complete [of k m w] by (cases "one k m w") auto
  obtain rest outs where r: "adopt_all (\<lambda>_. False) one (Suc k) ns w1 = (w', rest, outs)" "script = sc @ rest"
    "outcomes = (sn_TaskID m, out) # outs"
    using Cons.prems(3) o by (cases "adopt_all (\<lambda>_. False) one (Suc k) ns w1") simp
  have unchanged: "disks w'' x = disks v x" if "adopt_all (\<lambda>_. False) one j ms v = (w'', sc', outs')" "x \<notin> sn_TaskID ` set ms"
    for j ms v w'' sc' outs' x
    using that
  proof (induction ms arbitrary: j v sc' outs')
    case (Cons a ms)
    obtain v1 sc1 out1 where a: "one j a v = (v1, sc1, Some out1)" using complete [of j a v] by (cases "one j a v") auto
    obtain rest1 outs1 where "adopt_all (\<lambda>_. False) one (Suc j) ms v1 = (w'', rest1, outs1)"
      using Cons.prems(1) a by (cases "adopt_all (\<lambda>_. False) one (Suc j) ms v1") simp
    with Cons.IH Cons.prems(2) have "disks w'' x = disks v1 x" by simp
    with frame [of x a j v] a Cons.prems(2) show ?case by simp
  qed simp
  show ?case
  proof (cases "n = m")
    case True
    then have "sn_TaskID n \<notin> sn_TaskID ` set ns" using Cons.prems(1) by simp
    with unchanged [OF r(1)] o r True show ?thesis by (intro exI [of _ 0] exI [of _ w] exI [of _ w1]) simp
  next
    case False
    with Cons.prems have "n \<in> set ns" by simp
    moreover have "sn_TaskID m \<notin> sn_TaskID ` set ns" using Cons.prems(1) by simp
    with calculation have "sn_TaskID n \<noteq> sn_TaskID m" by (metis imageI)
    then have "disks w1 (sn_TaskID n) = disks w (sn_TaskID n)" using frame [of "sn_TaskID n" m k w] o by simp
    ultimately obtain i u u' sc' out' where "i < length ns" "ns ! i = n" "one (Suc k + i) n u = (u', sc', Some out')" "disks u (sn_TaskID n) = disks w (sn_TaskID n)"
      "disks w' (sn_TaskID n) = disks u' (sn_TaskID n)" "(sn_TaskID n, out') \<in> set outs" "set sc' \<subseteq> set rest"
      using Cons.IH [OF _ _ r(1)] Cons.prems(1) by auto
    with r show ?thesis by (intro exI [of _ "Suc i"] exI [of _ u] exI [of _ u'] exI [of _ sc'] exI [of _ out']) auto
  qed
qed simp

text \<open>
  C19: a restart leaves no task unattended. Whatever the use cases did before, interleaved and with faults, take a
  task that is stored as unfinished when the daemon starts again on a readable disk. If the context of the adoption does not end, snapshots
  can be loaded and saved, the liveness of the process is answered and the snapshot of the task can be restored and validates
  once adopted, then the task gets its slot back, there is exactly one outcome for every listed task in the order of the listing,
  and afterwards the task is stored as finished, or in a state that every round of the reconciliation takes up (orphaned,
  recovering, timeout, cancelling), or as running and adopted; in the last case its process was found alive and its outcome is
  that its monitoring is resumed. In particular no task stays starting, stalled or running without an owner.
\<close>

theorem restart_adopts_every_task:
  assumes "world_run w0 w" and "\<forall>x. disks w0 x = None"
    and "distinct names" and "\<forall>x. fts_disk (tw_store w) x \<noteq> None \<longrightarrow> tid_string x \<in> set names \<and> NewTaskID (tid_string x) = Inr x"
    and "s = NewFileTaskStore (\<lambda>_. None) names (fts_disk (tw_store w))"
    and "Load None s tid = Inr n" and "\<not> terminal (sn_State n)"
    and "\<forall>k. io_load (ios k) = None \<and> io_save (ios k) = None \<and> adoptable (rs k) n at" and "disks v = disks w"
    and "AdoptRunningTasks_Execute (\<lambda>_. False) (Inr (ListByStates adoptionStates s))
           (\<lambda>k m. adoptOne (\<lambda>_. False) (rs k) (ios k) m at) v = (v', reg, script, result)"
  shows "\<exists>reg' outcomes m. reg = Some reg' \<and> result = Inr outcomes \<and> map_of reg' tid = Some (sn_Subcommand n)
     \<and> map fst outcomes = map sn_TaskID (ListByStates adoptionStates s)
     \<and> disks v' tid = Some m
     \<and> (terminal (sn_State m) \<or> sn_State m \<in> {StateOrphaned, StateRecovering, StateTimeout, StateCancelling}
        \<or> sn_State m = StateRunning \<and> sn_AdoptedAfterRestart m \<and> (tid, OutcomeResumedMonitoring) \<in> set outcomes
          \<and> (\<exists>k < length (ListByStates adoptionStates s). ListByStates adoptionStates s ! k = n \<and> rp_live (rs k) = Inr False))"
proof -
  let ?ns = "ListByStates adoptionStates s"
  let ?one = "\<lambda>k m. adoptOne (\<lambda>_. False) (rs k) (ios k) m at"
  have life: "store_life s" unfolding assms(5) using assms(3,4) by (intro store_life.opened) auto
  have n: "sn_TaskID n = tid" "disk_snapshot s tid = Some n" using file_tasks.load_stored [OF assms(6)] by auto
  then have disk: "disks w tid = Some n"
    by (simp add: assms(5) disks_def disk_snapshot_def NewFileTaskStore_disk)
  from world_run_stored [OF assms(1,2) this] have "stored_state (sn_State n)" .
  moreover have "isKnownTaskState (sn_State n)"
    using assms(6) by (auto simp: Load_def Validate_None validate_core_def split: option.splits json_file.splits if_splits)
  ultimately have adopt: "isAdoptionState (sn_State n)" using stored_adoptable assms(7) by blast
  then have "sn_State n \<in> set adoptionStates" by (auto simp: isAdoptionState_def list_ex_iff)
  with assms(6) ListByStates_listing [OF life, of adoptionStates] have listed: "n \<in> set ?ns" by blast
  have d: "distinct (map sn_TaskID ?ns)"
    using ListByStates_listing [OF life, of adoptionStates] by (simp add: strict_sorted_iff)
  have "(tid, sn_Subcommand n) \<in> set (map (\<lambda>n. (sn_TaskID n, sn_Subcommand n)) ?ns)" using listed n(1) by force
  moreover have keys: "map fst (map (\<lambda>n. (sn_TaskID n, sn_Subcommand n)) ?ns) = map sn_TaskID ?ns" by simp
  ultimately have slot: "map_of (reg_Reset (map (\<lambda>n. (sn_TaskID n, sn_Subcommand n)) ?ns)) tid = Some (sn_Subcommand n)"
    using reg_Reset_map_of d by (metis map_of_is_SomeI)
  obtain outcomes where o: "reg = Some (reg_Reset (map (\<lambda>n. (sn_TaskID n, sn_Subcommand n)) ?ns))" "result = Inr outcomes"
    and run: "adopt_all (\<lambda>_. False) ?one 0 ?ns v = (v', script, outcomes)"
    using assms(10) by (auto simp: AdoptRunningTasks_Execute_def Let_def split: prod.splits)
  have "map fst (snd (snd (adopt_all (\<lambda>_. False) ?one 0 ?ns v))) = map sn_TaskID ?ns"
    by (rule adopt_all_outcomes) (rule adoptOne_completes)
  with run have names: "map fst outcomes = map sn_TaskID ?ns" by simp
  obtain k u u' sc out where turn: "?one (0 + k) n u = (u', sc, Some out)" "disks u tid = disks v tid" "disks v' tid = disks u' tid"
    "(tid, out) \<in> set outcomes" "k < length ?ns" "?ns ! k = n"
    using adopt_all_turn [OF _ _ d listed run] adoptOne_completes adoptOne_frame n(1) by blast
  have "load_task (ios k) tid u = Inr n" using load_from_disk [OF assms(6)] turn(2) disk assms(8,9) by simp
  from adoptOne_attends [OF this n(1) _ adopt, of "rs k" at] assms(8) turn(1) [simplified]
  obtain m where m: "disks u' tid = Some m" "attended (sn_State m) (sn_AdoptedAfterRestart m)"
    "sn_State m = StateRunning \<longrightarrow> out = OutcomeResumedMonitoring \<and> rp_live (rs k) = Inr False" by auto
  with o slot names turn(3-6) show ?thesis
    by (intro exI [of _ "reg_Reset (map (\<lambda>n. (sn_TaskID n, sn_Subcommand n)) ?ns)"] exI [of _ outcomes] exI [of _ m])
      (auto simp: attended_def reconcilableStates_def)
qed

lemma append_events_store: "tw_store (append_events io tid evs w) = tw_store w"
proof -
  have "tw_store (append_event io tid ev w) = tw_store w" for ev w by (simp add: append_event_def)
  then show ?thesis unfolding append_events_def by (induction evs arbitrary: w) simp_all
qed

lemma RecordTaskStarting_disk:
  assumes "fts_disk (tw_store (fst (RecordTaskStarting_Execute io t to mdl effort sandbox wd route prompt now w))) x \<noteq> None"
  shows "fts_disk (tw_store w) x \<noteq> None"
proof -
  have prompt: "tw_store w2 = tw_store w" if "write_prompt io tid p w = (w2, r)" for tid p w2 r
    using that by (auto simp: write_prompt_def split: if_splits)
  have "\<exists>z. fts_disk (tw_store w) x = Some z"
    if "write_prompt io tid p w = (w1, r1)" "save_task io tid' n w1 = (w2, r)" "fts_disk (tw_store w2) x = Some y"
    for tid tid' p w1 r1 n w2 r y
    using that(2,3) prompt [OF that(1)] by (auto simp: save_task_def Save_def split: prod.splits option.splits if_splits)
  then show ?thesis
    using assms
    by (auto simp: RecordTaskStarting_Execute_def append_events_store split: option.splits sum.splits prod.splits dest: prompt)
qed

definition lost_replies :: replies where
  "lost_replies = sample_replies\<lparr>rp_live := Inr True\<rparr>"

theorem restart_adopts_every_task_witness:
  "\<exists>v' reg' script outcomes m. AdoptRunningTasks_Execute (\<lambda>_. False)
         (Inr (ListByStates adoptionStates (NewFileTaskStore (\<lambda>_. None) [tid_string sample_id] (fts_disk (tw_store launched_world)))))
         (\<lambda>k m. adoptOne (\<lambda>_. False) lost_replies ok_io m 50) launched_world = (v', Some reg', script, Inr outcomes)
     \<and> map_of reg' sample_id = Some SubcommandImpl \<and> disks v' sample_id = Some m
     \<and> (terminal (sn_State m) \<or> sn_State m \<in> {StateOrphaned, StateRecovering, StateTimeout, StateCancelling})"
proof -
  let ?s = "NewFileTaskStore (\<lambda>_. None) [tid_string sample_id] (fts_disk (tw_store launched_world))"
  have fresh: "\<forall>x. disks reserved_world x = None"
    by (simp add: disks_def disk_snapshot_def reserved_world_def)
  have run: "world_run reserved_world launched_world"
    unfolding launched_world_def by (intro world_run.step [OF world_run.start world_step.starting]) (simp add: fresh)
  have names: "\<forall>x. fts_disk (tw_store launched_world) x \<noteq> None \<longrightarrow>
      tid_string x \<in> set [tid_string sample_id] \<and> NewTaskID (tid_string x) = Inr x"
  proof (intro allI impI)
    fix x assume "fts_disk (tw_store launched_world) x \<noteq> None"
    then have "fts_disk (tw_store reserved_world) x \<noteq> None"
      unfolding launched_world_def by (rule RecordTaskStarting_disk)
    then have "x = sample_id" by (simp add: reserved_world_def split: if_splits)
    with sample_id_ok show "tid_string x \<in> set [tid_string sample_id] \<and> NewTaskID (tid_string x) = Inr x" by simp
  qed
  have "case Load None ?s sample_id of Inl _ \<Rightarrow> False
      | Inr n \<Rightarrow> sn_State n = StateStarting \<and> sn_Subcommand n = SubcommandImpl
          \<and> (case restore_task n of Inl _ \<Rightarrow> False | Inr t \<Rightarrow> is_ok (WithTask n (fst (Adopt True 50 t)) 50))" by code_simp
  then obtain n t where n: "Load None ?s sample_id = Inr n" "sn_State n = StateStarting" "sn_Subcommand n = SubcommandImpl"
    "restore_task n = Inr t" "is_ok (WithTask n (fst (Adopt True 50 t)) 50)" by (auto split: sum.splits)
  have answers: "\<forall>k::nat. io_load ok_io = None \<and> io_save ok_io = None \<and> adoptable lost_replies n 50"
    using n(4,5) by (auto simp: ok_io_def adoptable_def lost_replies_def)
  have alive: "rp_live lost_replies \<noteq> Inr False" by (simp add: lost_replies_def)
  obtain v' reg script result where x: "AdoptRunningTasks_Execute (\<lambda>_. False) (Inr (ListByStates adoptionStates ?s))
      (\<lambda>k m. adoptOne (\<lambda>_. False) lost_replies ok_io m 50) launched_world = (v', reg, script, result)" by (rule prod_cases4)
  have "distinct [tid_string sample_id]" and "\<not> terminal (sn_State n)" using n(2) by simp_all
  from restart_adopts_every_task [OF run fresh this(1) names refl n(1) this(2) answers refl x] alive n(3)
  obtain reg' outcomes m where "reg = Some reg'" "result = Inr outcomes" "map_of reg' sample_id = Some SubcommandImpl"
    "disks v' sample_id = Some m" "terminal (sn_State m) \<or> sn_State m \<in> {StateOrphaned, StateRecovering, StateTimeout, StateCancelling}"
    by auto
  with x show ?thesis by (intro exI [of _ v'] exI [of _ reg'] exI [of _ script] exI [of _ outcomes] exI [of _ m]) simp
qed

end
