(* ===== verification/Task_Cancel.thy ===== *)
theory Task_Cancel
  imports Reconcile
begin

text \<open>
  The two use cases that end a running task from outside: the enforcement of a timeout
  (\<open>EnforceTaskTimeoutUseCase.Execute\<close> of \<^verbatim>\<open>internal/execution/timeout.go\<close>) and the cancellation
  of a task (\<open>CancelTaskUseCase\<close> of \<^verbatim>\<open>internal/transport/usecase/cancel.go\<close>). Both are scripts
  in the sense of the theory Reconcile around a locked step of the theory Task_Runtime.
\<close>

section \<open>Enforcing a timeout\<close>

definition isTimeoutTerminalState :: "task_state \<Rightarrow> bool" where
  "isTimeoutTerminalState s \<longleftrightarrow> s = StateCompleted \<or> s = StateFailed \<or> s = StateRecovered \<or> s = StateTimeoutLost
     \<or> s = StateKilled \<or> s = StateLost"

definition reconcileAfterConfirmedDeath :: "domain_error + task_snapshot \<Rightarrow> task_id \<Rightarrow> effect list" where
  "reconcileAfterConfirmedDeath load tid =
     (case load of
        Inl _ \<Rightarrow> []
      | Inr n \<Rightarrow>
          if isTimeoutTerminalState (sn_State n) then []
          else if sn_State n \<noteq> StateTimeout \<and> sn_State n \<noteq> StateCancelling \<and> sn_State n \<noteq> StateRecovering \<and> sn_State n \<noteq> StateOrphaned then []
          else [register_effect tid (PendingSendConfirmOnly, None)])"

text \<open>What is registered when the death of the process is not confirmed.\<close>

definition timeout_authority :: "task_snapshot \<Rightarrow> lifecycle_generation \<Rightarrow> process_signal_authority option" where
  "timeout_authority n g =
     (case (sn_PID n, sn_ProcessStartedAt n) of
        (Some pid, Some started) \<Rightarrow>
          Some \<lparr>sa_TaskID = sn_TaskID n, sa_PID = pid, sa_ProcessStartedAt = started, sa_ExpectedState = StateTimeout,
                sa_LifecycleGeneration = Some g\<rparr>
      | _ \<Rightarrow> None)"

definition timeout_disposition :: "process_signal_authority \<Rightarrow> termination_result
    \<Rightarrow> pending_send_disposition \<times> process_signal_authority option" where
  "timeout_disposition a result =
     (case tr_TerminateErr result of
        Some e \<Rightarrow> if authority_invalid e then (PendingSendConfirmOnly, None) else (PendingSendUnsent, Some a)
      | None \<Rightarrow> (PendingSendSent, None))"

text \<open>The signals, the answer whether the process is dead, and the registration if it is not.\<close>

definition stop_timed_out :: "replies \<Rightarrow> task_id \<Rightarrow> task_snapshot \<Rightarrow> lifecycle_generation
    \<Rightarrow> effect \<times> bool \<times> domain_error option \<times> pending_send_disposition \<times> process_signal_authority option" where
  "stop_timed_out r tid n g =
     (case timeout_authority n g of
        Some a \<Rightarrow> (Terminate tid a, tr_Dead (rp_signals r), tr_ConfirmErr (rp_signals r), timeout_disposition a (rp_signals r))
      | None \<Rightarrow> (AwaitDeath tid, fst (rp_confirm r), snd (rp_confirm r), PendingSendConfirmOnly, None))"

definition recover_timed_out :: "replies \<Rightarrow> task_id \<Rightarrow> task_snapshot \<Rightarrow> go_time \<Rightarrow> effect list" where
  "recover_timed_out r tid n at =
     (if sn_Subcommand n = SubcommandImpl \<and> \<not> rp_unlocked r
      then ReleaseLock tid # reconcileAfterConfirmedDeath (rp_load r) tid
      else (if sn_Subcommand n = SubcommandImpl then [ReleaseLock tid] else []) @
           Resume (timeout_input tid n at) #
           (if rp_resume r = ResumeDone then [] else reconcileAfterConfirmedDeath (rp_load r) tid))"

text \<open>The answer tells whether the task was timed out by this call; errors are only logged by the caller.\<close>

definition EnforceTaskTimeout_Execute :: "replies \<Rightarrow> task_io \<Rightarrow> task_id \<Rightarrow> lifecycle_generation \<Rightarrow> go_time \<Rightarrow> task_world
    \<Rightarrow> task_world \<times> effect list \<times> timeout_error option \<times> bool" where
  "EnforceTaskTimeout_Execute r io tid g at w =
     (case EnforceTaskTimeout_executeLocked io tid at w of
        (w, TimeoutFailed e) \<Rightarrow> (w, [], Some e, False)
      | (w, AlreadyTerminal) \<Rightarrow> (w, [], None, False)
      | (w, TimedOutNow n evs ok) \<Rightarrow>
          (case stop_timed_out r tid n g of
             (signals, dead, confirmErr, registration) \<Rightarrow>
               (w, signals # (if confirmErr \<noteq> None \<or> \<not> dead then [register_effect tid registration]
                              else recover_timed_out r tid n at), None, True)))"

section \<open>Cancelling a stored task\<close>

definition cancelNeedsGeneration :: "task_snapshot \<Rightarrow> bool" where
  "cancelNeedsGeneration n =
     (\<not> sn_AdoptedAfterRestart n
      \<and> (sn_State n = StateStarting \<or> sn_State n = StateRunning \<or> sn_State n = StateStalled \<or> sn_State n = StateAdopted))"

definition cancelWaiterOwnsTerminal :: "lifecycle_generation option \<Rightarrow> task_state \<Rightarrow> bool" where
  "cancelWaiterOwnsTerminal g previous =
     (g \<noteq> None \<and> (previous = StateStarting \<or> previous = StateRunning \<or> previous = StateStalled))"

definition sameCancelProcess :: "task_snapshot \<Rightarrow> int option \<Rightarrow> go_time option \<Rightarrow> bool" where
  "sameCancelProcess n pid started =
     (pid \<noteq> None \<and> started \<noteq> None \<and> sn_PID n \<noteq> None \<and> sn_ProcessStartedAt n \<noteq> None \<and> sn_PID n = pid \<and> sn_ProcessStartedAt n = started)"

definition cancel_authority :: "task_id \<Rightarrow> int \<Rightarrow> go_time \<Rightarrow> lifecycle_generation option \<Rightarrow> process_signal_authority" where
  "cancel_authority tid pid started g = \<lparr>sa_TaskID = tid, sa_PID = pid, sa_ProcessStartedAt = started,
     sa_ExpectedState = StateCancelling, sa_LifecycleGeneration = g\<rparr>"

definition cancelPendingRegistration :: "task_id \<Rightarrow> int option \<Rightarrow> go_time option \<Rightarrow> lifecycle_generation option
    \<Rightarrow> pending_send_disposition \<times> process_signal_authority option" where
  "cancelPendingRegistration tid pid started g =
     (case (pid, started) of
        (Some p, Some st) \<Rightarrow>
          if p \<le> 0 \<or> is_zero_time st then (PendingSendConfirmOnly, None)
          else (PendingSendUnsent, Some (cancel_authority tid p st g))
      | _ \<Rightarrow> (PendingSendConfirmOnly, None))"

datatype cancel_error =
    CancelDomain domain_error | CancelState task_state domain_error | ErrCancelStateChanged | CancelUnconfirmed | CancelUnregistered

text \<open>The answer: an error, or success and whether a termination was triggered.\<close>

type_synonym cancel_answer = "cancel_error option \<times> bool"

definition sendClaimedStarting :: "replies \<Rightarrow> int \<Rightarrow> send_claim \<Rightarrow> effect list" where
  "sendClaimedStarting r pid c =
     [SignalTerm pid,
      case rp_terminate r of
        None \<Rightarrow> Pend (OpCompleteSend c)
      | Some e \<Rightarrow> if authority_invalid e then Pend (OpInvalidateSend c) else Pend (OpReleaseSend c)]"

text \<open>A refusal by the aggregate carries the state of the task.\<close>

definition cancel_refused :: "task_snapshot \<Rightarrow> bool \<Rightarrow> go_time \<Rightarrow> domain_error \<Rightarrow> cancel_error" where
  "cancel_refused n force at e =
     (case restore_task n of
        Inl _ \<Rightarrow> CancelDomain e
      | Inr t \<Rightarrow> (case RequestCancel force at t of (_, Inl _) \<Rightarrow> CancelState (sn_State n) e | (_, Inr _) \<Rightarrow> CancelDomain e))"

text \<open>
  The task was starting with a recorded process, and a claim to send the first signal was asked for.
  \<open>owners\<close> is the lifecycle registry and \<open>w\<close> the world when the task is locked again; the signal is sent after
  the task has been unlocked, and \<open>late\<close> is what other threads do to the world in between.
\<close>

definition finishStartingClaim :: "replies \<Rightarrow> task_io \<Rightarrow> task_id \<Rightarrow> bool \<Rightarrow> go_time \<Rightarrow> task_state \<Rightarrow> int \<Rightarrow> go_time \<Rightarrow> lifecycle_generation
    \<Rightarrow> ownership_registry \<Rightarrow> (task_world \<Rightarrow> task_world) \<Rightarrow> task_world \<Rightarrow> task_world \<times> effect list \<times> cancel_answer" where
  "finishStartingClaim r io tid force at previous pid started g owners late w =
     (case rp_claim r of
        (c, ClaimAcquired) \<Rightarrow>
          (case load_task io tid w of
             Inl e \<Rightarrow> (w, [Pend (OpRemoveClaim c)], Some (CancelDomain e), False)
           | Inr n \<Rightarrow>
               if (sn_State n \<noteq> previous \<and> sn_State n \<noteq> StateCancelling) \<or> \<not> sameCancelProcess n (Some pid) (Some started)
                  \<or> Current tid owners \<noteq> Some g
               then (w, [Pend (OpRemoveClaim c)], None, False)
               else if sn_State n = previous
               then (case request_cancel_locked io tid force n at w of
                       (w, Inl e) \<Rightarrow> (w, [Pend (OpRemoveClaim c)], Some (cancel_refused n force at e), False)
                     | (w, Inr evs) \<Rightarrow> (late w, sendClaimedStarting r pid c, None, True))
               else (late w, sendClaimedStarting r pid c, None, True))
      | (_, ClaimSent) \<Rightarrow> (w, [AwaitDeath tid], map_option CancelDomain (snd (rp_confirm r)), False)
      | _ \<Rightarrow> (w, [], None, False))"
text \<open>The registration after a termination that is not confirmed; the timer is disarmed once it is made.\<close>

definition cancel_unconfirmed :: "replies \<Rightarrow> task_id \<Rightarrow> process_signal_authority \<Rightarrow> effect list \<times> cancel_answer" where
  "cancel_unconfirmed r tid a =
     (let registration =
        (case tr_TerminateErr (rp_signals r) of
           None \<Rightarrow> (PendingSendSent, None)
         | Some e \<Rightarrow> if authority_invalid e then (PendingSendConfirmOnly, None)
                     else cancelPendingRegistration tid (Some (sa_PID a)) (Some (sa_ProcessStartedAt a)) (sa_LifecycleGeneration a))
      in if \<not> rp_registered r then ([register_effect tid registration], Some CancelUnregistered, True)
         else ([register_effect tid registration, DisarmTimer tid], None, True))"

text \<open>The process was terminated: its lifecycle thread finishes the task, or this call does.\<close>

definition cancel_dead :: "replies \<Rightarrow> task_id \<Rightarrow> task_state \<Rightarrow> lifecycle_generation option \<Rightarrow> effect list \<times> cancel_answer" where
  "cancel_dead r tid previous g =
     (if cancelWaiterOwnsTerminal g previous then ([DisarmTimer tid], None, True)
      else if rp_killed r then ([KillConfirmed tid 130 (rp_now r 0)], None, True)
      else if \<not> rp_registered r
      then ([KillConfirmed tid 130 (rp_now r 0), register_effect tid (PendingSendConfirmOnly, None)], Some CancelUnconfirmed, True)
      else ([KillConfirmed tid 130 (rp_now r 0), register_effect tid (PendingSendConfirmOnly, None), DisarmTimer tid],
            Some CancelUnconfirmed, True))"

definition pidless_adopted :: "task_snapshot \<Rightarrow> bool" where
  "pidless_adopted n =
     (sn_PID n = None \<and> (sn_State n = StateAdopted
        \<or> sn_AdoptedAfterRestart n \<and> (sn_State n = StateRunning \<or> sn_State n = StateStalled)))"

definition cancel_terminate :: "replies \<Rightarrow> task_id \<Rightarrow> task_state \<Rightarrow> process_signal_authority \<Rightarrow> effect list \<times> cancel_answer" where
  "cancel_terminate r tid previous a =
     apfst (Cons (Terminate tid a))
       (if tr_Dead (rp_signals r) then cancel_dead r tid previous (sa_LifecycleGeneration a) else cancel_unconfirmed r tid a)"

text \<open>A process without a recorded start time gets a single SIGTERM.\<close>

definition cancel_terminate_unchecked :: "replies \<Rightarrow> task_id \<Rightarrow> int \<Rightarrow> go_time option \<Rightarrow> lifecycle_generation option \<Rightarrow> effect list \<times> cancel_answer" where
  "cancel_terminate_unchecked r tid pid started g =
     (if rp_terminate r = None then ([SignalTerm pid], None, True)
      else ([SignalTerm pid, register_effect tid (cancelPendingRegistration tid (Some pid) started g)],
            if rp_registered r then None else Some CancelUnregistered, True))"

text \<open>What follows once the task is stored as cancelling; \<open>n\<close> is the snapshot before.\<close>

definition cancel_stored :: "replies \<Rightarrow> task_id \<Rightarrow> task_snapshot \<Rightarrow> lifecycle_generation option \<Rightarrow> go_time \<Rightarrow> effect list \<times> cancel_answer" where
  "cancel_stored r tid n g at =
     (if sn_State n = StateOrphaned then ([KillConfirmed tid 130 at], if rp_killed r then None else Some CancelUnconfirmed, False)
      else if pidless_adopted n then
        (if \<not> rp_registered r then ([register_effect tid (PendingSendConfirmOnly, None)], Some CancelUnregistered, False)
         else ([register_effect tid (PendingSendConfirmOnly, None), DisarmTimer tid], None, False))
      else if sn_State n \<notin> {StateStarting, StateRunning, StateStalled, StateAdopted} then ([], None, False)
      else
     (case sn_PID n of
        None \<Rightarrow> ([], None, False)
      | Some pid \<Rightarrow>
          if g = None \<and> \<not> sn_AdoptedAfterRestart n then ([], None, False)
          else if sn_State n = StateStarting then cancel_terminate_unchecked r tid pid (sn_ProcessStartedAt n) g
          else
     (case sn_ProcessStartedAt n of
        Some started \<Rightarrow> cancel_terminate r tid (sn_State n) (cancel_authority tid pid started g)
      | None \<Rightarrow> cancel_terminate_unchecked r tid pid None g)))"

text \<open>
  \<open>owners\<close> is the lifecycle registry. Between the claim of a starting task and its second lock other threads
  run: \<open>others\<close> is what they do to the world, \<open>owners'\<close> and \<open>io'\<close> are the registry and the answers then. They run again
  between the last unlock of the task and the signals: \<open>late\<close> is what they do then.
\<close>

definition cancelPersisted :: "replies \<Rightarrow> task_io \<Rightarrow> task_id \<Rightarrow> bool \<Rightarrow> go_time \<Rightarrow> ownership_registry \<Rightarrow> task_world \<Rightarrow> task_io \<Rightarrow> ownership_registry
    \<Rightarrow> (task_world \<Rightarrow> task_world) \<Rightarrow> (task_world \<Rightarrow> task_world) \<Rightarrow> task_world \<times> effect list \<times> cancel_answer" where
  "cancelPersisted r io tid force at owners w io' owners' others late =
     (case load_task io tid w of
        Inl e \<Rightarrow>
          (w, [], Some (if e = ErrTaskNotFound
                        then (case rp_reserved r of Inl e' \<Rightarrow> CancelDomain e' | Inr True \<Rightarrow> ErrCancelStateChanged
                              | Inr False \<Rightarrow> CancelDomain ErrTaskNotFound)
                        else CancelDomain e), False)
      | Inr n \<Rightarrow>
          let g = (if cancelNeedsGeneration n then Current tid owners else None)
          in if cancelNeedsGeneration n \<and> g = None then (w, [], Some ErrCancelStateChanged, False)
             else
     (case (sn_State n = StateStarting, sn_PID n) of
        (True, Some pid) \<Rightarrow>
          (case (g, sn_ProcessStartedAt n) of
             (Some gen, Some started) \<Rightarrow>
               (case finishStartingClaim r io' tid force at StateStarting pid started gen owners' late (others w) of
                  (w, script, answer) \<Rightarrow>
                    (w, Pend (OpClaimInitialSend tid (cancel_authority tid pid started (Some gen))) # script, answer))
           | _ \<Rightarrow> (w, [], Some ErrCancelStateChanged, False))
      | _ \<Rightarrow>
     (case request_cancel_locked io tid force n at w of
        (w, Inl e) \<Rightarrow> (w, [], Some (cancel_refused n force at e), False)
      | (w, Inr evs) \<Rightarrow> (case cancel_stored r tid n g at of (script, answer) \<Rightarrow> (late w, script, answer)))))"

section \<open>Cancelling through the queue\<close>

text \<open>The payload was taken out of the queue at index \<open>i\<close>, which left \<open>q\<close>; a failure puts it back.\<close>

definition cancelQueued :: "task_io \<Rightarrow> task_id \<Rightarrow> bool \<Rightarrow> go_time \<Rightarrow> launch_payload \<Rightarrow> nat \<Rightarrow> task_queue \<Rightarrow> task_world
    \<Rightarrow> (task_queue \<times> task_world \<times> domain_error option) outcome" where
  "cancelQueued io tid force at p i q w =
     (case pl_Task p of
        None \<Rightarrow> Panic
      | Some t \<Rightarrow>
          if state t \<noteq> StateQueued then Panic
          else (case cancel_queued_locked io force t (pl_ResolvedTimeout p) (pl_Model p) (pl_ReasoningEffort p) (pl_SandboxMode p)
                       (pl_WorkingDir p) tid at w of
                  (w, Inl e) \<Rightarrow> and_then (Restore_queue p (int i) at q) (\<lambda>(q, _). Done (q, w, Some e))
                | (w, Inr _) \<Rightarrow> Done (q, w, None)))"

definition CancelTask_Execute :: "replies \<Rightarrow> task_io \<Rightarrow> task_id \<Rightarrow> bool \<Rightarrow> go_time \<Rightarrow> ownership_registry \<Rightarrow> task_io \<Rightarrow> ownership_registry
    \<Rightarrow> (task_world \<Rightarrow> task_world) \<Rightarrow> (task_world \<Rightarrow> task_world) \<Rightarrow> task_queue \<Rightarrow> task_world \<Rightarrow> (task_queue \<times> task_world \<times> effect list \<times> cancel_answer) outcome" where
  "CancelTask_Execute r io tid force at owners io' owners' others late q w =
     and_then (Remove tid at q) (\<lambda>(q', found, _).
       case found of
         Some (p, i) \<Rightarrow>
           and_then (cancelQueued io tid force at p i q' w) (\<lambda>(q', w, err).
             case err of
               Some e \<Rightarrow> Done (q', w, [], Some (CancelDomain e), False)
             | None \<Rightarrow> Done (q', w, [KillConfirmed tid 130 at], if rp_killed r then None else Some CancelUnconfirmed, False))
       | None \<Rightarrow>
           (case rp_reserved r of
              Inl e \<Rightarrow> Done (q', w, [], Some (CancelDomain e), False)
            | Inr False \<Rightarrow> Done (q', w, [], Some (CancelDomain ErrTaskNotFound), False)
            | Inr True \<Rightarrow>
                (case cancelPersisted r io tid force at owners w io' owners' others late of
                   (w, script, answer) \<Rightarrow> Done (q', w, script, answer))))"

section \<open>Signals of a cancellation\<close>

lemma restore_process:
  assumes "restore_task n = Inr t"
  shows "map_option pst_pid (processStartTime t) = sn_PID n" and "sn_PID n \<noteq> None \<Longrightarrow> map_option pst_startedAt (processStartTime t) = sn_ProcessStartedAt n"
  using assms Restore_restore_task [of n]
  by (auto simp: Restore_def Let_def NewProcessStartTime_def split: option.splits sum.splits if_splits)

lemma request_cancel_stores:
  assumes "load_task io tid w = Inr n" and "request_cancel_locked io' tid force n at w = (w', Inr evs)"
  shows "\<exists>n'. disks w' tid = Some n' \<and> sn_State n' = StateCancelling \<and> sn_PID n' = sn_PID n
     \<and> (sn_PID n \<noteq> None \<longrightarrow> sn_ProcessStartedAt n' = sn_ProcessStartedAt n)"
proof -
  obtain t t' n' w2 where t: "restore_task n = Inr t" "RequestCancel force at t = (t', Inr evs)" "WithTask n t' at = Inr n'"
    "save_task io' tid n' w = (w2, None)" "w' = append_events io' tid (take 1 evs) (if sn_State n = StateStalled then leave_stalled tid at w2 else w2)"
    using assms(2) by (auto simp: request_cancel_locked_def split: sum.splits prod.splits option.splits)
  from t(2) have "state t' = StateCancelling \<and> processStartTime t' = processStartTime t" by (auto simp: go_simps)
  moreover have "disks w' tid = Some n'" using save_task_view(2) [OF t(4)] t(5) by (simp add: views)
  ultimately show ?thesis using t(3) restore_process [OF t(1)] by (auto simp: WithTask_Inr overlay_task_def)
qed

text \<open>A signal that goes to the process which the stored task records, while the task is stored as cancelling.\<close>

definition signal_recorded :: "task_id \<Rightarrow> task_world \<Rightarrow> effect \<Rightarrow> bool" where
  "signal_recorded tid w e =
     (case e of
        Terminate x a \<Rightarrow> x = tid \<and> sa_TaskID a = tid \<and> sa_ExpectedState a = StateCancelling
          \<and> (\<exists>n. disks w tid = Some n \<and> sn_State n = StateCancelling \<and> sn_PID n = Some (sa_PID a)
               \<and> sn_ProcessStartedAt n = Some (sa_ProcessStartedAt a))
      | SignalTerm pid \<Rightarrow> (\<exists>n. disks w tid = Some n \<and> sn_State n = StateCancelling \<and> sn_PID n = Some pid)
      | _ \<Rightarrow> True)"

lemma signal_recorded_simps [simp]:
  "signal_recorded tid w (Pend op)" "signal_recorded tid w (AwaitDeath x)" "signal_recorded tid w (DisarmTimer x)"
  "signal_recorded tid w (KillConfirmed x code at)" "signal_recorded tid w (register_effect x d)"
  by (simp_all add: signal_recorded_def register_effect_def)

lemma cancel_stored_signals:
  assumes "disks w tid = Some n'" and "sn_State n' = StateCancelling" and "sn_PID n' = sn_PID n"
    and "sn_PID n \<noteq> None \<longrightarrow> sn_ProcessStartedAt n' = sn_ProcessStartedAt n"
  shows "list_all (signal_recorded tid w) (fst (cancel_stored r tid n g at))"
proof -
  have dead: "list_all (signal_recorded tid w) (fst (cancel_dead r tid previous g))" for previous
    by (simp add: cancel_dead_def)
  have unconfirmed: "list_all (signal_recorded tid w) (fst (cancel_unconfirmed r tid a))" for a
    by (simp add: cancel_unconfirmed_def Let_def)
  have first: "signal_recorded tid w (Terminate tid (cancel_authority tid pid started g))"
    if "sn_PID n = Some pid" "sn_ProcessStartedAt n = Some started" for pid started
    using that assms by (auto simp: signal_recorded_def cancel_authority_def)
  have raw: "signal_recorded tid w (SignalTerm pid)" if "sn_PID n = Some pid" for pid
    using that assms by (auto simp: signal_recorded_def)
  have checked: "list_all (signal_recorded tid w) (fst (cancel_terminate r tid previous (cancel_authority tid pid started g)))"
    if "sn_PID n = Some pid" "sn_ProcessStartedAt n = Some started" for previous pid started
    using first [OF that] dead unconfirmed by (simp add: cancel_terminate_def cancel_authority_def)
  have bare: "list_all (signal_recorded tid w) (fst (cancel_terminate_unchecked r tid pid started g))"
    if "sn_PID n = Some pid" for pid started
    using raw [OF that] by (simp add: cancel_terminate_unchecked_def)
  show ?thesis
    using checked bare by (simp add: cancel_stored_def split: option.split)
qed

lemma sendClaimedStarting_signals: "list_all (signal_recorded tid w) (sendClaimedStarting r pid c) = signal_recorded tid w (SignalTerm pid)"
  by (simp add: sendClaimedStarting_def split: option.split)

definition is_signal :: "effect \<Rightarrow> bool" where
  "is_signal e = (case e of Terminate x a \<Rightarrow> True | SignalTerm pid \<Rightarrow> True | _ \<Rightarrow> False)"

lemma is_signal_simps [simp]:
  "\<not> is_signal (Pend op)" "\<not> is_signal (AwaitDeath x)" "\<not> is_signal (KillConfirmed x code at)"
  by (simp_all add: is_signal_def)

lemma finishStartingClaim_late:
  "snd (finishStartingClaim r io tid force at previous pid started g owners late w)
      = snd (finishStartingClaim r io tid force at previous pid started g owners (\<lambda>w. w) w)"
  "list_ex is_signal (fst (snd (finishStartingClaim r io tid force at previous pid started g owners (\<lambda>w. w) w)))
     \<Longrightarrow> fst (finishStartingClaim r io tid force at previous pid started g owners late w)
      = late (fst (finishStartingClaim r io tid force at previous pid started g owners (\<lambda>w. w) w))"
  by (auto simp: finishStartingClaim_def split: prod.split claim_outcome.split sum.split)

lemma cancelPersisted_late:
  "snd (cancelPersisted r io tid force at owners w io' owners' others late)
      = snd (cancelPersisted r io tid force at owners w io' owners' others (\<lambda>w. w))"
  "list_ex is_signal (fst (snd (cancelPersisted r io tid force at owners w io' owners' others (\<lambda>w. w))))
     \<Longrightarrow> fst (cancelPersisted r io tid force at owners w io' owners' others late)
      = late (fst (cancelPersisted r io tid force at owners w io' owners' others (\<lambda>w. w)))"
proof -
  note late = finishStartingClaim_late [where late = late]
  show "snd (cancelPersisted r io tid force at owners w io' owners' others late)
      = snd (cancelPersisted r io tid force at owners w io' owners' others (\<lambda>w. w))"
    by (simp add: cancelPersisted_def Let_def case_prod_unfold late(1) split: option.split sum.split bool.split)
  have "list_ex is_signal (fst (snd (cancelPersisted r io tid force at owners w io' owners' others (\<lambda>w. w))))
     \<longrightarrow> fst (cancelPersisted r io tid force at owners w io' owners' others late)
      = late (fst (cancelPersisted r io tid force at owners w io' owners' others (\<lambda>w. w)))"
    by (simp add: cancelPersisted_def Let_def case_prod_unfold late(2) split: option.split sum.split bool.split)
  then show "fst (cancelPersisted r io tid force at owners w io' owners' others late)
      = late (fst (cancelPersisted r io tid force at owners w io' owners' others (\<lambda>w. w)))"
    if "list_ex is_signal (fst (snd (cancelPersisted r io tid force at owners w io' owners' others (\<lambda>w. w))))"
    using that by blast
qed

lemma finishStartingClaim_signals:
  assumes "finishStartingClaim r io tid force at previous pid started g owners (\<lambda>w. w) w = (w', script, answer)"
  shows "list_all (signal_recorded tid w') script"
proof (cases "snd (rp_claim r) = ClaimAcquired")
  case True
  then obtain c where c: "rp_claim r = (c, ClaimAcquired)" by (cases "rp_claim r") auto
  show ?thesis
  proof (cases "load_task io tid w")
    case (Inr n)
    then have n: "disks w tid = Some n" using file_tasks.load_stored by (auto simp: load_task_def disks_def)
    have "signal_recorded tid w2 (SignalTerm pid)"
      if "request_cancel_locked io tid force n at w = (w2, Inr evs)" "sn_PID n = Some pid" for w2 evs
      using request_cancel_stores [OF Inr that(1)] that(2) by (auto simp: signal_recorded_def)
    moreover have "signal_recorded tid w (SignalTerm pid)" if "sn_State n = StateCancelling" "sn_PID n = Some pid"
      using n that by (simp add: signal_recorded_def)
    ultimately show ?thesis
      using assms c Inr
      by (auto simp: finishStartingClaim_def sameCancelProcess_def sendClaimedStarting_signals split: sum.splits prod.splits if_splits)
  qed (use assms c in \<open>auto simp: finishStartingClaim_def\<close>)
next
  case False
  with assms show ?thesis by (auto simp: finishStartingClaim_def split: prod.splits claim_outcome.splits)
qed

lemma cancelPersisted_signals:
  assumes "cancelPersisted r io tid force at owners w io' owners' others (\<lambda>w. w) = (w', script, answer)"
  shows "list_all (signal_recorded tid w') script"
proof (cases "load_task io tid w")
  case (Inr n)
  have stored: "list_all (signal_recorded tid w2) (fst (cancel_stored r tid n g at))"
    if "request_cancel_locked io tid force n at w = (w2, Inr evs)" for w2 evs g
    using request_cancel_stores [OF Inr that] by (auto intro: cancel_stored_signals)
  show ?thesis
    using assms Inr stored finishStartingClaim_signals
    by (auto simp: cancelPersisted_def Let_def split: prod.splits option.splits bool.splits if_splits sum.splits) (metis fst_conv)+
qed (use assms in \<open>auto simp: cancelPersisted_def\<close>)

text \<open>
  The world \<open>w1\<close> in which the same call ends when no thread runs after the unlock is the world at the unlock: every
  signal names the process that is recorded there, and a call that signals ends in what the other threads made of it.
\<close>

lemma cancelPersisted_unlocked:
  assumes "cancelPersisted r io tid force at owners w io' owners' others late = (w', script, answer)"
  obtains w1 where "cancelPersisted r io tid force at owners w io' owners' others (\<lambda>w. w) = (w1, script, answer)"
    "list_all (signal_recorded tid w1) script" "list_ex is_signal script \<longrightarrow> w' = late w1"
proof -
  obtain w1 script1 answer1 where x: "cancelPersisted r io tid force at owners w io' owners' others (\<lambda>w. w) = (w1, script1, answer1)"
    by (rule prod_cases3)
  from cancelPersisted_late [of r io tid force at owners w io' owners' others late] assms x
  have "script1 = script" "answer1 = answer" "list_ex is_signal script \<Longrightarrow> w' = late w1" by simp_all
  with x cancelPersisted_signals [OF x] that show ?thesis by simp
qed

lemma finishStartingClaim_settles:
  assumes "finishStartingClaim r io tid force at previous pid started g owners late w = (w', script, answer)"
    and "rp_claim r = (c, ClaimAcquired)"
  shows "length (filter (settles c) script) = 1"
proof -
  have "length (filter (settles c) (sendClaimedStarting r pid c)) = 1"
    by (simp add: sendClaimedStarting_def settles_def uses_def same_claim_def split: option.split)
  with assms show ?thesis by (auto simp: finishStartingClaim_def split: sum.splits prod.splits if_splits)
qed

lemma cancel_stored_claimless: "Pend (OpClaimInitialSend x a) \<notin> set (fst (cancel_stored r tid n g at))"
proof -
  have "Pend (OpClaimInitialSend x a) \<notin> set (fst (cancel_dead r tid previous g))"
    and "Pend (OpClaimInitialSend x a) \<notin> set (fst (cancel_unconfirmed r tid b))" for previous g b
    by (simp_all add: cancel_dead_def cancel_unconfirmed_def register_effect_def Let_def)
  then show ?thesis
    by (simp add: cancel_stored_def cancel_terminate_def cancel_terminate_unchecked_def register_effect_def split: option.split)
qed

lemma cancelPersisted_settles:
  assumes "cancelPersisted r io tid force at owners w io' owners' others late = (w', script, answer)"
    and "rp_claim r = (c, ClaimAcquired)" and "Pend (OpClaimInitialSend tid a) \<in> set script"
  shows "length (filter (settles c) script) = 1"
proof (cases "load_task io tid w")
  case (Inr n)
  have claim: "length (filter (settles c) (Pend (OpClaimInitialSend tid b) # script')) = 1"
    if "finishStartingClaim r io' tid force at StateStarting pid started gen owners' late (others w) = (w2, script', answer')"
    for b pid started gen w2 script' answer'
    using finishStartingClaim_settles [OF that assms(2)] by (simp add: settles_def uses_def)
  have none: "Pend (OpClaimInitialSend tid a) \<notin> set script'" if "cancel_stored r tid n g at = (script', answer')" for g script' answer'
    using cancel_stored_claimless [of tid a r tid n g at] that by simp
  show ?thesis
    using assms(1,3) Inr claim none
    by (auto simp: cancelPersisted_def Let_def split: prod.splits option.splits bool.splits if_splits sum.splits)
qed (use assms in \<open>auto simp: cancelPersisted_def\<close>)

text \<open>
  C20: a cancellation signals only what the task records. The call stores the task as cancelling, or finds it stored so, while
  it holds the mutex of the task, and sends its signals after the unlock, when other threads may have moved the task on (\<open>late\<close>). Whatever they
  do, every signal goes to the process that the snapshot of the task named when the mutex was released (in the world \<open>unlocked\<close>, where
  the same call ends when no thread runs after the unlock), and that snapshot was cancelling: the signal with an authority carries this process, its start and the expected state for the
  revalidation, the raw SIGTERM goes to the process identifier as it was recorded then. A claim that the call
  obtains for the first signal of a starting task is used exactly once, so it is given back on every path.
\<close>

theorem cancel_signals_recorded_process:
  assumes "CancelTask_Execute r io tid force at owners io' owners' others late q w = Done (q', w', script, answer)"
  shows "(\<exists>unlocked. CancelTask_Execute r io tid force at owners io' owners' others (\<lambda>w. w) q w = Done (q', unlocked, script, answer)
          \<and> list_all (signal_recorded tid unlocked) script \<and> (list_ex is_signal script \<longrightarrow> w' = late unlocked))
     \<and> (\<forall>c a. rp_claim r = (c, ClaimAcquired) \<longrightarrow> Pend (OpClaimInitialSend tid a) \<in> set script
          \<longrightarrow> length (filter (settles c) script) = 1)"
proof -
  obtain q1 found evs where rm: "Remove tid at q = Done (q1, found, evs)" using assms by (auto simp: CancelTask_Execute_def and_then_Done)
  show ?thesis
  proof (cases "found = None \<and> rp_reserved r = Inr True")
    case True
    with assms rm have p: "cancelPersisted r io tid force at owners w io' owners' others late = (w', script, answer)" "q' = q1"
      by (auto simp: CancelTask_Execute_def split: prod.splits)
    from p(1) obtain w1 where u: "cancelPersisted r io tid force at owners w io' owners' others (\<lambda>w. w) = (w1, script, answer)"
      "list_all (signal_recorded tid w1) script" "list_ex is_signal script \<longrightarrow> w' = late w1" by (rule cancelPersisted_unlocked)
    moreover have "CancelTask_Execute r io tid force at owners io' owners' others (\<lambda>w. w) q w = Done (q', w1, script, answer)"
      using True rm u(1) p(2) by (simp add: CancelTask_Execute_def)
    ultimately show ?thesis using cancelPersisted_settles [OF p(1)] by blast
  next
    case False
    have same: "CancelTask_Execute r io tid force at owners io' owners' others (\<lambda>w. w) q w
        = CancelTask_Execute r io tid force at owners io' owners' others late q w"
      using rm False by (auto simp: CancelTask_Execute_def split: option.split sum.split bool.split)
    have "script = [] \<or> script = [KillConfirmed tid 130 at]"
      using assms rm False by (auto simp: CancelTask_Execute_def and_then_Done split: option.splits prod.splits sum.splits bool.splits)
    then show ?thesis using same assms by auto
  qed
qed

definition sample_owners :: ownership_registry where
  "sample_owners = fst (Acquire_lifecycle sample_id NewLifecycleOwnershipRegistry)"

theorem cancel_signals_recorded_process_witness:
  "\<exists>q' w' script answer. CancelTask_Execute sample_replies ok_io sample_id True 20 sample_owners ok_io sample_owners (\<lambda>w. w) (\<lambda>w. w) []
        (sample_world sample_running) = Done (q', w', script, answer)
     \<and> (\<exists>unlocked. list_all (signal_recorded sample_id unlocked) script)
     \<and> list_ex (\<lambda>e. case e of Terminate x a \<Rightarrow> True | _ \<Rightarrow> False) script"
proof -
  have "(case CancelTask_Execute sample_replies ok_io sample_id True 20 sample_owners ok_io sample_owners (\<lambda>w. w) (\<lambda>w. w) []
        (sample_world sample_running) of
      Panic \<Rightarrow> False
    | Done (q', w', script, answer) \<Rightarrow> list_ex (\<lambda>e. case e of Terminate x a \<Rightarrow> True | _ \<Rightarrow> False) script)"
    by code_simp
  then obtain q' w' script answer where x:
    "CancelTask_Execute sample_replies ok_io sample_id True 20 sample_owners ok_io sample_owners (\<lambda>w. w) (\<lambda>w. w) []
        (sample_world sample_running) = Done (q', w', script, answer)"
    "list_ex (\<lambda>e. case e of Terminate x a \<Rightarrow> True | _ \<Rightarrow> False) script"
    by (auto split: outcome.splits prod.splits)
  from cancel_signals_recorded_process [OF x(1)] x show ?thesis by blast
qed

section \<open>A waiting task\<close>

lemma cancel_queued_outcome:
  assumes "cancel_queued_locked io force t to mdl effort sandbox wd tid at w = (w', result)"
  shows "case result of
      Inl e \<Rightarrow> disks w' = disks w \<and> codes w' = codes w
    | Inr evs \<Rightarrow> (\<exists>n. disks w' = (disks w)(tid \<mapsto> n) \<and> sn_State n = StateCancelling)"
proof -
  have state: "sn_State n = StateCancelling"
    if "RequestCancel force at t = (t', Inr evs)"
      "NewTaskSnapshotFromAdmission (Some t') to mdl effort sandbox wd ExecutionRouteDaemon at = Inr n" for t' evs n
    using that by (auto simp: go_simps NewTaskSnapshotFromAdmission_def Let_def split: option.splits)
  show ?thesis
    using assms save_task_view
    by (auto simp: cancel_queued_locked_def views split: prod.splits sum.splits option.splits dest: state save_task_view)
qed

text \<open>
  Cancelling a waiting task is atomic. It never panics on a queue of waiting tasks; when it fails, the queue is as it was,
  renumbered, and nothing is stored; when it succeeds, the task has left the queue, the others keep their
  order, its first snapshot is stored as cancelling, and its end is confirmed with exit code 130.
\<close>

theorem queued_cancel_atomic:
  assumes "list_all queued_payload q" and "Lookup tid q = Some (p, i)"
  shows "\<exists>q' w' script answer. CancelTask_Execute r io tid force at owners io' owners' others late q w = Done (q', w', script, answer)
     \<and> (if script = [] then q' = renumbered 0 q \<and> disks w' = disks w \<and> codes w' = codes w \<and> fst answer \<noteq> None
        else script = [KillConfirmed tid 130 at] \<and> q' = renumbered 0 (remove_at i q)
             \<and> (\<exists>n. disks w' = (disks w)(tid \<mapsto> n) \<and> sn_State n = StateCancelling))"
proof -
  from Remove_Restore_roundtrip [OF assms, of at at] obtain evs evs' where
    q: "Remove tid at q = Done (renumbered 0 (remove_at i q), Some (p, i), evs)"
      "Restore_queue p (int i) at (renumbered 0 (remove_at i q)) = Done (renumbered 0 q, evs')" by blast
  have "i < length q" "p = q ! i" using assms(2) by (auto simp: Lookup_def dest: find_index_Some split: option.splits)
  with assms(1) have "queued_payload p" by (simp add: list_all_length)
  then obtain t where t: "pl_Task p = Some t" "state t = StateQueued" by (auto simp: queued_payload_def split: option.splits)
  obtain w' result where c: "cancel_queued_locked io force t (pl_ResolvedTimeout p) (pl_Model p) (pl_ReasoningEffort p)
      (pl_SandboxMode p) (pl_WorkingDir p) tid at w = (w', result)" by fastforce
  show ?thesis
    using cancel_queued_outcome [OF c] q t c
    by (cases result) (auto simp: CancelTask_Execute_def cancelQueued_def)
qed

theorem queued_cancel_atomic_witness:
  "\<exists>q' w' script answer. CancelTask_Execute sample_replies ok_io (TaskID ''b'') False 20 sample_owners ok_io sample_owners (\<lambda>w. w) (\<lambda>w. w)
       [sample_payload ''a'', sample_payload ''b''] reserved_world = Done (q', w', script, answer)
     \<and> (if script = [] then q' = renumbered 0 [sample_payload ''a'', sample_payload ''b''] \<and> disks w' = disks reserved_world
             \<and> codes w' = codes reserved_world \<and> fst answer \<noteq> None
        else script = [KillConfirmed (TaskID ''b'') 130 20] \<and> q' = renumbered 0 (remove_at 1 [sample_payload ''a'', sample_payload ''b''])
             \<and> (\<exists>n. disks w' = (disks reserved_world)(TaskID ''b'' \<mapsto> n) \<and> sn_State n = StateCancelling))"
proof (rule queued_cancel_atomic)
  show "list_all queued_payload [sample_payload ''a'', sample_payload ''b'']"
    by (simp add: sample_payload_def sample_task_def queued_payload_def)
  show "Lookup (TaskID ''b'') [sample_payload ''a'', sample_payload ''b''] = Some (sample_payload ''b'', 1)"
    by (simp add: sample_payload_def sample_task_def Lookup_def payload_has_def)
qed

section \<open>The recovery of a timed-out task\<close>

text \<open>The calls that resume the session of a timed-out task, and what a script must have done before.\<close>

definition starts_timeout_recovery :: "effect \<Rightarrow> bool" where
  "starts_timeout_recovery e =
     (case e of
        Resume inp \<Rightarrow> ri_Origin inp = RecoveryOriginTimeout
      | Spawn (ResumeAdopted inp c) \<Rightarrow> ri_Origin inp = RecoveryOriginTimeout
      | Spawn (ResumePending inp c) \<Rightarrow> ri_Origin inp = RecoveryOriginTimeout
      | _ \<Rightarrow> False)"

fun recovery_guarded :: "bool \<Rightarrow> bool \<Rightarrow> task_id \<Rightarrow> task_snapshot \<Rightarrow> bool \<Rightarrow> effect list \<Rightarrow> bool" where
  "recovery_guarded dead ok tid n unlocked [] = True"
| "recovery_guarded dead ok tid n unlocked (e # es) =
     ((if starts_timeout_recovery e then dead \<and> (sn_Subcommand n = SubcommandImpl \<longrightarrow> unlocked \<and> ok) else True)
      \<and> recovery_guarded dead ok tid n (unlocked \<or> ReleaseLock tid = e) es)"

lemma recovery_guarded_silent:
  "\<forall>e \<in> set es. \<not> starts_timeout_recovery e \<Longrightarrow> recovery_guarded dead ok tid n unlocked es"
  by (induction es arbitrary: unlocked) auto

lemma recovery_guarded_append:
  "recovery_guarded dead ok tid n unlocked (xs @ ys) \<longleftrightarrow>
     recovery_guarded dead ok tid n unlocked xs \<and> recovery_guarded dead ok tid n (unlocked \<or> ReleaseLock tid \<in> set xs) ys"
  by (induction xs arbitrary: unlocked) (auto simp: disj_assoc)

lemma starts_simps [simp]:
  "\<not> starts_timeout_recovery (Pend op)" "\<not> starts_timeout_recovery (ReleaseLock x)" "\<not> starts_timeout_recovery (Terminate x a)"
  "\<not> starts_timeout_recovery (AwaitDeath x)" "\<not> starts_timeout_recovery (register_effect x d)"
  "\<not> starts_timeout_recovery (KillConfirmed x code at)" "\<not> starts_timeout_recovery (Spawn (SendAndReconcile c m b))"
  "\<not> starts_timeout_recovery (Spawn (ConfirmTimeoutTermination x m))"
  by (simp_all add: starts_timeout_recovery_def register_effect_def)

lemma silent_scripts:
  "recovery_guarded dead ok tid n u (reconcilePendingAfterFailure ctx load x d)"
  "recovery_guarded dead ok tid n u (reconcileAfterConfirmedDeath load x)"
  "recovery_guarded dead ok tid n u (handleUnconfirmedTermination load c result)"
proof -
  show "recovery_guarded dead ok tid n u (reconcilePendingAfterFailure ctx load x d)"
    by (rule recovery_guarded_silent) (auto dest: reconcilePendingAfterFailure_effects)
  show "recovery_guarded dead ok tid n u (reconcileAfterConfirmedDeath load x)"
    by (cases load) (simp_all add: reconcileAfterConfirmedDeath_def)
  show "recovery_guarded dead ok tid n u (handleUnconfirmedTermination load c result)"
    by (simp add: handleUnconfirmedTermination_def releaseOrInvalidateSendAfterTerminationError_def split: option.split prod.split)
qed

lemma give_up_guarded: "recovery_guarded dead ok tid n u (give_up ctx r x c)"
  by (simp add: give_up_def silent_scripts)

lemma completeTerminated_guarded:
  assumes "dead"
  shows "recovery_guarded dead (rp_unlocked r) tid n u (completeTerminated ctx r tid n timedOut at c)"
  using assms by (simp add: completeTerminated_def give_up_guarded recovery_guarded_append)

lemma confirmTimeoutTermination_guarded:
  assumes "rp_load r = Inr latest"
  shows "recovery_guarded (tr_Dead (rp_signals r)) (rp_unlocked r) tid latest False (confirmTimeoutTermination r tid n)"
proof (cases "processSignalAuthority n")
  case (Some a)
  obtain c outcome where c: "rp_claim r = (c, outcome)" by fastforce
  show ?thesis
    using Some c assms
    by (simp add: confirmTimeoutTermination_def silent_scripts currentClaimAuthority_def currentClaimAuthorityWithError_def
        releaseTimeoutPathLock_def)
qed (simp add: confirmTimeoutTermination_def)

lemma sendAndReconcile_guarded:
  assumes "rp_load r = Inr latest"
  shows "recovery_guarded (tr_Dead (rp_signals r)) (rp_unlocked r) (sc_TaskID c) latest False (sendAndReconcile r c n timedOut)"
  using assms completeTerminated_guarded [of "tr_Dead (rp_signals r)" r "sc_TaskID c" latest False]
  by (simp add: sendAndReconcile_def silent_scripts currentClaimAuthority_def currentClaimAuthorityWithError_def)

lemma adoptTimeout_guarded:
  "recovery_guarded (rp_live r = Inr True) (rp_unlocked r) tid n False (fst (adoptTimeoutLocked ctx r tid n))"
  by (simp add: adoptTimeoutLocked_def startTimeoutRecovery_def releaseTimeoutPathLock_def register_and_return_def
      register_and_spawn_def silent_scripts recovery_guarded_append split: sum.split bool.split)

lemma reconcileTermination_guarded:
  "recovery_guarded (fst (rp_confirm r)) (rp_unlocked r) tid n False (reconcileTermination ctx r tid n timedOut authority)"
proof -
  have "recovery_guarded (fst (rp_confirm r)) (rp_unlocked r) tid n False (confirm_termination ctx r tid n timedOut)"
    by (cases "rp_confirm r")
      (simp add: confirm_termination_def silent_scripts completeTerminated_guarded split: bool.split option.split)
  then show ?thesis by (simp add: reconcileTermination_def split: prod.split claim_outcome.split)
qed

lemma EnforceTaskTimeout_guarded:
  assumes "load_task io tid w = Inr n"
  shows "recovery_guarded (if timeout_authority n g = None then fst (rp_confirm r) else tr_Dead (rp_signals r)) (rp_unlocked r) tid n False
     (fst (snd (EnforceTaskTimeout_Execute r io tid g at w)))"
proof -
  have timed: "m = n" if "EnforceTaskTimeout_executeLocked io tid at w = (w', TimedOutNow m evs ok)" for w' m evs ok
    using that assms by (auto simp: EnforceTaskTimeout_executeLocked_def split: sum.splits prod.splits if_splits option.splits)
  have recover: "recovery_guarded True (rp_unlocked r) tid n False (recover_timed_out r tid n at)"
    by (simp add: recover_timed_out_def silent_scripts recovery_guarded_append)
  show ?thesis
    using timed recover
    by (auto simp: EnforceTaskTimeout_Execute_def stop_timed_out_def split: prod.split timeout_answer.split option.split)
qed

text \<open>
  The session of a timed-out task is resumed only after its process was seen dead and, for a task that
  owns paths, after its path lock was released without an error. This holds for each of the five places
  that start such a recovery: the enforcement of the timeout, the adoption after a restart and the thread
  it starts, and the periodic reconciliation and the thread it starts.
\<close>

theorem timeout_recovery_guarded:
  assumes "rp_load r = Inr latest" and "load_task io tid w = Inr m"
  shows "recovery_guarded (if timeout_authority m g = None then fst (rp_confirm r) else tr_Dead (rp_signals r)) (rp_unlocked r) tid m False
       (fst (snd (EnforceTaskTimeout_Execute r io tid g at w)))
     \<and> recovery_guarded (rp_live r = Inr True) (rp_unlocked r) tid n False (fst (adoptTimeoutLocked ctx r tid n))
     \<and> recovery_guarded (tr_Dead (rp_signals r)) (rp_unlocked r) tid latest False (confirmTimeoutTermination r tid n)
     \<and> recovery_guarded (fst (rp_confirm r)) (rp_unlocked r) tid n False (reconcileTermination ctx r tid n timedOut authority)
     \<and> recovery_guarded (tr_Dead (rp_signals r)) (rp_unlocked r) (sc_TaskID c) latest False (sendAndReconcile r c n timedOut)"
  using EnforceTaskTimeout_guarded [OF assms(2)] adoptTimeout_guarded confirmTimeoutTermination_guarded [OF assms(1)]
    reconcileTermination_guarded sendAndReconcile_guarded [OF assms(1)] by blast

definition dead_replies :: replies where
  "dead_replies = sample_replies\<lparr>rp_live := Inr True, rp_confirm := (True, None)\<rparr>"

theorem timeout_recovery_guarded_witness:
  "(\<exists>inp. Resume inp \<in> set (fst (snd (EnforceTaskTimeout_Execute dead_replies ok_io sample_id 1 20 (sample_world sample_running))))
      \<and> ri_Origin inp = RecoveryOriginTimeout)
   \<and> (\<exists>m. load_task ok_io sample_id (sample_world sample_running) = Inr m
      \<and> recovery_guarded (if timeout_authority m 1 = None then fst (rp_confirm dead_replies) else tr_Dead (rp_signals dead_replies))
          (rp_unlocked dead_replies) sample_id m False
          (fst (snd (EnforceTaskTimeout_Execute dead_replies ok_io sample_id 1 20 (sample_world sample_running)))))"
proof -
  have "list_ex (\<lambda>e. case e of Resume inp \<Rightarrow> ri_Origin inp = RecoveryOriginTimeout | _ \<Rightarrow> False)
      (fst (snd (EnforceTaskTimeout_Execute dead_replies ok_io sample_id 1 20 (sample_world sample_running))))"
    by code_simp
  then obtain e where "e \<in> set (fst (snd (EnforceTaskTimeout_Execute dead_replies ok_io sample_id 1 20 (sample_world sample_running))))"
      "case e of Resume inp \<Rightarrow> ri_Origin inp = RecoveryOriginTimeout | _ \<Rightarrow> False"
    unfolding list_ex_iff by blast
  then have "\<exists>inp. Resume inp \<in> set (fst (snd (EnforceTaskTimeout_Execute dead_replies ok_io sample_id 1 20 (sample_world sample_running))))
      \<and> ri_Origin inp = RecoveryOriginTimeout"
    by (cases e rule: effect.exhaust) auto
  moreover have "is_ok (load_task ok_io sample_id (sample_world sample_running))" by code_simp
  then obtain m where m: "load_task ok_io sample_id (sample_world sample_running) = Inr m"
    by (cases "load_task ok_io sample_id (sample_world sample_running)") auto
  moreover have "rp_load dead_replies = Inr sample_cancelling" by (simp add: dead_replies_def sample_replies_def)
  ultimately show ?thesis using timeout_recovery_guarded [of dead_replies sample_cancelling, OF _ m] by blast
qed

end
