(* ===== verification/Task_Closing.thy ===== *)
theory Task_Closing
  imports Task_Cancel Admission Path_Lock Timeout_Watcher Filepath
begin

text \<open>
  The end of a task: \<open>Execute\<close> of the use cases that close a task (\<^verbatim>\<open>internal/execution/finalize.go\<close>,
  \<^verbatim>\<open>internal/execution/cancel.go\<close>, \<^verbatim>\<open>internal/execution/usecase/launchfailure.go\<close> and
  \<^verbatim>\<open>internal/recovery/resume.go\<close>), each the locked part of theory \<open>Task_Runtime\<close> followed by the release
  of what the task held. The releases are scripts of effects; the last sections run such a script on the
  scheduler, the timeout watcher, the lock files and the pending set of the daemon, so that the
  theorem speaks of these components.
\<close>

section \<open>Finalization\<close>

definition ReleaseAfterFinalization :: "finalize_result \<Rightarrow> task_id \<Rightarrow> effect list" where
  "ReleaseAfterFinalization res tid =
     (if \<not> fr_RecordExited res then []
      else (case fr_Metrics res of None \<Rightarrow> [] | Some m \<Rightarrow> [RecordMetrics m])
           @ DisarmTimer tid # (if fr_Subcommand res = SubcommandImpl then [ReleaseLock tid] else []) @ [ReleaseSlot tid])"

text \<open>\<open>message\<close> is what \<open>ReadLastMessage\<close> answers before the task is locked.\<close>

definition FinalizeTask_Execute :: "task_io \<Rightarrow> task_io \<Rightarrow> domain_error + bool \<Rightarrow> finalize_input \<Rightarrow> task_world
    \<Rightarrow> task_world \<times> effect list \<times> finalize_result \<times> runtime_error option" where
  "FinalizeTask_Execute io1 io2 message inp w =
     (case message of
        Inl e \<Rightarrow> (w, [], no_result, Some (DomainErr e))
      | Inr present \<Rightarrow>
          (case FinalizeTask_executeLocked io1 io2 inp present w of
             (w, res, err) \<Rightarrow>
               (w, if fr_RecordExited res then ReleaseAfterFinalization res (fi_TaskID inp) else [], res, err)))"

section \<open>Confirmed kills\<close>

text \<open>The first killed event of the result; no other event counts.\<close>

fun killed_metrics :: "task_id \<Rightarrow> int \<Rightarrow> event list \<Rightarrow> effect list" where
  "killed_metrics tid ms [] = []"
| "killed_metrics tid ms (ev # evs) =
     (case ev of
        TaskKilled _ _ estimated at \<Rightarrow>
          [RecordMetrics \<lparr>mi_TaskID = tid, mi_FinalState = StateKilled, mi_Estimated = estimated, mi_OccurredAt = at,
             mi_StalledTotalMs = ms\<rparr>]
      | _ \<Rightarrow> killed_metrics tid ms evs)"

definition ReleaseAfterConfirmation :: "kill_result \<Rightarrow> task_id \<Rightarrow> effect list" where
  "ReleaseAfterConfirmation res tid =
     (if kr_Confirmed res \<and> \<not> kr_TerminalPersisted res then [register_effect tid (PendingSendConfirmOnly, None)] else [])
     @ (if kr_TerminalPersisted res then killed_metrics tid (kr_StalledTotalMs res) (kr_Events res) else [])
     @ DisarmTimer tid # (if kr_Subcommand res = SubcommandImpl then [ReleaseLock tid] else []) @ [ReleaseSlot tid]"

definition ConfirmTaskKilled_Execute :: "task_io \<Rightarrow> task_id \<Rightarrow> int \<Rightarrow> bool \<Rightarrow> go_time \<Rightarrow> task_world
    \<Rightarrow> task_world \<times> effect list \<times> kill_result \<times> runtime_error option" where
  "ConfirmTaskKilled_Execute io tid rawExitCode estimated at w =
     (case ConfirmTaskKilled_ExecuteLocked io tid rawExitCode estimated at w of
        (w, res, err) \<Rightarrow> (w, if kr_Confirmed res then ReleaseAfterConfirmation res tid else [], res, err))"

section \<open>Failed launches\<close>

definition ReleaseAfterFailure :: "task_id \<Rightarrow> bool \<Rightarrow> effect list" where
  "ReleaseAfterFailure tid impl = (if impl then [ReleaseLock tid] else []) @ [ReleaseSlot tid]"

definition FailTaskLaunch_Execute :: "task_io \<Rightarrow> fail_launch_input \<Rightarrow> task_world
    \<Rightarrow> task_world \<times> effect list \<times> (bool \<times> bool) \<times> runtime_error option" where
  "FailTaskLaunch_Execute io inp w =
     (case FailTaskLaunch_ExecuteLocked io inp w of
        (w, (closed, impl), err) \<Rightarrow> (w, if closed then ReleaseAfterFailure (id (fl_Task inp)) impl else [], (closed, impl), err))"

section \<open>Recovery by resuming a session\<close>

text \<open>
  The resumed process is a parameter: \<open>rv_launch\<close> starts it and waits for it, at most \<open>resumeRecoveryTimeout\<close>.
  The text of the prompt is a parameter too, because it is not ASCII.
\<close>

record resume_launch_params =
  rl_TaskID :: task_id
  rl_CodexBinaryPath :: string
  rl_SessionID :: string
  rl_TaskPlacementRoot :: string
  rl_OutputLastMessagePath :: string
  rl_OutputSchemaPath :: "string option"
  rl_PromptText :: string
  rl_Subcommand :: subcommand
  rl_SandboxMode :: string
  rl_Model :: string
  rl_ReasoningEffort :: "string option"
  rl_WorkingDir :: string

datatype resume_failure = ResumeSessionUnavailable | ResumeLaunchFailed | ResumeOutputReadFailed | ResumeBadPath

record recoverer =
  rv_codexBinaryPath :: string
  rv_taskPlacementRoot :: string
  rv_prompt :: string
  rv_launch :: "resume_launch_params \<Rightarrow> resume_failure option"
  rv_message :: "domain_error + bool"

definition task_path :: "string \<Rightarrow> task_id \<Rightarrow> string \<Rightarrow> string option" where
  "task_path root tid name =
     (if tid_string tid = '''' then None else Some (filepath_join (filepath_join root (tid_string tid)) name))"

definition recovery_failed :: "recovery_origin \<Rightarrow> recovery_result" where
  "recovery_failed origin = \<lparr>rr_Succeeded = False, rr_ExitCode = failureExitCodeFor origin, rr_PartialOutputSaved = False\<rparr>"

definition resume_params :: "recoverer \<Rightarrow> string \<Rightarrow> string \<Rightarrow> string \<Rightarrow> string option \<Rightarrow> task_id \<Rightarrow> session_ref \<Rightarrow> resume_settings
    \<Rightarrow> resume_launch_params" where
  "resume_params rv root wd lastMessage schema tid ref st =
     \<lparr>rl_TaskID = tid, rl_CodexBinaryPath = rv_codexBinaryPath rv, rl_SessionID = sr_sessionID ref, rl_TaskPlacementRoot = root,
      rl_OutputLastMessagePath = lastMessage, rl_OutputSchemaPath = schema,
      rl_PromptText = (if rs_Subcommand st \<noteq> SubcommandImpl then rv_prompt rv else ''''),
      rl_Subcommand = rs_Subcommand st, rl_SandboxMode = rs_SandboxMode st, rl_Model = rs_Model st,
      rl_ReasoningEffort = rs_ReasoningEffort st, rl_WorkingDir = wd\<rparr>"

text \<open>The process that was launched, if any, the result and the error.\<close>

definition Attempt :: "recoverer \<Rightarrow> task_id \<Rightarrow> recovery_origin \<Rightarrow> session_ref \<Rightarrow> resume_settings
    \<Rightarrow> resume_launch_params list \<times> recovery_result \<times> resume_failure option" where
  "Attempt rv tid origin ref st =
     (case NewNormalizedPath (rv_taskPlacementRoot rv) of
        Inl _ \<Rightarrow> ([], recovery_failed origin, Some ResumeBadPath)
      | Inr root \<Rightarrow>
     (case rs_WorkingDir st of
        None \<Rightarrow> ([], recovery_failed origin, Some ResumeLaunchFailed)
      | Some dir \<Rightarrow>
     (case NewNormalizedPath dir of
        Inl _ \<Rightarrow> ([], recovery_failed origin, Some ResumeLaunchFailed)
      | Inr wd \<Rightarrow>
     (case (task_path (np_string root) tid ''last-message.md'', task_path (np_string root) tid ''output-schema.json'') of
        (Some lastMessage, Some schema) \<Rightarrow>
          let params = resume_params rv (np_string root) (np_string wd) lastMessage
                         (if SupportsOutputSchema (rs_Subcommand st) then Some schema else None) tid ref st
          in (case rv_launch rv params of
                Some e \<Rightarrow> ([params], recovery_failed origin,
                   Some (if e = ResumeSessionUnavailable then ResumeSessionUnavailable else ResumeLaunchFailed))
              | None \<Rightarrow>
             (case rv_message rv of
                Inl _ \<Rightarrow> ([params], recovery_failed origin, Some ResumeOutputReadFailed)
              | Inr False \<Rightarrow> ([params], recovery_failed origin, None)
              | Inr True \<Rightarrow> ([params], \<lparr>rr_Succeeded = True, rr_ExitCode = NewExitCode 0, rr_PartialOutputSaved = False\<rparr>, None)))
      | _ \<Rightarrow> ([], recovery_failed origin, Some ResumeBadPath)))))"

definition Resume_session :: "recoverer \<Rightarrow> task_id \<Rightarrow> session_ref option \<Rightarrow> recovery_origin \<Rightarrow> resume_settings
    \<Rightarrow> resume_launch_params list \<times> recovery_result \<times> resume_failure option" where
  "Resume_session rv tid ref origin st =
     (case ref of
        None \<Rightarrow> ([], recovery_failed origin, Some ResumeSessionUnavailable)
      | Some ref \<Rightarrow>
          (case Attempt rv tid origin ref st of
             (launched, result, err) \<Rightarrow>
               if err \<noteq> None \<or> rr_Succeeded result then (launched, result, err)
               else (launched, result, Some ResumeSessionUnavailable)))"

datatype recover_error =
    RecoverCancelled | RecoverInvalid string | RecoverNotResumable | ErrRecoveryAlreadyInFlight
  | RecoverRefused domain_error | RecoverNotPersisted

text \<open>
  The process of an impl task that timed out is not resumed: its changes could be applied twice. A resume
  that reports an error counts as a recovery that failed.
\<close>

definition resume_or_skip :: "recoverer \<Rightarrow> task_id \<Rightarrow> session_ref option \<Rightarrow> recovery_origin \<Rightarrow> resume_settings
    \<Rightarrow> resume_launch_params list \<times> recovery_result" where
  "resume_or_skip rv tid ref origin st =
     (if ref \<noteq> None \<and> \<not> (rs_Subcommand st = SubcommandImpl \<and> origin = RecoveryOriginTimeout)
      then (case Resume_session rv tid ref origin st of
              (launched, result, Some _) \<Rightarrow> (launched, recovery_failed origin)
            | (launched, result, None) \<Rightarrow> (launched, result))
      else ([], recovery_failed origin))"

text \<open>
  \<open>ended\<close> is the first look at the context, \<open>recovering\<close> the recovery registry; while the process runs other
  threads change the world (\<open>others\<close>). \<open>saved\<close> is the answer of the use case that saves partial output.
\<close>

definition RecoverViaResume_Execute :: "recoverer \<Rightarrow> bool \<Rightarrow> ownership_registry \<Rightarrow> task_io \<Rightarrow> task_io \<Rightarrow> (task_world \<Rightarrow> task_world) \<Rightarrow> bool
    \<Rightarrow> go_time \<Rightarrow> recover_input \<Rightarrow> task_world
    \<Rightarrow> task_world \<times> resume_launch_params list \<times> effect list \<times> (recover_error + recovery_output)" where
  "RecoverViaResume_Execute rv ended recovering io1 io2 others saved completedAt inp w =
     (let tid = ri_TaskID inp
      in if ended then (w, [], [], Inl RecoverCancelled)
         else if tid_string tid = '''' then (w, [], [], Inl (RecoverInvalid ''recovery: task id is required''))
         else if ri_Origin inp \<noteq> RecoveryOriginTimeout \<and> ri_Origin inp \<noteq> RecoveryOriginOrphan
         then (w, [], [], Inl (RecoverInvalid ''recovery: invalid origin''))
         else if (case ri_SessionRef inp of None \<Rightarrow> False | Some ref \<Rightarrow> sr_ephemeral ref) then (w, [], [], Inl RecoverNotResumable)
         else if snd (Acquire_recovery tid recovering) = None then (w, [], [], Inl ErrRecoveryAlreadyInFlight)
         else
     (case RecoverViaResume_begin io1 tid (ri_SessionRef inp) (ri_OccurredAt inp) w of
        (w, Inl e) \<Rightarrow> (w, [], [], Inl (RecoverRefused e))
      | (w, Inr (origin, st)) \<Rightarrow>
     (case resume_or_skip rv tid (ri_SessionRef inp) origin st of
        (launched, result) \<Rightarrow>
     (case RecoverViaResume_finish io2 tid origin result saved completedAt (others w) of
        (w, None) \<Rightarrow> (w, launched, [], Inl RecoverNotPersisted)
      | (w, Some out) \<Rightarrow>
          (case take_total tid w of
             (w, ms) \<Rightarrow>
               (w, launched, [RecordMetrics (estimated_metrics tid (ro_FinalState out) completedAt ms), ReleaseSlot tid], Inr out))))))"

section \<open>The components that a closed task leaves\<close>

text \<open>
  The daemon as the effects see it. A slot is released by the slot releaser of theory \<open>Admission\<close>, which
  also promotes waiting tasks; \<open>cfg\<close> are the limits, \<open>ctxs\<close> the answers of the context in each round of the
  releaser, \<open>start\<close> the answers of the lifecycle starter, \<open>fs\<close> the faults of the lock directory and \<open>now\<close>
  the clock. Effects that act on processes or start threads change none of these components.
\<close>

record daemon =
  dm_sched :: sched
  dm_watcher :: watcher
  dm_locks :: lock_dir
  dm_pending :: pending_set
  dm_metrics :: "metrics_input list"

fun exec_effect :: "sched_config \<Rightarrow> (nat \<Rightarrow> nat \<Rightarrow> domain_error option) \<Rightarrow> (nat \<Rightarrow> launch_payload \<Rightarrow> bool) \<Rightarrow> (string \<Rightarrow> string option) \<Rightarrow> go_time \<Rightarrow> effect \<Rightarrow> daemon
    \<Rightarrow> daemon outcome" where
  "exec_effect cfg ctxs start fs now (Pend op) d = Done (d\<lparr>dm_pending := pending_step op (dm_pending d)\<rparr>)"
| "exec_effect cfg ctxs start fs now (ReleaseLock tid) d =
     Done (d\<lparr>dm_locks := fst (ReleasePathLock_Execute (path_lock_file_store fs) tid (dm_locks d))\<rparr>)"
| "exec_effect cfg ctxs start fs now (RecordMetrics m) d = Done (d\<lparr>dm_metrics := m # dm_metrics d\<rparr>)"
| "exec_effect cfg ctxs start fs now (ReleaseSlot tid) d =
     and_then (ReleaseAndAdvance cfg ctxs start tid now 0 (dm_sched d)) (\<lambda>(s, _). Done (d\<lparr>dm_sched := s\<rparr>))"
| "exec_effect cfg ctxs start fs now (DisarmTimer tid) d = Done (d\<lparr>dm_watcher := Disarm tid (dm_watcher d)\<rparr>)"
| "exec_effect cfg ctxs start fs now _ d = Done d"

fun exec_effects :: "sched_config \<Rightarrow> (nat \<Rightarrow> nat \<Rightarrow> domain_error option) \<Rightarrow> (nat \<Rightarrow> launch_payload \<Rightarrow> bool) \<Rightarrow> (string \<Rightarrow> string option) \<Rightarrow> go_time \<Rightarrow> effect list \<Rightarrow> daemon
    \<Rightarrow> daemon outcome" where
  "exec_effects cfg ctxs start fs now [] d = Done d"
| "exec_effects cfg ctxs start fs now (e # es) d = and_then (exec_effect cfg ctxs start fs now e d) (exec_effects cfg ctxs start fs now es)"

section \<open>A released slot\<close>

lemma reg_Add_other: "x \<noteq> tid \<Longrightarrow> tid \<in> fst ` set (reg_Add x sub r) \<longleftrightarrow> tid \<in> fst ` set r"
  unfolding reg_Add_def by (induction r) auto

lemma reg_Remove_self [simp]: "tid \<notin> fst ` set (reg_Remove tid r)"
  by (auto simp: reg_Remove_def AList.delete_eq)

lemma reg_Remove_subset: "fst ` set (reg_Remove x r) \<subseteq> fst ` set r"
  by (auto simp: reg_Remove_def AList.delete_eq)

lemma renumbered_ids [simp]: "payload_id ` set (renumbered i q) = payload_id ` set q"
  by (metis renumbered_simps(2) set_map)

text \<open>One round: the task has lost its slot and does not get it back, because it does not wait.\<close>

definition slot_gone :: "task_id \<Rightarrow> sched \<Rightarrow> bool" where
  "slot_gone tid s \<longleftrightarrow> tid \<notin> fst ` set (sc_registry s)"

definition not_waiting :: "task_id \<Rightarrow> sched \<Rightarrow> bool" where
  "not_waiting tid s \<longleftrightarrow> list_all queued_payload (sc_queue s) \<and> tid \<notin> set (map payload_id (sc_queue s))"

lemma Advance_frees:
  assumes "not_waiting tid s"
  shows "\<exists>s' r. Advance cfg ctx tid now s = Done (s', r) \<and> (slot_gone tid s \<longrightarrow> slot_gone tid s') \<and> not_waiting tid s'
    \<and> (case r of Inr (Some p) \<Rightarrow> promoted cfg tid s s' p | _ \<Rightarrow> True)"
proof -
  obtain s' r where a: "Advance cfg ctx tid now s = Done (s', r)"
    and r: "case r of Inr (Some p) \<Rightarrow> promoted cfg tid s s' p | _ \<Rightarrow> kept tid s s'"
    using Advance_spec assms unfolding not_waiting_def by blast
  have "(slot_gone tid s \<longrightarrow> slot_gone tid s') \<and> not_waiting tid s'"
  proof (cases "\<exists>p. r = Inr (Some p)")
    case True
    with r obtain p t ps where q: "sc_queue s = p # ps" "pl_Task p = Some t" "sc_queue s' = renumbered 0 ps"
      "sc_registry s' = reg_Add (id t) (subcommand t) (reg_Remove tid (sc_registry s))"
      by (auto simp: promoted_def)
    from q(1,2) assms have "id t \<noteq> tid" by (auto simp: not_waiting_def payload_id_def)
    then have "slot_gone tid s'" unfolding slot_gone_def q(4) by (simp add: reg_Add_other)
    moreover have "not_waiting tid s'" using assms q(1,3) by (simp add: not_waiting_def)
    ultimately show ?thesis by blast
  next
    case False
    with r have k: "kept tid s s'" by (auto split: sum.splits option.splits)
    then have "not_waiting tid s'" using assms unfolding kept_def not_waiting_def by (metis renumbered_simps(1,2))
    moreover from k have "fst ` set (sc_registry s') \<subseteq> fst ` set (sc_registry s)"
      unfolding kept_def
      by (elim conjE disjE exE) (simp_all add: reg_Remove_subset subset_trans [OF reg_Remove_subset reg_Remove_subset])
    then have "slot_gone tid s \<longrightarrow> slot_gone tid s'" unfolding slot_gone_def by blast
    ultimately show ?thesis by blast
  qed
  with a r show ?thesis by (auto split: sum.splits option.splits)
qed

lemma CommitStart_frees: "slot_gone tid (CommitStart p s) = slot_gone tid s" "not_waiting tid (CommitStart p s) = not_waiting tid s"
  by (simp_all add: CommitStart_def slot_gone_def not_waiting_def split: option.split)

lemma Compensate_frees:
  assumes "promoted cfg tid s s' p" and "not_waiting tid s" and "not_waiting tid s'"
  shows "\<exists>s''. Advance_CompensateRejectedStart p now s' = Done s'' \<and> (slot_gone tid s' \<longrightarrow> slot_gone tid s'')"
proof -
  from assms(1,2) obtain t where t: "pl_Task p = Some t" "queued_payload p"
    by (auto simp: promoted_def not_waiting_def queued_payload_def)
  then have "Advance_CompensateRejectedStart p now s' =
    (if id t \<in> set (sc_promotions s')
     then Done \<lparr>sc_queue = renumbered 0 (p # sc_queue s'), sc_registry = reg_Remove (id t) (sc_registry s'),
                sc_launching = launching_Unregister (id t) (sc_launching s'), sc_promotions = removeAll (id t) (sc_promotions s')\<rparr>
     else Done s')"
    using assms(3) by (intro Advance_Compensate_spec) (simp_all add: not_waiting_def)
  then show ?thesis using reg_Remove_subset [of "id t" "sc_registry s'"] by (auto simp: slot_gone_def)
qed

text \<open>The releaser ends, and a slot that is free stays free, whatever the context and the starter answer.\<close>

lemma ReleaseAndAdvance_frees:
  assumes "not_waiting tid s"
  shows "\<exists>s' started. ReleaseAndAdvance cfg ctxs start tid now k s = Done (s', started) \<and> (slot_gone tid s \<longrightarrow> slot_gone tid s')"
  using assms
proof (induction "length (sc_queue s)" arbitrary: s k rule: less_induct)
  case less
  from Advance_frees [OF less.prems, of cfg "ctxs k" now] obtain s' r where a: "Advance cfg (ctxs k) tid now s = Done (s', r)"
    and gone: "slot_gone tid s \<longrightarrow> slot_gone tid s'" "not_waiting tid s'"
    and r: "case r of Inr (Some p) \<Rightarrow> promoted cfg tid s s' p | _ \<Rightarrow> True" by blast
  show ?case
  proof (cases "\<exists>p. r = Inr (Some p)")
    case False
    with a gone show ?thesis by (cases r) (auto simp: ReleaseAndAdvance.simps split: option.splits)
  next
    case True
    then obtain p where p: "r = Inr (Some p)" by blast
    with r have prom: "promoted cfg tid s s' p" by simp
    show ?thesis
    proof (cases "start k p")
      case False
      with Compensate_frees [OF prom less.prems gone(2), of now] gone(1) a p show ?thesis by (auto simp: ReleaseAndAdvance.simps)
    next
      case True
      from less.hyps [of "CommitStart p s'" "Suc k"] promoted_queue [OF prom] gone(2) obtain s'' started where
        "ReleaseAndAdvance cfg ctxs start tid now (Suc k) (CommitStart p s') = Done (s'', started)"
        "slot_gone tid s' \<longrightarrow> slot_gone tid s''"
        by (auto simp: CommitStart_frees)
      with a p True gone(1) show ?thesis by (subst ReleaseAndAdvance.simps) auto
    qed
  qed
qed

text \<open>The slot is given up between the second and the third look at the context.\<close>

lemma reg_Remove_idem [simp]: "reg_Remove tid (reg_Remove tid r) = reg_Remove tid r"
  by (simp add: reg_Remove_def AList.delete_eq)

lemma Advance_removes:
  "ctx 0 = None \<Longrightarrow> ctx 1 = None
     \<Longrightarrow> Advance cfg ctx tid now s = Advance cfg ctx tid now (s\<lparr>sc_registry := reg_Remove tid (sc_registry s)\<rparr>)"
  by (simp add: Advance_def)

lemma ReleaseAndAdvance_releases:
  assumes "not_waiting tid s"
  shows "\<exists>s' started. ReleaseAndAdvance cfg ctxs start tid now 0 s = Done (s', started)
     \<and> (ctxs 0 0 = None \<and> ctxs 0 1 = None \<longrightarrow> slot_gone tid s')"
proof (cases "ctxs 0 0 = None \<and> ctxs 0 1 = None")
  case True
  let ?s = "s\<lparr>sc_registry := reg_Remove tid (sc_registry s)\<rparr>"
  have "ReleaseAndAdvance cfg ctxs start tid now 0 s = ReleaseAndAdvance cfg ctxs start tid now 0 ?s"
    by (subst (1 2) ReleaseAndAdvance.simps) (simp only: Advance_removes [of "ctxs 0" cfg tid now s] True)
  moreover have "not_waiting tid ?s" "slot_gone tid ?s" using assms by (simp_all add: not_waiting_def slot_gone_def)
  ultimately show ?thesis using ReleaseAndAdvance_frees [of tid ?s cfg ctxs start now 0] by auto
next
  case False
  then show ?thesis using ReleaseAndAdvance_frees [OF assms, of cfg ctxs start now 0] by blast
qed

section \<open>What a closed task leaves behind\<close>

text \<open>Effects that touch neither slots, nor timers, nor lock files.\<close>

fun bookkeeping :: "effect \<Rightarrow> bool" where
  "bookkeeping (Pend _) = True"
| "bookkeeping (RecordMetrics _) = True"
| "bookkeeping _ = False"

lemma exec_append:
  "exec_effects cfg ctxs start fs now (xs @ ys) d = and_then (exec_effects cfg ctxs start fs now xs d) (exec_effects cfg ctxs start fs now ys)"
proof (induction xs arbitrary: d)
  case (Cons e es)
  then show ?case by (cases "exec_effect cfg ctxs start fs now e d") simp_all
qed simp

lemma exec_bookkeeping:
  assumes "list_all bookkeeping es"
  shows "\<exists>d'. exec_effects cfg ctxs start fs now es d = Done d' \<and> dm_sched d' = dm_sched d \<and> dm_watcher d' = dm_watcher d \<and> dm_locks d' = dm_locks d"
  using assms
proof (induction es arbitrary: d)
  case (Cons e es)
  then obtain d1 where "exec_effect cfg ctxs start fs now e d = Done d1" "dm_sched d1 = dm_sched d" "dm_watcher d1 = dm_watcher d"
    "dm_locks d1 = dm_locks d" by (cases e) auto
  with Cons show ?case by simp metis
qed simp

lemma Disarm_gone [simp]: "wt_timers (Disarm tid w) tid = None"
  by (simp add: Disarm_def split: option.split)

lemma lock_released:
  assumes "fs (lock_file_name tid) = None"
  shows "dir_holdings (fst (ReleasePathLock_Execute (path_lock_file_store fs) tid dir)) tid = None"
  using assms dir_holdings_delete [of tid dir]
  by (simp add: ReleasePathLock_Execute_def path_lock_file_store_def PathLockFileStore_Delete_def) (simp add: dir_holdings_def)

text \<open>
  What the releases of a closing call leave of a task: its slot is gone unless the context had ended before the
  releaser gave it up; its timer is gone if the call disarms it and otherwise as before; the lock file of a task
  that owns paths is gone unless its deletion failed, which the code only logs.
\<close>

definition released :: "(nat \<Rightarrow> nat \<Rightarrow> domain_error option) \<Rightarrow> (string \<Rightarrow> string option) \<Rightarrow> bool \<Rightarrow> bool \<Rightarrow> task_id
    \<Rightarrow> daemon \<Rightarrow> daemon \<Rightarrow> bool" where
  "released ctxs fs armed impl tid d d' \<longleftrightarrow>
     (ctxs 0 0 = None \<and> ctxs 0 1 = None \<longrightarrow> slot_gone tid (dm_sched d'))
     \<and> wt_timers (dm_watcher d') tid = (if armed then None else wt_timers (dm_watcher d) tid)
     \<and> (impl \<and> fs (lock_file_name tid) = None \<longrightarrow> dir_holdings (dm_locks d') tid = None)"

lemma exec_release:
  assumes "not_waiting tid (dm_sched d)" and "list_all bookkeeping es"
  shows "\<exists>d'. exec_effects cfg ctxs start fs now
      (es @ (if armed then [DisarmTimer tid] else []) @ (if impl then [ReleaseLock tid] else []) @ [ReleaseSlot tid]) d = Done d'
    \<and> released ctxs fs armed impl tid d d'"
proof -
  obtain d1 where d1: "exec_effects cfg ctxs start fs now es d = Done d1" "dm_sched d1 = dm_sched d" "dm_watcher d1 = dm_watcher d"
    using exec_bookkeeping [OF assms(2)] by blast
  obtain s' started where "ReleaseAndAdvance cfg ctxs start tid now 0 (dm_sched d) = Done (s', started)"
    "ctxs 0 0 = None \<and> ctxs 0 1 = None \<longrightarrow> slot_gone tid s'"
    using ReleaseAndAdvance_releases [OF assms(1)] by blast
  with d1 lock_released [of fs tid] show ?thesis
    by (cases armed; cases impl) (simp_all add: exec_append released_def)
qed

lemma killed_metrics_bookkeeping: "list_all bookkeeping (killed_metrics tid ms evs)"
  by (induction evs) (auto split: event.split)

text \<open>
  The calls that bring a stored task to its end; \<open>armed\<close> tells whether the call disarms the timer of the task,
  which a failed launch does not do: the timer is armed only after a launch that succeeded.
\<close>

inductive closes :: "bool \<Rightarrow> task_id \<Rightarrow> task_world \<Rightarrow> task_world \<Rightarrow> effect list \<Rightarrow> bool" where
  finalized: "FinalizeTask_Execute io1 io2 message inp w = (w', script, res, err) \<Longrightarrow> closes True (fi_TaskID inp) w w' script"
| killed: "ConfirmTaskKilled_Execute io tid rawExitCode estimated at w = (w', script, res, err) \<Longrightarrow> closes True tid w w' script"
| failed: "FailTaskLaunch_Execute io inp w = (w', script, res, err) \<Longrightarrow> closes False (id (fl_Task inp)) w w' script"

text \<open>A closing call either leaves the stored task as it was, or the result names the subcommand it stored.\<close>

definition stored_as :: "task_id \<Rightarrow> subcommand \<Rightarrow> task_world \<Rightarrow> bool" where
  "stored_as tid sub w \<longleftrightarrow> (\<exists>n. disks w tid = Some n \<and> sn_Subcommand n = sub)"

lemma writeTerminalState_stored:
  assumes "writeTerminalState io tid code t n evs at w = (w', out)"
  shows "disks w' tid = disks w tid \<or> out = Persisted \<and> stored_as tid (subcommand t) w'"
proof -
  have "stored_as tid (subcommand t) (append_events io tid evs w2)" if "WithTask n t at = Inr n'" "save_task io tid n' w1 = (w2, None)" for n' w1 w2
    using that save_task_view(2) [OF that(2)] by (simp add: stored_as_def views WithTask_Inr)
  with assms write_exit_code_view(1) save_task_view(2) show ?thesis
    by (auto simp: writeTerminalState_def split: handler_splits)
qed

lemma persistedFinalizeResult_sel:
  assumes "persistedFinalizeResult tid st t evs at e w = (w', r)"
  shows "disks w' = disks w \<and> fr_RecordExited r \<and> fr_Subcommand r = subcommand t"
  using assms by (auto simp: persistedFinalizeResult_def Let_def views exited_result_def split: prod.splits if_splits)

lemma exited_result_more: "fr_RecordExited (exited_result t evs e)" "fr_Subcommand (exited_result t evs e) = subcommand t"
  by (simp_all add: exited_result_def)

lemma finalize_retry_stored:
  assumes "finalize_retry io inp t evs fail w = (w', r, err)"
  shows "fr_RecordExited r \<and> (disks w' (fi_TaskID inp) = disks w (fi_TaskID inp) \<or> stored_as (fi_TaskID inp) (fr_Subcommand r) w')"
  using assms
  by (auto simp: finalize_retry_def Let_def exited_result_more stored_as_def split: handler_splits write_outcome.splits
      dest!: writeTerminalState_stored persistedFinalizeResult_sel)

lemma FinalizeTask_stored:
  assumes "FinalizeTask_executeLocked io1 io2 inp present w = (w', r, err)"
  shows "disks w' (fi_TaskID inp) = disks w (fi_TaskID inp) \<or> fr_RecordExited r \<and> stored_as (fi_TaskID inp) (fr_Subcommand r) w'"
  using assms
  by (auto simp: FinalizeTask_executeLocked_def Let_def exited_result_more stored_as_def split: handler_splits write_outcome.splits
      dest!: writeTerminalState_stored persistedFinalizeResult_sel finalize_retry_stored)

lemma ConfirmTaskKilled_stored:
  assumes "ConfirmTaskKilled_ExecuteLocked io tid raw estimated at w = (w', r, err)"
  shows "disks w' tid = disks w tid \<or> kr_Confirmed r \<and> stored_as tid (kr_Subcommand r) w'"
proof -
  have "stored_as tid (subcommand t) (append_events io tid evs (w2\<lparr>tw_stalled := m\<rparr>))"
    if "WithTask n t at = Inr n'" "save_task io tid n' w1 = (w2, None)" for n t n' w1 w2 evs m
    using that save_task_view(2) [OF that(2)] by (simp add: stored_as_def views WithTask_Inr)
  with assms write_exit_code_view(1) save_task_view(2) show ?thesis
    by (auto simp: ConfirmTaskKilled_ExecuteLocked_def Let_def views no_kill_def split: handler_splits)
qed

lemma persist_launch_failure_stored:
  assumes "persist_launch_failure io inp loaded t evs w = (w', r)"
  shows "disks w' (id (fl_Task inp)) = disks w (id (fl_Task inp)) \<or> stored_as (id (fl_Task inp)) (subcommand t) w'"
proof -
  let ?tid = "id (fl_Task inp)"
  have sub: "sn_Subcommand n' = sn_Subcommand n" if "set_failure_code c n = Inr n'" for c n n'
    using that by (auto simp: set_failure_code_def Let_def split: if_splits option.splits)
  have "stored_as ?tid (subcommand t) (append_events io ?tid evs w2)"
    if "WithTask n t at = Inr n1" "set_failure_code c n1 = Inr n2" "save_task io ?tid n2 w1 = (w2, None)" for n n1 n2 at c w1 w2
    using that save_task_view(2) [OF that(3)] sub by (simp add: stored_as_def views WithTask_Inr)
  with assms write_exit_code_view(1) save_task_view(2) show ?thesis
    by (auto simp: persist_launch_failure_def split: handler_splits)
qed

lemma FailTaskLaunch_stored:
  assumes "FailTaskLaunch_ExecuteLocked io inp w = (w', (closed, impl), err)"
  shows "disks w' (id (fl_Task inp)) = disks w (id (fl_Task inp))
     \<or> closed \<and> (\<exists>sub. stored_as (id (fl_Task inp)) sub w' \<and> impl = (sub = SubcommandImpl))"
  using assms
  by (auto simp: FailTaskLaunch_ExecuteLocked_def split: handler_splits if_splits dest!: persist_launch_failure_stored)

lemma closes_script:
  assumes "closes armed tid w w' script" and "disks w' tid \<noteq> disks w tid"
  shows "\<exists>es sub. list_all bookkeeping es \<and> stored_as tid sub w'
     \<and> script = es @ (if armed then [DisarmTimer tid] else []) @ (if sub = SubcommandImpl then [ReleaseLock tid] else []) @ [ReleaseSlot tid]"
  using assms
proof cases
  case (finalized io1 io2 message inp res err)
  then obtain present where m: "message = Inr present" using assms(2) by (cases message) (auto simp: FinalizeTask_Execute_def)
  let ?x = "FinalizeTask_executeLocked io1 io2 inp present w"
  have w': "?x = (w', res, err)" "script = (if fr_RecordExited res then ReleaseAfterFinalization res tid else [])"
    using finalized m by (auto simp: FinalizeTask_Execute_def split: prod.splits)
  from FinalizeTask_stored [OF w'(1)] assms(2) finalized have "fr_RecordExited res" "stored_as tid (fr_Subcommand res) w'" by auto
  then show ?thesis
    using w'(2) finalized
    by (intro exI [of _ "case fr_Metrics res of None \<Rightarrow> [] | Some m \<Rightarrow> [RecordMetrics m]"] exI [of _ "fr_Subcommand res"])
      (auto simp: ReleaseAfterFinalization_def split: option.split)
next
  case (killed io rawExitCode estimated at res err)
  then have w': "ConfirmTaskKilled_ExecuteLocked io tid rawExitCode estimated at w = (w', res, err)"
    "script = (if kr_Confirmed res then ReleaseAfterConfirmation res tid else [])"
    by (auto simp: ConfirmTaskKilled_Execute_def split: prod.splits)
  from ConfirmTaskKilled_stored [OF w'(1)] assms(2) have "kr_Confirmed res" "stored_as tid (kr_Subcommand res) w'" by auto
  then show ?thesis
    using w'(2) killed killed_metrics_bookkeeping
    by (intro exI [of _ "(if kr_Confirmed res \<and> \<not> kr_TerminalPersisted res then [register_effect tid (PendingSendConfirmOnly, None)] else [])
          @ (if kr_TerminalPersisted res then killed_metrics tid (kr_StalledTotalMs res) (kr_Events res) else [])"] exI [of _ "kr_Subcommand res"])
      (auto simp: ReleaseAfterConfirmation_def register_effect_def)
next
  case (failed io inp res err)
  obtain closed impl where r: "res = (closed, impl)" by fastforce
  with failed have w': "FailTaskLaunch_ExecuteLocked io inp w = (w', (closed, impl), err)"
    "script = (if closed then ReleaseAfterFailure tid impl else [])"
    by (auto simp: FailTaskLaunch_Execute_def split: prod.splits)
  from FailTaskLaunch_stored [OF w'(1)] assms(2) failed obtain sub where "closed" "stored_as tid sub w'" "impl = (sub = SubcommandImpl)" by auto
  then show ?thesis using w'(2) failed by (intro exI [of _ "[]"] exI [of _ sub]) (auto simp: ReleaseAfterFailure_def)
qed

text \<open>
  C10: what a closed task leaves behind. Whenever a finalization, a confirmed kill or a failed launch stores the
  terminal state of a task that does not wait in the queue, the releases that follow run to their end, whatever
  the context, the lock directory and the starter answer and whatever tasks they promote. Afterwards, if no other
  thread touched these components meanwhile, the task
  holds no execution slot, provided the context had not ended at the first two looks of the releaser; a
  finalization or a kill leaves no armed timer for it, while a failed launch leaves the timer component as it
  was; and a task that owns paths has no lock file, provided its deletion did not fail.
\<close>

theorem closed_task_holds_nothing:
  assumes "closes armed tid w w' script" and "\<not> frozen w tid" and "frozen w' tid"
    and "not_waiting tid (dm_sched d)"
  shows "\<exists>d' n. exec_effects cfg ctxs start fs now script d = Done d' \<and> disks w' tid = Some n
     \<and> (ctxs 0 0 = None \<and> ctxs 0 1 = None \<longrightarrow> tid \<notin> fst ` set (sc_registry (dm_sched d')))
     \<and> wt_timers (dm_watcher d') tid = (if armed then None else wt_timers (dm_watcher d) tid)
     \<and> (sn_Subcommand n = SubcommandImpl \<and> fs (lock_file_name tid) = None \<longrightarrow> dir_holdings (dm_locks d') tid = None)"
proof -
  from assms(2,3) have "disks w' tid \<noteq> disks w tid" by (auto simp: frozen_def)
  from closes_script [OF assms(1) this] obtain es sub where s: "list_all bookkeeping es" "stored_as tid sub w'"
    "script = es @ (if armed then [DisarmTimer tid] else []) @ (if sub = SubcommandImpl then [ReleaseLock tid] else []) @ [ReleaseSlot tid]"
    by blast
  from exec_release [OF assms(4) s(1), of cfg ctxs start fs now armed "sub = SubcommandImpl"] s(3)
  obtain d' where "exec_effects cfg ctxs start fs now script d = Done d'" "released ctxs fs armed (sub = SubcommandImpl) tid d d'" by metis
  with s(2) show ?thesis unfolding stored_as_def released_def slot_gone_def by blast
qed

definition sample_daemon :: daemon where
  "sample_daemon = \<lparr>dm_sched = \<lparr>sc_queue = [], sc_registry = [(sample_id, SubcommandImpl)], sc_launching = [], sc_promotions = []\<rparr>,
     dm_watcher = Arm sample_id 100 50 1 10 NewTimeoutWatcher, dm_locks = [], dm_pending = empty_pending, dm_metrics = []\<rparr>"

theorem closed_task_holds_nothing_witness:
  "\<exists>w' script res err d'. FinalizeTask_Execute ok_io ok_io (Inr True) (sample_finalize 0) (sample_world sample_running) = (w', script, res, err)
     \<and> exec_effects sample_config (\<lambda>k i. if k = 0 \<and> i < 2 then None else Some ErrInvalidStateTransition) (\<lambda>_ _. True) (\<lambda>_. None) 30 script sample_daemon = Done d'
     \<and> sample_id \<notin> fst ` set (sc_registry (dm_sched d')) \<and> wt_timers (dm_watcher d') sample_id = None"
proof -
  obtain w' script res err where x: "FinalizeTask_Execute ok_io ok_io (Inr True) (sample_finalize 0) (sample_world sample_running) = (w', script, res, err)"
    by (rule prod_cases4)
  have tid: "fi_TaskID (sample_finalize 0) = sample_id" by code_simp
  have "closes True sample_id (sample_world sample_running) w' script" using closes.finalized [OF x] tid by simp
  moreover have "\<not> frozen (sample_world sample_running) sample_id"
  proof -
    have "(case disks (sample_world sample_running) sample_id of None \<Rightarrow> True | Some n \<Rightarrow> \<not> terminal (sn_State n))" by code_simp
    then show ?thesis by (auto simp: frozen_def)
  qed
  moreover have "frozen w' sample_id"
  proof -
    have "(case disks (fst (FinalizeTask_Execute ok_io ok_io (Inr True) (sample_finalize 0) (sample_world sample_running))) sample_id of
        None \<Rightarrow> False | Some n \<Rightarrow> terminal (sn_State n))" by code_simp
    then show ?thesis by (auto simp: x frozen_def split: option.splits)
  qed
  moreover have "not_waiting sample_id (dm_sched sample_daemon)" by (simp add: not_waiting_def sample_daemon_def)
  ultimately show ?thesis
    using closed_task_holds_nothing [of True sample_id "sample_world sample_running" w' script sample_daemon sample_config
        "\<lambda>k i. if k = 0 \<and> i < 2 then None else Some ErrInvalidStateTransition" "\<lambda>_ _. True" "\<lambda>_. None" 30] x
    by auto
qed

section \<open>What a recovery does\<close>

lemma begin_origin:
  assumes "RecoverViaResume_begin io tid ref at w = (w', Inr (origin, st))"
  shows "\<exists>n. load_task io tid w = Inr n \<and> rs_Subcommand st = sn_Subcommand n \<and> (sn_State n = StateTimeout \<longrightarrow> origin = RecoveryOriginTimeout)"
proof -
  obtain n t t' evs where n: "load_task io tid w = Inr n" "restore_task n = Inr t" "BeginRecovery ref at t = (t', Inr evs)"
    "origin = attempted_origin evs" "st = newResumeSettings n"
    using assms by (auto simp: RecoverViaResume_begin_def split: handler_splits)
  moreover have "state t = sn_State n" using restore_task_sel(2) [OF n(2)] .
  ultimately show ?thesis by (auto simp: newResumeSettings_def BeginRecovery_Inr)
qed

lemma finish_terminal:
  assumes "RecoverViaResume_finish io tid origin result saved at w = (w', Some out)"
  shows "\<exists>n. disks w' tid = Some n \<and> sn_State n = ro_FinalState out \<and> terminal (sn_State n)"
proof -
  obtain n t t' evs b n' where s: "finish_op result b at t = (t', Inr evs)" "WithTask n t' at = Inr n'"
    "finish_commit io tid result n' evs at w = (w', True)" "ro_FinalState out = state t'"
    using assms by (auto simp: RecoverViaResume_finish_def Let_def split: handler_splits bool.splits)
  from s(3) obtain w1 where w1: "save_task io tid n' w = (w1, None)" "disks w' = disks w1"
    by (auto simp: finish_commit_def views split: prod.splits option.splits)
  have "terminal (state t')"
    using s(1) by (auto simp: finish_op_def go_simps split: if_splits)
  then show ?thesis using save_task_view(2) [OF w1(1)] w1(2) s(2,4) by (simp add: WithTask_Inr)
qed

lemma resume_launches: "length (fst (Resume_session rv tid ref origin st)) \<le> 1"
  by (simp add: Resume_session_def Attempt_def Let_def split: option.split sum.split bool.split prod.split)

text \<open>
  A recovery launches at most one process, and none for an impl task that timed out, whose changes could
  otherwise be applied twice. It releases the slot of the task exactly when it has stored the terminal
  state that it reports, so a recovery that fails to store leaves the slot with the task.
\<close>

theorem recovery_resumes_once:
  assumes "RecoverViaResume_Execute rv ended recovering io1 io2 others saved at inp w = (w', launched, script, result)"
    and "load_task io1 (ri_TaskID inp) w = Inr n"
  shows "length launched \<le> 1 \<and> (sn_Subcommand n = SubcommandImpl \<and> sn_State n = StateTimeout \<longrightarrow> launched = [])
     \<and> (if ReleaseSlot (ri_TaskID inp) \<in> set script
        then \<exists>out m. result = Inr out \<and> disks w' (ri_TaskID inp) = Some m \<and> sn_State m = ro_FinalState out \<and> terminal (sn_State m)
        else script = [] \<and> \<not> is_ok result)"
proof -
  let ?tid = "ri_TaskID inp"
  have started: ?thesis
    if b: "RecoverViaResume_begin io1 ?tid (ri_SessionRef inp) (ri_OccurredAt inp) w = (w1, Inr (origin, st))"
      and s: "resume_or_skip rv ?tid (ri_SessionRef inp) origin st = (launched, res)"
      and f: "(case RecoverViaResume_finish io2 ?tid origin res saved at (others w1) of
          (w, None) \<Rightarrow> w' = w \<and> script = [] \<and> result = Inl RecoverNotPersisted
        | (w, Some out) \<Rightarrow> w' = fst (take_total ?tid w) \<and> result = Inr out
            \<and> script = [RecordMetrics (estimated_metrics ?tid (ro_FinalState out) at (snd (take_total ?tid w))), ReleaseSlot ?tid])"
    for w1 origin st res
  proof -
    obtain w2 fin where x: "RecoverViaResume_finish io2 ?tid origin res saved at (others w1) = (w2, fin)" by fastforce
    have "disks (fst (take_total ?tid w)) = disks w" for w by (simp add: take_total_def views split: prod.split)
    with f x finish_terminal have "if ReleaseSlot ?tid \<in> set script
        then \<exists>out m. result = Inr out \<and> disks w' ?tid = Some m \<and> sn_State m = ro_FinalState out \<and> terminal (sn_State m)
        else script = [] \<and> \<not> is_ok result"
      by (cases fin) fastforce+
    moreover have "length launched \<le> 1"
      using s resume_launches [of rv ?tid "ri_SessionRef inp" origin st]
      by (auto simp: resume_or_skip_def split: if_splits prod.splits option.splits)
    moreover have "launched = []" if "sn_Subcommand n = SubcommandImpl \<and> sn_State n = StateTimeout"
      using s begin_origin [OF b] assms(2) that by (auto simp: resume_or_skip_def split: if_splits)
    ultimately show ?thesis by blast
  qed
  obtain w1 r where b: "RecoverViaResume_begin io1 ?tid (ri_SessionRef inp) (ri_OccurredAt inp) w = (w1, r)" by fastforce
  show ?thesis
  proof (cases r)
    case (Inl e)
    with assms(1) b show ?thesis by (auto simp: RecoverViaResume_Execute_def Let_def split: if_splits)
  next
    case (Inr p)
    obtain origin st where p: "p = (origin, st)" by fastforce
    obtain ls res where s: "resume_or_skip rv ?tid (ri_SessionRef inp) origin st = (ls, res)" by fastforce
    obtain w2 fin where x: "RecoverViaResume_finish io2 ?tid origin res saved at (others w1) = (w2, fin)" by fastforce
    consider "launched = []" "script = []" "\<not> is_ok result"
      | "launched = ls" "(case fin of None \<Rightarrow> w' = w2 \<and> script = [] \<and> result = Inl RecoverNotPersisted
        | Some out \<Rightarrow> w' = fst (take_total ?tid w2) \<and> result = Inr out
            \<and> script = [RecordMetrics (estimated_metrics ?tid (ro_FinalState out) at (snd (take_total ?tid w2))), ReleaseSlot ?tid])"
      using assms(1) b Inr p s x
      by (auto simp: RecoverViaResume_Execute_def Let_def split: if_splits option.splits prod.splits)
    then show ?thesis
    proof cases
      case 2
      then show ?thesis using started [of w1 origin st res] b Inr p s x by (auto split: option.splits)
    qed auto
  qed
qed

definition timed_world :: task_world where
  "timed_world = fst (EnforceTaskTimeout_executeLocked ok_io sample_id 20 (sample_world sample_running))"

definition sample_recoverer :: recoverer where
  "sample_recoverer = \<lparr>rv_codexBinaryPath = ''/codex'', rv_taskPlacementRoot = ''/t'', rv_prompt = ''go on'', rv_launch = (\<lambda>_. None),
     rv_message = Inr True\<rparr>"

definition sample_recover :: recover_input where
  "sample_recover = \<lparr>ri_TaskID = sample_id, ri_SessionRef = Some \<lparr>sr_sessionID = ''s'', sr_capturedAt = 15, sr_ephemeral = False\<rparr>,
     ri_Origin = RecoveryOriginTimeout, ri_OccurredAt = 30\<rparr>"

theorem recovery_resumes_once_witness:
  "\<exists>w' launched script result. RecoverViaResume_Execute sample_recoverer False NewRecoveryOwnershipRegistry ok_io ok_io (\<lambda>w. w) False 40
        sample_recover timed_world = (w', launched, script, result)
     \<and> launched = []
     \<and> (\<exists>out m. result = Inr out \<and> disks w' sample_id = Some m \<and> terminal (sn_State m))"
proof -
  let ?x = "RecoverViaResume_Execute sample_recoverer False NewRecoveryOwnershipRegistry ok_io ok_io (\<lambda>w. w) False 40 sample_recover timed_world"
  obtain w' launched script result where x: "?x = (w', launched, script, result)" by (rule prod_cases4)
  have "last (fst (snd (snd ?x))) = ReleaseSlot sample_id \<and> fst (snd (snd ?x)) \<noteq> []" by code_simp
  then have l: "ReleaseSlot sample_id \<in> set script" unfolding x by (metis fst_conv last_in_set snd_conv)
  have "(case load_task ok_io sample_id timed_world of Inl _ \<Rightarrow> False | Inr n \<Rightarrow> sn_Subcommand n = SubcommandImpl \<and> sn_State n = StateTimeout)"
    by code_simp
  then obtain n where n: "load_task ok_io sample_id timed_world = Inr n" "sn_Subcommand n = SubcommandImpl" "sn_State n = StateTimeout"
    by (auto split: sum.splits)
  have tid: "ri_TaskID sample_recover = sample_id" by (simp add: sample_recover_def)
  from recovery_resumes_once [OF x, of n] n l show ?thesis unfolding tid x by auto
qed

end
