(* ===== verification/Lifecycle.thy ===== *)
theory Lifecycle
  imports Task_Closing
begin

text \<open>
  The thread that owns a task from its start to its end: \<open>TaskLifecycleOrchestrator\<close> of
  \<^verbatim>\<open>internal/execution/usecase/lifecycle.go\<close>. It is a function from what its calls answer (the record
  \<open>life_env\<close>) to the steps it makes and the world it leaves. Between its own locked sections other threads
  run: before section \<open>k\<close> they change the world by \<open>le_others k\<close>, and the calls of section \<open>k\<close> meet the
  faults \<open>le_io k\<close>. Log records are left out; the monitoring of the output is one step.
\<close>

section \<open>Steps and answers\<close>

datatype life_step =
    Do effect
  | CloseLock
  | MakeWorktree
  | LaunchChild string string bool
  | WaitChild
  | KillChild int
  | FoundDead
  | MonitorOutput
  | ArmTimer task_id go_time int lifecycle_generation
  | Unregister task_id
  | DropOwnership task_id lifecycle_generation

record life_input =
  li_Payload :: launch_payload
  li_TaskDirPath :: string
  li_Now :: go_time

datatype launch_failure = PTYAllocationFailed | ChildProcessLaunchFailed | LaunchContractWriteFailed | LaunchOther

text \<open>While the finalization is prepared, the thread waits for its answer, for changes of the task and for the end of the context.\<close>

datatype select_event = CtxDone | Changed "domain_error + task_state"

record life_env =
  le_ctx :: "nat \<Rightarrow> bool"
  le_others :: "nat \<Rightarrow> task_world \<Rightarrow> task_world"
  le_io :: "nat \<Rightarrow> task_io"
  le_now :: "nat \<Rightarrow> go_time"
  le_lock :: "domain_error option"
  le_worktrees :: bool
  le_planned :: "domain_error + string"
  le_created :: "domain_error + string"
  le_launch :: "launch_failure + (int \<times> go_time) option"
  le_live :: "domain_error + bool"
  le_dead :: "domain_error + bool"
  le_wait :: "int \<times> bool"
  le_claim :: "send_claim \<times> claim_outcome"
  le_current :: "lifecycle_generation option"
  le_signals :: termination_result
  le_confirm :: "bool \<times> domain_error option"
  le_events :: "select_event list"
  le_prepared :: "domain_error + bool"
  le_stdout :: bool

section \<open>Failures before the task runs\<close>

text \<open>The end of a cancelled task, or what is registered when its state does not allow it.\<close>

definition confirm_killed :: "life_env \<Rightarrow> nat \<Rightarrow> task_id \<Rightarrow> int \<Rightarrow> bool \<Rightarrow> go_time \<Rightarrow> effect list \<Rightarrow> task_world \<Rightarrow> task_world \<times> effect list" where
  "confirm_killed E k tid raw estimated at otherwise w =
     (case ConfirmTaskKilled_ExecuteLocked (le_io E k) tid raw estimated at w of
        (w, res, _) \<Rightarrow> (w, if kr_Confirmed res then ReleaseAfterConfirmation res tid else otherwise))"

definition fail_input :: "task \<Rightarrow> life_input \<Rightarrow> string option \<Rightarrow> string \<Rightarrow> fail_launch_input" where
  "fail_input t inp wd code =
     \<lparr>fl_Task = t, fl_ResolvedTimeout = pl_ResolvedTimeout (li_Payload inp), fl_Model = pl_Model (li_Payload inp),
      fl_ReasoningEffort = pl_ReasoningEffort (li_Payload inp), fl_SandboxMode = pl_SandboxMode (li_Payload inp),
      fl_WorkingDir = wd, fl_FailureCode = code, fl_OccurredAt = li_Now inp\<rparr>"

definition fail_locked :: "life_env \<Rightarrow> nat \<Rightarrow> task \<Rightarrow> life_input \<Rightarrow> string option \<Rightarrow> string \<Rightarrow> task_world \<Rightarrow> task_world \<times> effect list" where
  "fail_locked E k t inp wd code w =
     (case FailTaskLaunch_ExecuteLocked (le_io E k) (fail_input t inp wd code) w of
        (w, (closed, impl), _) \<Rightarrow> (w, if closed then ReleaseAfterFailure (id t) impl else []))"

text \<open>
  \<open>t\<close> is the task object of the thread; \<open>before\<close> tells that nothing of it may be stored yet. The load of the
  section meets the faults \<open>le_io k\<close>, the use case called in it \<open>le_io (k + 1)\<close>.
\<close>

definition fail :: "life_env \<Rightarrow> nat \<Rightarrow> task \<Rightarrow> life_input \<Rightarrow> string option \<Rightarrow> int \<Rightarrow> bool \<Rightarrow> string \<Rightarrow> bool \<Rightarrow> task_world
    \<Rightarrow> task_world \<times> effect list" where
  "fail E k t inp wd raw estimated code before w =
     (let w = le_others E k w; tid = id t
      in if le_ctx E (100 + k) then (w, [])
         else case load_task (le_io E k) tid w of
           Inl e \<Rightarrow> if before \<and> e = ErrTaskNotFound then fail_locked E (k + 1) t inp wd code w else (w, [])
         | Inr n \<Rightarrow>
             (case restore_task n of
                Inl _ \<Rightarrow> (w, [])
              | Inr stored \<Rightarrow>
                  if state stored = StateCancelling
                  then confirm_killed E (k + 1) tid raw estimated (le_now E k) [register_effect tid (PendingSendConfirmOnly, None)] w
                  else fail_locked E (k + 1) t inp wd code w))"

text \<open>The last component tells that the thread must stop before the launch.\<close>

definition confirmUnlaunchedCancellation :: "life_env \<Rightarrow> nat \<Rightarrow> task_id \<Rightarrow> task_world \<Rightarrow> task_world \<times> effect list \<times> bool" where
  "confirmUnlaunchedCancellation E k tid w =
     (let w = le_others E k w
      in case load_task (le_io E k) tid w of
           Inl _ \<Rightarrow> (w, [], True)
         | Inr n \<Rightarrow>
             (case restore_task n of
                Inl _ \<Rightarrow> (w, [], True)
              | Inr t \<Rightarrow>
                  if state t \<noteq> StateCancelling then (w, [], False)
                  else (case confirm_killed E (k + 1) tid 130 True (le_now E k) [register_effect tid (PendingSendConfirmOnly, None)] w of
                          (w, es) \<Rightarrow> (w, es, True))))"

text \<open>Whether the task is cancelling, and otherwise the error of the record.\<close>

definition recordProcessAtLaunchBoundary :: "life_env \<Rightarrow> nat \<Rightarrow> task_id \<Rightarrow> int \<Rightarrow> go_time \<Rightarrow> go_time \<Rightarrow> task_world
    \<Rightarrow> task_world \<times> bool \<times> domain_error option" where
  "recordProcessAtLaunchBoundary E k tid pid startedAt now w =
     (let w = le_others E k w
      in case load_task (le_io E k) tid w of
           Inl e \<Rightarrow> (w, False, Some e)
         | Inr n \<Rightarrow>
             (case restore_task n of
                Inl e \<Rightarrow> (w, False, Some e)
              | Inr t \<Rightarrow>
                  if state t = StateCancelling then (w, True, None)
                  else (case RecordTaskProcess_Execute (le_io E (k + 1)) tid pid startedAt now w of (w, err) \<Rightarrow> (w, False, err))))"

section \<open>The end of the process\<close>

datatype awaited = Interrupted | Prepared "domain_error + bool" | SawCancelling

fun await_prepared :: "(nat \<Rightarrow> bool) \<Rightarrow> nat \<Rightarrow> domain_error + bool \<Rightarrow> select_event list \<Rightarrow> awaited" where
  "await_prepared ctx k prepared [] = Prepared prepared"
| "await_prepared ctx k prepared (CtxDone # es) = Interrupted"
| "await_prepared ctx k prepared (Changed r # es) =
     (if ctx k \<or> ctx (k + 1) then Interrupted
      else if r = Inr StateCancelling then SawCancelling
      else await_prepared ctx (k + 2) prepared es)"

fun prepare_failed :: "awaited \<Rightarrow> bool" where
  "prepare_failed (Prepared (Inl _)) = True"
| "prepare_failed _ = False"

text \<open>A preparation that was abandoned leaves the zero value of the prepared task.\<close>

definition prepared_input :: "awaited \<Rightarrow> finalize_input \<Rightarrow> finalize_input \<times> bool" where
  "prepared_input a inp =
     (case a of
        Prepared (Inr present) \<Rightarrow> (inp, present)
      | _ \<Rightarrow> (\<lparr>fi_TaskID = TaskID '''', fi_RawExitCode = 0, fi_Estimated = False, fi_AdoptedAfterRestart = False, fi_OccurredAt = 0\<rparr>, False))"

definition finalize_prepared :: "life_env \<Rightarrow> nat \<Rightarrow> task_id \<Rightarrow> finalize_input \<times> bool \<Rightarrow> task_world \<Rightarrow> task_world \<times> effect list" where
  "finalize_prepared E k tid prepared w =
     (case FinalizeTask_executeLocked (le_io E k) (le_io E (k + 1)) (fst prepared) (snd prepared) w of
        (w, res, _) \<Rightarrow> (w, if le_ctx E 66 then [] else if fr_RecordExited res then ReleaseAfterFinalization res tid else []))"

text \<open>The locked section; \<open>skipped\<close> tells that nothing was prepared because the task was cancelling.\<close>

definition confirm_terminal_locked :: "life_env \<Rightarrow> task_id \<Rightarrow> int \<Rightarrow> bool \<Rightarrow> bool \<Rightarrow> bool \<Rightarrow> awaited \<Rightarrow> task_world \<Rightarrow> task_world \<times> effect list" where
  "confirm_terminal_locked E tid raw estimated registerSent skipped a w =
     (let w = le_others E 21 w
      in if le_ctx E 60 then (w, [])
         else case load_task (le_io E 21) tid w of
           Inl _ \<Rightarrow> (w, [])
         | Inr n \<Rightarrow>
             if le_ctx E 61 then (w, [])
             else if sn_State n = StateCancelling then
               (if le_ctx E 62 \<or> le_ctx E 63 then (w, [])
                else case confirm_killed E 22 tid raw estimated (le_now E 21)
                       (if registerSent then [register_effect tid (PendingSendSent, None)] else []) w of
                       (w, es) \<Rightarrow> (w, if le_ctx E 64 then [] else es))
             else if skipped then (w, [])
             else if prepare_failed a \<or> le_ctx E 65 then (w, [])
             else finalize_prepared E 23 tid
                    (prepared_input a \<lparr>fi_TaskID = tid, fi_RawExitCode = raw, fi_Estimated = estimated, fi_AdoptedAfterRestart = False,
                       fi_OccurredAt = le_now E 20\<rparr>) w)"

definition confirmTerminalWithPending :: "life_env \<Rightarrow> task_id \<Rightarrow> bool \<Rightarrow> task_world \<Rightarrow> task_world \<times> effect list" where
  "confirmTerminalWithPending E tid registerSent w =
     (let estimated = snd (le_wait E);
          raw = (if estimated then 1 else fst (le_wait E));
          w = le_others E 20 w
      in if le_ctx E 50 \<or> le_ctx E 51 \<or> le_ctx E 52 then (w, [])
         else
           let skipped = (case load_task (le_io E 20) tid w of Inr n \<Rightarrow> sn_State n = StateCancelling | Inl _ \<Rightarrow> False);
               a = (if skipped then SawCancelling
                    else if le_ctx E 54 then Interrupted
                    else await_prepared (le_ctx E) 200 (le_prepared E) (le_events E))
           in if le_ctx E 53 \<or> a = Interrupted \<or> le_ctx E 55 then (w, [])
              else confirm_terminal_locked E tid raw estimated registerSent skipped a w)"

section \<open>A task that is cancelled while it starts\<close>

text \<open>The process is awaited in any case; a process that was found dead is then recorded as the end of the task.\<close>

definition starting_ended :: "life_env \<Rightarrow> task_id \<Rightarrow> bool \<Rightarrow> bool \<Rightarrow> task_world \<Rightarrow> task_world \<times> life_step list" where
  "starting_ended E tid dead registerSent w =
     (if \<not> dead then (w, [WaitChild])
      else case confirmTerminalWithPending E tid registerSent w of (w, es) \<Rightarrow> (w, WaitChild # map Do es))"

definition settle_starting :: "send_claim \<Rightarrow> signal_error option \<Rightarrow> pending_op" where
  "settle_starting c err =
     (case err of
        None \<Rightarrow> OpCompleteSend c
      | Some e \<Rightarrow> if authority_invalid e then OpInvalidateSend c else OpReleaseSend c)"

definition starting_authority :: "task_id \<Rightarrow> int \<Rightarrow> go_time \<Rightarrow> lifecycle_generation \<Rightarrow> process_signal_authority" where
  "starting_authority tid pid startedAt g = \<lparr>sa_TaskID = tid, sa_PID = pid, sa_ProcessStartedAt = startedAt,
     sa_ExpectedState = StateCancelling, sa_LifecycleGeneration = Some g\<rparr>"

definition starting_confirmed :: "life_env \<Rightarrow> task_id \<Rightarrow> task_world \<Rightarrow> task_world \<times> life_step list" where
  "starting_confirmed E tid w = apsnd (Cons (Do (AwaitDeath tid))) (starting_ended E tid (fst (le_confirm E)) True w)"

definition starting_terminated :: "life_env \<Rightarrow> task_id \<Rightarrow> process_signal_authority \<Rightarrow> send_claim \<Rightarrow> task_world \<Rightarrow> task_world \<times> life_step list" where
  "starting_terminated E tid a c w =
     apsnd (\<lambda>steps. Do (Terminate tid a) # Do (Pend (settle_starting c (tr_TerminateErr (le_signals E)))) # steps)
       (starting_ended E tid (tr_Dead (le_signals E)) (tr_TerminateErr (le_signals E) = None) w)"

definition handleStartingCancellation :: "life_env \<Rightarrow> task_id \<Rightarrow> int \<Rightarrow> go_time \<Rightarrow> bool \<Rightarrow> lifecycle_generation \<Rightarrow> task_world
    \<Rightarrow> task_world \<times> life_step list" where
  "handleStartingCancellation E tid pid startedAt send g w =
     (if \<not> send then starting_confirmed E tid w
      else
        let a = starting_authority tid pid startedAt g; claiming = Do (Pend (OpClaimInitialSend tid a))
        in (case le_claim E of
              (c, ClaimAcquired) \<Rightarrow>
                (case prepareStartingClaim (le_io E 14) tid (Some (pid, startedAt)) (le_current E = Some g) (le_others E 14 w) of
                   (w, False) \<Rightarrow> (w, [claiming, Do (Pend (OpRemoveClaim c)), WaitChild])
                 | (w, True) \<Rightarrow> apsnd (Cons claiming) (starting_terminated E tid a c w))
            | (_, ClaimSent) \<Rightarrow> apsnd (Cons claiming) (starting_confirmed E tid w)
            | _ \<Rightarrow> (w, [claiming, WaitChild])))"

section \<open>A process that could not be recorded\<close>

definition recordFailureStateIsCancelling :: "life_env \<Rightarrow> task_id \<Rightarrow> task_world \<Rightarrow> bool" where
  "recordFailureStateIsCancelling E tid w =
     (\<not> le_ctx E 41 \<and> (case load_task (le_io E 15) tid w of Inl _ \<Rightarrow> False | Inr n \<Rightarrow> sn_State n = StateCancelling))"

definition waited_code :: "life_env \<Rightarrow> int" where
  "waited_code E = (if snd (le_wait E) then 1 else fst (le_wait E))"

definition handleRecordProcessFailure :: "life_env \<Rightarrow> task \<Rightarrow> life_input \<Rightarrow> string \<Rightarrow> int \<Rightarrow> task_world \<Rightarrow> task_world \<times> life_step list" where
  "handleRecordProcessFailure E t inp wd pid w =
     apsnd (Cons (KillChild pid))
       (if le_ctx E 40 then (w, [])
        else
          let dead = (le_dead E = Inr True); found = (if dead then [FoundDead] else []);
              w = (if dead then le_others E 15 w else w)
          in if dead \<and> recordFailureStateIsCancelling E (id t) w
             then (if le_ctx E 42 then (w, [FoundDead, WaitChild])
                   else case fail E 16 t inp (Some wd) (waited_code E) (snd (le_wait E)) '''' False w of
                          (w, es) \<Rightarrow> (w, FoundDead # WaitChild # map Do es))
             else if le_ctx E 43 then (w, found)
             else if dead
             then (case fail E 16 t inp (Some wd) 1 False '''' False w of
                     (w, es) \<Rightarrow> (w, FoundDead # map Do es @ (if le_ctx E 44 then [] else [WaitChild])))
             else if le_ctx E 45 then (w, [WaitChild])
             else (case fail E 16 t inp (Some wd) (waited_code E) (snd (le_wait E)) '''' False w of
                     (w, es) \<Rightarrow> (w, WaitChild # map Do es)))"

section \<open>The run of a task\<close>

definition monitorAndFinalize :: "life_env \<Rightarrow> task_id \<Rightarrow> task_world \<Rightarrow> task_world \<times> life_step list" where
  "monitorAndFinalize E tid w =
     (case confirmTerminalWithPending E tid True w of
        (w, es) \<Rightarrow> (w, (if le_stdout E then [MonitorOutput] else []) @ WaitChild # map Do es))"

text \<open>\<open>replaceSourceWorkingDir\<close>: every occurrence that ends the text or is followed by a slash is a path below the source directory.\<close>

fun replace_from :: "string \<Rightarrow> string \<Rightarrow> nat \<Rightarrow> string \<Rightarrow> string" where
  "replace_from source planned 0 [] = []"
| "replace_from source planned (Suc k) [] = []"
| "replace_from source planned (Suc k) (c # rest) = replace_from source planned k rest"
| "replace_from source planned 0 (c # rest) =
     (if has_prefix (c # rest) source
      then (let after = drop (length source) (c # rest)
            in (if after = [] \<or> hd after = CHR ''/'' then planned else source))
           @ replace_from source planned (length source - 1) rest
      else c # replace_from source planned 0 rest)"

definition replaceSourceWorkingDir :: "string \<Rightarrow> string \<Rightarrow> string \<Rightarrow> string" where
  "replaceSourceWorkingDir prompt source planned = (if source = '''' then prompt else replace_from source planned 0 prompt)"

definition useWorktree :: "life_input \<Rightarrow> task \<Rightarrow> bool" where
  "useWorktree inp t \<longleftrightarrow> subcommand t = SubcommandImpl \<and> pl_WorktreeMode (li_Payload inp) = WorktreeModeAuto"

text \<open>The working directory and the prompt of the launch; \<open>None\<close> when no worktree can be planned.\<close>

definition plan_launch :: "life_env \<Rightarrow> life_input \<Rightarrow> task \<Rightarrow> (string option \<times> string) option" where
  "plan_launch E inp t =
     (if \<not> useWorktree inp t then Some (pl_WorkingDir (li_Payload inp), pl_PromptText (li_Payload inp))
      else if \<not> le_worktrees E then None
      else case le_planned E of
        Inl _ \<Rightarrow> None
      | Inr dir \<Rightarrow> Some (Some dir, replaceSourceWorkingDir (pl_PromptText (li_Payload inp)) (pl_SourceWorkingDir (li_Payload inp)) dir))"

fun launch_code :: "launch_failure + (int \<times> go_time) option \<Rightarrow> string" where
  "launch_code (Inl PTYAllocationFailed) = ''PTY_ALLOCATION_FAILED''"
| "launch_code (Inl ChildProcessLaunchFailed) = ''CHILD_PROCESS_LAUNCH_FAILED''"
| "launch_code (Inl LaunchContractWriteFailed) = ''CONTRACT_WRITE_FAILED''"
| "launch_code _ = ''''"

text \<open>The product of two durations wraps at 64 bits.\<close>

definition deadline_of :: "go_time \<Rightarrow> timeout \<Rightarrow> go_time" where
  "deadline_of startedAt to = startedAt + signed_take_bit 63 (resolvedSeconds to * go_second)"

definition run_launched :: "life_env \<Rightarrow> lifecycle_generation \<Rightarrow> life_input \<Rightarrow> task \<Rightarrow> string \<Rightarrow> int \<Rightarrow> go_time \<Rightarrow> task_world
    \<Rightarrow> task_world \<times> life_step list" where
  "run_launched E g inp t wd pid startedAt w =
     (let tid = id t; to = pl_ResolvedTimeout (li_Payload inp)
      in case recordProcessAtLaunchBoundary E 10 tid pid startedAt (li_Now inp) w of
           (w, cancelling, err) \<Rightarrow>
             if le_ctx E 6 then (w, [])
             else if cancelling then handleStartingCancellation E tid pid startedAt True g w
             else if err \<noteq> None then handleRecordProcessFailure E t inp wd pid w
             else
     (case ConfirmTaskRunning_Execute (le_io E 12) (le_live E) tid (li_Now inp) (le_others E 12 w) of
        (w, confirmed) \<Rightarrow>
          if le_ctx E 7 then (w, [])
          else
     (case confirmed of
        Inl _ \<Rightarrow> (case confirmTerminalWithPending E tid True w of (w, es) \<Rightarrow> (w, WaitChild # map Do es))
      | Inr (dead, st) \<Rightarrow>
          if dead then (w, [Do (register_effect tid (PendingSendConfirmOnly, None)), WaitChild])
          else if st = StateCancelling then handleStartingCancellation E tid pid startedAt False g w
          else apsnd (Cons (ArmTimer tid (deadline_of startedAt to) (resolvedSeconds to) g))
                 (if le_ctx E 8 then (w, []) else monitorAndFinalize E tid w))))"

definition run_prepared :: "life_env \<Rightarrow> lifecycle_generation \<Rightarrow> life_input \<Rightarrow> task \<Rightarrow> string \<Rightarrow> string \<Rightarrow> task_world
    \<Rightarrow> task_world \<times> life_step list" where
  "run_prepared E g inp t wd prompt w =
     (case confirmUnlaunchedCancellation E 6 (id t) w of
        (w, es, True) \<Rightarrow> (w, map Do es @ [CloseLock])
      | (w, es, False) \<Rightarrow>
          if le_ctx E 4 then (w, [CloseLock])
          else
     (case le_launch E of
        Inr (Some (pid, startedAt)) \<Rightarrow>
          apsnd (Cons (LaunchChild wd prompt True)) (if le_ctx E 5 then (w, []) else run_launched E g inp t wd pid startedAt w)
      | _ \<Rightarrow>
          if le_ctx E 5 then (w, [LaunchChild wd prompt False])
          else (case fail E 8 t inp (Some wd) 130 True (launch_code (le_launch E)) False w of
                  (w, es) \<Rightarrow> (w, LaunchChild wd prompt False # CloseLock # map Do es))))"

text \<open>The worktree of an impl task is created once the task is stored as starting.\<close>

definition run_worktree :: "life_env \<Rightarrow> lifecycle_generation \<Rightarrow> life_input \<Rightarrow> task \<Rightarrow> string \<Rightarrow> string \<Rightarrow> task_world
    \<Rightarrow> task_world \<times> life_step list" where
  "run_worktree E g inp t wd prompt w =
     (if \<not> useWorktree inp t then run_prepared E g inp t wd prompt w
      else if le_ctx E 3 then (w, [CloseLock])
      else case le_created E of
        Inl _ \<Rightarrow> (case fail E 4 t inp (Some wd) 130 True ''WORKTREE_CREATE_FAILED'' False w of (w, es) \<Rightarrow> (w, MakeWorktree # CloseLock # map Do es))
      | Inr dir \<Rightarrow>
          if dir \<noteq> wd
          then (case fail E 4 t inp (Some wd) 130 True '''' False w of (w, es) \<Rightarrow> (w, MakeWorktree # CloseLock # map Do es))
          else apsnd (Cons MakeWorktree) (run_prepared E g inp t wd prompt w))"

definition run_starting :: "life_env \<Rightarrow> lifecycle_generation \<Rightarrow> life_input \<Rightarrow> task \<Rightarrow> string \<Rightarrow> string \<Rightarrow> task_world
    \<Rightarrow> task_world \<times> life_step list" where
  "run_starting E g inp t wd prompt w =
     (case RecordTaskStarting_Execute (le_io E 2) t (pl_ResolvedTimeout (li_Payload inp)) (pl_Model (li_Payload inp))
             (pl_ReasoningEffort (li_Payload inp)) (pl_SandboxMode (li_Payload inp)) wd ExecutionRouteDaemon prompt (li_Now inp)
             (le_others E 2 w) of
        (w, t', Some e) \<Rightarrow> (case fail E 0 t' inp (Some wd) 130 True ''CONTRACT_WRITE_FAILED'' True w of (w, es) \<Rightarrow> (w, CloseLock # map Do es))
      | (w, t', None) \<Rightarrow> run_worktree E g inp t' wd prompt w)"

definition run_owned :: "life_env \<Rightarrow> lifecycle_generation \<Rightarrow> life_input \<Rightarrow> task \<Rightarrow> task_world \<Rightarrow> task_world \<times> life_step list" where
  "run_owned E g inp t w =
     (let failed = (\<lambda>wd code. fail E 0 t inp wd 130 True code True w)
      in if le_ctx E 0 then (w, [])
         else if le_lock E \<noteq> None
         then (case failed (pl_WorkingDir (li_Payload inp)) ''LIVENESS_LOCK_IO_ERROR'' of (w, es) \<Rightarrow> (w, map Do es))
         else if le_ctx E 1 then (w, [CloseLock])
         else case plan_launch E inp t of
           None \<Rightarrow> (case failed None '''' of (w, es) \<Rightarrow> (w, CloseLock # map Do es))
         | Some (wd, prompt) \<Rightarrow>
             if le_ctx E 2 then (w, [CloseLock])
             else case wd of
               None \<Rightarrow> (case failed None '''' of (w, es) \<Rightarrow> (w, CloseLock # map Do es))
             | Some wd \<Rightarrow> run_starting E g inp t wd prompt w)"

text \<open>The thread gives the task back when it ends: first the launching entry, then the ownership.\<close>

definition Run :: "life_env \<Rightarrow> ownership_registry \<Rightarrow> life_input \<Rightarrow> task_world \<Rightarrow> task_world \<times> life_step list" where
  "Run E owners inp w =
     (case pl_Task (li_Payload inp) of
        None \<Rightarrow> (w, [])
      | Some t \<Rightarrow>
          (case snd (Acquire_lifecycle (id t) owners) of
             None \<Rightarrow> (w, [])
           | Some g \<Rightarrow> (case run_owned E g inp t w of
                          (w, steps) \<Rightarrow> (w, steps @ [Unregister (id t), DropOwnership (id t) g]))))"

section \<open>What a run does with the process and with what the task holds\<close>

fun gives_back :: "effect \<Rightarrow> bool" where
  "gives_back (ReleaseSlot _) = True"
| "gives_back (ReleaseLock _) = True"
| "gives_back _ = False"

text \<open>Nothing is given back while the process runs (\<open>alive\<close>): it was awaited or found dead before.\<close>

fun guarded :: "bool \<Rightarrow> life_step list \<Rightarrow> bool" where
  "guarded alive [] = True"
| "guarded alive (LaunchChild _ _ ok # ss) = guarded ok ss"
| "guarded alive (WaitChild # ss) = guarded False ss"
| "guarded alive (FoundDead # ss) = guarded False ss"
| "guarded alive (Do e # ss) = (\<not> (alive \<and> gives_back e) \<and> guarded alive ss)"
| "guarded alive (_ # ss) = guarded alive ss"

fun is_launched :: "life_step \<Rightarrow> bool" where
  "is_launched (LaunchChild _ _ ok) = ok"
| "is_launched _ = False"

fun frees_slot :: "effect \<Rightarrow> bool" where
  "frees_slot (ReleaseSlot _) = True"
| "frees_slot _ = False"

definition number :: "('a \<Rightarrow> bool) \<Rightarrow> 'a list \<Rightarrow> nat" where
  "number P xs = length (filter P xs)"

fun freed :: "life_step \<Rightarrow> bool" where
  "freed (Do e) = frees_slot e"
| "freed _ = False"

lemma number_simps [simp]:
  "number P [] = 0" "number P (x # xs) = (if P x then 1 else 0) + number P xs" "number P (xs @ ys) = number P xs + number P ys"
  by (simp_all add: number_def)

lemma number_Do [simp]:
  "number ((=) WaitChild) (map Do es) = 0" "number ((=) CloseLock) (map Do es) = 0" "number is_launched (map Do es) = 0"
  "number freed (map Do es) = number frees_slot es"
  by (induction es) simp_all

lemma guarded_Do [simp]: "guarded False (map Do es)" "guarded alive (map Do es @ ss) = ((alive \<longrightarrow> \<not> list_ex gives_back es) \<and> guarded alive ss)"
  by (induction es) auto


lemma frees_metrics [simp]: "number frees_slot (killed_metrics tid ms evs) = 0"
  by (induction evs) (auto split: event.split)



lemma registration_frees [simp]: "number frees_slot [register_effect tid r] = 0"
  by (simp add: register_effect_def)






text \<open>After the launch: the process is awaited once, unless the context ends, and nothing is given back before.\<close>

definition reaps :: "life_env \<Rightarrow> life_step list \<Rightarrow> bool" where
  "reaps E steps \<longleftrightarrow> guarded True steps \<and> number ((=) CloseLock) steps = 0 \<and> number is_launched steps = 0 \<and> number freed steps \<le> 1
     \<and> number ((=) WaitChild) steps \<le> 1 \<and> ((\<forall>k. \<not> le_ctx E k) \<longrightarrow> number ((=) WaitChild) steps = 1)"


lemma reaps_Do [simp]: "\<not> gives_back e \<Longrightarrow> reaps E (Do e # ss) = reaps E ss"
  by (cases e) (simp_all add: reaps_def)

lemma reaps_other [simp]:
  "reaps E (KillChild pid # ss) = reaps E ss" "reaps E (ArmTimer tid at n g # ss) = reaps E ss" "reaps E (MonitorOutput # ss) = reaps E ss"
  by (simp_all add: reaps_def)

lemma reaps_alone [simp]: "reaps E [WaitChild]"
  by (simp add: reaps_def)









text \<open>Before the launch: the lock file of the liveness check is closed, or the process inherits it.\<close>

definition runs :: "life_env \<Rightarrow> life_step list \<Rightarrow> bool" where
  "runs E steps \<longleftrightarrow> guarded False steps \<and> number freed steps \<le> 1
     \<and> number ((=) CloseLock) steps + number is_launched steps \<le> 1 \<and> number ((=) WaitChild) steps \<le> number is_launched steps
     \<and> ((\<forall>k. \<not> le_ctx E k) \<longrightarrow> number ((=) CloseLock) steps + number is_launched steps = 1
          \<and> number ((=) WaitChild) steps = number is_launched steps)"



lemma runs_worktree [simp]: "runs E (MakeWorktree # ss) = runs E ss"
  by (simp add: runs_def)






lemma unlaunched_cancelled:
  assumes "load_task (le_io E k) tid (le_others E k w) = Inr n" and "sn_State n = StateCancelling"
  shows "snd (snd (confirmUnlaunchedCancellation E k tid w))"
  using assms restore_task_sel(2) [of n]
  by (auto simp: confirmUnlaunchedCancellation_def Let_def case_prod_beta split: sum.split)

lemma started_id: "id (fst (snd (RecordTaskStarting_Execute io t to mdl effort sandbox wd route prompt now w))) = id t"
  using run_op_error_unchanged [of "OpStart to mdl now" t]
  by (auto simp: RecordTaskStarting_Execute_def Start_Inr split: option.split prod.split sum.split)

text \<open>
  C8: a cancellation that is stored before the last check of the thread prevents the launch: no process is started for the task.
\<close>

theorem cancelled_task_not_launched:
  assumes "\<And>v. \<exists>n. load_task (le_io E 6) (payload_id (li_Payload inp)) (le_others E 6 v) = Inr n \<and> sn_State n = StateCancelling"
  shows "LaunchChild wd prompt ok \<notin> set (snd (Run E owners inp w))"
proof (cases "pl_Task (li_Payload inp)")
  case (Some t)
  have tid: "payload_id (li_Payload inp) = id t" using Some by (simp add: payload_id_def)
  have prepared: "LaunchChild wd prompt ok \<notin> set (snd (run_prepared E g inp t' wd' prompt' v))" if "id t' = id t" for g t' wd' prompt' v
  proof -
    obtain w1 es stop where u: "confirmUnlaunchedCancellation E 6 (id t') v = (w1, es, stop)" by (rule prod_cases3)
    from assms [of v] that tid obtain n where "load_task (le_io E 6) (id t') (le_others E 6 v) = Inr n" "sn_State n = StateCancelling" by auto
    from unlaunched_cancelled [OF this] u have "stop" by simp
    with u show ?thesis by (auto simp: run_prepared_def)
  qed
  have worktree: "LaunchChild wd prompt ok \<notin> set (snd (run_worktree E g inp t' wd' prompt' v))" if "id t' = id t" for g t' wd' prompt' v
    using prepared [OF that] by (auto simp: run_worktree_def case_prod_beta split: sum.split)
  have "LaunchChild wd prompt ok \<notin> set (snd (run_starting E g inp t wd' prompt' v))" for g wd' prompt' v
    using worktree [OF started_id] by (auto simp: run_starting_def case_prod_beta split: option.split)
  then have "LaunchChild wd prompt ok \<notin> set (snd (run_owned E g inp t v))" for g v
    by (cases "plan_launch E inp t") (auto simp: run_owned_def Let_def case_prod_beta split: option.splits)
  then show ?thesis using Some by (auto simp: Run_def case_prod_beta split: option.split)
qed (simp add: Run_def)

section \<open>A run is a sequence of steps of the use cases\<close>

definition fair_env :: "life_env \<Rightarrow> bool" where
  "fair_env E \<longleftrightarrow> (\<forall>k v. world_run v (le_others E k v)) \<and> in_int64 (fst (le_wait E))"

lemma world_run_trans: "world_run w1 w2 \<Longrightarrow> world_run w v \<Longrightarrow> v = w1 \<Longrightarrow> world_run w w2"
  by (induction arbitrary: v rule: world_run.induct) (auto intro: world_run.step)

lemma world_run_one: "world_step w w' \<Longrightarrow> world_run w w'"
  by (rule world_run.step [OF world_run.start])

lemma moved: "fair_env E \<Longrightarrow> world_run (le_others E k v) w' \<Longrightarrow> world_run v w'"
  using world_run_trans unfolding fair_env_def by blast

lemma int64_codes: "in_int64 130" "in_int64 1" "in_int64 0"
  by (simp_all add: in_int64_def)

lemma waited_int64: "fair_env E \<Longrightarrow> in_int64 (waited_code E)"
  by (simp add: fair_env_def waited_code_def int64_codes)

lemma confirm_killed_moves: "in_int64 raw \<Longrightarrow> world_run w (fst (confirm_killed E k tid raw est at other w))"
  using world_run_one [OF world_step.killed [of raw w "le_io E k" tid est at]] by (simp add: confirm_killed_def case_prod_beta)

lemma fail_locked_moves: "world_run w (fst (fail_locked E k t inp wd code w))"
  using world_run_one [OF world_step.launch_failed [of w "le_io E k" "fail_input t inp wd code"]] by (simp add: fail_locked_def case_prod_beta)

lemma fail_moves:
  assumes "fair_env E" and "in_int64 raw"
  shows "world_run w (fst (fail E k t inp wd raw est code before w))"
proof (rule moved [OF assms(1), of k])
  show "world_run (le_others E k w) (fst (fail E k t inp wd raw est code before w))"
    using fail_locked_moves confirm_killed_moves [OF assms(2)] world_run.start
    by (simp add: fail_def Let_def split: sum.split)
qed

lemma unlaunched_moves:
  assumes "fair_env E"
  shows "world_run w (fst (confirmUnlaunchedCancellation E k tid w))"
proof (rule moved [OF assms, of k])
  show "world_run (le_others E k w) (fst (confirmUnlaunchedCancellation E k tid w))"
    using confirm_killed_moves [OF int64_codes(1)] world_run.start
    by (simp add: confirmUnlaunchedCancellation_def Let_def case_prod_beta split: sum.split)
qed

lemma record_moves:
  assumes "fair_env E"
  shows "world_run w (fst (recordProcessAtLaunchBoundary E k tid pid at now w))"
proof (rule moved [OF assms, of k])
  show "world_run (le_others E k w) (fst (recordProcessAtLaunchBoundary E k tid pid at now w))"
    using world_run_one [OF world_step.process] world_run.start
    by (simp add: recordProcessAtLaunchBoundary_def Let_def case_prod_beta split: sum.split)
qed

lemma terminal_locked_moves:
  assumes "fair_env E" and "in_int64 raw"
  shows "world_run w (fst (confirm_terminal_locked E tid raw est sent skipped a w))"
proof (rule moved [OF assms(1), of 21])
  have raw: "in_int64 (fi_RawExitCode (fst (prepared_input a inp)))" if "fi_RawExitCode inp = raw" for inp
    using that assms(2) int64_codes by (simp add: prepared_input_def split: awaited.split sum.split)
  then have "world_run v (fst (finalize_prepared E 23 tid (prepared_input a inp) v))" if "fi_RawExitCode inp = raw" for v inp
    using world_run_one [OF world_step.finalize [OF raw [OF that]]] by (simp add: finalize_prepared_def case_prod_beta)
  with confirm_killed_moves [OF assms(2)] world_run.start
  show "world_run (le_others E 21 w) (fst (confirm_terminal_locked E tid raw est sent skipped a w))"
    by (simp add: confirm_terminal_locked_def Let_def case_prod_beta split: sum.split)
qed

lemma terminal_moves:
  assumes "fair_env E"
  shows "world_run w (fst (confirmTerminalWithPending E tid sent w))"
proof (rule moved [OF assms, of 20])
  have "in_int64 (if snd (le_wait E) then 1 else fst (le_wait E))" using waited_int64 [OF assms] by (simp add: waited_code_def)
  from terminal_locked_moves [OF assms this] world_run.start
  show "world_run (le_others E 20 w) (fst (confirmTerminalWithPending E tid sent w))"
    by (simp add: confirmTerminalWithPending_def Let_def)
qed

lemma starting_moves:
  assumes "fair_env E"
  shows "world_run w (fst (starting_ended E tid dead sent w))" "world_run w (fst (starting_confirmed E tid w))"
    "world_run w (fst (starting_terminated E tid a c w))"
  using terminal_moves [OF assms] world_run.start
  by (simp_all add: starting_ended_def starting_confirmed_def starting_terminated_def case_prod_beta)

lemma then_moves: "world_run v w \<Longrightarrow> (\<And>x. world_run x (f x)) \<Longrightarrow> world_run v (f w)"
  using world_run_trans by blast

lemma handleStartingCancellation_moves:
  assumes "fair_env E"
  shows "world_run w (fst (handleStartingCancellation E tid pid at send g w))"
proof -
  let ?p = "prepareStartingClaim (le_io E 14) tid (Some (pid, at)) (le_current E = Some g) (le_others E 14 w)"
  have p: "world_run w (fst ?p)" using moved [OF assms] world_run_one [OF world_step.claim] by blast
  then have "world_run w (fst (starting_terminated E tid a c (fst ?p)))" for a c
    using then_moves [of _ _ "\<lambda>v. fst (starting_terminated E tid a c v)"] starting_moves(3) [OF assms] by blast
  with p show ?thesis
    using starting_moves [OF assms] world_run.start
    by (simp add: handleStartingCancellation_def Let_def case_prod_beta split: bool.split claim_outcome.split)
qed

lemma handleRecordProcessFailure_moves:
  assumes "fair_env E"
  shows "world_run w (fst (handleRecordProcessFailure E t inp wd pid w))"
proof -
  note f = fail_moves [OF assms waited_int64 [OF assms]] fail_moves [OF assms int64_codes(2)]
  have o: "world_run w (le_others E 15 w)" using assms by (simp add: fair_env_def)
  have "world_run w (fst (fail E k t inp wd (waited_code E) est code before (le_others E 15 w)))"
    "world_run w (fst (fail E k t inp wd 1 est code before (le_others E 15 w)))" for k t inp wd est code before
    using f by (blast intro: moved [OF assms])+
  with o f show ?thesis
    using world_run.start by (simp add: handleRecordProcessFailure_def Let_def case_prod_beta)
qed

lemma monitor_moves: "fair_env E \<Longrightarrow> world_run w (fst (monitorAndFinalize E tid w))"
  using terminal_moves by (simp add: monitorAndFinalize_def case_prod_beta)

lemma run_launched_moves:
  assumes "fair_env E"
  shows "world_run w (fst (run_launched E g inp t wd pid at w))"
proof -
  obtain w1 cancelling err where r: "recordProcessAtLaunchBoundary E 10 (id t) pid at (li_Now inp) w = (w1, cancelling, err)" by (rule prod_cases3)
  then have w1: "world_run w w1" using record_moves [OF assms, of w 10 "id t" pid at "li_Now inp"] by simp
  obtain w2 confirmed where c: "ConfirmTaskRunning_Execute (le_io E 12) (le_live E) (id t) (li_Now inp) (le_others E 12 w1) = (w2, confirmed)" by fastforce
  then have "world_run (le_others E 12 w1) w2" using world_run_one [OF world_step.running] by (metis fst_conv)
  with assms w1 have w2: "world_run w w2" using moved world_run_trans by blast
  note after = then_moves [OF w1, of "\<lambda>v. fst (handleStartingCancellation E (id t) pid at True g v)"]
    then_moves [OF w1, of "\<lambda>v. fst (handleRecordProcessFailure E t inp wd pid v)"]
    then_moves [OF w2, of "\<lambda>v. fst (handleStartingCancellation E (id t) pid at False g v)"]
    then_moves [OF w2, of "\<lambda>v. fst (confirmTerminalWithPending E (id t) True v)"]
    then_moves [OF w2, of "\<lambda>v. fst (monitorAndFinalize E (id t) v)"]
  show ?thesis
    using after w1 w2 r c handleStartingCancellation_moves [OF assms] handleRecordProcessFailure_moves [OF assms] terminal_moves [OF assms]
      monitor_moves [OF assms]
    by (simp add: run_launched_def Let_def case_prod_beta split: sum.split)
qed

lemma run_prepared_moves:
  assumes "fair_env E"
  shows "world_run w (fst (run_prepared E g inp t wd prompt w))"
proof -
  obtain w1 es stop where u: "confirmUnlaunchedCancellation E 6 (id t) w = (w1, es, stop)" by (rule prod_cases3)
  then have w1: "world_run w w1" using unlaunched_moves [OF assms, of w 6 "id t"] by simp
  have "world_run w (fst (run_launched E g inp t wd pid at w1))" for pid at
    using then_moves [OF w1, of "\<lambda>v. fst (run_launched E g inp t wd pid at v)"] run_launched_moves [OF assms] by blast
  moreover have "world_run w (fst (fail E 8 t inp (Some wd) 130 True code False w1))" for code
    using then_moves [OF w1, of "\<lambda>v. fst (fail E 8 t inp (Some wd) 130 True code False v)"] fail_moves [OF assms int64_codes(1)] by blast
  ultimately show ?thesis using w1 u by (cases stop) (simp_all add: run_prepared_def case_prod_beta split: sum.split option.split)
qed

lemma run_worktree_moves: "fair_env E \<Longrightarrow> world_run w (fst (run_worktree E g inp t wd prompt w))"
  using fail_moves [OF _ int64_codes(1)] run_prepared_moves world_run.start
  by (simp add: run_worktree_def case_prod_beta split: sum.split)

lemma run_starting_moves:
  assumes "fair_env E" and "disks (le_others E 2 w) (id t) = None"
  shows "world_run w (fst (run_starting E g inp t wd prompt w))"
proof -
  let ?r = "RecordTaskStarting_Execute (le_io E 2) t (pl_ResolvedTimeout (li_Payload inp)) (pl_Model (li_Payload inp))
      (pl_ReasoningEffort (li_Payload inp)) (pl_SandboxMode (li_Payload inp)) wd ExecutionRouteDaemon prompt (li_Now inp) (le_others E 2 w)"
  have "world_run w (fst ?r)" using moved [OF assms(1)] world_run_one [OF world_step.starting [OF assms(2)]] by blast
  then have "world_run w (fst (fail E 0 t' inp (Some wd) 130 True code True (fst ?r)))" "world_run w (fst (run_worktree E g inp t' wd prompt (fst ?r)))" for t' code
    using then_moves [of w "fst ?r" "\<lambda>v. fst (fail E 0 t' inp (Some wd) 130 True code True v)"] fail_moves [OF assms(1) int64_codes(1)]
      then_moves [of w "fst ?r" "\<lambda>v. fst (run_worktree E g inp t' wd prompt v)"] run_worktree_moves [OF assms(1)] by blast+
  then show ?thesis by (simp add: run_starting_def case_prod_beta split: option.split)
qed

text \<open>
  C9: the lifecycle thread refines the steps of the use cases. As long as the other threads only make such steps and nothing is
  stored of the task when it is recorded as starting, a whole run is a sequence of these steps. So everything proved of
  their interleavings holds with running lifecycle threads: in particular a task that is stored as terminal stays as it is.
\<close>

theorem lifecycle_refines_use_cases:
  assumes "fair_env E" and "disks (le_others E 2 w) (payload_id (li_Payload inp)) = None"
  shows "world_run w (fst (Run E owners inp w))
     \<and> (\<forall>tid n. disks w tid = Some n \<and> terminal (sn_State n) \<longrightarrow> disks (fst (Run E owners inp w)) tid = Some n
          \<and> codes (fst (Run E owners inp w)) tid = codes w tid)"
proof -
  have "world_run w (fst (Run E owners inp w))"
  proof (cases "pl_Task (li_Payload inp)")
    case (Some t)
    then have none: "disks (le_others E 2 w) (id t) = None" using assms(2) by (simp add: payload_id_def)
    have "world_run w (fst (run_owned E g inp t w))" for g
      using fail_moves [OF assms(1) int64_codes(1)] run_starting_moves [OF assms(1) none] world_run.start
      by (cases "plan_launch E inp t") (simp_all add: run_owned_def Let_def case_prod_beta split: option.split)
    with Some show ?thesis using world_run.start by (simp add: Run_def case_prod_beta split: option.split)
  qed (simp add: Run_def world_run.start)
  then show ?thesis using world_run_frozen by blast
qed

section \<open>A sample run\<close>

definition sample_life_input :: life_input where
  "sample_life_input = \<lparr>li_Payload = (sample_payload ''a'')\<lparr>pl_Task := Some (sample_task StateQueued), pl_PromptText := ''do it'',
     pl_WorkingDir := Some ''/w'', pl_WorktreeMode := WorktreeModeCurrent\<rparr>, li_TaskDirPath = ''/t/a'', li_Now = 8\<rparr>"

definition sample_life_env :: life_env where
  "sample_life_env = \<lparr>le_ctx = (\<lambda>_. False), le_others = (\<lambda>_ w. w), le_io = (\<lambda>_. ok_io), le_now = (\<lambda>_. 30), le_lock = None, le_worktrees = True,
     le_planned = Inr ''/w'', le_created = Inr ''/w'', le_launch = Inr (Some (4242, 7)), le_live = Inr False, le_dead = Inr True, le_wait = (0, False),
     le_claim = (first_claim, ClaimAcquired), le_current = None, le_signals = \<lparr>tr_Dead = True, tr_TerminateErr = None, tr_ConfirmErr = None\<rparr>,
     le_confirm = (True, None), le_events = [], le_prepared = Inr True, le_stdout = True\<rparr>"


definition cancelling_world :: task_world where
  "cancelling_world = fst (request_cancel_locked ok_io sample_id True
     (case load_task ok_io sample_id launched_world of Inr n \<Rightarrow> n | Inl _ \<Rightarrow> sample_snapshot StateStarting) 10 launched_world)"

definition cancelled_life_env :: life_env where
  "cancelled_life_env = sample_life_env\<lparr>le_others := (\<lambda>k w. if k = 6 then cancelling_world else w)\<rparr>"

theorem cancelled_task_not_launched_witness:
  "LaunchChild ''/w'' ''do it'' True \<notin> set (snd (Run cancelled_life_env NewLifecycleOwnershipRegistry sample_life_input reserved_world))
   \<and> number ((=) CloseLock) (snd (Run cancelled_life_env NewLifecycleOwnershipRegistry sample_life_input reserved_world)) = 1"
proof
  have "(case load_task ok_io sample_id cancelling_world of Inl _ \<Rightarrow> False | Inr n \<Rightarrow> sn_State n = StateCancelling)" by code_simp
  then obtain n where n: "load_task ok_io sample_id cancelling_world = Inr n" "sn_State n = StateCancelling" by (auto split: sum.splits)
  have "payload_id (li_Payload sample_life_input) = sample_id" by code_simp
  with n show "LaunchChild ''/w'' ''do it'' True \<notin> set (snd (Run cancelled_life_env NewLifecycleOwnershipRegistry sample_life_input reserved_world))"
    by (intro cancelled_task_not_launched) (simp add: cancelled_life_env_def sample_life_env_def)
  show "number ((=) CloseLock) (snd (Run cancelled_life_env NewLifecycleOwnershipRegistry sample_life_input reserved_world)) = 1" by code_simp
qed

theorem lifecycle_refines_use_cases_witness:
  "world_run reserved_world (fst (Run sample_life_env NewLifecycleOwnershipRegistry sample_life_input reserved_world))
   \<and> (case disks (fst (Run sample_life_env NewLifecycleOwnershipRegistry sample_life_input reserved_world)) sample_id of
        None \<Rightarrow> False | Some n \<Rightarrow> sn_State n = StateCompleted)"
proof
  have fair: "fair_env sample_life_env" by (simp add: fair_env_def sample_life_env_def world_run.start in_int64_def)
  have "disks (le_others sample_life_env 2 reserved_world) (payload_id (li_Payload sample_life_input)) = None"
    by (simp add: sample_life_env_def disks_def disk_snapshot_def reserved_world_def split: option.split)
  from lifecycle_refines_use_cases [OF fair this]
  show "world_run reserved_world (fst (Run sample_life_env NewLifecycleOwnershipRegistry sample_life_input reserved_world))" by blast
  show "case disks (fst (Run sample_life_env NewLifecycleOwnershipRegistry sample_life_input reserved_world)) sample_id of
        None \<Rightarrow> False | Some n \<Rightarrow> sn_State n = StateCompleted" by code_simp
qed

end
