(* ===== verification/Screen_Detect.thy ===== *)
theory Screen_Detect
  imports Session Terminal "HOL-Library.Sublist"
begin

text \<open>
  The classification of a supervised screen: package \<^verbatim>\<open>detect\<close> of
  \<^verbatim>\<open>src/internal/supervisor\<close>, the recommendation extractor (\<^verbatim>\<open>classifier.go\<close>) and the reader of the
  completion menu (\<^verbatim>\<open>usecase/completion_selection.go\<close>). A row of the screen is the list of its runes: the rows come
  from the virtual terminal, which holds only decoded runes, so prefixes and substrings agree with those of the
  encoded strings. Two things of Go's library stay parameters: the Unicode classes of letters and numbers (\<open>ln\<close>) and the regular
  expressions other than the two the source contains (\<open>rx\<close>); these two are written out.
\<close>

section \<open>Functions of packages strings and unicode on runes\<close>

type_synonym row = "rune list"

definition ascii :: "string \<Rightarrow> row" where
  "ascii s = map of_char s"

text \<open>\<open>unicode.IsSpace\<close> and the class \<^verbatim>\<open>\s\<close> of package \<^verbatim>\<open>regexp\<close>.\<close>

definition is_space_rune :: "rune \<Rightarrow> bool" where
  "is_space_rune r \<longleftrightarrow> 9 \<le> r \<and> r \<le> 13 \<or> r = 0x20 \<or> r = 0x85 \<or> r = 0xa0 \<or> r = 0x1680 \<or> 0x2000 \<le> r \<and> r \<le> 0x200a
     \<or> r = 0x2028 \<or> r = 0x2029 \<or> r = 0x202f \<or> r = 0x205f \<or> r = 0x3000"

definition rx_space :: "rune \<Rightarrow> bool" where
  "rx_space r \<longleftrightarrow> r = 9 \<or> r = 10 \<or> r = 12 \<or> r = 13 \<or> r = 32"

definition trim_runes :: "(rune \<Rightarrow> bool) \<Rightarrow> row \<Rightarrow> row" where
  "trim_runes P s = rev (dropWhile P (rev (dropWhile P s)))"

definition TrimSpace :: "row \<Rightarrow> row" where
  "TrimSpace s = trim_runes is_space_rune s"

definition TrimRight :: "(rune \<Rightarrow> bool) \<Rightarrow> row \<Rightarrow> row" where
  "TrimRight P s = rev (dropWhile P (rev s))"

text \<open>\<open>strings.Fields\<close>.\<close>

function Fields :: "row \<Rightarrow> row list" where
  "Fields [] = []"
| "Fields (r # rs) =
     (if is_space_rune r then Fields rs
      else (r # takeWhile (\<lambda>x. \<not> is_space_rune x) rs) # Fields (dropWhile (\<lambda>x. \<not> is_space_rune x) rs))"
  by pat_completeness auto
termination
  by (relation "measure length") (auto simp: le_imp_less_Suc length_dropWhile_le)

text \<open>\<open>rows[n:]\<close> and \<open>rows[i:j]\<close>, which panic outside the slice.\<close>

definition slice_from :: "nat \<Rightarrow> 'a list \<Rightarrow> 'a list outcome" where
  "slice_from n xs = (if n \<le> length xs then Done (drop n xs) else Panic)"

definition slice :: "nat \<Rightarrow> nat \<Rightarrow> 'a list \<Rightarrow> 'a list outcome" where
  "slice i j xs = (if i \<le> j \<and> j \<le> length xs then Done (take (j - i) (drop i xs)) else Panic)"

section \<open>Patterns\<close>

datatype line_match_mode = LinePrefix | LineExact | LineRegex | LineModeOther nat

record line_pattern =
  lp_Text :: row
  lp_Mode :: line_match_mode

record pattern_set =
  ps_IdleTop :: row
  ps_IdleBottom :: row
  ps_Prompt :: row
  ps_Working :: "row list list"
  ps_Recommendation :: "row list list"
  ps_UnsafeFooter :: "row list list"
  ps_Permission :: "line_pattern list list"
  ps_ObservedWorking :: bool
  ps_ObservedRecommendation :: bool

text \<open>The prompt marker, the border and the regular expression \<^verbatim>\<open>^\<close>marker\<^verbatim>\<open>?\s*1\. Yes(\s|$)\<close> of the dialog.\<close>

definition prompt_marker :: rune where
  "prompt_marker = 0x276f"

definition border :: rune where
  "border = 0x2500"

definition input_prompt :: row where
  "input_prompt = [prompt_marker, 0xa0]"

definition yes_pattern :: row where
  "yes_pattern = [94, prompt_marker, 63, 92, 115, 42] @ ascii ''1'' @ [92] @ ascii ''. Yes('' @ [92, 115, 124, 36, 41]"

definition at_break :: "row \<Rightarrow> bool" where
  "at_break rest = (case rest of [] \<Rightarrow> True | r # _ \<Rightarrow> rx_space r)"

definition yes_row :: "row \<Rightarrow> bool" where
  "yes_row r =
     (let rest = dropWhile rx_space (trim_prefix r [prompt_marker])
      in has_prefix rest (ascii ''1. Yes'') \<and> at_break (drop 6 rest))"

definition MatchString :: "(row \<Rightarrow> row \<Rightarrow> bool) \<Rightarrow> row \<Rightarrow> row \<Rightarrow> bool" where
  "MatchString rx expr r = (if expr = yes_pattern then yes_row r else rx expr r)"

definition DefaultPatternSet :: pattern_set where
  "DefaultPatternSet =
     \<lparr>ps_IdleTop = [border], ps_IdleBottom = [border], ps_Prompt = input_prompt, ps_Working = [], ps_Recommendation = [],
      ps_UnsafeFooter = [[ascii ''auto mode on''], [ascii ''bypass permissions on'']],
      ps_Permission =
        [[\<lparr>lp_Text = ascii ''Quick safety check: Is this a project you created or one you trust?'', lp_Mode = LinePrefix\<rparr>,
          \<lparr>lp_Text = ascii ''Enter to confirm '' @ [0xb7] @ ascii '' Esc to cancel'', lp_Mode = LineExact\<rparr>],
         [\<lparr>lp_Text = ascii ''Do you want to proceed?'', lp_Mode = LineExact\<rparr>, \<lparr>lp_Text = yes_pattern, lp_Mode = LineRegex\<rparr>]],
      ps_ObservedWorking = True, ps_ObservedRecommendation = True\<rparr>"

text \<open>
  The search that \<open>groupFound\<close> and \<open>orderedLinePatternFound\<close> share: each pattern is looked for after the row of the
  pattern before it, and the first row that matches is taken. \<open>n\<close> is \<open>previous + 1\<close>.
\<close>

fun find_in_order :: "('p \<Rightarrow> 'r \<Rightarrow> bool) \<Rightarrow> 'r list \<Rightarrow> nat \<Rightarrow> 'p list \<Rightarrow> bool" where
  "find_in_order M rows n [] = True"
| "find_in_order M rows n (p # ps) =
     (case find_index (M p) (drop n rows) of
        None \<Rightarrow> False
      | Some i \<Rightarrow> find_in_order M rows (Suc (n + i)) ps)"

definition groupFound :: "row list \<Rightarrow> row list \<Rightarrow> bool" where
  "groupFound rows g = (g \<noteq> [] \<and> find_in_order (\<lambda>p r. p \<noteq> [] \<and> contains_str r p) rows 0 g)"

definition containsAny :: "row list \<Rightarrow> row list list \<Rightarrow> bool" where
  "containsAny rows groups = list_ex (groupFound rows) groups"

definition linePatternMatches :: "(row \<Rightarrow> row \<Rightarrow> bool) \<Rightarrow> row \<Rightarrow> line_pattern \<Rightarrow> bool" where
  "linePatternMatches rx r p =
     (if lp_Text p = [] then False
      else (case lp_Mode p of
          LinePrefix \<Rightarrow> has_prefix r (lp_Text p)
        | LineExact \<Rightarrow> r = lp_Text p
        | LineRegex \<Rightarrow> MatchString rx (lp_Text p) r
        | LineModeOther _ \<Rightarrow> False))"

definition row_matches :: "(row \<Rightarrow> row \<Rightarrow> bool) \<Rightarrow> line_pattern \<Rightarrow> row \<Rightarrow> bool" where
  "row_matches rx p r = linePatternMatches rx (TrimSpace r) p"

text \<open>The first loop looks for the first pattern alone; when it fails, the second loop starts again with the whole group.\<close>

definition orderedLinePatternFound :: "(row \<Rightarrow> row \<Rightarrow> bool) \<Rightarrow> row list \<Rightarrow> line_pattern list \<Rightarrow> bool" where
  "orderedLinePatternFound rx rows grp =
     (case grp of
        [] \<Rightarrow> False
      | p # rest \<Rightarrow>
          (case find_index (row_matches rx p) rows of
             Some i \<Rightarrow> rest = [] \<or> find_in_order (row_matches rx) rows (Suc i) rest
           | None \<Rightarrow> find_in_order (row_matches rx) rows 0 grp))"

text \<open>\<open>observedWorkingLine\<close>: a sign, a blank, a word of ASCII letters, an ellipsis, and a space or the end.\<close>

definition ascii_letter :: "rune \<Rightarrow> bool" where
  "ascii_letter r \<longleftrightarrow> 65 \<le> r \<and> r \<le> 90 \<or> 97 \<le> r \<and> r \<le> 122"

definition observedWorkingLine :: "(rune \<Rightarrow> bool) \<Rightarrow> row \<Rightarrow> bool" where
  "observedWorkingLine ln r =
     (case r of
        sign # space # rest \<Rightarrow>
          \<not> ln sign \<and> \<not> rx_space sign \<and> space = 32 \<and> takeWhile ascii_letter rest \<noteq> []
          \<and> (case dropWhile ascii_letter rest of
               [] \<Rightarrow> False
             | x # after \<Rightarrow> x = 0x2026 \<and> at_break after)
      | _ \<Rightarrow> False)"

fun auxiliaryRowStart :: "row list \<Rightarrow> nat \<Rightarrow> nat option" where
  "auxiliaryRowStart rows 0 = (if has_prefix (TrimSpace (rows ! 0)) [0x23bf] then Some 0 else None)"
| "auxiliaryRowStart rows (Suc i) =
     (if has_prefix (TrimSpace (rows ! Suc i)) [0x23bf] then Some (Suc i)
      else if dropWhile is_space_rune (rows ! Suc i) = rows ! Suc i then None
      else auxiliaryRowStart rows i)"

definition allBorder :: "row \<Rightarrow> row \<Rightarrow> bool" where
  "allBorder r b = (r \<noteq> [] \<and> b \<noteq> [] \<and> list_all (\<lambda>x. x \<in> set b) r)"

definition framed :: "pattern_set \<Rightarrow> row list \<Rightarrow> nat \<Rightarrow> bool" where
  "framed p rows i \<longleftrightarrow> has_prefix (rows ! i) (ps_Prompt p) \<and> allBorder (rows ! (i - 1)) (ps_IdleTop p)
     \<and> allBorder (rows ! (i + 1)) (ps_IdleBottom p)"

definition lastInputRow :: "row list \<Rightarrow> pattern_set \<Rightarrow> nat option" where
  "lastInputRow rows p =
     (if ps_Prompt p = [] \<or> ps_IdleTop p = [] \<or> ps_IdleBottom p = [] then None
      else find (framed p rows) (rev [1..<length rows - 1]))"

definition hasIdle :: "row list \<Rightarrow> pattern_set \<Rightarrow> bool" where
  "hasIdle rows p = (lastInputRow rows p \<noteq> None)"

lemma auxiliaryRowStart_le: "auxiliaryRowStart rows i = Some j \<Longrightarrow> j \<le> i"
  by (induction rows i rule: auxiliaryRowStart.induct) (auto split: if_splits)

text \<open>The loop of \<open>hasObservedWorking\<close>; \<open>n\<close> is the number of rows above the current one, \<open>i + 1\<close>.\<close>

function working_above :: "(rune \<Rightarrow> bool) \<Rightarrow> row list \<Rightarrow> nat \<Rightarrow> bool" where
  "working_above ln rows 0 = False"
| "working_above ln rows (Suc i) =
     (if TrimSpace (rows ! i) = [] then working_above ln rows i
      else (case auxiliaryRowStart rows i of
          Some start \<Rightarrow> working_above ln rows start
        | None \<Rightarrow> observedWorkingLine ln (rows ! i)))"
  by pat_completeness auto
termination
  by (relation "measure (\<lambda>(ln, rows, n). n)") (auto dest: auxiliaryRowStart_le)

definition hasObservedWorking :: "(rune \<Rightarrow> bool) \<Rightarrow> row list \<Rightarrow> pattern_set \<Rightarrow> bool" where
  "hasObservedWorking ln rows p =
     (case lastInputRow rows p of None \<Rightarrow> False | Some input \<Rightarrow> working_above ln rows (input - 1))"

text \<open>\<open>IsInputBlank\<close>; \<open>None\<close> for the cells is the nil slice.\<close>

definition blank_cell :: "terminal_view \<Rightarrow> bool" where
  "blank_cell c \<longleftrightarrow> cv_Text c = [] \<or> cv_Text c = [32] \<or> cv_Text c = [0xa0] \<or> cv_Faint c"

definition IsInputBlank :: "pattern_set \<Rightarrow> row list \<Rightarrow> terminal_view list list option \<Rightarrow> bool" where
  "IsInputBlank p rows cells =
     (case cells of
        None \<Rightarrow> False
      | Some cs \<Rightarrow>
          if length cs \<noteq> length rows then False
          else (case lastInputRow rows p of
              None \<Rightarrow> False
            | Some i \<Rightarrow>
                length (ps_Prompt p) \<le> length (cs ! i) \<and> list_all blank_cell (drop (length (ps_Prompt p)) (cs ! i))))"

section \<open>The recommendation on the screen\<close>

definition isBorderRow :: "row \<Rightarrow> bool" where
  "isBorderRow r = (r \<noteq> [] \<and> trim_runes (\<lambda>x. x = border) r = [])"

definition bordered_prompt :: "row list \<Rightarrow> nat \<Rightarrow> bool" where
  "bordered_prompt rows i \<longleftrightarrow> has_prefix (rows ! i) input_prompt \<and> isBorderRow (rows ! (i - 1)) \<and> isBorderRow (rows ! (i + 1))"

definition echo_row :: "row \<Rightarrow> bool" where
  "echo_row r = has_prefix r [prompt_marker, 32]"

definition completion_row :: "row \<Rightarrow> bool" where
  "completion_row r \<longleftrightarrow> has_prefix r [0x273b, 32] \<and> contains_str r ([32, 0xb7, 32] @ ascii ''done '')"

text \<open>
  The loops that keep the last index become a search from the end. The first completion row above the input box decides, also
  when nothing but blanks stands between it and the echo.
\<close>

definition ObservedRecommendationBounds :: "row list \<Rightarrow> (nat \<times> nat) option" where
  "ObservedRecommendationBounds rows =
     (case find (bordered_prompt rows) (rev [1..<length rows - 1]) of
        None \<Rightarrow> None
      | Some inputBox \<Rightarrow>
          (case find (\<lambda>i. echo_row (rows ! i)) (rev [0..<inputBox]) of
             None \<Rightarrow> None
           | Some echo \<Rightarrow>
               (case find (\<lambda>i. completion_row (rows ! i)) (rev [Suc echo..<inputBox]) of
                  None \<Rightarrow> None
                | Some stop \<Rightarrow>
                    if list_ex (\<lambda>i. TrimSpace (rows ! i) \<noteq> []) [Suc echo..<stop] then Some (Suc echo, stop) else None)))"

record extractor =
  ex_PreviousInput :: row
  ex_RecommendationStart :: row
  ex_InputTop :: row
  ex_ObservedScreen :: bool

text \<open>\<open>Extract\<close>; the second component says whether the text may be used.\<close>

definition extract_marked :: "extractor \<Rightarrow> row list \<Rightarrow> (row \<times> bool) outcome" where
  "extract_marked e rows =
     (case find (\<lambda>i. TrimSpace (rows ! i) = ex_PreviousInput e) (rev [0..<length rows]) of
        None \<Rightarrow> Done ([], False)
      | Some previous \<Rightarrow>
          (case find (\<lambda>i. TrimSpace (rows ! i) = ex_RecommendationStart e) [Suc previous..<length rows] of
             None \<Rightarrow> Done ([], False)
           | Some start \<Rightarrow>
               (case find (\<lambda>i. TrimSpace (rows ! i) = ex_InputTop e) [Suc start..<length rows] of
                  None \<Rightarrow> Done ([], False)
                | Some stop \<Rightarrow>
                    and_then (slice start stop rows) (\<lambda>part.
                      and_then (slice (Suc start) stop rows) (\<lambda>rest.
                        Done (TrimSpace (join_with 10 part), TrimSpace (concat rest) \<noteq> []))))))"

definition Extract :: "extractor \<Rightarrow> row list \<Rightarrow> (row \<times> bool) outcome" where
  "Extract e rows =
     (if ex_ObservedScreen e then
        (case ObservedRecommendationBounds rows of
           None \<Rightarrow> Done ([], False)
         | Some (start, stop) \<Rightarrow>
             and_then (slice start stop rows) (\<lambda>part.
               let body = TrimSpace (join_with 10 part) in Done (body, body \<noteq> [])))
      else if ex_PreviousInput e = [] \<or> ex_RecommendationStart e = [] \<or> ex_InputTop e = [] then Done ([], False)
      else extract_marked e rows)"

section \<open>Detectors\<close>

datatype detected_state =
    StateIdle | StateWorking | StateAwaitingPermission | StateAwaitingRecommendation | StateExited | StateUndetermined
  | DetectedOther string

datatype detection_basis = BasisScreenPattern | BasisOutputQuiet | BasisProcessExit | BasisStructuredInfo

datatype permission_mode = PermissionDefaultOrUnknown | PermissionUnsafe

record structured_info =
  si_ObservedAt :: go_time
  si_UsedPercentage :: int
  si_SessionID :: string

record detect_input =
  di_SessionID :: session_id
  di_CLI :: "supervisor_cli option"
  di_ScreenRows :: "row list"
  di_LastScreenChangeAt :: go_time
  di_ProcessExited :: bool
  di_Structured :: "structured_info option"
  di_LastSendConfirmedAt :: "go_time option"
  di_Now :: go_time
  di_Patterns :: "pattern_set option"
  di_PatternsByCLI :: "supervisor_cli \<Rightarrow> pattern_set option"

record detect_result =
  dr_State :: detected_state
  dr_Basis :: "detection_basis list"
  dr_ProcessingIndicator :: bool
  dr_ContextPercent :: "int option"
  dr_SessionID :: string
  dr_PermissionMode :: permission_mode

definition addBasis :: "detection_basis list \<Rightarrow> detection_basis \<Rightarrow> detection_basis list" where
  "addBasis dst b = (if b \<in> set dst then dst else dst @ [b])"

definition QuietPeriod :: duration where
  "QuietPeriod = 5 * go_second"

definition IsQuiet :: "duration \<Rightarrow> detect_input \<Rightarrow> bool" where
  "IsQuiet configured inp =
     (let period = (if configured \<le> 0 then QuietPeriod else configured)
      in \<not> is_zero_time (di_LastScreenChangeAt inp) \<and> \<not> is_zero_time (di_Now inp) \<and> \<not> di_Now inp < di_LastScreenChangeAt inp
         \<and> time_sub (di_Now inp) (di_LastScreenChangeAt inp) \<ge> period)"

definition recentlyChanged :: "detect_input \<Rightarrow> duration \<Rightarrow> bool" where
  "recentlyChanged inp period \<longleftrightarrow>
     \<not> is_zero_time (di_LastScreenChangeAt inp) \<and> \<not> is_zero_time (di_Now inp) \<and> \<not> di_Now inp < di_LastScreenChangeAt inp
     \<and> time_sub (di_Now inp) (di_LastScreenChangeAt inp) < period"

text \<open>\<open>StructuredInfoDetector.Detect\<close>: the percentage and the session, when the statusline is valid and not older than the last send.\<close>

definition structured_detect :: "detect_input \<Rightarrow> (int \<times> string) option" where
  "structured_detect inp =
     (case di_Structured inp of
        None \<Rightarrow> None
      | Some info \<Rightarrow>
          if si_UsedPercentage info < 0 \<or> si_UsedPercentage info > 100 then None
          else if (case di_LastSendConfirmedAt inp of None \<Rightarrow> False | Some t \<Rightarrow> si_ObservedAt info < t) then None
          else Some (si_UsedPercentage info, si_SessionID info))"

text \<open>\<open>ScreenPatternDetector.Detect\<close>: only rows below the input box count as footer.\<close>

definition screen_detect :: "pattern_set \<Rightarrow> detect_input \<Rightarrow> permission_mode outcome" where
  "screen_detect own inp =
     (let p = (case di_Patterns inp of None \<Rightarrow> own | Some q \<Rightarrow> q);
          rows = di_ScreenRows inp;
          footerStart = (case lastInputRow rows p of None \<Rightarrow> length rows | Some i \<Rightarrow> i + 2)
      in and_then (slice_from footerStart rows) (\<lambda>footer.
           Done (if list_ex (\<lambda>r. list_ex (\<lambda>g. g \<noteq> [] \<and> contains_str r (hd g)) (ps_UnsafeFooter p)) footer
                 then PermissionUnsafe else PermissionDefaultOrUnknown)))"

text \<open>The composite detector: its pattern set and the period of its quiet detector, if it has one.\<close>

record composite_detector =
  cd_Patterns :: pattern_set
  cd_Quiet :: "duration option"

definition NewCompositeDetector :: "pattern_set \<Rightarrow> composite_detector" where
  "NewCompositeDetector p = \<lparr>cd_Patterns = p, cd_Quiet = Some QuietPeriod\<rparr>"

definition empty_patterns :: "pattern_set \<Rightarrow> bool" where
  "empty_patterns p \<longleftrightarrow> ps_IdleTop p = [] \<and> ps_IdleBottom p = [] \<and> ps_Prompt p = [] \<and> ps_Working p = [] \<and> ps_Permission p = []
     \<and> ps_Recommendation p = [] \<and> ps_UnsafeFooter p = []"

definition effective_patterns :: "composite_detector \<Rightarrow> detect_input \<Rightarrow> pattern_set" where
  "effective_patterns d inp =
     (let p = (case di_CLI inp of
            None \<Rightarrow> cd_Patterns d
          | Some cli \<Rightarrow> (case di_PatternsByCLI inp cli of None \<Rightarrow> cd_Patterns d | Some q \<Rightarrow> q));
          p = (case di_Patterns inp of None \<Rightarrow> p | Some q \<Rightarrow> q)
      in if empty_patterns p then DefaultPatternSet else p)"

text \<open>The evidence that the rules read: working, permission, idle, quiet, recommendation.\<close>

definition seen_working :: "(rune \<Rightarrow> bool) \<Rightarrow> pattern_set \<Rightarrow> detect_input \<Rightarrow> bool" where
  "seen_working ln p inp \<longleftrightarrow> containsAny (di_ScreenRows inp) (ps_Working p)
     \<or> ps_ObservedWorking p \<and> hasObservedWorking ln (di_ScreenRows inp) p"

definition seen_permission :: "(row \<Rightarrow> row \<Rightarrow> bool) \<Rightarrow> pattern_set \<Rightarrow> detect_input \<Rightarrow> bool" where
  "seen_permission rx p inp = list_ex (orderedLinePatternFound rx (di_ScreenRows inp)) (ps_Permission p)"

definition seen_recommendation :: "pattern_set \<Rightarrow> bool \<Rightarrow> detect_input \<Rightarrow> bool" where
  "seen_recommendation p quiet inp \<longleftrightarrow> containsAny (di_ScreenRows inp) (ps_Recommendation p)
     \<or> ps_ObservedRecommendation p \<and> hasIdle (di_ScreenRows inp) p \<and> quiet
        \<and> ObservedRecommendationBounds (di_ScreenRows inp) \<noteq> None"

definition verdict :: "detect_input \<Rightarrow> bool \<Rightarrow> bool \<Rightarrow> bool \<Rightarrow> bool \<Rightarrow> bool \<Rightarrow> bool \<Rightarrow> detected_state \<times> detection_basis list" where
  "verdict inp working permission recommendation idle quiet recent =
     (if di_ProcessExited inp then (StateExited, [BasisProcessExit])
      else if working then (StateWorking, [BasisScreenPattern])
      else if permission \<and> recommendation then (StateUndetermined, [BasisScreenPattern])
      else if permission then (StateAwaitingPermission, [BasisScreenPattern])
      else if recommendation \<and> quiet then (StateAwaitingRecommendation, [BasisScreenPattern, BasisOutputQuiet])
      else if idle \<and> quiet then (StateIdle, [BasisScreenPattern, BasisOutputQuiet])
      else if recent then (StateWorking, [BasisOutputQuiet])
      else (StateUndetermined, []))"

definition Detect :: "(rune \<Rightarrow> bool) \<Rightarrow> (row \<Rightarrow> row \<Rightarrow> bool) \<Rightarrow> composite_detector \<Rightarrow> detect_input \<Rightarrow> detect_result outcome" where
  "Detect ln rx d inp =
     (let p = effective_patterns d inp;
          period = (case cd_Quiet d of None \<Rightarrow> QuietPeriod | Some q \<Rightarrow> q)
      in and_then (screen_detect p inp) (\<lambda>mode.
           let quiet = IsQuiet period inp;
               working = seen_working ln p inp;
               (st, basis) = verdict inp working (seen_permission rx p inp) (seen_recommendation p quiet inp)
                 (hasIdle (di_ScreenRows inp) p) quiet (recentlyChanged inp period);
               structured = structured_detect inp
           in Done \<lparr>dr_State = st,
                dr_Basis = (if structured = None then basis else addBasis basis BasisStructuredInfo),
                dr_ProcessingIndicator = (\<not> di_ProcessExited inp \<and> working),
                dr_ContextPercent = map_option fst structured,
                dr_SessionID = (case structured of None \<Rightarrow> '''' | Some v \<Rightarrow> snd v),
                dr_PermissionMode = mode\<rparr>))"

section \<open>The completion menu\<close>

definition hasPermissionDialog :: "row list \<Rightarrow> bool" where
  "hasPermissionDialog rows = list_ex (\<lambda>r. contains_str r (ascii ''Enter to confirm'') \<or> contains_str r (ascii ''Esc to cancel'')) rows"

definition hasSelectionMenu :: "row list \<Rightarrow> bool" where
  "hasSelectionMenu rows =
     (hasPermissionDialog rows \<or> list_ex (\<lambda>r. has_prefix r [32] \<and> has_prefix (TrimSpace r) [prompt_marker, 32]) rows)"

definition isInputRule :: "row \<Rightarrow> bool" where
  "isInputRule r = (let trimmed = TrimSpace r in trimmed \<noteq> [] \<and> trim_runes (\<lambda>x. x = border) trimmed = [])"

definition selected_mark :: row where
  "selected_mark = [32, 32, prompt_marker, 32]"

text \<open>
  \<open>CompletionSelection\<close>: for each framed prompt from below, the rows above its rule are read upwards until a blank row or a
  rule; the first selected row decides. \<open>Some\<close> is an early return, \<open>None\<close> goes on with the next prompt.
\<close>

fun selection_above :: "row list \<Rightarrow> nat \<Rightarrow> (bool \<times> row) option" where
  "selection_above rows 0 = None"
| "selection_above rows (Suc i) =
     (if TrimSpace (rows ! i) = [] \<or> isInputRule (rows ! i) then None
      else if \<not> has_prefix (rows ! i) selected_mark then selection_above rows i
      else
        let selected = TrimSpace (trim_prefix (rows ! i) selected_mark)
        in Some (if has_prefix selected (ascii ''/'') then (True, selected) else (False, [])))"

fun selection_loop :: "row list \<Rightarrow> nat list \<Rightarrow> bool \<times> row" where
  "selection_loop rows [] = (False, [])"
| "selection_loop rows (input # inputs) =
     (if \<not> has_prefix (rows ! input) input_prompt \<or> \<not> isInputRule (rows ! (input - 1)) \<or> \<not> isInputRule (rows ! (input + 1))
      then selection_loop rows inputs
      else (case selection_above rows (input - 1) of Some r \<Rightarrow> r | None \<Rightarrow> selection_loop rows inputs))"

definition CompletionSelection :: "row list \<Rightarrow> bool \<times> row" where
  "CompletionSelection rows =
     (if hasPermissionDialog rows then (False, []) else selection_loop rows (rev [1..<length rows - 1]))"

text \<open>
  \<open>completionCandidateMatches\<close>. The source measures the words in bytes; where the measure matters the word starts with a
  slash or a parenthesis, and then it has fewer than two (three) bytes exactly when it has fewer than two (three) runes or
  fails the next test anyway.
\<close>

definition completionCandidateMatches :: "row \<Rightarrow> row \<Rightarrow> bool" where
  "completionCandidateMatches candidate command =
     (case Fields candidate of
        [] \<Rightarrow> False
      | name # rest \<Rightarrow>
          if length name < 2 \<or> \<not> has_prefix name (ascii ''/'') then False
          else (case rest of
              [] \<Rightarrow> command = name
            | w # _ \<Rightarrow>
                if \<not> has_prefix w (ascii ''('') then command = name
                else if length w < 3 \<or> \<not> has_suffix w (ascii '')'')
                     \<or> list_ex (\<lambda>x. x \<in> set (ascii ''()'')) (take (length w - 2) (drop 1 w)) then False
                else command = name \<or> command = ascii ''/'' @ take (length w - 2) (drop 1 w)))"

section \<open>Searches\<close>

lemma find_rev_upt:
  "find P (rev [a..<b]) = Some i \<longleftrightarrow> a \<le> i \<and> i < b \<and> P i \<and> (\<forall>j. i < j \<and> j < b \<longrightarrow> \<not> P j)"
proof (induction b)
  case (Suc b)
  show ?case
  proof (cases "a \<le> b")
    case True
    show ?thesis
    proof (cases "P b")
      case True
      with \<open>a \<le> b\<close> show ?thesis by (auto simp: less_Suc_eq)
    next
      case False
      with \<open>a \<le> b\<close> Suc.IH show ?thesis by (auto simp: less_Suc_eq)
    qed
  qed auto
qed simp

lemma find_rev_upt_None: "find P (rev [a..<b]) = None \<longleftrightarrow> (\<forall>j. a \<le> j \<and> j < b \<longrightarrow> \<not> P j)"
  by (auto simp: find_None_iff)

lemma subseq_after_first:
  assumes "subseq (y # ys) xs" and "P y" and "find_index P xs = Some i"
  shows "subseq ys (drop (Suc i) xs)"
  using assms
proof (induction xs arbitrary: i rule: list.induct)
  case (Cons x xs)
  show ?case
  proof (cases "P x")
    case True
    with Cons.prems show ?thesis by (auto split: if_splits dest: subseq_Cons')
  next
    case False
    with Cons.prems obtain j where "i = Suc j" "find_index P xs = Some j" "subseq (y # ys) xs"
      by (auto split: if_splits)
    with Cons.IH Cons.prems(2) show ?thesis by simp
  qed
qed simp

lemma find_in_order_iff: "find_in_order M rows n ps \<longleftrightarrow> (\<exists>ys. subseq ys (drop n rows) \<and> list_all2 M ps ys)"
proof (induction ps arbitrary: n)
  case (Cons p ps)
  show ?case
  proof (cases "find_index (M p) (drop n rows)")
    case None
    have "\<not> (subseq (y # ys) (drop n rows) \<and> M p y)" for y ys
      using None list_emb_set [of "(=)" "y # ys" "drop n rows" y] by (auto simp: find_index_None)
    with None show ?thesis by (auto simp: list_all2_Cons1)
  next
    case (Some i)
    have tail: "drop (Suc i) (drop n rows) = drop (Suc (n + i)) rows" by (simp add: add.commute)
    have at: "i < length (drop n rows)" "M p (drop n rows ! i)" using find_index_Some [OF Some] by auto
    have "subseq (drop n rows ! i # ys) (drop n rows)" if "subseq ys (drop (Suc i) (drop n rows))" for ys
    proof -
      have "drop n rows = take i (drop n rows) @ drop n rows ! i # drop (Suc i) (drop n rows)" using at(1) by (rule id_take_nth_drop)
      then show ?thesis using that by (metis subseq_Cons2 list_emb_append2)
    qed
    then show ?thesis
      using Some Cons.IH [of "Suc (n + i)"] at subseq_after_first [of _ _ "drop n rows" "M p" i] unfolding tail
      by (auto simp: list_all2_Cons1 simp del: drop_drop)
  qed
qed auto

text \<open>
  C30: the search for a group of patterns is exact. It takes the first row for each pattern and never goes back, and still it
  finds a group exactly when some selection of rows, from top to bottom, matches the patterns one by one.
\<close>

theorem pattern_search_exact:
  "(groupFound rows g \<longleftrightarrow> g \<noteq> [] \<and> (\<exists>ys. subseq ys rows \<and> list_all2 (\<lambda>p r. p \<noteq> [] \<and> contains_str r p) g ys))
   \<and> (orderedLinePatternFound rx rows ps \<longleftrightarrow>
        ps \<noteq> [] \<and> (\<exists>ys. subseq ys rows \<and> list_all2 (\<lambda>p r. linePatternMatches rx (TrimSpace r) p) ps ys))"
proof
  show "groupFound rows g \<longleftrightarrow> g \<noteq> [] \<and> (\<exists>ys. subseq ys rows \<and> list_all2 (\<lambda>p r. p \<noteq> [] \<and> contains_str r p) g ys)"
    by (simp add: groupFound_def find_in_order_iff)
  have "orderedLinePatternFound rx rows ps \<longleftrightarrow> ps \<noteq> [] \<and> find_in_order (row_matches rx) rows 0 ps"
    by (cases ps) (auto simp: orderedLinePatternFound_def split: option.split)
  then show "orderedLinePatternFound rx rows ps \<longleftrightarrow>
        ps \<noteq> [] \<and> (\<exists>ys. subseq ys rows \<and> list_all2 (\<lambda>p r. linePatternMatches rx (TrimSpace r) p) ps ys)"
    by (simp add: find_in_order_iff row_matches_def [abs_def])
qed

section \<open>What a verdict promises\<close>

lemma trim_runes_Nil: "trim_runes P s = [] \<longleftrightarrow> list_all P s"
proof -
  have "(\<forall>x \<in> set (dropWhile P s). P x) \<longleftrightarrow> dropWhile P s = []"
    using hd_dropWhile [of P s] hd_in_set [of "dropWhile P s"] by (metis empty_iff empty_set)
  then show ?thesis by (simp add: trim_runes_def dropWhile_eq_Nil_conv list_all_iff)
qed

lemma lastInputRow_Some:
  "lastInputRow rows p = Some i \<Longrightarrow> 1 \<le> i \<and> i + 1 < length rows \<and> framed p rows i \<and> (\<forall>j. i < j \<and> j + 1 < length rows \<longrightarrow> \<not> framed p rows j)"
  by (auto simp: lastInputRow_def find_rev_upt split: if_splits)

lemma screen_detect_Done: "\<exists>mode. screen_detect own inp = Done mode"
  using lastInputRow_Some by (fastforce simp: screen_detect_def Let_def slice_from_def split: option.split)

lemma in_join_with: "x \<in> set r \<Longrightarrow> r \<in> set rs \<Longrightarrow> x \<in> set (join_with c rs)"
  by (induction c rs rule: join_with.induct) auto

lemma bounds_Some:
  assumes "ObservedRecommendationBounds rows = Some (start, stop)"
  shows "start < stop \<and> stop < length rows \<and> (\<exists>i. start \<le> i \<and> i < stop \<and> TrimSpace (rows ! i) \<noteq> [])
     \<and> echo_row (rows ! (start - 1)) \<and> completion_row (rows ! stop)"
  using assms
  by (auto simp: ObservedRecommendationBounds_def find_rev_upt list_ex_iff split: option.splits if_splits)

lemma observed_body:
  assumes "ObservedRecommendationBounds rows = Some (start, stop)" and "ex_ObservedScreen e"
  shows "\<exists>body. Extract e rows = Done (body, True) \<and> body \<noteq> []"
proof -
  from bounds_Some [OF assms(1)] obtain i where b: "start < stop" "stop < length rows" "start \<le> i" "i < stop" "TrimSpace (rows ! i) \<noteq> []"
    by blast
  let ?part = "take (stop - start) (drop start rows)"
  from b(5) obtain x where x: "x \<in> set (rows ! i)" "\<not> is_space_rune x"
    by (auto simp: TrimSpace_def trim_runes_Nil list_all_iff)
  have "?part ! (i - start) = rows ! i" "i - start < length ?part" using b by auto
  then have "rows ! i \<in> set ?part" by (metis nth_mem)
  with x have "TrimSpace (join_with 10 ?part) \<noteq> []"
    using in_join_with [of x "rows ! i" ?part 10] by (auto simp: TrimSpace_def trim_runes_Nil list_all_iff)
  with assms b show ?thesis by (simp add: Extract_def slice_def Let_def)
qed

text \<open>
  C29: what the detector promises its readers. Classifying a screen never panics. With the default patterns a screen that is reported as
  waiting for a recommendation yields a text when the extractor reads it, and one that is reported as idle or waiting shows the
  input box, shows no dialog and no sign of work, and has not changed for the quiet period.
\<close>

theorem verdict_trustworthy:
  assumes "effective_patterns d inp = DefaultPatternSet" and "ex_ObservedScreen e"
  shows "\<exists>r. Detect ln rx d inp = Done r
     \<and> (dr_State r = StateAwaitingRecommendation \<longrightarrow> (\<exists>body. Extract e (di_ScreenRows inp) = Done (body, True) \<and> body \<noteq> []))
     \<and> (dr_State r \<in> {StateIdle, StateAwaitingRecommendation} \<longrightarrow>
          \<not> di_ProcessExited inp \<and> \<not> dr_ProcessingIndicator r \<and> \<not> seen_permission rx DefaultPatternSet inp
          \<and> (\<exists>i. lastInputRow (di_ScreenRows inp) DefaultPatternSet = Some i)
          \<and> IsQuiet (case cd_Quiet d of None \<Rightarrow> QuietPeriod | Some q \<Rightarrow> q) inp)"
proof -
  obtain mode where mode: "screen_detect DefaultPatternSet inp = Done mode" using screen_detect_Done by blast
  let ?quiet = "IsQuiet (case cd_Quiet d of None \<Rightarrow> QuietPeriod | Some q \<Rightarrow> q) inp"
  let ?rec = "seen_recommendation DefaultPatternSet ?quiet inp"
  have seen: "?rec \<Longrightarrow> ?quiet \<and> hasIdle (di_ScreenRows inp) DefaultPatternSet \<and> (\<exists>body. Extract e (di_ScreenRows inp) = Done (body, True) \<and> body \<noteq> [])"
    using observed_body [OF _ assms(2)] by (auto simp: seen_recommendation_def DefaultPatternSet_def containsAny_def)
  obtain st basis where v: "verdict inp (seen_working ln DefaultPatternSet inp) (seen_permission rx DefaultPatternSet inp) ?rec
      (hasIdle (di_ScreenRows inp) DefaultPatternSet) ?quiet (recentlyChanged inp (case cd_Quiet d of None \<Rightarrow> QuietPeriod | Some q \<Rightarrow> q)) = (st, basis)"
    by (rule prod.exhaust)
  have "st = StateAwaitingRecommendation \<Longrightarrow> ?rec"
    and "st \<in> {StateIdle, StateAwaitingRecommendation} \<Longrightarrow> \<not> di_ProcessExited inp \<and> \<not> seen_working ln DefaultPatternSet inp
      \<and> \<not> seen_permission rx DefaultPatternSet inp \<and> ?quiet \<and> (?rec \<or> hasIdle (di_ScreenRows inp) DefaultPatternSet)"
    using v by (auto simp: verdict_def split: if_splits)
  with v mode seen show ?thesis
    by (simp add: Detect_def assms(1) Let_def hasIdle_def) blast
qed

section \<open>A sample screen\<close>

definition sample_rows :: "row list" where
  "sample_rows = [input_prompt @ ascii ''old'', [prompt_marker, 32] @ ascii ''do it'', ascii ''I recommend B.'',
     [0x273b, 32] @ ascii ''Baked'' @ [32, 0xb7, 32] @ ascii ''done in 3s'', replicate 8 border, input_prompt, replicate 8 border, ascii ''  ? for help'']"

definition sample_detect_input :: detect_input where
  "sample_detect_input = \<lparr>di_SessionID = SessionID ''s'', di_CLI = Some CLIClaude, di_ScreenRows = sample_rows, di_LastScreenChangeAt = go_second,
     di_ProcessExited = False, di_Structured = None, di_LastSendConfirmedAt = None, di_Now = 7 * go_second, di_Patterns = None,
     di_PatternsByCLI = (\<lambda>_. None)\<rparr>"

definition observed_extractor :: extractor where
  "observed_extractor = \<lparr>ex_PreviousInput = [], ex_RecommendationStart = [], ex_InputTop = [], ex_ObservedScreen = True\<rparr>"

theorem verdict_trustworthy_witness:
  "(case Detect (\<lambda>r. ascii_letter r) (\<lambda>_ _. False) (NewCompositeDetector DefaultPatternSet) sample_detect_input of
      Panic \<Rightarrow> False
    | Done r \<Rightarrow> dr_State r = StateAwaitingRecommendation)
   \<and> Extract observed_extractor sample_rows = Done (ascii ''I recommend B.'', True)
   \<and> (\<exists>i. lastInputRow sample_rows DefaultPatternSet = Some i)"
proof -
  have "effective_patterns (NewCompositeDetector DefaultPatternSet) sample_detect_input = DefaultPatternSet" "ex_ObservedScreen observed_extractor"
    by code_simp+
  from verdict_trustworthy [OF this, of "\<lambda>r. ascii_letter r" "\<lambda>_ _. False"]
  obtain r where r: "Detect (\<lambda>r. ascii_letter r) (\<lambda>_ _. False) (NewCompositeDetector DefaultPatternSet) sample_detect_input = Done r"
    "dr_State r = StateAwaitingRecommendation \<Longrightarrow> \<exists>i. lastInputRow (di_ScreenRows sample_detect_input) DefaultPatternSet = Some i"
    by blast
  have st: "(case Detect (\<lambda>r. ascii_letter r) (\<lambda>_ _. False) (NewCompositeDetector DefaultPatternSet) sample_detect_input of
      Panic \<Rightarrow> False | Done r \<Rightarrow> dr_State r = StateAwaitingRecommendation)" by code_simp
  with r have "dr_State r = StateAwaitingRecommendation" by simp
  with r(2) have "\<exists>i. lastInputRow sample_rows DefaultPatternSet = Some i" by (simp add: sample_detect_input_def)
  moreover have "Extract observed_extractor sample_rows = Done (ascii ''I recommend B.'', True)" by code_simp
  ultimately show ?thesis using st by blast
qed

end
