(* ===== verification/Operator_Text.thy ===== *)
theory Operator_Text
  imports Text_Policy Screen_Detect
begin

text \<open>
  The texts that the supervisor may type: the forbidden-text classifier (\<^verbatim>\<open>textpolicy/textpolicy.go\<close>), the validated text of an operator
  (\<^verbatim>\<open>operatortext.go\<close>) and the fixed texts (\<^verbatim>\<open>fixedtexts.go\<close>). A Go string is a list of bytes where its encoding is tested and the
  list of its runes afterwards. The Unicode tables and the normal form NFKC are parameters, collected in the record \<open>unicode\<close>.
\<close>

record unicode =
  uc_Cf :: "rune \<Rightarrow> bool"
  uc_mark :: "rune \<Rightarrow> bool"
  uc_NFKC :: "row \<Rightarrow> row"
  uc_ToLower :: "row \<Rightarrow> row"

text \<open>The runes of a string; \<open>None\<close> when \<open>utf8.ValidString\<close> rejects it.\<close>

function utf8_runes :: "byte list \<Rightarrow> row option" where
  "utf8_runes [] = Some []"
| "utf8_runes (b # rest) =
     (let (r, size) = DecodeRune (b # rest)
      in if r = rune_error \<and> size = 1 then None
         else map_option ((#) r) (utf8_runes (drop (size - 1) rest)))"
  by pat_completeness auto
termination
  by (relation "measure length") auto

definition IsControl :: "rune \<Rightarrow> bool" where
  "IsControl r \<longleftrightarrow> 0 \<le> r \<and> r < 0x20 \<or> 0x7f \<le> r \<and> r \<le> 0x9f"

definition line_separator :: "rune \<Rightarrow> bool" where
  "line_separator r \<longleftrightarrow> r = 0x2028 \<or> r = 0x2029"

definition command_rune :: "rune \<Rightarrow> bool" where
  "command_rune r \<longleftrightarrow> r = of_char (CHR ''!'') \<or> r = of_char (CHR ''/'') \<or> r = of_char (CHR ''#'')"

section \<open>The forbidden-text classifier\<close>

datatype category =
    CategoryForcePush | CategoryPullRequest | CategoryDeploy | CategoryDeletion | CategoryProduction | CategoryBilling
  | CategoryGitHistory | CategoryMigration | CategoryPrivilege

definition vocabulary :: "(category \<times> row) list" where
  "vocabulary = [
     (CategoryForcePush, ascii ''force push''), (CategoryForcePush, ascii ''--force''), (CategoryForcePush, ascii ''-f''),
     (CategoryForcePush, ascii ''+refspec''), (CategoryForcePush, [0x5f37, 0x5236, 0x30d7, 0x30c3, 0x30b7, 0x30e5]),
     (CategoryForcePush, ascii ''force-with-lease''), (CategoryPullRequest, ascii ''PR''), (CategoryPullRequest, ascii ''pull request''),
     (CategoryPullRequest, [0x30d7, 0x30eb, 0x30ea, 0x30af, 0x30a8, 0x30b9, 0x30c8]), (CategoryPullRequest, ascii ''gh pr''),
     (CategoryDeploy, ascii ''deploy''), (CategoryDeploy, [0x30c7, 0x30d7, 0x30ed, 0x30a4]),
     (CategoryDeploy, [0x30ea, 0x30ea, 0x30fc, 0x30b9]), (CategoryDeploy, [0x672c, 0x756a, 0x53cd, 0x6620]),
     (CategoryDeploy, ascii ''publish''), (CategoryDeletion, ascii ''delete''), (CategoryDeletion, ascii ''rm -rf''),
     (CategoryDeletion, ascii ''rm -fr''), (CategoryDeletion, [0x524a, 0x9664]), (CategoryDeletion, ascii ''drop''),
     (CategoryDeletion, ascii ''truncate''), (CategoryDeletion, ascii ''reset --hard''), (CategoryDeletion, ascii ''clean -f''),
     (CategoryDeletion, [0x6d88, 0x53bb]), (CategoryProduction, ascii ''production''), (CategoryProduction, [0x672c, 0x756a]),
     (CategoryProduction, ascii ''prod '' @ [0x74b0, 0x5883]), (CategoryBilling, [0x8ab2, 0x91d1]), (CategoryBilling, [0x8cfc, 0x5165]),
     (CategoryBilling, [0x652f, 0x6255]), (CategoryBilling, [0x6709, 0x6599]), (CategoryBilling, ascii ''billing''),
     (CategoryBilling, ascii ''API '' @ [0x30ad, 0x30fc]), (CategoryBilling, [0x30d7, 0x30e9, 0x30f3, 0x5909, 0x66f4]),
     (CategoryGitHistory, ascii ''merge''), (CategoryGitHistory, ascii ''rebase''), (CategoryGitHistory, [0x30de, 0x30fc, 0x30b8]),
     (CategoryGitHistory, [0x30ea, 0x30d9, 0x30fc, 0x30b9]), (CategoryMigration, ascii ''migrate''),
     (CategoryMigration, [0x30de, 0x30a4, 0x30b0, 0x30ec, 0x30fc, 0x30b7, 0x30e7, 0x30f3]), (CategoryPrivilege, ascii ''sudo'')]"

definition isWordRune :: "rune \<Rightarrow> bool" where
  "isWordRune r \<longleftrightarrow> 97 \<le> r \<and> r \<le> 122 \<or> 48 \<le> r \<and> r \<le> 57 \<or> r = 95"

definition isAlphaNumeric :: "rune \<Rightarrow> bool" where
  "isAlphaNumeric r \<longleftrightarrow> 97 \<le> r \<and> r \<le> 122 \<or> 48 \<le> r \<and> r \<le> 57"

definition isSymbolBodyRune :: "rune \<Rightarrow> bool" where
  "isSymbolBodyRune r \<longleftrightarrow> isWordRune r \<or> r = 45"

definition hasJapanese :: "row \<Rightarrow> bool" where
  "hasJapanese s = list_ex (\<lambda>r. r > 127) s"

definition normalize :: "unicode \<Rightarrow> row \<Rightarrow> row" where
  "normalize uc s = uc_ToLower uc (uc_NFKC uc (filter (\<lambda>r. \<not> uc_Cf uc r) s))"

definition refspec :: row where
  "refspec = ascii ''+refspec''"

text \<open>
  The end of the token that starts at \<open>start\<close>, and the runes that may not stand next to it. The words come from \<open>Fields\<close>,
  which yields no empty word, so \<open>word[0]\<close> exists.
\<close>

definition token_end :: "row \<Rightarrow> nat \<Rightarrow> row \<Rightarrow> nat option" where
  "token_end txt start word =
     (if word = refspec then
        if txt ! start \<noteq> 43 \<or> Suc start \<ge> length txt \<or> \<not> isAlphaNumeric (txt ! Suc start) then None
        else Some (start + 2 + length (takeWhile (\<lambda>r. isWordRune r \<or> r = 45) (drop (start + 2) txt)))
      else if length txt - start < length word \<or> take (length word) (drop start txt) \<noteq> word then None
      else Some (start + length word))"

definition boundary :: "row \<Rightarrow> rune \<Rightarrow> bool" where
  "boundary word = (if hd word = 45 \<or> hd word = 43 then isSymbolBodyRune else isWordRune)"

definition phraseTokenMatches :: "row \<Rightarrow> nat \<Rightarrow> row \<Rightarrow> nat option" where
  "phraseTokenMatches txt start word =
     (if start \<ge> length txt then None
      else (case token_end txt start word of
          None \<Rightarrow> None
        | Some at \<Rightarrow>
            if hasJapanese word then Some at
            else if start > 0 \<and> boundary word (txt ! (start - 1)) \<or> at < length txt \<and> boundary word (txt ! at) then None
            else Some at))"

fun match_parts :: "row \<Rightarrow> nat \<Rightarrow> bool \<Rightarrow> row list \<Rightarrow> bool" where
  "match_parts txt at first [] = True"
| "match_parts txt at first (part # parts) =
     (let start = (if first then at else at + length (takeWhile is_space_rune (drop at txt)))
      in if \<not> first \<and> start = at \<and> \<not> hasJapanese part then False
         else (case phraseTokenMatches txt start part of
             None \<Rightarrow> False
           | Some e \<Rightarrow> match_parts txt e False parts))"

definition matches :: "row \<Rightarrow> row \<Rightarrow> bool" where
  "matches txt word =
     (if hasJapanese word \<and> \<not> contains_str word [32] then contains_str txt word
      else list_ex (\<lambda>start. match_parts txt start True (Fields word)) [0..<length txt])"

definition meaningful :: "unicode \<Rightarrow> row \<Rightarrow> bool" where
  "meaningful uc s = list_ex (\<lambda>r. \<not> IsControl r \<and> \<not> uc_Cf uc r \<and> \<not> is_space_rune r) s"

definition Classify_runes :: "unicode \<Rightarrow> row \<Rightarrow> category list \<times> bool" where
  "Classify_runes uc txt =
     (let normalized = normalize uc txt
      in if rune_error \<in> set txt \<or> \<not> meaningful uc normalized then ([], True)
         else (rev (remdups (rev (map fst (filter (\<lambda>e. matches normalized (normalize uc (snd e))) vocabulary)))), False))"

definition Classify :: "unicode \<Rightarrow> byte list \<Rightarrow> category list \<times> bool" where
  "Classify uc s = (case utf8_runes s of None \<Rightarrow> ([], True) | Some txt \<Rightarrow> Classify_runes uc txt)"

definition IsForbidden :: "unicode \<Rightarrow> byte list \<Rightarrow> bool" where
  "IsForbidden uc s = (let (categories, unknown) = Classify uc s in unknown \<or> categories \<noteq> [])"

definition ValidateParallelInstruction :: "unicode \<Rightarrow> byte list \<Rightarrow> nat \<Rightarrow> int \<Rightarrow> bool outcome" where
  "ValidateParallelInstruction uc v maxRunes maxWidth =
     (case utf8_runes v of
        None \<Rightarrow> Done False
      | Some txt \<Rightarrow>
          if txt = [] \<or> length txt > maxRunes then Done False
          else and_then (DisplayWidth (uc_mark uc) txt) (\<lambda>width.
            Done (if width > maxWidth \<or> list_ex (\<lambda>r. IsControl r \<or> uc_Cf uc r \<or> line_separator r) txt then False
                  else if command_rune (hd txt) then False
                  else \<not> IsForbidden uc v)))"

definition NormalizeRecommendationForHash :: "unicode \<Rightarrow> row \<Rightarrow> row" where
  "NormalizeRecommendationForHash uc s = join_with 32 (Fields (normalize uc s))"

section \<open>The text of an operator and the fixed texts\<close>

definition SupervisorOperatorInputMaxLength :: nat where
  "SupervisorOperatorInputMaxLength = 2000"

definition operator_rune :: "rune \<Rightarrow> bool" where
  "operator_rune r \<longleftrightarrow> \<not> (r = rune_error \<or> IsControl r \<or> line_separator r)"

text \<open>\<open>NewOperatorText\<close>: \<open>None\<close> is the error \<^verbatim>\<open>SUP_REQUEST_MALFORMED\<close>.\<close>

definition NewOperatorText :: "byte list \<Rightarrow> row option" where
  "NewOperatorText v =
     (case utf8_runes v of
        None \<Rightarrow> None
      | Some txt \<Rightarrow>
          if length txt < 1 \<or> length txt > SupervisorOperatorInputMaxLength then None
          else if command_rune (hd txt) \<or> \<not> list_all operator_rune txt then None
          else Some txt)"

definition RecommendationContinueText :: row where
  "RecommendationContinueText = [0x63a8, 0x5968, 0x3069, 0x304a, 0x308a, 0x9032, 0x3081, 0x3066]"

text \<open>The default instruction, in its encoding.\<close>

definition defaultParallelInstruction :: "byte list" where
  "defaultParallelInstruction =
      [0xe8, 0x87, 0xaa, 0xe5, 0x8b, 0x95, 0xe4, 0xbd, 0x9c, 0xe6, 0xa5, 0xad, 0xe8, 0xa8, 0x88, 0xe7, 0x94, 0xbb, 0xe3, 0x83, 0xa2, 0xe3, 0x83, 0xbc, 0xe3, 0x83, 0x89]
      @ map of_char '' ''
      @ [0xe4, 0xb8, 0xa6, 0xe5, 0x88, 0x97, 0xe3, 0x81, 0xa7, 0xe4, 0xbd, 0x9c, 0xe6, 0xa5, 0xad, 0xe3, 0x81, 0x97, 0xe3, 0x81, 0xa6, 0xe3, 0x80, 0x82, 0xe5, 0xae, 0x9f, 0xe8, 0xa3, 0x85, 0xe3, 0x81, 0xaf]
      @ map of_char '' ~/.claude/scripts/codex.sh impl --model gpt-6-luna ''
      @ [0xe3, 0x82, 0x92, 0xe6, 0x98, 0x8e, 0xe7, 0xa4, 0xba, 0xe3, 0x81, 0x97, 0xe3, 0x81, 0xa6, 0xe5, 0xa7, 0x94, 0xe8, 0xad, 0xb2, 0xe3, 0x81, 0x99, 0xe3, 0x82, 0x8b]"

text \<open>\<open>FixedText\<close>; \<open>None\<close> is the answer that there is no permitted text.\<close>

fun FixedText :: "unicode \<Rightarrow> send_kind \<Rightarrow> byte list \<Rightarrow> row option outcome" where
  "FixedText uc SendKindRecommendationContinue instr = Done (Some RecommendationContinueText)"
| "FixedText uc SendKindHandoffEnd instr = Done (Some (ascii ''#end''))"
| "FixedText uc SendKindHandoffExit instr = Done (Some (ascii ''/exit''))"
| "FixedText uc SendKindSessionStart instr = Done (Some (ascii ''#start''))"
| "FixedText uc SendKindRemoteControl instr = Done (Some (ascii ''/rc''))"
| "FixedText uc SendKindParallelInstruction instr =
     and_then (ValidateParallelInstruction uc instr 200 190) (\<lambda>valid. Done (if valid then utf8_runes instr else None))"
| "FixedText uc _ instr = Done None"

section \<open>Whole words\<close>

lemma Fields_words: "p \<in> set (Fields s) \<Longrightarrow> p \<noteq> [] \<and> list_all (\<lambda>r. \<not> is_space_rune r) p"
proof (induction s rule: Fields.induct)
  case (2 r rs)
  have "list_all (\<lambda>x. \<not> is_space_rune x) (takeWhile (\<lambda>x. \<not> is_space_rune x) rs)" by (auto simp: list_all_iff dest: set_takeWhileD)
  with 2 show ?case by (cases "is_space_rune r") auto
qed simp

definition plain_word :: "row \<Rightarrow> bool" where
  "plain_word p \<longleftrightarrow> p \<noteq> [] \<and> list_all (\<lambda>r. \<not> is_space_rune r) p \<and> \<not> hasJapanese p \<and> p \<noteq> refspec"

definition free_after :: "row \<Rightarrow> row \<Rightarrow> bool" where
  "free_after p rest \<longleftrightarrow> rest = [] \<or> \<not> boundary p (hd rest)"

definition free_before :: "row \<Rightarrow> row \<Rightarrow> bool" where
  "free_before p pre \<longleftrightarrow> pre = [] \<or> \<not> boundary p (last pre)"

text \<open>The words \<open>ps\<close> follow one another, each after some white space.\<close>

fun spaced :: "row list \<Rightarrow> row \<Rightarrow> bool" where
  "spaced [] rest = True"
| "spaced (p # ps) rest = (\<exists>s rest'. rest = s @ p @ rest' \<and> s \<noteq> [] \<and> list_all is_space_rune s \<and> free_after p rest' \<and> spaced ps rest')"

lemma phraseTokenMatches_plain:
  assumes "plain_word p" and "start \<le> length txt"
  shows "phraseTokenMatches txt start p = Some e \<longleftrightarrow>
     (\<exists>rest. drop start txt = p @ rest \<and> free_before p (take start txt) \<and> free_after p rest \<and> e = start + length p)"
proof -
  have last: "start > 0 \<Longrightarrow> last (take start txt) = txt ! (start - 1)" "take start txt = [] \<longleftrightarrow> start = 0 \<or> txt = []"
    using assms(2) by (cases start; auto simp: take_Suc_conv_app_nth)+
  have fit: "length txt - start < length p \<or> take (length p) (drop start txt) \<noteq> p \<longleftrightarrow> (\<nexists>rest. drop start txt = p @ rest)"
    by (metis append_eq_conv_conj append_take_drop_id length_append length_drop not_less le_add1)
  show ?thesis
  proof (cases "\<exists>rest. drop start txt = p @ rest")
    case False
    with fit assms(1) show ?thesis by (auto simp: phraseTokenMatches_def token_end_def plain_word_def)
  next
    case True
    then obtain rest where rest: "drop start txt = p @ rest" by blast
    then have "rest = drop (start + length p) txt" by (metis add.commute append_eq_conv_conj drop_drop)
    moreover have "start < length txt" using rest assms(1) by (cases "start < length txt") (auto simp: plain_word_def)
    ultimately show ?thesis
      using rest fit assms(1) last
      by (auto simp: phraseTokenMatches_def token_end_def plain_word_def free_before_def free_after_def hd_drop_conv_nth)
  qed
qed

lemma space_not_boundary: "is_space_rune r \<Longrightarrow> \<not> boundary p r"
  by (auto simp: is_space_rune_def boundary_def isSymbolBodyRune_def isWordRune_def)

lemma spaces_before_word:
  assumes "list_all is_space_rune s" and "plain_word p"
  shows "takeWhile is_space_rune (s @ p @ rest) = s"
  using assms by (cases p) (auto simp: plain_word_def list_all_iff takeWhile_eq_all_conv)

lemma match_parts_spaced:
  assumes "list_all plain_word ps" and "at \<le> length txt"
  shows "match_parts txt at False ps \<longleftrightarrow> spaced ps (drop at txt)"
  using assms
proof (induction ps arbitrary: at)
  case (Cons p ps)
  let ?s = "takeWhile is_space_rune (drop at txt)"
  let ?start = "at + length ?s"
  have "drop ?start txt = dropWhile is_space_rune (drop at txt)"
    by (simp add: dropWhile_eq_drop add.commute)
  then have start: "?start \<le> length txt" "drop at txt = ?s @ drop ?start txt"
    using length_takeWhile_le [of is_space_rune "drop at txt"] Cons.prems(2) by auto
  have sp: "list_all is_space_rune ?s" by (auto simp: list_all_iff dest: set_takeWhileD)
  have before: "free_before p (take ?start txt)" if "?s \<noteq> []"
  proof -
    have "take ?start txt = take at txt @ ?s" by (simp add: take_add takeWhile_eq_take [symmetric])
    then show ?thesis using that sp space_not_boundary [of "last ?s" p] by (auto simp: free_before_def list_all_iff)
  qed
  have "match_parts txt at False (p # ps) \<longleftrightarrow> ?s \<noteq> [] \<and> (\<exists>rest. drop ?start txt = p @ rest \<and> free_after p rest \<and> spaced ps rest)"
  proof (cases "\<exists>rest. drop ?start txt = p @ rest \<and> free_after p rest")
    case True
    then obtain rest where rest: "drop ?start txt = p @ rest" "free_after p rest" by blast
    have e: "?start + length p \<le> length txt" "drop (?start + length p) txt = rest"
      using arg_cong [OF rest(1), of length] arg_cong [OF rest(1), of "drop (length p)"] start(1) by (simp_all add: add.commute)
    have "phraseTokenMatches txt ?start p = Some (?start + length p)" if "?s \<noteq> []"
      using phraseTokenMatches_plain [of p ?start "txt"] Cons.prems(1) start(1) before that rest by auto
    then show ?thesis using Cons.IH [of "?start + length p"] Cons.prems(1) e rest
      by (auto simp: Let_def plain_word_def split: option.split)
  next
    case False
    then have "phraseTokenMatches txt ?start p = None"
      using phraseTokenMatches_plain [of p ?start "txt"] Cons.prems(1) start(1) by (cases "phraseTokenMatches txt ?start p") auto
    with False show ?thesis by (simp add: Let_def) blast
  qed
  also have "\<dots> \<longleftrightarrow> spaced (p # ps) (drop at txt)"
  proof
    assume "?s \<noteq> [] \<and> (\<exists>rest. drop ?start txt = p @ rest \<and> free_after p rest \<and> spaced ps rest)"
    with start(2) sp show "spaced (p # ps) (drop at txt)" by (metis spaced.simps(2))
  next
    assume "spaced (p # ps) (drop at txt)"
    then obtain s rest where r: "drop at txt = s @ p @ rest" "s \<noteq> []" "list_all is_space_rune s" "free_after p rest" "spaced ps rest" by auto
    then have "?s = s" using spaces_before_word [of s p rest] Cons.prems(1) by simp
    moreover from this r(1) start(2) have "drop ?start txt = p @ rest" by (metis same_append_eq)
    ultimately show "?s \<noteq> [] \<and> (\<exists>rest. drop ?start txt = p @ rest \<and> free_after p rest \<and> spaced ps rest)" using r by blast
  qed
  finally show ?case .
qed simp

text \<open>
  C31: the classifier finds forbidden words exactly. A phrase of plain ASCII words is found in a text exactly when its words
  stand there one after the other, each two separated by white space, and no word is part of a longer one.
\<close>

theorem forbidden_phrase_iff:
  assumes "Fields phrase = word # others" and "list_all plain_word (word # others)" and "\<not> hasJapanese phrase"
  shows "matches txt phrase \<longleftrightarrow>
     (\<exists>pre rest. txt = pre @ word @ rest \<and> free_before word pre \<and> free_after word rest \<and> spaced others rest)"
proof
  assume "matches txt phrase"
  then obtain start where s: "start < length txt" "match_parts txt start True (word # others)"
    using assms by (auto simp: matches_def list_ex_iff)
  then obtain e where e: "phraseTokenMatches txt start word = Some e" "match_parts txt e False others"
    by (auto simp: Let_def split: option.splits)
  then obtain rest where r: "drop start txt = word @ rest" "free_before word (take start txt)" "free_after word rest" "e = start + length word"
    using phraseTokenMatches_plain [of word start "txt" e] assms(2) s(1) by auto
  moreover have "e \<le> length txt" "drop e txt = rest"
    using arg_cong [OF r(1), of length] arg_cong [OF r(1), of "drop (length word)"] s(1) r(4) by (simp_all add: add.commute)
  ultimately have "txt = take start txt @ word @ rest" "spaced others rest"
    using e(2) match_parts_spaced [of others e "txt"] assms(2) append_take_drop_id [of start "txt"] by simp_all
  with r show "\<exists>pre rest. txt = pre @ word @ rest \<and> free_before word pre \<and> free_after word rest \<and> spaced others rest" by blast
next
  assume "\<exists>pre rest. txt = pre @ word @ rest \<and> free_before word pre \<and> free_after word rest \<and> spaced others rest"
  then obtain pre rest where r: "txt = pre @ word @ rest" "free_before word pre" "free_after word rest" "spaced others rest" by blast
  then have t: "phraseTokenMatches txt (length pre) word = Some (length pre + length word)"
    using phraseTokenMatches_plain [of word "length pre" "txt" "length pre + length word"] assms(2) by simp
  have "match_parts txt (length pre + length word) False others"
    using match_parts_spaced [of others "length pre + length word" "txt"] assms(2) r by simp
  with t have "match_parts txt (length pre) True (Fields phrase)" using assms(1) by simp
  moreover have "length pre < length txt" using r(1) assms(2) by (simp add: plain_word_def)
  ultimately show "matches txt phrase" using assms(3) by (auto simp: matches_def list_ex_iff)
qed

theorem forbidden_phrase_iff_witness:
  "matches (ascii ''please rm   -rf /'') (ascii ''rm -rf'') \<and> \<not> matches (ascii ''farm -rf'') (ascii ''rm -rf'')
   \<and> (\<exists>pre rest. ascii ''please rm   -rf /'' = pre @ ascii ''rm'' @ rest \<and> spaced [ascii ''-rf''] rest)"
proof -
  have 1: "Fields (ascii ''rm -rf'') = [ascii ''rm'', ascii ''-rf'']" by code_simp
  have 2: "list_all plain_word [ascii ''rm'', ascii ''-rf'']" by code_simp
  have 3: "\<not> hasJapanese (ascii ''rm -rf'')" by code_simp
  have m: "matches (ascii ''please rm   -rf /'') (ascii ''rm -rf'')" "\<not> matches (ascii ''farm -rf'') (ascii ''rm -rf'')" by code_simp+
  from forbidden_phrase_iff [OF 1 2 3, of "ascii ''please rm   -rf /''"] m(1)
  have "\<exists>pre rest. ascii ''please rm   -rf /'' = pre @ ascii ''rm'' @ rest \<and> spaced [ascii ''-rf''] rest" by blast
  with m show ?thesis by blast
qed

section \<open>Permitted texts\<close>

lemma DisplayWidth_Done: "\<exists>n. DisplayWidth mark s = Done n"
proof (induction s)
  case (Cons r s)
  then show ?case using RuneWidth_cases [of mark r] by auto
qed simp

definition single_line :: "row \<Rightarrow> bool" where
  "single_line s \<longleftrightarrow> s \<noteq> [] \<and> list_all (\<lambda>r. \<not> IsControl r \<and> \<not> line_separator r) s"

lemma NewOperatorText_Some:
  assumes "NewOperatorText v = Some s"
  shows "single_line s \<and> \<not> command_rune (hd s) \<and> length s \<le> SupervisorOperatorInputMaxLength \<and> utf8_runes v = Some s"
  using assms by (auto simp: NewOperatorText_def single_line_def operator_rune_def list_all_iff split: option.splits if_splits)

lemma fixed_single_line:
  "single_line RecommendationContinueText" "single_line (ascii ''#end'')" "single_line (ascii ''/exit'')"
  "single_line (ascii ''#start'')" "single_line (ascii ''/rc'')"
  by code_simp+

lemma ValidateParallelInstruction_Done:
  "ValidateParallelInstruction uc v maxRunes maxWidth \<noteq> Panic
   \<and> (ValidateParallelInstruction uc v maxRunes maxWidth = Done True \<longrightarrow>
        (\<exists>s. utf8_runes v = Some s \<and> single_line s \<and> \<not> command_rune (hd s) \<and> length s \<le> maxRunes \<and> \<not> IsForbidden uc v))"
proof (cases "utf8_runes v")
  case (Some s)
  obtain n where "DisplayWidth (uc_mark uc) s = Done n" using DisplayWidth_Done by blast
  with Some show ?thesis
    by (auto simp: ValidateParallelInstruction_def single_line_def list_ex_iff list_all_iff)
qed (simp add: ValidateParallelInstruction_def)

lemma FixedText_single_line:
  "\<exists>answer. FixedText uc kind instr = Done answer \<and> (case answer of None \<Rightarrow> True | Some s \<Rightarrow> single_line s)"
proof (cases kind)
  case SendKindParallelInstruction
  then show ?thesis using ValidateParallelInstruction_Done [of uc instr 200 190]
    by (cases "ValidateParallelInstruction uc instr 200 190") auto
qed (simp_all add: fixed_single_line)

end
