(* ===== verification/Stop_State.thy ===== *)
theory Stop_State
  imports Session
begin

text \<open>
  The emergency stop of the supervisor: \<^verbatim>\<open>src/internal/supervisor/usecase/stop_state.go\<close>. The state holds the flags in memory; the
  marker files \<^verbatim>\<open>STOP\<close> and \<^verbatim>\<open>STOP.<session>\<close> lie on the disk, where other programs create and remove them at any time. Every
  operation of the type is a function of this state and of the answers of the file system, and runs under the mutex of the
  type, so a history is a sequence of operations with changes from outside between them.
\<close>

section \<open>State and file system\<close>

record stop_state =
  st_global :: bool
  st_sessions :: "session_id list"
  st_markers :: "string list"
  st_removed :: "session_id list"

text \<open>
  The answers of the file system: \<open>Lstat\<close> may fail on a file, creating a file may fail before or after the file exists
  (\<open>MkdirAll\<close> or \<open>OpenFile\<close>, \<open>Chmod\<close> or \<open>Close\<close>), and \<open>Remove\<close> may fail.
\<close>

datatype write_answer = WriteOk | WriteNoFile | WriteCreated

record stop_io =
  sio_lstat_fails :: "string \<Rightarrow> bool"
  sio_write :: "string \<Rightarrow> write_answer"
  sio_remove_fails :: "string \<Rightarrow> bool"

datatype stop_error = StopFileError | StopInvalidSession | ErrStopActive | StillStoppedByGlobal | StopRecreated | StopStartError string

definition NewStopState :: "string list \<Rightarrow> stop_state" where
  "NewStopState markers = \<lparr>st_global = False, st_sessions = [], st_markers = markers, st_removed = []\<rparr>"

text \<open>\<open>filePath\<close> relative to the directory of the state.\<close>

definition filePath :: "string \<Rightarrow> string" where
  "filePath sid = (if sid = '''' then ''STOP'' else ''STOP'' @ ''.'' @ sid)"

definition markerExistsLocked :: "stop_io \<Rightarrow> string \<Rightarrow> stop_state \<Rightarrow> bool" where
  "markerExistsLocked io sid s \<longleftrightarrow> filePath sid \<in> set (st_markers s) \<or> sio_lstat_fails io (filePath sid)"

definition writeLocked :: "stop_io \<Rightarrow> string \<Rightarrow> stop_state \<Rightarrow> stop_state \<times> stop_error option" where
  "writeLocked io sid s =
     (let created = s\<lparr>st_markers := List.insert (filePath sid) (st_markers s)\<rparr>
      in case sio_write io (filePath sid) of
           WriteOk \<Rightarrow> (created, None)
         | WriteNoFile \<Rightarrow> (s, Some StopFileError)
         | WriteCreated \<Rightarrow> (created, Some StopFileError))"

section \<open>Operations\<close>

definition SetGlobal :: "bool \<Rightarrow> stop_state \<Rightarrow> stop_state" where
  "SetGlobal stopped s = s\<lparr>st_global := stopped\<rparr>"

definition SetSession :: "session_id \<Rightarrow> bool \<Rightarrow> stop_state \<Rightarrow> stop_state" where
  "SetSession sid stopped s =
     s\<lparr>st_sessions := (if stopped then List.insert sid (st_sessions s) else removeAll sid (st_sessions s))\<rparr>"

definition IsStopped :: "stop_io \<Rightarrow> session_id \<Rightarrow> stop_state \<Rightarrow> bool" where
  "IsStopped io sid s =
     (if st_global s \<or> sid \<in> set (st_sessions s) then True
      else if markerExistsLocked io '''' s then True
      else sid_string sid \<noteq> '''' \<and> markerExistsLocked io (sid_string sid) s)"

definition IsGlobalStopped :: "stop_io \<Rightarrow> stop_state \<Rightarrow> bool" where
  "IsGlobalStopped io s \<longleftrightarrow> st_global s \<or> markerExistsLocked io '''' s"

definition IsSessionStopped :: "stop_io \<Rightarrow> session_id \<Rightarrow> stop_state \<Rightarrow> bool" where
  "IsSessionStopped io sid s \<longleftrightarrow> sid \<in> set (st_sessions s) \<or> markerExistsLocked io (sid_string sid) s"

text \<open>The guards run their argument only when no stop is active; \<open>start\<close> and \<open>transition\<close> are its result.\<close>

definition GuardStart :: "stop_io \<Rightarrow> stop_error option \<Rightarrow> stop_state \<Rightarrow> bool \<times> stop_error option" where
  "GuardStart io start s =
     (if st_global s \<or> markerExistsLocked io '''' s then (False, Some ErrStopActive) else (True, start))"

definition GuardResume :: "stop_io \<Rightarrow> stop_scope \<Rightarrow> session_id \<Rightarrow> stop_error option \<Rightarrow> stop_state \<Rightarrow> bool \<times> stop_error option" where
  "GuardResume io scope sid transition s =
     (if st_global s \<or> markerExistsLocked io '''' s then (False, Some StillStoppedByGlobal)
      else if sid \<in> set (st_sessions s) \<or> markerExistsLocked io (sid_string sid) s
        then (False, Some (if scope = StopScopeGlobal then StillStoppedByGlobal else StopRecreated))
      else (True, transition))"

definition WriteGlobal :: "stop_io \<Rightarrow> stop_state \<Rightarrow> stop_state \<times> stop_error option" where
  "WriteGlobal io s = writeLocked io '''' s"

definition WriteSession :: "stop_io \<Rightarrow> session_id \<Rightarrow> stop_state \<Rightarrow> stop_state \<times> stop_error option" where
  "WriteSession io sid s =
     (if is_ok (NewSessionID (sid_string sid)) then writeLocked io (sid_string sid) s else (s, Some StopInvalidSession))"

definition EnableGlobal :: "stop_io \<Rightarrow> stop_state \<Rightarrow> stop_state \<times> stop_error option" where
  "EnableGlobal io s =
     (case writeLocked io '''' s of
        (s, Some e) \<Rightarrow> (s, Some e)
      | (s, None) \<Rightarrow> (s\<lparr>st_global := True\<rparr>, None))"

definition EnableSession :: "stop_io \<Rightarrow> session_id \<Rightarrow> stop_state \<Rightarrow> stop_state \<times> stop_error option" where
  "EnableSession io sid s =
     (if \<not> is_ok (NewSessionID (sid_string sid)) then (s, Some StopInvalidSession)
      else (case writeLocked io (sid_string sid) s of
          (s, Some e) \<Rightarrow> (s, Some e)
        | (s, None) \<Rightarrow> (SetSession sid True s, None)))"

text \<open>A file that does not exist is not an error of \<open>Remove\<close>.\<close>

definition ClearGlobal :: "stop_io \<Rightarrow> stop_state \<Rightarrow> stop_state \<times> stop_error option" where
  "ClearGlobal io s =
     (if sio_remove_fails io (filePath '''') then (s, Some StopFileError)
      else (s\<lparr>st_markers := removeAll (filePath '''') (st_markers s), st_global := False\<rparr>, None))"

definition ClearSession :: "stop_io \<Rightarrow> session_id \<Rightarrow> stop_state \<Rightarrow> stop_state \<times> stop_error option" where
  "ClearSession io sid s =
     (if \<not> is_ok (NewSessionID (sid_string sid)) then (s, Some StopInvalidSession)
      else if sio_remove_fails io (filePath (sid_string sid)) then (s, Some StopFileError)
      else (SetSession sid False (s\<lparr>st_markers := removeAll (filePath (sid_string sid)) (st_markers s)\<rparr>), None))"

text \<open>The repair of one marker, with the call of the removal handler.\<close>

definition repair_marker :: "stop_io \<Rightarrow> session_id \<Rightarrow> bool \<Rightarrow> stop_state \<Rightarrow> stop_state \<times> stop_error option" where
  "repair_marker io sid flagged s =
     (if flagged \<and> \<not> markerExistsLocked io (sid_string sid) s
      then writeLocked io (sid_string sid) (s\<lparr>st_removed := st_removed s @ [sid]\<rparr>)
      else (s, None))"

definition no_session :: session_id where
  "no_session = SessionID ''''"

definition CheckAndRepair :: "stop_io \<Rightarrow> session_id \<Rightarrow> stop_state \<Rightarrow> stop_state \<times> stop_error option" where
  "CheckAndRepair io sid s =
     (case repair_marker io no_session (st_global s) s of
        (s, Some e) \<Rightarrow> (s, Some e)
      | (s, None) \<Rightarrow> repair_marker io sid (sid_string sid \<noteq> '''' \<and> sid \<in> set (st_sessions s)) s)"

text \<open>\<open>Poll\<close> first latches the markers it finds, then repairs the ones that are missing.\<close>

definition latch :: "stop_io \<Rightarrow> session_id \<Rightarrow> stop_state \<Rightarrow> stop_state" where
  "latch io sid s =
     (let s = (if markerExistsLocked io '''' s then s\<lparr>st_global := True\<rparr> else s)
      in if sid_string sid \<noteq> '''' \<and> markerExistsLocked io (sid_string sid) s then SetSession sid True s else s)"

definition Poll :: "stop_io \<Rightarrow> session_id \<Rightarrow> stop_state \<Rightarrow> stop_state \<times> stop_error option" where
  "Poll io sid s =
     (let s = latch io sid s
      in case repair_marker io no_session (st_global s) s of
           (s, Some e) \<Rightarrow> (s, Some e)
         | (s, None) \<Rightarrow> repair_marker io sid (sid_string sid \<noteq> '''' \<and> sid \<in> set (st_sessions s)) s)"

fun restore_flags :: "managed_session list \<Rightarrow> stop_state \<Rightarrow> stop_state" where
  "restore_flags [] s = s"
| "restore_flags (m # ms) s =
     restore_flags ms
       (if \<not> is_ok (NewSessionID (sid_string (ms_SessionID m))) then s
        else (case ms_StopScope m of
            StopScopeGlobal \<Rightarrow> s\<lparr>st_global := True\<rparr>
          | StopScopeSession \<Rightarrow> SetSession (ms_SessionID m) True s
          | _ \<Rightarrow> s))"

fun repair_sessions :: "stop_io \<Rightarrow> session_id list \<Rightarrow> stop_state \<Rightarrow> stop_state \<times> stop_error option" where
  "repair_sessions io [] s = (s, None)"
| "repair_sessions io (sid # sids) s =
     (case repair_marker io sid True s of
        (s, Some e) \<Rightarrow> (s, Some e)
      | (s, None) \<Rightarrow> repair_sessions io sids s)"

text \<open>The source repairs the sessions in the order in which Go iterates over the map: \<open>order\<close> is that order.\<close>

definition RepairFromSessions :: "stop_io \<Rightarrow> (session_id list \<Rightarrow> session_id list) \<Rightarrow> managed_session list \<Rightarrow> stop_state
    \<Rightarrow> stop_state \<times> stop_error option" where
  "RepairFromSessions io order sessions s =
     (let s = restore_flags sessions s
      in case repair_marker io no_session (st_global s) s of
           (s, Some e) \<Rightarrow> (s, Some e)
         | (s, None) \<Rightarrow> repair_sessions io (order (st_sessions s)) s)"

section \<open>Histories\<close>

datatype stop_op =
    OpSetGlobal bool
  | OpSetSession session_id bool
  | OpWriteGlobal stop_io
  | OpWriteSession stop_io session_id
  | OpEnableGlobal stop_io
  | OpEnableSession stop_io session_id
  | OpClearGlobal stop_io
  | OpClearSession stop_io session_id
  | OpCheckAndRepair stop_io session_id
  | OpPoll stop_io session_id
  | OpRepairFromSessions stop_io "session_id list \<Rightarrow> session_id list" "managed_session list"
  | OutsideChange "string list"

fun stop_step :: "stop_op \<Rightarrow> stop_state \<Rightarrow> stop_state" where
  "stop_step (OpSetGlobal b) s = SetGlobal b s"
| "stop_step (OpSetSession sid b) s = SetSession sid b s"
| "stop_step (OpWriteGlobal io) s = fst (WriteGlobal io s)"
| "stop_step (OpWriteSession io sid) s = fst (WriteSession io sid s)"
| "stop_step (OpEnableGlobal io) s = fst (EnableGlobal io s)"
| "stop_step (OpEnableSession io sid) s = fst (EnableSession io sid s)"
| "stop_step (OpClearGlobal io) s = fst (ClearGlobal io s)"
| "stop_step (OpClearSession io sid) s = fst (ClearSession io sid s)"
| "stop_step (OpCheckAndRepair io sid) s = fst (CheckAndRepair io sid s)"
| "stop_step (OpPoll io sid) s = fst (Poll io sid s)"
| "stop_step (OpRepairFromSessions io order ms) s = fst (RepairFromSessions io order ms s)"
| "stop_step (OutsideChange markers) s = s\<lparr>st_markers := markers\<rparr>"

text \<open>The operations that give up the stop of all sessions, or of one.\<close>

fun releases_global :: "stop_op \<Rightarrow> bool" where
  "releases_global (OpSetGlobal b) = (\<not> b)"
| "releases_global (OpClearGlobal io) = True"
| "releases_global _ = False"

fun releases_session :: "session_id \<Rightarrow> stop_op \<Rightarrow> bool" where
  "releases_session sid (OpSetSession x b) = (x = sid \<and> \<not> b)"
| "releases_session sid (OpClearSession io x) = (x = sid)"
| "releases_session sid _ = False"

lemma writeLocked_flags [simp]:
  "st_global (fst (writeLocked io sid s)) = st_global s" "st_sessions (fst (writeLocked io sid s)) = st_sessions s"
  by (simp_all add: writeLocked_def Let_def split: write_answer.split)

lemma repair_marker_flags [simp]:
  "st_global (fst (repair_marker io sid b s)) = st_global s" "st_sessions (fst (repair_marker io sid b s)) = st_sessions s"
  by (simp_all add: repair_marker_def)

lemma repair_sessions_flags [simp]:
  "st_global (fst (repair_sessions io sids s)) = st_global s \<and> st_sessions (fst (repair_sessions io sids s)) = st_sessions s"
proof (induction io sids s rule: repair_sessions.induct)
  case (2 io sid sids s)
  obtain s' e where "repair_marker io sid True s = (s', e)" by (rule prod.exhaust)
  with 2 repair_marker_flags [of io sid True s] show ?case by (cases e) auto
qed simp

lemma then_repair_flags:
  assumes "\<And>s'. repair_marker io sid b s = (s', None) \<Longrightarrow> st_global (fst (f s')) = st_global s' \<and> st_sessions (fst (f s')) = st_sessions s'"
  shows "st_global (fst (case repair_marker io sid b s of (s, Some e) \<Rightarrow> (s, Some e) | (s, None) \<Rightarrow> f s)) = st_global s
    \<and> st_sessions (fst (case repair_marker io sid b s of (s, Some e) \<Rightarrow> (s, Some e) | (s, None) \<Rightarrow> f s)) = st_sessions s"
proof -
  obtain s' e where r: "repair_marker io sid b s = (s', e)" by (rule prod.exhaust)
  with repair_marker_flags [of io sid b s] assms [of s'] show ?thesis by (cases e) auto
qed

lemma CheckAndRepair_flags [simp]:
  "st_global (fst (CheckAndRepair io sid s)) = st_global s \<and> st_sessions (fst (CheckAndRepair io sid s)) = st_sessions s"
  unfolding CheckAndRepair_def by (rule then_repair_flags) simp

lemma Poll_flags:
  "st_global (fst (Poll io sid s)) = st_global (latch io sid s) \<and> st_sessions (fst (Poll io sid s)) = st_sessions (latch io sid s)"
  unfolding Poll_def Let_def by (rule then_repair_flags) simp

lemma RepairFromSessions_flags:
  "st_global (fst (RepairFromSessions io order ms s)) = st_global (restore_flags ms s)
   \<and> st_sessions (fst (RepairFromSessions io order ms s)) = st_sessions (restore_flags ms s)"
  unfolding RepairFromSessions_def Let_def by (rule then_repair_flags) simp

lemma latch_flags:
  "st_global (latch io sid s) \<longleftrightarrow> st_global s \<or> markerExistsLocked io '''' s"
  "set (st_sessions (latch io sid s)) = set (st_sessions s) \<union> (if sid_string sid \<noteq> '''' \<and> markerExistsLocked io (sid_string sid) s then {sid} else {})"
  by (auto simp: latch_def Let_def SetSession_def markerExistsLocked_def)

lemma restore_flags_global:
  "st_global (restore_flags ms s) \<longleftrightarrow> st_global s \<or> (\<exists>m \<in> set ms. is_ok (NewSessionID (sid_string (ms_SessionID m))) \<and> ms_StopScope m = StopScopeGlobal)"
  by (induction ms s rule: restore_flags.induct) (auto simp: SetSession_def split: stop_scope.split)

lemma restore_flags_sessions:
  "set (st_sessions (restore_flags ms s)) =
     set (st_sessions s) \<union> {ms_SessionID m | m. m \<in> set ms \<and> is_ok (NewSessionID (sid_string (ms_SessionID m))) \<and> ms_StopScope m = StopScopeSession}"
  by (induction ms s rule: restore_flags.induct) (auto simp: SetSession_def split: stop_scope.split)

lemma stop_step_global: "st_global s \<Longrightarrow> \<not> releases_global op \<Longrightarrow> st_global (stop_step op s)"
  by (cases op)
     (auto simp: SetGlobal_def SetSession_def WriteGlobal_def WriteSession_def EnableGlobal_def EnableSession_def ClearSession_def
        Poll_flags RepairFromSessions_flags latch_flags restore_flags_global split: prod.split option.split
        dest: arg_cong [where f = "\<lambda>p. st_global (fst p)"])

lemma stop_step_session: "sid \<in> set (st_sessions s) \<Longrightarrow> \<not> releases_session sid op \<Longrightarrow> sid \<in> set (st_sessions (stop_step op s))"
  by (cases op)
     (auto simp: SetGlobal_def SetSession_def WriteGlobal_def WriteSession_def EnableGlobal_def EnableSession_def ClearSession_def ClearGlobal_def
        Poll_flags RepairFromSessions_flags latch_flags restore_flags_sessions split: prod.split option.split
        dest: arg_cong [where f = "\<lambda>p. st_sessions (fst p)"])

lemma run_global: "st_global s \<Longrightarrow> list_all (\<lambda>op. \<not> releases_global op) ops \<Longrightarrow> st_global (fold stop_step ops s)"
  by (induction ops arbitrary: s) (auto simp: stop_step_global)

lemma run_session:
  "sid \<in> set (st_sessions s) \<Longrightarrow> list_all (\<lambda>op. \<not> releases_session sid op) ops \<Longrightarrow> sid \<in> set (st_sessions (fold stop_step ops s))"
  by (induction ops arbitrary: s) (auto simp: stop_step_session)

text \<open>
  C28: a stop that was seen stays. Once a poll has found the marker file of all sessions (a marker whose absence cannot be
  established counts as found), or a restart has found a session that was
  stored as stopped for all, then whatever operations follow and whatever happens to the files, as long as
  nobody gives the stop up, every session counts as stopped, no start and no resume runs, and a later poll that succeeds
  leaves the marker file on the disk again, or cannot rule out that it is there because looking it up fails.
\<close>

theorem stop_latched:
  assumes "s1 = fst (Poll io sid s) \<and> markerExistsLocked io '''' s
      \<or> s1 = fst (RepairFromSessions io order ms s) \<and> m \<in> set ms \<and> is_ok (NewSessionID (sid_string (ms_SessionID m))) \<and> ms_StopScope m = StopScopeGlobal"
    and "list_all (\<lambda>op. \<not> releases_global op) ops"
  shows "IsStopped io' other (fold stop_step ops s1) \<and> \<not> fst (GuardStart io' start (fold stop_step ops s1))
     \<and> \<not> fst (GuardResume io' scope other tr (fold stop_step ops s1))
     \<and> (snd (Poll io' other (fold stop_step ops s1)) = None \<longrightarrow>
          markerExistsLocked io' '''' (fst (Poll io' other (fold stop_step ops s1))))"
proof -
  have "st_global s1" using assms(1) by (auto simp: Poll_flags latch_flags RepairFromSessions_flags restore_flags_global)
  then have g: "st_global (fold stop_step ops s1)" using assms(2) by (rule run_global)
  moreover have "markerExistsLocked io' '''' (fst (Poll io' other v))" if "st_global v" "snd (Poll io' other v) = None" for v
  proof -
    let ?l = "latch io' other v"
    have gl: "st_global ?l" using that(1) by (simp add: latch_flags)
    obtain v1 e where r: "repair_marker io' no_session (st_global ?l) ?l = (v1, e)" by (rule prod.exhaust)
    have "e = None" using that(2) r by (cases e) (auto simp: Poll_def Let_def)
    with r gl have "markerExistsLocked io' '''' v1"
      by (auto simp: repair_marker_def markerExistsLocked_def writeLocked_def Let_def no_session_def split: if_splits write_answer.splits)
    then show ?thesis using r \<open>e = None\<close>
      by (auto simp: Poll_def Let_def repair_marker_def markerExistsLocked_def writeLocked_def split: write_answer.split)
  qed
  ultimately show ?thesis by (simp add: IsStopped_def GuardStart_def GuardResume_def)
qed

definition quiet_io :: stop_io where
  "quiet_io = \<lparr>sio_lstat_fails = (\<lambda>_. False), sio_write = (\<lambda>_. WriteOk), sio_remove_fails = (\<lambda>_. False)\<rparr>"

theorem stop_latched_witness:
  "IsStopped quiet_io (SessionID ''s1'') (fold stop_step [OutsideChange [], OpPoll quiet_io (SessionID ''s1''), OutsideChange []]
       (fst (Poll quiet_io (SessionID ''s1'') (NewStopState [''STOP'']))))
   \<and> \<not> IsStopped quiet_io (SessionID ''s1'') (NewStopState [])"
proof
  have m: "markerExistsLocked quiet_io '''' (NewStopState [''STOP''])" by code_simp
  have o: "list_all (\<lambda>op. \<not> releases_global op) [OutsideChange [], OpPoll quiet_io (SessionID ''s1''), OutsideChange []]" by simp
  show "IsStopped quiet_io (SessionID ''s1'') (fold stop_step [OutsideChange [], OpPoll quiet_io (SessionID ''s1''), OutsideChange []]
       (fst (Poll quiet_io (SessionID ''s1'') (NewStopState [''STOP'']))))"
    using stop_latched [OF disjI1 [OF conjI [OF refl m]] o] by blast
  show "\<not> IsStopped quiet_io (SessionID ''s1'') (NewStopState [])" by code_simp
qed

text \<open>The stop of a single session, in the same way.\<close>

lemma session_stop_latched:
  assumes "sid_string sid \<noteq> ''''" and "markerExistsLocked io (sid_string sid) s" and "list_all (\<lambda>op. \<not> releases_session sid op) ops"
  shows "IsStopped io' sid (fold stop_step ops (fst (Poll io sid s)))"
proof -
  have "sid \<in> set (st_sessions (fst (Poll io sid s)))" using assms(1,2) by (simp add: Poll_flags latch_flags)
  with assms(3) show ?thesis by (simp add: IsStopped_def run_session)
qed

end
