(* ===== verification/Exit_Send.thy ===== *)
theory Exit_Send
  imports Screen_Detect
begin

text \<open>
  How the outcome of a send is recorded: the end of \<^verbatim>\<open>src/internal/supervisor/usecase/send_input.go\<close>. For most sends the thread that sends
  also records the outcome. The send of \<^verbatim>\<open>/exit\<close> at the end of a handoff is different: two threads, the sender and the observer of the
  terminal, share a record of it, and either of them may decide the outcome inside an update of the stored session. The
  operations on the record are functions; their interleavings are the step relation \<open>exit_step\<close>.
\<close>

section \<open>Sends and their events\<close>

record send_input =
  sin_SessionID :: session_id
  sin_Kind :: send_kind
  sin_OperatorText :: row
  sin_Origin :: send_origin
  sin_ConfirmTimeout :: duration

record sup_event_record =
  er_Kind :: string
  er_SessionID :: session_id
  er_SendID :: string
  er_SendKind :: "send_kind option"
  er_Code :: string
  er_TextLength :: "nat option"
  er_Reason :: "send_blocked_reason option"

definition sendEvent :: "string \<Rightarrow> send_input \<Rightarrow> pending_send \<Rightarrow> string \<Rightarrow> sup_event_record" where
  "sendEvent kind inp p code =
     \<lparr>er_Kind = kind, er_SessionID = sin_SessionID inp, er_SendID = pnd_SendID p, er_SendKind = Some (pnd_Kind p), er_Code = code,
      er_TextLength = (if sin_Kind inp = SendKindOperatorInput then Some (length (sin_OperatorText inp)) else None), er_Reason = None\<rparr>"

definition applySendConfirmation :: "pending_send \<Rightarrow> go_time \<Rightarrow> managed_session \<Rightarrow> managed_session" where
  "applySendConfirmation p at v =
     v\<lparr>ms_SendGate := (ms_SendGate v)\<lparr>sg_Pending := None, sg_EverSent := True, sg_LastSendConfirmed := True,
          sg_LastConfirmedAt := Some at, sg_UnconfirmedDiscarded := False\<rparr>,
       ms_RemoteControlConfirmed := (if pnd_Kind p = SendKindRemoteControl then True else ms_RemoteControlConfirmed v),
       ms_LastSend := Some \<lparr>lsr_SendID = pnd_SendID p, lsr_Kind = pnd_Kind p, lsr_IssuedAt = pnd_IssuedAt p, lsr_Confirmed = True\<rparr>\<rparr>"

definition stop_unless_handoff :: "send_origin \<Rightarrow> stop_reason \<Rightarrow> managed_session \<Rightarrow> managed_session" where
  "stop_unless_handoff origin reason v =
     (if origin \<noteq> SendOriginHandoff \<and> ms_State v \<noteq> SessionStopped then v\<lparr>ms_State := SessionStopped, ms_StopReason := reason\<rparr> else v)"

section \<open>The record of an exit send\<close>

datatype exit_write_state = ExitBeforeCR | ExitWritingCR | ExitCRSucceeded | ExitCRFailed

datatype exit_result_state = ExitUndecided | ExitConfirmed | ExitUnconfirmed

text \<open>
  \<open>es_ref\<close> stands for the identity of the record, which the source compares as a pointer; \<open>es_owner\<close> for the identity of
  the terminal, \<open>None\<close> when it has none. \<open>es_saving\<close> is the reservation of an update that is not published yet.
\<close>

record exit_send =
  es_ref :: nat
  es_pending :: pending_send
  es_in :: send_input
  es_owner :: "nat option"
  es_marked :: bool
  es_write :: exit_write_state
  es_exited :: bool
  es_exitAfterMark :: bool
  es_result :: exit_result_state
  es_saving :: "exit_result_state option"

record exit_commit =
  tx_reserved :: "exit_result_state option"
  tx_confirmed :: bool
  tx_event :: "sup_event_record option"

definition no_commit :: exit_commit where
  "no_commit = \<lparr>tx_reserved = None, tx_confirmed = False, tx_event = None\<rparr>"

definition new_exit_send :: "nat \<Rightarrow> pending_send \<Rightarrow> send_input \<Rightarrow> nat option \<Rightarrow> exit_send" where
  "new_exit_send ref p inp owner =
     \<lparr>es_ref = ref, es_pending = p, es_in = inp, es_owner = owner, es_marked = False, es_write = ExitBeforeCR, es_exited = False,
      es_exitAfterMark = False, es_result = ExitUndecided, es_saving = None\<rparr>"

definition beginExitCR :: "nat \<Rightarrow> exit_send option \<Rightarrow> exit_send option \<times> bool" where
  "beginExitCR ref cur =
     (case cur of
        None \<Rightarrow> (cur, False)
      | Some r \<Rightarrow>
          if es_ref r \<noteq> ref \<or> es_owner r = None \<or> es_exited r \<or> es_write r \<noteq> ExitBeforeCR then (cur, False)
          else (Some (r\<lparr>es_marked := True, es_write := ExitWritingCR\<rparr>), True))"

definition endExitCR :: "nat \<Rightarrow> bool \<Rightarrow> exit_send option \<Rightarrow> exit_send option" where
  "endExitCR ref success cur =
     (case cur of
        None \<Rightarrow> cur
      | Some r \<Rightarrow>
          if es_ref r \<noteq> ref \<or> \<not> es_marked r then cur
          else Some (r\<lparr>es_write := (if success then ExitCRSucceeded else ExitCRFailed)\<rparr>))"

definition collectExit :: "nat \<Rightarrow> exit_send option \<Rightarrow> exit_send option" where
  "collectExit ref cur =
     (case cur of None \<Rightarrow> None | Some r \<Rightarrow> if es_ref r = ref then None else cur)"

definition exitOwner :: "string \<Rightarrow> exit_send option \<Rightarrow> nat option" where
  "exitOwner sendID cur =
     (case cur of None \<Rightarrow> None | Some r \<Rightarrow> if pnd_SendID (es_pending r) = sendID then es_owner r else None)"

definition recorded_confirmed :: "pending_send \<Rightarrow> managed_session \<Rightarrow> bool" where
  "recorded_confirmed p v =
     (case ms_LastSend v of
        None \<Rightarrow> False
      | Some l \<Rightarrow> lsr_SendID l = pnd_SendID p \<and> lsr_Kind l = pnd_Kind p \<and> lsr_Confirmed l)"

definition owns_exit :: "pending_send \<Rightarrow> nat option \<Rightarrow> exit_send \<Rightarrow> bool" where
  "owns_exit p owner r \<longleftrightarrow> owner \<noteq> None \<and> es_owner r = owner \<and> pnd_SendID (es_pending r) = pnd_SendID p"

text \<open>\<open>decideExit\<close>, which runs inside an update of the session \<open>v\<close>.\<close>

definition cr_proof :: "pending_send \<Rightarrow> exit_send \<Rightarrow> managed_session \<Rightarrow> managed_session" where
  "cr_proof p r v =
     (if es_marked r \<and> es_write r = ExitCRSucceeded
      then v\<lparr>ms_LastSend := Some \<lparr>lsr_SendID = pnd_SendID p, lsr_Kind = pnd_Kind p, lsr_IssuedAt = pnd_IssuedAt p, lsr_Confirmed = False\<rparr>\<rparr>
      else v)"

definition exit_confirmed :: "bool \<Rightarrow> exit_send \<Rightarrow> bool" where
  "exit_confirmed expired r \<longleftrightarrow> \<not> expired \<and> es_marked r \<and> es_write r = ExitCRSucceeded \<and> es_exited r \<and> es_exitAfterMark r"

definition decideExit :: "go_time \<Rightarrow> pending_send \<Rightarrow> nat option \<Rightarrow> bool \<Rightarrow> managed_session \<times> exit_send option
    \<Rightarrow> (managed_session \<times> exit_send option) \<times> exit_commit" where
  "decideExit at p owner expired w =
     (case w of (v, cur) \<Rightarrow>
        if recorded_confirmed p v then (w, no_commit\<lparr>tx_confirmed := True\<rparr>)
        else (case cur of
            None \<Rightarrow> (w, no_commit)
          | Some r \<Rightarrow>
              if \<not> owns_exit p owner r \<or> es_result r \<noteq> ExitUndecided then (w, no_commit)
              else if \<not> exit_confirmed expired r \<and> \<not> expired then ((cr_proof p r v, cur), no_commit)
              else if exit_confirmed expired r then
                ((applySendConfirmation p at (cr_proof p r v), Some (r\<lparr>es_saving := Some ExitConfirmed\<rparr>)),
                 \<lparr>tx_reserved = Some ExitConfirmed, tx_confirmed = True, tx_event = Some (sendEvent ''send_confirmed'' (es_in r) p '''')\<rparr>)
              else
                ((stop_unless_handoff (sin_Origin (es_in r)) StopSendNotConfirmed (cr_proof p r v), Some (r\<lparr>es_saving := Some ExitUnconfirmed\<rparr>)),
                 \<lparr>tx_reserved = Some ExitUnconfirmed, tx_confirmed = False,
                  tx_event = Some (sendEvent ''send_unconfirmed'' (es_in r) p ''SUP_SEND_NOT_CONFIRMED'')\<rparr>)))"

definition see_exit :: "pending_send \<Rightarrow> nat option \<Rightarrow> exit_send \<Rightarrow> exit_send" where
  "see_exit p owner r = (if owns_exit p owner r \<and> \<not> es_exited r then r\<lparr>es_exited := True, es_exitAfterMark := es_marked r\<rparr> else r)"

definition observeExit :: "go_time \<Rightarrow> pending_send \<Rightarrow> nat option \<Rightarrow> managed_session \<times> exit_send option
    \<Rightarrow> (managed_session \<times> exit_send option) \<times> exit_commit" where
  "observeExit at p owner w =
     (case w of
        (v, None) \<Rightarrow> (w, no_commit)
      | (v, Some r) \<Rightarrow>
          if \<not> owns_exit p owner r then (w, no_commit)
          else decideExit at p owner False (v, Some (see_exit p owner r)))"

text \<open>
  \<open>updateExitSession\<close> after the update function has run: when the session could not be saved the stored session stays, and the
  reservation is dropped without a result. \<open>published\<close> is the bookkeeping after the session lock is released.
\<close>

definition published :: "nat \<Rightarrow> exit_result_state option \<Rightarrow> exit_send option \<Rightarrow> exit_send option" where
  "published ref result cur =
     (case cur of
        None \<Rightarrow> None
      | Some r \<Rightarrow>
          if es_ref r \<noteq> ref then cur
          else Some (r\<lparr>es_result := (case result of None \<Rightarrow> es_result r | Some x \<Rightarrow> x), es_saving := None\<rparr>))"

section \<open>Interleavings of sender and observer\<close>

text \<open>
  A run for one session: the stored session, the record in the map, the reservations that are not yet published (the identity of
  their record and, when the session was saved, the result), the send identifiers and record identities used so far, and the log of
  what happened.
\<close>

datatype exit_fact = Marked string | CRWritten string | ExitSeen string | Decided string exit_result_state

record exit_run =
  xr_session :: managed_session
  xr_exit :: "exit_send option"
  xr_open :: "(nat \<times> exit_result_state option) list"
  xr_ids :: "string list"
  xr_refs :: "nat list"
  xr_log :: "exit_fact list"

definition reserved :: "exit_run \<Rightarrow> bool" where
  "reserved s \<longleftrightarrow> (case xr_exit s of None \<Rightarrow> False | Some r \<Rightarrow> es_saving r \<noteq> None)"

definition cur_id :: "exit_run \<Rightarrow> string" where
  "cur_id s = (case xr_exit s of None \<Rightarrow> '''' | Some r \<Rightarrow> pnd_SendID (es_pending r))"

text \<open>
  One update of the session with the answer \<open>cm\<close> of the update function: a failed save keeps the stored session; a reservation
  stays open until it is published.
\<close>

definition commit_update :: "bool \<Rightarrow> (managed_session \<times> exit_send option) \<times> exit_commit \<Rightarrow> exit_run \<Rightarrow> exit_run" where
  "commit_update saved answer s =
     (case answer of ((v, cur), cm) \<Rightarrow>
        s\<lparr>xr_session := (if saved then v else xr_session s), xr_exit := cur,
          xr_open := (case (tx_reserved cm, cur) of
              (Some res, Some r) \<Rightarrow> (es_ref r, if saved then Some res else None) # xr_open s
            | _ \<Rightarrow> xr_open s),
          xr_log := (case tx_reserved cm of
              Some res \<Rightarrow> if saved then xr_log s @ [Decided (cur_id s) res] else xr_log s
            | None \<Rightarrow> xr_log s)\<rparr>)"

definition log_exit :: "pending_send \<Rightarrow> nat option \<Rightarrow> exit_run \<Rightarrow> exit_run" where
  "log_exit p owner s =
     (case xr_exit s of
        None \<Rightarrow> s
      | Some r \<Rightarrow> if owns_exit p owner r \<and> \<not> es_exited r then s\<lparr>xr_log := xr_log s @ [ExitSeen (pnd_SendID p)]\<rparr> else s)"

inductive exit_step :: "exit_run \<Rightarrow> exit_run \<Rightarrow> bool" where
  issue: "pnd_SendID p \<notin> set (xr_ids s) \<Longrightarrow> ref \<notin> set (xr_refs s) \<Longrightarrow> ms_LastSend v = ms_LastSend (xr_session s) \<Longrightarrow>
    exit_step s (s\<lparr>xr_session := v, xr_exit := Some (new_exit_send ref p inp owner), xr_ids := pnd_SendID p # xr_ids s, xr_refs := ref # xr_refs s\<rparr>)"
| mark: "beginExitCR ref (xr_exit s) = (cur, True) \<Longrightarrow>
    exit_step s (s\<lparr>xr_exit := cur, xr_log := xr_log s @ [Marked (cur_id s)]\<rparr>)"
| written: "xr_exit s = Some r \<Longrightarrow> es_ref r = ref \<Longrightarrow> es_marked r \<Longrightarrow>
    exit_step s (s\<lparr>xr_exit := endExitCR ref True (xr_exit s), xr_log := xr_log s @ [CRWritten (cur_id s)]\<rparr>)"
| write_failed: "exit_step s (s\<lparr>xr_exit := endExitCR ref False (xr_exit s)\<rparr>)"
| resolve: "\<not> reserved s \<Longrightarrow>
    exit_step s (commit_update saved (decideExit at p owner expired (xr_session s, xr_exit s)) s)"
| observe: "\<not> reserved s \<Longrightarrow>
    exit_step s (commit_update saved (observeExit at p owner (xr_session s, xr_exit s)) (log_exit p owner s))"
| publish: "(ref, result) \<in> set (xr_open s) \<Longrightarrow>
    exit_step s (s\<lparr>xr_exit := published ref result (xr_exit s), xr_open := remove1 (ref, result) (xr_open s)\<rparr>)"
| collect: "exit_step s (s\<lparr>xr_exit := collectExit ref (xr_exit s)\<rparr>)"
| other_update: "ms_LastSend v = ms_LastSend (xr_session s) \<Longrightarrow> exit_step s (s\<lparr>xr_session := v\<rparr>)"

inductive exit_reach :: "exit_run \<Rightarrow> exit_run \<Rightarrow> bool" for s0 where
  start: "exit_reach s0 s0"
| step: "exit_reach s0 s \<Longrightarrow> exit_step s s' \<Longrightarrow> exit_reach s0 s'"

inductive_cases exit_stepE: "exit_step s s'"

definition exit_start :: "managed_session \<Rightarrow> exit_run" where
  "exit_start v = \<lparr>xr_session = v, xr_exit = None, xr_open = [], xr_ids = [], xr_refs = [], xr_log = []\<rparr>"

section \<open>The outcome is decided once, and truthfully\<close>

fun decided :: "string \<Rightarrow> exit_fact \<Rightarrow> bool" where
  "decided i (Decided j res) = (i = j)"
| "decided i _ = False"

definition decisions :: "string \<Rightarrow> exit_fact list \<Rightarrow> nat" where
  "decisions i log = length (filter (decided i) log)"

text \<open>What the log proves of the record \<open>r\<close>, and how its reservation shows.\<close>

definition record_backed :: "exit_fact list \<Rightarrow> exit_send \<Rightarrow> bool" where
  "record_backed log r \<longleftrightarrow>
     (let i = pnd_SendID (es_pending r)
      in (es_marked r \<longrightarrow> subseq [Marked i] log)
         \<and> (es_marked r \<and> es_write r = ExitCRSucceeded \<longrightarrow> subseq [Marked i, CRWritten i] log)
         \<and> (es_exited r \<and> es_exitAfterMark r \<longrightarrow> subseq [Marked i, ExitSeen i] log))"

definition record_settled :: "(nat \<times> exit_result_state option) list \<Rightarrow> exit_fact list \<Rightarrow> exit_send \<Rightarrow> bool" where
  "record_settled opened log r \<longleftrightarrow>
     length (filter (\<lambda>e. fst e = es_ref r) opened) \<le> (if es_saving r = None then 0 else 1)
     \<and> (es_result r = ExitUndecided \<longrightarrow>
          (\<forall>res. Decided (pnd_SendID (es_pending r)) res \<in> set log \<longrightarrow> (es_ref r, Some res) \<in> set opened))"

definition log_sound :: "exit_fact list \<Rightarrow> bool" where
  "log_sound log \<longleftrightarrow>
     (\<forall>i. decisions i log \<le> 1)
     \<and> (\<forall>i. Decided i ExitConfirmed \<in> set log \<longrightarrow>
          subseq [Marked i, CRWritten i, Decided i ExitConfirmed] log \<and> subseq [Marked i, ExitSeen i, Decided i ExitConfirmed] log)"

definition exit_inv :: "managed_session \<Rightarrow> exit_run \<Rightarrow> bool" where
  "exit_inv v0 s \<longleftrightarrow>
     (case xr_exit s of
        None \<Rightarrow> True
      | Some r \<Rightarrow> record_backed (xr_log s) r \<and> record_settled (xr_open s) (xr_log s) r
           \<and> pnd_SendID (es_pending r) \<in> set (xr_ids s) \<and> es_ref r \<in> set (xr_refs s))
     \<and> (\<forall>i res. Decided i res \<in> set (xr_log s) \<longrightarrow> i \<in> set (xr_ids s))
     \<and> (\<forall>e \<in> set (xr_open s). fst e \<in> set (xr_refs s) \<and> snd e \<noteq> Some ExitUndecided)
     \<and> log_sound (xr_log s)
     \<and> (ms_LastSend (xr_session s) = ms_LastSend v0
        \<or> (\<exists>l. ms_LastSend (xr_session s) = Some l \<and> (lsr_Confirmed l \<longrightarrow> Decided (lsr_SendID l) ExitConfirmed \<in> set (xr_log s))))"

lemma subseq_snoc: "subseq xs log \<Longrightarrow> subseq xs (log @ ys)"
  by (metis append_Nil2 list_emb_append_mono list_emb_Nil)

lemma subseq_snoc_both: "subseq xs log \<Longrightarrow> subseq (xs @ [f]) (log @ [f])"
  by (rule list_emb_append_mono) simp_all

lemma subseq_after: "f \<in> set log \<Longrightarrow> subseq [f, g] (log @ [g])"
  using subseq_snoc_both [of "[f]" log g] by (simp add: subseq_singleton_left)

lemma log_sound_snoc:
  assumes "log_sound log" and "\<And>i res. f \<noteq> Decided i res"
  shows "log_sound (log @ [f])"
  using assms subseq_snoc by (cases f) (auto simp: log_sound_def decisions_def)

lemma record_backed_snoc: "record_backed log r \<Longrightarrow> record_backed (log @ [f]) r"
  by (auto simp: record_backed_def Let_def intro: subseq_snoc)

lemma record_settled_snoc:
  assumes "record_settled opened log r" and "\<And>i res. f \<noteq> Decided i res"
  shows "record_settled opened (log @ [f]) r"
  using assms by (auto simp: record_settled_def)

lemma decide_sound:
  assumes "log_sound log" and "record_backed log r" and "record_settled opened log r" and "es_saving r = None" and "es_result r = ExitUndecided"
    and "res = ExitConfirmed \<Longrightarrow> es_marked r \<and> es_write r = ExitCRSucceeded \<and> es_exited r \<and> es_exitAfterMark r"
  shows "log_sound (log @ [Decided (pnd_SendID (es_pending r)) res])"
proof -
  let ?i = "pnd_SendID (es_pending r)"
  have "filter (\<lambda>e. fst e = es_ref r) opened = []" using assms(3,4) by (simp add: record_settled_def)
  then have "Decided ?i x \<notin> set log" for x using assms(3,5) by (fastforce simp: record_settled_def filter_empty_conv)
  then have none: "filter (decided ?i) log = []" by (auto simp: filter_empty_conv elim!: decided.elims)
  have "decisions i (log @ [Decided ?i res]) \<le> 1" for i
    using assms(1) none by (auto simp: log_sound_def decisions_def)
  moreover have "subseq ([Marked ?i, CRWritten ?i] @ [Decided ?i res]) (log @ [Decided ?i res])"
    "subseq ([Marked ?i, ExitSeen ?i] @ [Decided ?i res]) (log @ [Decided ?i res])" if "res = ExitConfirmed"
    using assms(2) assms(6) [OF that] subseq_snoc_both [of "[Marked ?i, CRWritten ?i]" log "Decided ?i res"]
      subseq_snoc_both [of "[Marked ?i, ExitSeen ?i]" log "Decided ?i res"]
    by (simp_all add: record_backed_def Let_def del: append_Cons)
  ultimately show ?thesis using assms(1) subseq_snoc unfolding log_sound_def by auto
qed

lemma decideExit_cases:
  assumes "decideExit at p owner expired (v, cur) = ((v', cur'), cm)"
  obtains "tx_reserved cm = None" and "cur' = cur" and "v' = v \<or> (\<exists>r. v' = cr_proof p r v)"
  | r res where "cur = Some r" and "es_result r = ExitUndecided" and "pnd_SendID (es_pending r) = pnd_SendID p" and "tx_reserved cm = Some res"
      and "res \<noteq> ExitUndecided" and "cur' = Some (r\<lparr>es_saving := Some res\<rparr>)" and "res = ExitConfirmed \<Longrightarrow> exit_confirmed expired r"
      and "ms_LastSend v' = ms_LastSend (cr_proof p r v)
        \<or> res = ExitConfirmed \<and> ms_LastSend v' = Some \<lparr>lsr_SendID = pnd_SendID p, lsr_Kind = pnd_Kind p, lsr_IssuedAt = pnd_IssuedAt p, lsr_Confirmed = True\<rparr>"
proof (cases "tx_reserved cm")
  case None
  then show ?thesis using assms that(1)
    by (auto simp: decideExit_def no_commit_def split: if_splits option.splits)
next
  case (Some res)
  then obtain r where r: "cur = Some r" using assms by (cases cur) (auto simp: decideExit_def no_commit_def split: if_splits)
  with Some assms show ?thesis
    by (intro that(2) [of r res])
       (auto simp: decideExit_def no_commit_def owns_exit_def stop_unless_handoff_def applySendConfirmation_def split: if_splits)
qed

lemma cr_proof_last: "ms_LastSend (cr_proof p r v) = ms_LastSend v \<or> (\<exists>l. ms_LastSend (cr_proof p r v) = Some l \<and> \<not> lsr_Confirmed l)"
  by (simp add: cr_proof_def)

lemma exit_inv_session:
  assumes "exit_inv v0 s" and "ms_LastSend v = ms_LastSend v0
     \<or> (\<exists>l. ms_LastSend v = Some l \<and> (lsr_Confirmed l \<longrightarrow> Decided (lsr_SendID l) ExitConfirmed \<in> set (xr_log s)))"
  shows "exit_inv v0 (s\<lparr>xr_session := v\<rparr>)"
  using assms by (cases "xr_exit s") (auto simp: exit_inv_def)

lemma commit_sound:
  assumes inv: "exit_inv v0 s" and free: "\<not> reserved s"
  shows "exit_inv v0 (commit_update saved (decideExit at p owner expired (xr_session s, xr_exit s)) s)"
proof -
  obtain v' cur' cm where d: "decideExit at p owner expired (xr_session s, xr_exit s) = ((v', cur'), cm)" by (metis prod.exhaust)
  let ?kept = "\<lambda>v. ms_LastSend v = ms_LastSend v0 \<or> (\<exists>l. ms_LastSend v = Some l \<and> (lsr_Confirmed l \<longrightarrow> Decided (lsr_SendID l) ExitConfirmed \<in> set (xr_log s)))"
  have kept: "?kept (cr_proof p r (xr_session s))" "?kept (xr_session s)" for r
    using inv cr_proof_last [of p r "xr_session s"] by (auto simp: exit_inv_def)
  from d show ?thesis
  proof (cases rule: decideExit_cases)
    case 1
    have "?kept v'" using kept 1(3) by metis
    moreover have "commit_update saved ((v', cur'), cm) s = s\<lparr>xr_session := (if saved then v' else xr_session s)\<rparr>"
      using 1 by (simp add: commit_update_def)
    ultimately show ?thesis using exit_inv_session [OF inv, of "if saved then v' else xr_session s"] kept(2) unfolding d by (cases saved) simp_all
  next
    case (2 r res)
    let ?i = "pnd_SendID (es_pending r)"
    let ?log = "if saved then xr_log s @ [Decided ?i res] else xr_log s"
    let ?opened = "(es_ref r, if saved then Some res else None) # xr_open s"
    have saving: "es_saving r = None" using free 2(1) by (simp add: reserved_def)
    have r: "record_backed (xr_log s) r" "record_settled (xr_open s) (xr_log s) r" "log_sound (xr_log s)"
      using inv 2(1) by (auto simp: exit_inv_def)
    have commit: "commit_update saved ((v', cur'), cm) s =
        s\<lparr>xr_session := (if saved then v' else xr_session s), xr_exit := Some (r\<lparr>es_saving := Some res\<rparr>), xr_open := ?opened, xr_log := ?log\<rparr>"
      using 2 by (simp add: commit_update_def cur_id_def)
    have "log_sound ?log" using decide_sound [OF r(3,1,2) saving 2(2)] 2(7) r(3) by (auto simp: exit_confirmed_def)
    moreover have "record_backed ?log (r\<lparr>es_saving := Some res\<rparr>)"
      using record_backed_snoc [OF r(1)] r(1) by (auto simp: record_backed_def Let_def)
    moreover have "record_settled ?opened ?log (r\<lparr>es_saving := Some res\<rparr>)"
      using r(2) saving by (auto simp: record_settled_def)
    moreover have "ms_LastSend (if saved then v' else xr_session s) = ms_LastSend v0
        \<or> (\<exists>l. ms_LastSend (if saved then v' else xr_session s) = Some l \<and> (lsr_Confirmed l \<longrightarrow> Decided (lsr_SendID l) ExitConfirmed \<in> set ?log))"
      using kept(1) [of r] kept(2) 2(3,8) by (cases saved) auto
    ultimately show ?thesis using inv 2(1,5) unfolding d commit by (auto simp: exit_inv_def)
  qed
qed

lemma see_sound:
  assumes "exit_inv v0 s"
  shows "exit_inv v0 ((log_exit p owner s)\<lparr>xr_exit := map_option (see_exit p owner) (xr_exit s)\<rparr>)"
proof (cases "xr_exit s")
  case (Some r)
  let ?f = "ExitSeen (pnd_SendID p)"
  show ?thesis
  proof (cases "owns_exit p owner r \<and> \<not> es_exited r")
    case True
    then have i: "pnd_SendID (es_pending r) = pnd_SendID p" by (simp add: owns_exit_def)
    have "record_backed (xr_log s @ [?f]) (r\<lparr>es_exited := True, es_exitAfterMark := es_marked r\<rparr>)"
      using assms Some i record_backed_snoc [of "xr_log s" r ?f] subseq_after [of "Marked (pnd_SendID p)" "xr_log s" ?f]
      by (auto simp: exit_inv_def record_backed_def Let_def subseq_singleton_left)
    moreover have "record_settled (xr_open s) (xr_log s @ [?f]) (r\<lparr>es_exited := True, es_exitAfterMark := es_marked r\<rparr>)"
      using assms Some record_settled_snoc [of "xr_open s" "xr_log s" r ?f] by (auto simp: exit_inv_def record_settled_def)
    ultimately show ?thesis using assms Some True log_sound_snoc [of "xr_log s" ?f]
      by (auto simp: exit_inv_def log_exit_def see_exit_def)
  next
    case False
    then show ?thesis using assms Some by (auto simp: exit_inv_def log_exit_def see_exit_def)
  qed
qed (use assms in \<open>simp add: log_exit_def exit_inv_def\<close>)

lemma observe_as_decide:
  "commit_update saved (observeExit at p owner (xr_session s, xr_exit s)) (log_exit p owner s) = log_exit p owner s
     \<and> (log_exit p owner s)\<lparr>xr_exit := map_option (see_exit p owner) (xr_exit s)\<rparr> = log_exit p owner s
   \<or> commit_update saved (observeExit at p owner (xr_session s, xr_exit s)) (log_exit p owner s) =
     (let s1 = (log_exit p owner s)\<lparr>xr_exit := map_option (see_exit p owner) (xr_exit s)\<rparr>
      in commit_update saved (decideExit at p owner False (xr_session s1, xr_exit s1)) s1)"
proof (cases "xr_exit s")
  case None
  then show ?thesis by (cases s) (simp add: observeExit_def log_exit_def commit_update_def no_commit_def)
next
  case (Some r)
  show ?thesis
  proof (cases "owns_exit p owner r")
    case False
    with Some show ?thesis by (cases s) (simp add: observeExit_def log_exit_def commit_update_def no_commit_def see_exit_def)
  next
    case True
    let ?r = "see_exit p owner r"
    obtain v' cur' cm where d: "decideExit at p owner False (xr_session s, Some ?r) = ((v', cur'), cm)" by (metis prod.exhaust)
    have same: "xr_session (log_exit p owner s) = xr_session s" "xr_exit (log_exit p owner s) = xr_exit s"
      "es_pending ?r = es_pending r" by (simp_all add: log_exit_def see_exit_def split: option.split)
    have "observeExit at p owner (xr_session s, xr_exit s) = ((v', cur'), cm)" using True Some d by (simp add: observeExit_def)
    then show ?thesis using Some d same
      by (intro disjI2) (cases "tx_reserved cm"; cases cur'; simp add: commit_update_def Let_def cur_id_def)
  qed
qed

lemma exit_inv_record:
  assumes "exit_inv v0 s" and "xr_exit s = Some r" and "es_ref r' = es_ref r" and "es_pending r' = es_pending r"
    and "record_backed (xr_log s @ fs) r'" and "record_settled (xr_open s) (xr_log s @ fs) r'" and "log_sound (xr_log s @ fs)"
    and "\<And>i res. Decided i res \<notin> set fs"
  shows "exit_inv v0 (s\<lparr>xr_exit := Some r', xr_log := xr_log s @ fs\<rparr>)"
  using assms by (auto simp: exit_inv_def)

lemma mark_sound:
  assumes "exit_inv v0 s" and "beginExitCR ref (xr_exit s) = (cur, True)"
  shows "exit_inv v0 (s\<lparr>xr_exit := cur, xr_log := xr_log s @ [Marked (cur_id s)]\<rparr>)"
proof -
  from assms(2) obtain r where r: "xr_exit s = Some r" "\<not> es_exited r" "cur = Some (r\<lparr>es_marked := True, es_write := ExitWritingCR\<rparr>)"
    by (auto simp: beginExitCR_def split: option.splits if_splits)
  let ?f = "Marked (cur_id s)"
  have i: "cur_id s = pnd_SendID (es_pending r)" using r by (simp add: cur_id_def)
  have inv: "record_backed (xr_log s) r" "record_settled (xr_open s) (xr_log s) r" "log_sound (xr_log s)"
    using assms(1) r by (auto simp: exit_inv_def)
  have "record_backed (xr_log s @ [?f]) (r\<lparr>es_marked := True, es_write := ExitWritingCR\<rparr>)"
    using r(2) i by (simp add: record_backed_def Let_def subseq_singleton_left)
  moreover have "record_settled (xr_open s) (xr_log s @ [?f]) (r\<lparr>es_marked := True, es_write := ExitWritingCR\<rparr>)"
    using record_settled_snoc [OF inv(2), of ?f] by (simp add: record_settled_def)
  ultimately show ?thesis using exit_inv_record [OF assms(1) r(1), where fs = "[?f]"] log_sound_snoc [OF inv(3), of ?f] r(3) by simp
qed

lemma written_sound:
  assumes "exit_inv v0 s" and "xr_exit s = Some r" and "es_ref r = ref" and "es_marked r"
  shows "exit_inv v0 (s\<lparr>xr_exit := endExitCR ref True (xr_exit s), xr_log := xr_log s @ [CRWritten (cur_id s)]\<rparr>)"
proof -
  let ?f = "CRWritten (cur_id s)"
  have i: "cur_id s = pnd_SendID (es_pending r)" using assms by (simp add: cur_id_def)
  have inv: "record_backed (xr_log s) r" "record_settled (xr_open s) (xr_log s) r" "log_sound (xr_log s)"
    using assms(1,2) by (auto simp: exit_inv_def)
  have "record_backed (xr_log s @ [?f]) (r\<lparr>es_write := ExitCRSucceeded\<rparr>)"
    using record_backed_snoc [OF inv(1), of ?f] subseq_after [of "Marked (cur_id s)" "xr_log s" ?f] inv(1) assms(4) i
    by (simp add: record_backed_def Let_def subseq_singleton_left)
  moreover have "record_settled (xr_open s) (xr_log s @ [?f]) (r\<lparr>es_write := ExitCRSucceeded\<rparr>)"
    using record_settled_snoc [OF inv(2), of ?f] by (simp add: record_settled_def)
  ultimately show ?thesis
    using exit_inv_record [OF assms(1,2), where fs = "[?f]"] log_sound_snoc [OF inv(3), of ?f] assms(2-4) by (simp add: endExitCR_def)
qed

lemma published_backed: "published ref result (Some r) = Some r' \<Longrightarrow> record_backed log r' = record_backed log r"
  by (cases "es_ref r = ref") (simp_all add: published_def record_backed_def, force simp: record_backed_def)

lemma publish_sound:
  assumes "exit_inv v0 s" and "(ref, result) \<in> set (xr_open s)"
  shows "exit_inv v0 (s\<lparr>xr_exit := published ref result (xr_exit s), xr_open := remove1 (ref, result) (xr_open s)\<rparr>)"
proof -
  let ?opened = "remove1 (ref, result) (xr_open s)"
  have settled: "record_settled ?opened (xr_log s) r'"
    if r: "xr_exit s = Some r" "published ref result (Some r) = Some r'" for r r'
  proof -
    have inv: "record_settled (xr_open s) (xr_log s) r" and res: "result \<noteq> Some ExitUndecided" using assms r by (auto simp: exit_inv_def)
    have fl: "filter (\<lambda>e. fst e = es_ref r) ?opened = remove1 (ref, result) (filter (\<lambda>e. fst e = es_ref r) (xr_open s))"
      by (cases "es_ref r = ref") (auto simp: filter_remove1)
    show ?thesis
    proof (cases "es_ref r = ref")
      case False
      then have "r' = r" "filter (\<lambda>e. fst e = es_ref r) ?opened = filter (\<lambda>e. fst e = es_ref r) (xr_open s)"
        using r fl by (simp_all add: published_def remove1_idem)
      with inv False show ?thesis by (simp add: record_settled_def in_set_remove1)
    next
      case True
      let ?mine = "filter (\<lambda>e. fst e = ref) (xr_open s)"
      have "(ref, result) \<in> set ?mine" "length ?mine \<le> 1" using assms(2) inv True by (auto simp: record_settled_def split: if_splits)
      then have one: "?mine = [(ref, result)]" by (cases ?mine) auto
      have only: "x = result" if "(ref, x) \<in> set (xr_open s)" for x
      proof -
        have "(ref, x) \<in> set ?mine" using that by simp
        with one show ?thesis by simp
      qed
      have none: "Decided (pnd_SendID (es_pending r)) x \<notin> set (xr_log s)" if "result = None" "es_result r = ExitUndecided" for x
        using inv only [of "Some x"] True that by (auto simp: record_settled_def)
      have "filter (\<lambda>e. fst e = es_ref r) ?opened = []" using fl True one by simp
      moreover have "r' = r\<lparr>es_result := (case result of None \<Rightarrow> es_result r | Some x \<Rightarrow> x), es_saving := None\<rparr>"
        using r(2) True by (simp add: published_def)
      ultimately show ?thesis using none res by (cases result) (simp_all add: record_settled_def)
    qed
  qed
  have backed: "record_backed (xr_log s) r'" if "xr_exit s = Some r" "published ref result (Some r) = Some r'" for r r'
    using assms(1) that published_backed [OF that(2)] by (simp add: exit_inv_def)
  have sub: "\<forall>e \<in> set ?opened. fst e \<in> set (xr_refs s) \<and> snd e \<noteq> Some ExitUndecided"
    using assms(1) set_remove1_subset [of "(ref, result)" "xr_open s"] by (auto simp: exit_inv_def)
  show ?thesis
  proof (cases "xr_exit s")
    case None
    then show ?thesis using assms(1) sub by (simp add: exit_inv_def published_def)
  next
    case (Some r)
    obtain r' where r': "published ref result (Some r) = Some r'" "es_pending r' = es_pending r" "es_ref r' = es_ref r"
      by (cases "es_ref r = ref") (simp_all add: published_def)
    show ?thesis using assms(1) sub backed [OF Some r'(1)] settled [OF Some r'(1)] Some r' by (simp add: exit_inv_def)
  qed
qed

lemma exit_step_inv: "exit_step s s' \<Longrightarrow> exit_inv v0 s \<Longrightarrow> exit_inv v0 s'"
proof (induction rule: exit_step.induct)
  case (issue p s ref v inp owner)
  have "filter (\<lambda>e. fst e = ref) (xr_open s) = []" using issue by (auto simp: exit_inv_def filter_empty_conv)
  moreover have "Decided (pnd_SendID p) res \<notin> set (xr_log s)" for res using issue by (auto simp: exit_inv_def)
  ultimately have "record_settled (xr_open s) (xr_log s) (new_exit_send ref p inp owner)" by (simp add: record_settled_def new_exit_send_def)
  moreover have "record_backed (xr_log s) (new_exit_send ref p inp owner)" by (simp add: record_backed_def new_exit_send_def)
  ultimately show ?case using issue by (auto simp: exit_inv_def new_exit_send_def)
next
  case (write_failed s ref)
  show ?case
  proof (cases "endExitCR ref False (xr_exit s) = xr_exit s")
    case False
    then obtain r where r: "xr_exit s = Some r" "endExitCR ref False (xr_exit s) = Some (r\<lparr>es_write := ExitCRFailed\<rparr>)"
      by (auto simp: endExitCR_def split: option.splits if_splits)
    then show ?thesis using write_failed by (auto simp: exit_inv_def record_backed_def record_settled_def Let_def)
  qed (use write_failed in simp)
next
  case (resolve s saved at p owner expired)
  then show ?case using commit_sound by blast
next
  case (observe s saved at p owner)
  let ?s1 = "(log_exit p owner s)\<lparr>xr_exit := map_option (see_exit p owner) (xr_exit s)\<rparr>"
  have "exit_inv v0 ?s1" using see_sound [OF observe.prems] .
  moreover have "\<not> reserved ?s1" using observe.hyps by (auto simp: reserved_def see_exit_def split: option.splits)
  ultimately show ?case using observe_as_decide [of saved at p owner s] commit_sound [of v0 ?s1 saved at p owner False] by (auto simp: Let_def)
next
  case (collect s ref)
  then show ?case by (auto simp: exit_inv_def collectExit_def split: option.splits)
next
  case (other_update v s)
  then have "exit_inv v0 s" "ms_LastSend v = ms_LastSend v0 \<or> (\<exists>l. ms_LastSend v = Some l \<and> (lsr_Confirmed l \<longrightarrow> Decided (lsr_SendID l) ExitConfirmed \<in> set (xr_log s)))"
    by (auto simp: exit_inv_def)
  then show ?case by (rule exit_inv_session)
qed (blast intro: mark_sound written_sound publish_sound)+

text \<open>
  C26: the outcome of an exit send is decided at most once and truthfully, whatever the interleaving of the sender, the observer,
  failed saves and later sends. A send is recorded as confirmed only when the carriage return was marked before it was written, its write
  succeeded, and the process was seen to exit after the mark; and a session stored with a confirmed exit send was so decided.
\<close>

theorem exit_outcome_truthful:
  assumes "exit_reach (exit_start v0) s"
  shows "decisions i (xr_log s) \<le> 1
     \<and> (Decided i ExitConfirmed \<in> set (xr_log s) \<longrightarrow>
          subseq [Marked i, CRWritten i, Decided i ExitConfirmed] (xr_log s) \<and> subseq [Marked i, ExitSeen i, Decided i ExitConfirmed] (xr_log s))
     \<and> (\<forall>l. ms_LastSend (xr_session s) = Some l \<and> lsr_Confirmed l \<and> ms_LastSend v0 \<noteq> Some l \<longrightarrow>
          Decided (lsr_SendID l) ExitConfirmed \<in> set (xr_log s))"
proof -
  have "exit_inv v0 s" using assms
  proof (induction rule: exit_reach.induct)
    case start
    show ?case by (simp add: exit_inv_def exit_start_def log_sound_def decisions_def)
  next
    case (step s s')
    then show ?case using exit_step_inv by blast
  qed
  then show ?thesis by (auto simp: exit_inv_def log_sound_def)
qed

definition sample_pending :: pending_send where
  "sample_pending = \<lparr>pnd_SendID = ''a-s1'', pnd_Kind = SendKindHandoffExit, pnd_IssuedAt = 5\<rparr>"

definition sample_send_input :: send_input where
  "sample_send_input = \<lparr>sin_SessionID = SessionID ''a'', sin_Kind = SendKindHandoffExit, sin_OperatorText = [], sin_Origin = SendOriginHandoff, sin_ConfirmTimeout = 0\<rparr>"

theorem exit_outcome_truthful_witness:
  "\<exists>s. exit_reach (exit_start fresh_session) s \<and> decisions ''a-s1'' (xr_log s) \<le> 1
     \<and> xr_log s = [Marked ''a-s1'', CRWritten ''a-s1'', ExitSeen ''a-s1'', Decided ''a-s1'' ExitConfirmed]
     \<and> subseq [Marked ''a-s1'', ExitSeen ''a-s1'', Decided ''a-s1'' ExitConfirmed] (xr_log s)"
proof -
  let ?s0 = "exit_start fresh_session"
  let ?s1 = "?s0\<lparr>xr_session := fresh_session, xr_exit := Some (new_exit_send 0 sample_pending sample_send_input (Some 7)),
     xr_ids := pnd_SendID sample_pending # xr_ids ?s0, xr_refs := 0 # xr_refs ?s0\<rparr>"
  have 1: "exit_step ?s0 ?s1" by (rule exit_step.issue) (simp_all add: exit_start_def)
  let ?r2 = "(new_exit_send 0 sample_pending sample_send_input (Some 7))\<lparr>es_marked := True, es_write := ExitWritingCR\<rparr>"
  let ?s2 = "?s1\<lparr>xr_exit := Some ?r2, xr_log := xr_log ?s1 @ [Marked (cur_id ?s1)]\<rparr>"
  have 2: "exit_step ?s1 ?s2" by (rule exit_step.mark [where ref = 0]) (simp add: beginExitCR_def new_exit_send_def)
  let ?s3 = "?s2\<lparr>xr_exit := endExitCR 0 True (xr_exit ?s2), xr_log := xr_log ?s2 @ [CRWritten (cur_id ?s2)]\<rparr>"
  have 3: "exit_step ?s2 ?s3" by (rule exit_step.written [where r = ?r2]) (simp_all add: new_exit_send_def)
  let ?s4 = "commit_update True (observeExit 9 sample_pending (Some 7) (xr_session ?s3, xr_exit ?s3)) (log_exit sample_pending (Some 7) ?s3)"
  have 4: "exit_step ?s3 ?s4" by (rule exit_step.observe) (simp add: reserved_def endExitCR_def new_exit_send_def)
  have reach: "exit_reach ?s0 ?s4" 
    by (rule exit_reach.step [OF exit_reach.step [OF exit_reach.step [OF exit_reach.step [OF exit_reach.start 1] 2] 3] 4])
  have log: "xr_log ?s4 = [Marked ''a-s1'', CRWritten ''a-s1'', ExitSeen ''a-s1'', Decided ''a-s1'' ExitConfirmed]" by code_simp
  have d: "Decided ''a-s1'' ExitConfirmed \<in> set (xr_log ?s4)" unfolding log by simp
  have t: "decisions ''a-s1'' (xr_log ?s4) \<le> 1" "subseq [Marked ''a-s1'', ExitSeen ''a-s1'', Decided ''a-s1'' ExitConfirmed] (xr_log ?s4)"
    using exit_outcome_truthful [OF reach, of "''a-s1''"] d by (simp_all only: simp_thms)
  show ?thesis by (rule exI [of _ ?s4], intro conjI reach log t)
qed

end
