(* ===== verification/Send_Input.thy ===== *)
theory Send_Input
  imports Operator_Text Stop_State Exit_Send Contract
begin

text \<open>
  The only path on which the supervisor types into a terminal: \<^verbatim>\<open>src/internal/supervisor/usecase/send_input.go\<close>, with
  \<open>WriteLine\<close> of \<^verbatim>\<open>src/internal/proc/ptysession.go\<close> and the use case of operators in \<^verbatim>\<open>send_operator_input.go\<close>.
  A run of \<open>Execute\<close> is a function of an environment: what the calls of other parts answer at each point of the code (screens,
  clock, stop state, faults of the store) and what other threads do to the stored session before each access. The points are
  numbered in the order of the code. The result is the stored session, the trace of what was done outside, the answer and the
  errors. Notifications of the observer arrive in the order in which they were sent, because a full channel keeps the
  earlier ones; the first section shows this.
\<close>

section \<open>Screens and notifications\<close>

record screen_snapshot =
  sh_Observation :: "64 word"
  sh_Rows :: "row list"
  sh_Cells :: "terminal_view list list option"
  sh_State :: detected_state
  sh_Processing :: bool
  sh_CompletionMenu :: bool
  sh_SelectedCompletion :: row
  sh_ObservedAt :: go_time
  sh_ChangedAt :: go_time

definition zero_screen :: screen_snapshot where
  "zero_screen = \<lparr>sh_Observation = 0, sh_Rows = [], sh_Cells = None, sh_State = DetectedOther '''', sh_Processing = False,
     sh_CompletionMenu = False, sh_SelectedCompletion = [], sh_ObservedAt = 0, sh_ChangedAt = 0\<rparr>"

text \<open>\<open>ObservedScreenStore\<close>: the screens and the observer that owns each of them.\<close>

record screen_store =
  ss_shots :: "session_id \<Rightarrow> screen_snapshot option"
  ss_owners :: "session_id \<Rightarrow> 64 word"

definition Snapshot :: "session_id \<Rightarrow> screen_store \<Rightarrow> screen_snapshot" where
  "Snapshot sid s = (case ss_shots s sid of None \<Rightarrow> zero_screen | Some shot \<Rightarrow> shot)"

definition SetSnapshot :: "session_id \<Rightarrow> screen_snapshot \<Rightarrow> screen_store \<Rightarrow> screen_store" where
  "SetSnapshot sid shot s = s\<lparr>ss_shots := (ss_shots s)(sid \<mapsto> shot)\<rparr>"

definition SetSnapshotOwned :: "session_id \<Rightarrow> screen_snapshot \<Rightarrow> 64 word \<Rightarrow> screen_store \<Rightarrow> screen_store" where
  "SetSnapshotOwned sid shot owner s =
     (if owner < ss_owners s sid then s
      else s\<lparr>ss_owners := (ss_owners s)(sid := owner), ss_shots := (ss_shots s)(sid \<mapsto> shot)\<rparr>)"

definition Delete_screen :: "session_id \<Rightarrow> screen_store \<Rightarrow> screen_store" where
  "Delete_screen sid s = s\<lparr>ss_shots := (ss_shots s)(sid := None)\<rparr>"

definition DeleteOwned :: "session_id \<Rightarrow> 64 word \<Rightarrow> screen_store \<Rightarrow> screen_store" where
  "DeleteOwned sid owner s = (if ss_owners s sid = owner then Delete_screen sid s else s)"

text \<open>A confirmation, and a notification as it lies in the channel of capacity one, with the earlier ones it replaced.\<close>

record send_confirmation =
  sc_SessionID :: session_id
  sc_SendID :: string
  sc_Screen :: screen_snapshot
  sc_ProcessExited :: bool

record notification =
  nt_earlier :: "send_confirmation list"
  nt_latest :: send_confirmation

text \<open>\<open>NotifyConfirmation\<close>: \<open>None\<close> for the channel means that no sender waits; \<open>Some None\<close> is the empty channel.\<close>

definition NotifyConfirmation :: "bool \<Rightarrow> send_confirmation \<Rightarrow> notification option option \<Rightarrow> notification option option" where
  "NotifyConfirmation ended c ch =
     (if ended then ch
      else (case ch of
          None \<Rightarrow> None
        | Some None \<Rightarrow> Some (Some \<lparr>nt_earlier = [], nt_latest = c\<rparr>)
        | Some (Some previous) \<Rightarrow> Some (Some \<lparr>nt_earlier = nt_earlier previous @ [nt_latest previous], nt_latest = c\<rparr>)))"

text \<open>What the receiver iterates over.\<close>

definition received :: "notification \<Rightarrow> send_confirmation list" where
  "received n = nt_earlier n @ [nt_latest n]"

definition screenReadyForWrite :: "screen_snapshot \<Rightarrow> bool" where
  "screenReadyForWrite s =
     (if sh_Processing s \<or> sh_State s \<noteq> StateIdle \<and> sh_State s \<noteq> StateAwaitingRecommendation then False
      else if \<not> IsInputBlank DefaultPatternSet (sh_Rows s) (sh_Cells s) then False
      else \<not> hasSelectionMenu (sh_Rows s))"

definition operatorScreenReadyForWrite :: "screen_snapshot \<Rightarrow> bool" where
  "operatorScreenReadyForWrite s \<longleftrightarrow> sh_State s = StateIdle \<and> \<not> sh_CompletionMenu s \<and> screenReadyForWrite s"

definition screenSafeForEnter :: "screen_snapshot \<Rightarrow> row \<Rightarrow> bool" where
  "screenSafeForEnter s want =
     (if sh_Processing s \<or> sh_State s = StateAwaitingPermission \<or> sh_State s = StateExited then False
      else \<not> hasSelectionMenu (sh_Rows s)
           \<or> has_prefix want (ascii ''/'') \<and> sh_CompletionMenu s \<and> completionCandidateMatches (sh_SelectedCompletion s) want
             \<and> \<not> hasPermissionDialog (sh_Rows s))"

definition enterInputText :: "screen_snapshot \<Rightarrow> row \<Rightarrow> bool \<Rightarrow> (row \<times> row) option" where
  "enterInputText s want operator =
     (case find (\<lambda>r. has_prefix r input_prompt) (rev (sh_Rows s)) of
        None \<Rightarrow> None
      | Some r \<Rightarrow>
          let body = trim_prefix r input_prompt
          in Some (if operator then (TrimRight (\<lambda>x. x = 32) body, TrimRight (\<lambda>x. x = 32) want) else (TrimSpace body, want)))"

definition screenReadyForEnter :: "screen_snapshot \<Rightarrow> row \<Rightarrow> bool \<Rightarrow> bool" where
  "screenReadyForEnter s want operator \<longleftrightarrow>
     screenSafeForEnter s want \<and> (case enterInputText s want operator of None \<Rightarrow> False | Some (body, expected) \<Rightarrow> body = expected)"

text \<open>The conversion \<open>SupervisorSessionState(shot.State)\<close>.\<close>

fun session_state_of :: "detected_state \<Rightarrow> session_state" where
  "session_state_of StateIdle = SessionIdle"
| "session_state_of StateWorking = SessionWorking"
| "session_state_of StateAwaitingPermission = SessionAwaitingPermission"
| "session_state_of StateAwaitingRecommendation = SessionAwaitingRecommendation"
| "session_state_of StateExited = SessionExited"
| "session_state_of StateUndetermined = SessionOther ''undetermined''"
| "session_state_of (DetectedOther s) = SessionOther s"

section \<open>The environment\<close>

text \<open>
  \<open>stopped\<close>: a missing dependency, the callback, the stop state, or a marker file that cannot be ruled out. The second look at
  the files uses \<open>Stat\<close>, which differs from \<open>Lstat\<close> only on symbolic links without a target, and those the first look counts as present.
\<close>

record stop_view =
  sv_callback :: bool
  sv_io :: stop_io
  sv_state :: stop_state

definition stopped :: "stop_view option \<Rightarrow> session_id \<Rightarrow> bool" where
  "stopped view sid =
     (case view of
        None \<Rightarrow> True
      | Some v \<Rightarrow> sv_callback v \<or> IsStopped (sv_io v) sid (sv_state v)
          \<or> list_ex (\<lambda>name. markerExistsLocked (sv_io v) name (sv_state v)) ['''', sid_string sid])"

text \<open>What one check of the echoed text reads besides the screen.\<close>

record check_view =
  cv_ended :: bool
  cv_stop :: "stop_view option"
  cv_session :: "session_state option"
  cv_observed :: "detected_state option option"

text \<open>One round of the loop that waits for the echo: what woke it, whether the deadline has passed, the latest screen and what its checks read.\<close>

datatype echo_wake = EchoDone | EchoTick | EchoTimer | EchoNotified notification

record echo_round =
  eo_wake :: echo_wake
  eo_late :: bool
  eo_latest :: screen_snapshot
  eo_view :: "nat \<Rightarrow> check_view"

type_synonym send_world = "managed_session \<times> exit_send option"

text \<open>
  The points at which \<open>WriteLine\<close> can fail: the context or the state of the terminal at its start, the write of the text, the delay, the
  checks before the carriage return, and the write of the carriage return.
\<close>

record send_env =
  se_deps :: bool
  se_busy :: bool
  se_unicode :: unicode
  se_instruction :: "(session_id \<Rightarrow> byte list) option"
  se_projects :: "string \<Rightarrow> byte list"
  se_others :: "nat \<Rightarrow> send_world \<Rightarrow> send_world"
  se_published :: "nat \<Rightarrow> exit_result_state option"
  se_load_fails :: "nat \<Rightarrow> bool"
  se_save_fails :: "nat \<Rightarrow> bool"
  se_record_fails :: "nat \<Rightarrow> bool"
  se_log_fails :: "nat \<Rightarrow> bool"
  se_stop :: "nat \<Rightarrow> stop_view option"
  se_screen :: "nat \<Rightarrow> screen_snapshot"
  se_now :: "nat \<Rightarrow> go_time"
  se_pty :: "nat option option"
  se_ref :: nat
  se_line_fails :: "nat \<Rightarrow> bool"
  se_echo_view :: check_view
  se_echo :: "echo_round list"
  se_echo_last :: echo_round
  se_notifications :: "notification list"
  se_timeout :: duration
  se_ctx_ends :: bool
  se_hash :: bool
  se_oplog :: bool

datatype send_error =
    SendDependencies | SendLoadFailed | SendSaveFailed | SendRecordFailed | SendLogFailed | SendStateChanged | SendPendingAppeared
  | SendWriteFailed | SendNotConfirmed | SendContextEnded | SendProcessExited | SendTextPanic

datatype send_effect =
    Recorded sup_event_record
  | OperationalLogged string
  | BlockedLogged
  | Notified string
  | RecommendationIssued go_time
  | TypedText row
  | PressedEnter

record send_result =
  sr_SendID :: string
  sr_Blocked :: "send_blocked_reason option"
  sr_Confirmed :: bool

definition no_result :: send_result where
  "no_result = \<lparr>sr_SendID = '''', sr_Blocked = None, sr_Confirmed = False\<rparr>"

type_synonym send_outcome = "send_world \<times> send_effect list \<times> send_result \<times> send_error list"

section \<open>Updates, events and refusals\<close>

text \<open>\<open>UpdateSession\<close>: load, change, and save when something changed; the source compares the JSON of the two records.\<close>

definition update_session :: "send_env \<Rightarrow> nat \<Rightarrow> (managed_session \<Rightarrow> managed_session) \<Rightarrow> send_world \<Rightarrow> send_world \<times> send_error list" where
  "update_session E k change w =
     (let w = se_others E k w; v = change (fst w)
      in if se_load_fails E k then (w, [SendLoadFailed])
         else if v = fst w then (w, [])
         else if se_save_fails E k then (w, [SendSaveFailed])
         else ((v, snd w), []))"

definition record_event :: "send_env \<Rightarrow> nat \<Rightarrow> sup_event_record \<Rightarrow> send_effect list \<times> send_error list" where
  "record_event E k e = ([Recorded e], if se_record_fails E k then [SendRecordFailed] else [])"

definition blocked_event :: "send_input \<Rightarrow> send_blocked_reason \<Rightarrow> sup_event_record" where
  "blocked_event inp reason =
     \<lparr>er_Kind = ''send_blocked'', er_SessionID = sin_SessionID inp, er_SendID = '''',
      er_SendKind = (if sin_Kind inp = SendKindOperatorInput then Some SendKindOperatorInput else None), er_Code = ''SUP_SEND_BLOCKED'',
      er_TextLength = (if sin_Kind inp = SendKindOperatorInput then Some (length (sin_OperatorText inp)) else None),
      er_Reason = Some reason\<rparr>"

definition blocked :: "send_env \<Rightarrow> nat \<Rightarrow> send_input \<Rightarrow> send_blocked_reason \<Rightarrow> send_effect list \<times> send_result \<times> send_error list" where
  "blocked E k inp reason =
     (let foreign = (reason = SendBlockedNotFixedText); (effs, errs) = record_event E k (blocked_event inp reason)
      in ((if foreign \<and> se_oplog E then [OperationalLogged ''send_blocked''] else []) @ (if foreign then [BlockedLogged] else []) @ effs,
          no_result\<lparr>sr_Blocked := Some reason\<rparr>,
          (if foreign \<and> se_oplog E \<and> se_log_fails E k then [SendLogFailed] else []) @ errs))"

definition refuse_send :: "send_env \<Rightarrow> nat \<Rightarrow> send_input \<Rightarrow> send_blocked_reason \<Rightarrow> send_world \<Rightarrow> send_outcome" where
  "refuse_send E k inp reason w = (w, blocked E k inp reason)"

definition logOperatorSendOutcome :: "send_env \<Rightarrow> nat \<Rightarrow> send_input \<Rightarrow> string \<Rightarrow> send_effect list \<times> send_error list" where
  "logOperatorSendOutcome E k inp kind =
     (if sin_Kind inp \<noteq> SendKindOperatorInput \<or> \<not> se_oplog E then ([], [])
      else ([OperationalLogged kind], if se_log_fails E k then [SendLogFailed] else []))"

definition parallelInstructionFor :: "send_env \<Rightarrow> managed_session \<Rightarrow> byte list" where
  "parallelInstructionFor E s =
     (case se_instruction E of
        Some f \<Rightarrow> f (ms_SessionID s)
      | None \<Rightarrow> let v = se_projects E (ms_ProjectID s) in if v \<noteq> [] then v else defaultParallelInstruction)"

section \<open>The end of a send\<close>

definition clear_pending :: "bool \<Rightarrow> bool \<Rightarrow> managed_session \<Rightarrow> managed_session" where
  "clear_pending ever confirmed v =
     v\<lparr>ms_SendGate := (ms_SendGate v)\<lparr>sg_Pending := None, sg_EverSent := ever, sg_LastSendConfirmed := confirmed\<rparr>\<rparr>"

text \<open>An update followed by an event and, for sends outside a handoff, a notification.\<close>

definition update_and_tell :: "send_env \<Rightarrow> nat \<Rightarrow> send_input \<Rightarrow> (managed_session \<Rightarrow> managed_session) \<Rightarrow> sup_event_record \<Rightarrow> send_world
    \<Rightarrow> send_world \<times> send_effect list \<times> send_error list" where
  "update_and_tell E k inp change e w =
     (case update_session E k change w of
        (w, []) \<Rightarrow>
          (case record_event E k e of
             (effs, []) \<Rightarrow> (w, effs @ (if sin_Origin inp \<noteq> SendOriginHandoff then [Notified (er_Kind e)] else []), [])
           | (effs, errs) \<Rightarrow> (w, effs, errs))
      | (w, errs) \<Rightarrow> (w, [], errs))"

definition abortBeforeCR :: "send_env \<Rightarrow> nat \<Rightarrow> send_input \<Rightarrow> pending_send \<Rightarrow> bool \<Rightarrow> bool \<Rightarrow> send_world
    \<Rightarrow> send_world \<times> send_effect list \<times> send_error list" where
  "abortBeforeCR E k inp p ever confirmed w =
     update_and_tell E k inp (\<lambda>v. stop_unless_handoff (sin_Origin inp) StopSendAborted (clear_pending ever confirmed v))
       (sendEvent ''send_aborted'' inp p ''SUP_SEND_ABORTED'') w"

definition blockBeforeText :: "send_env \<Rightarrow> nat \<Rightarrow> send_input \<Rightarrow> bool \<Rightarrow> bool \<Rightarrow> send_blocked_reason \<Rightarrow> send_world
    \<Rightarrow> send_world \<times> send_effect list \<times> send_error list" where
  "blockBeforeText E k inp ever confirmed reason w =
     (case update_session E k (clear_pending ever confirmed) w of
        (w, []) \<Rightarrow> (case blocked E k inp reason of (effs, _, errs) \<Rightarrow> (w, effs, errs))
      | (w, errs) \<Rightarrow> (w, [], errs))"

text \<open>
  \<open>updateExitSession\<close> with its waiting loop: before the update runs, a reservation of the other thread has been published,
  with the result \<open>se_published\<close>.
\<close>

definition enter_exit_update :: "send_env \<Rightarrow> nat \<Rightarrow> send_world \<Rightarrow> send_world" where
  "enter_exit_update E k w =
     (case se_others E k w of
        (v, None) \<Rightarrow> (v, None)
      | (v, Some r) \<Rightarrow> (v, if es_saving r = None then Some r else published (es_ref r) (se_published E k) (Some r)))"

definition updateExitSession :: "send_env \<Rightarrow> nat \<Rightarrow> (send_world \<Rightarrow> send_world \<times> exit_commit) \<Rightarrow> send_world
    \<Rightarrow> send_world \<times> exit_commit \<times> send_error list" where
  "updateExitSession E k update w =
     (let w = enter_exit_update E k w
      in if se_load_fails E k then (w, no_commit, [SendLoadFailed])
         else case update w of ((v, cur), cm) \<Rightarrow>
           let saved = (v = fst w \<or> \<not> se_save_fails E k);
               cur = (case (tx_reserved cm, cur) of
                   (Some res, Some r) \<Rightarrow> published (es_ref r) (if saved then Some res else None) (Some r)
                 | _ \<Rightarrow> cur)
           in if saved then ((v, cur), cm, [])
              else ((fst w, cur), cm\<lparr>tx_confirmed := False, tx_event := None\<rparr>, [SendSaveFailed]))"

definition resolveExit :: "send_env \<Rightarrow> nat \<Rightarrow> send_input \<Rightarrow> pending_send \<Rightarrow> nat option \<Rightarrow> bool \<Rightarrow> send_world \<Rightarrow> send_outcome" where
  "resolveExit E k inp p owner expired w =
     (case updateExitSession E k (decideExit (se_now E k) p owner expired) w of
        (w, cm, errs) \<Rightarrow>
          let result = no_result\<lparr>sr_SendID := pnd_SendID p, sr_Confirmed := tx_confirmed cm\<rparr>
          in if errs \<noteq> [] then (w, [], result, errs)
             else case tx_event cm of
               None \<Rightarrow> (w, [], result, [])
             | Some e \<Rightarrow>
                 (case record_event E k e of (effs, errs) \<Rightarrow>
                    (w, effs @ (if \<not> tx_confirmed cm \<and> sin_Origin inp \<noteq> SendOriginHandoff then [Notified ''send_unconfirmed''] else []),
                     result, errs)))"

definition expireExit :: "send_env \<Rightarrow> nat \<Rightarrow> send_input \<Rightarrow> pending_send \<Rightarrow> nat option \<Rightarrow> send_error \<Rightarrow> send_world \<Rightarrow> send_outcome" where
  "expireExit E k inp p owner cause w =
     (case resolveExit E k inp p owner True w of (w, effs, result, errs) \<Rightarrow>
        (w, effs, result, if sr_Confirmed result then errs else cause # errs))"

definition unconfirmed :: "send_env \<Rightarrow> nat \<Rightarrow> send_input \<Rightarrow> pending_send \<Rightarrow> send_world \<Rightarrow> send_world \<times> send_effect list \<times> send_error list" where
  "unconfirmed E k inp p w =
     (if sin_Kind inp = SendKindHandoffExit then
        (case resolveExit E k inp p (exitOwner (pnd_SendID p) (snd w)) True w of (w, effs, _, errs) \<Rightarrow> (w, effs, errs))
      else update_and_tell E k inp (stop_unless_handoff (sin_Origin inp) StopSendNotConfirmed)
             (sendEvent ''send_unconfirmed'' inp p ''SUP_SEND_NOT_CONFIRMED'') w)"

definition confirmSend :: "send_env \<Rightarrow> nat \<Rightarrow> send_input \<Rightarrow> pending_send \<Rightarrow> send_world \<Rightarrow> send_outcome" where
  "confirmSend E k inp p w =
     (if sin_Kind inp = SendKindHandoffExit then resolveExit E k inp p (exitOwner (pnd_SendID p) (snd w)) False w
      else
        let result = no_result\<lparr>sr_SendID := pnd_SendID p\<rparr>
        in case update_session E k (applySendConfirmation p (se_now E k)) w of
             (w, []) \<Rightarrow>
               (case record_event E k (sendEvent ''send_confirmed'' inp p '''') of
                  (effs, errs) \<Rightarrow> (w, effs, result\<lparr>sr_Confirmed := True\<rparr>, errs))
           | (w, errs) \<Rightarrow> (w, [], result, errs))"

section \<open>Waiting for the echoed text\<close>

definition operator_send :: "send_input \<Rightarrow> bool" where
  "operator_send inp \<longleftrightarrow> sin_Kind inp = SendKindOperatorInput"

text \<open>The closure \<open>check\<close>: whether the screen shows the text, and whether it shows a prefix of it.\<close>

definition operator_check :: "check_view \<Rightarrow> screen_snapshot \<Rightarrow> session_state \<Rightarrow> bool" where
  "operator_check view shot st \<longleftrightarrow>
     (sh_State shot = StateIdle \<or> sh_State shot = StateWorking) \<and> \<not> sh_CompletionMenu shot \<and> (st = SessionIdle \<or> st = SessionWorking)
     \<and> (case cv_observed view of
          None \<Rightarrow> True
        | Some seen \<Rightarrow> seen = Some StateIdle \<or> seen = Some StateWorking)"

definition echo_check :: "send_input \<Rightarrow> row \<Rightarrow> check_view \<Rightarrow> screen_snapshot \<Rightarrow> bool \<times> bool" where
  "echo_check inp message view shot =
     (if cv_ended view \<or> stopped (cv_stop view) (sin_SessionID inp) \<or> \<not> screenSafeForEnter shot message then (False, False)
      else case cv_session view of
        None \<Rightarrow> (False, False)
      | Some st \<Rightarrow>
          if st = SessionStopped \<or> operator_send inp \<and> \<not> operator_check view shot st then (False, False)
          else (case enterInputText shot message (operator_send inp) of
              None \<Rightarrow> (False, False)
            | Some (body, want) \<Rightarrow> (body = want, has_prefix want body)))"

text \<open>
  The confirmations of one notification: \<open>None\<close> is the early return \<open>false\<close>; otherwise the screen and the observation reached. The number of checks made so
  far selects what the next one reads.
\<close>

fun echo_notified :: "send_input \<Rightarrow> row \<Rightarrow> string \<Rightarrow> (nat \<Rightarrow> check_view) \<Rightarrow> nat \<Rightarrow> send_confirmation list \<Rightarrow> screen_snapshot \<times> 64 word
    \<Rightarrow> (screen_snapshot \<times> 64 word) option" where
  "echo_notified inp message sendID view n [] at = Some at"
| "echo_notified inp message sendID view n (c # cs) at =
     (if sc_SessionID c \<noteq> sin_SessionID inp \<or> sc_SendID c \<noteq> sendID then echo_notified inp message sendID view n cs at
      else if sc_ProcessExited c then None
      else if sh_Observation (sc_Screen c) \<le> snd at then echo_notified inp message sendID view n cs at
      else if \<not> snd (echo_check inp message (view n) (sc_Screen c)) then None
      else echo_notified inp message sendID view (Suc n) cs (sc_Screen c, sh_Observation (sc_Screen c)))"

definition echo_woken :: "send_input \<Rightarrow> row \<Rightarrow> string \<Rightarrow> echo_round \<Rightarrow> screen_snapshot \<times> 64 word \<Rightarrow> (screen_snapshot \<times> 64 word) option" where
  "echo_woken inp message sendID round at =
     (case eo_wake round of
        EchoDone \<Rightarrow> None
      | EchoTick \<Rightarrow> Some at
      | EchoTimer \<Rightarrow> Some at
      | EchoNotified n \<Rightarrow> echo_notified inp message sendID (eo_view round) 1 (received n) at)"

text \<open>
  One round of the loop: \<open>Inl\<close> is the answer, \<open>Inr\<close> the screen with which the loop goes on. The check at its end reads \<open>eo_view 0\<close>.
\<close>

definition echo_step :: "send_input \<Rightarrow> row \<Rightarrow> string \<Rightarrow> 64 word \<Rightarrow> bool \<Rightarrow> echo_round \<Rightarrow> screen_snapshot \<times> 64 word
    \<Rightarrow> bool + screen_snapshot \<times> 64 word" where
  "echo_step inp message sendID baseline timed round at =
     (case echo_woken inp message sendID round at of
        None \<Rightarrow> Inl False
      | Some (shot, seen) \<Rightarrow>
          let latest = eo_latest round;
              (shot, seen) = (if seen \<le> sh_Observation latest then (latest, sh_Observation latest) else (shot, seen));
              (match, prefix) = echo_check inp message (eo_view round 0) shot
          in if \<not> prefix then Inl False
             else if match \<and> baseline < sh_Observation shot then Inl True
             else if timed \<or> eo_wake round = EchoTimer \<or> eo_late round then Inl False
             else Inr (shot, seen))"

text \<open>The rounds that a run makes, and at the latest the round in which the timer has fired.\<close>

fun echo_loop :: "send_input \<Rightarrow> row \<Rightarrow> string \<Rightarrow> 64 word \<Rightarrow> echo_round \<Rightarrow> echo_round list \<Rightarrow> screen_snapshot \<times> 64 word \<Rightarrow> bool" where
  "echo_loop inp message sendID baseline final [] at =
     (case echo_step inp message sendID baseline True final at of Inl b \<Rightarrow> b | Inr _ \<Rightarrow> False)"
| "echo_loop inp message sendID baseline final (round # rounds) at =
     (case echo_step inp message sendID baseline False round at of
        Inl b \<Rightarrow> b
      | Inr at \<Rightarrow> echo_loop inp message sendID baseline final rounds at)"

definition waitForEnter :: "send_env \<Rightarrow> send_input \<Rightarrow> row \<Rightarrow> string \<Rightarrow> bool" where
  "waitForEnter E inp message sendID =
     (let shot = se_screen E 4; (match, prefix) = echo_check inp message (se_echo_view E) shot
      in if match \<or> \<not> prefix then match
         else echo_loop inp message sendID (sh_Observation shot) (se_echo_last E) (se_echo E) (shot, sh_Observation shot))"

section \<open>Writing the line\<close>

datatype line_status = LineWritten | LineFailed bool bool

definition exit_send_kind :: "send_input \<Rightarrow> bool" where
  "exit_send_kind inp \<longleftrightarrow> sin_Kind inp = SendKindHandoffExit"

definition has_newline :: "row \<Rightarrow> bool" where
  "has_newline message = list_ex (\<lambda>r. r = 10 \<or> r = 13) message"

text \<open>The closure \<open>before\<close>.\<close>

definition before_enter :: "send_env \<Rightarrow> send_input \<Rightarrow> row \<Rightarrow> pending_send \<Rightarrow> send_world \<Rightarrow> send_world \<times> bool" where
  "before_enter E inp message p w =
     (if \<not> waitForEnter E inp message (pnd_SendID p) then (w, False)
      else if exit_send_kind inp then
        let w = se_others E 4 w in (case beginExitCR (se_ref E) (snd w) of (cur, ok) \<Rightarrow> ((fst w, cur), ok))
      else (w, True))"

definition WriteLine :: "send_env \<Rightarrow> send_input \<Rightarrow> row \<Rightarrow> pending_send \<Rightarrow> send_world \<Rightarrow> send_world \<times> send_effect list \<times> line_status" where
  "WriteLine E inp message p w =
     (if has_newline message \<or> se_line_fails E 0 then (w, [], LineFailed False False)
      else if se_line_fails E 1 \<or> se_line_fails E 2 then (w, [TypedText message], LineFailed False False)
      else case before_enter E inp message p w of
        (w, False) \<Rightarrow> (w, [TypedText message], LineFailed True False)
      | (w, True) \<Rightarrow>
          if se_line_fails E 3 then (w, [TypedText message], LineFailed True True)
          else (w, [TypedText message, PressedEnter], if se_line_fails E 4 then LineFailed True True else LineWritten))"

definition end_cr :: "send_env \<Rightarrow> send_input \<Rightarrow> bool \<Rightarrow> send_world \<Rightarrow> send_world" where
  "end_cr E inp success w = (if exit_send_kind inp then (fst w, endExitCR (se_ref E) success (snd w)) else w)"

text \<open>What follows a line that was not written: the send is withdrawn, unless the carriage return may have been written.\<close>

definition line_failed :: "send_env \<Rightarrow> send_input \<Rightarrow> row \<Rightarrow> pending_send \<Rightarrow> bool \<Rightarrow> bool \<Rightarrow> bool \<Rightarrow> bool \<Rightarrow> send_world
    \<Rightarrow> send_world \<times> send_effect list \<times> send_error list" where
  "line_failed E inp message p ever confirmed called allowed w =
     (case logOperatorSendOutcome E 5 inp (if allowed then ''send_unconfirmed'' else ''send_aborted'') of (logs, logErrs) \<Rightarrow>
        (case (if allowed then unconfirmed E 5 inp p (end_cr E inp False w)
               else if \<not> called \<and> has_newline message
               then blockBeforeText E 5 inp ever confirmed SendBlockedState (end_cr E inp False w)
               else abortBeforeCR E 5 inp p ever confirmed (end_cr E inp False w)) of
           (w, effs, errs) \<Rightarrow> (w, logs @ effs, SendWriteFailed # logErrs @ errs)))"

section \<open>Waiting for the confirmation\<close>

definition confirmTimeout :: "send_env \<Rightarrow> send_input \<Rightarrow> duration" where
  "confirmTimeout E inp =
     (let t = sin_ConfirmTimeout inp;
          t = (if t \<le> 0 \<and> sin_Kind inp = SendKindHandoffExit \<and> sin_Origin inp = SendOriginHandoff then 60 * go_second else t);
          t = (if t \<le> 0 then se_timeout E else t)
      in if t \<le> 0 then 60 * go_second else t)"

definition processExitedPending :: "send_env \<Rightarrow> nat \<Rightarrow> send_input \<Rightarrow> send_world \<Rightarrow> send_world \<times> send_effect list \<times> send_error list" where
  "processExitedPending E k inp w =
     (let w = se_others E k w
      in if se_load_fails E k then (w, [], [SendLoadFailed])
         else if ms_State (fst w) = SessionStopped \<and> ms_StopReason (fst w) = StopProcessExitWithPending
              \<or> sin_Origin inp = SendOriginHandoff then (w, [], [SendProcessExited])
         else case update_session E (Suc k) (\<lambda>v. v\<lparr>ms_State := SessionStopped, ms_StopReason := StopProcessExitWithPending\<rparr>) w of
           (w, []) \<Rightarrow> (w, [Notified ''session_stopped''], [SendProcessExited])
         | (w, errs) \<Rightarrow> (w, [], errs))"

definition unconfirmed_end :: "send_env \<Rightarrow> nat \<Rightarrow> send_input \<Rightarrow> pending_send \<Rightarrow> nat option \<Rightarrow> send_world \<Rightarrow> send_outcome" where
  "unconfirmed_end E k inp p owner w =
     (let cause = (if se_ctx_ends E then SendContextEnded else SendNotConfirmed)
      in if exit_send_kind inp then expireExit E k inp p owner cause w
         else case unconfirmed E k inp p w of (w, effs, errs) \<Rightarrow>
           (case logOperatorSendOutcome E k inp ''send_unconfirmed'' of (logs, logErrs) \<Rightarrow>
              (w, effs @ logs, no_result\<lparr>sr_SendID := pnd_SendID p\<rparr>, cause # errs @ logErrs)))"

definition counts_as_taken :: "send_input \<Rightarrow> go_time \<Rightarrow> screen_snapshot \<Rightarrow> bool" where
  "counts_as_taken inp crAt shot \<longleftrightarrow>
     crAt < sh_ChangedAt shot
     \<and> (IsInputBlank DefaultPatternSet (sh_Rows shot) (sh_Cells shot) \<or> sin_Kind inp \<noteq> SendKindRemoteControl \<and> sh_Processing shot)"

text \<open>The loop over the confirmations; when none is left, the timer or the end of the context ends it.\<close>

fun confirm_loop :: "send_env \<Rightarrow> send_input \<Rightarrow> pending_send \<Rightarrow> nat option \<Rightarrow> go_time \<Rightarrow> nat \<Rightarrow> 64 word \<Rightarrow> nat \<Rightarrow> send_confirmation list
    \<Rightarrow> send_world \<Rightarrow> send_outcome" where
  "confirm_loop E inp p owner crAt k seen consecutive [] w = unconfirmed_end E k inp p owner w"
| "confirm_loop E inp p owner crAt k seen consecutive (c # cs) w =
     (if sc_SendID c \<noteq> pnd_SendID p then confirm_loop E inp p owner crAt (k + 2) seen consecutive cs w
      else if sc_ProcessExited c then
        if exit_send_kind inp then
          (case resolveExit E k inp p owner False w of (w, effs, result, errs) \<Rightarrow>
             if errs \<noteq> [] \<or> sr_Confirmed result then (w, effs, result, errs)
             else apsnd (apfst ((@) effs)) (confirm_loop E inp p owner crAt (k + 2) seen consecutive cs w))
        else (case processExitedPending E k inp w of (w, effs, errs) \<Rightarrow> (w, effs, no_result\<lparr>sr_SendID := pnd_SendID p\<rparr>, errs))
      else if exit_send_kind inp then confirm_loop E inp p owner crAt (k + 2) seen consecutive cs w
      else
        let shot = sc_Screen c; adjacent = (seen \<noteq> 0 \<and> sh_Observation shot - seen = 1)
        in if sh_Observation shot = 0 then confirm_loop E inp p owner crAt (k + 2) seen 0 cs w
           else if sh_Observation shot \<le> seen then confirm_loop E inp p owner crAt (k + 2) seen consecutive cs w
           else if \<not> counts_as_taken inp crAt shot then confirm_loop E inp p owner crAt (k + 2) (sh_Observation shot) 0 cs w
           else if (if adjacent then consecutive else 0) + 1 \<ge> 2 then confirmSend E k inp p w
           else confirm_loop E inp p owner crAt (k + 2) (sh_Observation shot) ((if adjacent then consecutive else 0) + 1) cs w)"

section \<open>Execute\<close>

text \<open>The text of the send and whether it is permitted; an operator text is accepted only for operator sends.\<close>

definition send_text :: "send_env \<Rightarrow> send_input \<Rightarrow> managed_session \<Rightarrow> (row \<times> bool) outcome" where
  "send_text E inp s =
     and_then (FixedText (se_unicode E) (sin_Kind inp) (parallelInstructionFor E s)) (\<lambda>answer.
       let (message, fixed) = (case answer of None \<Rightarrow> ([], False) | Some m \<Rightarrow> (m, True))
       in Done (if operator_send inp then (sin_OperatorText inp, length (sin_OperatorText inp) > 0)
                else if length (sin_OperatorText inp) \<noteq> 0 then (message, False)
                else (message, fixed)))"

definition fresh_after_discard :: "send_env \<Rightarrow> managed_session \<Rightarrow> screen_snapshot \<Rightarrow> bool" where
  "fresh_after_discard E s shot \<longleftrightarrow>
     \<not> sg_UnconfirmedDiscarded (ms_SendGate s)
     \<or> sh_State shot = StateIdle \<and> ms_StateSince s < sh_ObservedAt shot \<and> \<not> is_zero_time (sh_ChangedAt shot)
       \<and> time_sub (se_now E 1) (sh_ChangedAt shot) \<ge> QuietPeriod \<and> screenReadyForWrite shot"

definition send_gate :: "send_env \<Rightarrow> send_input \<Rightarrow> managed_session \<Rightarrow> bool \<Rightarrow> send_blocked_reason option" where
  "send_gate E inp s fixed =
     (let shot = se_screen E 1; second = se_screen E 2
      in case CheckSendGate s (session_state_of (sh_State shot)) (sin_Kind inp) (stopped (se_stop E 1) (sin_SessionID inp)) fixed
           (fresh_after_discard E s shot) [sin_Origin inp] of
           Some reason \<Rightarrow> Some reason
         | None \<Rightarrow>
             if operator_send inp \<and> \<not> operatorScreenReadyForWrite shot then Some SendBlockedState
             else if stopped (se_stop E 2) (sin_SessionID inp) then Some SendBlockedStop
             else if \<not> SendKindAllowed (ms_State s) (session_state_of (sh_State second)) (sin_Kind inp) [sin_Origin inp]
                  \<or> \<not> screenReadyForWrite second \<or> operator_send inp \<and> \<not> operatorScreenReadyForWrite second then Some SendBlockedState
             else if se_pty E = None then Some SendBlockedState
             else None)"

text \<open>After the carriage return.\<close>

definition send_written :: "send_env \<Rightarrow> send_input \<Rightarrow> pending_send \<Rightarrow> nat option \<Rightarrow> send_world \<Rightarrow> send_outcome" where
  "send_written E inp p owner w =
     (let w = end_cr E inp True w; confs = concat (map received (se_notifications E))
      in if exit_send_kind inp then
           (case resolveExit E 8 inp p owner False w of (w, effs, result, errs) \<Rightarrow>
              if errs \<noteq> [] \<or> sr_Confirmed result then (w, effs, result, errs)
              else apsnd (apfst ((@) effs)) (confirm_loop E inp p owner (se_now E 7) 10 0 0 confs w))
         else confirm_loop E inp p owner (se_now E 7) 10 0 0 confs w)"

definition send_line :: "send_env \<Rightarrow> send_input \<Rightarrow> row \<Rightarrow> pending_send \<Rightarrow> nat option \<Rightarrow> bool \<Rightarrow> bool \<Rightarrow> send_world \<Rightarrow> send_outcome" where
  "send_line E inp message p owner ever confirmed w =
     (case WriteLine E inp message p w of
        (w, typed, LineWritten) \<Rightarrow> apsnd (apfst ((@) typed)) (send_written E inp p owner w)
      | (w, typed, LineFailed called allowed) \<Rightarrow>
          (case line_failed E inp message p ever confirmed called allowed w of (w, effs, errs) \<Rightarrow>
             (w, typed @ effs, no_result\<lparr>sr_SendID := pnd_SendID p\<rparr>, errs)))"

definition withdraw :: "send_env \<Rightarrow> nat \<Rightarrow> send_input \<Rightarrow> pending_send \<Rightarrow> bool \<Rightarrow> bool \<Rightarrow> send_blocked_reason option \<Rightarrow> send_blocked_reason
    \<Rightarrow> send_error list \<Rightarrow> send_world \<Rightarrow> send_outcome" where
  "withdraw E k inp p ever confirmed shown reason before w =
     (case blockBeforeText E k inp ever confirmed reason w of (w, effs, errs) \<Rightarrow>
        (w, effs, no_result\<lparr>sr_SendID := pnd_SendID p, sr_Blocked := shown\<rparr>, before @ errs))"

text \<open>After the send is stored as pending: its event, a last look at stop and screen, and the line.\<close>

definition send_recorded :: "send_env \<Rightarrow> send_input \<Rightarrow> row \<Rightarrow> pending_send \<Rightarrow> nat option \<Rightarrow> bool \<Rightarrow> bool \<Rightarrow> send_world \<Rightarrow> send_outcome" where
  "send_recorded E inp message p owner ever confirmed w =
     (case record_event E 3 (sendEvent ''send_issued'' inp p '''') of (effs, errs) \<Rightarrow>
        apsnd (apfst ((@) effs))
          (if errs \<noteq> [] then withdraw E 3 inp p ever confirmed None SendBlockedState errs w
           else
             let issued = (if sin_Kind inp = SendKindRecommendationContinue \<and> se_hash E then [RecommendationIssued (pnd_IssuedAt p)] else [])
             in apsnd (apfst ((@) issued))
                  (if stopped (se_stop E 3) (sin_SessionID inp) then withdraw E 3 inp p ever confirmed (Some SendBlockedStop) SendBlockedStop [] w
                   else if operator_send inp \<and> \<not> operatorScreenReadyForWrite (se_screen E 3)
                   then withdraw E 3 inp p ever confirmed (Some SendBlockedState) SendBlockedState [] w
                   else send_line E inp message p owner ever confirmed w)))"

definition pending_of :: "send_env \<Rightarrow> send_input \<Rightarrow> managed_session \<Rightarrow> pending_send" where
  "pending_of E inp v =
     (let seq = (if sg_NextSeq (ms_SendGate v) = 0 then 1 else sg_NextSeq (ms_SendGate v))
      in \<lparr>pnd_SendID = sid_string (sin_SessionID inp) @ ''-s'' @ print_int (uint seq), pnd_Kind = sin_Kind inp, pnd_IssuedAt = se_now E 2\<rparr>)"

definition issue_pending :: "send_env \<Rightarrow> send_input \<Rightarrow> managed_session \<Rightarrow> managed_session" where
  "issue_pending E inp v =
     (let seq = (if sg_NextSeq (ms_SendGate v) = 0 then 1 else sg_NextSeq (ms_SendGate v))
      in v\<lparr>ms_SendGate := (ms_SendGate v)\<lparr>sg_NextSeq := seq + 1, sg_Pending := Some (pending_of E inp v), sg_LastSendConfirmed := False,
             sg_EverSent := True\<rparr>,
           ms_Rotation := (if sin_Kind inp = SendKindHandoffEnd \<and> sin_Origin inp = SendOriginHandoff
             then map_option (\<lambda>r. r\<lparr>rr_EndIssuedAt := Some (se_now E 2)\<rparr>) (ms_Rotation v) else ms_Rotation v)\<rparr>)"

text \<open>
  The update that issues the send. The record of an exit send enters the map inside the update, even when the save then fails; it is
  collected when \<open>Execute\<close> returns.
\<close>

definition send_issue :: "send_env \<Rightarrow> send_input \<Rightarrow> row \<Rightarrow> managed_session \<Rightarrow> nat option \<Rightarrow> send_world \<Rightarrow> send_outcome" where
  "send_issue E inp message s owner w =
     (let w = se_others E 2 w; v = fst w; p = pending_of E inp v;
          cur = (if exit_send_kind inp then Some (new_exit_send (se_ref E) p inp owner) else snd w);
          collected = apfst (\<lambda>w. if exit_send_kind inp then (fst w, collectExit (se_ref E) (snd w)) else w)
      in if se_load_fails E 2 then (w, [], no_result, [SendLoadFailed])
         else if \<not> SendKindAllowed (ms_State v) (session_state_of (sh_State (se_screen E 2))) (sin_Kind inp) [sin_Origin inp]
         then refuse_send E 2 inp SendBlockedState w
         else if sg_Pending (ms_SendGate v) \<noteq> None then refuse_send E 2 inp SendBlockedPending w
         else if se_save_fails E 2 then collected ((v, cur), [], no_result, [SendSaveFailed])
         else collected (send_recorded E inp message p owner (sg_EverSent (ms_SendGate s)) (sg_LastSendConfirmed (ms_SendGate s))
                (issue_pending E inp v, cur)))"

definition Execute_send :: "send_env \<Rightarrow> send_input \<Rightarrow> send_world \<Rightarrow> send_outcome" where
  "Execute_send E inp w =
     (if \<not> se_deps E then (w, [], no_result, [SendDependencies])
      else if se_busy E then refuse_send E 0 inp SendBlockedPending w
      else
        let w = se_others E 1 w
        in if se_load_fails E 1 then (w, [], no_result, [SendLoadFailed])
           else case send_text E inp (fst w) of
             Panic \<Rightarrow> (w, [], no_result, [SendTextPanic])
           | Done (message, fixed) \<Rightarrow>
               (case send_gate E inp (fst w) fixed of
                  Some reason \<Rightarrow> refuse_send E 1 inp reason w
                | None \<Rightarrow> send_issue E inp message (fst w) (case se_pty E of None \<Rightarrow> None | Some owner \<Rightarrow> owner) w))"

section \<open>Sends of an operator\<close>

datatype operator_error =
    RequestMalformed | ConfigInvalid | SessionNotFound | SessionLoadFailed | RefusedSupervised | RefusedForbidden | RefuseRecordFailed
  | SendAbortedCode string | SendNotConfirmedCode string | SendErrors "send_error list"

record operator_env =
  oe_deps :: bool
  oe_load :: "managed_session option option"
  oe_bytes :: "byte list"
  oe_now :: go_time
  oe_record_fails :: bool
  oe_after :: "send_world \<Rightarrow> managed_session option"

definition operator_refused :: "operator_env \<Rightarrow> operator_error \<Rightarrow> operator_error list" where
  "operator_refused V reason = [if oe_record_fails V then RefuseRecordFailed else reason]"

definition SupervisorOperatorInputMinInterval :: duration where
  "SupervisorOperatorInputMinInterval = go_second"

text \<open>
  \<open>SendOperatorInputUseCase.Execute\<close>; \<open>previous\<close> holds the time of the previous input of each session, \<open>oe_load\<close> the answer of
  the first load (\<open>None\<close> an error, \<open>Some None\<close> no such file) and \<open>oe_bytes\<close> the encoding of the text.
\<close>

definition operator_input :: "session_id \<Rightarrow> row \<Rightarrow> send_input" where
  "operator_input sid txt = \<lparr>sin_SessionID = sid, sin_Kind = SendKindOperatorInput, sin_OperatorText = txt, sin_Origin = SendOriginNormal, sin_ConfirmTimeout = 0\<rparr>"

definition operator_errors :: "operator_env \<Rightarrow> send_result \<Rightarrow> send_error list \<Rightarrow> send_world \<Rightarrow> operator_error list" where
  "operator_errors V result errs w =
     (if errs = [] then []
      else case oe_after V w of
        None \<Rightarrow> [SendErrors errs]
      | Some v \<Rightarrow>
          if ms_StopReason v = StopSendAborted then [SendAbortedCode (sr_SendID result)]
          else if ms_StopReason v = StopSendNotConfirmed then [SendNotConfirmedCode (sr_SendID result)]
          else [SendErrors errs])"

definition SendOperatorInput_Execute :: "send_env \<Rightarrow> operator_env \<Rightarrow> session_id \<Rightarrow> row \<Rightarrow> bool \<Rightarrow> (session_id \<Rightarrow> go_time option) \<Rightarrow> send_world
    \<Rightarrow> (session_id \<Rightarrow> go_time option) \<times> send_world \<times> send_effect list \<times> send_result \<times> operator_error list" where
  "SendOperatorInput_Execute E V sid txt supervised previous w =
     (let reject = (\<lambda>errs. (previous, w, [], no_result, errs))
      in if txt = [] then reject [RequestMalformed]
         else if supervised then reject (operator_refused V RefusedSupervised)
         else if \<not> oe_deps V then reject [ConfigInvalid]
         else case oe_load V of
           None \<Rightarrow> reject [SessionLoadFailed]
         | Some None \<Rightarrow> reject [SessionNotFound]
         | Some (Some v) \<Rightarrow>
             if ms_SessionID v \<noteq> sid then reject [SessionNotFound]
             else if IsForbidden (se_unicode E) (oe_bytes V) then reject (operator_refused V RefusedForbidden)
             else if (case previous sid of None \<Rightarrow> False | Some t \<Rightarrow> time_sub (oe_now V) t < SupervisorOperatorInputMinInterval)
             then (case blocked E 0 (operator_input sid txt) SendBlockedRateLimited of (effs, result, errs) \<Rightarrow>
                     (previous, w, effs, result, if errs = [] then [] else [SendErrors errs]))
             else (case Execute_send E (operator_input sid txt) w of (w, effs, result, errs) \<Rightarrow>
                     (previous(sid \<mapsto> oe_now V), w, effs, result, operator_errors V result errs w)))"

section \<open>What is typed\<close>

fun types :: "send_effect \<Rightarrow> bool" where
  "types (TypedText t) = True"
| "types PressedEnter = True"
| "types _ = False"

definition silent :: "send_effect list \<Rightarrow> bool" where
  "silent effs \<longleftrightarrow> filter types effs = []"

lemma silent_simps [simp]:
  "silent []" "silent (e # effs) \<longleftrightarrow> \<not> types e \<and> silent effs" "silent (xs @ ys) \<longleftrightarrow> silent xs \<and> silent ys"
  by (auto simp: silent_def)

lemma record_event_silent [simp]: "silent (fst (record_event E k e))"
  by (simp add: record_event_def)

lemma blocked_silent [simp]: "silent (fst (blocked E k inp reason))"
  by (simp add: blocked_def Let_def case_prod_beta)

lemma logOperator_silent [simp]: "silent (fst (logOperatorSendOutcome E k inp kind))"
  by (simp add: logOperatorSendOutcome_def)

lemma update_and_tell_silent [simp]: "silent (fst (snd (update_and_tell E k inp change e w)))"
  using record_event_silent [of E k e]
  by (auto simp: update_and_tell_def record_event_def split: prod.splits list.splits)

lemma abortBeforeCR_silent [simp]: "silent (fst (snd (abortBeforeCR E k inp p ever confirmed w)))"
  by (simp add: abortBeforeCR_def)

lemma blockBeforeText_silent [simp]: "silent (fst (snd (blockBeforeText E k inp ever confirmed reason w)))"
  by (simp add: blockBeforeText_def case_prod_beta split: list.split)

lemma resolveExit_silent [simp]: "silent (fst (snd (resolveExit E k inp p owner expired w)))"
  by (auto simp: resolveExit_def Let_def record_event_def split: prod.splits option.splits)

lemma expireExit_silent [simp]: "silent (fst (snd (expireExit E k inp p owner cause w)))"
  by (simp add: expireExit_def case_prod_beta)

lemma unconfirmed_silent [simp]: "silent (fst (snd (unconfirmed E k inp p w)))"
  by (simp add: unconfirmed_def case_prod_beta)

lemma confirmSend_silent [simp]: "silent (fst (snd (confirmSend E k inp p w)))"
  by (auto simp: confirmSend_def Let_def record_event_def split: prod.splits list.splits)

lemma processExitedPending_silent [simp]: "silent (fst (snd (processExitedPending E k inp w)))"
  by (auto simp: processExitedPending_def Let_def split: prod.splits list.splits)

lemma unconfirmed_end_silent [simp]: "silent (fst (snd (unconfirmed_end E k inp p owner w)))"
  by (simp add: unconfirmed_end_def Let_def case_prod_beta)

lemma confirm_loop_silent [simp]: "silent (fst (snd (confirm_loop E inp p owner crAt k seen n confs w)))"
proof (induction confs arbitrary: k seen n w)
  case (Cons c cs)
  obtain w1 effs result errs where r: "resolveExit E k inp p owner False w = (w1, effs, result, errs)" by (metis prod.exhaust)
  obtain w2 effs' errs' where x: "processExitedPending E k inp w = (w2, effs', errs')" by (metis prod.exhaust)
  have s: "silent effs" "silent effs'" using resolveExit_silent [of E k inp p owner False w] processExitedPending_silent [of E k inp w] r x by simp_all
  show ?case using Cons.IH s by (simp add: r x Let_def)
qed simp

lemma send_written_silent [simp]: "silent (fst (snd (send_written E inp p owner w)))"
proof -
  obtain w1 effs result errs where r: "resolveExit E 8 inp p owner False (end_cr E inp True w) = (w1, effs, result, errs)" by (metis prod.exhaust)
  then have "silent effs" using resolveExit_silent [of E 8 inp p owner False "end_cr E inp True w"] by simp
  with r show ?thesis by (simp add: send_written_def Let_def)
qed

lemma line_failed_silent [simp]: "silent (fst (snd (line_failed E inp message p ever confirmed called allowed w)))"
proof -
  let ?w = "end_cr E inp False w"
  let ?r = "if allowed then unconfirmed E 5 inp p ?w else if \<not> called \<and> has_newline message
      then blockBeforeText E 5 inp ever confirmed SendBlockedState ?w else abortBeforeCR E 5 inp p ever confirmed ?w"
  have "silent (fst (snd ?r))" by simp
  then show ?thesis
    using logOperator_silent [of E 5 inp "if allowed then ''send_unconfirmed'' else ''send_aborted''"]
    by (simp add: line_failed_def case_prod_beta)
qed

lemma withdraw_silent [simp]: "silent (fst (snd (withdraw E k inp p ever confirmed shown reason before w)))"
  using blockBeforeText_silent [of E k inp ever confirmed reason w] by (simp add: withdraw_def case_prod_beta)

text \<open>The screens that the wait for the echo looks at, and what its deciding checks read.\<close>

definition echo_rounds :: "send_env \<Rightarrow> echo_round list" where
  "echo_rounds E = se_echo E @ [se_echo_last E]"

fun wake_screens :: "echo_wake \<Rightarrow> screen_snapshot list" where
  "wake_screens (EchoNotified n) = map sc_Screen (received n)"
| "wake_screens _ = []"

definition echo_screens :: "send_env \<Rightarrow> screen_snapshot list" where
  "echo_screens E = se_screen E 4 # concat (map (\<lambda>r. eo_latest r # wake_screens (eo_wake r)) (echo_rounds E))"

definition echo_views :: "send_env \<Rightarrow> check_view list" where
  "echo_views E = se_echo_view E # map (\<lambda>r. eo_view r 0) (echo_rounds E)"

lemma echo_notified_screen:
  "echo_notified inp message sendID view n cs at = Some at' \<Longrightarrow> fst at' = fst at \<or> fst at' \<in> set (map sc_Screen cs)"
  by (induction inp message sendID view n cs at rule: echo_notified.induct) (auto split: if_splits)

lemma echo_woken_screen:
  "echo_woken inp message sendID round at = Some at' \<Longrightarrow> fst at' = fst at \<or> fst at' \<in> set (wake_screens (eo_wake round))"
  by (auto simp: echo_woken_def split: echo_wake.splits dest: echo_notified_screen)

lemma echo_step_screen:
  assumes "echo_step inp message sendID baseline timed round at = r"
  shows "case r of
      Inl b \<Rightarrow> b \<longrightarrow> (\<exists>shot. shot \<in> insert (fst at) (set (eo_latest round # wake_screens (eo_wake round))) \<and> fst (echo_check inp message (eo_view round 0) shot))
    | Inr at' \<Rightarrow> fst at' \<in> insert (fst at) (set (eo_latest round # wake_screens (eo_wake round)))"
proof (cases "echo_woken inp message sendID round at")
  case None
  with assms show ?thesis by (auto simp: echo_step_def)
next
  case (Some at')
  obtain shot seen where at': "at' = (shot, seen)" by (rule prod.exhaust)
  have shot: "shot = fst at \<or> shot \<in> set (wake_screens (eo_wake round))" using echo_woken_screen [OF Some] at' by simp
  define cur where "cur = (if seen \<le> sh_Observation (eo_latest round) then (eo_latest round, sh_Observation (eo_latest round)) else (shot, seen))"
  have cur: "fst cur \<in> insert (fst at) (set (eo_latest round # wake_screens (eo_wake round)))" using shot by (auto simp: cur_def)
  let ?chk = "echo_check inp message (eo_view round 0) (fst cur)"
  have step: "echo_step inp message sendID baseline timed round at =
      (if \<not> snd ?chk then Inl False else if fst ?chk \<and> baseline < sh_Observation (fst cur) then Inl True
       else if timed \<or> eo_wake round = EchoTimer \<or> eo_late round then Inl False else Inr cur)"
    by (simp add: echo_step_def Some at' cur_def Let_def case_prod_beta)
  have found: "fst ?chk \<Longrightarrow> \<exists>shot. shot \<in> insert (fst at) (set (eo_latest round # wake_screens (eo_wake round)))
      \<and> fst (echo_check inp message (eo_view round 0) shot)" using cur by blast
  show ?thesis unfolding assms [symmetric] step using found cur by (simp only: split: if_split) simp
qed

lemma echo_loop_True:
  assumes "echo_loop inp message sendID baseline final rounds at"
    and "fst at \<in> S" and "\<And>r. r \<in> set (rounds @ [final]) \<Longrightarrow> set (eo_latest r # wake_screens (eo_wake r)) \<subseteq> S \<and> eo_view r 0 \<in> V"
  shows "\<exists>shot \<in> S. \<exists>view \<in> V. fst (echo_check inp message view shot)"
  using assms
proof (induction rounds arbitrary: at)
  case Nil
  obtain b where b: "echo_step inp message sendID baseline True final at = Inl b" "b"
    using Nil.prems(1) by (auto split: sum.splits)
  have "set (eo_latest final # wake_screens (eo_wake final)) \<subseteq> S" "eo_view final 0 \<in> V" using Nil.prems(3) by auto
  then show ?case using echo_step_screen [OF b(1)] b(2) Nil.prems(2) by auto
next
  case (Cons round rounds)
  have sub: "set (eo_latest round # wake_screens (eo_wake round)) \<subseteq> S" "eo_view round 0 \<in> V" using Cons.prems(3) by auto
  show ?case
  proof (cases "echo_step inp message sendID baseline False round at")
    case (Inl b)
    then show ?thesis using echo_step_screen [OF Inl] Cons.prems(1,2) sub by auto
  next
    case (Inr at')
    then have "fst at' \<in> S" using echo_step_screen [OF Inr] Cons.prems(2) sub by auto
    then show ?thesis using Cons.IH [of at'] Cons.prems(1,3) Inr by simp
  qed
qed

lemma waitForEnter_True:
  assumes "waitForEnter E inp message sendID"
  shows "\<exists>shot \<in> set (echo_screens E). \<exists>view \<in> set (echo_views E). fst (echo_check inp message view shot)"
proof (cases "fst (echo_check inp message (se_echo_view E) (se_screen E 4))")
  case True
  then show ?thesis by (auto simp: echo_screens_def echo_views_def)
next
  case False
  then have loop: "echo_loop inp message sendID (sh_Observation (se_screen E 4)) (se_echo_last E) (se_echo E) (se_screen E 4, sh_Observation (se_screen E 4))"
    using assms by (auto simp: waitForEnter_def Let_def case_prod_beta split: if_splits)
  show ?thesis
    by (rule echo_loop_True [OF loop]) (auto simp: echo_screens_def echo_views_def echo_rounds_def)
qed

lemma echo_check_True:
  assumes "fst (echo_check inp message view shot)"
  shows "\<not> cv_ended view \<and> \<not> stopped (cv_stop view) (sin_SessionID inp) \<and> cv_session view \<noteq> Some SessionStopped
     \<and> screenReadyForEnter shot message (operator_send inp)"
  using assms by (auto simp: echo_check_def screenReadyForEnter_def split: if_splits option.splits)

lemma WriteLine_effects:
  assumes "WriteLine E inp message p w = (w', effs, status)"
  shows "effs = [] \<or> effs = [TypedText message] \<or> effs = [TypedText message, PressedEnter]"
    and "PressedEnter \<in> set effs \<Longrightarrow> waitForEnter E inp message (pnd_SendID p)"
    and "effs \<noteq> [] \<Longrightarrow> \<not> has_newline message"
    and "status = LineWritten \<Longrightarrow> PressedEnter \<in> set effs"
  using assms by (auto simp: WriteLine_def before_enter_def Let_def split: if_splits prod.splits bool.splits)

lemma send_line_effects:
  assumes "send_line E inp message p owner ever confirmed w = (w', effs, res, errs)"
  shows "\<exists>typed tail status w1. effs = typed @ tail \<and> silent tail \<and> WriteLine E inp message p w = (w1, typed, status)
     \<and> (sr_Confirmed res \<longrightarrow> status = LineWritten \<and> send_written E inp p owner w1 = (w', tail, res, errs))"
proof -
  obtain w1 typed status where l: "WriteLine E inp message p w = (w1, typed, status)" by (metis prod.exhaust)
  show ?thesis
  proof (cases status)
    case LineWritten
    obtain w2 tail res2 errs2 where s: "send_written E inp p owner w1 = (w2, tail, res2, errs2)" by (metis prod.exhaust)
    have "silent tail" using send_written_silent [of E inp p owner w1] s by simp
    with assms l LineWritten s show ?thesis by (auto simp: send_line_def)
  next
    case (LineFailed called allowed)
    obtain w2 tail errs2 where s: "line_failed E inp message p ever confirmed called allowed w1 = (w2, tail, errs2)" by (metis prod.exhaust)
    have "silent tail" using line_failed_silent [of E inp message p ever confirmed called allowed w1] s by simp
    with assms l LineFailed s show ?thesis by (auto simp: send_line_def no_result_def)
  qed
qed

text \<open>Either nothing is typed, or the send reached its line.\<close>

lemma withdraw_unconfirmed: "\<not> sr_Confirmed (fst (snd (snd (withdraw E k inp p ever confirmed shown reason before w))))"
  by (simp add: withdraw_def case_prod_beta no_result_def)

lemma send_recorded_effects:
  assumes "send_recorded E inp message p owner ever confirmed w = (w', effs, res, errs)"
  shows "silent effs \<and> \<not> sr_Confirmed res
     \<or> \<not> stopped (se_stop E 3) (sin_SessionID inp)
       \<and> (\<exists>pre tail. effs = pre @ tail \<and> silent pre \<and> send_line E inp message p owner ever confirmed w = (w', tail, res, errs))"
proof -
  obtain effs1 errs1 where r: "record_event E 3 (sendEvent ''send_issued'' inp p '''') = (effs1, errs1)" by (metis prod.exhaust)
  have e1: "silent effs1" using record_event_silent [of E 3 "sendEvent ''send_issued'' inp p ''''"] r by simp
  have quiet: "silent tail \<and> \<not> sr_Confirmed res'"
    if "withdraw E 3 inp p ever confirmed shown reason before w = (w'', tail, res', errs')" for shown reason before w'' tail res' errs'
    using that withdraw_silent [of E 3 inp p ever confirmed shown reason before w]
      withdraw_unconfirmed [of E 3 inp p ever confirmed shown reason before w] by simp
  show ?thesis
  proof (cases "errs1 = []")
    case False
    obtain w2 t r2 e2 where wd: "withdraw E 3 inp p ever confirmed None SendBlockedState errs1 w = (w2, t, r2, e2)" by (metis prod.exhaust)
    have "effs = effs1 @ t" "res = r2" using assms r wd False by (simp_all add: send_recorded_def)
    with quiet [OF wd] e1 show ?thesis by simp
  next
    case True
    let ?issued = "if sin_Kind inp = SendKindRecommendationContinue \<and> se_hash E then [RecommendationIssued (pnd_IssuedAt p)] else []"
    let ?ready = "\<not> stopped (se_stop E 3) (sin_SessionID inp) \<and> \<not> (operator_send inp \<and> \<not> operatorScreenReadyForWrite (se_screen E 3))"
    have pre: "silent (effs1 @ ?issued)" using e1 by simp
    show ?thesis
    proof (cases ?ready)
      case ready: True
      obtain w2 t r2 e2 where l: "send_line E inp message p owner ever confirmed w = (w2, t, r2, e2)" by (metis prod.exhaust)
      have "effs = (effs1 @ ?issued) @ t" "res = r2" "w' = w2" "errs = e2" using assms r l True ready by (auto simp: send_recorded_def Let_def)
      with l pre ready show ?thesis by blast
    next
      case False
      let ?reason = "if stopped (se_stop E 3) (sin_SessionID inp) then SendBlockedStop else SendBlockedState"
      obtain w2 t r2 e2 where wd: "withdraw E 3 inp p ever confirmed (Some ?reason) ?reason [] w = (w2, t, r2, e2)" by (metis prod.exhaust)
      have "effs = (effs1 @ ?issued) @ t" "res = r2"
        using assms r True False wd by (cases "stopped (se_stop E 3) (sin_SessionID inp)"; auto simp: send_recorded_def Let_def)+
      with quiet [OF wd] pre show ?thesis by simp
    qed
  qed
qed

lemma send_issue_effects:
  assumes "send_issue E inp message s owner w = (w', effs, res, errs)"
  shows "silent effs \<and> \<not> sr_Confirmed res
     \<or> \<not> stopped (se_stop E 3) (sin_SessionID inp)
       \<and> (\<exists>p pre tail w1 w2. effs = pre @ tail \<and> silent pre \<and> pnd_Kind p = sin_Kind inp
            \<and> send_line E inp message p owner (sg_EverSent (ms_SendGate s)) (sg_LastSendConfirmed (ms_SendGate s)) w1 = (w2, tail, res, errs)
            \<and> (\<not> exit_send_kind inp \<longrightarrow> w' = w2))"
proof -
  let ?v = "fst (se_others E 2 w)"
  let ?p = "pending_of E inp ?v"
  let ?cur = "if exit_send_kind inp then Some (new_exit_send (se_ref E) ?p inp owner) else snd (se_others E 2 w)"
  have kind: "pnd_Kind ?p = sin_Kind inp" by (simp add: pending_of_def Let_def)
  have refused: "silent effs \<and> \<not> sr_Confirmed res" if "refuse_send E k inp reason v = (w', effs, res, errs)" for k reason v
    using that blocked_silent [of E k inp reason] by (auto simp: refuse_send_def blocked_def Let_def case_prod_beta no_result_def)
  show ?thesis
  proof (cases "se_load_fails E 2 \<or> \<not> SendKindAllowed (ms_State ?v) (session_state_of (sh_State (se_screen E 2))) (sin_Kind inp) [sin_Origin inp]
      \<or> sg_Pending (ms_SendGate ?v) \<noteq> None \<or> se_save_fails E 2")
    case True
    with assms refused show ?thesis by (auto simp: send_issue_def Let_def no_result_def split: if_splits)
  next
    case False
    obtain w2 t r2 e2 where rec: "send_recorded E inp message ?p owner (sg_EverSent (ms_SendGate s)) (sg_LastSendConfirmed (ms_SendGate s))
        (issue_pending E inp ?v, ?cur) = (w2, t, r2, e2)" by (metis prod.exhaust)
    have eq: "effs = t" "res = r2" "errs = e2" "\<not> exit_send_kind inp \<Longrightarrow> w' = w2"
      using assms False rec by (auto simp: send_issue_def Let_def)
    from send_recorded_effects [OF rec] kind show ?thesis unfolding eq(1-3)
      by (elim disjE conjE exE) (blast, use eq(4) in blast)
  qed
qed

lemma Execute_send_effects:
  assumes "Execute_send E inp w = (w', effs, res, errs)"
  shows "silent effs \<and> \<not> sr_Confirmed res
     \<or> (\<exists>message (v :: managed_session) p owner pre tail w1 w2.
          send_text E inp (fst (se_others E 1 w)) = Done (message, True) \<and> send_gate E inp (fst (se_others E 1 w)) True = None
          \<and> \<not> stopped (se_stop E 3) (sin_SessionID inp) \<and> effs = pre @ tail \<and> silent pre \<and> pnd_Kind p = sin_Kind inp
          \<and> send_line E inp message p owner (sg_EverSent (ms_SendGate v)) (sg_LastSendConfirmed (ms_SendGate v)) w1 = (w2, tail, res, errs)
          \<and> (\<not> exit_send_kind inp \<longrightarrow> w' = w2))"
proof -
  let ?w = "se_others E 1 w"
  have refused: "silent effs \<and> \<not> sr_Confirmed res" if "refuse_send E k inp reason v = (w', effs, res, errs)" for k reason v
    using that blocked_silent [of E k inp reason] by (auto simp: refuse_send_def blocked_def Let_def case_prod_beta no_result_def)
  show ?thesis
  proof (cases "\<not> se_deps E \<or> se_busy E \<or> se_load_fails E 1 \<or> send_text E inp (fst ?w) = Panic")
    case True
    with assms refused show ?thesis by (auto simp: Execute_send_def Let_def no_result_def split: if_splits)
  next
    case False
    then obtain message fixed where t: "send_text E inp (fst ?w) = Done (message, fixed)" by (cases "send_text E inp (fst ?w)") auto
    show ?thesis
    proof (cases "send_gate E inp (fst ?w) fixed")
      case (Some reason)
      with assms False t refused show ?thesis by (simp add: Execute_send_def Let_def)
    next
      case None
      have fixed: "fixed" using None by (auto simp: send_gate_def CheckSendGate_def Let_def split: if_splits option.splits)
      have issue: "send_issue E inp message (fst ?w) (case se_pty E of None \<Rightarrow> None | Some owner \<Rightarrow> owner) ?w = (w', effs, res, errs)"
        using assms False t None by (simp add: Execute_send_def Let_def)
      have t': "send_text E inp (fst ?w) = Done (message, True)" "send_gate E inp (fst ?w) True = None" using t None fixed by simp_all
      from send_issue_effects [OF issue] show ?thesis
      proof
        assume "silent effs \<and> \<not> sr_Confirmed res"
        then show ?thesis by (rule disjI1)
      next
        let ?owner = "case se_pty E of None \<Rightarrow> None | Some owner \<Rightarrow> owner"
        assume a: "\<not> stopped (se_stop E 3) (sin_SessionID inp)
          \<and> (\<exists>p pre tail w1 w2. effs = pre @ tail \<and> silent pre \<and> pnd_Kind p = sin_Kind inp
            \<and> send_line E inp message p ?owner (sg_EverSent (ms_SendGate (fst ?w))) (sg_LastSendConfirmed (ms_SendGate (fst ?w))) w1
                = (w2, tail, res, errs) \<and> (\<not> exit_send_kind inp \<longrightarrow> w' = w2))"
        then obtain p pre tail w1 w2 where o: "effs = pre @ tail" "silent pre" "pnd_Kind p = sin_Kind inp"
          "send_line E inp message p ?owner (sg_EverSent (ms_SendGate (fst ?w))) (sg_LastSendConfirmed (ms_SendGate (fst ?w))) w1 = (w2, tail, res, errs)"
          "\<not> exit_send_kind inp \<longrightarrow> w' = w2" by (elim conjE exE)
        show ?thesis by (intro disjI2 exI conjI; (rule t' o conjunct1 [OF a])?)
      qed
    qed
  qed
qed

lemma send_text_single_line:
  assumes "send_text E inp s = Done (message, True)" and "operator_send inp \<Longrightarrow> single_line (sin_OperatorText inp)"
  shows "single_line message"
proof -
  obtain answer where a: "FixedText (se_unicode E) (sin_Kind inp) (parallelInstructionFor E s) = Done answer"
    "case answer of None \<Rightarrow> True | Some m \<Rightarrow> single_line m" using FixedText_single_line by blast
  show ?thesis using assms a by (cases answer) (auto simp: send_text_def split: if_splits)
qed

lemma send_gate_None:
  assumes "send_gate E inp s fixed = None"
  shows "\<not> stopped (se_stop E 1) (sin_SessionID inp) \<and> \<not> stopped (se_stop E 2) (sin_SessionID inp) \<and> sg_Pending (ms_SendGate s) = None
     \<and> screenReadyForWrite (se_screen E 2)
     \<and> CheckSendGate s (session_state_of (sh_State (se_screen E 1))) (sin_Kind inp) False fixed (fresh_after_discard E s (se_screen E 1)) [sin_Origin inp] = None"
proof -
  let ?gate = "\<lambda>st. CheckSendGate s (session_state_of (sh_State (se_screen E 1))) (sin_Kind inp) st fixed (fresh_after_discard E s (se_screen E 1)) [sin_Origin inp]"
  let ?st = "stopped (se_stop E 1) (sin_SessionID inp)"
  have g: "?gate ?st = None" using assms by (cases "?gate ?st") (simp_all add: send_gate_def Let_def)
  have "\<not> ?st \<and> sg_Pending (ms_SendGate s) = None" using g by (simp add: CheckSendGate_def split: if_splits)
  then show ?thesis using assms g by (simp add: send_gate_def Let_def split: if_splits)
qed

lemma typing_guarded_base:
  assumes "Execute_send E inp w = (w', effs, res, errs)" and "\<not> silent effs"
    and "sin_Kind inp = SendKindOperatorInput \<Longrightarrow> single_line (sin_OperatorText inp)"
  shows "\<exists>t. send_text E inp (fst (se_others E 1 w)) = Done (t, True) \<and> single_line t
     \<and> send_gate E inp (fst (se_others E 1 w)) True = None \<and> screenReadyForWrite (se_screen E 2)
     \<and> \<not> stopped (se_stop E 1) (sin_SessionID inp) \<and> \<not> stopped (se_stop E 2) (sin_SessionID inp) \<and> \<not> stopped (se_stop E 3) (sin_SessionID inp)
     \<and> (filter types effs = [TypedText t]
        \<or> filter types effs = [TypedText t, PressedEnter]
          \<and> (\<exists>shot \<in> set (echo_screens E). \<exists>view \<in> set (echo_views E). screenReadyForEnter shot t (operator_send inp)
               \<and> \<not> cv_ended view \<and> \<not> stopped (cv_stop view) (sin_SessionID inp) \<and> cv_session view \<noteq> Some SessionStopped))"
proof -
  from Execute_send_effects [OF assms(1)] assms(2) obtain t and v :: managed_session and p owner pre tail w1 w2 where
    e: "send_text E inp (fst (se_others E 1 w)) = Done (t, True)" "send_gate E inp (fst (se_others E 1 w)) True = None"
      "\<not> stopped (se_stop E 3) (sin_SessionID inp)" "effs = pre @ tail" "silent pre"
      "send_line E inp t p owner (sg_EverSent (ms_SendGate v)) (sg_LastSendConfirmed (ms_SendGate v)) w1 = (w2, tail, res, errs)"
    by (elim disjE conjE exE) (blast, metis)
  from send_line_effects [OF e(6)] obtain typed rest status w3 where
    l: "tail = typed @ rest" "silent rest" "WriteLine E inp t p w1 = (w3, typed, status)" by blast
  have f: "filter types effs = typed" using e(4,5) l(1,2) WriteLine_effects(1) [OF l(3)] by (auto simp: silent_def)
  have "typed \<noteq> []" using f assms(2) by (auto simp: silent_def)
  have enter: "\<exists>shot \<in> set (echo_screens E). \<exists>view \<in> set (echo_views E). screenReadyForEnter shot t (operator_send inp)
      \<and> \<not> cv_ended view \<and> \<not> stopped (cv_stop view) (sin_SessionID inp) \<and> cv_session view \<noteq> Some SessionStopped" if "PressedEnter \<in> set typed"
    using waitForEnter_True [OF WriteLine_effects(2) [OF l(3) that]] echo_check_True by blast
  have "single_line t" using send_text_single_line [OF e(1)] assms(3) by (simp add: operator_send_def)
  then show ?thesis using e(1-3) send_gate_None [OF e(2)] f \<open>typed \<noteq> []\<close> WriteLine_effects(1) [OF l(3)] enter
    by (intro exI [of _ t]) auto
qed

text \<open>
  C24: the supervisor types only what it may, and presses Enter only on its own text. Whatever the other threads and the terminal do, a
  run that types anything types one permitted text of one line, after the send gate let it pass on a free session with an empty input line and with no
  stop active at any of the three looks; and it presses Enter at most once, only after one of the screens it
  looked at showed exactly that text in the input line, with no dialog open, while neither a stop nor a
  stopped session was seen.
\<close>

theorem typing_guarded:
  assumes "Execute_send E inp w = (w', effs, res, errs)" and "\<not> silent effs"
    and "sin_Kind inp = SendKindOperatorInput \<Longrightarrow> single_line (sin_OperatorText inp)"
  shows "\<exists>t. send_text E inp (fst (se_others E 1 w)) = Done (t, True) \<and> single_line t
     \<and> send_gate E inp (fst (se_others E 1 w)) True = None \<and> screenReadyForWrite (se_screen E 2)
     \<and> \<not> stopped (se_stop E 1) (sin_SessionID inp) \<and> \<not> stopped (se_stop E 2) (sin_SessionID inp) \<and> \<not> stopped (se_stop E 3) (sin_SessionID inp)
     \<and> (filter types effs = [TypedText t]
        \<or> filter types effs = [TypedText t, PressedEnter]
          \<and> (\<exists>shot \<in> set (echo_screens E). \<exists>view \<in> set (echo_views E). screenReadyForEnter shot t (operator_send inp)
               \<and> \<not> cv_ended view \<and> \<not> stopped (cv_stop view) (sin_SessionID inp) \<and> cv_session view \<noteq> Some SessionStopped))"
  using typing_guarded_base [OF assms] .

lemma update_session_ok:
  "update_session E k change w = (w', []) \<Longrightarrow> fst w' = change (fst (se_others E k w))"
  by (auto simp: update_session_def Let_def split: if_splits)

definition taken :: "send_input \<Rightarrow> string \<Rightarrow> go_time \<Rightarrow> send_confirmation \<Rightarrow> bool" where
  "taken inp sendID crAt c \<longleftrightarrow> sc_SendID c = sendID \<and> counts_as_taken inp crAt (sc_Screen c)"

definition sent_record :: "pending_send \<Rightarrow> last_send_record" where
  "sent_record p = \<lparr>lsr_SendID = pnd_SendID p, lsr_Kind = pnd_Kind p, lsr_IssuedAt = pnd_IssuedAt p, lsr_Confirmed = True\<rparr>"

lemma confirmSend_confirmed:
  assumes "confirmSend E k inp p w = (w', effs, res, errs)" and "sr_Confirmed res" and "\<not> exit_send_kind inp"
  shows "sr_SendID res = pnd_SendID p \<and> ms_LastSend (fst w') = Some (sent_record p) \<and> sg_Pending (ms_SendGate (fst w')) = None"
proof -
  obtain w1 errs1 where u: "update_session E k (applySendConfirmation p (se_now E k)) w = (w1, errs1)" by (metis prod.exhaust)
  have "errs1 = []" using assms u by (cases errs1) (auto simp: confirmSend_def exit_send_kind_def Let_def no_result_def)
  with u update_session_ok have "fst w1 = applySendConfirmation p (se_now E k) (fst (se_others E k w))" by blast
  moreover have "w' = w1" "sr_SendID res = pnd_SendID p"
    using assms u \<open>errs1 = []\<close> by (auto simp: confirmSend_def exit_send_kind_def Let_def split: prod.splits)
  ultimately show ?thesis by (simp add: applySendConfirmation_def sent_record_def)
qed

lemma subseq_pair: "c \<in> set past \<Longrightarrow> subseq [c, d] (past @ d # rest)"
  by (metis append_Cons append_Nil list_emb_append_mono subseq_singleton_left subseq_Cons2 list_emb_Nil)

lemma confirm_loop_confirmed:
  assumes "confirm_loop E inp p owner crAt k seen n confs w = (w', effs, res, errs)" and "sr_Confirmed res" and "\<not> exit_send_kind inp"
    and "n \<le> 1" and "n = 1 \<Longrightarrow> \<exists>c \<in> set past. taken inp (pnd_SendID p) crAt c \<and> sh_Observation (sc_Screen c) = seen"
  shows "(\<exists>c d. subseq [c, d] (past @ confs) \<and> taken inp (pnd_SendID p) crAt c \<and> taken inp (pnd_SendID p) crAt d
       \<and> sh_Observation (sc_Screen d) = sh_Observation (sc_Screen c) + 1)
     \<and> sr_SendID res = pnd_SendID p \<and> ms_LastSend (fst w') = Some (sent_record p) \<and> sg_Pending (ms_SendGate (fst w')) = None"
  using assms
proof (induction confs arbitrary: past k seen n w)
  case Nil
  have "\<not> sr_Confirmed res"
    using Nil.prems(1,3) by (auto simp: unconfirmed_end_def Let_def no_result_def split: prod.splits)
  with Nil.prems(2) show ?case by simp
next
  case (Cons c cs)
  let ?shot = "sc_Screen c"
  let ?adj = "seen \<noteq> 0 \<and> sh_Observation ?shot - seen = 1"
  have IH: ?case if "confirm_loop E inp p owner crAt (k + 2) seen' n' cs w = (w', effs, res, errs)" "n' \<le> 1"
    "n' = 1 \<Longrightarrow> \<exists>x \<in> set (past @ [c]). taken inp (pnd_SendID p) crAt x \<and> sh_Observation (sc_Screen x) = seen'" for seen' n'
    using Cons.IH [OF that(1) Cons.prems(2,3) that(2,3)] by simp
  consider (skip) seen' n' where "confirm_loop E inp p owner crAt (k + 2) seen' n' cs w = (w', effs, res, errs)" "n' = 0 \<or> n' = n \<and> seen' = seen"
    | (count) "confirm_loop E inp p owner crAt (k + 2) (sh_Observation ?shot) 1 cs w = (w', effs, res, errs)" "taken inp (pnd_SendID p) crAt c"
    | (exited) "sc_ProcessExited c" "sc_SendID c = pnd_SendID p"
    | (confirm) "confirmSend E k inp p w = (w', effs, res, errs)" "taken inp (pnd_SendID p) crAt c" "n = 1" "?adj"
    using Cons.prems(1,3,4) by (cases n) (auto simp: Let_def taken_def split: if_splits)
  then show ?case
  proof cases
    case skip
    then show ?thesis using IH [OF skip(1)] Cons.prems(4,5) by auto
  next
    case count
    then show ?thesis using IH [OF count(1)] by auto
  next
    case exited
    then have "\<not> sr_Confirmed res" using Cons.prems(1,3) by (auto simp: no_result_def split: prod.splits)
    with Cons.prems(2) show ?thesis by simp
  next
    case confirm
    then obtain b where b: "b \<in> set past" "taken inp (pnd_SendID p) crAt b" "sh_Observation (sc_Screen b) = seen" using Cons.prems(5) by blast
    have "sh_Observation ?shot = sh_Observation (sc_Screen b) + 1" using confirm(4) b(3) by (simp add: diff_eq_eq add.commute)
    with subseq_pair [OF b(1), of c cs] b(2) confirm(2) confirmSend_confirmed [OF confirm(1) Cons.prems(2,3)] show ?thesis by blast
  qed
qed

text \<open>
  C25: a send, other than the exit send of a handoff, is reported as confirmed only after the terminal has taken it (an exit send is
  confirmed by the exit of the process, see theory \<open>Exit_Send\<close>). Enter was pressed, and two
  observations that follow one another directly, both of a screen that changed after Enter, showed the input line empty or the
  program at work; and the stored session records the send as confirmed and has no pending send left.
\<close>

theorem confirmation_observed:
  assumes "Execute_send E inp w = (w', effs, res, errs)" and "sr_Confirmed res" and "sin_Kind inp \<noteq> SendKindHandoffExit"
  shows "PressedEnter \<in> set effs
     \<and> (\<exists>c d. subseq [c, d] (concat (map received (se_notifications E)))
          \<and> taken inp (sr_SendID res) (se_now E 7) c \<and> taken inp (sr_SendID res) (se_now E 7) d
          \<and> sh_Observation (sc_Screen d) = sh_Observation (sc_Screen c) + 1)
     \<and> (\<exists>l. ms_LastSend (fst w') = Some l \<and> lsr_SendID l = sr_SendID res \<and> lsr_Kind l = sin_Kind inp \<and> lsr_Confirmed l)
     \<and> sg_Pending (ms_SendGate (fst w')) = None"
proof -
  have kind: "\<not> exit_send_kind inp" using assms(3) by (simp add: exit_send_kind_def)
  from Execute_send_effects [OF assms(1)] assms(2) kind obtain t and v :: managed_session and p owner pre tail w1 where
    e: "effs = pre @ tail" "pnd_Kind p = sin_Kind inp"
      "send_line E inp t p owner (sg_EverSent (ms_SendGate v)) (sg_LastSendConfirmed (ms_SendGate v)) w1 = (w', tail, res, errs)"
    by (elim disjE conjE exE) (blast, metis)
  from send_line_effects [OF e(3)] assms(2) obtain typed rest w3 where
    l: "tail = typed @ rest" "WriteLine E inp t p w1 = (w3, typed, LineWritten)" "send_written E inp p owner w3 = (w', rest, res, errs)" by blast
  have enter: "PressedEnter \<in> set effs" using WriteLine_effects(4) [OF l(2)] e(1) l(1) by simp
  have "confirm_loop E inp p owner (se_now E 7) 10 0 0 (concat (map received (se_notifications E))) (end_cr E inp True w3) = (w', rest, res, errs)"
    using l(3) kind by (simp add: send_written_def Let_def)
  from confirm_loop_confirmed [OF this assms(2) kind, of "[]"] enter e(2) show ?thesis by (simp add: sent_record_def)
qed

text \<open>
  C27: what an operator may type. An input of an operator that leads to anything being typed came from a caller outside the supervised sessions,
  was not classified as forbidden, followed the previous input of the session by at least one second, and is the text that was
  validated: one line without control characters that does not start with a command sign.
\<close>

theorem operator_text_vetted:
  assumes "SendOperatorInput_Execute E V sid s supervised previous w = (previous', w', effs, res, errs)"
    and "NewOperatorText (oe_bytes V) = Some s" and "\<not> silent effs"
  shows "\<not> supervised \<and> \<not> IsForbidden (se_unicode E) (oe_bytes V)
     \<and> (\<forall>t. previous sid = Some t \<longrightarrow> time_sub (oe_now V) t \<ge> SupervisorOperatorInputMinInterval) \<and> previous' sid = Some (oe_now V)
     \<and> single_line s \<and> \<not> command_rune (hd s) \<and> length s \<le> SupervisorOperatorInputMaxLength
     \<and> (filter types effs = [TypedText s] \<or> filter types effs = [TypedText s, PressedEnter])"
proof -
  have s: "single_line s" "\<not> command_rune (hd s)" "length s \<le> SupervisorOperatorInputMaxLength" using NewOperatorText_Some [OF assms(2)] by auto
  let ?inp = "operator_input sid s"
  obtain w1 effs1 res1 errs1 where x: "Execute_send E ?inp w = (w1, effs1, res1, errs1)" by (metis prod.exhaust)
  obtain effs2 res2 errs2 where bl: "blocked E 0 ?inp SendBlockedRateLimited = (effs2, res2, errs2)" by (metis prod.exhaust)
  have quiet: "silent effs2" using blocked_silent [of E 0 ?inp SendBlockedRateLimited] unfolding bl by simp
  have reached: "effs = effs1 \<and> previous' = previous(sid \<mapsto> oe_now V) \<and> \<not> supervised \<and> \<not> IsForbidden (se_unicode E) (oe_bytes V)
      \<and> (\<forall>t. previous sid = Some t \<longrightarrow> time_sub (oe_now V) t \<ge> SupervisorOperatorInputMinInterval)"
    using assms(1,3) quiet x bl
    by (auto simp: SendOperatorInput_Execute_def Let_def not_less split: if_splits option.splits prod.splits)
  obtain t where t: "send_text E ?inp (fst (se_others E 1 w)) = Done (t, True)" "filter types effs = [TypedText t] \<or> filter types effs = [TypedText t, PressedEnter]"
    using typing_guarded_base [OF x] s(1) assms(3) reached by (auto simp: operator_input_def)
  have "t = s" using t(1) FixedText_single_line [of "se_unicode E" "sin_Kind ?inp" "parallelInstructionFor E (fst (se_others E 1 w))"]
    by (auto simp: send_text_def operator_send_def operator_input_def)
  with t(2) reached s show ?thesis by simp
qed

section \<open>Notifications and screens\<close>

text \<open>Nothing is lost in the channel: what the receiver iterates over is everything that was sent since it last received, in order.\<close>

lemma notifications_in_order:
  "case fold (NotifyConfirmation False) (c # cs) (Some None) of Some (Some n) \<Rightarrow> received n = c # cs | _ \<Rightarrow> False"
proof -
  have "\<exists>m. fold (NotifyConfirmation False) xs (Some (Some n)) = Some (Some m) \<and> received m = received n @ xs" for xs n
    by (induction xs arbitrary: n) (fastforce simp: NotifyConfirmation_def received_def)+
  from this [of cs "\<lparr>nt_earlier = [], nt_latest = c\<rparr>"] show ?thesis by (auto simp: NotifyConfirmation_def received_def)
qed

text \<open>An observer that was superseded neither replaces nor removes the screen of its successor.\<close>

lemma superseded_observer_ignored:
  assumes "old < new"
  shows "Snapshot sid (DeleteOwned sid old (SetSnapshotOwned sid stale old (SetSnapshotOwned sid shot new s))) =
     Snapshot sid (SetSnapshotOwned sid shot new s)"
  using assms by (auto simp: SetSnapshotOwned_def DeleteOwned_def Snapshot_def Delete_screen_def)

section \<open>A sample send\<close>

definition idle_session :: managed_session where
  "idle_session = fresh_session\<lparr>ms_SessionID := SessionID ''a'', ms_State := SessionIdle\<rparr>"

definition shown_screen :: "64 word \<Rightarrow> row \<Rightarrow> go_time \<Rightarrow> screen_snapshot" where
  "shown_screen n typed changed = \<lparr>sh_Observation = n, sh_Rows = [replicate 4 border, input_prompt @ typed, replicate 4 border],
     sh_Cells = Some [[], map (\<lambda>r. \<lparr>cv_Text = [r], cv_Faint = False, cv_Wide = False\<rparr>) (input_prompt @ typed), []], sh_State = StateIdle, sh_Processing = False,
     sh_CompletionMenu = False, sh_SelectedCompletion = [], sh_ObservedAt = changed, sh_ChangedAt = changed\<rparr>"

definition plain_unicode :: unicode where
  "plain_unicode = \<lparr>uc_Cf = (\<lambda>_. False), uc_mark = (\<lambda>_. False), uc_NFKC = (\<lambda>s. s), uc_ToLower = map (\<lambda>r. if 65 \<le> r \<and> r \<le> 90 then r + 32 else r)\<rparr>"

definition free_view :: "stop_view option" where
  "free_view = Some \<lparr>sv_callback = False, sv_io = quiet_io, sv_state = NewStopState []\<rparr>"

definition seen_view :: check_view where
  "seen_view = \<lparr>cv_ended = False, cv_stop = free_view, cv_session = Some SessionIdle, cv_observed = None\<rparr>"

definition conf_of :: "screen_snapshot \<Rightarrow> notification" where
  "conf_of shot = \<lparr>nt_earlier = [], nt_latest = \<lparr>sc_SessionID = SessionID ''a'', sc_SendID = ''a-s1'', sc_Screen = shot, sc_ProcessExited = False\<rparr>\<rparr>"

definition sample_send_env :: "row \<Rightarrow> send_env" where
  "sample_send_env typed = \<lparr>se_deps = True, se_busy = False, se_unicode = plain_unicode, se_instruction = None, se_projects = (\<lambda>_. []),
     se_others = (\<lambda>_ w. w), se_published = (\<lambda>_. None), se_load_fails = (\<lambda>_. False), se_save_fails = (\<lambda>_. False), se_record_fails = (\<lambda>_. False),
     se_log_fails = (\<lambda>_. False), se_stop = (\<lambda>_. free_view), se_screen = (\<lambda>k. shown_screen 4 (if k = 4 then typed else []) 10),
     se_now = (\<lambda>_. 20), se_pty = Some (Some 1), se_ref = 1, se_line_fails = (\<lambda>_. False), se_echo_view = seen_view, se_echo = [],
     se_echo_last = \<lparr>eo_wake = EchoTimer, eo_late = True, eo_latest = shown_screen 4 typed 10, eo_view = (\<lambda>_. seen_view)\<rparr>,
     se_notifications = [conf_of (shown_screen 6 [] 30), conf_of (shown_screen 7 [] 30)], se_timeout = 0, se_ctx_ends = False, se_hash = False,
     se_oplog = False\<rparr>"

definition start_input :: send_input where
  "start_input = \<lparr>sin_SessionID = SessionID ''a'', sin_Kind = SendKindSessionStart, sin_OperatorText = [], sin_Origin = SendOriginNormal, sin_ConfirmTimeout = 0\<rparr>"

definition sample_outcome :: send_outcome where
  "sample_outcome = Execute_send (sample_send_env (ascii ''#start'')) start_input (idle_session, None)"

theorem typing_guarded_witness:
  "filter types (fst (snd sample_outcome)) = [TypedText (ascii ''#start''), PressedEnter]
   \<and> \<not> stopped (se_stop (sample_send_env (ascii ''#start'')) 3) (SessionID ''a'') \<and> screenReadyForWrite (se_screen (sample_send_env (ascii ''#start'')) 2)"
proof -
  obtain w' effs res errs where x: "sample_outcome = (w', effs, res, errs)" by (metis prod.exhaust)
  have f: "filter types (fst (snd sample_outcome)) = [TypedText (ascii ''#start''), PressedEnter]" by code_simp
  then have "\<not> silent effs" unfolding x by (simp add: silent_def)
  from typing_guarded [OF x [unfolded sample_outcome_def] this] f show ?thesis by (auto simp: start_input_def)
qed

theorem confirmation_observed_witness:
  "sr_Confirmed (fst (snd (snd sample_outcome))) \<and> sg_Pending (ms_SendGate (fst (fst sample_outcome))) = None
   \<and> PressedEnter \<in> set (fst (snd sample_outcome))"
proof -
  obtain w' effs res errs where x: "sample_outcome = (w', effs, res, errs)" by (metis prod.exhaust)
  have c: "sr_Confirmed (fst (snd (snd sample_outcome)))" by code_simp
  have "sin_Kind start_input \<noteq> SendKindHandoffExit" by (simp add: start_input_def)
  from confirmation_observed [OF x [unfolded sample_outcome_def] _ this] c show ?thesis unfolding x by simp
qed

definition sample_operator_env :: operator_env where
  "sample_operator_env = \<lparr>oe_deps = True, oe_load = Some (Some idle_session), oe_bytes = map of_char ''hello'', oe_now = 90, oe_record_fails = False,
     oe_after = (\<lambda>w. Some (fst w))\<rparr>"

definition operator_outcome :: "(session_id \<Rightarrow> go_time option) \<times> send_world \<times> send_effect list \<times> send_result \<times> operator_error list" where
  "operator_outcome = SendOperatorInput_Execute (sample_send_env (ascii ''hello'')) sample_operator_env (SessionID ''a'') (ascii ''hello'') False
     (\<lambda>_. None) (idle_session, None)"

theorem operator_text_vetted_witness:
  "filter types (fst (snd (snd operator_outcome))) = [TypedText (ascii ''hello''), PressedEnter] \<and> single_line (ascii ''hello'')
   \<and> \<not> IsForbidden plain_unicode (map of_char ''hello'')"
proof -
  obtain prev w' effs res errs where x: "operator_outcome = (prev, w', effs, res, errs)" by (metis prod.exhaust)
  have n: "NewOperatorText (oe_bytes sample_operator_env) = Some (ascii ''hello'')" by code_simp
  have f: "filter types (fst (snd (snd operator_outcome))) = [TypedText (ascii ''hello''), PressedEnter]" by code_simp
  then have "\<not> silent effs" unfolding x by (simp add: silent_def)
  from operator_text_vetted [OF x [unfolded operator_outcome_def] n this] f show ?thesis
    by (simp add: sample_send_env_def sample_operator_env_def)
qed

section \<open>Bookkeeping around a send\<close>

text \<open>The maps of the use case: which carriage return was written when, which sessions have ended, and the channels.\<close>

record sender_maps =
  sm_crWritten :: "session_id \<Rightarrow> string option"
  sm_crAt :: "session_id \<Rightarrow> go_time"
  sm_ended :: "session_id \<Rightarrow> bool"
  sm_confirm :: "session_id \<Rightarrow> notification option option"

definition markCR :: "go_time \<Rightarrow> session_id \<Rightarrow> string \<Rightarrow> sender_maps \<Rightarrow> sender_maps" where
  "markCR now sid sendID m = m\<lparr>sm_crWritten := (sm_crWritten m)(sid \<mapsto> sendID), sm_crAt := (sm_crAt m)(sid := now)\<rparr>"

definition CRWritten_lookup :: "session_id \<Rightarrow> string \<Rightarrow> sender_maps \<Rightarrow> bool" where
  "CRWritten_lookup sid sendID m = ((case sm_crWritten m sid of None \<Rightarrow> '''' | Some s \<Rightarrow> s) = sendID)"

definition CRWrittenAt :: "session_id \<Rightarrow> string \<Rightarrow> sender_maps \<Rightarrow> go_time" where
  "CRWrittenAt sid sendID m = (if CRWritten_lookup sid sendID m then sm_crAt m sid else 0)"

definition resetConfirmation :: "session_id \<Rightarrow> sender_maps \<Rightarrow> sender_maps" where
  "resetConfirmation sid m = m\<lparr>sm_confirm := (sm_confirm m)(sid \<mapsto> None), sm_ended := (sm_ended m)(sid := False)\<rparr>"

definition releaseConfirmation :: "session_id \<Rightarrow> sender_maps \<Rightarrow> sender_maps" where
  "releaseConfirmation sid m = m\<lparr>sm_confirm := (sm_confirm m)(sid := None)\<rparr>"

definition notify_maps :: "send_confirmation \<Rightarrow> sender_maps \<Rightarrow> sender_maps" where
  "notify_maps c m =
     m\<lparr>sm_confirm := (sm_confirm m)(sc_SessionID c := NotifyConfirmation (sm_ended m (sc_SessionID c)) c (sm_confirm m (sc_SessionID c)))\<rparr>"

definition EndSession :: "session_id \<Rightarrow> 64 word option \<Rightarrow> sender_maps \<times> screen_store \<Rightarrow> sender_maps \<times> screen_store" where
  "EndSession sid owner ms =
     (case ms of (m, s) \<Rightarrow>
        (m\<lparr>sm_ended := (sm_ended m)(sid := True), sm_confirm := (sm_confirm m)(sid := None), sm_crWritten := (sm_crWritten m)(sid := None),
           sm_crAt := (sm_crAt m)(sid := 0)\<rparr>,
         case owner of None \<Rightarrow> Delete_screen sid s | Some owner \<Rightarrow> DeleteOwned sid owner s))"

text \<open>After the end of a session no notification is kept and no carriage return is remembered, until the next send.\<close>

lemma ended_session_forgets:
  assumes "sendID \<noteq> ''''" and "fst (EndSession sid owner (m, s)) = m'"
  shows "\<not> CRWritten_lookup sid sendID m' \<and> CRWrittenAt sid sendID m' = 0 \<and> sm_confirm (notify_maps c m') sid = None"
  using assms by (auto simp: EndSession_def CRWritten_lookup_def CRWrittenAt_def notify_maps_def NotifyConfirmation_def)

definition ResumeReady :: "send_env \<Rightarrow> go_time \<Rightarrow> bool" where
  "ResumeReady E resumedAt =
     (let shot = se_screen E 1
      in sh_State shot = StateIdle \<and> resumedAt < sh_ObservedAt shot \<and> resumedAt < sh_ChangedAt shot
         \<and> time_sub (se_now E 1) (sh_ChangedAt shot) \<ge> QuietPeriod \<and> screenReadyForWrite shot)"

text \<open>\<open>ScreenReadUseCase.Execute\<close>; the two loads answer with an error, a missing file (\<open>Some None\<close>) or a session.\<close>

datatype screen_read_error = ScreenConfigInvalid | ScreenSessionNotFound | ScreenUnavailable | ScreenLoadFailed | ScreenRecordFailed

record screen_read_result =
  srr_SessionID :: session_id
  srr_Rows :: "row list"
  srr_RowCount :: nat
  srr_ObservedAt :: go_time

definition screen_gone :: "managed_session \<Rightarrow> bool" where
  "screen_gone v \<longleftrightarrow> ms_State v = SessionExited \<or> ms_State v = SessionFailed"

definition ScreenRead_Execute :: "bool \<Rightarrow> managed_session option option \<Rightarrow> managed_session option option \<Rightarrow> bool \<Rightarrow> session_id \<Rightarrow> screen_store
    \<Rightarrow> screen_read_error + screen_read_result" where
  "ScreenRead_Execute deps first second record_fails sid screens =
     (if \<not> deps then Inl ScreenConfigInvalid
      else case first of
        None \<Rightarrow> Inl ScreenLoadFailed
      | Some None \<Rightarrow> Inl ScreenSessionNotFound
      | Some (Some v) \<Rightarrow>
          if ms_SessionID v \<noteq> sid then Inl ScreenSessionNotFound
          else if screen_gone v then Inl ScreenUnavailable
          else
            let shot = Snapshot sid screens
            in if is_zero_time (sh_ObservedAt shot) then Inl ScreenUnavailable
               else case second of
                 Some (Some v) \<Rightarrow>
                   if screen_gone v then Inl ScreenUnavailable
                   else if record_fails then Inl ScreenRecordFailed
                   else Inr \<lparr>srr_SessionID = sid, srr_Rows = map (TrimRight is_space_rune) (sh_Rows shot),
                          srr_RowCount = length (sh_Rows shot), srr_ObservedAt = sh_ObservedAt shot\<rparr>
               | _ \<Rightarrow> Inl ScreenLoadFailed)"

end
