(* ===== verification/Session_Restart.thy ===== *)
theory Session_Restart
  imports Stop_State Filepath
begin

text \<open>
  How a session gets a new child: the automatic recovery after a crash (\<^verbatim>\<open>src/internal/supervisor/usecase/recover_session.go\<close>), the respawn
  that it and the resume of a session use (\<^verbatim>\<open>respawn_session.go\<close>), the checks before a launch (\<^verbatim>\<open>launch_preflight.go\<close>), the command line
  (\<^verbatim>\<open>launch/argv.go\<close>) and the registries of children (\<^verbatim>\<open>pty_registry.go\<close>, \<^verbatim>\<open>owned_children.go\<close>).

  A run is a function of an environment: what the other threads do to the stored session before each access, which accesses fail, and
  what the clock and the stop state answer; the points are numbered in the order of the code. The result is the stored session, the trace
  of effects (a successful save is one) and the error. The dependencies that the source checks against \<open>nil\<close> without further
  effect (store, respawn) are present.
\<close>

section \<open>Registries of children\<close>

text \<open>A terminal is identified by a number; a mark without a terminal is \<open>Some None\<close>.\<close>

record pty_registry =
  pr_writers :: "session_id \<rightharpoonup> nat"
  pr_managed :: "session_id \<rightharpoonup> nat"
  pr_stopping :: "session_id \<rightharpoonup> nat option"
  pr_shutdown :: bool

definition StartChild :: "(stop_error + nat) \<Rightarrow> pty_registry \<Rightarrow> stop_error + nat" where
  "StartChild start r = (if pr_shutdown r then Inl ErrStopActive else start)"

definition RegisterManaged :: "session_id \<Rightarrow> nat \<Rightarrow> pty_registry \<Rightarrow> pty_registry" where
  "RegisterManaged sid pty r = r\<lparr>pr_managed := (pr_managed r)(sid \<mapsto> pty)\<rparr>"

definition RemoveManaged :: "session_id \<Rightarrow> nat \<Rightarrow> pty_registry \<Rightarrow> pty_registry" where
  "RemoveManaged sid pty r = (if pr_managed r sid = Some pty then r\<lparr>pr_managed := (pr_managed r)(sid := None)\<rparr> else r)"

definition MarkStopping :: "session_id \<Rightarrow> pty_registry \<Rightarrow> pty_registry \<times> nat option" where
  "MarkStopping sid r = (r\<lparr>pr_stopping := (pr_stopping r)(sid \<mapsto> pr_managed r sid)\<rparr>, pr_managed r sid)"

definition IsStopping :: "session_id \<Rightarrow> nat \<Rightarrow> pty_registry \<Rightarrow> bool" where
  "IsStopping sid pty r = (case pr_stopping r sid of None \<Rightarrow> False | Some marked \<Rightarrow> marked = None \<or> marked = Some pty)"

definition ClearStopping :: "session_id \<Rightarrow> nat option \<Rightarrow> pty_registry \<Rightarrow> pty_registry" where
  "ClearStopping sid pty r = (if pr_stopping r sid = Some pty then r\<lparr>pr_stopping := (pr_stopping r)(sid := None)\<rparr> else r)"

definition BeginShutdown :: "pty_registry \<Rightarrow> pty_registry" where
  "BeginShutdown r = r\<lparr>pr_shutdown := True\<rparr>"

definition Register_writer :: "session_id \<Rightarrow> nat \<Rightarrow> pty_registry \<Rightarrow> pty_registry" where
  "Register_writer sid pty r = r\<lparr>pr_writers := (pr_writers r)(sid \<mapsto> pty)\<rparr>"

definition Remove_writer :: "session_id \<Rightarrow> nat \<Rightarrow> pty_registry \<Rightarrow> pty_registry" where
  "Remove_writer sid pty r = (if pr_writers r sid = Some pty then r\<lparr>pr_writers := (pr_writers r)(sid := None)\<rparr> else r)"

text \<open>The children of this supervisor; a missing entry reads as 0.\<close>

type_synonym owned_children = "session_id \<rightharpoonup> int"

definition Register_owned :: "session_id \<Rightarrow> int \<Rightarrow> owned_children \<Rightarrow> owned_children" where
  "Register_owned sid pid r = r(sid \<mapsto> pid)"

definition owned_pid :: "owned_children \<Rightarrow> session_id \<Rightarrow> int" where
  "owned_pid r sid = (case r sid of None \<Rightarrow> 0 | Some pid \<Rightarrow> pid)"

definition Remove_owned :: "session_id \<Rightarrow> int \<Rightarrow> owned_children \<Rightarrow> owned_children" where
  "Remove_owned sid pid r = (if owned_pid r sid = pid then r(sid := None) else r)"

definition Owns_child :: "session_id \<Rightarrow> int \<Rightarrow> owned_children \<Rightarrow> bool" where
  "Owns_child sid pid r \<longleftrightarrow> pid > 0 \<and> owned_pid r sid = pid"

section \<open>The command line\<close>

datatype restart_error =
    RestartLoadFailed | RestartSaveFailed | RestartIllegal session_error | RestartContextDone | RestartStopActive
  | RestartLockFailed | RestartInvalidKind | ProjectCWDUnavailable | SpawnUnavailable | BillingGuardFailed | StateDirNotAbsolute
  | PTYSizeInvalid | SettingsFailed | ArgvInvalid string | StarterFailed string

definition supervisorManagerModel :: string where
  "supervisorManagerModel = ''claude-opus-5-5''"

text \<open>The regular expression of a session identifier: hexadecimal groups of 8, 4, 4, 4 and 12 digits.\<close>

definition claudeSessionIDPattern :: "string \<Rightarrow> bool" where
  "claudeSessionIDPattern v =
     (let gs = split_on (CHR ''-'') v in map length gs = [8, 4, 4, 4, 12] \<and> list_all (list_all any_hex) gs)"

definition BuildLaunchArgv :: "supervisor_cli \<Rightarrow> string \<Rightarrow> string \<Rightarrow> string \<Rightarrow> restart_error + string list" where
  "BuildLaunchArgv cli binaryPath settingsPath resumeID =
     (if cli \<noteq> CLIClaude then Inl (ArgvInvalid ''cli_not_supported'')
      else if \<not> is_abs binaryPath then Inl (ArgvInvalid ''relative_path: claude_binary_path'')
      else if \<not> is_abs settingsPath then Inl (ArgvInvalid ''relative_path: settings_path'')
      else
        let argv = [binaryPath, ''--settings'', settingsPath, ''--permission-mode'', ''default'', ''--model'', supervisorManagerModel]
        in if resumeID = '''' then Inr argv
           else if \<not> claudeSessionIDPattern resumeID then Inl (ArgvInvalid ''claude_session_id_invalid'')
           else Inr (argv @ [''--resume'', resumeID]))"

section \<open>Environment and updates\<close>

type_synonym stop_look = "(stop_io \<times> stop_state) option"

definition look_stopped :: "stop_look \<Rightarrow> session_id \<Rightarrow> bool" where
  "look_stopped look sid = (case look of None \<Rightarrow> False | Some (io, st) \<Rightarrow> IsStopped io sid st)"

definition look_global :: "stop_look \<Rightarrow> bool" where
  "look_global look = (case look of None \<Rightarrow> False | Some (io, st) \<Rightarrow> IsGlobalStopped io st)"

record sup_env =
  su_others :: "nat \<Rightarrow> managed_session \<Rightarrow> managed_session"
  su_load_fails :: "nat \<Rightarrow> bool"
  su_save_fails :: "nat \<Rightarrow> bool"
  su_now :: "nat \<Rightarrow> go_time"
  su_stop :: "nat \<Rightarrow> stop_look"

text \<open>
  Effects: a saved session, an event record (kind, states, reason and code), a notification, a failed start with project and reason, the
  wait before a restart, a started process with its command line, the closing, killing and reaping of a terminal whose process could not be
  recorded, the registries, and the thread that observes or only reaps the new child.
\<close>

datatype restart_effect =
    Stored managed_session
  | EventRecorded string session_state session_state stop_reason string
  | Notified string
  | StartFailureNoted string string
  | Waited duration
  | Spawned "string list" int
  | ClosedPTY | KilledPTY | ReapedPTY
  | OwnedAdd int | OwnedRemove int
  | WriterRegistered
  | ObserverStarted managed_session | ReaperStarted

type_synonym restart_outcome = "managed_session \<times> restart_effect list \<times> restart_error option"

text \<open>
  \<open>UpdateSession\<close>: the update function returns the changed session, what it assigns to captured variables, and its error. Only
  a changed session is saved.
\<close>

definition sup_update :: "sup_env \<Rightarrow> nat \<Rightarrow> (managed_session \<Rightarrow> managed_session \<times> 'a \<times> restart_error option) \<Rightarrow> 'a \<Rightarrow> managed_session
    \<Rightarrow> managed_session \<times> 'a \<times> restart_effect list \<times> restart_error option" where
  "sup_update E k f captured s0 =
     (let s = su_others E k s0
      in if su_load_fails E k then (s, captured, [], Some RestartLoadFailed)
         else case f s of (s', a, err) \<Rightarrow>
           (case err of
              Some e \<Rightarrow> (s, a, [], Some e)
            | None \<Rightarrow>
                if s' = s then (s, a, [], None)
                else if su_save_fails E k then (s, a, [], Some RestartSaveFailed)
                else (s', a, [Stored s'], None)))"

record restart_config =
  rc_StateDir :: string
  rc_Columns :: "16 word"
  rc_Rows :: "16 word"
  rc_Projects :: "string \<Rightarrow> (supervisor_cli \<times> string \<times> string) option"
  rc_records :: bool
  rc_notifies :: bool
  rc_notes_failures :: bool
  rc_registers :: bool
  rc_observes :: bool

definition recorded :: "restart_config \<Rightarrow> restart_effect list \<Rightarrow> restart_effect list" where
  "recorded cfg es = (if rc_records cfg then es else [])"

definition notified :: "restart_config \<Rightarrow> string \<Rightarrow> restart_effect list" where
  "notified cfg kind = (if rc_notifies cfg then [Notified kind] else [])"

definition stop_context :: "stop_reason \<Rightarrow> transition_context" where
  "stop_context reason = default_context\<lparr>tc_StopReason := reason\<rparr>"

abbreviation no_state :: session_state where
  "no_state \<equiv> SessionOther ''''"

section \<open>Before a launch\<close>

text \<open>
  What the checks read: which directories exist and belong to the user, which files can be executed, the answer of the billing guard
  (\<open>Some\<close> a reason, which may be missing), the settings file, the starter of processes, whether a closed terminal ends within the grace
  period, the lock, and the context.
\<close>

datatype settings_answer = SettingsWritten | SettingsFailedQuietly | SettingsFailedReported

record launch_answers =
  la_lock_fails :: bool
  la_ctx_done :: bool
  la_dir :: "string \<Rightarrow> bool"
  la_own_dir :: "string \<Rightarrow> bool"
  la_executable :: "string \<Rightarrow> bool"
  la_billing :: "string option option"
  la_settings :: settings_answer
  la_start :: "string list \<Rightarrow> restart_error + int"
  la_ends_in_grace :: bool

text \<open>\<open>check\<close>: \<open>None\<close> when the launch may go on, otherwise the reported reason, if any, and the error.\<close>

definition preflight_check :: "restart_config \<Rightarrow> launch_answers \<Rightarrow> string \<Rightarrow> string \<Rightarrow> (string option \<times> restart_error) option" where
  "preflight_check cfg A cwd binary =
     (if \<not> is_abs cwd \<or> \<not> la_dir A cwd then Some (Some ''project_cwd_unavailable'', ProjectCWDUnavailable)
      else if \<not> la_own_dir A cwd then Some (Some ''project_cwd_unavailable'', ProjectCWDUnavailable)
      else if \<not> is_abs binary \<or> \<not> la_executable A binary then Some (Some ''spawn_failed'', SpawnUnavailable)
      else case la_billing A of
        Some reason \<Rightarrow> Some (reason, BillingGuardFailed)
      | None \<Rightarrow>
          if rc_StateDir cfg = '''' \<or> \<not> is_abs (rc_StateDir cfg) then Some (Some ''settings_generation_failed'', StateDirNotAbsolute)
          else if rc_Columns cfg = 0 \<or> rc_Rows cfg = 0 then Some (Some ''spawn_failed'', PTYSizeInvalid)
          else None)"

definition settings_path :: "restart_config \<Rightarrow> session_id \<Rightarrow> string" where
  "settings_path cfg sid = filepath_join (filepath_join (rc_StateDir cfg) ''statusline'') (sid_string sid @ ''.settings.json'')"

definition preflight_settings :: "launch_answers \<Rightarrow> (string option \<times> restart_error) option" where
  "preflight_settings A =
     (case la_settings A of
        SettingsWritten \<Rightarrow> None
      | SettingsFailedQuietly \<Rightarrow> Some (None, SettingsFailed)
      | SettingsFailedReported \<Rightarrow> Some (Some ''settings_generation_failed'', SettingsFailed))"

section \<open>Stopping instead of starting\<close>

definition stopped_events :: "restart_config \<Rightarrow> session_state \<Rightarrow> stop_reason \<Rightarrow> restart_effect list" where
  "stopped_events cfg previous reason =
     recorded cfg [EventRecorded ''state_changed'' previous SessionStopped no_stop '''',
                   EventRecorded ''session_stopped'' no_state SessionStopped reason ''''] @ notified cfg ''session_stopped''"

text \<open>The update of both functions below: a session in one of the states \<open>skip\<close> is left as it is.\<close>

definition stop_update :: "session_state list \<Rightarrow> stop_reason \<Rightarrow> stop_scope option \<Rightarrow> go_time \<Rightarrow> managed_session
    \<Rightarrow> managed_session \<times> session_state option \<times> restart_error option" where
  "stop_update skip reason scope now s =
     (if ms_State s \<in> set skip then (s, None, None)
      else (case Apply EventStop (stop_context reason) now s of
          (s', Some e) \<Rightarrow> (s', Some (ms_State s), Some (RestartIllegal e))
        | (s', None) \<Rightarrow> ((case scope of None \<Rightarrow> s' | Some sc \<Rightarrow> s'\<lparr>ms_StopScope := sc\<rparr>), Some (ms_State s), None)))"

definition tell_stopped :: "restart_config \<Rightarrow> stop_reason \<Rightarrow> managed_session \<times> session_state option \<times> restart_effect list \<times> restart_error option
    \<Rightarrow> restart_outcome" where
  "tell_stopped cfg reason u =
     (case u of
        (s, Some previous, effs, None) \<Rightarrow> (s, effs @ stopped_events cfg previous reason, None)
      | (s, _, effs, err) \<Rightarrow> (s, effs, err))"

definition stopForStop :: "restart_config \<Rightarrow> sup_env \<Rightarrow> nat \<Rightarrow> managed_session \<Rightarrow> restart_outcome" where
  "stopForStop cfg E k s =
     (let (reason, scope) = (if look_global (su_stop E k) then (StopGlobal, StopScopeGlobal) else (StopSession, StopScopeSession))
      in tell_stopped cfg reason
           (sup_update E k (stop_update [SessionStopped, SessionExited, SessionFailed] reason (Some scope) (su_now E k)) None s))"

definition stopWithReason :: "restart_config \<Rightarrow> sup_env \<Rightarrow> nat \<Rightarrow> stop_reason \<Rightarrow> managed_session \<Rightarrow> restart_outcome" where
  "stopWithReason cfg E k reason s =
     tell_stopped cfg reason (sup_update E k (stop_update [SessionStopped] reason None (su_now E k)) None s)"

definition start_failure :: "restart_config \<Rightarrow> string \<Rightarrow> string option \<Rightarrow> restart_effect list" where
  "start_failure cfg project reason =
     (case reason of
        None \<Rightarrow> []
      | Some r \<Rightarrow>
          (if rc_notes_failures cfg then [StartFailureNoted project r] else recorded cfg [StartFailureNoted project r])
          @ notified cfg ''session_start_failed'')"

text \<open>The closures \<open>fail\<close> and \<open>failed\<close> of \<open>executeLocked\<close>: a handoff gets its error back, any other session is stopped.\<close>

definition launch_failed :: "restart_config \<Rightarrow> sup_env \<Rightarrow> nat \<Rightarrow> managed_session \<Rightarrow> string option \<Rightarrow> restart_error \<Rightarrow> managed_session
    \<Rightarrow> restart_outcome" where
  "launch_failed cfg E k session reason cause s =
     (if ms_State session = SessionRotating then (s, [], Some cause)
      else apsnd (apfst ((@) (start_failure cfg (ms_ProjectID session) reason))) (stopWithReason cfg E k StopRespawnFailed s))"

section \<open>Respawn\<close>

datatype respawn_kind = RespawnRecovery | RespawnResumeRecovery | RespawnHandoffStage5 | RespawnHandoffResume | RespawnOther string

definition handoff_kind :: "respawn_kind \<Rightarrow> bool" where
  "handoff_kind kind \<longleftrightarrow> kind = RespawnHandoffStage5 \<or> kind = RespawnHandoffResume"

definition respawn_state :: "respawn_kind \<Rightarrow> session_state" where
  "respawn_state kind = (if handoff_kind kind then SessionRotating else SessionStarting)"

text \<open>What an attempt changes in the session before the process is started.\<close>

definition count_restart :: "go_time \<Rightarrow> go_time \<Rightarrow> managed_session \<Rightarrow> managed_session" where
  "count_restart cut_at at s =
     s\<lparr>ms_RestartCount := ms_RestartCount s + 1,
       ms_RestartTimes := filter (\<lambda>t. \<not> t < cut_at - RestartWindow) (ms_RestartTimes s) @ [at]\<rparr>"

definition attempt :: "respawn_kind \<Rightarrow> go_time \<Rightarrow> go_time \<Rightarrow> managed_session \<Rightarrow> managed_session" where
  "attempt kind cut_at at s0 =
     (let s = s0\<lparr>ms_Generation := ms_Generation s0 + 1\<rparr>;
          s = (if kind = RespawnHandoffStage5 then s\<lparr>ms_RemoteControlConfirmed := False\<rparr> else s);
          s = (if kind \<noteq> RespawnResumeRecovery \<and> kind \<noteq> RespawnHandoffResume then count_restart cut_at at s else s);
          s = (if ms_ClaudeSessionID s \<noteq> '''' then s\<lparr>ms_PreviousClaudeSessionID := ms_ClaudeSessionID s\<rparr> else s)
      in s\<lparr>ms_ClaudeSessionID := '''', ms_ChildPID := 0, ms_ChildStartedAt := None\<rparr>)"

text \<open>After the process runs: it is recorded in the session, or ended again when that fails.\<close>

definition watch_child :: "restart_config \<Rightarrow> sup_env \<Rightarrow> respawn_kind \<Rightarrow> managed_session \<Rightarrow> int \<Rightarrow> managed_session \<Rightarrow> restart_outcome" where
  "watch_child cfg E kind attempted pid s0 =
     (let s = (if rc_observes cfg then su_others E 20 s0 else s0);
          observed = (if su_load_fails E 20 then attempted\<lparr>ms_ChildPID := pid, ms_ChildStartedAt := Some (su_now E 17)\<rparr> else s)
      in (s, (if rc_registers cfg then [WriterRegistered] else [])
             @ (if rc_observes cfg then [ObserverStarted observed] else [ReaperStarted])
             @ (if kind = RespawnRecovery
                then recorded cfg [EventRecorded ''session_restarted'' no_state no_state no_stop ''''] @ notified cfg ''session_restarted''
                else []),
          None))"

definition record_child :: "restart_config \<Rightarrow> sup_env \<Rightarrow> launch_answers \<Rightarrow> respawn_kind \<Rightarrow> managed_session \<Rightarrow> managed_session \<Rightarrow> int
    \<Rightarrow> managed_session \<Rightarrow> restart_outcome" where
  "record_child cfg E A kind session attempted pid s0 =
     (case sup_update E 18 (\<lambda>s. (s\<lparr>ms_ChildPID := pid, ms_ChildStartedAt := Some (su_now E 17)\<rparr>, (), None)) () s0 of
        (s, _, effs, None) \<Rightarrow> apsnd (apfst ((@) effs)) (watch_child cfg E kind attempted pid s)
      | (s, _, effs, Some e) \<Rightarrow>
          apsnd (apfst ((@) (effs @ [OwnedRemove pid, ClosedPTY] @ (if la_ends_in_grace A then [] else [KilledPTY]) @ [ReapedPTY])))
            (launch_failed cfg E 19 session (Some ''spawn_failed'') e s))"

definition start_child :: "restart_config \<Rightarrow> sup_env \<Rightarrow> launch_answers \<Rightarrow> respawn_kind \<Rightarrow> managed_session \<Rightarrow> managed_session \<Rightarrow> string list
    \<Rightarrow> managed_session \<Rightarrow> restart_outcome" where
  "start_child cfg E A kind session attempted argv s =
     (case la_start A argv of
        Inl e \<Rightarrow> launch_failed cfg E 17 session (Some ''spawn_failed'') e s
      | Inr pid \<Rightarrow> apsnd (apfst ((@) [Spawned argv pid, OwnedAdd pid])) (record_child cfg E A kind session attempted pid s))"

definition attempt_update :: "sup_env \<Rightarrow> session_id \<Rightarrow> respawn_kind \<Rightarrow> managed_session \<Rightarrow> managed_session \<times> managed_session \<times> restart_error option" where
  "attempt_update E sid kind s =
     (if ms_State s \<noteq> respawn_state kind \<or> look_stopped (su_stop E 14) sid then (s, s, Some RestartStopActive)
      else let t = attempt kind (su_now E 14) (su_now E 15) s in (t, t, None))"

definition attempt_launch :: "restart_config \<Rightarrow> sup_env \<Rightarrow> launch_answers \<Rightarrow> session_id \<Rightarrow> respawn_kind \<Rightarrow> managed_session \<Rightarrow> string list
    \<Rightarrow> managed_session \<Rightarrow> restart_outcome" where
  "attempt_launch cfg E A sid kind session argv s0 =
     (case sup_update E 14 (attempt_update E sid kind) session s0 of
        (s, attempted, effs, None) \<Rightarrow> apsnd (apfst ((@) effs)) (start_child cfg E A kind session attempted argv s)
      | (s, _, _, Some e) \<Rightarrow>
          if e \<noteq> RestartStopActive then (s, [], Some e)
          else if look_stopped (su_stop E 15) sid then stopForStop cfg E 16 s
          else (s, [], None))"

text \<open>A project that is no longer configured has no command line: its CLI and its paths are empty.\<close>

definition project_of :: "restart_config \<Rightarrow> managed_session \<Rightarrow> supervisor_cli \<times> string \<times> string" where
  "project_of cfg s = (case rc_Projects cfg (ms_ProjectID s) of None \<Rightarrow> (CLIOther '''', '''', '''') | Some p \<Rightarrow> p)"

definition resume_id :: "managed_session \<Rightarrow> string" where
  "resume_id s = (if ms_ClaudeSessionID s = '''' then ms_PreviousClaudeSessionID s else ms_ClaudeSessionID s)"

definition prepare_launch :: "restart_config \<Rightarrow> sup_env \<Rightarrow> launch_answers \<Rightarrow> session_id \<Rightarrow> respawn_kind \<Rightarrow> managed_session \<Rightarrow> restart_outcome" where
  "prepare_launch cfg E A sid kind s =
     (case project_of cfg s of (cli, binary, cwd) \<Rightarrow>
        case preflight_check cfg A cwd binary of
          Some (reason, e) \<Rightarrow> launch_failed cfg E 13 s reason e s
        | None \<Rightarrow>
       (case preflight_settings A of
          Some (reason, e) \<Rightarrow> launch_failed cfg E 13 s reason e s
        | None \<Rightarrow>
            if kind \<noteq> RespawnHandoffStage5 \<and> resume_id s = '''' then stopWithReason cfg E 13 StopClaudeSessionIDMissing s
            else
       (case BuildLaunchArgv cli binary (settings_path cfg sid) (if kind = RespawnHandoffStage5 then '''' else resume_id s) of
          Inl e \<Rightarrow> launch_failed cfg E 13 s (Some ''launch_argv_invalid'') e s
        | Inr argv \<Rightarrow> attempt_launch cfg E A sid kind s argv s)))"

definition executeLocked :: "restart_config \<Rightarrow> sup_env \<Rightarrow> launch_answers \<Rightarrow> session_id \<Rightarrow> respawn_kind \<Rightarrow> managed_session \<Rightarrow> restart_outcome" where
  "executeLocked cfg E A sid kind s0 =
     (if la_ctx_done A then (s0, [], Some RestartContextDone)
      else if look_stopped (su_stop E 11) sid then stopForStop cfg E 11 s0
      else
        let s = su_others E 12 s0
        in if su_load_fails E 12 then (s, [], Some RestartLoadFailed)
           else if ms_State s \<noteq> respawn_state kind then (s, [], None)
           else prepare_launch cfg E A sid kind s)"

definition Respawn_Execute :: "restart_config \<Rightarrow> sup_env \<Rightarrow> launch_answers \<Rightarrow> session_id \<Rightarrow> respawn_kind \<Rightarrow> managed_session \<Rightarrow> restart_outcome" where
  "Respawn_Execute cfg E A sid kind s =
     (if (case kind of RespawnOther v \<Rightarrow> True | _ \<Rightarrow> False) then (s, [], Some RestartInvalidKind)
      else if la_lock_fails A then (s, [], Some RestartLockFailed)
      else case su_stop E 10 of
        None \<Rightarrow> executeLocked cfg E A sid kind s
      | Some (io, st) \<Rightarrow>
          if \<not> fst (GuardStart io None st) then stopForStop cfg E 10 s
          else (case executeLocked cfg E A sid kind s of
              (s, effs, err) \<Rightarrow>
                if err = Some RestartStopActive then apsnd (apfst ((@) effs)) (stopForStop cfg E 21 s)
                else (s, effs, err)))"

section \<open>Recovery\<close>

datatype wait_end = DelayPassed | WaitCancelled

text \<open>The loop of \<open>waitRecoveryDelay\<close>: what the stop state answers before each tick and before the end of the wait.\<close>

fun waitRecoveryDelay :: "session_id \<Rightarrow> stop_look list \<Rightarrow> stop_look \<Rightarrow> wait_end \<Rightarrow> restart_error option" where
  "waitRecoveryDelay sid [] look fin =
     (if look_stopped look sid then Some RestartStopActive
      else if fin = WaitCancelled then Some RestartContextDone else None)"
| "waitRecoveryDelay sid (l # ls) look fin =
     (if look_stopped l sid then Some RestartStopActive else waitRecoveryDelay sid ls look fin)"

definition restart_limit :: "stop_reason \<Rightarrow> bool" where
  "restart_limit reason \<longleftrightarrow> reason = StopRestartLimitConsecutive \<or> reason = StopRestartLimitDaily"

definition stoppedEvent :: "restart_config \<Rightarrow> stop_reason \<Rightarrow> restart_effect list" where
  "stoppedEvent cfg reason =
     (let kind = (if restart_limit reason then ''restart_limit_exceeded'' else ''session_stopped'')
      in recorded cfg [EventRecorded ''state_changed'' SessionRecovering SessionStopped no_stop '''',
                       EventRecorded kind no_state no_state reason (if restart_limit reason then ''SUP_RESTART_LIMIT_EXCEEDED'' else '''')]
         @ notified cfg kind)"

definition recover_stop_update :: "stop_reason \<Rightarrow> go_time \<Rightarrow> managed_session \<Rightarrow> managed_session \<times> bool \<times> restart_error option" where
  "recover_stop_update reason now s =
     (if ms_State s \<noteq> SessionRecovering then (s, False, None)
      else (case Apply EventStop (stop_context reason) now s of
          (s', Some e) \<Rightarrow> (s', False, Some (RestartIllegal e))
        | (s', None) \<Rightarrow> (s', True, None)))"

definition recover_stop :: "restart_config \<Rightarrow> sup_env \<Rightarrow> nat \<Rightarrow> stop_reason \<Rightarrow> managed_session \<Rightarrow> restart_outcome" where
  "recover_stop cfg E k reason s0 =
     (case sup_update E k (recover_stop_update reason (su_now E k)) False s0 of
        (s, changed, effs, err) \<Rightarrow> (s, effs @ (if err = None \<and> changed then stoppedEvent cfg reason else []), err))"

datatype recover_verdict = NotRecovering | StopNow stop_reason | Ready

definition active_stop :: "stop_look \<Rightarrow> stop_reason" where
  "active_stop look = (if look_global look then StopGlobal else StopSession)"

text \<open>The update after the wait: it looks at everything again, and only then leaves the state \<open>recovering\<close>.\<close>

definition recover_update :: "sup_env \<Rightarrow> session_id \<Rightarrow> managed_session \<Rightarrow> managed_session \<times> recover_verdict \<times> restart_error option" where
  "recover_update E sid s =
     (let stop = (\<lambda>reason. case Apply EventStop (stop_context reason) (su_now E 4) s of
                    (s', e) \<Rightarrow> (s', StopNow reason, map_option RestartIllegal e));
          limit = RestartLimitReason (ms_RestartCount s) (ms_RestartTimes s) (su_now E 5)
      in if ms_State s \<noteq> SessionRecovering then (s, NotRecovering, None)
         else if look_stopped (su_stop E 4) sid then stop (active_stop (su_stop E 5))
         else if ms_ClaudeSessionID s = '''' then stop StopClaudeSessionIDMissing
         else if limit \<noteq> no_stop then stop limit
         else (case Apply EventRecoveryWaitDone default_context (su_now E 4) s of
             (s', Some e) \<Rightarrow> (s', NotRecovering, Some (RestartIllegal e))
           | (s', None) \<Rightarrow> (s', Ready, None)))"

definition recover_ready :: "restart_config \<Rightarrow> sup_env \<Rightarrow> launch_answers \<Rightarrow> session_id \<Rightarrow> managed_session \<Rightarrow> restart_outcome" where
  "recover_ready cfg E A sid s0 =
     (case sup_update E 4 (recover_update E sid) NotRecovering s0 of
        (s, verdict, effs, Some e) \<Rightarrow> (s, effs, Some e)
      | (s, StopNow reason, effs, None) \<Rightarrow> (s, effs @ stoppedEvent cfg reason, None)
      | (s, NotRecovering, effs, None) \<Rightarrow> (s, effs, None)
      | (s, Ready, effs, None) \<Rightarrow>
          apsnd (apfst ((@) (effs @ recorded cfg [EventRecorded ''state_changed'' SessionRecovering SessionStarting no_stop ''''])))
            (Respawn_Execute cfg E A sid RespawnRecovery s))"

record recover_wait =
  rw_ticks :: "stop_look list"
  rw_last :: stop_look
  rw_end :: wait_end
  rw_ctx_done :: bool

definition recover_delayed :: "restart_config \<Rightarrow> sup_env \<Rightarrow> launch_answers \<Rightarrow> recover_wait \<Rightarrow> session_id \<Rightarrow> managed_session \<Rightarrow> restart_outcome" where
  "recover_delayed cfg E A W sid s =
     (case waitRecoveryDelay sid (rw_ticks W) (rw_last W) (rw_end W) of
        Some e \<Rightarrow>
          if e = RestartStopActive then recover_stop cfg E 3 (active_stop (su_stop E 3)) s
          else (case recover_stop cfg E 3 StopSupervisorRestarted s of (s, effs, _) \<Rightarrow> (s, effs, Some e))
      | None \<Rightarrow>
          if rw_ctx_done W then (case recover_stop cfg E 3 StopSupervisorRestarted s of (s, effs, _) \<Rightarrow> (s, effs, Some RestartContextDone))
          else recover_ready cfg E A sid s)"

definition Recover_Execute :: "restart_config \<Rightarrow> sup_env \<Rightarrow> launch_answers \<Rightarrow> recover_wait \<Rightarrow> session_id \<Rightarrow> managed_session \<Rightarrow> restart_outcome" where
  "Recover_Execute cfg E A W sid s0 =
     (let s = su_others E 1 s0; limit = RestartLimitReason (ms_RestartCount s) (ms_RestartTimes s) (su_now E 1)
      in if su_load_fails E 1 then (s, [], Some RestartLoadFailed)
         else if ms_State s \<noteq> SessionRecovering then (s, [], None)
         else if ms_CLI s \<noteq> CLIClaude then (s, [], None)
         else if ms_ClaudeSessionID s = '''' then recover_stop cfg E 2 StopClaudeSessionIDMissing s
         else if limit \<noteq> no_stop then recover_stop cfg E 2 limit s
         else apsnd (apfst ((@) [Waited (RestartBackoff (ms_RestartCount s))])) (recover_delayed cfg E A W sid s))"

section \<open>Which runs start a process\<close>

fun is_spawn :: "restart_effect \<Rightarrow> bool" where
  "is_spawn (Spawned argv pid) = True"
| "is_spawn _ = False"

definition spawns :: "restart_effect list \<Rightarrow> nat" where
  "spawns effs = length (filter is_spawn effs)"

lemma spawns_simps [simp]:
  "spawns [] = 0" "spawns (e # es) = (if is_spawn e then 1 else 0) + spawns es" "spawns (es @ fs) = spawns es + spawns fs"
  "spawns (recorded cfg es) = (if rc_records cfg then spawns es else 0)" "spawns (notified cfg kind) = 0"
  by (simp_all add: spawns_def recorded_def notified_def)

lemma stopped_events_spawns [simp]: "spawns (stopped_events cfg previous reason) = 0" "spawns (stoppedEvent cfg reason) = 0"
    "spawns (start_failure cfg project r) = 0"
  by (simp_all add: stopped_events_def stoppedEvent_def start_failure_def Let_def split: option.splits)

lemma enter_state_RestartCount [simp]: "ms_RestartCount (enter_state to now s) = ms_RestartCount s"
  by (simp add: enter_state_def reach_stopped_def reach_exited_def leave_stopped_def change_state_def Let_def)

lemma record_event_effect_RestartCount [simp]: "ms_RestartCount (record_event_effect previous event c to s) = ms_RestartCount s"
  by (cases event) (simp_all add: record_event_effect_def record_stop_def record_stop_scope_def)

lemma Apply_RestartCount:
  assumes "Apply event c now s = (s', r)"
  shows "ms_RestartCount s' = ms_RestartCount s"
  using assms by (cases rule: Apply_cases) simp_all

text \<open>
  No thread lowers the number of restarts. The program lowers it in two places, which this excludes: the observer
  resets the counter after a stable run, and an operator's resume resets it (\<^verbatim>\<open>stop_control.go\<close>).
\<close>

definition keeps_count :: "sup_env \<Rightarrow> bool" where
  "keeps_count E \<longleftrightarrow> (\<forall>k s. ms_RestartCount s \<le> ms_RestartCount (su_others E k s))"

lemma sup_update_cases:
  assumes "sup_update E k f a0 s0 = (s, a, effs, err)"
  obtains (kept) "s = su_others E k s0" "effs = []" "\<And>s' a'. f (su_others E k s0) = (s', a', None) \<Longrightarrow> err = None \<Longrightarrow> a = a' \<and> s' = s"
      "err = None \<Longrightarrow> \<exists>s'. f (su_others E k s0) = (s', a, None)"
  | (saved) "f (su_others E k s0) = (s, a, None)" "effs = [Stored s]" "err = None"
  using assms by (auto simp: sup_update_def Let_def split: prod.splits option.splits if_splits)

lemma sup_update_spawns: "sup_update E k f a0 s0 = (s, a, effs, err) \<Longrightarrow> spawns effs = 0"
  by (erule sup_update_cases) auto

lemma sup_update_count:
  assumes "sup_update E k f a0 s0 = (s, a, effs, err)" and "keeps_count E"
    and "\<And>s' a'. f (su_others E k s0) = (s', a', None) \<Longrightarrow> ms_RestartCount (su_others E k s0) \<le> ms_RestartCount s'"
  shows "ms_RestartCount s0 \<le> ms_RestartCount s"
  using assms(1)
proof (cases rule: sup_update_cases)
  case kept
  with assms(2) show ?thesis by (simp add: keeps_count_def)
next
  case saved
  from assms(3) [OF saved(1)] have "ms_RestartCount (su_others E k s0) \<le> ms_RestartCount s" .
  with assms(2) show ?thesis unfolding keeps_count_def by (meson order_trans)
qed

text \<open>An outcome that starts nothing and keeps the number of restarts.\<close>

definition calm :: "sup_env \<Rightarrow> managed_session \<Rightarrow> restart_outcome \<Rightarrow> bool" where
  "calm E s0 r \<longleftrightarrow> spawns (fst (snd r)) = 0 \<and> (keeps_count E \<longrightarrow> ms_RestartCount s0 \<le> ms_RestartCount (fst r))"

lemma calm_I: "spawns effs = 0 \<Longrightarrow> (keeps_count E \<Longrightarrow> ms_RestartCount s0 \<le> ms_RestartCount s) \<Longrightarrow> calm E s0 (s, effs, err)"
  by (simp add: calm_def)

lemma calm_same [simp]: "calm E s (s, [], err)"
  by (simp add: calm_def)

lemma calm_others [simp]: "calm E s (su_others E k s, [], err)"
  by (simp add: calm_def keeps_count_def)

lemma sup_update_calm:
  assumes "sup_update E k f a0 s0 = (s, a, effs, err)" and "\<And>v s' a'. f v = (s', a', None) \<Longrightarrow> ms_RestartCount v \<le> ms_RestartCount s'"
    and "spawns es = 0"
  shows "calm E s0 (s, effs @ es, e)"
  using assms(3) sup_update_spawns [OF assms(1)] sup_update_count [OF assms(1) _ assms(2)] by (simp add: calm_def)

lemma stop_update_count: "stop_update skip reason scope now s = (s', a, None) \<Longrightarrow> ms_RestartCount s \<le> ms_RestartCount s'"
  by (auto simp: stop_update_def dest: Apply_RestartCount split: if_splits prod.splits option.splits)

lemma recover_stop_update_count: "recover_stop_update reason now s = (s', a, None) \<Longrightarrow> ms_RestartCount s \<le> ms_RestartCount s'"
  by (auto simp: recover_stop_update_def dest: Apply_RestartCount split: if_splits prod.splits option.splits)

lemma tell_stopped_calm: "calm E s0 (tell_stopped cfg reason (sup_update E k (stop_update skip r scope now) None s0))"
proof -
  obtain s a effs err where u: "sup_update E k (stop_update skip r scope now) None s0 = (s, a, effs, err)" by (metis prod.exhaust)
  have c: "calm E s0 (s, effs @ es, e)" if "spawns es = 0" for es and e :: "restart_error option"
    by (rule sup_update_calm [OF u _ that]) (rule stop_update_count)
  have "calm E s0 (s, effs, e)" for e using c [of "[]"] by simp
  with c [OF stopped_events_spawns(1)] show ?thesis unfolding u tell_stopped_def by (simp split: option.splits)
qed

lemma stopForStop_calm [simp]: "calm E s (stopForStop cfg E k s)"
  by (simp add: stopForStop_def tell_stopped_calm)

lemma stopWithReason_calm [simp]: "calm E s (stopWithReason cfg E k reason s)"
  by (simp add: stopWithReason_def tell_stopped_calm)

lemma launch_failed_calm [simp]: "calm E s (launch_failed cfg E k session reason cause s)"
  using stopWithReason_calm [of E s cfg k StopRespawnFailed] by (simp add: launch_failed_def calm_def)

lemma recover_stop_calm [simp]: "calm E s0 (recover_stop cfg E k reason s0)"
proof -
  obtain s a effs err where u: "sup_update E k (recover_stop_update reason (su_now E k)) False s0 = (s, a, effs, err)" by (metis prod.exhaust)
  have sp: "spawns (if err = None \<and> a then stoppedEvent cfg reason else []) = 0" by simp
  have "calm E s0 (s, effs @ (if err = None \<and> a then stoppedEvent cfg reason else []), err)"
    by (rule sup_update_calm [OF u _ sp]) (rule recover_stop_update_count)
  then show ?thesis by (simp add: recover_stop_def u)
qed

lemma watch_child_calm [simp]: "calm E s (watch_child cfg E kind attempted pid s)"
  by (simp add: watch_child_def calm_def keeps_count_def Let_def)

lemma calm_trans: "calm E s0 (s, effs, e) \<Longrightarrow> calm E s r \<Longrightarrow> calm E s0 (apsnd (apfst ((@) effs)) r)"
  by (cases r) (auto simp: calm_def)

lemma record_child_calm [simp]: "calm E s0 (record_child cfg E A kind session attempted pid s0)"
proof -
  let ?f = "\<lambda>s. (s\<lparr>ms_ChildPID := pid, ms_ChildStartedAt := Some (su_now E 17)\<rparr>, (), None)"
  obtain s a effs err where u: "sup_update E 18 ?f () s0 = (s, a, effs, err)" by (metis prod.exhaust)
  have c: "calm E s0 (s, effs @ es, e)" if "spawns es = 0" for es and e :: "restart_error option"
    by (rule sup_update_calm [OF u _ that]) auto
  show ?thesis
  proof (cases err)
    case None
    have "calm E s0 (s, effs, None)" using c [of "[]"] by simp
    from calm_trans [OF this watch_child_calm] None show ?thesis unfolding record_child_def u by simp
  next
    case (Some e)
    let ?es = "[OwnedRemove pid, ClosedPTY] @ (if la_ends_in_grace A then [] else [KilledPTY]) @ [ReapedPTY]"
    have "spawns ?es = 0" by simp
    from calm_trans [OF c [OF this] launch_failed_calm] Some show ?thesis unfolding record_child_def u by simp
  qed
qed

text \<open>
  An outcome that starts one process: the attempt was saved immediately before, for a session in the state that the kind of
  respawn expects and with no stop at the last look.
\<close>

definition built :: "respawn_kind \<Rightarrow> string list \<Rightarrow> bool" where
  "built kind argv \<longleftrightarrow>
     (\<exists>cli binary path resume. BuildLaunchArgv cli binary path resume = Inr argv \<and> (resume = '''' \<longleftrightarrow> kind = RespawnHandoffStage5))"

definition launched :: "sup_env \<Rightarrow> session_id \<Rightarrow> respawn_kind \<Rightarrow> managed_session \<Rightarrow> restart_outcome \<Rightarrow> bool" where
  "launched E sid kind s0 r \<longleftrightarrow>
     (\<exists>v argv pid pre post. fst (snd r) = pre @ [Stored (attempt kind (su_now E 14) (su_now E 15) v), Spawned argv pid] @ post
        \<and> spawns pre = 0 \<and> spawns post = 0 \<and> ms_State v = respawn_state kind \<and> \<not> look_stopped (su_stop E 14) sid \<and> built kind argv
        \<and> (keeps_count E \<longrightarrow> ms_RestartCount s0 \<le> ms_RestartCount v
              \<and> ms_RestartCount (attempt kind (su_now E 14) (su_now E 15) v) \<le> ms_RestartCount (fst r)))"

lemma launchedI:
  assumes "fst (snd r) = pre @ [Stored (attempt kind (su_now E 14) (su_now E 15) v), Spawned argv pid] @ post"
    and "spawns pre = 0" and "spawns post = 0" and "ms_State v = respawn_state kind" and "\<not> look_stopped (su_stop E 14) sid" and "built kind argv"
    and "keeps_count E \<Longrightarrow> ms_RestartCount s0 \<le> ms_RestartCount v"
    and "keeps_count E \<Longrightarrow> ms_RestartCount (attempt kind (su_now E 14) (su_now E 15) v) \<le> ms_RestartCount (fst r)"
  shows "launched E sid kind s0 r"
  unfolding launched_def using assms by blast

lemma launchedE:
  assumes "launched E sid kind s0 r"
  obtains v argv pid pre post where "fst (snd r) = pre @ [Stored (attempt kind (su_now E 14) (su_now E 15) v), Spawned argv pid] @ post"
    "spawns pre = 0" "spawns post = 0" "ms_State v = respawn_state kind" "\<not> look_stopped (su_stop E 14) sid" "built kind argv"
    "keeps_count E \<Longrightarrow> ms_RestartCount s0 \<le> ms_RestartCount v"
    "keeps_count E \<Longrightarrow> ms_RestartCount (attempt kind (su_now E 14) (su_now E 15) v) \<le> ms_RestartCount (fst r)"
  using assms unfolding launched_def by blast

lemma outcome_before [simp]: "fst (apsnd (apfst ((@) effs)) r) = fst r" "fst (snd (apsnd (apfst ((@) effs)) r)) = effs @ fst (snd r)"
  by (cases r; simp)+

lemma launched_before:
  assumes "calm E s0 (s, effs, e)" and "launched E sid kind s r"
  shows "launched E sid kind s0 (apsnd (apfst ((@) effs)) r)"
  using assms(2)
proof (cases rule: launchedE)
  case (1 v argv pid pre post)
  have c: "spawns effs = 0" "keeps_count E \<Longrightarrow> ms_RestartCount s0 \<le> ms_RestartCount s" using assms(1) by (simp_all add: calm_def)
  show ?thesis
  proof (rule launchedI)
    show "fst (snd (apsnd (apfst ((@) effs)) r)) = (effs @ pre) @ [Stored (attempt kind (su_now E 14) (su_now E 15) v), Spawned argv pid] @ post"
      using 1(1) by simp
    show "keeps_count E \<Longrightarrow> ms_RestartCount s0 \<le> ms_RestartCount v" using 1(7) c(2) by fastforce
  qed (use 1 c in auto)
qed

lemma launched_after:
  assumes "launched E sid kind s0 (s, effs, e)" and "calm E s r"
  shows "launched E sid kind s0 (apsnd (apfst ((@) effs)) r)"
  using assms(1)
proof (cases rule: launchedE)
  case (1 v argv pid pre post)
  have c: "spawns (fst (snd r)) = 0" "keeps_count E \<Longrightarrow> ms_RestartCount s \<le> ms_RestartCount (fst r)" using assms(2) by (simp_all add: calm_def)
  show ?thesis
  proof (rule launchedI)
    show "fst (snd (apsnd (apfst ((@) effs)) r)) = pre @ [Stored (attempt kind (su_now E 14) (su_now E 15) v), Spawned argv pid] @ (post @ fst (snd r))"
      using 1(1) by simp
    show "keeps_count E \<Longrightarrow> ms_RestartCount (attempt kind (su_now E 14) (su_now E 15) v) \<le> ms_RestartCount (fst (apsnd (apfst ((@) effs)) r))"
      using 1(8) c(2) by fastforce
  qed (use 1 c in auto)
qed

lemma attempt_changed [simp]: "attempt kind c at s \<noteq> s"
proof -
  have "ms_Generation (attempt kind c at s) = ms_Generation s + 1" by (simp add: attempt_def count_restart_def Let_def)
  then show ?thesis by force
qed

lemma attempt_RestartCount: "ms_RestartCount (attempt RespawnRecovery c at s) = ms_RestartCount s + 1"
  "ms_RestartCount s \<le> ms_RestartCount (attempt kind c at s)"
  by (simp_all add: attempt_def count_restart_def Let_def)

lemma start_child_launched:
  assumes "built kind argv" and "ms_State v = respawn_state kind" and "\<not> look_stopped (su_stop E 14) sid"
    and "keeps_count E \<Longrightarrow> ms_RestartCount s0 \<le> ms_RestartCount v"
    and "s = attempt kind (su_now E 14) (su_now E 15) v" and "r = apsnd (apfst ((@) [Stored s])) (start_child cfg E A kind session attempted argv s)"
  shows "calm E s0 r \<or> launched E sid kind s0 r"
proof (cases "la_start A argv")
  case (Inl e)
  have "calm E s0 (s, [Stored s], None)"
    using assms(4,5) attempt_RestartCount(2) [of v kind "su_now E 14" "su_now E 15"] by (auto simp: calm_def)
  from calm_trans [OF this launch_failed_calm] show ?thesis using assms(6) Inl by (simp add: start_child_def)
next
  case (Inr pid)
  let ?rest = "record_child cfg E A kind session attempted pid s"
  have c: "spawns (fst (snd ?rest)) = 0" "keeps_count E \<Longrightarrow> ms_RestartCount s \<le> ms_RestartCount (fst ?rest)"
    using record_child_calm [of E s cfg A kind session attempted pid] by (simp_all add: calm_def)
  have "launched E sid kind s0 r"
  proof (rule launchedI)
    show "fst (snd r) = [] @ [Stored (attempt kind (su_now E 14) (su_now E 15) v), Spawned argv pid] @ (OwnedAdd pid # fst (snd ?rest))"
      using assms(5,6) Inr by (simp add: start_child_def)
    show "keeps_count E \<Longrightarrow> ms_RestartCount (attempt kind (su_now E 14) (su_now E 15) v) \<le> ms_RestartCount (fst r)"
      using assms(5,6) Inr c(2) by (simp add: start_child_def)
  qed (use assms(1-4) c in auto)
  then show ?thesis ..
qed

lemma calm_after_others: "calm E (su_others E k s) r \<Longrightarrow> calm E s r"
  using calm_trans [OF calm_others] by (cases r) auto

lemma launched_after_others: "launched E sid kind (su_others E k s) r \<Longrightarrow> launched E sid kind s r"
  using launched_before [OF calm_others] by (cases r) auto

lemma attempt_update_ok:
  assumes "sup_update E 14 (attempt_update E sid kind) a0 s0 = (s, a, effs, None)"
  shows "ms_State (su_others E 14 s0) = respawn_state kind \<and> \<not> look_stopped (su_stop E 14) sid
    \<and> s = attempt kind (su_now E 14) (su_now E 15) (su_others E 14 s0) \<and> effs = [Stored s]"
  using assms by (auto simp: sup_update_def attempt_update_def Let_def split: if_splits)

lemma attempt_update_err: "sup_update E 14 (attempt_update E sid kind) a0 s0 = (s, a, effs, Some e) \<Longrightarrow> s = su_others E 14 s0"
  by (auto simp: sup_update_def attempt_update_def Let_def split: if_splits)

lemma attempt_launch_launched:
  assumes "built kind argv"
  shows "calm E s0 (attempt_launch cfg E A sid kind session argv s0) \<or> launched E sid kind s0 (attempt_launch cfg E A sid kind session argv s0)"
proof -
  obtain s a effs err where u: "sup_update E 14 (attempt_update E sid kind) session s0 = (s, a, effs, err)" by (metis prod.exhaust)
  show ?thesis
  proof (cases err)
    case None
    have x: "ms_State (su_others E 14 s0) = respawn_state kind" "\<not> look_stopped (su_stop E 14) sid"
      "s = attempt kind (su_now E 14) (su_now E 15) (su_others E 14 s0)" "effs = [Stored s]"
      using attempt_update_ok [OF u [unfolded None]] by auto
    have k: "keeps_count E \<Longrightarrow> ms_RestartCount s0 \<le> ms_RestartCount (su_others E 14 s0)" by (simp add: keeps_count_def)
    have "attempt_launch cfg E A sid kind session argv s0 = apsnd (apfst ((@) [Stored s])) (start_child cfg E A kind session a argv s)"
      using u None x(4) by (simp add: attempt_launch_def)
    from start_child_launched [OF assms x(1,2) k x(3) this] show ?thesis .
  next
    case (Some e)
    have s: "s = su_others E 14 s0" using attempt_update_err [OF u [unfolded Some]] .
    have "calm E s0 (stopForStop cfg E 16 s)" unfolding s by (rule calm_after_others, rule stopForStop_calm)
    moreover have "calm E s0 (s, [], err')" for err' unfolding s by simp
    ultimately show ?thesis using u Some by (simp add: attempt_launch_def)
  qed
qed

lemma prepare_launch_launched: "calm E s (prepare_launch cfg E A sid kind s) \<or> launched E sid kind s (prepare_launch cfg E A sid kind s)"
proof -
  obtain cli binary cwd where p: "project_of cfg s = (cli, binary, cwd)" by (metis prod.exhaust)
  let ?resume = "if kind = RespawnHandoffStage5 then '''' else resume_id s"
  show ?thesis
  proof (cases "preflight_check cfg A cwd binary = None \<and> preflight_settings A = None \<and> \<not> (kind \<noteq> RespawnHandoffStage5 \<and> resume_id s = '''')
      \<and> (\<exists>argv. BuildLaunchArgv cli binary (settings_path cfg sid) ?resume = Inr argv)")
    case True
    then obtain argv where b: "BuildLaunchArgv cli binary (settings_path cfg sid) ?resume = Inr argv" by blast
    have "prepare_launch cfg E A sid kind s = attempt_launch cfg E A sid kind s argv s" using p b True by (auto simp: prepare_launch_def)
    moreover have "?resume = '''' \<longleftrightarrow> kind = RespawnHandoffStage5" using True by (cases "kind = RespawnHandoffStage5") simp_all
    then have "built kind argv" unfolding built_def using b by blast
    ultimately show ?thesis using attempt_launch_launched by metis
  next
    case False
    then have "calm E s (prepare_launch cfg E A sid kind s)"
      using p by (auto simp: prepare_launch_def split: option.splits sum.splits)
    then show ?thesis ..
  qed
qed

lemma executeLocked_launched:
  "calm E s (executeLocked cfg E A sid kind s) \<or> \<not> la_ctx_done A \<and> launched E sid kind s (executeLocked cfg E A sid kind s)"
  using prepare_launch_launched [of E "su_others E 12 s" cfg A sid kind]
  by (auto simp: executeLocked_def Let_def intro: calm_after_others launched_after_others)

lemma Respawn_Execute_launched:
  "calm E s0 (Respawn_Execute cfg E A sid kind s0) \<or> \<not> la_ctx_done A \<and> launched E sid kind s0 (Respawn_Execute cfg E A sid kind s0)"
proof -
  obtain s effs err where x: "executeLocked cfg E A sid kind s0 = (s, effs, err)" by (metis prod.exhaust)
  have e: "calm E s0 (s, effs, err) \<or> \<not> la_ctx_done A \<and> launched E sid kind s0 (s, effs, err)" using executeLocked_launched [of E s0 cfg A sid kind] x by simp
  then have "calm E s0 (apsnd (apfst ((@) effs)) (stopForStop cfg E 21 s))
     \<or> \<not> la_ctx_done A \<and> launched E sid kind s0 (apsnd (apfst ((@) effs)) (stopForStop cfg E 21 s))"
    using calm_trans launched_after stopForStop_calm by blast
  with e x show ?thesis
    by (cases "su_stop E 10"; cases "la_ctx_done A") (auto simp: Respawn_Execute_def split: respawn_kind.splits if_splits)
qed

section \<open>Recovery starts a process only within its limits\<close>

lemma recover_update_ready:
  assumes "sup_update E 4 (recover_update E sid) NotRecovering s0 = (s, Ready, effs, None)"
  shows "ms_State (su_others E 4 s0) = SessionRecovering \<and> \<not> look_stopped (su_stop E 4) sid \<and> ms_ClaudeSessionID (su_others E 4 s0) \<noteq> ''''
    \<and> RestartLimitReason (ms_RestartCount (su_others E 4 s0)) (ms_RestartTimes (su_others E 4 s0)) (su_now E 5) = no_stop
    \<and> ms_RestartCount s = ms_RestartCount (su_others E 4 s0) \<and> effs = [Stored s] \<and> ms_State s = SessionStarting"
proof -
  let ?v = "su_others E 4 s0"
  obtain v' r where a: "Apply EventRecoveryWaitDone default_context (su_now E 4) ?v = (v', r)" by (metis prod.exhaust)
  have st: "ms_State v' = SessionStarting" if "r = None" "ms_State ?v = SessionRecovering"
    using a that by (cases rule: Apply_cases) (auto simp: Transition_def)
  show ?thesis
    using assms a Apply_RestartCount [OF a] st
    by (auto simp: sup_update_def recover_update_def Let_def split: if_splits prod.splits option.splits)
qed

definition may_restart :: "sup_env \<Rightarrow> session_id \<Rightarrow> managed_session \<Rightarrow> bool" where
  "may_restart E sid v \<longleftrightarrow>
     ms_State v = SessionRecovering \<and> \<not> look_stopped (su_stop E 4) sid \<and> ms_ClaudeSessionID v \<noteq> ''''
     \<and> RestartLimitReason (ms_RestartCount v) (ms_RestartTimes v) (su_now E 5) = no_stop"

lemma recover_update_count: "recover_update E sid s = (s', a, None) \<Longrightarrow> ms_RestartCount s \<le> ms_RestartCount s'"
  by (auto simp: recover_update_def Let_def dest: Apply_RestartCount split: if_splits prod.splits option.splits)

lemma recover_ready_launched:
  "calm E s0 (recover_ready cfg E A sid s0)
   \<or> \<not> la_ctx_done A \<and> may_restart E sid (su_others E 4 s0) \<and> launched E sid RespawnRecovery s0 (recover_ready cfg E A sid s0)"
proof -
  obtain s a effs err where u: "sup_update E 4 (recover_update E sid) NotRecovering s0 = (s, a, effs, err)" by (metis prod.exhaust)
  have c: "calm E s0 (s, effs @ es, e)" if "spawns es = 0" for es and e :: "restart_error option"
    by (rule sup_update_calm [OF u _ that]) (rule recover_update_count)
  have c0: "calm E s0 (s, effs, e)" for e using c [of "[]" e] by simp
  show ?thesis
  proof (cases "a = Ready \<and> err = None")
    case True
    let ?pre = "effs @ recorded cfg [EventRecorded ''state_changed'' SessionRecovering SessionStarting no_stop '''']"
    have r: "recover_ready cfg E A sid s0 = apsnd (apfst ((@) ?pre)) (Respawn_Execute cfg E A sid RespawnRecovery s)"
      using u True by (simp add: recover_ready_def)
    have p: "calm E s0 (s, ?pre, None)" by (rule c) simp
    have "may_restart E sid (su_others E 4 s0)" using recover_update_ready u True unfolding may_restart_def by blast
    then show ?thesis
      using Respawn_Execute_launched [of E s cfg A sid RespawnRecovery] calm_trans [OF p] launched_before [OF p] unfolding r by blast
  next
    case False
    have e: "spawns (stoppedEvent cfg reason) = 0" for reason by simp
    have "calm E s0 (recover_ready cfg E A sid s0)"
      using u False c0 c [OF e] by (cases err; cases a) (simp_all add: recover_ready_def)
    then show ?thesis ..
  qed
qed

text \<open>A wait that nothing disturbed: no stop at any look, its end reached, and no ended context before or after.\<close>

definition undisturbed :: "session_id \<Rightarrow> launch_answers \<Rightarrow> recover_wait \<Rightarrow> bool" where
  "undisturbed sid A W \<longleftrightarrow> list_all (\<lambda>look. \<not> look_stopped look sid) (rw_ticks W) \<and> \<not> look_stopped (rw_last W) sid
     \<and> rw_end W = DelayPassed \<and> \<not> rw_ctx_done W \<and> \<not> la_ctx_done A"

lemma waitRecoveryDelay_None:
  "waitRecoveryDelay sid ls look fin = None \<longleftrightarrow>
     list_all (\<lambda>look. \<not> look_stopped look sid) ls \<and> \<not> look_stopped look sid \<and> fin = DelayPassed"
  by (induction ls) (cases fin; simp)+

lemma recover_delayed_launched:
  "calm E s (recover_delayed cfg E A W sid s)
   \<or> undisturbed sid A W \<and> may_restart E sid (su_others E 4 s)
      \<and> launched E sid RespawnRecovery s (recover_delayed cfg E A W sid s)"
proof -
  have t: "calm E s (case recover_stop cfg E 3 reason s of (s, effs, _) \<Rightarrow> (s, effs, Some e))" for reason e
    using recover_stop_calm [of E s cfg 3 reason] by (cases "recover_stop cfg E 3 reason s") (simp add: calm_def)
  show ?thesis
    using t recover_ready_launched [of E s cfg A sid] waitRecoveryDelay_None [of sid "rw_ticks W" "rw_last W" "rw_end W"]
    by (auto simp: recover_delayed_def undisturbed_def split: option.splits)
qed

lemma Recover_Execute_launched:
  "calm E s0 (Recover_Execute cfg E A W sid s0)
   \<or> undisturbed sid A W \<and> ms_CLI (su_others E 1 s0) = CLIClaude
      \<and> (\<exists>effs. fst (snd (Recover_Execute cfg E A W sid s0)) = Waited (RestartBackoff (ms_RestartCount (su_others E 1 s0))) # effs)
      \<and> may_restart E sid (su_others E 4 (su_others E 1 s0)) \<and> launched E sid RespawnRecovery s0 (Recover_Execute cfg E A W sid s0)"
proof -
  let ?s = "su_others E 1 s0"
  let ?wait = "[Waited (RestartBackoff (ms_RestartCount ?s))]"
  have w: "calm E s0 (?s, ?wait, None)" by (simp add: calm_def keeps_count_def)
  have stop: "calm E s0 (recover_stop cfg E 2 reason ?s)" for reason by (rule calm_after_others, rule recover_stop_calm)
  let ?rest = "recover_delayed cfg E A W sid ?s"
  have rest: "calm E s0 (apsnd (apfst ((@) ?wait)) ?rest)
     \<or> undisturbed sid A W \<and> may_restart E sid (su_others E 4 ?s)
       \<and> launched E sid RespawnRecovery s0 (apsnd (apfst ((@) ?wait)) ?rest)"
    using recover_delayed_launched [of E ?s cfg A W sid] calm_trans [OF w] launched_before [OF w] by blast
  show ?thesis
    using rest stop by (simp add: Recover_Execute_def Let_def)
qed

lemma backoff_loop_le: "0 \<le> d \<Longrightarrow> d \<le> backoff_loop n d"
proof (induction n arbitrary: d)
  case (Suc n)
  from Suc.IH [of "d * 2"] Suc.prems show ?case by simp
qed simp

lemma RestartBackoff_bounds: "10 * go_second \<le> RestartBackoff n \<and> RestartBackoff n \<le> 300 * go_second"
  using backoff_loop_le [of RestartBackoffBase "nat n"]
  by (simp add: RestartBackoff_def Let_def RestartBackoffBase_def RestartBackoffMax_def go_second_def)

lemma built_resumes:
  assumes "built kind argv" and "kind \<noteq> RespawnHandoffStage5"
  shows "\<exists>binary path resume. claudeSessionIDPattern resume
    \<and> argv = [binary, ''--settings'', path, ''--permission-mode'', ''default'', ''--model'', supervisorManagerModel, ''--resume'', resume]"
  using assms by (auto simp: built_def BuildLaunchArgv_def Let_def split: if_splits)

text \<open>
  C33: automatic recovery starts at most one process, and only within its limits. A run that starts one first waited the
  backoff delay of the restarts counted so far, at least ten seconds: the delay passed to its end, the context had ended
  neither during the wait nor before the launch, and no look saw a stop. After the wait it found the session still recovering,
  with a Claude session to resume and below both restart limits. The attempt, with the restart counted and its time
  noted, is stored immediately before the process starts, from a session that was starting and not stopped; the command
  line asks for the default permission mode and resumes a well-formed session identifier.
\<close>

theorem recovery_within_limits:
  assumes "Recover_Execute cfg E A W sid s0 = (s', effs, err)" and "spawns effs \<noteq> 0"
  shows "spawns effs = 1
    \<and> (\<exists>d v argv pid pre post.
         effs = Waited d # pre @ [Stored (attempt RespawnRecovery (su_now E 14) (su_now E 15) v), Spawned argv pid] @ post
         \<and> d = RestartBackoff (ms_RestartCount (su_others E 1 s0)) \<and> 10 * go_second \<le> d \<and> d \<le> 300 * go_second
         \<and> ms_State v = SessionStarting \<and> \<not> look_stopped (su_stop E 14) sid
         \<and> ms_RestartCount (attempt RespawnRecovery (su_now E 14) (su_now E 15) v) = ms_RestartCount v + 1
         \<and> su_now E 15 \<in> set (ms_RestartTimes (attempt RespawnRecovery (su_now E 14) (su_now E 15) v))
         \<and> (\<exists>binary path resume. claudeSessionIDPattern resume
              \<and> argv = [binary, ''--settings'', path, ''--permission-mode'', ''default'', ''--model'', supervisorManagerModel, ''--resume'', resume]))
    \<and> list_all (\<lambda>look. \<not> look_stopped look sid) (rw_ticks W) \<and> \<not> look_stopped (rw_last W) sid
    \<and> rw_end W = DelayPassed \<and> \<not> rw_ctx_done W \<and> \<not> la_ctx_done A
    \<and> ms_CLI (su_others E 1 s0) = CLIClaude \<and> \<not> look_stopped (su_stop E 4) sid
    \<and> (\<exists>v. v = su_others E 4 (su_others E 1 s0) \<and> ms_State v = SessionRecovering \<and> ms_ClaudeSessionID v \<noteq> ''''
         \<and> RestartLimitReason (ms_RestartCount v) (ms_RestartTimes v) (su_now E 5) = no_stop)"
proof -
  let ?d = "RestartBackoff (ms_RestartCount (su_others E 1 s0))"
  from Recover_Execute_launched [of E s0 cfg A W sid] assms
  have x: "undisturbed sid A W" "ms_CLI (su_others E 1 s0) = CLIClaude" "\<exists>rest. effs = Waited ?d # rest"
    "may_restart E sid (su_others E 4 (su_others E 1 s0))"
    "launched E sid RespawnRecovery s0 (s', effs, err)" by (auto simp: calm_def)
  from x(5) obtain v argv pid pre post where
    l: "effs = pre @ [Stored (attempt RespawnRecovery (su_now E 14) (su_now E 15) v), Spawned argv pid] @ post"
      "spawns pre = 0" "spawns post = 0" "ms_State v = SessionStarting" "\<not> look_stopped (su_stop E 14) sid" "built RespawnRecovery argv"
    by (rule launchedE) (simp add: respawn_state_def handoff_kind_def)
  from l(1) x(3) obtain pre' where pre: "pre = Waited ?d # pre'" by (cases pre) auto
  have one: "spawns effs = 1" using l(1-3) by simp
  have noted: "su_now E 15 \<in> set (ms_RestartTimes (attempt RespawnRecovery (su_now E 14) (su_now E 15) v))"
    by (simp add: attempt_def count_restart_def Let_def)
  have effs: "effs = Waited ?d # pre' @ [Stored (attempt RespawnRecovery (su_now E 14) (su_now E 15) v), Spawned argv pid] @ post"
    using l(1) pre by simp
  have "\<exists>d v argv pid pre post.
         effs = Waited d # pre @ [Stored (attempt RespawnRecovery (su_now E 14) (su_now E 15) v), Spawned argv pid] @ post
         \<and> d = ?d \<and> 10 * go_second \<le> d \<and> d \<le> 300 * go_second
         \<and> ms_State v = SessionStarting \<and> \<not> look_stopped (su_stop E 14) sid
         \<and> ms_RestartCount (attempt RespawnRecovery (su_now E 14) (su_now E 15) v) = ms_RestartCount v + 1
         \<and> su_now E 15 \<in> set (ms_RestartTimes (attempt RespawnRecovery (su_now E 14) (su_now E 15) v))
         \<and> (\<exists>binary path resume. claudeSessionIDPattern resume
              \<and> argv = [binary, ''--settings'', path, ''--permission-mode'', ''default'', ''--model'', supervisorManagerModel, ''--resume'', resume])"
    using effs RestartBackoff_bounds l(4,5) attempt_RestartCount(1) noted built_resumes [OF l(6)] by blast
  with one x(1,2,4) show ?thesis unfolding undisturbed_def may_restart_def by blast
qed

text \<open>Successive recoveries of one session, whatever the other threads do in between.\<close>

fun recover_runs :: "restart_config \<Rightarrow> session_id \<Rightarrow> (sup_env \<times> launch_answers \<times> recover_wait) list \<Rightarrow> managed_session
    \<Rightarrow> managed_session \<times> restart_effect list" where
  "recover_runs cfg sid [] s = (s, [])"
| "recover_runs cfg sid ((E, A, W) # runs) s =
     (case Recover_Execute cfg E A W sid s of (s, effs, _) \<Rightarrow> apsnd ((@) effs) (recover_runs cfg sid runs s))"

lemma RestartLimitReason_count: "RestartLimitReason n ts now = no_stop \<Longrightarrow> n < RestartMaxCount"
  by (auto simp: RestartLimitReason_def RestartLimitCounts_def split: if_splits)

lemma one_recovery_budget:
  assumes "keeps_count E" and "Recover_Execute cfg E A W sid s0 = (s', effs, err)"
  shows "int (spawns effs) + max 0 (RestartMaxCount - ms_RestartCount s') \<le> max 0 (RestartMaxCount - ms_RestartCount s0)"
proof (cases "calm E s0 (s', effs, err)")
  case True
  with assms(1) show ?thesis by (auto simp: calm_def)
next
  case False
  from Recover_Execute_launched [of E s0 cfg A W sid] False assms(2)
  have x: "may_restart E sid (su_others E 4 (su_others E 1 s0))" "launched E sid RespawnRecovery s0 (s', effs, err)" by auto
  from x(2) obtain v argv pid pre post where
    l: "effs = pre @ [Stored (attempt RespawnRecovery (su_now E 14) (su_now E 15) v), Spawned argv pid] @ post" "spawns pre = 0" "spawns post = 0"
      "ms_RestartCount s0 \<le> ms_RestartCount v" "ms_RestartCount v + 1 \<le> ms_RestartCount s'"
    using assms(1) attempt_RestartCount(1) by (auto elim!: launchedE)
  have "ms_RestartCount s0 \<le> ms_RestartCount (su_others E 4 (su_others E 1 s0))" using assms(1) unfolding keeps_count_def by (meson order_trans)
  also have "\<dots> < RestartMaxCount" using x(1) RestartLimitReason_count by (auto simp: may_restart_def)
  finally show ?thesis using l by simp
qed

text \<open>
  C34: as long as nothing lowers the counter of restarts, which only the reset after a stable run and an operator's resume do,
  the automatic recoveries of a session start at most three processes, less the restarts already counted, over any number of
  recoveries and whatever else other threads change. Each of the two resets opens the budget again.
\<close>

theorem restart_budget:
  assumes "\<forall>run \<in> set runs. keeps_count (fst run)" and "recover_runs cfg sid runs s = (s', effs)"
  shows "int (spawns effs) \<le> max 0 (3 - ms_RestartCount s)"
proof -
  have "int (spawns effs) + max 0 (RestartMaxCount - ms_RestartCount s') \<le> max 0 (RestartMaxCount - ms_RestartCount s)"
    using assms
  proof (induction runs arbitrary: s effs)
    case Nil
    then show ?case by simp
  next
    case (Cons run runs)
    obtain E A W where run: "run = (E, A, W)" by (metis prod.exhaust)
    obtain s1 effs1 err where r: "Recover_Execute cfg E A W sid s = (s1, effs1, err)" by (metis prod.exhaust)
    obtain s2 effs2 where rs: "recover_runs cfg sid runs s1 = (s2, effs2)" by (metis prod.exhaust)
    have "s2 = s'" "effs = effs1 @ effs2" using Cons.prems(2) run r rs by simp_all
    with Cons.IH [of s1 effs2] Cons.prems(1) rs one_recovery_budget [OF _ r] run show ?case by fastforce
  qed
  then show ?thesis by (simp add: RestartMaxCount_def)
qed

definition quiet_env :: sup_env where
  "quiet_env = \<lparr>su_others = (\<lambda>k s. s), su_load_fails = (\<lambda>k. False), su_save_fails = (\<lambda>k. False), su_now = (\<lambda>k. 1000 + int k),
     su_stop = (\<lambda>k. Some (quiet_io, NewStopState []))\<rparr>"

definition ready_config :: restart_config where
  "ready_config = \<lparr>rc_StateDir = ''/s'', rc_Columns = 80, rc_Rows = 24, rc_Projects = (\<lambda>p. Some (CLIClaude, ''/b'', ''/w'')), rc_records = True,
     rc_notifies = True, rc_notes_failures = True, rc_registers = True, rc_observes = True\<rparr>"

definition ready_answers :: launch_answers where
  "ready_answers = \<lparr>la_lock_fails = False, la_ctx_done = False, la_dir = (\<lambda>d. True), la_own_dir = (\<lambda>d. True), la_executable = (\<lambda>b. True),
     la_billing = None, la_settings = SettingsWritten, la_start = (\<lambda>argv. Inr 42), la_ends_in_grace = True\<rparr>"

definition plain_wait :: recover_wait where
  "plain_wait = \<lparr>rw_ticks = [Some (quiet_io, NewStopState [])], rw_last = None, rw_end = DelayPassed, rw_ctx_done = False\<rparr>"

definition crashed_session :: managed_session where
  "crashed_session = fresh_session\<lparr>ms_State := SessionRecovering, ms_ClaudeSessionID := ''01234567-89ab-cdef-0123-456789abcdef''\<rparr>"

theorem recovery_within_limits_witness:
  "spawns (fst (snd (Recover_Execute ready_config quiet_env ready_answers plain_wait (SessionID ''proj-1'') crashed_session))) = 1
   \<and> ms_ChildPID (fst (Recover_Execute ready_config quiet_env ready_answers plain_wait (SessionID ''proj-1'') crashed_session)) = 42"
proof
  obtain s' effs err where r: "Recover_Execute ready_config quiet_env ready_answers plain_wait (SessionID ''proj-1'') crashed_session = (s', effs, err)"
    by (metis prod.exhaust)
  have "spawns (fst (snd (Recover_Execute ready_config quiet_env ready_answers plain_wait (SessionID ''proj-1'') crashed_session))) \<noteq> 0" by code_simp
  then have "spawns effs \<noteq> 0" unfolding r by simp
  from recovery_within_limits [OF r this]
  show "spawns (fst (snd (Recover_Execute ready_config quiet_env ready_answers plain_wait (SessionID ''proj-1'') crashed_session))) = 1"
    unfolding r by simp
qed code_simp

theorem restart_budget_witness:
  "int (spawns (snd (recover_runs ready_config (SessionID ''proj-1'')
     [(quiet_env, ready_answers, plain_wait), (quiet_env, ready_answers, plain_wait)] (crashed_session\<lparr>ms_RestartCount := 2\<rparr>)))) \<le> 1
   \<and> spawns (snd (recover_runs ready_config (SessionID ''proj-1'')
     [(quiet_env, ready_answers, plain_wait), (quiet_env, ready_answers, plain_wait)] (crashed_session\<lparr>ms_RestartCount := 2\<rparr>))) = 1"
proof
  let ?runs = "[(quiet_env, ready_answers, plain_wait), (quiet_env, ready_answers, plain_wait)]"
  let ?s = "crashed_session\<lparr>ms_RestartCount := 2\<rparr>"
  have k: "\<forall>run \<in> set ?runs. keeps_count (fst run)" by (simp add: keeps_count_def quiet_env_def)
  show "int (spawns (snd (recover_runs ready_config (SessionID ''proj-1'') ?runs ?s))) \<le> 1"
    using restart_budget [OF k, of ready_config "SessionID ''proj-1''" ?s] by (cases "recover_runs ready_config (SessionID ''proj-1'') ?runs ?s") simp
qed code_simp

section \<open>Registries under interleaving\<close>

text \<open>A stop that is requested before the child is registered reaches that child; the observer of an old child removes nothing of a newer one.\<close>

lemma stop_reaches_late_child:
  "pr_managed r sid = None \<Longrightarrow> IsStopping sid pty (RegisterManaged sid pty (fst (MarkStopping sid r)))"
  by (simp add: IsStopping_def RegisterManaged_def MarkStopping_def)

lemma old_observer_keeps_new_child:
  assumes "old \<noteq> new" and "pid \<noteq> pid'"
  shows "pr_managed (RemoveManaged sid old (RegisterManaged sid new r)) sid = Some new"
    and "pr_writers (Remove_writer sid old (Register_writer sid new r)) sid = Some new"
    and "pid' > 0 \<Longrightarrow> Owns_child sid pid' (Remove_owned sid pid (Register_owned sid pid' c))"
  using assms
  by (simp_all add: RemoveManaged_def RegisterManaged_def Remove_writer_def Register_writer_def Owns_child_def Remove_owned_def
      Register_owned_def owned_pid_def)

lemma shutdown_refuses_children: "StartChild start (BeginShutdown r) = Inl ErrStopActive"
  by (simp add: StartChild_def BeginShutdown_def)

end
