(* ===== verification/Session_Observer.thy ===== *)
theory Session_Observer
  imports Exit_Send Session_Restart
begin

text \<open>
  What the observer of a terminal concludes and records: the detection with the statusline file (\<^verbatim>\<open>detect_state.go\<close>), the update of the
  session in one round of \<^verbatim>\<open>observe_session.go\<close>, the reset of the restart counter, the plan of a handoff
  (\<^verbatim>\<open>plan_rotation.go\<close>), the reminders of a pending permission dialog (\<^verbatim>\<open>permission_pending.go\<close>) and the stores of observed values
  (\<^verbatim>\<open>observed_state.go\<close>, \<^verbatim>\<open>observed_context.go\<close>), all in \<^verbatim>\<open>src/internal/supervisor/usecase\<close>. The rows of the screen and what the
  statusline file decodes to are arguments.
\<close>

section \<open>Observed values\<close>

text \<open>Both stores are maps under a mutex; a store for a percentage removes the entry when the percentage is unknown.\<close>

definition Observed_Set :: "session_id \<Rightarrow> detected_state \<Rightarrow> (session_id \<rightharpoonup> detected_state) \<Rightarrow> session_id \<rightharpoonup> detected_state" where
  "Observed_Set sid st m = m(sid \<mapsto> st)"

definition Observed_Delete :: "session_id \<Rightarrow> (session_id \<rightharpoonup> detected_state) \<Rightarrow> session_id \<rightharpoonup> detected_state" where
  "Observed_Delete sid m = m(sid := None)"

definition Context_Set :: "session_id \<Rightarrow> int option \<Rightarrow> (session_id \<rightharpoonup> int) \<Rightarrow> session_id \<rightharpoonup> int" where
  "Context_Set sid percent m = m(sid := percent)"

section \<open>Detection\<close>

record statusline_record =
  sl_SchemaVersion :: int
  sl_ObservedAt :: go_time
  sl_UsedPercentage :: "int option"
  sl_ClaudeSessionID :: string

text \<open>The end of \<open>readStatusline\<close>: \<open>None\<close> stands for a file that cannot be read or decoded.\<close>

definition readStatusline :: "statusline_record option \<Rightarrow> statusline_record option" where
  "readStatusline decoded =
     (case decoded of
        None \<Rightarrow> None
      | Some r \<Rightarrow> if sl_SchemaVersion r \<noteq> 1 \<or> is_zero_time (sl_ObservedAt r) then None else Some r)"

definition statuslineIsFresh :: "go_time option \<Rightarrow> structured_info \<Rightarrow> bool" where
  "statuslineIsFresh lastConfirmed info =
     (if si_UsedPercentage info < 0 \<or> si_UsedPercentage info > 100 \<or> is_zero_time (si_ObservedAt info) then False
      else case lastConfirmed of None \<Rightarrow> True | Some t \<Rightarrow> \<not> si_ObservedAt info < t)"

definition child_started :: "managed_session \<Rightarrow> go_time" where
  "child_started s = (case ms_ChildStartedAt s of None \<Rightarrow> ms_StateSince s | Some t \<Rightarrow> t)"

text \<open>The structured information for the detector, and the session identifier of a record without a percentage.\<close>

definition structured_input :: "managed_session \<Rightarrow> go_time \<Rightarrow> statusline_record option \<Rightarrow> structured_info option \<times> string" where
  "structured_input s now file =
     (case readStatusline file of
        None \<Rightarrow> (None, '''')
      | Some r \<Rightarrow>
          if (case sl_UsedPercentage r of None \<Rightarrow> False | Some u \<Rightarrow> u < 0 \<or> u > 100) then (None, '''')
          else
            let sid = (if claudeSessionIDPattern (sl_ClaudeSessionID r) then sl_ClaudeSessionID r else '''');
                info = \<lparr>si_ObservedAt = sl_ObservedAt r, si_UsedPercentage = 0, si_SessionID = sid\<rparr>
            in if sl_ObservedAt r < child_started s \<or> sl_ObservedAt r > now + 5 * go_second
                  \<or> \<not> statuslineIsFresh (sg_LastConfirmedAt (ms_SendGate s)) info
               then (None, '''')
               else (case sl_UsedPercentage r of
                   Some u \<Rightarrow> (Some (info\<lparr>si_UsedPercentage := u\<rparr>), '''')
                 | None \<Rightarrow> (None, sid)))"

definition detect_input_of :: "managed_session \<Rightarrow> row list \<Rightarrow> go_time \<Rightarrow> bool \<Rightarrow> go_time \<Rightarrow> structured_info option \<Rightarrow> detect_input" where
  "detect_input_of s rows changed exited now info =
     \<lparr>di_SessionID = ms_SessionID s, di_CLI = Some (ms_CLI s), di_ScreenRows = rows, di_LastScreenChangeAt = changed, di_ProcessExited = exited,
      di_Structured = info, di_LastSendConfirmedAt = sg_LastConfirmedAt (ms_SendGate s), di_Now = now, di_Patterns = None,
      di_PatternsByCLI = (\<lambda>cli. None)\<rparr>"

definition learn_session_id :: "string \<Rightarrow> managed_session \<Rightarrow> managed_session \<times> unit \<times> restart_error option" where
  "learn_session_id sid s = (s\<lparr>ms_ClaudeSessionID := sid, ms_PreviousClaudeSessionID := ''''\<rparr>, (), None)"

text \<open>\<open>DetectSessionStateUseCase.Execute\<close>; the stored session is changed only when the statusline names another Claude session.\<close>

definition DetectState_Execute :: "(rune \<Rightarrow> bool) \<Rightarrow> (row \<Rightarrow> row \<Rightarrow> bool) \<Rightarrow> composite_detector \<Rightarrow> sup_env \<Rightarrow> nat \<Rightarrow> statusline_record option
    \<Rightarrow> row list \<Rightarrow> go_time \<Rightarrow> bool \<Rightarrow> managed_session \<Rightarrow> managed_session \<Rightarrow> (managed_session \<times> detect_result \<times> restart_error option) outcome" where
  "DetectState_Execute ln rx d E k file rows changed exited session stored =
     (case structured_input session (su_now E k) file of (info, unknownUsage) \<Rightarrow>
        and_then (Detect ln rx d (detect_input_of session rows changed exited (su_now E k) info)) (\<lambda>detected.
          let result = (if unknownUsage \<noteq> '''' then detected\<lparr>dr_SessionID := unknownUsage\<rparr> else detected)
          in if dr_SessionID result \<noteq> '''' \<and> dr_SessionID result \<noteq> ms_ClaudeSessionID session
             then (case sup_update E k (learn_session_id (dr_SessionID result)) () stored of
                 (s, _, _, err) \<Rightarrow> Done (s, result, err))
             else Done (stored, result, None)))"

section \<open>The update of the session in one round\<close>

fun observed_session_state :: "detected_state \<Rightarrow> session_state" where
  "observed_session_state StateIdle = SessionIdle"
| "observed_session_state StateAwaitingPermission = SessionAwaitingPermission"
| "observed_session_state StateAwaitingRecommendation = SessionAwaitingRecommendation"
| "observed_session_state StateExited = SessionExited"
| "observed_session_state _ = SessionWorking"

fun detector_event :: "session_state \<Rightarrow> sup_event option" where
  "detector_event SessionIdle = Some EventDetectorIdle"
| "detector_event SessionWorking = Some EventDetectorWorking"
| "detector_event SessionAwaitingPermission = Some EventDetectorPermission"
| "detector_event SessionAwaitingRecommendation = Some EventDetectorRecommendation"
| "detector_event _ = None"

record observation =
  ob_exited :: bool
  ob_exitCode :: "int option"
  ob_result :: detect_result
  ob_stoppedByControl :: bool
  ob_started :: go_time
  ob_startupTimeout :: duration
  ob_sends :: bool
  ob_owner :: "nat option"
  ob_now :: "nat \<Rightarrow> go_time"

text \<open>The variables that the update function assigns.\<close>

record observed_change =
  oc_from :: session_state
  oc_unsafe :: bool
  oc_exitPending :: "pending_send option"
  oc_next :: "session_state option"
  oc_illegal :: "(session_state \<times> session_state) option"

definition disable_unsafe :: "detect_result \<Rightarrow> managed_session \<Rightarrow> managed_session \<times> bool" where
  "disable_unsafe result s =
     (if dr_PermissionMode result = PermissionUnsafe \<and> ms_AutoContinueDisabledReason s = ''''
      then (s\<lparr>ms_AutoContinueDisabledReason := ''permission_mode_unsafe''\<rparr>, True) else (s, False))"

definition valueOrZero :: "int option \<Rightarrow> int" where
  "valueOrZero v = (case v of None \<Rightarrow> 0 | Some n \<Rightarrow> n)"

definition exit_context :: "observation \<Rightarrow> managed_session \<Rightarrow> transition_context" where
  "exit_context I s =
     default_context\<lparr>tc_CLI := ms_CLI s, tc_Generation := ms_Generation s, tc_ChildPID := ms_ChildPID s,
       tc_ExitCode := valueOrZero (ob_exitCode I), tc_HasPendingSend := (sg_Pending (ms_SendGate s) \<noteq> None),
       tc_ClaudeSessionID := (ms_ClaudeSessionID s \<noteq> ''''), tc_HasPreviousClaudeSessionID := (ms_PreviousClaudeSessionID s \<noteq> ''''),
       tc_RestartCount := ms_RestartCount s, tc_DailyRestartCount := RestartCountInWindow (ms_RestartTimes s) (ob_now I 1),
       tc_ObservedState := observed_session_state (dr_State (ob_result I))\<rparr>"

text \<open>The branch of an exited child: a pending exit send is settled first, then the child is forgotten, then the exit is classified.\<close>

definition settle_exit :: "observation \<Rightarrow> managed_session \<times> exit_send option \<Rightarrow> (managed_session \<times> exit_send option) \<times> exit_commit" where
  "settle_exit I w =
     (case sg_Pending (ms_SendGate (fst w)) of
        Some p \<Rightarrow> if pnd_Kind p = SendKindHandoffExit \<and> ob_sends I then observeExit (ob_now I 0) p (ob_owner I) w else (w, no_commit)
      | None \<Rightarrow> (w, no_commit))"

definition forget_child :: "managed_session \<Rightarrow> managed_session" where
  "forget_child s = s\<lparr>ms_ChildPID := 0, ms_ChildStartedAt := None\<rparr>"

definition classify_exit :: "observation \<Rightarrow> managed_session \<Rightarrow> managed_session \<times> session_state option" where
  "classify_exit I s =
     (case Apply (if ms_State s = SessionRotating then EventHandoffExit else EventUnexpectedExit) (exit_context I s) (ob_now I 2) s of
        (s', err) \<Rightarrow> (s', if err = None \<and> ms_State s \<noteq> ms_State s' then Some (ms_State s') else None))"

text \<open>The branch of a running child.\<close>

definition apply_detected :: "observation \<Rightarrow> managed_session \<Rightarrow> managed_session \<times> session_state option \<times> (session_state \<times> session_state) option" where
  "apply_detected I s =
     (let seen = observed_session_state (dr_State (ob_result I))
      in if dr_State (ob_result I) = StateUndetermined then (s, None, None)
         else case detector_event seen of
           None \<Rightarrow> (s, None, None)
         | Some event \<Rightarrow>
             (case Apply event (default_context\<lparr>tc_Generation := ms_Generation s, tc_ChildPID := ms_ChildPID s, tc_ObservedState := seen\<rparr>) (ob_now I 1) s of
                (s', Some e) \<Rightarrow> (s', None, Some (ms_State s', seen))
              | (s', None) \<Rightarrow> (s', if ms_State s \<noteq> ms_State s' then Some (ms_State s') else None, None)))"

definition startup_overdue :: "observation \<Rightarrow> managed_session \<Rightarrow> bool" where
  "startup_overdue I s \<longleftrightarrow>
     ms_State s = SessionStarting \<and> \<not> ob_stoppedByControl I \<and> time_sub (ob_now I 2) (ob_started I) \<ge> ob_startupTimeout I
     \<and> dr_State (ob_result I) \<noteq> StateIdle \<and> dr_State (ob_result I) \<noteq> StateAwaitingPermission
     \<and> dr_State (ob_result I) \<noteq> StateAwaitingRecommendation"

definition check_startup :: "observation \<Rightarrow> managed_session \<Rightarrow> managed_session \<times> session_state option \<times> session_error option" where
  "check_startup I s =
     (if startup_overdue I s
      then (case Apply EventStartupTimeout (default_context\<lparr>tc_Generation := ms_Generation s\<rparr>) (ob_now I 3) s of
          (s', Some e) \<Rightarrow> (s', None, Some e)
        | (s', None) \<Rightarrow> (s', Some (ms_State s'), None))
      else (s, None, None))"

definition updateObserved :: "observation \<Rightarrow> managed_session \<times> exit_send option
    \<Rightarrow> (managed_session \<times> exit_send option) \<times> exit_commit \<times> observed_change \<times> session_error option" where
  "updateObserved I w =
     (case disable_unsafe (ob_result I) (fst w) of (s, unsafe) \<Rightarrow>
        let change = \<lparr>oc_from = ms_State (fst w), oc_unsafe = unsafe, oc_exitPending = None, oc_next = None, oc_illegal = None\<rparr>
        in if ob_exited I then
             (case settle_exit I (s, snd w) of ((s1, cur), cm) \<Rightarrow>
                case classify_exit I (forget_child s1) of (s2, moved) \<Rightarrow>
                  ((s2, cur), cm, change\<lparr>oc_exitPending := sg_Pending (ms_SendGate s), oc_next := moved\<rparr>, None))
           else if ob_stoppedByControl I \<or> ms_State s = SessionStopped then ((s, snd w), no_commit, change, None)
           else
             (case apply_detected I s of (s1, moved, illegal) \<Rightarrow>
                case check_startup I s1 of (s2, expired, err) \<Rightarrow>
                  ((s2, snd w), no_commit, change\<lparr>oc_next := (if expired = None then moved else expired), oc_illegal := illegal\<rparr>, err)))"

text \<open>After the update: the outcome of an exit that is recorded, and whether a recovery is started.\<close>

definition recordExitOutcome :: "managed_session \<Rightarrow> bool \<Rightarrow> (string \<times> (exit_reason + stop_reason) \<times> string) list" where
  "recordExitOutcome loaded wasStopped =
     (if ms_State loaded = SessionExited then [(''session_exited'', Inl (ms_ExitReason loaded), [])]
      else if ms_State loaded = SessionStopped \<and> \<not> wasStopped then
        (if restart_limit (ms_StopReason loaded)
         then [(''restart_limit_exceeded'', Inr (ms_StopReason loaded), ''SUP_RESTART_LIMIT_EXCEEDED'')]
         else [(''session_stopped'', Inr (ms_StopReason loaded), [])])
      else [])"

definition starts_recovery :: "managed_session \<Rightarrow> session_state option \<Rightarrow> bool \<Rightarrow> bool" where
  "starts_recovery loaded moved recover_wired \<longleftrightarrow>
     moved = Some SessionRecovering \<and> ms_State loaded = SessionRecovering \<and> recover_wired"

definition reset_update :: "managed_session \<Rightarrow> go_time \<Rightarrow> managed_session \<Rightarrow> managed_session \<times> unit \<times> restart_error option" where
  "reset_update loaded now s =
     ((if ms_Generation s = ms_Generation loaded \<and> ms_ChildPID s = ms_ChildPID loaded \<and> ms_RestartCount s > 0
          \<and> (case ms_ChildStartedAt s of None \<Rightarrow> False | Some t \<Rightarrow> RestartStable t now)
       then s\<lparr>ms_RestartCount := 0\<rparr> else s), (), None)"

definition resetStableRestartCount :: "sup_env \<Rightarrow> nat \<Rightarrow> managed_session \<Rightarrow> go_time \<Rightarrow> managed_session \<Rightarrow> managed_session \<times> restart_error option" where
  "resetStableRestartCount E k loaded now stored =
     (if ms_Generation loaded < 2 \<or> ms_RestartCount loaded = 0 \<or> ms_ChildPID loaded = 0
         \<or> (case ms_ChildStartedAt loaded of None \<Rightarrow> True | Some t \<Rightarrow> \<not> RestartStable t now)
      then (stored, None)
      else (case sup_update E k (reset_update loaded now) () stored of (s, _, _, err) \<Rightarrow> (s, err)))"

section \<open>The plan of a handoff\<close>

definition rotationContextPercent :: int where
  "rotationContextPercent = 60"

definition rotationIdleWait :: duration where
  "rotationIdleWait = 7200 * go_second"

record rotation_plan_input =
  pi_Session :: managed_session
  pi_ContextPercent :: "int option"
  pi_StatuslineObservedAt :: "go_time option"
  pi_ObservedState :: detected_state
  pi_PendingSince :: "go_time option"
  pi_Stopped :: bool
  pi_Resume :: bool
  pi_Now :: go_time

record rotation_decision =
  rd_Start :: bool
  rd_Pending :: bool
  rd_IdleWaitTimeout :: bool
  rd_ContextUnknown :: bool
  rd_NotApplicable :: bool

definition no_decision :: rotation_decision where
  "no_decision = \<lparr>rd_Start = False, rd_Pending = False, rd_IdleWaitTimeout = False, rd_ContextUnknown = False, rd_NotApplicable = False\<rparr>"

definition context_unknown :: "rotation_plan_input \<Rightarrow> bool" where
  "context_unknown i \<longleftrightarrow>
     pi_ContextPercent i = None
     \<or> (case pi_StatuslineObservedAt i of
          None \<Rightarrow> True
        | Some at \<Rightarrow> is_zero_time at \<or> \<not> at > child_started (pi_Session i)
            \<or> (case sg_LastConfirmedAt (ms_SendGate (pi_Session i)) of None \<Rightarrow> False | Some t \<Rightarrow> at < t))"

text \<open>The decision while the screen shows work: the handoff waits, and after the idle wait the caller is told.\<close>

definition wait_for_idle :: "rotation_plan_input \<Rightarrow> rotation_decision" where
  "wait_for_idle i =
     (if pi_ObservedState i = StateWorking
      then no_decision\<lparr>rd_Pending := True,
             rd_IdleWaitTimeout := (case pi_PendingSince i of None \<Rightarrow> False | Some t \<Rightarrow> time_sub (pi_Now i) t > rotationIdleWait)\<rparr>
      else no_decision)"

definition Evaluate_rotation :: "rotation_plan_input \<Rightarrow> rotation_decision" where
  "Evaluate_rotation i =
     (let s = pi_Session i
      in if ms_CLI s \<noteq> CLIClaude then no_decision\<lparr>rd_NotApplicable := True\<rparr>
         else if context_unknown i then no_decision\<lparr>rd_ContextUnknown := True\<rparr>
         else if the (pi_ContextPercent i) \<le> rotationContextPercent \<or> pi_Stopped i then no_decision
         else if ms_State s \<noteq> SessionIdle \<and> ms_State s \<noteq> SessionAwaitingRecommendation \<and> ms_State s \<noteq> SessionWorking then no_decision
         else if ms_Rotation s \<noteq> None \<and> \<not> pi_Resume i then no_decision
         else if ms_State s = SessionWorking then wait_for_idle i
         else if pi_ObservedState i \<noteq> StateIdle \<and> pi_ObservedState i \<noteq> StateAwaitingRecommendation then wait_for_idle i
         else if ms_GitPhase s \<noteq> ''none'' \<and> ms_GitPhase s \<noteq> '''' then no_decision
         else no_decision\<lparr>rd_Start := True\<rparr>)"

lemma rotation_start_iff:
  "rd_Start (Evaluate_rotation i) \<longleftrightarrow>
     (\<exists>percent. pi_ContextPercent i = Some percent \<and> percent > 60) \<and> \<not> context_unknown i \<and> \<not> pi_Stopped i
     \<and> ms_CLI (pi_Session i) = CLIClaude \<and> ms_State (pi_Session i) \<in> {SessionIdle, SessionAwaitingRecommendation}
     \<and> pi_ObservedState i \<in> {StateIdle, StateAwaitingRecommendation}
     \<and> (ms_Rotation (pi_Session i) = None \<or> pi_Resume i) \<and> ms_GitPhase (pi_Session i) \<in> {''none'', ''''}"
proof -
  have w: "\<not> rd_Start (wait_for_idle i)" by (simp add: wait_for_idle_def no_decision_def)
  show ?thesis
  proof (cases "pi_ContextPercent i")
    case None
    then have "context_unknown i" by (simp add: context_unknown_def)
    then show ?thesis using None by (simp add: Evaluate_rotation_def Let_def no_decision_def)
  next
    case (Some percent)
    then show ?thesis using w
      by (cases "context_unknown i"; cases "ms_CLI (pi_Session i) = CLIClaude")
        (auto simp: Evaluate_rotation_def Let_def no_decision_def rotationContextPercent_def)
  qed
qed

section \<open>Reminders of a permission dialog\<close>

definition permissionRemindInterval :: duration where
  "permissionRemindInterval = 900 * go_second"

record permission_visit =
  pv_since :: go_time
  pv_last :: go_time

text \<open>\<open>Observe\<close>; the Boolean result says that a reminder was recorded, \<open>record_ok\<close> that the recorder accepts it.\<close>

definition Permission_Observe :: "bool \<Rightarrow> session_id \<Rightarrow> session_state \<Rightarrow> go_time \<Rightarrow> go_time \<Rightarrow> (session_id \<rightharpoonup> permission_visit)
    \<Rightarrow> (session_id \<rightharpoonup> permission_visit) \<times> bool" where
  "Permission_Observe record_ok sid st since now visits =
     (if st \<noteq> SessionAwaitingPermission then (visits(sid := None), False)
      else if (case visits sid of None \<Rightarrow> False | Some v \<Rightarrow> pv_since v = since \<and> time_sub now (pv_last v) < permissionRemindInterval)
      then (visits, False)
      else if \<not> record_ok then (visits, False)
      else (visits(sid \<mapsto> \<lparr>pv_since = since, pv_last = now\<rparr>), True))"

text \<open>The times of the reminders of one stay in the dialog, observed at the given times.\<close>

fun reminders :: "session_id \<Rightarrow> go_time \<Rightarrow> go_time list \<Rightarrow> (session_id \<rightharpoonup> permission_visit) \<Rightarrow> go_time list" where
  "reminders sid since [] visits = []"
| "reminders sid since (now # ts) visits =
     (case Permission_Observe True sid SessionAwaitingPermission since now visits of
        (visits, told) \<Rightarrow> (if told then [now] else []) @ reminders sid since ts visits)"

lemma reminders_known:
  assumes "visits sid = Some \<lparr>pv_since = since, pv_last = t\<rparr>"
  shows "successively (\<lambda>a b. time_sub b a \<ge> permissionRemindInterval) (t # reminders sid since ts visits)"
  using assms
proof (induction ts arbitrary: t visits)
  case (Cons now ts)
  show ?case
  proof (cases "time_sub now t < permissionRemindInterval")
    case True
    with Cons.prems have "reminders sid since (now # ts) visits = reminders sid since ts visits" by (simp add: Permission_Observe_def)
    with Cons.IH [of visits t] Cons.prems show ?thesis by simp
  next
    case False
    let ?v = "visits(sid \<mapsto> \<lparr>pv_since = since, pv_last = now\<rparr>)"
    have r: "reminders sid since (now # ts) visits = now # reminders sid since ts ?v" using Cons.prems False by (simp add: Permission_Observe_def)
    have "successively (\<lambda>a b. time_sub b a \<ge> permissionRemindInterval) (now # reminders sid since ts ?v)" by (rule Cons.IH) simp
    with False r show ?thesis by simp
  qed
qed simp

text \<open>A new dialog is reported at its first observation, and reminders of one stay are at least fifteen minutes apart.\<close>

lemma permission_reminders_spaced:
  assumes "case visits sid of None \<Rightarrow> True | Some v \<Rightarrow> pv_since v \<noteq> since"
  shows "hd (reminders sid since (now # ts) visits) = now
    \<and> successively (\<lambda>a b. time_sub b a \<ge> permissionRemindInterval) (reminders sid since (now # ts) visits)"
proof -
  let ?v = "visits(sid \<mapsto> \<lparr>pv_since = since, pv_last = now\<rparr>)"
  have "reminders sid since (now # ts) visits = now # reminders sid since ts ?v"
    using assms by (simp add: Permission_Observe_def split: option.splits)
  with reminders_known [of ?v sid since now ts] show ?thesis by simp
qed

section \<open>What the observer may change\<close>

lemma settle_exit_keeps:
  assumes "settle_exit I (s, cur) = ((s', cur'), cm)"
  shows "ms_State s' = ms_State s" "session_inv s' \<longleftrightarrow> session_inv s" "ms_ClaudeSessionID s' = ms_ClaudeSessionID s"
    "ms_RestartCount s' = ms_RestartCount s" "ms_StopReason s' = ms_StopReason s" "ms_RestartTimes s' = ms_RestartTimes s"
proof -
  have "ms_State s' = ms_State s \<and> ms_StopReason s' = ms_StopReason s \<and> ms_StopScope s' = ms_StopScope s \<and> ms_ExitReason s' = ms_ExitReason s
     \<and> ms_ClaudeSessionID s' = ms_ClaudeSessionID s \<and> ms_RestartCount s' = ms_RestartCount s
     \<and> ms_RestartTimes s' = ms_RestartTimes s"
    using assms
    by (auto simp: settle_exit_def observeExit_def decideExit_def cr_proof_def applySendConfirmation_def
        split: option.splits if_splits)
  then show "ms_State s' = ms_State s" "session_inv s' \<longleftrightarrow> session_inv s" "ms_ClaudeSessionID s' = ms_ClaudeSessionID s"
    "ms_RestartCount s' = ms_RestartCount s" "ms_StopReason s' = ms_StopReason s" "ms_RestartTimes s' = ms_RestartTimes s"
    by (simp_all add: session_inv_def)
qed

lemma forget_child_simps [simp]:
  "session_inv (forget_child s) \<longleftrightarrow> session_inv s" "ms_State (forget_child s) = ms_State s" "ms_ChildPID (forget_child s) = 0"
  "ms_StopReason (forget_child s) = ms_StopReason s" "ms_RestartCount (forget_child s) = ms_RestartCount s"
  "ms_RestartTimes (forget_child s) = ms_RestartTimes s" "ms_ClaudeSessionID (forget_child s) = ms_ClaudeSessionID s"
  by (simp_all add: forget_child_def session_inv_def)

lemma disable_unsafe_keeps [simp]:
  "ms_State (fst (disable_unsafe result s)) = ms_State s" "session_inv (fst (disable_unsafe result s)) \<longleftrightarrow> session_inv s"
  "ms_StopReason (fst (disable_unsafe result s)) = ms_StopReason s"
  by (simp_all add: disable_unsafe_def session_inv_def)

lemma Apply_stopped_stays:
  assumes "Apply event c now s = (s', r)" and "ms_State s = SessionStopped" and "event = EventUnexpectedExit \<or> event = EventHandoffExit"
  shows "ms_State s' = SessionStopped \<and> ms_StopReason s' = ms_StopReason s"
  using assms(1)
proof (cases rule: Apply_cases)
  case (allowed to)
  have "to = SessionStopped" using allowed(2) assms(2,3) by (auto simp: Transition_def)
  then show ?thesis using allowed(4) assms(2,3) enter_state_same [of s now] by (auto simp: record_event_effect_StopReason record_event_effect_def)
qed (use assms(2,3) in auto)

lemma enter_state_ChildPID [simp]:
  "ms_ChildPID (enter_state to now s) = ms_ChildPID s" "ms_SendGate (enter_state to now s) = ms_SendGate s"
  by (simp_all add: enter_state_def reach_stopped_def reach_exited_def leave_stopped_def change_state_def Let_def)

lemma record_event_effect_ChildPID [simp]:
  "ms_ChildPID (record_event_effect previous event c to s) = ms_ChildPID s"
  "ms_SendGate (record_event_effect previous event c to s) = ms_SendGate s"
  by (cases event; simp add: record_event_effect_def record_stop_def record_stop_scope_def)+

lemma Apply_ChildPID:
  assumes "Apply event c now s = (s', r)"
  shows "ms_ChildPID s' = ms_ChildPID s \<and> ms_SendGate s' = ms_SendGate s"
  using assms by (cases rule: Apply_cases) simp_all

lemma classify_exit_sound:
  assumes "classify_exit I s = (s', moved)" and "ms_ChildPID s = 0"
  shows "session_inv s \<Longrightarrow> session_inv s'" and "ms_State s' = (case moved of None \<Rightarrow> ms_State s | Some st \<Rightarrow> st)" and "ms_ChildPID s' = 0"
    and "ms_State s = SessionStopped \<Longrightarrow> ms_State s' = SessionStopped \<and> ms_StopReason s' = ms_StopReason s"
    and "ms_State s' = SessionRecovering \<Longrightarrow> ms_State s \<noteq> SessionRecovering \<Longrightarrow>
       valueOrZero (ob_exitCode I) \<noteq> 0 \<and> sg_Pending (ms_SendGate s') = None \<and> ms_ClaudeSessionID s \<noteq> '''' \<and> ms_RestartCount s < 3
       \<and> RestartCountInWindow (ms_RestartTimes s) (ob_now I 1) < 10"
proof -
  let ?event = "if ms_State s = SessionRotating then EventHandoffExit else EventUnexpectedExit"
  obtain r where a: "Apply ?event (exit_context I s) (ob_now I 2) s = (s', r)" and m: "moved = (if r = None \<and> ms_State s \<noteq> ms_State s' then Some (ms_State s') else None)"
    using assms(1) by (auto simp: classify_exit_def split: prod.splits)
  show "session_inv s \<Longrightarrow> session_inv s'" by (rule Apply_preserves_inv [OF _ a])
  have err: "r \<noteq> None \<Longrightarrow> ms_State s' = ms_State s" using a by (cases rule: Apply_cases) auto
  show "ms_State s' = (case moved of None \<Rightarrow> ms_State s | Some st \<Rightarrow> st)" using m err by auto
  show "ms_State s = SessionStopped \<Longrightarrow> ms_State s' = SessionStopped \<and> ms_StopReason s' = ms_StopReason s"
    using Apply_stopped_stays [OF a] by auto
  show "ms_State s' = SessionRecovering \<Longrightarrow> ms_State s \<noteq> SessionRecovering \<Longrightarrow>
       valueOrZero (ob_exitCode I) \<noteq> 0 \<and> sg_Pending (ms_SendGate s') = None \<and> ms_ClaudeSessionID s \<noteq> '''' \<and> ms_RestartCount s < 3
       \<and> RestartCountInWindow (ms_RestartTimes s) (ob_now I 1) < 10"
    using recovery_entered_only_when_safe [OF a] Apply_ChildPID [OF a] by (simp add: exit_context_def RestartMaxCount_def RestartMaxPerDay_def)
  show "ms_ChildPID s' = 0" using Apply_ChildPID [OF a] assms(2) by simp
qed

text \<open>A detector event or a startup timeout never starts a recovery.\<close>

lemma Apply_not_recovering:
  assumes "Apply event c now s = (s', r)" and "event \<noteq> EventUnexpectedExit" and "ms_State s' = SessionRecovering"
  shows "ms_State s = SessionRecovering"
  using recovery_entered_only_when_safe [OF assms(1,3)] assms(2) by blast

lemma apply_detected_sound:
  assumes "apply_detected I s = (s', moved, illegal)"
  shows "session_inv s \<Longrightarrow> session_inv s'" and "ms_State s' = (case moved of None \<Rightarrow> ms_State s | Some st \<Rightarrow> st)"
    and "ms_State s' = SessionRecovering \<Longrightarrow> ms_State s = SessionRecovering"
proof -
  let ?seen = "observed_session_state (dr_State (ob_result I))"
  consider (idle) "s' = s" "moved = None"
    | (event) event r where "detector_event ?seen = Some event"
        "Apply event (default_context\<lparr>tc_Generation := ms_Generation s, tc_ChildPID := ms_ChildPID s, tc_ObservedState := ?seen\<rparr>) (ob_now I 1) s = (s', r)"
        "moved = (if r = None \<and> ms_State s \<noteq> ms_State s' then Some (ms_State s') else None)"
    using assms by (auto simp: apply_detected_def Let_def split: if_splits option.splits prod.splits)
  then have "(session_inv s \<longrightarrow> session_inv s') \<and> ms_State s' = (case moved of None \<Rightarrow> ms_State s | Some st \<Rightarrow> st)
      \<and> (ms_State s' = SessionRecovering \<longrightarrow> ms_State s = SessionRecovering)"
  proof cases
    case idle
    then show ?thesis by simp
  next
    case (event e r)
    have "e \<noteq> EventUnexpectedExit" using event(1) by (cases ?seen) auto
    moreover have "r \<noteq> None \<Longrightarrow> ms_State s' = ms_State s" using event(2) by (cases rule: Apply_cases) auto
    ultimately show ?thesis using Apply_not_recovering [OF event(2)] Apply_preserves_inv [OF _ event(2)] event(3) by auto
  qed
  then show "session_inv s \<Longrightarrow> session_inv s'" "ms_State s' = (case moved of None \<Rightarrow> ms_State s | Some st \<Rightarrow> st)"
    "ms_State s' = SessionRecovering \<Longrightarrow> ms_State s = SessionRecovering" by auto
qed

lemma check_startup_sound:
  assumes "check_startup I s = (s', expired, err)"
  shows "session_inv s \<Longrightarrow> session_inv s'" and "ms_State s' = (case expired of None \<Rightarrow> ms_State s | Some st \<Rightarrow> st)"
    and "ms_State s' = SessionRecovering \<Longrightarrow> ms_State s = SessionRecovering"
proof -
  let ?c = "default_context\<lparr>tc_Generation := ms_Generation s\<rparr>"
  obtain t r where a: "Apply EventStartupTimeout ?c (ob_now I 3) s = (t, r)" by (metis prod.exhaust)
  have e: "r \<noteq> None \<Longrightarrow> ms_State t = ms_State s" using a by (cases rule: Apply_cases) auto
  have "(session_inv s \<longrightarrow> session_inv s') \<and> ms_State s' = (case expired of None \<Rightarrow> ms_State s | Some st \<Rightarrow> st)
      \<and> (ms_State s' = SessionRecovering \<longrightarrow> ms_State s = SessionRecovering)"
  proof (cases "startup_overdue I s")
    case True
    then show ?thesis
      using assms a e Apply_not_recovering [OF a] Apply_preserves_inv [OF _ a] by (cases r) (auto simp: check_startup_def)
  next
    case False
    then show ?thesis using assms by (auto simp: check_startup_def)
  qed
  then show "session_inv s \<Longrightarrow> session_inv s'" "ms_State s' = (case expired of None \<Rightarrow> ms_State s | Some st \<Rightarrow> st)"
    "ms_State s' = SessionRecovering \<Longrightarrow> ms_State s = SessionRecovering" by auto
qed

text \<open>
  C35: what one round of the observer does to a session. The session stays consistent, and the reported change of state is the
  one that happened. A stopped session stays stopped for the same reason, and while a stop is in force and the child runs, the state is kept.
  A session whose child exited has no child any more. It enters recovery only when the child exited with a failure, no send is
  in flight, a Claude session can be resumed and both restart limits leave room.
\<close>

theorem observer_round_sound:
  assumes "updateObserved I (s, cur) = ((s', cur'), cm, change, err)"
  shows "(session_inv s \<longrightarrow> session_inv s') \<and> oc_from change = ms_State s
    \<and> ms_State s' = (case oc_next change of None \<Rightarrow> ms_State s | Some st \<Rightarrow> st)
    \<and> (ms_State s = SessionStopped \<longrightarrow> ms_State s' = SessionStopped \<and> ms_StopReason s' = ms_StopReason s)
    \<and> (ob_stoppedByControl I \<and> \<not> ob_exited I \<longrightarrow> ms_State s' = ms_State s)
    \<and> (ob_exited I \<longrightarrow> ms_ChildPID s' = 0)
    \<and> (ms_State s' = SessionRecovering \<and> ms_State s \<noteq> SessionRecovering \<longrightarrow>
         ob_exited I \<and> valueOrZero (ob_exitCode I) \<noteq> 0 \<and> sg_Pending (ms_SendGate s') = None \<and> ms_ClaudeSessionID s \<noteq> ''''
         \<and> ms_RestartCount s < 3 \<and> RestartCountInWindow (ms_RestartTimes s) (ob_now I 1) < 10)"
proof -
  obtain s0 unsafe where d: "disable_unsafe (ob_result I) s = (s0, unsafe)" by (metis prod.exhaust)
  have k: "ms_State s0 = ms_State s" "session_inv s0 \<longleftrightarrow> session_inv s" "ms_StopReason s0 = ms_StopReason s"
    "ms_RestartCount s0 = ms_RestartCount s" "ms_ClaudeSessionID s0 = ms_ClaudeSessionID s" "ms_RestartTimes s0 = ms_RestartTimes s"
    using disable_unsafe_keeps [of "ob_result I" s] d by (auto simp: disable_unsafe_def split: if_splits)
  consider (exited) "ob_exited I" | (stopped) "\<not> ob_exited I" "ob_stoppedByControl I \<or> ms_State s0 = SessionStopped"
    | (running) "\<not> ob_exited I" "\<not> ob_stoppedByControl I" "ms_State s0 \<noteq> SessionStopped" by blast
  then show ?thesis
  proof cases
    case exited
    obtain s1 cur1 cm1 where e: "settle_exit I (s0, cur) = ((s1, cur1), cm1)" by (metis prod.exhaust)
    obtain s2 moved where c: "classify_exit I (forget_child s1) = (s2, moved)" by (metis prod.exhaust)
    have r: "s' = s2" "oc_next change = moved" "oc_from change = ms_State s" using assms d e c exited by (auto simp: updateObserved_def Let_def)
    have f: "ms_State (forget_child s1) = ms_State s" "session_inv (forget_child s1) \<longleftrightarrow> session_inv s" "ms_ChildPID (forget_child s1) = 0"
      "ms_StopReason (forget_child s1) = ms_StopReason s" "ms_RestartCount (forget_child s1) = ms_RestartCount s"
      "ms_ClaudeSessionID (forget_child s1) = ms_ClaudeSessionID s" "ms_RestartTimes (forget_child s1) = ms_RestartTimes s"
      using settle_exit_keeps [OF e] k by simp_all
    note cl = classify_exit_sound [OF c f(3), unfolded f]
    show ?thesis using cl exited by (simp add: r)
  next
    case stopped
    then show ?thesis using assms d k by (auto simp: updateObserved_def Let_def)
  next
    case running
    obtain s1 moved illegal where a: "apply_detected I s0 = (s1, moved, illegal)" by (metis prod.exhaust)
    obtain s2 expired e where c: "check_startup I s1 = (s2, expired, e)" by (metis prod.exhaust)
    have r: "s' = s2" "oc_next change = (if expired = None then moved else expired)" "oc_from change = ms_State s"
      using assms d a c running by (auto simp: updateObserved_def Let_def)
    show ?thesis
      using running k(1,2) apply_detected_sound [OF a] check_startup_sound [OF c] by (auto simp: r split: option.splits)
  qed
qed

definition crash_observation :: observation where
  "crash_observation = \<lparr>ob_exited = True, ob_exitCode = Some 1,
     ob_result = \<lparr>dr_State = StateExited, dr_Basis = [BasisProcessExit], dr_ProcessingIndicator = False, dr_ContextPercent = None, dr_SessionID = '''',
       dr_PermissionMode = PermissionDefaultOrUnknown\<rparr>,
     ob_stoppedByControl = False, ob_started = 1, ob_startupTimeout = 120 * go_second, ob_sends = True, ob_owner = Some 1, ob_now = (\<lambda>k. 2000 + int k)\<rparr>"

definition working_session :: managed_session where
  "working_session = fresh_session\<lparr>ms_State := SessionWorking, ms_ChildPID := 42, ms_ClaudeSessionID := ''01234567-89ab-cdef-0123-456789abcdef''\<rparr>"

theorem observer_round_sound_witness:
  "session_inv (fst (fst (updateObserved crash_observation (working_session, None))))
   \<and> ms_State (fst (fst (updateObserved crash_observation (working_session, None)))) = SessionRecovering
   \<and> ms_RestartCount working_session < 3"
proof -
  obtain s' cur' cm change err where r: "updateObserved crash_observation (working_session, None) = ((s', cur'), cm, change, err)" by (metis prod.exhaust)
  have i: "session_inv working_session" by code_simp
  have w: "ms_State (fst (fst (updateObserved crash_observation (working_session, None)))) = SessionRecovering" by code_simp
  have n: "ms_State working_session \<noteq> SessionRecovering" by code_simp
  from observer_round_sound [OF r] i n w show ?thesis unfolding r by simp
qed

text \<open>The statusline decides about the Claude session only when it is fresh: a learned identifier is well formed and not older than the child.\<close>

lemma structured_input_fresh:
  assumes "structured_input s now file = (info, unknown)" and "unknown \<noteq> '''' \<or> (\<exists>i. info = Some i \<and> si_SessionID i \<noteq> '''')"
  shows "\<exists>r. file = Some r \<and> claudeSessionIDPattern (sl_ClaudeSessionID r) \<and> child_started s \<le> sl_ObservedAt r \<and> sl_ObservedAt r \<le> now + 5 * go_second
     \<and> (case sg_LastConfirmedAt (ms_SendGate s) of None \<Rightarrow> True | Some t \<Rightarrow> t \<le> sl_ObservedAt r)"
  using assms
  by (auto simp: structured_input_def readStatusline_def statuslineIsFresh_def Let_def not_less split: option.splits if_splits)

text \<open>The counter of restarts is reset only for a child that has been running for the stable duration.\<close>

lemma reset_only_when_stable:
  assumes "resetStableRestartCount E k loaded now s = (s', err)" and "s' \<noteq> s" and "s' \<noteq> su_others E k s"
  shows "ms_RestartCount s' = 0 \<and> ms_Generation loaded \<ge> 2 \<and> (\<exists>t. ms_ChildStartedAt loaded = Some t \<and> RestartStable t now)"
proof -
  obtain v a effs e where u: "sup_update E k (reset_update loaded now) () s = (v, a, effs, e)" by (metis prod.exhaust)
  have g: "ms_Generation loaded \<ge> 2 \<and> (\<exists>t. ms_ChildStartedAt loaded = Some t \<and> RestartStable t now) \<and> s' = v"
    using assms(1,2) u by (auto simp: resetStableRestartCount_def split: if_splits option.splits)
  from u have "ms_RestartCount v = 0"
  proof (cases rule: sup_update_cases)
    case kept
    with g assms(3) show ?thesis by simp
  next
    case saved
    with g assms(3) show ?thesis by (auto simp: reset_update_def split: if_splits)
  qed
  with g show ?thesis by simp
qed

end
