(* ===== verification/Auto_Continue.thy ===== *)
theory Auto_Continue
  imports Operator_Text Session_Restart
begin

text \<open>
  The automatic continuation of a recommendation: \<^verbatim>\<open>src/internal/supervisor/usecase/auto_continue.go\<close>. When a session waits with a
  recommendation on its screen, the supervisor may answer with its fixed text, at most five times in a row, never twice for the same
  recommendation, and never for a forbidden one. The state of one session is kept in memory under a mutex; an evaluation reads it,
  decides, sends and counts, with other threads in between. The operations are functions, and their interleavings are the step relation
  \<open>auto_step\<close>. The digest SHA-256 is a parameter; the body of a recommendation is the list of its runes, which come from the terminal and
  are valid.
\<close>

section \<open>State\<close>

definition autoContinueMaxConsecutive :: int where
  "autoContinueMaxConsecutive = 5"

record auto_input =
  ai_Rows :: "row list"
  ai_ContextPercent :: "int option"
  ai_RequireSettle :: bool
  ai_Settled :: bool
  ai_StaySince :: go_time

record auto_state =
  as_hash :: string
  as_hasHash :: bool
  as_count :: int
  as_issuedAt :: go_time
  as_eligibleSince :: go_time
  as_resetAt :: go_time
  as_generation :: "64 word"

definition zero_auto :: auto_state where
  "zero_auto = \<lparr>as_hash = '''', as_hasHash = False, as_count = 0, as_issuedAt = 0, as_eligibleSince = 0, as_resetAt = 0, as_generation = 0\<rparr>"

text \<open>The entry of one session in the map, and whether the map exists; while it does not, the entry reads as zero.\<close>

record auto_entry =
  ae_made :: bool
  ae_state :: auto_state

definition ClearCandidate :: "auto_entry \<Rightarrow> auto_entry" where
  "ClearCandidate e = (if \<not> ae_made e then e else e\<lparr>ae_state := (ae_state e)\<lparr>as_eligibleSince := 0\<rparr>\<rparr>)"

definition reset_candidate :: "auto_state \<Rightarrow> auto_state" where
  "reset_candidate s =
     (if \<not> is_zero_time (as_issuedAt s) \<and> \<not> as_eligibleSince s > as_issuedAt s then s\<lparr>as_eligibleSince := 0\<rparr> else s)"

definition Reset_auto :: "go_time \<Rightarrow> auto_entry \<Rightarrow> auto_entry" where
  "Reset_auto now e =
     (if \<not> ae_made e then e
      else e\<lparr>ae_state := (reset_candidate ((ae_state e)\<lparr>as_count := 0\<rparr>))\<lparr>as_resetAt := now, as_generation := as_generation (ae_state e) + 1\<rparr>\<rparr>)"

definition RecordIssued :: "string \<Rightarrow> go_time \<Rightarrow> auto_entry \<Rightarrow> auto_entry" where
  "RecordIssued h at e =
     (let s = ae_state e; e = e\<lparr>ae_made := True\<rparr>
      in if at < as_resetAt s then e else e\<lparr>ae_state := s\<lparr>as_hash := h, as_hasHash := True, as_issuedAt := at\<rparr>\<rparr>)"

definition entered :: "go_time \<Rightarrow> auto_entry \<Rightarrow> auto_entry" where
  "entered since e =
     (let s = ae_state e
      in e\<lparr>ae_made := True, ae_state := (if since > as_eligibleSince s then s\<lparr>as_eligibleSince := since\<rparr> else s)\<rparr>)"

definition incrementIfGeneration :: "64 word \<Rightarrow> auto_entry \<Rightarrow> auto_entry" where
  "incrementIfGeneration g e =
     (if as_generation (ae_state e) \<noteq> g then e
      else e\<lparr>ae_made := True, ae_state := (ae_state e)\<lparr>as_count := as_count (ae_state e) + 1\<rparr>\<rparr>)"

section \<open>The decision\<close>

datatype auto_verdict =
    NothingToDo
  | Block string stop_reason string
  | Continue_with string

fun category_name :: "category \<Rightarrow> string" where
  "category_name CategoryForcePush = ''force_push''"
| "category_name CategoryPullRequest = ''pull_request''"
| "category_name CategoryDeploy = ''deploy''"
| "category_name CategoryDeletion = ''deletion''"
| "category_name CategoryProduction = ''production''"
| "category_name CategoryBilling = ''billing''"
| "category_name CategoryGitHistory = ''git_history''"
| "category_name CategoryMigration = ''migration''"
| "category_name CategoryPrivilege = ''privilege''"

definition undetermined :: auto_verdict where
  "undetermined = Block ''undetermined'' StopRecommendationUndetermined ''SUP_RECOMMENDATION_UNDETERMINED''"

text \<open>The conditions on the session and the input, before the screen is read.\<close>

definition may_continue :: "bool \<Rightarrow> auto_input \<Rightarrow> managed_session \<Rightarrow> auto_state \<Rightarrow> bool" where
  "may_continue is_stopped i s st \<longleftrightarrow>
     ms_State s = SessionAwaitingRecommendation
     \<and> (is_zero_time (ai_StaySince i) \<or> ai_StaySince i = ms_StateSince s)
     \<and> \<not> is_stopped
     \<and> (ms_StopScope s = StopScopeNone \<or> ms_StopScope s = StopScopeOther '''')
     \<and> (case ai_ContextPercent i of None \<Rightarrow> False | Some p \<Rightarrow> p \<le> 60)
     \<and> (ms_GitPhase s = ''none'' \<or> ms_GitPhase s = '''') \<and> ms_AutoContinueDisabledReason s = '''' \<and> ms_Rotation s = None
     \<and> (ai_RequireSettle i \<longrightarrow> ai_Settled i)
     \<and> \<not> is_zero_time (as_eligibleSince st) \<and> as_eligibleSince st > as_issuedAt st"

text \<open>\<open>evaluate\<close> up to the send.\<close>

definition judge :: "unicode \<Rightarrow> (row \<Rightarrow> string) \<Rightarrow> auto_state \<Rightarrow> row \<Rightarrow> auto_verdict" where
  "judge uc sha st body =
     (let h = sha (NormalizeRecommendationForHash uc body)
      in if as_hasHash st \<and> h = as_hash st then Block ''repeated'' StopRecommendationRepeated ''SUP_RECOMMENDATION_REPEATED''
         else case Classify_runes uc body of (categories, unknown) \<Rightarrow>
           if unknown then undetermined
           else if categories \<noteq> [] then Block (category_name (hd categories)) StopRecommendationForbidden ''SUP_RECOMMENDATION_FORBIDDEN''
           else if as_count st \<ge> autoContinueMaxConsecutive
             then Block ''consecutive_limit'' StopAutoContinueLimit ''SUP_AUTO_CONTINUE_LIMIT_REACHED''
           else Continue_with h)"

definition decide :: "unicode \<Rightarrow> (row \<Rightarrow> string) \<Rightarrow> extractor \<Rightarrow> bool \<Rightarrow> auto_input \<Rightarrow> managed_session \<Rightarrow> auto_state
    \<Rightarrow> auto_verdict outcome" where
  "decide uc sha ex is_stopped i s st =
     (if \<not> may_continue is_stopped i s st then Done NothingToDo
      else and_then (Extract ex (ai_Rows i)) (\<lambda>(body, ok).
        Done (if \<not> ok then undetermined else judge uc sha st body)))"

text \<open>\<open>block\<close>: the session is stopped when it still is in the same stay.\<close>

definition block_update :: "go_time \<Rightarrow> stop_reason \<Rightarrow> go_time \<Rightarrow> managed_session \<Rightarrow> managed_session \<times> bool \<times> restart_error option" where
  "block_update since stop now s =
     (if ms_State s = SessionAwaitingRecommendation \<and> ms_StateSince s = since
      then (case Apply EventStop (stop_context stop) now (s\<lparr>ms_PreviousState := ms_State s\<rparr>) of
          (s', Some e) \<Rightarrow> (s', False, Some (RestartIllegal e))
        | (s', None) \<Rightarrow> (s', True, None))
      else (s, False, None))"

definition block_session :: "sup_env \<Rightarrow> nat \<Rightarrow> go_time \<Rightarrow> stop_reason \<Rightarrow> managed_session \<Rightarrow> managed_session \<times> bool \<times> restart_error option" where
  "block_session E k since stop s =
     (case sup_update E k (block_update since stop (su_now E k)) False s of (s, blocked, _, err) \<Rightarrow> (s, blocked \<and> err = None, err))"

section \<open>Interleavings\<close>

text \<open>
  A run for one session. An evaluation goes through phases: it has been admitted, it has decided to continue (with the number of
  effective resets so far, the generation it read, the digest and the input), it is sending (and whether the send has been issued), or it is done. The log
  holds the sends that began, the recommendations that were issued, each with whether \<open>RecordIssued\<close> recorded it (an issue older than the
  last reset is dropped), and the confirmed sends, each with the number of resets before its decision and before its confirmation.
\<close>

datatype auto_phase =
    Evaluating auto_input
  | Chosen nat "64 word" string auto_input
  | Sending nat "64 word" string bool
  | EvaluationDone

datatype auto_fact = SendBegun string auto_input | RecommendationIssued string bool | SendConfirmed nat nat

record auto_run =
  au_entry :: auto_entry
  au_inflight :: bool
  au_pending :: "auto_input option"
  au_phase :: "auto_phase option"
  au_resets :: nat
  au_log :: "auto_fact list"

definition begin_request :: "auto_input \<Rightarrow> auto_run \<Rightarrow> auto_run \<times> bool" where
  "begin_request i r = (if au_inflight r then (r\<lparr>au_pending := Some i\<rparr>, False) else (r\<lparr>au_inflight := True\<rparr>, True))"

definition next_request :: "auto_run \<Rightarrow> auto_run \<times> auto_input option" where
  "next_request r =
     (case au_pending r of
        Some i \<Rightarrow> (r\<lparr>au_pending := None\<rparr>, Some i)
      | None \<Rightarrow> (r\<lparr>au_inflight := False\<rparr>, None))"

definition log_issue :: "string \<Rightarrow> go_time \<Rightarrow> auto_run \<Rightarrow> auto_fact list" where
  "log_issue h at r = au_log r @ [RecommendationIssued h (\<not> at < as_resetAt (ae_state (au_entry r)))]"

inductive auto_step :: "unicode \<Rightarrow> (row \<Rightarrow> string) \<Rightarrow> extractor \<Rightarrow> auto_run \<Rightarrow> auto_run \<Rightarrow> bool" for uc sha ex where
  admit: "begin_request i r = (r', True) \<Longrightarrow> auto_step uc sha ex r (r'\<lparr>au_phase := Some (Evaluating i)\<rparr>)"
| queue: "begin_request i r = (r', False) \<Longrightarrow> auto_step uc sha ex r r'"
| give_up: "au_phase r = Some (Evaluating i) \<Longrightarrow> auto_step uc sha ex r (r\<lparr>au_phase := Some EvaluationDone\<rparr>)"
| choose: "au_phase r = Some (Evaluating i) \<Longrightarrow> decide uc sha ex is_stopped i s (ae_state (au_entry r)) = Done (Continue_with h) \<Longrightarrow>
    auto_step uc sha ex r (r\<lparr>au_phase := Some (Chosen (au_resets r) (as_generation (ae_state (au_entry r))) h i)\<rparr>)"
| outdated: "au_phase r = Some (Chosen n g h i) \<Longrightarrow> as_generation (ae_state (au_entry r)) \<noteq> g \<Longrightarrow>
    auto_step uc sha ex r (r\<lparr>au_phase := Some EvaluationDone\<rparr>)"
| send: "au_phase r = Some (Chosen n g h i) \<Longrightarrow> as_generation (ae_state (au_entry r)) = g \<Longrightarrow>
    auto_step uc sha ex r (r\<lparr>au_phase := Some (Sending n g h False), au_log := au_log r @ [SendBegun h i]\<rparr>)"
| issue: "au_phase r = Some (Sending n g h False) \<Longrightarrow>
    auto_step uc sha ex r (r\<lparr>au_phase := Some (Sending n g h True), au_entry := RecordIssued h at (au_entry r), au_log := log_issue h at r\<rparr>)"
| confirmed: "au_phase r = Some (Sending n g h True) \<Longrightarrow>
    auto_step uc sha ex r (r\<lparr>au_phase := Some EvaluationDone, au_entry := incrementIfGeneration g (au_entry r),
      au_log := au_log r @ [SendConfirmed n (au_resets r)]\<rparr>)"
| not_confirmed: "au_phase r = Some (Sending n g h b) \<Longrightarrow> auto_step uc sha ex r (r\<lparr>au_phase := Some EvaluationDone\<rparr>)"
| again: "au_phase r = Some EvaluationDone \<Longrightarrow> next_request r = (r', Some i) \<Longrightarrow> auto_step uc sha ex r (r'\<lparr>au_phase := Some (Evaluating i)\<rparr>)"
| finish: "au_phase r = Some EvaluationDone \<Longrightarrow> next_request r = (r', None) \<Longrightarrow> auto_step uc sha ex r (r'\<lparr>au_phase := None\<rparr>)"
| reset: "auto_step uc sha ex r (r\<lparr>au_entry := Reset_auto now (au_entry r), au_resets := au_resets r + (if ae_made (au_entry r) then 1 else 0)\<rparr>)"
| enter: "auto_step uc sha ex r (r\<lparr>au_entry := entered since (au_entry r)\<rparr>)"
| clear: "auto_step uc sha ex r (r\<lparr>au_entry := ClearCandidate (au_entry r)\<rparr>)"
| other_session: "auto_step uc sha ex r (r\<lparr>au_entry := (au_entry r)\<lparr>ae_made := True\<rparr>\<rparr>)"

inductive auto_reach :: "unicode \<Rightarrow> (row \<Rightarrow> string) \<Rightarrow> extractor \<Rightarrow> auto_run \<Rightarrow> bool" for uc sha ex where
  initially: "auto_reach uc sha ex \<lparr>au_entry = \<lparr>ae_made = False, ae_state = zero_auto\<rparr>, au_inflight = False, au_pending = None, au_phase = None,
     au_resets = 0, au_log = []\<rparr>"
| step: "auto_reach uc sha ex r \<Longrightarrow> auto_step uc sha ex r r' \<Longrightarrow> auto_reach uc sha ex r'"

text \<open>
  Confirmed sends that were decided after the \<open>n\<close>-th reset, and those that were confirmed after the \<open>m\<close>-th reset; a send is
  late when a reset came between its decision and its confirmation.
\<close>

fun decided_at :: "nat \<Rightarrow> auto_fact \<Rightarrow> bool" where
  "decided_at n (SendConfirmed k m) \<longleftrightarrow> k = n"
| "decided_at n _ \<longleftrightarrow> False"

fun confirmed_at :: "nat \<Rightarrow> auto_fact \<Rightarrow> bool" where
  "confirmed_at m (SendConfirmed k j) \<longleftrightarrow> j = m"
| "confirmed_at m _ \<longleftrightarrow> False"

fun late_at :: "nat \<Rightarrow> auto_fact \<Rightarrow> bool" where
  "late_at m (SendConfirmed k j) \<longleftrightarrow> j = m \<and> k < m"
| "late_at m _ \<longleftrightarrow> False"

definition decided_in :: "nat \<Rightarrow> auto_fact list \<Rightarrow> nat" where
  "decided_in n log = length (filter (decided_at n) log)"

definition confirmed_in :: "nat \<Rightarrow> auto_fact list \<Rightarrow> nat" where
  "confirmed_in m log = length (filter (confirmed_at m) log)"

definition late_in :: "nat \<Rightarrow> auto_fact list \<Rightarrow> nat" where
  "late_in m log = length (filter (late_at m) log)"

fun issued_of :: "auto_fact list \<Rightarrow> (string \<times> bool) list" where
  "issued_of [] = []"
| "issued_of (RecommendationIssued h b # log) = (h, b) # issued_of log"
| "issued_of (_ # log) = issued_of log"

text \<open>No recommendation is issued that equals the last one before it whose issue was recorded (\<open>prev\<close> at the start).\<close>

fun issues_fresh :: "string option \<Rightarrow> (string \<times> bool) list \<Rightarrow> bool" where
  "issues_fresh prev [] \<longleftrightarrow> True"
| "issues_fresh prev ((h, b) # xs) \<longleftrightarrow> prev \<noteq> Some h \<and> issues_fresh (if b then Some h else prev) xs"

fun last_recorded :: "string option \<Rightarrow> (string \<times> bool) list \<Rightarrow> string option" where
  "last_recorded prev [] = prev"
| "last_recorded prev ((h, b) # xs) = last_recorded (if b then Some h else prev) xs"

text \<open>What a continued recommendation satisfies.\<close>

definition vetted :: "unicode \<Rightarrow> (row \<Rightarrow> string) \<Rightarrow> extractor \<Rightarrow> string \<Rightarrow> auto_input \<Rightarrow> bool" where
  "vetted uc sha ex h i \<longleftrightarrow>
     (\<exists>body. Extract ex (ai_Rows i) = Done (body, True) \<and> h = sha (NormalizeRecommendationForHash uc body) \<and> Classify_runes uc body = ([], False))
     \<and> (\<exists>p. ai_ContextPercent i = Some p \<and> p \<le> 60)"

lemma decide_continue:
  assumes "decide uc sha ex is_stopped i s st = Done (Continue_with h)"
  shows "vetted uc sha ex h i \<and> as_count st < 5 \<and> (as_hasHash st \<longrightarrow> as_hash st \<noteq> h) \<and> may_continue is_stopped i s st"
proof -
  have m: "may_continue is_stopped i s st" using assms by (auto simp: decide_def split: if_splits)
  obtain body ok where x: "Extract ex (ai_Rows i) = Done (body, ok)" and d: "(if \<not> ok then undetermined else judge uc sha st body) = Continue_with h"
    using assms m by (cases "Extract ex (ai_Rows i)") (auto simp: decide_def)
  have ok: "ok" and j: "judge uc sha st body = Continue_with h" using d by (auto simp: undetermined_def split: if_splits)
  obtain cs unknown where c: "Classify_runes uc body = (cs, unknown)" by (metis prod.exhaust)
  have "h = sha (NormalizeRecommendationForHash uc body) \<and> cs = [] \<and> \<not> unknown \<and> as_count st < 5 \<and> (as_hasHash st \<longrightarrow> as_hash st \<noteq> h)"
    using j c by (auto simp: judge_def undetermined_def Let_def autoContinueMaxConsecutive_def split: if_splits)
  with x ok c m show ?thesis by (auto simp: vetted_def may_continue_def split: option.splits)
qed

lemma fact_lists [simp]:
  "decided_in n [] = 0" "decided_in n (log @ [f]) = decided_in n log + (if decided_at n f then 1 else 0)"
  "late_in n [] = 0" "late_in n (log @ [f]) = late_in n log + (if late_at n f then 1 else 0)"
  by (simp_all add: decided_in_def late_in_def)

lemma issued_append [simp]: "issued_of (xs @ ys) = issued_of xs @ issued_of ys"
  by (induction xs rule: issued_of.induct) simp_all

lemma fresh_append [simp]:
  "issues_fresh prev (xs @ [(h, b)]) \<longleftrightarrow> issues_fresh prev xs \<and> last_recorded prev xs \<noteq> Some h"
  "last_recorded prev (xs @ [(h, b)]) = (if b then Some h else last_recorded prev xs)"
  by (induction xs arbitrary: prev) auto

lemma confirmed_split:
  assumes "\<forall>k j. SendConfirmed k j \<in> set log \<longrightarrow> k \<le> j"
  shows "confirmed_in m log \<le> decided_in m log + late_in m log"
  using assms
proof (induction log)
  case (Cons f log)
  have "confirmed_at m f \<Longrightarrow> decided_at m f \<or> late_at m f" using Cons.prems by (cases f) auto
  with Cons show ?case by (auto simp: confirmed_in_def decided_in_def late_in_def)
qed (simp add: confirmed_in_def)

lemma word_count_eq:
  assumes "n \<le> m" and "m < 2 ^ 64" and "(of_nat n :: 64 word) = of_nat m"
  shows "n = m"
proof -
  have "take_bit 64 n = take_bit 64 m" using assms(3) by (simp add: word_of_nat_eq_iff)
  moreover have "n < 2 ^ 64" using assms(1,2) by simp
  ultimately show ?thesis using assms(2) by (metis take_bit_nat_eq_self)
qed

definition fresh_for :: "string \<Rightarrow> auto_state \<Rightarrow> bool" where
  "fresh_for h st \<longleftrightarrow> (as_hasHash st \<longrightarrow> as_hash st \<noteq> h)"

fun phase_ok :: "unicode \<Rightarrow> (row \<Rightarrow> string) \<Rightarrow> extractor \<Rightarrow> nat \<Rightarrow> auto_fact list \<Rightarrow> auto_state \<Rightarrow> auto_phase option \<Rightarrow> bool" where
  "phase_ok uc sha ex resets log st (Some (Chosen n g h i)) \<longleftrightarrow>
     g = of_nat n \<and> n \<le> resets \<and> (n = resets \<longrightarrow> decided_in n log < 5) \<and> fresh_for h st \<and> vetted uc sha ex h i"
| "phase_ok uc sha ex resets log st (Some (Sending n g h b)) \<longleftrightarrow>
     g = of_nat n \<and> n \<le> resets \<and> decided_in n log < 5 \<and> (b \<or> fresh_for h st) \<and> (n < resets \<longrightarrow> late_in resets log = 0)"
| "phase_ok uc sha ex resets log st _ \<longleftrightarrow> True"

definition counts_ok :: "nat \<Rightarrow> auto_fact list \<Rightarrow> auto_state \<Rightarrow> bool" where
  "counts_ok resets log st \<longleftrightarrow>
     as_generation st = of_nat resets \<and> as_count st = int (decided_in resets log)
     \<and> (\<forall>n. decided_in n log \<le> 5) \<and> (\<forall>n > resets. decided_in n log = 0)
     \<and> (\<forall>m. late_in m log \<le> 1) \<and> (\<forall>m > resets. late_in m log = 0)
     \<and> (\<forall>k j. SendConfirmed k j \<in> set log \<longrightarrow> k \<le> j)"

definition issues_ok :: "auto_fact list \<Rightarrow> auto_state \<Rightarrow> bool" where
  "issues_ok log st \<longleftrightarrow>
     last_recorded None (issued_of log) = (if as_hasHash st then Some (as_hash st) else None) \<and> issues_fresh None (issued_of log)"

definition auto_inv :: "unicode \<Rightarrow> (row \<Rightarrow> string) \<Rightarrow> extractor \<Rightarrow> auto_run \<Rightarrow> bool" where
  "auto_inv uc sha ex r \<longleftrightarrow>
     counts_ok (au_resets r) (au_log r) (ae_state (au_entry r)) \<and> issues_ok (au_log r) (ae_state (au_entry r))
     \<and> (\<forall>h i. SendBegun h i \<in> set (au_log r) \<longrightarrow> vetted uc sha ex h i)
     \<and> (au_inflight r \<longleftrightarrow> au_phase r \<noteq> None)
     \<and> phase_ok uc sha ex (au_resets r) (au_log r) (ae_state (au_entry r)) (au_phase r)"

text \<open>What an operation keeps of the state: everything that the invariant reads.\<close>

lemma entry_operations [simp]:
  "as_generation (ae_state (entered t e)) = as_generation (ae_state e)" "as_count (ae_state (entered t e)) = as_count (ae_state e)"
  "as_hasHash (ae_state (entered t e)) = as_hasHash (ae_state e)" "as_hash (ae_state (entered t e)) = as_hash (ae_state e)"
  "as_generation (ae_state (ClearCandidate e)) = as_generation (ae_state e)" "as_count (ae_state (ClearCandidate e)) = as_count (ae_state e)"
  "as_hasHash (ae_state (ClearCandidate e)) = as_hasHash (ae_state e)" "as_hash (ae_state (ClearCandidate e)) = as_hash (ae_state e)"
  "as_hasHash (ae_state (Reset_auto t e)) = as_hasHash (ae_state e)" "as_hash (ae_state (Reset_auto t e)) = as_hash (ae_state e)"
  "as_hasHash (ae_state (incrementIfGeneration g e)) = as_hasHash (ae_state e)" "as_hash (ae_state (incrementIfGeneration g e)) = as_hash (ae_state e)"
  "as_generation (ae_state (incrementIfGeneration g e)) = as_generation (ae_state e)"
  "as_generation (ae_state (RecordIssued h t e)) = as_generation (ae_state e)" "as_count (ae_state (RecordIssued h t e)) = as_count (ae_state e)"
  by (simp_all add: entered_def ClearCandidate_def Reset_auto_def reset_candidate_def incrementIfGeneration_def RecordIssued_def Let_def)

lemma phase_ok_state:
  assumes "phase_ok uc sha ex resets log st p" and "as_hasHash st' = as_hasHash st" and "as_hash st' = as_hash st"
  shows "phase_ok uc sha ex resets log st' p"
  using assms by (cases "(uc, sha, ex, resets, log, st, p)" rule: phase_ok.cases) (auto simp: fresh_for_def)

lemma reset_inv:
  assumes "auto_inv uc sha ex r"
  shows "auto_inv uc sha ex (r\<lparr>au_entry := Reset_auto now (au_entry r), au_resets := au_resets r + (if ae_made (au_entry r) then 1 else 0)\<rparr>)"
proof (cases "ae_made (au_entry r)")
  case True
  let ?st = "ae_state (Reset_auto now (au_entry r))"
  have s: "as_generation ?st = as_generation (ae_state (au_entry r)) + 1" "as_count ?st = 0"
    using True by (simp_all add: Reset_auto_def reset_candidate_def)
  have c: "counts_ok (au_resets r + 1) (au_log r) ?st" using assms s by (simp add: auto_inv_def counts_ok_def)
  have late: "late_in (Suc (au_resets r)) (au_log r) = 0" using assms by (simp add: auto_inv_def counts_ok_def)
  have p: "phase_ok uc sha ex (au_resets r + 1) (au_log r) ?st (au_phase r)"
    using assms late by (cases "(uc, sha, ex, au_resets r, au_log r, ?st, au_phase r)" rule: phase_ok.cases) (auto simp: auto_inv_def fresh_for_def)
  show ?thesis using assms True c p by (simp add: auto_inv_def issues_ok_def)
next
  case False
  then have "Reset_auto now (au_entry r) = au_entry r" by (simp add: Reset_auto_def)
  with assms False show ?thesis by simp
qed

lemma confirmed_inv:
  assumes "auto_inv uc sha ex r" and "au_phase r = Some (Sending n g h True)" and "au_resets r < 2 ^ 64"
  shows "auto_inv uc sha ex (r\<lparr>au_phase := Some EvaluationDone, au_entry := incrementIfGeneration g (au_entry r),
      au_log := au_log r @ [SendConfirmed n (au_resets r)]\<rparr>)"
proof -
  have p: "g = of_nat n" "n \<le> au_resets r" "decided_in n (au_log r) < 5" "n < au_resets r \<longrightarrow> late_in (au_resets r) (au_log r) = 0" using assms(1,2) by (auto simp: auto_inv_def)
  have c: "counts_ok (au_resets r) (au_log r) (ae_state (au_entry r))" using assms(1) by (simp add: auto_inv_def)
  have eq: "as_generation (ae_state (au_entry r)) = g \<longleftrightarrow> n = au_resets r"
  proof
    assume "as_generation (ae_state (au_entry r)) = g"
    with c p(1) have "(of_nat n :: 64 word) = of_nat (au_resets r)" by (simp only: counts_ok_def)
    with word_count_eq [OF p(2) assms(3)] show "n = au_resets r" by blast
  next
    assume "n = au_resets r"
    with c p(1) show "as_generation (ae_state (au_entry r)) = g" by (simp only: counts_ok_def)
  qed
  have "as_count (ae_state (incrementIfGeneration g (au_entry r))) = as_count (ae_state (au_entry r)) + (if n = au_resets r then 1 else 0)"
    using eq by (simp add: incrementIfGeneration_def)
  then have "counts_ok (au_resets r) (au_log r @ [SendConfirmed n (au_resets r)]) (ae_state (incrementIfGeneration g (au_entry r)))"
    using c p(2-4) by (auto simp: counts_ok_def Suc_le_eq)
  then show ?thesis using assms(1,2) by (simp add: auto_inv_def issues_ok_def)
qed

lemma issue_inv:
  assumes "auto_inv uc sha ex r" and "au_phase r = Some (Sending n g h False)"
  shows "auto_inv uc sha ex (r\<lparr>au_phase := Some (Sending n g h True), au_entry := RecordIssued h at (au_entry r), au_log := log_issue h at r\<rparr>)"
proof -
  have p: "g = of_nat n" "n \<le> au_resets r" "decided_in n (au_log r) < 5" "fresh_for h (ae_state (au_entry r))" using assms by (auto simp: auto_inv_def)
  have conf: "decided_in m (log_issue h at r) = decided_in m (au_log r)" "late_in m (log_issue h at r) = late_in m (au_log r)" for m
    by (simp_all add: log_issue_def)
  have c: "counts_ok (au_resets r) (log_issue h at r) (ae_state (RecordIssued h at (au_entry r)))"
    using assms(1) by (auto simp: auto_inv_def counts_ok_def conf log_issue_def)
  have "issues_ok (log_issue h at r) (ae_state (RecordIssued h at (au_entry r)))"
    using assms(1) p(4) by (auto simp: auto_inv_def issues_ok_def log_issue_def RecordIssued_def fresh_for_def Let_def)
  moreover have "SendBegun h' i' \<in> set (log_issue h at r) \<Longrightarrow> SendBegun h' i' \<in> set (au_log r)" for h' i' by (auto simp: log_issue_def split: if_splits)
  ultimately show ?thesis using assms c p conf by (auto simp: auto_inv_def)
qed

lemma step_inv:
  assumes "auto_step uc sha ex r r'" and "au_resets r < 2 ^ 64" and "auto_inv uc sha ex r"
  shows "auto_inv uc sha ex r'"
  using assms(1)
proof cases
  case (admit i r1)
  then show ?thesis using assms(3) by (auto simp: begin_request_def auto_inv_def split: if_splits)
next
  case (queue i)
  then show ?thesis using assms(3) by (auto simp: begin_request_def auto_inv_def split: if_splits)
next
  case (choose i is_stopped s h)
  have "counts_ok (au_resets r) (au_log r) (ae_state (au_entry r))" using assms(3) by (simp add: auto_inv_def)
  with decide_continue [OF choose(3)] have "decided_in (au_resets r) (au_log r) < 5" "as_generation (ae_state (au_entry r)) = of_nat (au_resets r)"
    by (auto simp: counts_ok_def)
  then show ?thesis using choose(1,2) assms(3) decide_continue [OF choose(3)] by (simp add: auto_inv_def fresh_for_def)
next
  case (send n g h i)
  have "counts_ok (au_resets r) (au_log r) (ae_state (au_entry r))" using assms(3) by (simp add: auto_inv_def)
  then have c: "counts_ok (au_resets r) (au_log r @ [SendBegun h i]) (ae_state (au_entry r))" by (simp add: counts_ok_def)
  have p: "g = of_nat n" "n \<le> au_resets r" "n = au_resets r \<longrightarrow> decided_in n (au_log r) < 5" "fresh_for h (ae_state (au_entry r))" "vetted uc sha ex h i"
    using assms(3) send(2) by (auto simp: auto_inv_def)
  have "(of_nat n :: 64 word) = of_nat (au_resets r)" using send(3) p(1) c by (simp only: counts_ok_def)
  with word_count_eq [OF p(2) assms(2)] have "n = au_resets r" by blast
  then show ?thesis using send(1,2) assms(3) c p by (auto simp: auto_inv_def issues_ok_def)
next
  case (issue n g h at)
  then show ?thesis using issue_inv [OF assms(3)] by simp
next
  case (confirmed n g h)
  then show ?thesis using confirmed_inv [OF assms(3) _ assms(2)] by simp
next
  case (again r1 i)
  then show ?thesis using assms(3) by (auto simp: next_request_def auto_inv_def split: option.splits)
next
  case (finish r1)
  then show ?thesis using assms(3) by (auto simp: next_request_def auto_inv_def split: option.splits)
next
  case (reset now)
  then show ?thesis using reset_inv [OF assms(3)] by simp
next
  case (enter since)
  then show ?thesis using assms(3) phase_ok_state [of uc sha ex "au_resets r" "au_log r" "ae_state (au_entry r)" "au_phase r"]
    by (simp add: auto_inv_def counts_ok_def issues_ok_def)
next
  case clear
  then show ?thesis using assms(3) phase_ok_state [of uc sha ex "au_resets r" "au_log r" "ae_state (au_entry r)" "au_phase r"]
    by (simp add: auto_inv_def counts_ok_def issues_ok_def)
qed (use assms(3) in \<open>auto simp: auto_inv_def\<close>)

lemma step_resets: "auto_step uc sha ex r r' \<Longrightarrow> au_resets r \<le> au_resets r'"
  by (induction rule: auto_step.induct) (auto simp: begin_request_def next_request_def split: if_splits option.splits)

lemma reach_inv: "auto_reach uc sha ex r \<Longrightarrow> au_resets r < 2 ^ 64 \<Longrightarrow> auto_inv uc sha ex r"
proof (induction rule: auto_reach.induct)
  case initially
  then show ?case by (simp add: auto_inv_def counts_ok_def issues_ok_def zero_auto_def)
next
  case (step r r')
  then have "au_resets r < 2 ^ 64" using step_resets order.strict_trans1 by blast
  with step show ?case using step_inv by blast
qed

text \<open>
  C32: automatic continuation is bounded and vetted, during the life of one supervisor process, in every interleaving of evaluations,
  resets and observations. Of the continuations that are decided between two resets at most five are confirmed; between two
  resets at most six are confirmed, because at most one of them was decided before the first of the two resets and was in flight across it. No
  recommendation is issued again that equals the last one whose issue was recorded; an issue is not recorded when it is older
  than the last reset. A continuation begins only for a text that was extracted from the screen, belongs to no forbidden
  category and is not undetermined, at a known context use of at most 60 percent. The number of resets is below the range of the
  64-bit generation counter.
\<close>

theorem auto_continue_bounded:
  assumes "auto_reach uc sha ex r" and "au_resets r < 2 ^ 64"
  shows "decided_in n (au_log r) \<le> 5 \<and> late_in n (au_log r) \<le> 1 \<and> confirmed_in n (au_log r) \<le> 6
    \<and> issues_fresh None (issued_of (au_log r))
    \<and> (SendBegun h i \<in> set (au_log r) \<longrightarrow>
         (\<exists>body p. Extract ex (ai_Rows i) = Done (body, True) \<and> h = sha (NormalizeRecommendationForHash uc body)
            \<and> Classify_runes uc body = ([], False) \<and> ai_ContextPercent i = Some p \<and> p \<le> 60))"
proof -
  have inv: "auto_inv uc sha ex r" using reach_inv [OF assms] .
  then have c: "decided_in n (au_log r) \<le> 5" "late_in n (au_log r) \<le> 1" by (simp_all add: auto_inv_def counts_ok_def)
  have "confirmed_in n (au_log r) \<le> decided_in n (au_log r) + late_in n (au_log r)"
    by (rule confirmed_split) (use inv in \<open>simp add: auto_inv_def counts_ok_def\<close>)
  with c have "confirmed_in n (au_log r) \<le> 6" by linarith
  with c show ?thesis using inv by (auto simp: auto_inv_def issues_ok_def vetted_def)
qed

definition sample_extractor :: extractor where
  "sample_extractor = \<lparr>ex_PreviousInput = ascii ''b'', ex_RecommendationStart = ascii ''s'', ex_InputTop = ascii ''t'', ex_ObservedScreen = False\<rparr>"

definition sample_auto_input :: auto_input where
  "sample_auto_input = \<lparr>ai_Rows = [ascii ''b'', ascii ''s'', ascii ''go'', ascii ''t''], ai_ContextPercent = Some 20,
     ai_RequireSettle = True, ai_Settled = True, ai_StaySince = 7\<rparr>"

definition waiting_session :: managed_session where
  "waiting_session = fresh_session\<lparr>ms_State := SessionAwaitingRecommendation, ms_StateSince := 7\<rparr>"

definition sample_digest :: "row \<Rightarrow> string" where
  "sample_digest txt = map (\<lambda>r. char_of (nat r)) txt"

definition plain_tables :: unicode where
  "plain_tables = \<lparr>uc_Cf = (\<lambda>r. False), uc_mark = (\<lambda>r. False), uc_NFKC = (\<lambda>txt. txt), uc_ToLower = (\<lambda>txt. txt)\<rparr>"

definition eligible_state :: auto_state where
  "eligible_state = ae_state (entered 7 \<lparr>ae_made = False, ae_state = zero_auto\<rparr>)"

lemma sample_decision:
  "decide plain_tables sample_digest sample_extractor False sample_auto_input waiting_session eligible_state
     = Done (Continue_with ''s go'')"
  by code_simp

text \<open>A run with one confirmed continuation.\<close>

definition sample_run :: auto_run where
  "sample_run = \<lparr>au_entry = incrementIfGeneration 0 (RecordIssued ''s go'' 9 \<lparr>ae_made = True, ae_state = eligible_state\<rparr>), au_inflight = True,
     au_pending = None, au_phase = Some EvaluationDone, au_resets = 0,
     au_log = [SendBegun ''s go'' sample_auto_input, RecommendationIssued ''s go'' True, SendConfirmed 0 0]\<rparr>"

lemma sample_run_reached: "auto_reach plain_tables sample_digest sample_extractor sample_run"
proof -
  let ?R = "auto_reach plain_tables sample_digest sample_extractor"
  let ?e = "\<lparr>ae_made = True, ae_state = eligible_state\<rparr>"
  let ?r = "\<lambda>e inflight phase log. \<lparr>au_entry = e, au_inflight = inflight, au_pending = None, au_phase = phase, au_resets = 0, au_log = log\<rparr>"
  let ?b = "[SendBegun ''s go'' sample_auto_input]"
  have e: "entered 7 \<lparr>ae_made = False, ae_state = zero_auto\<rparr> = ?e" by (simp add: entered_def eligible_state_def zero_auto_def Let_def)
  have g: "as_generation eligible_state = 0" "as_resetAt eligible_state = 0" by (simp_all add: eligible_state_def entered_def zero_auto_def Let_def)
  have 1: "?R (?r ?e False None [])"
    using auto_reach.step [OF auto_reach.initially auto_step.enter [where since = 7]] by (simp add: e)
  have 2: "?R (?r ?e True (Some (Evaluating sample_auto_input)) [])"
    using auto_reach.step [OF 1 auto_step.admit [where i = sample_auto_input]] by (simp add: begin_request_def)
  have 3: "?R (?r ?e True (Some (Chosen 0 0 ''s go'' sample_auto_input)) [])"
    using auto_reach.step [OF 2 auto_step.choose [where is_stopped = False and s = waiting_session]] sample_decision by (simp add: g)
  have 4: "?R (?r ?e True (Some (Sending 0 0 ''s go'' False)) ?b)"
    using auto_reach.step [OF 3 auto_step.send] by (simp add: g)
  have 5: "?R (?r (RecordIssued ''s go'' 9 ?e) True (Some (Sending 0 0 ''s go'' True)) (?b @ [RecommendationIssued ''s go'' True]))"
    using auto_reach.step [OF 4 auto_step.issue [where at = 9]] by (simp add: log_issue_def g)
  show ?thesis using auto_reach.step [OF 5 auto_step.confirmed] by (simp add: sample_run_def)
qed

theorem auto_continue_bounded_witness:
  "confirmed_in 0 (au_log sample_run) = 1 \<and> decided_in 0 (au_log sample_run) \<le> 5
   \<and> (\<exists>body. Extract sample_extractor (ai_Rows sample_auto_input) = Done (body, True) \<and> Classify_runes plain_tables body = ([], False))"
proof -
  have r: "au_resets sample_run < 2 ^ 64" by (simp add: sample_run_def)
  have b: "SendBegun ''s go'' sample_auto_input \<in> set (au_log sample_run)" by (simp add: sample_run_def)
  have "confirmed_in 0 (au_log sample_run) = 1" by (simp add: sample_run_def confirmed_in_def)
  with auto_continue_bounded [OF sample_run_reached r, of 0 "''s go''" sample_auto_input] b show ?thesis by blast
qed

text \<open>A recommendation that is not continued for a reason stops the session with that reason.\<close>

lemma block_stops:
  assumes "block_session E k since stop s = (s', True, err)"
  shows "ms_State s' = SessionStopped \<and> ms_StopReason s' = stop \<and> ms_PreviousState s' = SessionAwaitingRecommendation"
proof -
  let ?v = "su_others E k s"
  let ?p = "?v\<lparr>ms_PreviousState := ms_State ?v\<rparr>"
  obtain t r where a: "Apply EventStop (stop_context stop) (su_now E k) ?p = (t, r)" by (metis prod.exhaust)
  have x: "r = None" "s' = t" "ms_State ?v = SessionAwaitingRecommendation"
    using assms a by (auto simp: block_session_def sup_update_def block_update_def Let_def split: if_splits option.splits)
  from a x show ?thesis
  proof (cases rule: Apply_cases)
    case (allowed to)
    have "to = SessionStopped" using allowed(2) x(3) by (simp add: Transition_def)
    then show ?thesis using allowed(4) x
      by (simp add: record_event_effect_def record_stop_def record_stop_scope_def stop_context_def with_cli_def enter_state_def
          reach_stopped_def reach_exited_def leave_stopped_def change_state_def Let_def)
  qed auto
qed

end
