(* ===== verification/Spec2Isabelle.thy ===== *)
theory Spec2Isabelle
  imports Prelude Domain_Values Task Task_Snapshot Task_Queue Admission Path_Lock Session Text_Policy Terminal Contract Push_Policy Filepath Git_Scope Task_Store
    Task_Runtime Pending_Set Timeout_Watcher Reconcile Task_Cancel Task_Closing Lifecycle
    Screen_Detect Operator_Text Stop_State Exit_Send Send_Input Session_Restart Session_Observer Auto_Continue
begin

text \<open>
  A verification of codex-runner (program \<^verbatim>\<open>codexd\<close>): a daemon that runs tasks, each of them a command-line coding
  agent in a process of its own, and a supervisor that keeps interactive sessions of such agents alive in
  pseudo-terminals. File names below are relative to \<^verbatim>\<open>src/internal\<close>.

  \<^bold>\<open>The program.\<close> A client submits a task. The scheduler admits it (a free slot, no conflicting path lock) or
  queues it; the lifecycle thread of the task launches the process, watches it and closes the task when the process ends.
  Three other kinds of thread may end the same task: the timeout watcher, a cancellation, and the recovery that settles what an earlier
  daemon left behind. They agree through the mutex of the task, the persisted snapshot, the exit-code file that is written
  once, the ownership registries and the claims of the pending set. The supervisor reads what a session
  draws on its terminal, classifies the screen, drives the state machine of the session, and types a text
  only through one use case with a gate, an emergency stop and a check of the echo.

  \<^bold>\<open>Theories of the task daemon.\<close>
  \<^item> \<open>Prelude\<close>: types of the model, Go's \<^verbatim>\<open>strings\<close> and \<^verbatim>\<open>filepath.Clean\<close>, results and panics, shared lemmas.
  \<^item> \<open>Domain_Values\<close> (\<^verbatim>\<open>domain/*.go\<close>, \<^verbatim>\<open>transport/usecase/taskid.go\<close>): value objects and their constructors; round trips and
    exact acceptance.
  \<^item> \<open>Task\<close> (\<^verbatim>\<open>domain/task.go\<close>, \<^verbatim>\<open>event.go\<close>): the aggregate. Every history keeps the invariant, a terminal task is frozen, an
    operation that reports an error changes nothing.
  \<^item> \<open>Task_Snapshot\<close> (\<^verbatim>\<open>domain/tasksnapshot.go\<close>): validation, \<open>WithTask\<close> and \<open>Restore\<close>.
  \<^item> \<open>Task_Queue\<close> (\<^verbatim>\<open>execution/queue.go\<close>, \<^verbatim>\<open>registry.go\<close>, \<^verbatim>\<open>promotion.go\<close>, \<^verbatim>\<open>launching.go\<close>) and \<open>Admission\<close>
    (\<^verbatim>\<open>execution/usecase/admit.go\<close>, \<^verbatim>\<open>advance.go\<close>, \<^verbatim>\<open>slotreleaser.go\<close>): the collections under \<open>queueMu\<close>; capacity is never
    exceeded and a released slot is used by a waiting task.
  \<^item> \<open>Path_Lock\<close> (\<^verbatim>\<open>domain/pathlock.go\<close>, \<^verbatim>\<open>execution/pathlock.go\<close>, \<^verbatim>\<open>store/pathlockstore.go\<close>): two live locks never
    overlap.
  \<^item> \<open>Contract\<close> (\<^verbatim>\<open>contract/*.go\<close>, \<^verbatim>\<open>store/contractreader.go\<close>): the exit-code file and the numbering of the event log across restarts
    (a process that survives a failed close repeats a number, which is proved too).
  \<^item> \<open>Task_Store\<close> (\<^verbatim>\<open>store/taskstore.go\<close>): the file store and its index.
  \<^item> \<open>Task_Runtime\<close>: the locked sections of the use cases on the world of a daemon (store, exit-code files, event logs, markers), with
    every interleaving of the steps of all tasks: the stored end of a task is final and agrees with its exit code.
  \<^item> \<open>Pending_Set\<close> (\<^verbatim>\<open>recovery/pending.go\<close>, the ownership registries, \<^verbatim>\<open>process_signal_authority.go\<close>): at most one thread holds
    the claim to send a signal, and the signal targets the recorded process.
  \<^item> \<open>Timeout_Watcher\<close> (\<^verbatim>\<open>execution/timeout.go\<close>): the watcher as a step relation; retries are bounded and a closed watcher drains.
  \<^item> \<open>Reconcile\<close> and \<open>Task_Cancel\<close> (\<^verbatim>\<open>execution/timeout.go\<close>, \<^verbatim>\<open>recovery/adopt.go\<close>, \<^verbatim>\<open>reconcile.go\<close>, \<^verbatim>\<open>orphan_transition.go\<close>,
    \<^verbatim>\<open>transport/usecase/cancel.go\<close>): the threads that stop processes, as scripts of calls; claims are given back on every path,
    a restart leaves no stored task unattended, and a cancellation signals the process recorded when the task was unlocked.
  \<^item> \<open>Task_Closing\<close> (\<^verbatim>\<open>execution/finalize.go\<close>, \<^verbatim>\<open>cancel.go\<close>, \<^verbatim>\<open>usecase/launchfailure.go\<close>, \<^verbatim>\<open>recovery/resume.go\<close>): the releases
    after the end of a task, run on the scheduler, the watcher, the lock files and the pending set: a closed task keeps its slot
    only when the context ended, its timer only after a failed launch and its lock file only when the deletion failed.
  \<^item> \<open>Lifecycle\<close> (\<^verbatim>\<open>execution/usecase/lifecycle.go\<close>): the thread of a task; it reaps the child it started on every
    path, does not launch a cancelled task, and refines the use cases of \<open>Task_Runtime\<close>.

  \<^bold>\<open>Theories of the supervisor\<close> (\<^verbatim>\<open>supervisor/\<close>).
  \<^item> \<open>Session\<close> (\<^verbatim>\<open>session.go\<close>, \<^verbatim>\<open>restart.go\<close>, \<^verbatim>\<open>sendgate.go\<close>, \<^verbatim>\<open>rotation.go\<close>): the state machine, restart limits, the send gate and
    the handoff record.
  \<^item> \<open>Terminal\<close> (\<^verbatim>\<open>vterm.go\<close>): the virtual terminal with every index checked; no input makes it panic.
  \<^item> \<open>Text_Policy\<close> and \<open>Operator_Text\<close> (\<^verbatim>\<open>textpolicy/*.go\<close>, \<^verbatim>\<open>operatortext.go\<close>, \<^verbatim>\<open>fixedtexts.go\<close>): display width, forbidden phrases,
    the texts that may be typed.
  \<^item> \<open>Screen_Detect\<close> (\<^verbatim>\<open>detect/*.go\<close>, \<^verbatim>\<open>classifier.go\<close>, \<^verbatim>\<open>usecase/completion_selection.go\<close>): the classification of a screen; the search
    for ordered patterns is equivalent to its specification as a subsequence.
  \<^item> \<open>Stop_State\<close> (\<^verbatim>\<open>usecase/stop_state.go\<close>): the emergency stop stays in force until it is released by its own operation.
  \<^item> \<open>Send_Input\<close> and \<open>Exit_Send\<close> (\<^verbatim>\<open>usecase/send_input.go\<close>, \<^verbatim>\<open>send_operator_input.go\<close>, \<^verbatim>\<open>screen_read.go\<close>, \<open>WriteLine\<close> of
    \<^verbatim>\<open>proc/ptysession.go\<close>): the send with its echo check and confirmation, and the protocol of exit sends between two threads.
  \<^item> \<open>Session_Restart\<close> (\<^verbatim>\<open>usecase/recover_session.go\<close>, \<^verbatim>\<open>respawn_session.go\<close>, \<^verbatim>\<open>launch_preflight.go\<close>, \<^verbatim>\<open>pty_registry.go\<close>,
    \<^verbatim>\<open>owned_children.go\<close>, \<^verbatim>\<open>launch/argv.go\<close>): the automatic recovery and the respawn of a child; a process is started only
    after an undisturbed delay and within the restart limits, and an attempt is counted before it.
  \<^item> \<open>Session_Observer\<close> (\<^verbatim>\<open>usecase/detect_state.go\<close>, the session update of \<^verbatim>\<open>observe_session.go\<close>, \<^verbatim>\<open>plan_rotation.go\<close>,
    \<^verbatim>\<open>permission_pending.go\<close>): what the observer concludes from the terminal and records in the session.
  \<^item> \<open>Auto_Continue\<close> (\<^verbatim>\<open>usecase/auto_continue.go\<close>): the automatic answer to a recommendation, with every interleaving of its
    evaluations; at most five that were decided between two resets are confirmed, the last recorded one is never repeated, and none is
    given to a forbidden text.
  \<^item> \<open>Filepath\<close>, \<open>Git_Scope\<close>, \<open>Push_Policy\<close> (\<^verbatim>\<open>gitops/pathscope.go\<close>, \<^verbatim>\<open>porcelain.go\<close>, \<^verbatim>\<open>pushpolicy.go\<close>): what a session
    may touch in its repository and when its branch may be pushed.
  This theory holds the property that spans admission, the snapshot and the recovery after a restart.

  \<^bold>\<open>Conventions.\<close> A struct is a record, a string enumeration a datatype with a constructor for every other string, a pointer an
  option, an error result a sum, a panic the outcome \<open>Panic\<close>. Integers whose overflow matters are words (tokens, generations,
  observation numbers); instants are nanoseconds from Go's zero time. A section under a mutex is one atomic step. Code that runs without
  a lock takes, for each point where it reads shared state, what it reads there and what other threads do before it, as
  arguments; its theorems hold for all of them. Two runs are modelled without other threads between their steps, as their
  theorems say: the rounds of the slot releaser and the releases of a closed task. Every other loop of the source is a recursion on a list or on a measure, so no fuel
  is used and every function is total; waiting loops recurse on the finite list of notifications that arrive before the
  deadline.

  \<^bold>\<open>Parameters.\<close> Unicode tables and the normal form NFKC, JSON codecs, answers of the file system and of git, regular expressions
  other than those the source contains, the clock, random bytes, liveness of processes, and the threads outside the modelled part. The
  few theorems that rely on one of them name what they use as a hypothesis (a locale or a premise) and have a witness with a concrete
  function.

  \<^bold>\<open>Not modelled.\<close> Process launch and system calls (\<^verbatim>\<open>proc\<close>, \<^verbatim>\<open>execution/launch.go\<close>), sockets and message decoding
  (\<^verbatim>\<open>transport\<close>, \<^verbatim>\<open>supervisor/transport\<close>), log streaming, metrics, configuration files, worktree placement and eviction, the
  remaining file stores and the command-line programs: they are input and output around the components above, which take their
  answers as arguments. Of the supervisor the loop around the observer with
  its channels and the threads that rotate a session, commit verified changes, push, and start or stop
  a session are left out; the decisions they call (state machine, restart limits, handoff record and plan, scope,
  push policy, send, respawn) are modelled. Log records are left out throughout.
\<close>

section \<open>A task from its identifier to its recovery\<close>

lemma Admit_immediate:
  assumes "Admit cfg i s = Done (s', Inr res)" and "ar_LaunchPayload res = Some p"
  shows "\<exists>t events snap. NewTask (ai_TaskID i) (ai_Subcommand i) (ai_Slug i) (ai_RequestedTimeout i)
            (ai_RequestedAt i) (int (length (sc_queue s)) + 1) = Inr (t, events)
         \<and> admission_snapshot (admission_payload i t) t = Inr snap
         \<and> launching_Lookup (id t) (sc_launching s') = Some snap"
  using assms unfolding Admit_def
  by (auto simp: Let_def and_then_Done launching_Lookup_def launching_Register_def update_conv'
      split: option.splits if_splits sum.splits prod.splits)

lemma admission_snapshot_Inr:
  assumes "admission_snapshot p t = Inr snap"
  shows "Validate snap = None \<and> sn_TaskID snap = id t \<and> sn_Subcommand snap = subcommand t
    \<and> sn_State snap = state t \<and> sn_RequestedAt snap = requestedAt t \<and> sn_PID snap = None
    \<and> sn_RequestedTimeoutSeconds snap = requestedTimeout t"
  using assms
  by (auto simp: admission_snapshot_def NewTaskSnapshotFromAdmission_def Let_def zero_snapshot_def
      split: option.splits)

lemma Restore_unstarted:
  assumes "Validate snap = None" and "sn_PID snap = None" and "slugFromTaskID (sn_TaskID snap) = Inr sl"
  shows "\<exists>t. Restore snap = Done (Inr t) \<and> id t = sn_TaskID snap \<and> subcommand t = sn_Subcommand snap
    \<and> slug t = sl \<and> state t = sn_State snap \<and> requestedAt t = sn_RequestedAt snap
    \<and> requestedTimeout t = sn_RequestedTimeoutSeconds snap"
proof -
  from assms(1) have "validate_core snap = None" by (simp add: Validate_None)
  from validate_core_process(4) [OF this]
  obtain to where "NewTimeout (sn_RequestedTimeoutSeconds snap) (sn_ResolvedTimeoutSeconds snap) = Inr to"
    by (cases "NewTimeout (sn_RequestedTimeoutSeconds snap) (sn_ResolvedTimeoutSeconds snap)") auto
  with assms show ?thesis by (simp add: Restore_def Let_def)
qed

text \<open>
  C37: a task that the daemon admits into a slot can be recovered. Its identifier comes from the
  generator and its slug from the request; once admission has succeeded, the launching registry holds a
  snapshot from which restoring gives a queued task with the same identifier, subcommand, slug, requested
  timeout and request time.
\<close>

theorem admitted_task_recoverable:
  assumes "newTaskID (ai_Subcommand i) (ai_Slug i) at (Some (b1, b2)) = Inr (ai_TaskID i)"
    and "IsSubmittable (ai_Subcommand i)" and "NewSlug v = Inr (ai_Slug i)" and "civil_ok at"
    and "Admit cfg i s = Done (s', Inr res)" and "ar_LaunchPayload res = Some p"
  shows "\<exists>snap t. launching_Lookup (ai_TaskID i) (sc_launching s') = Some snap
    \<and> Restore snap = Done (Inr t) \<and> state t = StateQueued \<and> id t = ai_TaskID i
    \<and> subcommand t = ai_Subcommand i \<and> slug t = ai_Slug i \<and> requestedAt t = ai_RequestedAt i
    \<and> requestedTimeout t = ai_RequestedTimeout i"
proof -
  from newTaskID_ok [OF assms(2-4), of b1 b2] assms(1)
  have sl: "slugFromTaskID (ai_TaskID i) = Inr (ai_Slug i)" by auto
  from Admit_immediate [OF assms(5,6)] obtain t events snap where
    t: "NewTask (ai_TaskID i) (ai_Subcommand i) (ai_Slug i) (ai_RequestedTimeout i)
          (ai_RequestedAt i) (int (length (sc_queue s)) + 1) = Inr (t, events)"
      "admission_snapshot (admission_payload i t) t = Inr snap"
      "launching_Lookup (id t) (sc_launching s') = Some snap" by blast
  then have "id t = ai_TaskID i \<and> subcommand t = ai_Subcommand i \<and> state t = StateQueued
      \<and> requestedAt t = ai_RequestedAt i \<and> requestedTimeout t = ai_RequestedTimeout i"
    by (auto simp: NewTask_def split: if_splits)
  with admission_snapshot_Inr [OF t(2)] Restore_unstarted [of snap "ai_Slug i"] sl t(3)
  show ?thesis by auto
qed

definition sample_civil :: civil_time where
  "sample_civil = \<lparr>civ_year = 2024, civ_month = 2, civ_day = 29, civ_hour = 23, civ_min = 59, civ_sec = 0\<rparr>"

definition sample_request :: admission_input where
  "sample_request = sample_input ''impl-20240229-235900-ab07-fix''"

theorem admitted_task_recoverable_witness:
  "\<exists>s' res snap t. Admit sample_config sample_request empty_sched = Done (s', Inr res)
    \<and> launching_Lookup (ai_TaskID sample_request) (sc_launching s') = Some snap
    \<and> Restore snap = Done (Inr t) \<and> state t = StateQueued \<and> slug t = ai_Slug sample_request"
proof -
  have "case Admit sample_config sample_request empty_sched of
          Done (s', Inr res) \<Rightarrow> ar_LaunchPayload res \<noteq> None | _ \<Rightarrow> False"
    by code_simp
  then obtain s' res p where a: "Admit sample_config sample_request empty_sched = Done (s', Inr res)"
      "ar_LaunchPayload res = Some p"
    by (auto split: outcome.splits prod.splits sum.splits)
  have "\<exists>snap t. launching_Lookup (ai_TaskID sample_request) (sc_launching s') = Some snap
    \<and> Restore snap = Done (Inr t) \<and> state t = StateQueued \<and> id t = ai_TaskID sample_request
    \<and> subcommand t = ai_Subcommand sample_request \<and> slug t = ai_Slug sample_request
    \<and> requestedAt t = ai_RequestedAt sample_request
    \<and> requestedTimeout t = ai_RequestedTimeout sample_request"
  proof (rule admitted_task_recoverable [OF _ _ _ _ a])
    show "newTaskID (ai_Subcommand sample_request) (ai_Slug sample_request) sample_civil (Some (171, 7))
        = Inr (ai_TaskID sample_request)" by code_simp
    show "IsSubmittable (ai_Subcommand sample_request)" by code_simp
    show "NewSlug ''fix'' = Inr (ai_Slug sample_request)" by code_simp
    show "civil_ok sample_civil" by code_simp
  qed
  with a(1) show ?thesis by blast
qed

end
